(* ===== verification/Prelude.thy ===== *)
theory Prelude
  imports Complex_Main
begin

text \<open>
  Shared vocabulary of the development: the types that stand for money, time and machine
  integers, the checked and saturating arithmetic of Rust's unsigned and signed integers, the
  result type of fallible operations, the fixed-point decimals of the billing code, and the
  list lemmas the component theories use.
\<close>

section \<open>Types\<close>

type_synonym money = rat
type_synonym time = int
type_synonym uuid = nat

text \<open>A result of Rust's \<^verbatim>\<open>Result\<close> is a sum: \<^verbatim>\<open>Inl\<close> is the error, \<^verbatim>\<open>Inr\<close> the value.\<close>

type_synonym ('e, 'a) result = "'e + 'a"

named_theorems money_simps \<open>unfolding rules for the pricing and fee arithmetic\<close>
named_theorems db_simps \<open>how the tables of a database state change under an update\<close>
named_theorems guard_simps \<open>unfolding rules for the guards an operation evaluates\<close>

section \<open>Machine integers\<close>

definition u64_max :: nat where
  "u64_max = 2 ^ 64 - 1"

definition i64_max :: int where
  "i64_max = 2 ^ 63 - 1"

definition i64_min :: int where
  "i64_min = - (2 ^ 63)"

definition i32_max :: int where
  "i32_max = 2 ^ 31 - 1"

definition sat_add :: "nat \<Rightarrow> nat \<Rightarrow> nat" where
  "sat_add a b = min (a + b) u64_max"

definition sat_mul :: "nat \<Rightarrow> nat \<Rightarrow> nat" where
  "sat_mul a b = min (a * b) u64_max"

definition sat_add_i64 :: "int \<Rightarrow> int \<Rightarrow> int" where
  "sat_add_i64 a b = max i64_min (min (a + b) i64_max)"

definition checked_add_i64 :: "int \<Rightarrow> int \<Rightarrow> int option" where
  "checked_add_i64 a b = (if i64_min \<le> a + b \<and> a + b \<le> i64_max then Some (a + b) else None)"

lemma sat_add_le: "sat_add a b \<le> u64_max" "sat_add a b \<le> a + b"
  by (auto simp: sat_add_def)

lemma sat_add_mono: "a \<le> a' \<Longrightarrow> b \<le> b' \<Longrightarrow> sat_add a b \<le> sat_add a' b'"
  by (auto simp: sat_add_def)

lemma sat_add_ge1: "a \<le> u64_max \<Longrightarrow> a \<le> sat_add a b"
  by (auto simp: sat_add_def)

lemma sat_add_ge2: "b \<le> u64_max \<Longrightarrow> b \<le> sat_add a b"
  by (auto simp: sat_add_def)

lemma sat_add_exact: "a + b \<le> u64_max \<Longrightarrow> sat_add a b = a + b"
  by (auto simp: sat_add_def)

section \<open>Decimals\<close>

text \<open>
  \<^verbatim>\<open>rust_decimal\<close> is not part of the repository: its checked operations and its conversion
  from a float are the fields of a record that the pricing definitions take as an argument.  A
  decimal is an integer below \<^verbatim>\<open>2 ^ 96\<close> scaled by at most 28 decimal places, and the
  library documents that an operation whose exact result is such a number returns it.
\<close>

record decimal_ops =
  d_from_f64 :: "rat \<Rightarrow> money option"
  d_mul :: "money \<Rightarrow> money \<Rightarrow> money option"
  d_add :: "money \<Rightarrow> money \<Rightarrow> money option"
  d_div :: "money \<Rightarrow> money \<Rightarrow> money option"

definition at_scale :: "nat \<Rightarrow> rat \<Rightarrow> bool" where
  "at_scale s x \<longleftrightarrow> of_int \<lfloor>x * 10 ^ s\<rfloor> = x * 10 ^ s"

definition dec_repr :: "rat \<Rightarrow> bool" where
  "dec_repr x \<longleftrightarrow> list_ex (\<lambda>s. at_scale s x \<and> \<bar>x * 10 ^ s\<bar> < 2 ^ 96) [0..<29]"

definition decimal_exact :: "decimal_ops \<Rightarrow> bool" where
  "decimal_exact D \<longleftrightarrow>
     (\<forall>a b. dec_repr (a * b) \<longrightarrow> d_mul D a b = Some (a * b)) \<and>
     (\<forall>a b. dec_repr (a + b) \<longrightarrow> d_add D a b = Some (a + b)) \<and>
     (\<forall>a b. b \<noteq> 0 \<longrightarrow> dec_repr (a / b) \<longrightarrow> d_div D a b = Some (a / b))"

text \<open>A concrete instance of the documented behaviour, for the witnesses.\<close>

definition exact_decimal :: decimal_ops where
  "exact_decimal = \<lparr> d_from_f64 = Some,
     d_mul = (\<lambda>a b. if dec_repr (a * b) then Some (a * b) else None),
     d_add = (\<lambda>a b. if dec_repr (a + b) then Some (a + b) else None),
     d_div = (\<lambda>a b. if b \<noteq> 0 \<and> dec_repr (a / b) then Some (a / b) else None) \<rparr>"

lemma exact_decimal_exact: "decimal_exact exact_decimal"
  by (simp add: decimal_exact_def exact_decimal_def)

lemma at_scale_iff: "at_scale s x \<longleftrightarrow> x * 10 ^ s \<in> \<int>"
  by (metis at_scale_def Ints_cases Ints_of_int floor_of_int)

lemma at_scale_add: "at_scale s x \<Longrightarrow> at_scale s y \<Longrightarrow> at_scale s (x + y)"
  by (simp add: at_scale_iff distrib_right)

lemma at_scale_of_nat_mult: "at_scale s x \<Longrightarrow> at_scale s (of_nat n * x)"
  by (simp add: at_scale_iff mult.assoc)

lemma at_scale_div_pow: "at_scale s x \<Longrightarrow> at_scale (s + k) (x / 10 ^ k)"
  by (simp add: at_scale_iff power_add mult.commute mult.left_commute)

lemma dec_reprI:
  assumes "at_scale s x" "s \<le> 28" "\<bar>x * 10 ^ s\<bar> < 2 ^ 96"
  shows "dec_repr x"
  using assms unfolding dec_repr_def list_ex_iff by (auto intro!: bexI [of _ s])

lemma decimal_exact_mul: "decimal_exact D \<Longrightarrow> dec_repr (a * b) \<Longrightarrow> d_mul D a b = Some (a * b)"
  and decimal_exact_add: "decimal_exact D \<Longrightarrow> dec_repr (a + b) \<Longrightarrow> d_add D a b = Some (a + b)"
  and decimal_exact_div:
    "decimal_exact D \<Longrightarrow> b \<noteq> 0 \<Longrightarrow> dec_repr (a / b) \<Longrightarrow> d_div D a b = Some (a / b)"
  by (simp_all add: decimal_exact_def)

section \<open>Text\<close>

text \<open>
  A string is its UTF-8 bytes.  \<^verbatim>\<open>str::trim\<close> removes the white space of Unicode at both
  ends: the encodings of its code points, looked for from the front and, reversed, from the back.
\<close>

definition white_space :: "nat list list" where
  "white_space = [[9], [10], [11], [12], [13], [32], [194, 133], [194, 160], [225, 154, 128],
     [226, 128, 128], [226, 128, 129], [226, 128, 130], [226, 128, 131], [226, 128, 132],
     [226, 128, 133], [226, 128, 134], [226, 128, 135], [226, 128, 136], [226, 128, 137],
     [226, 128, 138], [226, 128, 168], [226, 128, 169], [226, 128, 175], [226, 129, 159],
     [227, 128, 128]]"

definition space_len :: "nat list list \<Rightarrow> string \<Rightarrow> nat" where
  "space_len encodings s =
     (case List.find (\<lambda>e. List.map of_char (take (length e) s) = e) encodings of
        None \<Rightarrow> 0 | Some e \<Rightarrow> length e)"

function strip :: "nat list list \<Rightarrow> string \<Rightarrow> string" where
  "strip encodings s =
     (if s = [] \<or> space_len encodings s = 0 then s else strip encodings (drop (space_len encodings s) s))"
  by pat_completeness auto
termination
  by (relation "measure (\<lambda>(e, s). length s)") auto

declare strip.simps [simp del]

lemma strip_Nil [simp]: "strip e [] = []"
  by (simp add: strip.simps)

definition trim_start :: "string \<Rightarrow> string" where
  "trim_start s = strip white_space s"

definition trim_end :: "string \<Rightarrow> string" where
  "trim_end s = rev (strip (List.map rev white_space) (rev s))"

definition trim :: "string \<Rightarrow> string" where
  "trim s = trim_end (trim_start s)"

text \<open>Printable ASCII text without blanks is its own trimming.\<close>

definition plain_char :: "char \<Rightarrow> bool" where
  "plain_char c \<longleftrightarrow> 33 \<le> (of_char c :: nat) \<and> (of_char c :: nat) < 128"

lemma strip_plain:
  assumes "\<forall>e \<in> set E. e \<noteq> [] \<and> \<not> (33 \<le> hd e \<and> hd e < 128)" "s = [] \<or> plain_char (hd s)"
  shows "strip E s = s"
proof (cases s)
  case (Cons c r)
  have "List.find (\<lambda>e. List.map of_char (take (length e) s) = e) E = None"
    unfolding find_None_iff
  proof
    assume "\<exists>e. e \<in> set E \<and> List.map of_char (take (length e) s) = e"
    then obtain e where e: "e \<in> set E" "List.map of_char (take (length e) s) = e"
      by blast
    then have "e \<noteq> []"
      using assms(1) by blast
    then have "hd e = of_char c"
      using e(2) Cons by (cases e) auto
    then show False
      using e(1) assms Cons by (auto simp: plain_char_def)
  qed
  then have "space_len E s = 0"
    by (simp add: space_len_def)
  then show ?thesis
    by (simp add: strip.simps)
qed simp

lemma trim_plain:
  assumes "list_all plain_char s"
  shows "trim s = s"
proof -
  have "s = [] \<or> plain_char (hd s)"
    using assms by (cases s) simp_all
  moreover have "rev s = [] \<or> plain_char (hd (rev s))"
    using assms by (cases s rule: rev_cases) simp_all
  ultimately have "strip white_space s = s" "strip (List.map rev white_space) (rev s) = rev s"
    by (auto intro!: strip_plain simp: white_space_def)
  then show ?thesis
    by (simp add: trim_def trim_start_def trim_end_def)
qed

lemmas trim_eval = trim_def trim_start_def trim_end_def strip.simps space_len_def white_space_def

text \<open>The pattern of one or more digits with an optional fraction, and its value.\<close>

definition is_digit :: "char \<Rightarrow> bool" where
  "is_digit c \<longleftrightarrow> 48 \<le> (of_char c :: nat) \<and> (of_char c :: nat) \<le> 57"

definition digits_value :: "string \<Rightarrow> nat" where
  "digits_value ds = foldl (\<lambda>v c. 10 * v + (of_char c - 48)) 0 ds"

definition plain_numeric :: "string \<Rightarrow> rat option" where
  "plain_numeric s =
     (let whole = takeWhile is_digit s; rest = dropWhile is_digit s in
      if whole = [] then None
      else case rest of
             [] \<Rightarrow> Some (of_nat (digits_value whole))
           | c # fraction \<Rightarrow>
               if c = CHR ''.'' \<and> fraction \<noteq> [] \<and> list_all is_digit fraction
               then Some (of_nat (digits_value whole) + of_nat (digits_value fraction) / 10 ^ length fraction)
               else None)"

section \<open>Lists and sums\<close>

text \<open>The sum of a column over the rows that satisfy a condition, as SQL's filtered SUM.\<close>

definition sum_where :: "('r \<Rightarrow> bool) \<Rightarrow> ('r \<Rightarrow> 'n::comm_monoid_add) \<Rightarrow> 'r list \<Rightarrow> 'n" where
  "sum_where P f xs = sum_list (List.map f (List.filter P xs))"

definition count_where :: "('r \<Rightarrow> bool) \<Rightarrow> 'r list \<Rightarrow> nat" where
  "count_where P xs = length (List.filter P xs)"

text \<open>An UPDATE of the rows that satisfy a condition.\<close>

definition update_where :: "('r \<Rightarrow> bool) \<Rightarrow> ('r \<Rightarrow> 'r) \<Rightarrow> 'r list \<Rightarrow> 'r list" where
  "update_where P f xs = List.map (\<lambda>x. if P x then f x else x) xs"

lemma sum_where_Nil [simp]: "sum_where P f [] = 0"
  by (simp add: sum_where_def)

lemma sum_where_Cons [simp]:
  "sum_where P f (x # xs) = (if P x then f x else 0) + sum_where P f xs"
  by (simp add: sum_where_def)

lemma sum_where_append [simp]: "sum_where P f (xs @ ys) = sum_where P f xs + sum_where P f ys"
  by (induction xs) (simp_all add: add.assoc)

lemma count_where_Nil [simp]: "count_where P [] = 0"
  by (simp add: count_where_def)

lemma count_where_Cons [simp]: "count_where P (x # xs) = (if P x then 1 else 0) + count_where P xs"
  by (simp add: count_where_def)

lemma update_where_Nil [simp]: "update_where P f [] = []"
  by (simp add: update_where_def)

lemma update_where_Cons [simp]:
  "update_where P f (x # xs) = (if P x then f x else x) # update_where P f xs"
  by (simp add: update_where_def)

lemma set_update_where:
  "set (update_where P f xs) = (\<lambda>x. if P x then f x else x) ` set xs"
  by (simp add: update_where_def)

lemma update_whereE:
  assumes "x \<in> set (update_where P f xs)"
  obtains y where "y \<in> set xs" "x = (if P y then f y else y)"
  using assms by (auto simp: update_where_def)

lemma in_update_where: "y \<in> set xs \<Longrightarrow> (if P y then f y else y) \<in> set (update_where P f xs)"
  by (auto simp: update_where_def)

lemma map_update_where:
  "(\<And>x. g (f x) = g x) \<Longrightarrow> List.map g (update_where P f xs) = List.map g xs"
  by (induction xs) auto

lemma sum_where_cong:
  "(\<And>x. x \<in> set xs \<Longrightarrow> P x = Q x) \<Longrightarrow> (\<And>x. x \<in> set xs \<Longrightarrow> Q x \<Longrightarrow> f x = g x) \<Longrightarrow>
    sum_where P f xs = sum_where Q g xs"
  by (induction xs) auto

lemma sum_where_nonneg:
  fixes f :: "'r \<Rightarrow> 'n::ordered_comm_monoid_add"
  shows "(\<And>x. x \<in> set xs \<Longrightarrow> P x \<Longrightarrow> 0 \<le> f x) \<Longrightarrow> 0 \<le> sum_where P f xs"
  by (induction xs) (auto intro: add_nonneg_nonneg)

lemma sum_where_mono:
  fixes f :: "'r \<Rightarrow> 'n::ordered_comm_monoid_add"
  shows "(\<And>x. x \<in> set xs \<Longrightarrow> P x \<Longrightarrow> Q x) \<Longrightarrow> (\<And>x. x \<in> set xs \<Longrightarrow> Q x \<Longrightarrow> 0 \<le> f x) \<Longrightarrow>
    sum_where P f xs \<le> sum_where Q f xs"
proof (induction xs)
  case Nil
  show ?case by simp
next
  case (Cons x xs)
  have "sum_where P f xs \<le> sum_where Q f xs"
    using Cons by simp
  moreover have "(if P x then f x else 0) \<le> (if Q x then f x else 0)"
    using Cons.prems by auto
  ultimately show ?case
    by (simp add: add_mono)
qed

lemma sum_where_filter: "sum_where P f (List.filter Q xs) = sum_where (\<lambda>x. Q x \<and> P x) f xs"
  by (induction xs) auto

lemma sum_where_update:
  "(\<And>x. x \<in> set xs \<Longrightarrow> Q x \<Longrightarrow> P (g x) = P x) \<Longrightarrow> (\<And>x. x \<in> set xs \<Longrightarrow> Q x \<Longrightarrow> f (g x) = f x) \<Longrightarrow>
    sum_where P f (update_where Q g xs) = sum_where P f xs"
  by (induction xs) auto

lemma sum_where_remove:
  fixes f :: "'r \<Rightarrow> 'n::ab_group_add"
  assumes "distinct (List.map k xs)" and "x \<in> set xs"
  shows "sum_where P f (List.filter (\<lambda>y. k y \<noteq> k x) xs) = sum_where P f xs - (if P x then f x else 0)"
  using assms
proof (induction xs)
  case Nil
  then show ?case by simp
next
  case (Cons y ys)
  show ?case
  proof (cases "k y = k x")
    case True
    then have "k x \<notin> k ` set ys"
      using Cons.prems(1) by auto
    then have "y = x"
      using Cons.prems(2) by auto
    moreover have "List.filter (\<lambda>y. k y \<noteq> k x) ys = ys"
      using \<open>k x \<notin> k ` set ys\<close> by (auto simp: filter_id_conv intro: rev_image_eqI)
    ultimately have "y = x" and "List.filter (\<lambda>y. k y \<noteq> k x) ys = ys"
      by simp_all
    then show ?thesis
      by simp
  next
    case False
    then show ?thesis
      using Cons by auto
  qed
qed

lemma distinct_map_filter_key: "distinct (List.map k xs) \<Longrightarrow> distinct (List.map k (List.filter P xs))"
  by (induction xs) auto

lemma find_SomeD: "List.find P xs = Some x \<Longrightarrow> x \<in> set xs \<and> P x"
  by (auto simp: find_Some_iff)

lemma find_NoneD: "List.find P xs = None \<Longrightarrow> x \<in> set xs \<Longrightarrow> \<not> P x"
  by (auto simp: find_None_iff)

lemma find_SomeI: "x \<in> set xs \<Longrightarrow> P x \<Longrightarrow> \<exists>y. List.find P xs = Some y"
  by (metis find_None_iff option.exhaust)

lemma distinct_key_unique:
  "distinct (List.map k xs) \<Longrightarrow> x \<in> set xs \<Longrightarrow> y \<in> set xs \<Longrightarrow> k x = k y \<Longrightarrow> x = y"
  by (auto simp: distinct_map inj_on_def)

lemma find_key:
  "distinct (List.map k xs) \<Longrightarrow> x \<in> set xs \<Longrightarrow> List.find (\<lambda>y. k y = k x) xs = Some x"
  by (induction xs) auto

end
