(* ===== verification/Priority.thy ===== *)
theory Priority
  imports Prelude
begin

text \<open>
  The request priority of \<^verbatim>\<open>router/src/priority.rs\<close> and the other closed vocabularies that
  are stored as keywords: the reservation basis and the credit-limit window of
  \<^verbatim>\<open>router/src/db.rs\<close>, the usage gap of \<^verbatim>\<open>router/src/provider.rs\<close> and the
  finish-reason source of \<^verbatim>\<open>router/src/openai.rs\<close>.  Each has a printer and a parser.
\<close>

datatype priority = Cost | Balanced | Success

definition priority_from_keyword :: "string \<Rightarrow> priority option" where
  "priority_from_keyword k =
     (if k = ''cost'' then Some Cost
      else if k = ''balanced'' then Some Balanced
      else if k = ''success'' then Some Success
      else None)"

fun priority_as_str :: "priority \<Rightarrow> string" where
  "priority_as_str Cost = ''cost''"
| "priority_as_str Balanced = ''balanced''"
| "priority_as_str Success = ''success''"

datatype reservation_basis = Cold | Learned

fun basis_as_str :: "reservation_basis \<Rightarrow> string" where
  "basis_as_str Cold = ''cold''"
| "basis_as_str Learned = ''learned''"

text \<open>An unknown basis reads back as the conservative one.\<close>

definition basis_from_keyword :: "string \<Rightarrow> reservation_basis" where
  "basis_from_keyword k = (if k = ''learned'' then Learned else Cold)"

datatype credit_limit_window = Daily | Weekly | Monthly

definition window_from_keyword :: "string \<Rightarrow> credit_limit_window option" where
  "window_from_keyword k =
     (if k = ''daily'' then Some Daily
      else if k = ''weekly'' then Some Weekly
      else if k = ''monthly'' then Some Monthly
      else None)"

fun window_as_str :: "credit_limit_window \<Rightarrow> string" where
  "window_as_str Daily = ''daily''"
| "window_as_str Weekly = ''weekly''"
| "window_as_str Monthly = ''monthly''"

datatype usage_gap = IncludeUsageIgnored | DoneMissing

fun usage_gap_as_str :: "usage_gap \<Rightarrow> string" where
  "usage_gap_as_str IncludeUsageIgnored = ''include_usage_ignored''"
| "usage_gap_as_str DoneMissing = ''done_missing''"

definition usage_gap_from_keyword :: "string \<Rightarrow> usage_gap option" where
  "usage_gap_from_keyword k =
     (if k = ''include_usage_ignored'' then Some IncludeUsageIgnored
      else if k = ''done_missing'' then Some DoneMissing
      else None)"

definition FINISH_REASON_UPSTREAM :: string where
  "FINISH_REASON_UPSTREAM = ''upstream''"

definition FINISH_REASON_SYNTHETIC :: string where
  "FINISH_REASON_SYNTHETIC = ''synthetic''"

definition finish_reason_source_from_keyword :: "string \<Rightarrow> string option" where
  "finish_reason_source_from_keyword s =
     (if s = FINISH_REASON_UPSTREAM then Some FINISH_REASON_UPSTREAM
      else if s = FINISH_REASON_SYNTHETIC then Some FINISH_REASON_SYNTHETIC
      else None)"

section \<open>One contract for every vocabulary\<close>

text \<open>
  A keyword codec prints a value and parses the printed text back, and parses nothing that it
  would not print.
\<close>

locale keyword_codec =
  fixes show_kw :: "'a \<Rightarrow> string"
    and parse_kw :: "string \<Rightarrow> 'a option"
  assumes parse_show: "parse_kw (show_kw x) = Some x"
    and show_parse: "parse_kw k = Some x \<Longrightarrow> show_kw x = k"
begin

lemma show_inj: "show_kw x = show_kw y \<Longrightarrow> x = y"
  by (metis parse_show option.inject)

lemma parse_eq_Some: "parse_kw k = Some x \<longleftrightarrow> k = show_kw x"
  using parse_show show_parse by auto

lemma parse_eq_None: "parse_kw k = None \<longleftrightarrow> k \<notin> range show_kw"
  by (metis (no_types, lifting) option.distinct(1) not_None_eq parse_eq_Some rangeE rangeI)

lemma map_roundtrip: "Option.bind (map_option show_kw ox) parse_kw = ox"
  by (cases ox) (simp_all add: parse_show)

end

interpretation priority_kw: keyword_codec priority_as_str priority_from_keyword
proof unfold_locales
  show "priority_from_keyword (priority_as_str x) = Some x" for x
    by (cases x) (simp_all add: priority_from_keyword_def)
  show "priority_from_keyword k = Some x \<Longrightarrow> priority_as_str x = k" for k x
    by (auto simp: priority_from_keyword_def split: if_splits)
qed

interpretation window_kw: keyword_codec window_as_str window_from_keyword
proof unfold_locales
  show "window_from_keyword (window_as_str x) = Some x" for x
    by (cases x) (simp_all add: window_from_keyword_def)
  show "window_from_keyword k = Some x \<Longrightarrow> window_as_str x = k" for k x
    by (auto simp: window_from_keyword_def split: if_splits)
qed

interpretation usage_gap_kw: keyword_codec usage_gap_as_str usage_gap_from_keyword
proof unfold_locales
  show "usage_gap_from_keyword (usage_gap_as_str x) = Some x" for x
    by (cases x) (simp_all add: usage_gap_from_keyword_def)
  show "usage_gap_from_keyword k = Some x \<Longrightarrow> usage_gap_as_str x = k" for k x
    by (auto simp: usage_gap_from_keyword_def split: if_splits)
qed

lemma basis_roundtrip [simp]: "basis_from_keyword (basis_as_str b) = b"
  by (cases b) (simp_all add: basis_from_keyword_def)

end
