(* ===== verification/Pricing.thy ===== *)
theory Pricing
  imports Prelude "HOL-Library.Monad_Syntax"
begin

text \<open>
  Rates, rate schedules and the cost of a usage: \<^verbatim>\<open>ModelRates\<close>, \<^verbatim>\<open>RateSchedule\<close> and
  \<^verbatim>\<open>dearest_across\<close> of \<^verbatim>\<open>router/src/provider.rs\<close>, and \<^verbatim>\<open>OpenAiUsage\<close>,
  \<^verbatim>\<open>billable_rate\<close> and \<^verbatim>\<open>usage_cost\<close> of \<^verbatim>\<open>router/src/openai.rs\<close>.  A float rate is
  the rational it denotes; token counts are naturals with Rust's saturating additions written out.
\<close>

section \<open>Rates\<close>

record model_rates =
  input_per_mtok :: "rat option"
  output_per_mtok :: "rat option"
  cached_input_per_mtok :: "rat option"
  cache_write_per_mtok :: "rat option"

definition or_else :: "'a option \<Rightarrow> 'a option \<Rightarrow> 'a option" where
  "or_else a b = (case a of Some _ \<Rightarrow> a | None \<Rightarrow> b)"

definition unwrap_or :: "'a option \<Rightarrow> 'a \<Rightarrow> 'a" where
  "unwrap_or a d = (case a of Some x \<Rightarrow> x | None \<Rightarrow> d)"

definition rates_is_empty :: "model_rates \<Rightarrow> bool" where
  "rates_is_empty r \<longleftrightarrow> input_per_mtok r = None \<and> output_per_mtok r = None \<and>
     cached_input_per_mtok r = None \<and> cache_write_per_mtok r = None"

definition effective_cached_input_per_mtok :: "model_rates \<Rightarrow> rat option" where
  "effective_cached_input_per_mtok r = or_else (cached_input_per_mtok r) (input_per_mtok r)"

definition effective_cache_write_per_mtok :: "model_rates \<Rightarrow> rat option" where
  "effective_cache_write_per_mtok r = or_else (cache_write_per_mtok r) (input_per_mtok r)"

definition prices_cache_writes :: "model_rates \<Rightarrow> bool" where
  "prices_cache_writes r \<longleftrightarrow> cache_write_per_mtok r \<noteq> None"

fun dearest2 :: "rat option \<Rightarrow> rat option \<Rightarrow> rat option" where
  "dearest2 (Some a) (Some b) = Some (max a b)"
| "dearest2 a None = a"
| "dearest2 None b = b"

definition dearest_prompt_per_mtok :: "model_rates \<Rightarrow> rat option" where
  "dearest_prompt_per_mtok r =
     dearest2 (dearest2 (input_per_mtok r) (effective_cached_input_per_mtok r))
       (effective_cache_write_per_mtok r)"

definition required_rates_are_zero :: "model_rates \<Rightarrow> bool" where
  "required_rates_are_zero r \<longleftrightarrow> input_per_mtok r = Some 0 \<and> output_per_mtok r = Some 0"

definition rates_are_zero :: "model_rates \<Rightarrow> bool" where
  "rates_are_zero r \<longleftrightarrow> required_rates_are_zero r \<and>
     effective_cached_input_per_mtok r = Some 0 \<and> effective_cache_write_per_mtok r = Some 0"

section \<open>Schedules\<close>

record conditional_rate =
  min_prompt_tokens :: nat
  cond_rates :: model_rates

record rate_schedule =
  base :: model_rates
  conditional :: "conditional_rate list"

definition flat :: "model_rates \<Rightarrow> rate_schedule" where
  "flat r = \<lparr> base = r, conditional = [] \<rparr>"

definition is_flat :: "rate_schedule \<Rightarrow> bool" where
  "is_flat s \<longleftrightarrow> conditional s = []"

definition tables :: "rate_schedule \<Rightarrow> model_rates list" where
  "tables s = base s # List.map cond_rates (conditional s)"

text \<open>\<^verbatim>\<open>Iterator::max_by_key\<close> keeps the last of several maximal elements.\<close>

fun max_by_threshold :: "conditional_rate option \<Rightarrow> conditional_rate list \<Rightarrow> conditional_rate option" where
  "max_by_threshold best [] = best"
| "max_by_threshold None (c # cs) = max_by_threshold (Some c) cs"
| "max_by_threshold (Some b) (c # cs) =
     max_by_threshold (Some (if min_prompt_tokens b \<le> min_prompt_tokens c then c else b)) cs"

definition at_prompt_tokens :: "rate_schedule \<Rightarrow> nat \<Rightarrow> model_rates" where
  "at_prompt_tokens s prompt_tokens =
     (if conditional s = [] then base s
      else case max_by_threshold None
                  (List.filter (\<lambda>c. min_prompt_tokens c \<le> prompt_tokens) (conditional s)) of
             None \<Rightarrow> base s
           | Some c \<Rightarrow> cond_rates c)"

text \<open>The fold of both \<^verbatim>\<open>worst_case\<close> and \<^verbatim>\<open>dearest_across\<close>.\<close>

definition dearest_fold :: "rat list \<Rightarrow> rat option" where
  "dearest_fold rs =
     foldl (\<lambda>best r. Some (case best of None \<Rightarrow> r | Some b \<Rightarrow> max b r)) None rs"

definition dearest_by :: "(model_rates \<Rightarrow> rat option) \<Rightarrow> model_rates list \<Rightarrow> rat option" where
  "dearest_by pick ts = dearest_fold (List.map_filter pick ts)"

definition worst_case :: "rate_schedule \<Rightarrow> model_rates" where
  "worst_case s =
     (if conditional s = [] then base s
      else \<lparr> input_per_mtok = dearest_by input_per_mtok (tables s),
             output_per_mtok = dearest_by output_per_mtok (tables s),
             cached_input_per_mtok = dearest_by effective_cached_input_per_mtok (tables s),
             cache_write_per_mtok = dearest_by effective_cache_write_per_mtok (tables s) \<rparr>)"

definition reservation_rates :: "rate_schedule \<Rightarrow> model_rates" where
  "reservation_rates s =
     (let worst = worst_case s in worst\<lparr> input_per_mtok := dearest_prompt_per_mtok worst \<rparr>)"

definition schedule_prices_cache_writes :: "rate_schedule \<Rightarrow> bool" where
  "schedule_prices_cache_writes s \<longleftrightarrow> list_all prices_cache_writes (tables s)"

definition schedule_are_zero :: "rate_schedule \<Rightarrow> bool" where
  "schedule_are_zero s \<longleftrightarrow> rates_are_zero (worst_case s)"

definition any_required_rates_are_zero :: "rate_schedule \<Rightarrow> bool" where
  "any_required_rates_are_zero s \<longleftrightarrow> list_ex required_rates_are_zero (tables s)"

definition thresholds :: "rate_schedule \<Rightarrow> nat list" where
  "thresholds s = List.map min_prompt_tokens (conditional s)"

definition dearest_declared ::
  "model_rates list \<Rightarrow> (model_rates \<Rightarrow> rat option) \<Rightarrow> (model_rates \<Rightarrow> rat option) \<Rightarrow> bool \<Rightarrow> rat option" where
  "dearest_declared ts declared effective optional =
     (if optional \<and> \<not> list_ex (\<lambda>r. declared r \<noteq> None) ts then None
      else dearest_by effective ts)"

definition reconcile :: "model_rates list \<Rightarrow> model_rates" where
  "reconcile ts =
     \<lparr> input_per_mtok = dearest_declared ts input_per_mtok input_per_mtok False,
       output_per_mtok = dearest_declared ts output_per_mtok output_per_mtok False,
       cached_input_per_mtok =
         dearest_declared ts cached_input_per_mtok effective_cached_input_per_mtok True,
       cache_write_per_mtok =
         dearest_declared ts cache_write_per_mtok effective_cache_write_per_mtok True \<rparr>"

definition dearest_across :: "rate_schedule list \<Rightarrow> rate_schedule option" where
  "dearest_across ss =
     (case ss of
        [] \<Rightarrow> None
      | first # rest \<Rightarrow>
          let ths = thresholds first in
          if list_ex (\<lambda>s. thresholds s \<noteq> ths) ss then None
          else Some \<lparr> base = reconcile (List.map base ss),
                      conditional = List.map (\<lambda>band.
                        \<lparr> min_prompt_tokens = ths ! band,
                          cond_rates = reconcile (List.map (\<lambda>s. cond_rates (conditional s ! band)) ss) \<rparr>)
                        [0..<length ths] \<rparr>)"

section \<open>Usage and its cost\<close>

record prompt_token_details =
  cached_tokens :: nat
  cache_write_tokens_detail :: nat

record openai_usage =
  prompt_tokens :: nat
  completion_tokens :: nat
  total_tokens :: nat
  prompt_tokens_details :: "prompt_token_details option"

record token_usage =
  tu_input :: "nat option"
  tu_output :: "nat option"
  tu_cached_input :: "nat option"
  tu_cache_write :: "nat option"

definition cached_input_tokens :: "openai_usage \<Rightarrow> nat" where
  "cached_input_tokens u = (case prompt_tokens_details u of None \<Rightarrow> 0 | Some d \<Rightarrow> cached_tokens d)"

definition cache_write_tokens :: "openai_usage \<Rightarrow> nat" where
  "cache_write_tokens u =
     (case prompt_tokens_details u of None \<Rightarrow> 0 | Some d \<Rightarrow> cache_write_tokens_detail d)"

definition mk_usage :: "nat \<Rightarrow> nat \<Rightarrow> nat \<Rightarrow> nat \<Rightarrow> openai_usage" where
  "mk_usage input cached written output =
     \<lparr> prompt_tokens = input, completion_tokens = output,
       total_tokens = sat_add input output,
       prompt_tokens_details =
         (if 0 < cached \<or> 0 < written
          then Some \<lparr> cached_tokens = cached, cache_write_tokens_detail = written \<rparr> else None) \<rparr>"

definition default_usage :: openai_usage where
  "default_usage = \<lparr> prompt_tokens = 0, completion_tokens = 0, total_tokens = 0,
     prompt_tokens_details = None \<rparr>"

definition try_from_provider :: "token_usage option \<Rightarrow> openai_usage option" where
  "try_from_provider usage =
     (case usage of
        None \<Rightarrow> None
      | Some u \<Rightarrow>
          (case (tu_input u, tu_output u) of
             (Some input, Some output) \<Rightarrow>
               if input = 0 \<and> output = 0 then None
               else
                 let cached = min (unwrap_or (tu_cached_input u) 0) input;
                     written = min (unwrap_or (tu_cache_write u) 0) (input - cached)
                 in Some (mk_usage input cached written output)
           | _ \<Rightarrow> None))"

definition from_provider :: "token_usage option \<Rightarrow> openai_usage" where
  "from_provider usage = unwrap_or (try_from_provider usage) default_usage"

definition max_rate_per_mtok :: rat where
  "max_rate_per_mtok = 1000000"

definition billable_rate :: "decimal_ops \<Rightarrow> rat \<Rightarrow> money option" where
  "billable_rate D rate =
     (if \<not> (0 \<le> rate \<and> rate \<le> max_rate_per_mtok) then None
      else case d_from_f64 D rate of
             None \<Rightarrow> None
           | Some converted \<Rightarrow> if 0 < rate \<and> converted = 0 then None else Some converted)"

definition usage_cost :: "decimal_ops \<Rightarrow> model_rates \<Rightarrow> openai_usage \<Rightarrow> money option" where
  "usage_cost D rates usage =
     do {
       input_rate \<leftarrow> billable_rate D (unwrap_or (input_per_mtok rates) 0);
       output_rate \<leftarrow> billable_rate D (unwrap_or (output_per_mtok rates) 0);
       cached_rate \<leftarrow> billable_rate D (unwrap_or (cached_input_per_mtok rates)
                                        (unwrap_or (input_per_mtok rates) 0));
       write_rate \<leftarrow> billable_rate D (unwrap_or (cache_write_per_mtok rates)
                                       (unwrap_or (input_per_mtok rates) 0));
       let cached = min (cached_input_tokens usage) (prompt_tokens usage);
       let written = min (cache_write_tokens usage) (prompt_tokens usage - cached);
       let uncached = prompt_tokens usage - cached - written;
       a \<leftarrow> d_mul D (of_nat uncached) input_rate;
       b \<leftarrow> d_mul D (of_nat cached) cached_rate;
       ab \<leftarrow> d_add D a b;
       c \<leftarrow> d_mul D (of_nat written) write_rate;
       abc \<leftarrow> d_add D ab c;
       d \<leftarrow> d_mul D (of_nat (completion_tokens usage)) output_rate;
       abcd \<leftarrow> d_add D abc d;
       d_div D abcd 1000000
     }"


section \<open>Lemmas: schedules\<close>

lemmas rate_defs =
  or_else_def unwrap_or_def effective_cached_input_per_mtok_def effective_cache_write_per_mtok_def

lemma max_by_threshold_in:
  "max_by_threshold b cs = Some c \<Longrightarrow> b = Some c \<or> c \<in> set cs"
proof (induction b cs rule: max_by_threshold.induct)
  case (3 b d cs)
  then show ?case
    by (auto split: if_splits)
qed auto

lemma max_by_threshold_Some: "b \<noteq> None \<or> cs \<noteq> [] \<Longrightarrow> max_by_threshold b cs \<noteq> None"
  by (induction b cs rule: max_by_threshold.induct) auto

lemma max_by_threshold_max:
  "max_by_threshold b cs = Some c \<Longrightarrow> d \<in> set cs \<or> b = Some d \<Longrightarrow> min_prompt_tokens d \<le> min_prompt_tokens c"
proof (induction b cs arbitrary: d rule: max_by_threshold.induct)
  case (3 b e cs)
  let ?m = "if min_prompt_tokens b \<le> min_prompt_tokens e then e else b"
  have m: "min_prompt_tokens ?m \<le> min_prompt_tokens c"
    using "3.IH" [of ?m] "3.prems"(1) by simp
  show ?case
    using "3.prems"(2) m "3.IH" [of d] "3.prems"(1) by (auto split: if_splits)
qed auto

lemma at_prompt_tokens_in_tables: "at_prompt_tokens s n \<in> set (tables s)"
proof (cases "max_by_threshold None (List.filter (\<lambda>c. min_prompt_tokens c \<le> n) (conditional s))")
  case None
  then show ?thesis
    by (simp add: at_prompt_tokens_def tables_def)
next
  case (Some c)
  then have "c \<in> set (conditional s)"
    using max_by_threshold_in [OF Some] by auto
  then show ?thesis
    using Some by (auto simp: at_prompt_tokens_def tables_def)
qed

lemma dearest_fold_aux:
  fixes rs :: "rat list"
  shows "foldl (\<lambda>best r. Some (case best of None \<Rightarrow> r | Some b \<Rightarrow> max b r)) b rs = Some m \<Longrightarrow>
    (\<forall>r \<in> set rs. r \<le> m) \<and> (\<forall>x. b = Some x \<longrightarrow> x \<le> m) \<and> (m \<in> set rs \<or> b = Some m)"
proof (induction rs arbitrary: b)
  case Nil
  then show ?case by auto
next
  case (Cons r rs)
  define b' where "b' = (case b of None \<Rightarrow> r | Some x \<Rightarrow> max x r)"
  have m: "(\<forall>x \<in> set rs. x \<le> m) \<and> b' \<le> m \<and> (m \<in> set rs \<or> b' = m)"
    using Cons.IH [of "Some b'"] Cons.prems by (simp add: b'_def)
  show ?case
  proof (cases b)
    case None
    then show ?thesis
      using m by (auto simp: b'_def)
  next
    case (Some x)
    then have "b' = max x r"
      by (simp add: b'_def)
    then show ?thesis
      using m Some by (auto simp: max_def split: if_splits)
  qed
qed

lemma dearest_fold_None: "dearest_fold rs = None \<longleftrightarrow> rs = []"
proof -
  have "foldl (\<lambda>best r. Some (case best of None \<Rightarrow> r | Some b \<Rightarrow> max b r)) (Some b) rs \<noteq> None" for b :: rat and rs
    by (induction rs arbitrary: b) auto
  then show ?thesis
    by (cases rs) (simp_all add: dearest_fold_def)
qed

lemma dearest_by_ge:
  "t \<in> set ts \<Longrightarrow> pick t = Some x \<Longrightarrow> \<exists>m. dearest_by pick ts = Some m \<and> x \<le> m"
proof -
  assume t: "t \<in> set ts" and x: "pick t = Some x"
  have xin: "x \<in> set (List.map_filter pick ts)"
    using t x by (force simp: List.map_filter_def)
  then obtain m where m: "dearest_by pick ts = Some m"
    by (metis dearest_by_def dearest_fold_None empty_iff empty_set not_None_eq)
  then have "x \<le> m"
    using dearest_fold_aux [of None "List.map_filter pick ts" m] xin
    by (simp add: dearest_by_def dearest_fold_def)
  with m show ?thesis
    by simp
qed

lemma dearest_by_in:
  "dearest_by pick ts = Some m \<Longrightarrow> \<exists>t \<in> set ts. pick t = Some m"
  using dearest_fold_aux [of None "List.map_filter pick ts" m]
  by (auto simp: dearest_by_def dearest_fold_def List.map_filter_def)

lemma dearest_by_None: "dearest_by pick ts = None \<longleftrightarrow> (\<forall>t \<in> set ts. pick t = None)"
  by (auto simp: dearest_by_def dearest_fold_None List.map_filter_def filter_empty_conv)

text \<open>The rate a dimension is billed at: the four arguments of \<^verbatim>\<open>billable_rate\<close> above.\<close>

definition billed_input :: "model_rates \<Rightarrow> rat" where
  "billed_input r = unwrap_or (input_per_mtok r) 0"

definition billed_output :: "model_rates \<Rightarrow> rat" where
  "billed_output r = unwrap_or (output_per_mtok r) 0"

definition billed_cached :: "model_rates \<Rightarrow> rat" where
  "billed_cached r = unwrap_or (cached_input_per_mtok r) (unwrap_or (input_per_mtok r) 0)"

definition billed_write :: "model_rates \<Rightarrow> rat" where
  "billed_write r = unwrap_or (cache_write_per_mtok r) (unwrap_or (input_per_mtok r) 0)"

lemmas billed_defs = billed_input_def billed_output_def billed_cached_def billed_write_def

definition rates_nonneg :: "model_rates \<Rightarrow> bool" where
  "rates_nonneg r \<longleftrightarrow> 0 \<le> billed_input r \<and> 0 \<le> billed_output r \<and> 0 \<le> billed_cached r \<and> 0 \<le> billed_write r"

lemma billed_effective:
  "billed_cached r = unwrap_or (effective_cached_input_per_mtok r) 0"
  "billed_write r = unwrap_or (effective_cache_write_per_mtok r) 0"
  by (auto simp: billed_defs rate_defs split: option.splits)

lemma unwrap_le_dearest:
  assumes "t \<in> set ts"
    and nonneg: "\<And>u. u \<in> set ts \<Longrightarrow> 0 \<le> unwrap_or (pick u) (0::rat)"
  shows "unwrap_or (pick t) 0 \<le> unwrap_or (dearest_by pick ts) 0"
proof (cases "pick t")
  case None
  show ?thesis
  proof (cases "dearest_by pick ts")
    case (Some m)
    then obtain u where "u \<in> set ts" "pick u = Some m"
      using dearest_by_in by blast
    then show ?thesis
      using nonneg [of u] None Some by (simp add: unwrap_or_def)
  qed (simp add: None unwrap_or_def)
next
  case (Some x)
  then show ?thesis
    using dearest_by_ge [of t ts pick x] assms(1) by (auto simp: unwrap_or_def)
qed

lemma worst_case_covers:
  assumes r: "r \<in> set (tables s)" and nn: "\<And>u. u \<in> set (tables s) \<Longrightarrow> rates_nonneg u"
  shows "billed_input r \<le> billed_input (worst_case s)"
    and "billed_output r \<le> billed_output (worst_case s)"
    and "billed_cached r \<le> billed_cached (worst_case s)"
    and "billed_write r \<le> billed_write (worst_case s)"
proof -
  have nn': "\<And>u. u \<in> set (tables s) \<Longrightarrow> 0 \<le> unwrap_or (input_per_mtok u) 0"
    "\<And>u. u \<in> set (tables s) \<Longrightarrow> 0 \<le> unwrap_or (output_per_mtok u) 0"
    "\<And>u. u \<in> set (tables s) \<Longrightarrow> 0 \<le> unwrap_or (effective_cached_input_per_mtok u) 0"
    "\<And>u. u \<in> set (tables s) \<Longrightarrow> 0 \<le> unwrap_or (effective_cache_write_per_mtok u) 0"
    using nn by (simp_all add: rates_nonneg_def billed_input_def billed_output_def billed_effective)
  note ge = unwrap_le_dearest [of r "tables s" input_per_mtok, OF r nn'(1)]
    unwrap_le_dearest [of r "tables s" output_per_mtok, OF r nn'(2)]
    unwrap_le_dearest [of r "tables s" effective_cached_input_per_mtok, OF r nn'(3)]
    unwrap_le_dearest [of r "tables s" effective_cache_write_per_mtok, OF r nn'(4)]
  have base: "conditional s = [] \<Longrightarrow> worst_case s = r"
    using r by (simp add: tables_def worst_case_def)
  have pos: "0 \<le> unwrap_or (dearest_by input_per_mtok (tables s)) 0"
    using order_trans [OF nn'(1) [OF r] ge(1)] .
  have fall: "unwrap_or a 0 \<le> unwrap_or a (unwrap_or (dearest_by input_per_mtok (tables s)) 0)" for a :: "rat option"
    using pos by (cases a) (simp_all add: unwrap_or_def)
  show "billed_input r \<le> billed_input (worst_case s)"
    using ge(1) base by (cases "conditional s = []") (simp_all add: worst_case_def billed_input_def)
  show "billed_output r \<le> billed_output (worst_case s)"
    using ge(2) base by (cases "conditional s = []") (simp_all add: worst_case_def billed_output_def)
  show "billed_cached r \<le> billed_cached (worst_case s)"
    using order_trans [OF ge(3) fall] base
    by (cases "conditional s = []") (simp_all add: billed_effective(1) [of r], simp_all add: worst_case_def billed_cached_def)
  show "billed_write r \<le> billed_write (worst_case s)"
    using order_trans [OF ge(4) fall] base
    by (cases "conditional s = []") (simp_all add: billed_effective(2) [of r], simp_all add: worst_case_def billed_write_def)
qed

lemma dearest2_ge:
  assumes "0 \<le> unwrap_or a 0" and "0 \<le> unwrap_or b (0::rat)"
  shows "unwrap_or a 0 \<le> unwrap_or (dearest2 a b) 0" and "unwrap_or b 0 \<le> unwrap_or (dearest2 a b) 0"
  using assms by (cases a; cases b; simp add: unwrap_or_def)+

lemma dearest_prompt_ge:
  assumes "rates_nonneg r"
  shows "billed_input r \<le> unwrap_or (dearest_prompt_per_mtok r) 0"
    and "billed_cached r \<le> unwrap_or (dearest_prompt_per_mtok r) 0"
    and "billed_write r \<le> unwrap_or (dearest_prompt_per_mtok r) 0"
proof -
  let ?d = "dearest2 (input_per_mtok r) (effective_cached_input_per_mtok r)"
  have nn: "0 \<le> unwrap_or (input_per_mtok r) 0" "0 \<le> unwrap_or (effective_cached_input_per_mtok r) 0"
    "0 \<le> unwrap_or (effective_cache_write_per_mtok r) 0"
    using assms unfolding rates_nonneg_def billed_effective by (simp_all add: billed_input_def)
  note d = dearest2_ge [OF nn(1) nn(2)]
  note e = dearest2_ge [OF order_trans [OF nn(1) d(1)] nn(3)]
  show "billed_input r \<le> unwrap_or (dearest_prompt_per_mtok r) 0"
    "billed_cached r \<le> unwrap_or (dearest_prompt_per_mtok r) 0"
    "billed_write r \<le> unwrap_or (dearest_prompt_per_mtok r) 0"
    using order_trans [OF d(1) e(1)] order_trans [OF d(2) e(1)] e(2)
    unfolding billed_effective by (simp_all add: billed_input_def dearest_prompt_per_mtok_def)
qed

lemma reservation_rates_cover:
  assumes r: "r \<in> set (tables s)" and nn: "\<And>u. u \<in> set (tables s) \<Longrightarrow> rates_nonneg u"
  shows "billed_input r \<le> billed_input (reservation_rates s)"
    and "billed_cached r \<le> billed_input (reservation_rates s)"
    and "billed_write r \<le> billed_input (reservation_rates s)"
    and "billed_output r \<le> billed_output (reservation_rates s)"
proof -
  note w = worst_case_covers [OF r nn]
  have "rates_nonneg (worst_case s)"
    using w nn [OF r] by (auto simp: rates_nonneg_def)
  note d = dearest_prompt_ge [OF this]
  have i: "billed_input (reservation_rates s) = unwrap_or (dearest_prompt_per_mtok (worst_case s)) 0"
    and o: "billed_output (reservation_rates s) = billed_output (worst_case s)"
    by (simp_all add: reservation_rates_def Let_def billed_input_def billed_output_def)
  show "billed_input r \<le> billed_input (reservation_rates s)"
    "billed_cached r \<le> billed_input (reservation_rates s)"
    "billed_write r \<le> billed_input (reservation_rates s)"
    "billed_output r \<le> billed_output (reservation_rates s)"
    using w d by (auto simp: i o)
qed

section \<open>Lemmas: the cost of a usage\<close>

text \<open>
  The three disjoint parts of a prompt.  \<^verbatim>\<open>usage_cost\<close> recomputes the clamp, so the split is
  total for any counts a provider reports.
\<close>

definition cached_part :: "openai_usage \<Rightarrow> nat" where
  "cached_part u = min (cached_input_tokens u) (prompt_tokens u)"

definition written_part :: "openai_usage \<Rightarrow> nat" where
  "written_part u = min (cache_write_tokens u) (prompt_tokens u - cached_part u)"

definition fresh_part :: "openai_usage \<Rightarrow> nat" where
  "fresh_part u = prompt_tokens u - cached_part u - written_part u"

lemmas part_defs = cached_part_def written_part_def fresh_part_def

lemma parts_sum: "fresh_part u + cached_part u + written_part u = prompt_tokens u"
  by (auto simp: part_defs)

definition usage_within :: "openai_usage \<Rightarrow> openai_usage \<Rightarrow> bool" where
  "usage_within u bound \<longleftrightarrow>
     prompt_tokens u \<le> prompt_tokens bound \<and> completion_tokens u \<le> completion_tokens bound"

text \<open>
  What the conversion of a float rate is relied on for: it is monotone on the admissible range,
  it does not leave that range, and the catalog's rates have at most six decimal places.
\<close>

definition conversion_ok :: "decimal_ops \<Rightarrow> bool" where
  "conversion_ok D \<longleftrightarrow>
     d_from_f64 D 0 = Some 0 \<and> d_from_f64 D max_rate_per_mtok = Some max_rate_per_mtok \<and>
     (\<forall>x y c d. 0 \<le> x \<longrightarrow> x \<le> y \<longrightarrow> d_from_f64 D x = Some c \<longrightarrow> d_from_f64 D y = Some d \<longrightarrow> c \<le> d)"

definition billable6 :: "decimal_ops \<Rightarrow> rat \<Rightarrow> bool" where
  "billable6 D x \<longleftrightarrow> (case billable_rate D x of None \<Rightarrow> False | Some d \<Rightarrow> at_scale 6 d)"

definition rates_billable :: "decimal_ops \<Rightarrow> model_rates \<Rightarrow> bool" where
  "rates_billable D r \<longleftrightarrow> billable6 D (billed_input r) \<and> billable6 D (billed_output r) \<and>
     billable6 D (billed_cached r) \<and> billable6 D (billed_write r)"

definition price :: "decimal_ops \<Rightarrow> rat \<Rightarrow> money" where
  "price D x = unwrap_or (billable_rate D x) 0"

definition max_priced_tokens :: nat where
  "max_priced_tokens = 2 ^ 46"

lemma conversion_exact_decimal: "conversion_ok exact_decimal"
  by (simp add: conversion_ok_def exact_decimal_def)

lemma billable_rate_range: "billable_rate D x = Some d \<Longrightarrow> 0 \<le> x \<and> x \<le> max_rate_per_mtok"
  by (auto simp: billable_rate_def split: if_splits)

lemma billable_rate_conv: "billable_rate D x = Some d \<Longrightarrow> d_from_f64 D x = Some d"
  by (auto simp: billable_rate_def split: if_splits option.splits)

lemma conversion_zero: "conversion_ok D \<Longrightarrow> d_from_f64 D 0 = Some 0"
  and conversion_max: "conversion_ok D \<Longrightarrow> d_from_f64 D max_rate_per_mtok = Some max_rate_per_mtok"
  unfolding conversion_ok_def by (elim conjE, assumption)+

lemma conversion_mono:
  "conversion_ok D \<Longrightarrow> 0 \<le> x \<Longrightarrow> x \<le> y \<Longrightarrow> d_from_f64 D x = Some c \<Longrightarrow> d_from_f64 D y = Some d \<Longrightarrow> c \<le> d"
  unfolding conversion_ok_def by blast

lemma billable_bounds:
  assumes "conversion_ok D" "billable_rate D x = Some d"
  shows "0 \<le> d" "d \<le> 1000000"
proof -
  note r = billable_rate_range [OF assms(2)] and c = billable_rate_conv [OF assms(2)]
  show "0 \<le> d"
    using conversion_mono [OF assms(1) order_refl _ conversion_zero [OF assms(1)] c] r by simp
  have "d \<le> max_rate_per_mtok"
    using conversion_mono [OF assms(1) _ _ c conversion_max [OF assms(1)]] r by simp
  then show "d \<le> 1000000"
    by (simp add: max_rate_per_mtok_def)
qed

lemma billable_mono:
  assumes "conversion_ok D" "billable_rate D x = Some c" "billable_rate D y = Some d" "x \<le> y"
  shows "c \<le> d"
  using conversion_mono [OF assms(1) _ assms(4) billable_rate_conv [OF assms(2)] billable_rate_conv [OF assms(3)]]
    billable_rate_range [OF assms(2)] by simp

lemma billable6D:
  assumes "conversion_ok D" "billable6 D x"
  shows "billable_rate D x = Some (price D x)" "at_scale 6 (price D x)"
    "0 \<le> price D x" "price D x \<le> 1000000"
proof -
  obtain d where d: "billable_rate D x = Some d" "at_scale 6 d"
    using assms(2) by (auto simp: billable6_def split: option.splits)
  then have "price D x = d"
    by (simp add: price_def unwrap_or_def)
  then show "billable_rate D x = Some (price D x)" "at_scale 6 (price D x)"
    "0 \<le> price D x" "price D x \<le> 1000000"
    using d billable_bounds [OF assms(1) d(1)] by simp_all
qed

lemma term_bound:
  fixes p :: rat
  assumes "0 \<le> p" "p \<le> 1000000" "n \<le> max_priced_tokens"
  shows "0 \<le> of_nat n * p" "of_nat n * p \<le> 2 ^ 46 * 1000000"
proof -
  have "(of_nat n :: rat) \<le> of_nat (2 ^ 46)"
    using assms(3) unfolding max_priced_tokens_def by (rule of_nat_mono)
  then have n: "(of_nat n :: rat) \<le> 2 ^ 46"
    by simp
  show "0 \<le> of_nat n * p"
    using assms(1) by simp
  show "of_nat n * p \<le> 2 ^ 46 * 1000000"
    using mult_mono [OF n assms(2)] assms(1) by simp
qed

lemma dec_repr_money:
  assumes "at_scale 6 x" "0 \<le> x" "x \<le> 4 * (2 ^ 46 * 1000000)"
  shows "dec_repr x" and "dec_repr (x / 1000000)"
proof -
  have "\<bar>x * 10 ^ 6\<bar> < 2 ^ 96"
    using assms(2,3) by simp
  then show "dec_repr x"
    by (intro dec_reprI [OF assms(1)]) simp_all
  have "x / 1000000 * 10 ^ 12 = x * 10 ^ 6"
    by simp
  moreover have "at_scale (6 + 6) (x / 10 ^ 6)"
    by (rule at_scale_div_pow [OF assms(1)])
  ultimately show "dec_repr (x / 1000000)"
    using \<open>\<bar>x * 10 ^ 6\<bar> < 2 ^ 96\<close> by (intro dec_reprI [of 12]) simp_all
qed

definition exact_cost :: "decimal_ops \<Rightarrow> model_rates \<Rightarrow> openai_usage \<Rightarrow> money" where
  "exact_cost D r u =
     (of_nat (fresh_part u) * price D (billed_input r) + of_nat (cached_part u) * price D (billed_cached r)
      + of_nat (written_part u) * price D (billed_write r)
      + of_nat (completion_tokens u) * price D (billed_output r)) / 1000000"

lemma usage_cost_parts:
  "usage_cost D r u =
     do {
       i \<leftarrow> billable_rate D (billed_input r);
       q \<leftarrow> billable_rate D (billed_output r);
       c \<leftarrow> billable_rate D (billed_cached r);
       w \<leftarrow> billable_rate D (billed_write r);
       a \<leftarrow> d_mul D (of_nat (fresh_part u)) i;
       b \<leftarrow> d_mul D (of_nat (cached_part u)) c;
       ab \<leftarrow> d_add D a b;
       c \<leftarrow> d_mul D (of_nat (written_part u)) w;
       abc \<leftarrow> d_add D ab c;
       d \<leftarrow> d_mul D (of_nat (completion_tokens u)) q;
       abcd \<leftarrow> d_add D abc d;
       d_div D abcd 1000000
     }"
  by (simp only: usage_cost_def Let_def part_defs billed_defs)

lemma usage_cost_exact:
  assumes D: "decimal_exact D" "conversion_ok D" and r: "rates_billable D r"
    and u: "prompt_tokens u \<le> max_priced_tokens" "completion_tokens u \<le> max_priced_tokens"
  shows "usage_cost D r u = Some (exact_cost D r u)"
proof -
  note b = r [unfolded rates_billable_def]
  note i = billable6D [OF D(2) conjunct1 [OF b]] and o = billable6D [OF D(2) conjunct1 [OF conjunct2 [OF b]]]
    and c = billable6D [OF D(2) conjunct1 [OF conjunct2 [OF conjunct2 [OF b]]]]
    and w = billable6D [OF D(2) conjunct2 [OF conjunct2 [OF conjunct2 [OF b]]]]
  define F C W Q where "F = of_nat (fresh_part u) * price D (billed_input r)"
    and "C = of_nat (cached_part u) * price D (billed_cached r)"
    and "W = of_nat (written_part u) * price D (billed_write r)"
    and "Q = of_nat (completion_tokens u) * price D (billed_output r)"
  have n: "fresh_part u \<le> max_priced_tokens" "cached_part u \<le> max_priced_tokens" "written_part u \<le> max_priced_tokens"
    using parts_sum [of u] u(1) by simp_all
  have s: "at_scale 6 F" "at_scale 6 C" "at_scale 6 W" "at_scale 6 Q"
    using i c w o by (auto simp: F_def C_def W_def Q_def intro: at_scale_of_nat_mult)
  have bnd: "0 \<le> F" "F \<le> 2 ^ 46 * 1000000" "0 \<le> C" "C \<le> 2 ^ 46 * 1000000"
    "0 \<le> W" "W \<le> 2 ^ 46 * 1000000" "0 \<le> Q" "Q \<le> 2 ^ 46 * 1000000"
    using term_bound [OF i(3,4) n(1)] term_bound [OF c(3,4) n(2)] term_bound [OF w(3,4) n(3)]
      term_bound [OF o(3,4) u(2)] by (simp_all add: F_def C_def W_def Q_def)
  have rep: "dec_repr F" "dec_repr C" "dec_repr W" "dec_repr Q" "dec_repr (F + C)" "dec_repr (F + C + W)"
    "dec_repr (F + C + W + Q)" "dec_repr ((F + C + W + Q) / 1000000)"
    using bnd by (intro dec_repr_money at_scale_add s; linarith)+
  show ?thesis
    using i(1) o(1) c(1) w(1) rep
    by (simp add: usage_cost_parts exact_cost_def
        decimal_exact_mul [OF D(1)] decimal_exact_add [OF D(1)] decimal_exact_div [OF D(1)]
        F_def C_def W_def Q_def)
qed

lemma exact_cost_le:
  assumes "rates_billable D r" "rates_billable D r'" "conversion_ok D"
    and le: "billed_input r \<le> billed_input r'" "billed_cached r \<le> billed_input r'"
      "billed_write r \<le> billed_input r'" "billed_output r \<le> billed_output r'"
    and u: "usage_within u u'" "prompt_tokens_details u' = None"
  shows "exact_cost D r u \<le> exact_cost D r' u'"
proof -
  note b = assms(1) [unfolded rates_billable_def] and b' = assms(2) [unfolded rates_billable_def]
  have mono: "price D x \<le> price D y" if "billable6 D x" "billable6 D y" "x \<le> y" for x y
    using billable_mono [OF assms(3)] billable6D(1) [OF assms(3)] that by blast
  let ?p = "price D (billed_input r')" and ?q = "price D (billed_output r')"
  have p0: "0 \<le> ?p" "0 \<le> ?q"
    using billable6D(3) [OF assms(3)] b' by simp_all
  have f: "of_nat (fresh_part u) * price D (billed_input r) \<le> of_nat (fresh_part u) * ?p"
    and c: "of_nat (cached_part u) * price D (billed_cached r) \<le> of_nat (cached_part u) * ?p"
    and w: "of_nat (written_part u) * price D (billed_write r) \<le> of_nat (written_part u) * ?p"
    using mono le b b' by (auto intro!: mult_left_mono)
  have o: "of_nat (completion_tokens u) * price D (billed_output r) \<le> of_nat (completion_tokens u') * ?q"
    using mono le(4) b b' u(1) p0(2) billable6D(3) [OF assms(3)]
    by (auto intro!: mult_mono simp: usage_within_def)
  have s: "of_nat (fresh_part u) * ?p + of_nat (cached_part u) * ?p + of_nat (written_part u) * ?p
      = of_nat (prompt_tokens u) * ?p"
    using parts_sum [of u] by (metis distrib_right of_nat_add)
  have m: "of_nat (prompt_tokens u) * ?p \<le> of_nat (prompt_tokens u') * ?p"
    using u(1) p0(1) by (auto intro!: mult_right_mono simp: usage_within_def)
  have x: "fresh_part u' = prompt_tokens u'" "cached_part u' = 0" "written_part u' = 0"
    using u(2) by (simp_all add: part_defs cached_input_tokens_def cache_write_tokens_def)
  have "of_nat (fresh_part u) * price D (billed_input r) + of_nat (cached_part u) * price D (billed_cached r)
      + of_nat (written_part u) * price D (billed_write r)
      + of_nat (completion_tokens u) * price D (billed_output r)
      \<le> of_nat (prompt_tokens u') * ?p + of_nat (completion_tokens u') * ?q"
    using add_mono [OF add_mono [OF add_mono [OF f c] w] o] m unfolding s by (meson add_right_mono order_trans)
  then show ?thesis
    unfolding exact_cost_def x by (intro divide_right_mono) simp_all
qed

section \<open>Reservation rates are billable\<close>

lemma billable6_nonneg: "billable6 D x \<Longrightarrow> 0 \<le> x"
  by (auto simp: billable6_def billable_rate_def split: if_splits)

lemma rates_billable_nonneg: "rates_billable D r \<Longrightarrow> rates_nonneg r"
  by (auto simp: rates_billable_def rates_nonneg_def intro: billable6_nonneg)

lemma billable6_zero: "conversion_ok D \<Longrightarrow> billable6 D 0"
  by (simp add: billable6_def billable_rate_def conversion_zero max_rate_per_mtok_def at_scale_iff)

lemma billable6_dearest:
  assumes "conversion_ok D" and "\<And>t. t \<in> set ts \<Longrightarrow> billable6 D (unwrap_or (pick t) 0)"
  shows "billable6 D (unwrap_or (dearest_by pick ts) 0)"
proof (cases "dearest_by pick ts")
  case None
  then show ?thesis
    using billable6_zero [OF assms(1)] by (simp add: unwrap_or_def)
next
  case (Some m)
  then obtain t where "t \<in> set ts" "pick t = Some m"
    using dearest_by_in by blast
  then show ?thesis
    using assms(2) [of t] Some by (simp add: unwrap_or_def)
qed

lemma billable6_dearest2:
  "billable6 D (unwrap_or a 0) \<Longrightarrow> billable6 D (unwrap_or b 0) \<Longrightarrow> billable6 D (unwrap_or (dearest2 a b) 0)"
  by (cases a; cases b) (auto simp: unwrap_or_def max_def)

lemma rates_billable_worst_case:
  assumes "conversion_ok D" "\<And>t. t \<in> set (tables s) \<Longrightarrow> rates_billable D t"
  shows "rates_billable D (worst_case s)"
proof (cases "conditional s = []")
  case True
  then show ?thesis
    using assms(2) by (simp add: worst_case_def tables_def)
next
  case False
  have t: "billable6 D (unwrap_or (input_per_mtok t) 0)" "billable6 D (unwrap_or (output_per_mtok t) 0)"
    "billable6 D (unwrap_or (effective_cached_input_per_mtok t) 0)"
    "billable6 D (unwrap_or (effective_cache_write_per_mtok t) 0)" if "t \<in> set (tables s)" for t
    using assms(2) [OF that] by (simp_all add: rates_billable_def billed_effective billed_input_def billed_output_def)
  have i: "billable6 D (unwrap_or (dearest_by input_per_mtok (tables s)) 0)"
    and o: "billable6 D (unwrap_or (dearest_by output_per_mtok (tables s)) 0)"
    and c: "billable6 D (unwrap_or (dearest_by effective_cached_input_per_mtok (tables s)) 0)"
    and w: "billable6 D (unwrap_or (dearest_by effective_cache_write_per_mtok (tables s)) 0)"
    using t by (auto intro: billable6_dearest [OF assms(1)])
  have or: "unwrap_or (or_else a b) 0 = (if a = None then unwrap_or b 0 else unwrap_or a 0)" for a b :: "rat option"
    by (cases a) (simp_all add: or_else_def unwrap_or_def)
  show ?thesis
    using False i o c w unfolding rates_billable_def billed_effective
    by (simp add: worst_case_def billed_input_def billed_output_def effective_cached_input_per_mtok_def
        effective_cache_write_per_mtok_def or)
qed

lemma rates_billable_reservation:
  assumes "conversion_ok D" "\<And>t. t \<in> set (tables s) \<Longrightarrow> rates_billable D t"
  shows "rates_billable D (reservation_rates s)"
proof -
  note w = rates_billable_worst_case [OF assms, unfolded rates_billable_def]
  have i: "billable6 D (unwrap_or (dearest_prompt_per_mtok (worst_case s)) 0)"
    using w unfolding dearest_prompt_per_mtok_def billed_effective billed_input_def
    by (intro billable6_dearest2) simp_all
  have u: "unwrap_or a b = (if a = None then b else unwrap_or a 0)" for a and b :: rat
    by (cases a) (simp_all add: unwrap_or_def)
  have c: "cached_input_per_mtok (worst_case s) \<noteq> None \<Longrightarrow> billable6 D (unwrap_or (cached_input_per_mtok (worst_case s)) 0)"
    and v: "cache_write_per_mtok (worst_case s) \<noteq> None \<Longrightarrow> billable6 D (unwrap_or (cache_write_per_mtok (worst_case s)) 0)"
    using w unfolding billed_cached_def billed_write_def by (metis u)+
  show ?thesis
    unfolding rates_billable_def billed_input_def billed_output_def billed_cached_def billed_write_def
      reservation_rates_def Let_def
    using i c v w by (auto simp: billed_output_def u [of "cached_input_per_mtok _"] u [of "cache_write_per_mtok _"])
qed

section \<open>Reconciled schedules\<close>

lemma max_by_threshold_rel:
  assumes "list_all2 R cs ds" "rel_option R b c" "\<And>x y. R x y \<Longrightarrow> min_prompt_tokens x = min_prompt_tokens y"
  shows "rel_option R (max_by_threshold b cs) (max_by_threshold c ds)"
  using assms(1,2)
proof (induction cs ds arbitrary: b c rule: list_all2_induct)
  case (Cons x xs y ys)
  show ?case
    using Cons.prems Cons.hyps(1) assms(3) by (cases b; cases c) (auto intro!: Cons.IH)
qed simp

lemma filter_threshold_rel:
  assumes "list_all2 R cs ds" "\<And>x y. R x y \<Longrightarrow> min_prompt_tokens x = min_prompt_tokens y"
  shows "list_all2 R (List.filter (\<lambda>c. min_prompt_tokens c \<le> n) cs) (List.filter (\<lambda>c. min_prompt_tokens c \<le> n) ds)"
  using assms(1) by (induction rule: list_all2_induct) (auto simp: assms(2))

lemma at_prompt_tokens_rel:
  assumes "list_all2 R (conditional x) (conditional s)"
    and "\<And>c d. R c d \<Longrightarrow> min_prompt_tokens c = min_prompt_tokens d \<and> S (cond_rates c) (cond_rates d)"
    and "S (base x) (base s)"
  shows "S (at_prompt_tokens x n) (at_prompt_tokens s n)"
proof -
  have m: "\<And>c d. R c d \<Longrightarrow> min_prompt_tokens c = min_prompt_tokens d"
    using assms(2) by blast
  have "rel_option R
      (max_by_threshold None (List.filter (\<lambda>c. min_prompt_tokens c \<le> n) (conditional x)))
      (max_by_threshold None (List.filter (\<lambda>c. min_prompt_tokens c \<le> n) (conditional s)))"
    using filter_threshold_rel [OF assms(1) m] m by (intro max_by_threshold_rel) simp_all
  then have "S (case max_by_threshold None (List.filter (\<lambda>c. min_prompt_tokens c \<le> n) (conditional x)) of
      None \<Rightarrow> base x | Some c \<Rightarrow> cond_rates c)
    (case max_by_threshold None (List.filter (\<lambda>c. min_prompt_tokens c \<le> n) (conditional s)) of
      None \<Rightarrow> base s | Some c \<Rightarrow> cond_rates c)"
    using assms(2,3) by (cases rule: option.rel_cases) auto
  moreover have "conditional x = [] \<longleftrightarrow> conditional s = []"
    using assms(1) by (auto dest: list_all2_lengthD)
  ultimately show ?thesis
    using assms(3) by (auto simp: at_prompt_tokens_def)
qed

definition rates_le :: "model_rates \<Rightarrow> model_rates \<Rightarrow> bool" where
  "rates_le r r' \<longleftrightarrow> billed_input r \<le> billed_input r' \<and> billed_output r \<le> billed_output r' \<and>
     billed_cached r \<le> billed_cached r' \<and> billed_write r \<le> billed_write r'"

lemma reconcile_covers:
  assumes "t \<in> set ts" and nn: "\<And>u. u \<in> set ts \<Longrightarrow> rates_nonneg u"
  shows "rates_le t (reconcile ts)"
proof -
  have ge: "unwrap_or (pick t) 0 \<le> unwrap_or (dearest_by pick ts) 0"
    if "\<And>u. u \<in> set ts \<Longrightarrow> 0 \<le> unwrap_or (pick u) (0::rat)" for pick
    using unwrap_le_dearest [OF assms(1) that] .
  have i: "billed_input t \<le> unwrap_or (dearest_by input_per_mtok ts) 0"
    and o: "billed_output t \<le> unwrap_or (dearest_by output_per_mtok ts) 0"
    and c: "billed_cached t \<le> unwrap_or (dearest_by effective_cached_input_per_mtok ts) 0"
    and w: "billed_write t \<le> unwrap_or (dearest_by effective_cache_write_per_mtok ts) 0"
    using nn unfolding billed_effective billed_input_def billed_output_def rates_nonneg_def by (auto intro!: ge)
  have opt: "unwrap_or (effective t) 0 \<le> unwrap_or (or_else (dearest_declared ts declared effective True) (input_per_mtok (reconcile ts))) 0"
    if e: "\<And>r. effective r = or_else (declared r) (input_per_mtok r)"
      and d: "unwrap_or (effective t) 0 \<le> unwrap_or (dearest_by effective ts) 0" for declared effective
  proof (cases "list_ex (\<lambda>r. declared r \<noteq> None) ts")
    case True
    then obtain r m where "r \<in> set ts" "declared r = Some m"
      by (auto simp: list_ex_iff)
    then have "effective r \<noteq> None" "r \<in> set ts"
      by (simp_all add: e or_else_def)
    then have "dearest_by effective ts \<noteq> None"
      by (auto simp: dearest_by_None)
    then show ?thesis
      using d True by (auto simp: dearest_declared_def or_else_def)
  next
    case False
    then have "declared t = None"
      using assms(1) by (auto simp: list_ex_iff)
    then show ?thesis
      using False i by (simp add: dearest_declared_def or_else_def e reconcile_def billed_input_def)
  qed
  have e: "effective_cached_input_per_mtok (reconcile ts) = or_else
      (dearest_declared ts cached_input_per_mtok effective_cached_input_per_mtok True) (input_per_mtok (reconcile ts))"
    "effective_cache_write_per_mtok (reconcile ts) = or_else
      (dearest_declared ts cache_write_per_mtok effective_cache_write_per_mtok True) (input_per_mtok (reconcile ts))"
    by (simp_all add: effective_cached_input_per_mtok_def effective_cache_write_per_mtok_def reconcile_def)
  have "billed_input t \<le> billed_input (reconcile ts)" "billed_output t \<le> billed_output (reconcile ts)"
    using i o by (simp_all add: billed_input_def billed_output_def reconcile_def dearest_declared_def)
  moreover have "billed_cached t \<le> billed_cached (reconcile ts)" "billed_write t \<le> billed_write (reconcile ts)"
    unfolding billed_effective e
    using opt [OF effective_cached_input_per_mtok_def c [unfolded billed_effective]]
      opt [OF effective_cache_write_per_mtok_def w [unfolded billed_effective]] by simp_all
  ultimately show ?thesis
    by (simp add: rates_le_def)
qed

lemma at_prompt_tokens_reconciled:
  assumes "dearest_across ss = Some s" "x \<in> set ss"
    and nn: "\<And>y t. y \<in> set ss \<Longrightarrow> t \<in> set (tables y) \<Longrightarrow> rates_nonneg t"
  shows "rates_le (at_prompt_tokens x n) (at_prompt_tokens s n)"
proof -
  obtain f rest where ss: "ss = f # rest"
    using assms(1) by (cases ss) (simp_all add: dearest_across_def)
  define ths where "ths = thresholds f"
  have th: "\<And>y. y \<in> set ss \<Longrightarrow> thresholds y = ths"
    using assms(1) by (auto simp: ss dearest_across_def ths_def Let_def list_ex_iff split: if_splits)
  have sdef: "s = \<lparr> base = reconcile (List.map base ss), conditional = List.map (\<lambda>band.
        \<lparr> min_prompt_tokens = ths ! band,
          cond_rates = reconcile (List.map (\<lambda>s. cond_rates (conditional s ! band)) ss) \<rparr>) [0..<length ths] \<rparr>"
    using assms(1) by (auto simp: ss dearest_across_def ths_def Let_def split: if_splits)
  have len: "length (conditional y) = length ths" if "y \<in> set ss" for y
    using th [OF that] by (metis length_map thresholds_def)
  define R where "R c d \<longleftrightarrow> min_prompt_tokens c = min_prompt_tokens d \<and> rates_le (cond_rates c) (cond_rates d)"
    for c d :: conditional_rate
  have band: "rates_le (cond_rates (conditional x ! b))
      (reconcile (List.map (\<lambda>s. cond_rates (conditional s ! b)) ss))" if "b < length ths" for b
  proof (rule reconcile_covers)
    show "cond_rates (conditional x ! b) \<in> set (List.map (\<lambda>s. cond_rates (conditional s ! b)) ss)"
      using assms(2) by auto
  next
    fix u
    assume "u \<in> set (List.map (\<lambda>s. cond_rates (conditional s ! b)) ss)"
    then obtain y where y: "y \<in> set ss" "u = cond_rates (conditional y ! b)"
      by auto
    then have "u \<in> set (tables y)"
      using that len [OF y(1)] by (auto simp: tables_def)
    then show "rates_nonneg u"
      using nn y by blast
  qed
  have "list_all2 R (conditional x) (conditional s)"
  proof (rule list_all2_all_nthI)
    show "length (conditional x) = length (conditional s)"
      using len [OF assms(2)] by (simp add: sdef)
  next
    fix b
    assume "b < length (conditional x)"
    then have b: "b < length ths"
      using len [OF assms(2)] by simp
    have "min_prompt_tokens (conditional x ! b) = ths ! b"
      using th [OF assms(2)] b by (metis len [OF assms(2)] nth_map thresholds_def)
    then show "R (conditional x ! b) (conditional s ! b)"
      using b band [OF b] by (simp add: R_def sdef)
  qed
  moreover have "rates_le (base x) (base s)"
    unfolding sdef using assms(2) nn by (auto intro!: reconcile_covers simp: tables_def)
  ultimately show ?thesis
    using at_prompt_tokens_rel [of R x s rates_le n] by (simp add: R_def)
qed

section \<open>Properties\<close>

definition demo_schedule :: rate_schedule where
  "demo_schedule = \<lparr> base = \<lparr> input_per_mtok = Some 3, output_per_mtok = Some 15,
       cached_input_per_mtok = Some (3 / 10), cache_write_per_mtok = Some (15 / 4) \<rparr>,
     conditional = [\<lparr> min_prompt_tokens = 200001, cond_rates = \<lparr> input_per_mtok = Some 6,
       output_per_mtok = Some (45 / 2), cached_input_per_mtok = None, cache_write_per_mtok = None \<rparr> \<rparr>] \<rparr>"

text \<open>What a request is settled at never exceeds what was priced at the reservation rates for the
  admitted bounds: whichever band the prompt falls in and however the prompt tokens divide into fresh,
  cached and cache-written ones, both prices exist and the settled one is the smaller.\<close>

theorem reservation_covers_any_band:
  assumes "decimal_exact D" "conversion_ok D" "\<forall>t \<in> set (tables s). rates_billable D t"
    and "usage_within u bound" "prompt_tokens_details bound = None"
    and "prompt_tokens bound \<le> max_priced_tokens" "completion_tokens bound \<le> max_priced_tokens"
  shows "\<exists>c reserved. usage_cost D (at_prompt_tokens s n) u = Some c \<and>
    usage_cost D (reservation_rates s) bound = Some reserved \<and> 0 \<le> c \<and> c \<le> reserved"
proof -
  let ?r = "at_prompt_tokens s n" and ?w = "reservation_rates s"
  have r: "rates_billable D ?r" "?r \<in> set (tables s)"
    using assms(3) at_prompt_tokens_in_tables by auto
  have w: "rates_billable D ?w"
    using rates_billable_reservation assms(2,3) by blast
  have "\<And>t. t \<in> set (tables s) \<Longrightarrow> rates_nonneg t"
    using assms(3) rates_billable_nonneg by blast
  note cover = reservation_rates_cover [OF r(2) this]
  have "exact_cost D ?r u \<le> exact_cost D ?w bound"
    using cover by (intro exact_cost_le [OF r(1) w assms(2)] assms(4,5)) simp_all
  moreover have "usage_cost D ?r u = Some (exact_cost D ?r u)" "usage_cost D ?w bound = Some (exact_cost D ?w bound)"
    using assms(4,6,7) by (auto intro!: usage_cost_exact [OF assms(1,2)] r(1) w simp: usage_within_def)
  moreover have "0 \<le> exact_cost D ?r u"
    unfolding exact_cost_def using billable6D(3) [OF assms(2)] r(1) [unfolded rates_billable_def]
    by (intro divide_nonneg_nonneg add_nonneg_nonneg mult_nonneg_nonneg) simp_all
  ultimately show ?thesis
    by blast
qed

lemma demo_schedule_billable: "\<forall>t \<in> set (tables demo_schedule). rates_billable exact_decimal t"
  by (simp add: demo_schedule_def tables_def rates_billable_def billable6_def billable_rate_def billed_defs unwrap_or_def
      exact_decimal_def max_rate_per_mtok_def at_scale_def)

lemma reservation_covers_any_band_witness:
  "\<exists>c reserved. usage_cost exact_decimal (at_prompt_tokens demo_schedule 300000) (mk_usage 300000 1000 0 500) = Some c \<and>
    usage_cost exact_decimal (reservation_rates demo_schedule) (mk_usage 400000 0 0 1000) = Some reserved \<and>
    0 \<le> c \<and> c \<le> reserved"
  by (rule reservation_covers_any_band [OF exact_decimal_exact conversion_exact_decimal demo_schedule_billable])
    (simp_all add: usage_within_def mk_usage_def max_priced_tokens_def)

text \<open>A priced request costs the sum of its parts: the uncached, cached and cache-written prompt tokens
  partition the prompt, each is billed at its own rate per million, and the fixed-point arithmetic neither
  rounds nor fails for rates of at most six decimal places and up to \<^term>\<open>max_priced_tokens\<close> tokens.\<close>

theorem usage_cost_total:
  assumes "decimal_exact D" "conversion_ok D" "rates_billable D r"
    and "prompt_tokens u \<le> max_priced_tokens" "completion_tokens u \<le> max_priced_tokens"
  shows "\<exists>fresh cached written. fresh + cached + written = prompt_tokens u \<and>
    cached = min (cached_input_tokens u) (prompt_tokens u) \<and>
    written = min (cache_write_tokens u) (prompt_tokens u - cached) \<and>
    usage_cost D r u = Some ((of_nat fresh * price D (billed_input r) + of_nat cached * price D (billed_cached r)
      + of_nat written * price D (billed_write r) + of_nat (completion_tokens u) * price D (billed_output r)) / 1000000)"
  using usage_cost_exact [OF assms] parts_sum [of u]
  by (intro exI [of _ "fresh_part u"] exI [of _ "cached_part u"] exI [of _ "written_part u"])
    (simp add: exact_cost_def part_defs)

lemma usage_cost_total_witness:
  "\<exists>fresh cached written. fresh + cached + written = (300000 :: nat) \<and> cached = 1000 \<and> written = 0 \<and>
    usage_cost exact_decimal (at_prompt_tokens demo_schedule 300000) (mk_usage 300000 1000 0 500)
      = Some ((of_nat fresh * price exact_decimal 6 + of_nat cached * price exact_decimal 6
          + of_nat written * price exact_decimal 6 + 500 * price exact_decimal (45 / 2)) / 1000000)"
proof -
  have r: "at_prompt_tokens demo_schedule 300000 = \<lparr> input_per_mtok = Some 6,
       output_per_mtok = Some (45 / 2), cached_input_per_mtok = None, cache_write_per_mtok = None \<rparr>"
    by (simp add: at_prompt_tokens_def demo_schedule_def)
  then have "rates_billable exact_decimal (at_prompt_tokens demo_schedule 300000)"
    using demo_schedule_billable by (simp add: demo_schedule_def tables_def)
  from usage_cost_total [OF exact_decimal_exact conversion_exact_decimal this, of "mk_usage 300000 1000 0 500"]
  show ?thesis
    by (simp add: r billed_defs unwrap_or_def mk_usage_def max_priced_tokens_def cached_input_tokens_def
        cache_write_tokens_def)
qed

text \<open>The band a prompt is priced at is the one with the largest threshold the prompt reaches; a prompt
  below every threshold is priced at the base rates.\<close>

theorem at_prompt_tokens_selects:
  "if \<exists>c \<in> set (conditional s). min_prompt_tokens c \<le> n
   then \<exists>c \<in> set (conditional s). min_prompt_tokens c \<le> n \<and> at_prompt_tokens s n = cond_rates c \<and>
     (\<forall>d \<in> set (conditional s). min_prompt_tokens d \<le> n \<longrightarrow> min_prompt_tokens d \<le> min_prompt_tokens c)
   else at_prompt_tokens s n = base s"
proof (cases "max_by_threshold None (List.filter (\<lambda>c. min_prompt_tokens c \<le> n) (conditional s))")
  case None
  then have "List.filter (\<lambda>c. min_prompt_tokens c \<le> n) (conditional s) = []"
    using max_by_threshold_Some by blast
  then show ?thesis
    using None by (auto simp: at_prompt_tokens_def filter_empty_conv)
next
  case (Some c)
  have "c \<in> set (conditional s)" "min_prompt_tokens c \<le> n"
    using max_by_threshold_in [OF Some] by auto
  moreover have "\<forall>d \<in> set (conditional s). min_prompt_tokens d \<le> n \<longrightarrow> min_prompt_tokens d \<le> min_prompt_tokens c"
    using max_by_threshold_max [OF Some] by auto
  moreover have "at_prompt_tokens s n = cond_rates c"
    using Some \<open>c \<in> set (conditional s)\<close> by (auto simp: at_prompt_tokens_def)
  ultimately show ?thesis
    by auto
qed

lemma at_prompt_tokens_selects_witness:
  "\<exists>c \<in> set (conditional demo_schedule). min_prompt_tokens c \<le> 300000 \<and> at_prompt_tokens demo_schedule 300000 = cond_rates c \<and>
     (\<forall>d \<in> set (conditional demo_schedule). min_prompt_tokens d \<le> 300000 \<longrightarrow> min_prompt_tokens d \<le> min_prompt_tokens c)"
proof -
  have "\<exists>c \<in> set (conditional demo_schedule). min_prompt_tokens c \<le> 300000"
    by (simp add: demo_schedule_def)
  then show ?thesis
    using at_prompt_tokens_selects [of demo_schedule 300000] by simp
qed

text \<open>The schedule that stands for several lanes of one model is at least as dear as every lane, in every
  band and in each of the four dimensions of a price.\<close>

theorem dearest_across_covers:
  assumes "dearest_across ss = Some s" "x \<in> set ss" "\<forall>y \<in> set ss. \<forall>t \<in> set (tables y). rates_nonneg t"
  shows "billed_input (at_prompt_tokens x n) \<le> billed_input (at_prompt_tokens s n) \<and>
    billed_output (at_prompt_tokens x n) \<le> billed_output (at_prompt_tokens s n) \<and>
    billed_cached (at_prompt_tokens x n) \<le> billed_cached (at_prompt_tokens s n) \<and>
    billed_write (at_prompt_tokens x n) \<le> billed_write (at_prompt_tokens s n)"
  using at_prompt_tokens_reconciled [OF assms(1,2)] assms(3) by (auto simp: rates_le_def)

lemma dearest_across_covers_witness:
  "\<exists>s. dearest_across [demo_schedule, demo_schedule] = Some s \<and>
    billed_input (at_prompt_tokens demo_schedule 300000) \<le> billed_input (at_prompt_tokens s 300000)"
proof -
  obtain s where s: "dearest_across [demo_schedule, demo_schedule] = Some s"
    by (simp add: dearest_across_def Let_def)
  have "\<forall>y \<in> set [demo_schedule, demo_schedule]. \<forall>t \<in> set (tables y). rates_nonneg t"
    using demo_schedule_billable rates_billable_nonneg by auto
  from dearest_across_covers [OF s _ this, of demo_schedule 300000] s show ?thesis
    by auto
qed

end
