(* ===== verification/Usage.thy ===== *)
theory Usage
  imports Priority Pricing
begin

text \<open>
  What one request used: the usage record a finished request hands to settlement, its telemetry
  and its per-candidate attempts, and the durable settlement intent that carries all of it through
  a failed settle (\<^verbatim>\<open>router/src/db.rs\<close>).  The text form of a decimal is
  \<^verbatim>\<open>rust_decimal\<close>'s, so its printer and parser are an argument.
\<close>

section \<open>Data\<close>

record attempt_tokens =
  at_input :: "nat option"
  at_cached_input :: "nat option"
  at_cache_write_input :: "nat option"
  at_output :: "nat option"

record attempt_record =
  attempt_no :: int
  started_at :: time
  a_candidate_id :: string
  a_upstream_provider :: string
  a_upstream_model :: string
  outcome :: string
  served :: bool
  a_latency_ms :: int
  a_tokens :: attempt_tokens
  tokens_estimated :: bool
  a_cost_basis_usd :: "money option"
  a_finish_reason :: "string option"
  validator_kind :: "string option"

record request_telemetry =
  requested_max_tokens :: int
  t_stream :: bool
  prompt_bytes :: int
  message_count :: int
  tool_count :: int
  candidate_id :: "string option"
  basis_rates :: "model_rates option"
  sell_rates :: model_rates
  finish_reason :: "string option"
  finish_reason_source :: "string option"
  shape_ok :: "bool option"
  t_usage_gap :: "string option"
  t_priority :: "priority option"
  t_byok :: "bool option"

record usage_record =
  tier :: string
  upstream_provider :: string
  upstream_model :: string
  usage :: openai_usage
  cost_usd :: money
  byok_catalog_usd :: "money option"
  latency_ms :: int
  status :: int
  telemetry :: request_telemetry
  attempts :: "attempt_record list"

section \<open>Attempts\<close>

definition tokens_measured :: "openai_usage \<Rightarrow> attempt_tokens" where
  "tokens_measured u =
     \<lparr> at_input = Some (prompt_tokens u), at_cached_input = Some (cached_input_tokens u),
       at_cache_write_input = Some (cache_write_tokens u), at_output = Some (completion_tokens u) \<rparr>"

definition tokens_unknown :: attempt_tokens where
  "tokens_unknown = \<lparr> at_input = None, at_cached_input = None, at_cache_write_input = None,
     at_output = None \<rparr>"

definition output_floor :: "nat \<Rightarrow> attempt_tokens" where
  "output_floor n = tokens_unknown\<lparr> at_output := Some n \<rparr>"

definition priceable :: "attempt_tokens \<Rightarrow> openai_usage option" where
  "priceable t =
     (if or_else (or_else (or_else (at_input t) (at_cached_input t)) (at_cache_write_input t)) (at_output t) = None
      then None
      else
        let input = unwrap_or (at_input t) 0;
            cached = min (unwrap_or (at_cached_input t) 0) input;
            written = min (unwrap_or (at_cache_write_input t) 0) (input - cached);
            output = unwrap_or (at_output t) 0
        in Some (mk_usage input cached written output))"

definition tokens_is_complete :: "attempt_tokens \<Rightarrow> bool" where
  "tokens_is_complete t \<longleftrightarrow> at_input t \<noteq> None \<and> at_cached_input t \<noteq> None \<and>
     at_cache_write_input t \<noteq> None \<and> at_output t \<noteq> None"

definition cogs_is_measured :: "attempt_record \<Rightarrow> bool" where
  "cogs_is_measured a \<longleftrightarrow>
     a_cost_basis_usd a \<noteq> None \<and> tokens_is_complete (a_tokens a) \<and> \<not> tokens_estimated a"

record attempt_cogs =
  cogs_total :: "money option"
  cogs_complete :: "bool option"

definition cogs_summarize :: "attempt_record list \<Rightarrow> attempt_cogs" where
  "cogs_summarize as =
     (if as = [] then \<lparr> cogs_total = None, cogs_complete = None \<rparr>
      else
        let losing = List.filter (\<lambda>a. \<not> served a) as;
            (total, complete) =
              foldl (\<lambda>(total, complete) a.
                  (total + unwrap_or (a_cost_basis_usd a) 0, complete \<and> cogs_is_measured a))
                (0, True) losing
        in \<lparr> cogs_total = Some total, cogs_complete = Some complete \<rparr>)"

definition cost_basis :: "decimal_ops \<Rightarrow> usage_record \<Rightarrow> money option" where
  "cost_basis D r =
     (case List.find served (attempts r) of
        None \<Rightarrow> Option.bind (basis_rates (telemetry r)) (\<lambda>rates. usage_cost D rates (usage r))
      | Some a \<Rightarrow> a_cost_basis_usd a)"

section \<open>The settlement intent\<close>

record task_signature =
  hex :: string
  scheme :: int
  tool_names_sha256 :: string

record usage_payload =
  up_prompt :: nat
  up_cached :: nat
  up_cache_write :: nat
  up_completion :: nat
  up_total :: nat

record rates_payload =
  rp_input :: "rat option"
  rp_cached :: "rat option"
  rp_cache_write :: "rat option"
  rp_output :: "rat option"

record telemetry_payload =
  tp_requested_max_tokens :: int
  tp_stream :: bool
  tp_prompt_bytes :: int
  tp_message_count :: int
  tp_tool_count :: int
  tp_candidate_id :: "string option"
  tp_basis_rates :: "rates_payload option"
  tp_sell_rates :: rates_payload
  tp_finish_reason :: "string option"
  tp_finish_reason_source :: "string option"
  tp_usage_gap :: "string option"
  tp_shape_ok :: "bool option"
  tp_priority :: "string option"
  tp_byok :: "bool option"

record attempt_payload =
  ap_attempt_no :: int
  ap_started_at :: time
  ap_candidate_id :: string
  ap_upstream_provider :: string
  ap_upstream_model :: string
  ap_outcome :: string
  ap_served :: bool
  ap_latency_ms :: int
  ap_tokens :: attempt_tokens
  ap_tokens_estimated :: bool
  ap_cost_basis_usd :: "string option"
  ap_finish_reason :: "string option"
  ap_validator_kind :: "string option"

record settlement_intent =
  si_version :: nat
  si_user_id :: uuid
  si_require_credits :: bool
  si_task_signature :: string
  si_task_signature_scheme :: "int option"
  si_tool_names_sha256 :: "string option"
  si_reserved_output_tokens :: int
  si_reserved_cost_usd :: string
  si_estimator_basis :: string
  si_tier :: string
  si_upstream_provider :: string
  si_upstream_model :: string
  si_usage :: usage_payload
  si_cost_usd :: string
  si_byok_catalog_usd :: "string option"
  si_latency_ms :: int
  si_status :: int
  si_telemetry :: telemetry_payload
  si_attempts :: "attempt_payload list"

text \<open>The session and reservation an admission hands out; settlement reads them back.\<close>

record reservation_handle =
  rh_task_signature :: task_signature
  rh_reserved_cost_usd :: money
  rh_estimator_basis :: reservation_basis

record usage_session =
  us_request_id :: uuid
  us_api_key_id :: uuid
  us_user_id :: uuid
  us_require_credits :: bool
  us_output_bound :: int
  us_reservation :: "reservation_handle option"

definition reserved_output_tokens :: "usage_session \<Rightarrow> int" where
  "reserved_output_tokens s = \<bar>us_output_bound s\<bar>"

definition session_estimator_basis :: "usage_session \<Rightarrow> reservation_basis" where
  "session_estimator_basis s =
     (case us_reservation s of None \<Rightarrow> Cold | Some r \<Rightarrow> rh_estimator_basis r)"

text \<open>
  A database error, by the classes the code distinguishes: pool and connection failures, a
  database error with its SQLSTATE, and the router's own protocol errors.  The text forms of a
  decimal and of an error belong to the libraries that print them.
\<close>

datatype sql_error =
    PoolTimedOut
  | PoolClosed
  | Io string
  | Database string
  | Protocol string
  | RowNotFound

record decimal_text =
  d_show :: "money \<Rightarrow> string"
  d_parse :: "string \<Rightarrow> money option"
  d_error_text :: "sql_error \<Rightarrow> string"

definition SETTLEMENT_INTENT_VERSION :: nat where
  "SETTLEMENT_INTENT_VERSION = 1"

definition usage_payload_new :: "openai_usage \<Rightarrow> usage_payload" where
  "usage_payload_new u =
     \<lparr> up_prompt = prompt_tokens u, up_cached = cached_input_tokens u,
       up_cache_write = cache_write_tokens u, up_completion = completion_tokens u,
       up_total = total_tokens u \<rparr>"

definition to_usage :: "usage_payload \<Rightarrow> openai_usage" where
  "to_usage p =
     \<lparr> prompt_tokens = up_prompt p, completion_tokens = up_completion p, total_tokens = up_total p,
       prompt_tokens_details =
         (if 0 < up_cached p \<or> 0 < up_cache_write p
          then Some \<lparr> cached_tokens = up_cached p, cache_write_tokens_detail = up_cache_write p \<rparr>
          else None) \<rparr>"

definition rates_payload_new :: "model_rates \<Rightarrow> rates_payload" where
  "rates_payload_new r =
     \<lparr> rp_input = input_per_mtok r, rp_cached = cached_input_per_mtok r,
       rp_cache_write = cache_write_per_mtok r, rp_output = output_per_mtok r \<rparr>"

definition to_rates :: "rates_payload \<Rightarrow> model_rates" where
  "to_rates p =
     \<lparr> input_per_mtok = rp_input p, output_per_mtok = rp_output p,
       cached_input_per_mtok = rp_cached p, cache_write_per_mtok = rp_cache_write p \<rparr>"

definition telemetry_payload_new :: "request_telemetry \<Rightarrow> telemetry_payload" where
  "telemetry_payload_new t =
     \<lparr> tp_requested_max_tokens = requested_max_tokens t, tp_stream = t_stream t,
       tp_prompt_bytes = prompt_bytes t, tp_message_count = message_count t,
       tp_tool_count = tool_count t, tp_candidate_id = candidate_id t,
       tp_basis_rates = map_option rates_payload_new (basis_rates t),
       tp_sell_rates = rates_payload_new (sell_rates t),
       tp_finish_reason = finish_reason t, tp_finish_reason_source = finish_reason_source t,
       tp_usage_gap = t_usage_gap t, tp_shape_ok = shape_ok t,
       tp_priority = map_option priority_as_str (t_priority t), tp_byok = t_byok t \<rparr>"

definition to_telemetry :: "telemetry_payload \<Rightarrow> request_telemetry" where
  "to_telemetry p =
     \<lparr> requested_max_tokens = tp_requested_max_tokens p, t_stream = tp_stream p,
       prompt_bytes = tp_prompt_bytes p, message_count = tp_message_count p,
       tool_count = tp_tool_count p, candidate_id = tp_candidate_id p,
       basis_rates = map_option to_rates (tp_basis_rates p), sell_rates = to_rates (tp_sell_rates p),
       finish_reason = tp_finish_reason p,
       finish_reason_source =
         or_else (Option.bind (tp_finish_reason_source p) finish_reason_source_from_keyword)
           (Some FINISH_REASON_SYNTHETIC),
       shape_ok = tp_shape_ok p,
       t_usage_gap = map_option usage_gap_as_str (Option.bind (tp_usage_gap p) usage_gap_from_keyword),
       t_priority = Option.bind (tp_priority p) priority_from_keyword,
       t_byok = tp_byok p \<rparr>"

definition attempt_payload_new :: "decimal_text \<Rightarrow> attempt_record \<Rightarrow> attempt_payload" where
  "attempt_payload_new T a =
     \<lparr> ap_attempt_no = attempt_no a, ap_started_at = started_at a, ap_candidate_id = a_candidate_id a,
       ap_upstream_provider = a_upstream_provider a, ap_upstream_model = a_upstream_model a,
       ap_outcome = outcome a, ap_served = served a, ap_latency_ms = a_latency_ms a,
       ap_tokens = a_tokens a, ap_tokens_estimated = tokens_estimated a,
       ap_cost_basis_usd = map_option (d_show T) (a_cost_basis_usd a),
       ap_finish_reason = a_finish_reason a, ap_validator_kind = validator_kind a \<rparr>"

definition intent_new :: "decimal_text \<Rightarrow> usage_session \<Rightarrow> reservation_handle \<Rightarrow> usage_record \<Rightarrow> settlement_intent" where
  "intent_new T session reservation record =
     \<lparr> si_version = SETTLEMENT_INTENT_VERSION, si_user_id = us_user_id session,
       si_require_credits = us_require_credits session,
       si_task_signature = hex (rh_task_signature reservation),
       si_task_signature_scheme = Some (scheme (rh_task_signature reservation)),
       si_tool_names_sha256 = Some (tool_names_sha256 (rh_task_signature reservation)),
       si_reserved_output_tokens = us_output_bound session,
       si_reserved_cost_usd = d_show T (rh_reserved_cost_usd reservation),
       si_estimator_basis = basis_as_str (rh_estimator_basis reservation),
       si_tier = tier record, si_upstream_provider = upstream_provider record,
       si_upstream_model = upstream_model record, si_usage = usage_payload_new (usage record),
       si_cost_usd = d_show T (cost_usd record),
       si_byok_catalog_usd = map_option (d_show T) (byok_catalog_usd record),
       si_latency_ms = latency_ms record, si_status = status record,
       si_telemetry = telemetry_payload_new (telemetry record),
       si_attempts = List.map (attempt_payload_new T) (attempts record) \<rparr>"

definition settlement_decimal :: "decimal_text \<Rightarrow> string \<Rightarrow> string \<Rightarrow> (sql_error, money) result" where
  "settlement_decimal T value field =
     (case d_parse T value of
        None \<Rightarrow> Inl (Protocol (''settlement payload field '' @ field @ '' is not a decimal number''))
      | Some d \<Rightarrow> Inr d)"

definition bind_result :: "('e, 'a) result \<Rightarrow> ('a \<Rightarrow> ('e, 'b) result) \<Rightarrow> ('e, 'b) result" where
  "bind_result m f = (case m of Inl e \<Rightarrow> Inl e | Inr x \<Rightarrow> f x)"

fun transpose_option :: "('a \<Rightarrow> ('e, 'b) result) \<Rightarrow> 'a option \<Rightarrow> ('e, 'b option) result" where
  "transpose_option f None = Inr None"
| "transpose_option f (Some x) = bind_result (f x) (\<lambda>y. Inr (Some y))"

fun map_result :: "('a \<Rightarrow> ('e, 'b) result) \<Rightarrow> 'a list \<Rightarrow> ('e, 'b list) result" where
  "map_result f [] = Inr []"
| "map_result f (x # xs) = bind_result (f x) (\<lambda>y. bind_result (map_result f xs) (\<lambda>ys. Inr (y # ys)))"

definition to_attempt :: "decimal_text \<Rightarrow> attempt_payload \<Rightarrow> (sql_error, attempt_record) result" where
  "to_attempt T p =
     bind_result (transpose_option (\<lambda>c. settlement_decimal T c ''attempt cost_basis_usd'') (ap_cost_basis_usd p))
       (\<lambda>basis. Inr
         \<lparr> attempt_no = ap_attempt_no p, started_at = ap_started_at p, a_candidate_id = ap_candidate_id p,
           a_upstream_provider = ap_upstream_provider p, a_upstream_model = ap_upstream_model p,
           outcome = ap_outcome p, served = ap_served p, a_latency_ms = ap_latency_ms p,
           a_tokens = ap_tokens p, tokens_estimated = ap_tokens_estimated p,
           a_cost_basis_usd = basis, a_finish_reason = ap_finish_reason p,
           validator_kind = ap_validator_kind p \<rparr>)"

definition to_record :: "decimal_text \<Rightarrow> settlement_intent \<Rightarrow> (sql_error, usage_record) result" where
  "to_record T i =
     bind_result (map_result (to_attempt T) (si_attempts i)) (\<lambda>as.
     bind_result (settlement_decimal T (si_cost_usd i) ''cost_usd'') (\<lambda>cost.
     bind_result (transpose_option (\<lambda>c. settlement_decimal T c ''byok_catalog_usd'') (si_byok_catalog_usd i)) (\<lambda>catalog.
       Inr \<lparr> tier = si_tier i, upstream_provider = si_upstream_provider i,
             upstream_model = si_upstream_model i, usage = to_usage (si_usage i),
             cost_usd = cost, byok_catalog_usd = catalog, latency_ms = si_latency_ms i,
             status = si_status i, telemetry = to_telemetry (si_telemetry i), attempts = as \<rparr>)))"

definition reserved_cost_snapshot :: "decimal_text \<Rightarrow> settlement_intent \<Rightarrow> (sql_error, money) result" where
  "reserved_cost_snapshot T i = settlement_decimal T (si_reserved_cost_usd i) ''reserved_cost_usd''"

section \<open>Lemmas\<close>

lemmas result_simps = bind_result_def sum.case

lemma map_result_Inr:
  "(\<And>x. x \<in> set xs \<Longrightarrow> f x = Inr (g x)) \<Longrightarrow> map_result f xs = Inr (List.map g xs)"
  by (induction xs) (simp_all add: bind_result_def)

lemma map_result_map:
  "(\<And>x. x \<in> set xs \<Longrightarrow> f (g x) = Inr x) \<Longrightarrow> map_result f (List.map g xs) = Inr xs"
  by (induction xs) (simp_all add: bind_result_def)

lemma priceable_clamped:
  assumes "priceable t = Some u"
  shows "cached_input_tokens u + cache_write_tokens u \<le> prompt_tokens u"
proof -
  have u: "u = (let input = unwrap_or (at_input t) 0;
            cached = min (unwrap_or (at_cached_input t) 0) input;
            written = min (unwrap_or (at_cache_write_input t) 0) (input - cached)
        in mk_usage input cached written (unwrap_or (at_output t) 0))"
    using assms by (simp add: priceable_def Let_def split: if_splits)
  show ?thesis
    unfolding u by (auto simp: Let_def mk_usage_def cached_input_tokens_def cache_write_tokens_def)
qed

lemma cogs_fold:
  "foldl (\<lambda>(total, complete) a. (total + unwrap_or (a_cost_basis_usd a) 0, complete \<and> cogs_is_measured a)) (t, c) as
     = (t + sum_list (List.map (\<lambda>a. unwrap_or (a_cost_basis_usd a) 0) as), c \<and> list_all cogs_is_measured as)"
  by (induction as arbitrary: t c) (simp_all add: add.assoc)

lemma cogs_summarize_eq:
  "as \<noteq> [] \<Longrightarrow> cogs_summarize as =
     \<lparr> cogs_total = Some (sum_where (\<lambda>a. \<not> served a) (\<lambda>a. unwrap_or (a_cost_basis_usd a) 0) as),
       cogs_complete = Some (\<forall>a \<in> set as. \<not> served a \<longrightarrow> cogs_is_measured a) \<rparr>"
  by (auto simp: cogs_summarize_def cogs_fold sum_where_def list_all_iff)

text \<open>
  What the JSON form of an intent forgets: the presence of an all-zero cache breakdown, a
  finish-reason source or a usage gap outside their vocabularies.
\<close>

definition normal_usage :: "openai_usage \<Rightarrow> openai_usage" where
  "normal_usage u = u\<lparr> prompt_tokens_details :=
     (if cached_input_tokens u = 0 \<and> cache_write_tokens u = 0 then None else prompt_tokens_details u) \<rparr>"

definition normal_telemetry :: "request_telemetry \<Rightarrow> request_telemetry" where
  "normal_telemetry t = t\<lparr>
     finish_reason_source := (if finish_reason_source t = Some FINISH_REASON_UPSTREAM
       then Some FINISH_REASON_UPSTREAM else Some FINISH_REASON_SYNTHETIC),
     t_usage_gap := (case t_usage_gap t of None \<Rightarrow> None
       | Some g \<Rightarrow> if g \<in> range usage_gap_as_str then Some g else None) \<rparr>"

definition normal_record :: "usage_record \<Rightarrow> usage_record" where
  "normal_record r = r\<lparr> usage := normal_usage (usage r), telemetry := normal_telemetry (telemetry r) \<rparr>"

definition record_amounts :: "usage_record \<Rightarrow> money list" where
  "record_amounts r = cost_usd r # (case byok_catalog_usd r of None \<Rightarrow> [] | Some c \<Rightarrow> [c])
     @ List.map_filter a_cost_basis_usd (attempts r)"

definition text_faithful :: "decimal_text \<Rightarrow> money list \<Rightarrow> bool" where
  "text_faithful T cs \<longleftrightarrow> list_all (\<lambda>c. d_parse T (d_show T c) = Some c) cs"

lemma usage_roundtrip: "to_usage (usage_payload_new u) = normal_usage u"
  by (cases "prompt_tokens_details u")
    (simp_all add: to_usage_def usage_payload_new_def normal_usage_def cached_input_tokens_def cache_write_tokens_def)

lemma normal_usage_cached [simp]: "cached_input_tokens (normal_usage u) = cached_input_tokens u"
  and normal_usage_write [simp]: "cache_write_tokens (normal_usage u) = cache_write_tokens u"
  and normal_usage_prompt [simp]: "prompt_tokens (normal_usage u) = prompt_tokens u"
  and normal_usage_completion [simp]: "completion_tokens (normal_usage u) = completion_tokens u"
  by (auto simp: normal_usage_def cached_input_tokens_def cache_write_tokens_def)

lemma usage_cost_normal [simp]: "usage_cost D r (normal_usage u) = usage_cost D r u"
  by (simp add: usage_cost_def)

lemma rates_roundtrip [simp]: "to_rates (rates_payload_new r) = r"
  by (simp add: to_rates_def rates_payload_new_def)

lemma rates_option_roundtrip [simp]: "map_option to_rates (map_option rates_payload_new r) = r"
  by (cases r) simp_all

lemma source_roundtrip:
  "or_else (Option.bind s finish_reason_source_from_keyword) (Some FINISH_REASON_SYNTHETIC)
     = (if s = Some FINISH_REASON_UPSTREAM then Some FINISH_REASON_UPSTREAM else Some FINISH_REASON_SYNTHETIC)"
  by (cases s) (auto simp: or_else_def finish_reason_source_from_keyword_def)

lemma gap_roundtrip:
  "map_option usage_gap_as_str (Option.bind g usage_gap_from_keyword)
     = (case g of None \<Rightarrow> None | Some g \<Rightarrow> if g \<in> range usage_gap_as_str then Some g else None)"
proof (cases g)
  case (Some k)
  then show ?thesis
    by (cases "usage_gap_from_keyword k") (auto simp: usage_gap_kw.parse_eq_None usage_gap_kw.parse_eq_Some)
qed simp

lemma telemetry_roundtrip: "to_telemetry (telemetry_payload_new t) = normal_telemetry t"
  by (simp add: to_telemetry_def telemetry_payload_new_def normal_telemetry_def source_roundtrip gap_roundtrip
      priority_kw.map_roundtrip)

lemma settlement_decimal_show:
  "d_parse T (d_show T c) = Some c \<Longrightarrow> settlement_decimal T (d_show T c) f = Inr c"
  by (simp add: settlement_decimal_def)

lemma attempt_roundtrip:
  assumes "\<And>c. a_cost_basis_usd a = Some c \<Longrightarrow> d_parse T (d_show T c) = Some c"
  shows "to_attempt T (attempt_payload_new T a) = Inr a"
  using assms
  by (cases "a_cost_basis_usd a")
    (simp_all add: to_attempt_def attempt_payload_new_def bind_result_def settlement_decimal_show)

lemma intent_roundtrip_aux:
  assumes "text_faithful T (record_amounts r)"
  shows "to_record T (intent_new T s rh r) = Inr (normal_record r)"
proof -
  have c: "d_parse T (d_show T (cost_usd r)) = Some (cost_usd r)"
    and b: "\<And>c. byok_catalog_usd r = Some c \<Longrightarrow> d_parse T (d_show T c) = Some c"
    and a: "\<And>x c. x \<in> set (attempts r) \<Longrightarrow> a_cost_basis_usd x = Some c \<Longrightarrow> d_parse T (d_show T c) = Some c"
    using assms by (force simp: text_faithful_def record_amounts_def List.map_filter_def list_all_iff)+
  have "map_result (to_attempt T) (List.map (attempt_payload_new T) (attempts r)) = Inr (attempts r)"
    using a by (intro map_result_map attempt_roundtrip) blast
  moreover have "transpose_option (\<lambda>c. settlement_decimal T c ''byok_catalog_usd'')
      (map_option (d_show T) (byok_catalog_usd r)) = Inr (byok_catalog_usd r)"
    using b by (cases "byok_catalog_usd r") (simp_all add: bind_result_def settlement_decimal_show)
  ultimately show ?thesis
    by (simp add: to_record_def intent_new_def bind_result_def settlement_decimal_show c
        usage_roundtrip telemetry_roundtrip normal_record_def)
qed

section \<open>Properties\<close>

text \<open>C34: What a settlement intent stores is what a later settle reads back: the record, up to the three
  normalisations of \<^term>\<open>normal_record\<close>, none of which changes a price or a token count, for every record
  whose amounts survive being printed and parsed.\<close>

theorem settlement_intent_roundtrip:
  assumes "text_faithful T (record_amounts r)"
  shows "to_record T (intent_new T s rh r) = Inr (normal_record r) \<and>
    cost_usd (normal_record r) = cost_usd r \<and> attempts (normal_record r) = attempts r \<and>
    usage_cost D rates (usage (normal_record r)) = usage_cost D rates (usage r)"
  using intent_roundtrip_aux [OF assms] by (simp add: normal_record_def)

definition sample_text :: decimal_text where
  "sample_text = \<lparr> d_show = (\<lambda>c. if c = 7 then ''7'' else ''0.5''), d_parse = plain_numeric,
     d_error_text = (\<lambda>e. ''error'') \<rparr>"

definition sample_record :: usage_record where
  "sample_record = \<lparr> tier = ''fast'', upstream_provider = ''p'', upstream_model = ''m'', usage = mk_usage 100 20 10 5,
     cost_usd = 7, byok_catalog_usd = Some (1 / 2), latency_ms = 3, status = 200,
     telemetry = \<lparr> requested_max_tokens = 5, t_stream = True, prompt_bytes = 9, message_count = 1, tool_count = 0,
       candidate_id = None, basis_rates = None, sell_rates = \<lparr> input_per_mtok = Some 1, output_per_mtok = Some 2,
       cached_input_per_mtok = None, cache_write_per_mtok = None \<rparr>, finish_reason = None,
       finish_reason_source = None, shape_ok = None, t_usage_gap = None, t_priority = None, t_byok = Some True \<rparr>,
     attempts = [] \<rparr>"

lemma settlement_intent_roundtrip_witness:
  "to_record sample_text (intent_new sample_text
     \<lparr> us_request_id = 1, us_api_key_id = 2, us_user_id = 3, us_require_credits = True, us_output_bound = 5, us_reservation = None \<rparr>
     \<lparr> rh_task_signature = \<lparr> hex = ''aa'', scheme = 2, tool_names_sha256 = ''bb'' \<rparr>, rh_reserved_cost_usd = 7,
       rh_estimator_basis = Learned \<rparr> sample_record) = Inr (normal_record sample_record)"
proof -
  have "plain_numeric ''7'' = Some 7" "plain_numeric ''0.5'' = Some (1 / 2)"
    by (simp_all add: plain_numeric_def is_digit_def digits_value_def)
  then have "text_faithful sample_text (record_amounts sample_record)"
    by (simp add: text_faithful_def record_amounts_def sample_record_def sample_text_def List.map_filter_def)
  from settlement_intent_roundtrip [OF this] show ?thesis
    by blast
qed

text \<open>The cost of the attempts that lost is their sum, an unmeasured one counting as nothing, and the sum
  is marked complete exactly when every losing attempt's usage and cost were measured; a request without
  recorded attempts has neither.\<close>

theorem cogs_of_losing_attempts:
  "cogs_summarize as =
     (if as = [] then \<lparr> cogs_total = None, cogs_complete = None \<rparr>
      else \<lparr> cogs_total = Some (sum_where (\<lambda>a. \<not> served a) (\<lambda>a. unwrap_or (a_cost_basis_usd a) 0) as),
             cogs_complete = Some (list_all (\<lambda>a. served a \<or> a_cost_basis_usd a \<noteq> None \<and>
               tokens_is_complete (a_tokens a) \<and> tokens_estimated a = False) as) \<rparr>)"
  by (auto simp: cogs_summarize_eq cogs_is_measured_def list_all_iff) (auto simp: cogs_summarize_def)

end
