(* ===== verification/Schema.thy ===== *)
theory Schema
  imports Usage
begin

text \<open>
  The database the money operations share, after \<^verbatim>\<open>router/migrations\<close>: users with their
  prepaid balance, keys, reservations, usage events, the append-only credit ledger and the Stripe
  side tables.  A table is the list of its rows; a column is nullable where it is an option.  The
  spend rollups are tables of their own, accrued by the insert trigger exactly as the migrations
  accrue them, and a lemma below says they are what they are derived from.
\<close>

section \<open>Rows\<close>

record user =
  u_balance :: money
  u_frozen_at :: "time option"
  u_frozen_reason :: "string option"
  u_stripe_customer :: "string option"
  u_autopay_enabled :: bool
  u_autopay_threshold :: "money option"
  u_autopay_topup :: "money option"
  u_autopay_failures :: int

record api_key =
  k_id :: uuid
  k_user :: uuid
  k_spend_cap :: money
  k_velocity_cap :: int
  k_disabled :: bool
  k_expires_at :: "time option"
  k_credit_limit :: "money option"
  k_credit_limit_window :: "string option"
  k_created_at :: time
  k_last_used_at :: "time option"

text \<open>
  The JSON text of a settlement intent: readable as an intent, or not, in which case only the
  text of its \<^verbatim>\<open>cost_usd\<close> field may still be there.
\<close>

datatype payload = Readable settlement_intent | Unreadable "string option"

record reservation =
  r_id :: uuid
  r_key :: uuid
  r_expires_at :: time
  r_tokens :: int
  r_cost :: money
  r_byok_basis :: "money option"
  r_intent :: "payload option"
  r_intent_at :: "time option"
  r_settle_attempts :: int
  r_last_error :: "string option"
  r_quarantined_at :: "time option"
  r_dispatched_at :: "time option"
  r_released_at :: "time option"
  r_released_note :: "string option"

record usage_event =
  e_request :: uuid
  e_key :: uuid
  e_ts :: time
  e_tier :: string
  e_provider :: string
  e_model :: string
  e_input :: int
  e_cached :: int
  e_cache_write :: int
  e_output :: int
  e_cost :: money
  e_latency_ms :: int
  e_status :: int
  e_telemetry :: request_telemetry
  e_cost_basis :: "money option"
  e_attempts_cogs :: attempt_cogs
  e_attempt_count :: "int option"
  e_task_signature :: "string option"
  e_task_signature_scheme :: "int option"
  e_tool_names_sha256 :: "string option"
  e_reserved_output :: "int option"
  e_reserved_cost :: "money option"
  e_estimator_basis :: "string option"
  e_byok_catalog :: "money option"

record request_attempt =
  q_request :: uuid
  q_key :: uuid
  q_user :: uuid
  q_attempt :: attempt_record
  q_input :: "int option"
  q_cached :: "int option"
  q_output :: "int option"
  q_cache_write :: "int option"

datatype entry_type = Purchase | UsageEntry | Refund | Promo | Adjustment | Autopay | Writeoff | Recovery | TaxEntry

record ledger_entry =
  l_user :: uuid
  l_created_at :: time
  l_type :: entry_type
  l_amount :: money
  l_balance_after :: money
  l_session :: "string option"
  l_payment_intent :: "string option"
  l_request :: "uuid option"
  l_note :: "string option"

record checkout_intent =
  ci_session :: string
  ci_user :: uuid
  ci_amount_cents :: int
  ci_credit :: money
  ci_currency :: string
  ci_settled_at :: "time option"
  ci_created_at :: time

datatype autopay_status = Pending | Succeeded | Failed | Withheld

record autopay_intent =
  ai_payment_intent :: string
  ai_user :: uuid
  ai_amount :: money
  ai_charge :: money
  ai_tax :: "money option"
  ai_tax_calculation :: "string option"
  ai_tax_transaction :: "string option"
  ai_tax_recorded_at :: "time option"
  ai_tax_reversal :: "string option"
  ai_tax_reversed_at :: "time option"
  ai_status :: autopay_status
  ai_created_at :: time
  ai_updated_at :: time

record observed_reversal =
  o_object :: string
  o_payment_intent :: string
  o_is_dispute :: bool
  o_cents :: "int option"
  o_currency :: "string option"
  o_observed_at :: time
  o_applied_at :: "time option"

text \<open>A rollup table has one row for each key, written by INSERT ... ON CONFLICT DO UPDATE.\<close>

type_synonym 'k rollup_table = "('k \<times> money) list"

record spend_rollups =
  month_spend :: "(uuid \<times> time) rollup_table"
  month_byok :: "(uuid \<times> time) rollup_table"
  day_spend :: "(uuid \<times> int) rollup_table"
  total_spend :: "uuid rollup_table"

record db =
  users :: "uuid \<rightharpoonup> user"
  api_keys :: "api_key list"
  reservations :: "reservation list"
  events :: "usage_event list"
  request_attempts :: "request_attempt list"
  ledger :: "ledger_entry list"
  checkout_intents :: "checkout_intent list"
  autopay_intents :: "autopay_intent list"
  reversals :: "observed_reversal list"
  rollup :: spend_rollups

section \<open>Constraints and triggers\<close>

definition blank :: "string \<Rightarrow> bool" where
  "blank s \<longleftrightarrow> list_all (\<lambda>c. c = CHR '' '') s"

definition opt_nonneg :: "money option \<Rightarrow> bool" where
  "opt_nonneg m \<longleftrightarrow> (case m of None \<Rightarrow> True | Some x \<Rightarrow> 0 \<le> x)"

definition is_hex :: "nat \<Rightarrow> string \<Rightarrow> bool" where
  "is_hex n s \<longleftrightarrow> length s = n \<and> list_all (\<lambda>c. c \<in> set ''0123456789abcdef'') s"

definition CHECK_VIOLATION :: sql_error where
  "CHECK_VIOLATION = Database ''23514''"

definition UNIQUE_VIOLATION :: sql_error where
  "UNIQUE_VIOLATION = Database ''23505''"

definition RAISE_EXCEPTION :: sql_error where
  "RAISE_EXCEPTION = Database ''P0001''"

text \<open>The CHECK constraints of \<^verbatim>\<open>usage_events\<close> that a value of the row can violate.\<close>

definition usage_event_checks :: "usage_event \<Rightarrow> bool" where
  "usage_event_checks e \<longleftrightarrow>
     0 \<le> e_input e \<and> 0 \<le> e_cached e \<and> e_cached e \<le> e_input e \<and> 0 \<le> e_output e \<and>
     0 \<le> e_cache_write e \<and> e_cache_write e + e_cached e \<le> e_input e \<and>
     0 \<le> e_cost e \<and> 0 \<le> e_latency_ms e \<and>
     \<not> blank (e_tier e) \<and> \<not> blank (e_provider e) \<and> \<not> blank (e_model e) \<and>
     opt_nonneg (e_cost_basis e) \<and> opt_nonneg (cogs_total (e_attempts_cogs e)) \<and>
     (case finish_reason_source (e_telemetry e) of None \<Rightarrow> True
      | Some s \<Rightarrow> s = FINISH_REASON_UPSTREAM \<or> s = FINISH_REASON_SYNTHETIC) \<and>
     (case t_usage_gap (e_telemetry e) of None \<Rightarrow> True
      | Some g \<Rightarrow> usage_gap_from_keyword g \<noteq> None) \<and>
     (case e_task_signature e of None \<Rightarrow> True | Some h \<Rightarrow> is_hex 16 h) \<and>
     (case e_task_signature_scheme e of None \<Rightarrow> True | Some n \<Rightarrow> 1 \<le> n) \<and>
     (case e_tool_names_sha256 e of None \<Rightarrow> True | Some h \<Rightarrow> is_hex 64 h) \<and>
     0 \<le> prompt_bytes (e_telemetry e) \<and> 1 \<le> message_count (e_telemetry e) \<and>
     0 \<le> tool_count (e_telemetry e) \<and>
     (case e_attempt_count e of None \<Rightarrow> True | Some n \<Rightarrow> 1 \<le> n) \<and>
     (case e_reserved_output e of None \<Rightarrow> True | Some n \<Rightarrow> 0 \<le> n) \<and>
     opt_nonneg (e_reserved_cost e) \<and> opt_nonneg (e_byok_catalog e)"

definition known_outcomes :: "string list" where
  "known_outcomes = [''ok'', ''validation_failed'', ''upstream_error'', ''timeout'', ''rate_limited'',
     ''stream_error'', ''aborted'', ''health_skipped'', ''policy_skipped'']"

definition request_attempt_checks :: "request_attempt \<Rightarrow> bool" where
  "request_attempt_checks q \<longleftrightarrow>
     1 \<le> attempt_no (q_attempt q) \<and> outcome (q_attempt q) \<in> set known_outcomes \<and>
     0 \<le> a_latency_ms (q_attempt q) \<and>
     (case q_input q of None \<Rightarrow> True | Some n \<Rightarrow> 0 \<le> n) \<and>
     (case q_cached q of None \<Rightarrow> True | Some n \<Rightarrow> 0 \<le> n) \<and>
     (case q_cache_write q of None \<Rightarrow> True | Some n \<Rightarrow> 0 \<le> n) \<and>
     (case q_output q of None \<Rightarrow> True | Some n \<Rightarrow> 0 \<le> n) \<and>
     opt_nonneg (a_cost_basis_usd (q_attempt q))"

definition ledger_checks :: "ledger_entry \<Rightarrow> bool" where
  "ledger_checks l \<longleftrightarrow>
     l_amount l \<noteq> 0 \<and>
     (l_type l = UsageEntry \<longrightarrow> l_amount l < 0) \<and>
     (l_type l = Purchase \<longrightarrow> 0 < l_amount l) \<and>
     ((l_type l = UsageEntry) = (l_request l \<noteq> None)) \<and>
     (l_type l = Purchase \<longrightarrow> l_session l \<noteq> None) \<and>
     (l_type l = Autopay \<longrightarrow> 0 < l_amount l \<and> l_session l \<noteq> None) \<and>
     (l_type l = Refund \<longrightarrow> l_amount l < 0 \<and> l_session l \<noteq> None) \<and>
     (l_type l = TaxEntry \<longrightarrow> l_amount l < 0) \<and>
     (l_type l \<in> {Writeoff, Recovery} \<longrightarrow>
        0 < l_amount l \<and> l_session l = None \<and> l_payment_intent l = None \<and>
        \<not> blank (unwrap_or (l_note l) []))"

text \<open>The partial unique indexes on the Stripe object and on the request of a ledger row.\<close>

definition ledger_unique :: "ledger_entry list \<Rightarrow> ledger_entry \<Rightarrow> bool" where
  "ledger_unique ls l \<longleftrightarrow>
     (case l_session l of None \<Rightarrow> True | Some s \<Rightarrow> list_all (\<lambda>x. l_session x \<noteq> Some s) ls) \<and>
     (case l_request l of None \<Rightarrow> True | Some r \<Rightarrow> list_all (\<lambda>x. l_request x \<noteq> Some r) ls)"

text \<open>
  A change of the balance, with the overdraft trigger of migration 0013: outside a declared credit
  reversal a write may not carry the balance downward into, or within, the negative.  The result
  is the RETURNING value; no row is \<^term>\<open>None\<close>.
\<close>

definition update_balance :: "bool \<Rightarrow> uuid \<Rightarrow> money \<Rightarrow> db \<Rightarrow> (sql_error, money option \<times> db) result" where
  "update_balance credit_reversal u delta d =
     (case users d u of
        None \<Rightarrow> Inr (None, d)
      | Some x \<Rightarrow>
          let b = u_balance x + delta in
          if b < 0 \<and> \<not> credit_reversal \<and> b < u_balance x then Inl RAISE_EXCEPTION
          else Inr (Some b, d\<lparr> users := (users d)(u \<mapsto> x\<lparr> u_balance := b \<rparr>) \<rparr>))"

definition insert_ledger :: "ledger_entry \<Rightarrow> db \<Rightarrow> (sql_error, db) result" where
  "insert_ledger l d =
     (if \<not> ledger_checks l then Inl CHECK_VIOLATION
      else if \<not> ledger_unique (ledger d) l then Inl UNIQUE_VIOLATION
      else Inr (d\<lparr> ledger := ledger d @ [l] \<rparr>))"

text \<open>The calendar functions of the database, on the instant of a row.\<close>

record calendar =
  utc_month :: "time \<Rightarrow> time"
  utc_day :: "time \<Rightarrow> int"
  utc_week_start :: "time \<Rightarrow> int"

fun upsert_add :: "'k \<Rightarrow> money \<Rightarrow> 'k rollup_table \<Rightarrow> 'k rollup_table" where
  "upsert_add k v [] = [(k, v)]"
| "upsert_add k v ((k', w) # rows) = (if k = k' then (k', w + v) # rows else (k', w) # upsert_add k v rows)"

definition accrue :: "calendar \<Rightarrow> usage_event \<Rightarrow> spend_rollups \<Rightarrow> spend_rollups" where
  "accrue cal e r =
     (let m = (e_key e, utc_month cal (e_ts e)); dd = (e_key e, utc_day cal (e_ts e)) in
      r\<lparr> month_spend := upsert_add m (e_cost e) (month_spend r),
         month_byok := upsert_add m (unwrap_or (e_byok_catalog e) 0) (month_byok r),
         day_spend := upsert_add dd (e_cost e) (day_spend r),
         total_spend := upsert_add (e_key e) (e_cost e) (total_spend r) \<rparr>)"

definition rollup_sum :: "('k \<Rightarrow> bool) \<Rightarrow> 'k rollup_table \<Rightarrow> money" where
  "rollup_sum P t = sum_where (\<lambda>row. P (fst row)) snd t"

definition insert_event :: "calendar \<Rightarrow> usage_event \<Rightarrow> db \<Rightarrow> (sql_error, db) result" where
  "insert_event cal e d =
     (if \<not> usage_event_checks e then Inl CHECK_VIOLATION
      else if list_ex (\<lambda>x. e_request x = e_request e) (events d) then Inl UNIQUE_VIOLATION
      else Inr (d\<lparr> events := events d @ [e], rollup := accrue cal e (rollup d) \<rparr>))"

definition insert_request_attempt :: "request_attempt \<Rightarrow> db \<Rightarrow> (sql_error, db) result" where
  "insert_request_attempt q d =
     (if \<not> request_attempt_checks q then Inl CHECK_VIOLATION
      else if list_ex (\<lambda>x. q_request x = q_request q \<and>
                (attempt_no (q_attempt x) = attempt_no (q_attempt q) \<or>
                 served (q_attempt x) \<and> served (q_attempt q))) (request_attempts d)
      then Inl UNIQUE_VIOLATION
      else Inr (d\<lparr> request_attempts := request_attempts d @ [q] \<rparr>))"

text \<open>A transaction keeps its writes when it commits and none of them when it fails.\<close>

definition transact :: "(db \<Rightarrow> (sql_error, 'a \<times> db) result) \<Rightarrow> db \<Rightarrow> (sql_error, 'a) result \<times> db" where
  "transact body d = (case body d of Inl e \<Rightarrow> (Inl e, d) | Inr (x, d') \<Rightarrow> (Inr x, d'))"

definition key_user :: "db \<Rightarrow> uuid \<Rightarrow> uuid option" where
  "key_user d k = map_option k_user (List.find (\<lambda>x. k_id x = k) (api_keys d))"

section \<open>Invariants of the tables\<close>

definition ledger_total :: "db \<Rightarrow> uuid \<Rightarrow> money" where
  "ledger_total d u = sum_where (\<lambda>l. l_user l = u) l_amount (ledger d)"

text \<open>Conservation: a balance is the sum of the user's ledger entries, and nothing else moves it.\<close>

definition conserved :: "db \<Rightarrow> bool" where
  "conserved d \<longleftrightarrow>
     (\<forall>u x. users d u = Some x \<longrightarrow> u_balance x = ledger_total d u) \<and>
     (\<forall>u. users d u = None \<longrightarrow> ledger_total d u = 0)"

definition ledger_rows_ok :: "ledger_entry list \<Rightarrow> bool" where
  "ledger_rows_ok ls \<longleftrightarrow>
     list_all ledger_checks ls \<and>
     distinct (List.map_filter l_session ls) \<and> distinct (List.map_filter l_request ls)"

text \<open>Every rollup answers every question about its buckets as the events themselves would.\<close>

definition rollups_derived :: "calendar \<Rightarrow> db \<Rightarrow> bool" where
  "rollups_derived cal d \<longleftrightarrow>
     (\<forall>P. rollup_sum P (month_spend (rollup d))
        = sum_where (\<lambda>e. P (e_key e, utc_month cal (e_ts e))) e_cost (events d)) \<and>
     (\<forall>P. rollup_sum P (month_byok (rollup d))
        = sum_where (\<lambda>e. P (e_key e, utc_month cal (e_ts e))) (\<lambda>e. unwrap_or (e_byok_catalog e) 0) (events d)) \<and>
     (\<forall>P. rollup_sum P (day_spend (rollup d))
        = sum_where (\<lambda>e. P (e_key e, utc_day cal (e_ts e))) e_cost (events d)) \<and>
     (\<forall>P. rollup_sum P (total_spend (rollup d)) = sum_where (\<lambda>e. P (e_key e)) e_cost (events d))"

section \<open>Lemmas\<close>

lemma rollup_sum_upsert:
  "rollup_sum P (upsert_add k v t) = rollup_sum P t + (if P k then v else 0)"
  by (induction k v t rule: upsert_add.induct) (auto simp: rollup_sum_def)

lemma rollup_sum_nonneg: "list_all (\<lambda>row. 0 \<le> snd row) t \<Longrightarrow> 0 \<le> rollup_sum P t"
  unfolding rollup_sum_def by (rule sum_where_nonneg) (auto simp: list_all_iff)

lemma insert_event_rollups:
  "insert_event cal e d = Inr d' \<Longrightarrow> rollups_derived cal d \<Longrightarrow> rollups_derived cal d'"
  by (auto simp: insert_event_def rollups_derived_def accrue_def Let_def rollup_sum_upsert split: if_splits)

lemma update_balance_Inr:
  assumes "update_balance flag u delta d = Inr (Some b, d')"
  obtains x where "users d u = Some x" "b = u_balance x + delta"
    "d' = d\<lparr> users := (users d)(u \<mapsto> x\<lparr> u_balance := b \<rparr>) \<rparr>"
    "flag \<or> 0 \<le> b \<or> u_balance x \<le> b"
  using assms by (auto simp: update_balance_def Let_def split: option.splits if_splits)

lemma insert_ledger_Inr:
  "insert_ledger l d = Inr d' \<Longrightarrow> ledger_checks l \<and> ledger_unique (ledger d) l \<and> d' = d\<lparr> ledger := ledger d @ [l] \<rparr>"
  by (simp add: insert_ledger_def split: if_splits)

lemma map_filter_append: "List.map_filter f (xs @ ys) = List.map_filter f xs @ List.map_filter f ys"
  by (simp add: List.map_filter_def)

lemma ledger_rows_snoc:
  "ledger_rows_ok ls \<Longrightarrow> ledger_checks l \<Longrightarrow> ledger_unique ls l \<Longrightarrow> ledger_rows_ok (ls @ [l])"
  by (cases "l_session l"; cases "l_request l")
    (auto simp: ledger_rows_ok_def ledger_unique_def map_filter_append List.map_filter_def list_all_iff)

text \<open>
  The one way money moves: the balance changes by an amount and a ledger row of that amount and
  that user follows in the same transaction.
\<close>

definition posts :: "db \<Rightarrow> db \<Rightarrow> uuid \<Rightarrow> ledger_entry \<Rightarrow> bool" where
  "posts d d' u l \<longleftrightarrow> l_user l = u \<and> ledger d' = ledger d @ [l] \<and> ledger_checks l \<and> ledger_unique (ledger d) l \<and>
     (\<exists>x x'. users d u = Some x \<and> users d' = (users d)(u \<mapsto> x') \<and> u_balance x' = u_balance x + l_amount l \<and>
        l_balance_after l = u_balance x')"

lemma posts_conserved:
  assumes "posts d d' u l" "conserved d"
  shows "conserved d'"
proof -
  obtain x x' where x: "users d u = Some x" "users d' = (users d)(u \<mapsto> x')"
      "u_balance x' = u_balance x + l_amount l" "l_user l = u" "ledger d' = ledger d @ [l]"
    using assms(1) by (auto simp: posts_def)
  have t: "ledger_total d' v = ledger_total d v + (if v = u then l_amount l else 0)" for v
    using x by (simp add: ledger_total_def)
  show ?thesis
    using assms(2) x unfolding conserved_def t by auto
qed

lemma posts_ledger_rows: "posts d d' u l \<Longrightarrow> ledger_rows_ok (ledger d) \<Longrightarrow> ledger_rows_ok (ledger d')"
  by (auto simp: posts_def intro: ledger_rows_snoc)

lemma conserved_frame:
  assumes "conserved d" and "ledger d' = ledger d"
    and "\<And>u. map_option u_balance (users d' u) = map_option u_balance (users d u)"
  shows "conserved d'"
proof -
  have "ledger_total d' u = ledger_total d u" for u
    using assms(2) by (simp add: ledger_total_def)
  moreover have "users d' u = None \<longleftrightarrow> users d u = None" for u
    using assms(3) [of u] by (metis map_option_is_None)
  moreover have "users d' u = Some x \<Longrightarrow> \<exists>y. users d u = Some y \<and> u_balance y = u_balance x" for u x
    using assms(3) [of u] by (cases "users d u") auto
  ultimately show ?thesis
    using assms(1) unfolding conserved_def by metis
qed

section \<open>The contract of a money operation\<close>

text \<open>
  Every operation of the database that touches money promises the same three things: it conserves
  every balance, it only ever appends to the ledger, and the rows it appends satisfy the
  constraints and the two unique anchors.  What follows for any sequence of such operations is
  proved once.
\<close>

definition money_inv :: "db \<Rightarrow> bool" where
  "money_inv d \<longleftrightarrow> conserved d \<and> ledger_rows_ok (ledger d)"

definition ledger_grows :: "db \<Rightarrow> db \<Rightarrow> bool" where
  "ledger_grows d d' \<longleftrightarrow> (\<exists>ls. ledger d' = ledger d @ ls)"

lemma ledger_grows_refl [simp]: "ledger_grows d d"
  by (simp add: ledger_grows_def)

lemma ledger_grows_trans: "ledger_grows d e \<Longrightarrow> ledger_grows e f \<Longrightarrow> ledger_grows d f"
  by (auto simp: ledger_grows_def)

lemma posts_grows: "posts d d' u l \<Longrightarrow> ledger_grows d d'"
  by (auto simp: posts_def ledger_grows_def)

lemma posts_money_inv: "posts d d' u l \<Longrightarrow> money_inv d \<Longrightarrow> money_inv d'"
  by (simp add: money_inv_def posts_conserved posts_ledger_rows)

lemma money_inv_frame:
  "money_inv d \<Longrightarrow> ledger d' = ledger d \<Longrightarrow>
    (\<And>u. map_option u_balance (users d' u) = map_option u_balance (users d u)) \<Longrightarrow> money_inv d'"
  by (auto simp: money_inv_def intro: conserved_frame)

text \<open>One step, or any number of them, that honours the contract.\<close>

definition money_step :: "db \<Rightarrow> db \<Rightarrow> bool" where
  "money_step d d' \<longleftrightarrow> (money_inv d \<longrightarrow> money_inv d') \<and> ledger_grows d d'"

named_theorems money_steps \<open>operations that honour the money contract\<close>

lemma money_step_refl [simp, money_steps]: "money_step d d"
  by (simp add: money_step_def)

lemma money_step_trans: "money_step d e \<Longrightarrow> money_step e f \<Longrightarrow> money_step d f"
  by (auto simp: money_step_def intro: ledger_grows_trans)

lemma money_step_posts: "posts d d' u l \<Longrightarrow> money_step d d'"
  by (auto simp: money_step_def intro: posts_money_inv posts_grows)

lemma money_step_frame:
  "ledger d' = ledger d \<Longrightarrow> (\<And>u. map_option u_balance (users d' u) = map_option u_balance (users d u)) \<Longrightarrow>
    money_step d d'"
  by (auto simp: money_step_def ledger_grows_def intro: money_inv_frame)

lemma money_step_same: "ledger d' = ledger d \<Longrightarrow> users d' = users d \<Longrightarrow> money_step d d'"
  by (rule money_step_frame) simp_all

lemma money_step_other_tables [simp]:
  "money_step d (d\<lparr> reversals := rs \<rparr>)" "money_step d (d\<lparr> checkout_intents := cs \<rparr>)"
  "money_step d (d\<lparr> autopay_intents := as \<rparr>)" "money_step d (d\<lparr> reservations := vs \<rparr>)"
  by (simp_all add: money_step_same)

locale money_operation =
  fixes run :: "'i \<Rightarrow> db \<Rightarrow> db"
  assumes keeps_inv: "money_inv d \<Longrightarrow> money_inv (run i d)"
    and appends: "ledger_grows d (run i d)"
begin

definition run_all :: "'i list \<Rightarrow> db \<Rightarrow> db" where
  "run_all is d = foldl (\<lambda>d i. run i d) d is"

lemma run_all_inv: "money_inv d \<Longrightarrow> money_inv (run_all is d)"
  unfolding run_all_def by (induction "is" arbitrary: d) (simp_all add: keeps_inv)

lemma run_all_grows: "ledger_grows d (run_all is d)"
  unfolding run_all_def
proof (induction "is" arbitrary: d)
  case (Cons i xs)
  show ?case
    using ledger_grows_trans [OF appends Cons.IH [of "run i d"]] by simp
qed simp

lemma run_all_balance:
  "money_inv d \<Longrightarrow> users (run_all is d) u = Some x \<Longrightarrow> u_balance x = ledger_total (run_all is d) u"
  using run_all_inv [of d "is"] by (simp add: money_inv_def conserved_def)

lemma entry_survives: "l \<in> set (ledger d) \<Longrightarrow> l \<in> set (ledger (run_all is d))"
  using run_all_grows [of d "is"] by (auto simp: ledger_grows_def)

end

end
