(* ===== verification/Byok.thy ===== *)
theory Byok
  imports Prelude
begin

text \<open>
  The bring-your-own-key fee of \<^verbatim>\<open>router/src/byok.rs\<close>: a customer whose own provider key
  pays for the inference is charged a five percent fee, but only on the part of the month's
  catalog value that lies above a monthly allowance.
\<close>

section \<open>Operations\<close>

definition fee_rate :: money where
  "fee_rate = 5 / 100"

definition house_rate :: money where
  "house_rate = 1"

definition monthly_allowance :: money where
  "monthly_allowance = 5000"

definition remaining_allowance :: "money \<Rightarrow> money" where
  "remaining_allowance consumed = max (monthly_allowance - consumed) 0"

definition billable_above_allowance :: "money \<Rightarrow> money \<Rightarrow> money" where
  "billable_above_allowance catalog_cost consumed =
     max (catalog_cost - remaining_allowance consumed) 0"

definition apply_fee :: "decimal_ops \<Rightarrow> money \<Rightarrow> money \<Rightarrow> money option" where
  "apply_fee D catalog_cost rate = d_mul D catalog_cost rate"

text \<open>
  A month of settlements: each cost is billed against what the earlier ones consumed, and the
  whole catalog cost is accrued.  This is how settlement uses the two functions above.
\<close>

fun month_billable :: "money \<Rightarrow> money list \<Rightarrow> money" where
  "month_billable consumed [] = 0"
| "month_billable consumed (c # cs) =
     billable_above_allowance c consumed + month_billable (consumed + c) cs"

section \<open>Lemmas\<close>

lemmas allowance_defs =
  remaining_allowance_def billable_above_allowance_def monthly_allowance_def fee_rate_def
  house_rate_def

lemma remaining_allowance_nonneg [simp]: "0 \<le> remaining_allowance c"
  by (simp add: remaining_allowance_def)

lemma remaining_allowance_antimono: "c \<le> d \<Longrightarrow> remaining_allowance d \<le> remaining_allowance c"
  by (auto simp: remaining_allowance_def)

lemma billable_nonneg [simp]: "0 \<le> billable_above_allowance c consumed"
  by (simp add: billable_above_allowance_def)

lemma billable_le: "0 \<le> c \<Longrightarrow> billable_above_allowance c consumed \<le> c"
  by (simp add: billable_above_allowance_def)

lemma billable_zero_within:
  "c \<le> remaining_allowance consumed \<Longrightarrow> billable_above_allowance c consumed = 0"
  by (simp add: billable_above_allowance_def)

lemma billable_mono_consumed:
  "consumed \<le> consumed' \<Longrightarrow> billable_above_allowance c consumed \<le> billable_above_allowance c consumed'"
  using remaining_allowance_antimono [of consumed consumed'] by (auto simp: billable_above_allowance_def)

lemma billable_step:
  "0 \<le> consumed \<Longrightarrow> 0 \<le> c \<Longrightarrow> 0 \<le> d \<Longrightarrow>
    billable_above_allowance (c + d) consumed
      = billable_above_allowance c consumed + billable_above_allowance d (consumed + c)"
  by (auto simp: allowance_defs max_def)

lemma month_billable_total:
  "0 \<le> consumed \<Longrightarrow> list_all (\<lambda>c. 0 \<le> c) cs \<Longrightarrow>
    month_billable consumed cs = billable_above_allowance (sum_list cs) consumed"
proof (induction cs arbitrary: consumed)
  case Nil
  then show ?case
    by (simp add: allowance_defs)
next
  case (Cons c cs)
  have "0 \<le> sum_list cs"
    using Cons.prems by (auto intro: sum_list_nonneg simp: list_all_iff)
  then have "billable_above_allowance (c + sum_list cs) consumed
      = billable_above_allowance c consumed + billable_above_allowance (sum_list cs) (consumed + c)"
    using Cons.prems by (intro billable_step) auto
  then show ?case
    using Cons by simp
qed

section \<open>Properties\<close>

text \<open>Settling a month's requests one after another bills exactly the part of their total catalog value
  that lies above the monthly allowance, in whatever order they settle; a request is never billed more than
  its own catalog value.\<close>

theorem month_bills_the_excess:
  assumes "list_all (\<lambda>c. 0 \<le> c) cs"
  shows "month_billable 0 cs = max (sum_list cs - monthly_allowance) 0 \<and>
    (\<forall>c consumed. 0 \<le> c \<longrightarrow> 0 \<le> billable_above_allowance c consumed \<and> billable_above_allowance c consumed \<le> c)"
  using month_billable_total [OF order_refl assms] billable_nonneg billable_le
  by (simp add: billable_above_allowance_def remaining_allowance_def monthly_allowance_def)

lemma month_bills_the_excess_witness:
  "month_billable 0 [4000, 900, 600] = max (5500 - monthly_allowance) 0"
  using month_bills_the_excess [of "[4000, 900, 600]"] by simp

end
