(* ===== verification/Admission.thy ===== *)
theory Admission
  imports Schema Byok
begin

text \<open>
  Admission, \<^verbatim>\<open>begin_usage_session\<close> of \<^verbatim>\<open>router/src/db.rs\<close>: one transaction, under the
  user's advisory lock, that authenticates the key, sweeps expired reservations, sums what the key
  and its user have spent and reserved, and either refuses with the first gate that fails or
  inserts a reservation for the worst case of the request.  The lock serializes the transactions
  of one user, so a transaction is one step of the model; \<^verbatim>\<open>now\<close> is its \<^verbatim>\<open>NOW()\<close> and
  \<^verbatim>\<open>fresh\<close> the identifier that \<^verbatim>\<open>Uuid::new_v4\<close> returns.
\<close>

section \<open>Data\<close>

record reservation_size =
  rs_total_tokens :: int
  rs_output_tokens :: int
  rs_cost_usd :: money

record reservation_sizing =
  sizing_learned :: "reservation_size option"
  sizing_full :: reservation_size

definition sizing_cold :: "reservation_size \<Rightarrow> reservation_sizing" where
  "sizing_cold full = \<lparr> sizing_learned = None, sizing_full = full \<rparr>"

record byok_reservation =
  catalog_basis :: "money option"
  wholly_byok :: bool

datatype metering_lane = Reserved | Free

datatype usage_admission =
    Allowed usage_session
  | Unauthorized
  | SpendExceeded
  | VelocityExceeded
  | InsufficientCredits
  | AccountFrozen
  | KeyCreditLimitExceeded

definition LEARNED_SIZING_CONCURRENCY_LIMIT :: nat where
  "LEARNED_SIZING_CONCURRENCY_LIMIT = 2"

definition RESERVATION_TTL :: time where
  "RESERVATION_TTL = 20 * 60"

definition DISPATCHED_WITHOUT_INTENT :: string where
  "DISPATCHED_WITHOUT_INTENT = ''dispatched upstream but expired holding no settlement intent: inference was delivered and its charge was never recorded; reconcile against the provider's usage records''"

section \<open>Guards\<close>

definition spend_within_cap :: "money \<Rightarrow> money \<Rightarrow> money \<Rightarrow> money \<Rightarrow> bool" where
  "spend_within_cap settled reserved additional cap =
     (let committed = settled + reserved in committed < cap \<and> committed + additional \<le> cap)"

definition velocity_within_cap :: "int \<Rightarrow> int \<Rightarrow> int \<Rightarrow> int \<Rightarrow> bool" where
  "velocity_within_cap settled reserved additional cap \<longleftrightarrow>
     sat_add_i64 settled reserved < cap \<and>
     (case Option.bind (checked_add_i64 settled reserved) (\<lambda>c. checked_add_i64 c additional) of
        None \<Rightarrow> False
      | Some projected \<Rightarrow> projected \<le> cap)"

definition reserves_no_byok_fee :: "byok_reservation \<Rightarrow> money \<Rightarrow> money \<Rightarrow> bool" where
  "reserves_no_byok_fee byok consumed committed =
     (case catalog_basis byok of
        None \<Rightarrow> False
      | Some basis \<Rightarrow> wholly_byok byok \<and> basis \<le> remaining_allowance (consumed + committed))"

text \<open>A reservation that encumbers its owner: not released, and live or carrying an intent.\<close>

definition encumbers :: "time \<Rightarrow> reservation \<Rightarrow> bool" where
  "encumbers now r \<longleftrightarrow> r_released_at r = None \<and> (now < r_expires_at r \<or> r_intent r \<noteq> None)"

definition of_user :: "db \<Rightarrow> uuid \<Rightarrow> reservation \<Rightarrow> bool" where
  "of_user d u r \<longleftrightarrow> key_user d (r_key r) = Some u"

definition user_encumbrance :: "time \<Rightarrow> db \<Rightarrow> uuid \<Rightarrow> money" where
  "user_encumbrance now d u = sum_where (\<lambda>r. of_user d u r \<and> encumbers now r) r_cost (reservations d)"

text \<open>COALESCE (MAX (sibling column), presenting column) over the user's enabled keys.\<close>

definition sibling_max :: "(api_key \<Rightarrow> 'v::linorder) \<Rightarrow> db \<Rightarrow> api_key \<Rightarrow> uuid \<Rightarrow> 'v" where
  "sibling_max col d k u =
     (case List.map col (List.filter (\<lambda>s. k_user s = u \<and> \<not> k_disabled s) (api_keys d)) of
        [] \<Rightarrow> col k
      | v # vs \<Rightarrow> fold max vs v)"

section \<open>The sweep\<close>

definition reclaimable :: "time \<Rightarrow> reservation \<Rightarrow> bool" where
  "reclaimable now r \<longleftrightarrow> r_expires_at r \<le> now \<and> r_intent r = None \<and> r_dispatched_at r = None \<and>
     r_released_at r = None"

definition quarantinable :: "time \<Rightarrow> reservation \<Rightarrow> bool" where
  "quarantinable now r \<longleftrightarrow> r_expires_at r \<le> now \<and> r_quarantined_at r = None \<and>
     (r_intent r \<noteq> None \<or> r_dispatched_at r \<noteq> None)"

definition quarantine_row :: "time \<Rightarrow> reservation \<Rightarrow> reservation" where
  "quarantine_row now r = r\<lparr> r_quarantined_at := Some now,
     r_last_error := (if r_intent r = None then or_else (r_last_error r) (Some DISPATCHED_WITHOUT_INTENT)
                      else r_last_error r) \<rparr>"

definition sweep_expired :: "time \<Rightarrow> db \<Rightarrow> db" where
  "sweep_expired now d =
     d\<lparr> reservations := update_where (quarantinable now) (quarantine_row now)
          (List.filter (\<lambda>r. \<not> reclaimable now r) (reservations d)) \<rparr>"

section \<open>The aggregates\<close>

record spend_aggregates =
  sa_user_monthly_spend :: money
  sa_user_recent_tokens :: int
  sa_monthly_spend :: money
  sa_recent_tokens :: int
  sa_window_day_spend :: money
  sa_window_total_spend :: money
  sa_user_monthly_byok :: money

datatype window_query = QNone | QLifetime | QDaily | QWeekly | QMonthly

definition window_query :: "money option \<Rightarrow> credit_limit_window option \<Rightarrow> window_query" where
  "window_query limit window =
     (case limit of
        None \<Rightarrow> QNone
      | Some _ \<Rightarrow>
          (case window of
             None \<Rightarrow> QLifetime
           | Some Daily \<Rightarrow> QDaily
           | Some Weekly \<Rightarrow> QWeekly
           | Some Monthly \<Rightarrow> QMonthly))"

definition event_tokens :: "usage_event \<Rightarrow> int" where
  "event_tokens e = e_input e - e_cached e + e_output e"

definition spend_sums :: "calendar \<Rightarrow> time \<Rightarrow> uuid \<Rightarrow> uuid \<Rightarrow> window_query \<Rightarrow> db \<Rightarrow> spend_aggregates" where
  "spend_sums cal now u k q d =
     (let recent = (\<lambda>e. key_user d (e_key e) = Some u \<and> now - 60 \<le> e_ts e);
          month = (\<lambda>row. key_user d (fst row) = Some u \<and> utc_month cal now \<le> snd row);
          first_day = (case q of QDaily \<Rightarrow> Some (utc_day cal now)
                       | QWeekly \<Rightarrow> Some (utc_week_start cal now) | _ \<Rightarrow> None)
      in \<lparr> sa_user_monthly_spend = rollup_sum month (month_spend (rollup d)),
           sa_user_recent_tokens = sum_where recent event_tokens (events d),
           sa_monthly_spend = rollup_sum (\<lambda>row. month row \<and> fst row = k) (month_spend (rollup d)),
           sa_recent_tokens = sum_where (\<lambda>e. recent e \<and> e_key e = k) event_tokens (events d),
           sa_window_day_spend =
             (case first_day of
                None \<Rightarrow> 0
              | Some day \<Rightarrow> rollup_sum (\<lambda>row. fst row = k \<and> day \<le> snd row) (day_spend (rollup d))),
           sa_window_total_spend =
             (if q = QLifetime then rollup_sum (\<lambda>key. key = k) (total_spend (rollup d)) else 0),
           sa_user_monthly_byok = rollup_sum month (month_byok (rollup d)) \<rparr>)"

record reserved_aggregates =
  ra_user_cost :: money
  ra_user_tokens :: int
  ra_cost :: money
  ra_tokens :: int
  ra_user_live :: nat
  ra_user_byok :: money

definition reserved_sums :: "time \<Rightarrow> uuid \<Rightarrow> uuid \<Rightarrow> db \<Rightarrow> reserved_aggregates" where
  "reserved_sums now u k d =
     (let active = (\<lambda>r. of_user d u r \<and> encumbers now r) in
      \<lparr> ra_user_cost = sum_where active r_cost (reservations d),
        ra_user_tokens = sum_where active r_tokens (reservations d),
        ra_cost = sum_where (\<lambda>r. active r \<and> r_key r = k) r_cost (reservations d),
        ra_tokens = sum_where (\<lambda>r. active r \<and> r_key r = k) r_tokens (reservations d),
        ra_user_live = count_where (\<lambda>r. active r \<and> now < r_expires_at r) (reservations d),
        ra_user_byok = sum_where active (\<lambda>r. unwrap_or (r_byok_basis r) 0) (reservations d) \<rparr>)"

definition choose_size :: "reservation_sizing \<Rightarrow> nat \<Rightarrow> reservation_size \<times> reservation_basis" where
  "choose_size sizing live =
     (case sizing_learned sizing of
        Some learned \<Rightarrow>
          if live < LEARNED_SIZING_CONCURRENCY_LIMIT then (learned, Learned) else (sizing_full sizing, Cold)
      | None \<Rightarrow> (sizing_full sizing, Cold))"

definition size_negative :: "reservation_size \<Rightarrow> bool" where
  "size_negative s \<longleftrightarrow> rs_total_tokens s < 0 \<or> rs_output_tokens s < 0 \<or> rs_cost_usd s < 0"

section \<open>Admission\<close>

record admission_request =
  aq_key :: uuid
  aq_user :: uuid
  aq_sizing :: reservation_sizing
  aq_byok :: byok_reservation
  aq_signature :: task_signature
  aq_require_credits :: bool
  aq_lane :: metering_lane

definition key_usable :: "time \<Rightarrow> admission_request \<Rightarrow> api_key \<Rightarrow> bool" where
  "key_usable now q k \<longleftrightarrow> k_id k = aq_key q \<and> k_user k = aq_user q \<and> \<not> k_disabled k \<and>
     (case k_expires_at k of None \<Rightarrow> True | Some t \<Rightarrow> now < t)"

definition touch_key :: "time \<Rightarrow> admission_request \<Rightarrow> db \<Rightarrow> db" where
  "touch_key now q d = d\<lparr> api_keys := update_where (key_usable now q) (\<lambda>k. k\<lparr> k_last_used_at := Some now \<rparr>) (api_keys d) \<rparr>"

definition new_reservation :: "time \<Rightarrow> uuid \<Rightarrow> admission_request \<Rightarrow> int \<Rightarrow> money \<Rightarrow> reservation" where
  "new_reservation now fresh q tokens cost =
     \<lparr> r_id = fresh, r_key = aq_key q, r_expires_at = now + RESERVATION_TTL, r_tokens = tokens,
       r_cost = cost, r_byok_basis = catalog_basis (aq_byok q), r_intent = None, r_intent_at = None,
       r_settle_attempts = 0, r_last_error = None, r_quarantined_at = None, r_dispatched_at = None,
       r_released_at = None, r_released_note = None \<rparr>"

text \<open>The gates after authentication, in the order the code asks them.\<close>

definition admission_gates ::
  "calendar \<Rightarrow> time \<Rightarrow> uuid \<Rightarrow> admission_request \<Rightarrow> api_key \<Rightarrow> credit_limit_window option \<Rightarrow> db
    \<Rightarrow> (sql_error, usage_admission \<times> db) result \<times> bool" where
  "admission_gates cal now fresh q k window d =
     (let u = aq_user q;
          s = spend_sums cal now u (aq_key q) (window_query (k_credit_limit k) window) d;
          a = reserved_sums now u (aq_key q) d;
          (size, basis) = choose_size
             (if aq_lane q = Free then sizing_cold (sizing_full (aq_sizing q)) else aq_sizing q) (ra_user_live a);
          cost = (if reserves_no_byok_fee (aq_byok q) (sa_user_monthly_byok s) (ra_user_byok a)
                  then 0 else rs_cost_usd size)
      in
      if \<not> spend_within_cap (sa_monthly_spend s) (ra_cost a) cost (k_spend_cap k) \<or>
         \<not> spend_within_cap (sa_user_monthly_spend s) (ra_user_cost a) cost (sibling_max k_spend_cap d k u)
      then (Inr (SpendExceeded, d), False)
      else if (case k_credit_limit k of
                 None \<Rightarrow> False
               | Some limit \<Rightarrow>
                   \<not> spend_within_cap
                       (case window of
                          None \<Rightarrow> sa_window_total_spend s
                        | Some Daily \<Rightarrow> sa_window_day_spend s
                        | Some Weekly \<Rightarrow> sa_window_day_spend s
                        | Some Monthly \<Rightarrow> sa_monthly_spend s)
                       (ra_cost a) cost limit)
      then (Inr (KeyCreditLimitExceeded, d), False)
      else if \<not> velocity_within_cap (sa_recent_tokens s) (ra_tokens a) (rs_total_tokens size) (k_velocity_cap k) \<or>
              \<not> velocity_within_cap (sa_user_recent_tokens s) (ra_user_tokens a) (rs_total_tokens size)
                 (sibling_max k_velocity_cap d k u)
      then (Inr (VelocityExceeded, d), False)
      else if aq_require_credits q \<and> users d u = None
      then (Inr (Unauthorized, d), False)
      else if aq_require_credits q \<and> u_balance (the (users d u)) - user_encumbrance now d u < cost
      then (Inr (InsufficientCredits, d), False)
      else if i32_max < rs_output_tokens size
      then (Inl (Protocol ''reserved output tokens exceed the database integer range''), False)
      else
        let session = (\<lambda>handle. \<lparr> us_request_id = fresh, us_api_key_id = aq_key q, us_user_id = u,
              us_require_credits = aq_require_credits q, us_output_bound = rs_output_tokens size,
              us_reservation = handle \<rparr>)
        in (case aq_lane q of
              Reserved \<Rightarrow>
                (Inr (Allowed (session (Some \<lparr> rh_task_signature = aq_signature q,
                         rh_reserved_cost_usd = cost, rh_estimator_basis = basis \<rparr>)),
                      d\<lparr> reservations := reservations d
                           @ [new_reservation now fresh q (rs_total_tokens size) cost] \<rparr>), True)
            | Free \<Rightarrow> (Inr (Allowed (session None), d), True)))"

text \<open>
  The whole transaction.  The flag of \<^const>\<open>admission_gates\<close> says whether the code commits; every
  other exit rolls back, so its writes (the touched key, the sweep) are lost with it.
\<close>

definition begin_usage_session ::
  "calendar \<Rightarrow> time \<Rightarrow> uuid \<Rightarrow> admission_request \<Rightarrow> db \<Rightarrow> (sql_error, usage_admission) result \<times> db" where
  "begin_usage_session cal now fresh q d =
     (let sizing = (if aq_lane q = Free then sizing_cold (sizing_full (aq_sizing q)) else aq_sizing q) in
      if size_negative (sizing_full sizing) \<or>
         (case sizing_learned sizing of None \<Rightarrow> False | Some l \<Rightarrow> size_negative l)
      then (Inl (Protocol ''usage reservation cannot be negative''), d)
      else
        (case List.find (key_usable now q) (api_keys d) of
           None \<Rightarrow> (Inr Unauthorized, d)
         | Some k \<Rightarrow>
             let d1 = touch_key now q d in
             (case (case k_credit_limit_window k of
                      None \<Rightarrow> Some None
                    | Some kw \<Rightarrow> (case window_from_keyword kw of None \<Rightarrow> None | Some w \<Rightarrow> Some (Some w))) of
                None \<Rightarrow> (Inl (Protocol ''api key carries an unknown credit_limit_window''), d)
              | Some window \<Rightarrow>
                  (case users d1 (aq_user q) of
                     None \<Rightarrow> (Inr Unauthorized, d)
                   | Some x \<Rightarrow>
                       if u_frozen_at x \<noteq> None then (Inr AccountFrozen, d)
                       else
                         let d2 = (if aq_lane q = Reserved then sweep_expired now d1 else d1) in
                         (case admission_gates cal now fresh q k window d2 of
                            (Inl e, _) \<Rightarrow> (Inl e, d)
                          | (Inr (out, d3), commit) \<Rightarrow> (Inr out, if commit then d3 else d))))))"

section \<open>Minting a key\<close>

definition MAX_ACTIVE_KEYS_PER_USER :: nat where
  "MAX_ACTIVE_KEYS_PER_USER = 20"

definition MAX_KEYS_CREATED_PER_WINDOW :: nat where
  "MAX_KEYS_CREATED_PER_WINDOW = 20"

definition KEY_CREATION_WINDOW_HOURS :: int where
  "KEY_CREATION_WINDOW_HOURS = 24"

datatype key_mint_admission = MintAllowed | MintLimitReached | MintAccountFrozen

definition admit_key_mint :: "time \<Rightarrow> uuid \<Rightarrow> db \<Rightarrow> key_mint_admission" where
  "admit_key_mint now u d =
     (if (case users d u of None \<Rightarrow> False | Some x \<Rightarrow> u_frozen_at x \<noteq> None) then MintAccountFrozen
      else if MAX_ACTIVE_KEYS_PER_USER \<le> count_where (\<lambda>k. k_user k = u \<and> \<not> k_disabled k) (api_keys d) \<or>
              MAX_KEYS_CREATED_PER_WINDOW \<le> count_where (\<lambda>k. k_user k = u \<and>
                now - KEY_CREATION_WINDOW_HOURS * 3600 < k_created_at k) (api_keys d)
      then MintLimitReached
      else MintAllowed)"

section \<open>Lemmas: what a successful admission has checked\<close>

definition charged_cost ::
  "calendar \<Rightarrow> time \<Rightarrow> admission_request \<Rightarrow> api_key \<Rightarrow> credit_limit_window option \<Rightarrow> db \<Rightarrow> reservation_size \<Rightarrow> money" where
  "charged_cost cal now q k window d sz0 =
     (if reserves_no_byok_fee (aq_byok q)
           (sa_user_monthly_byok (spend_sums cal now (aq_user q) (aq_key q) (window_query (k_credit_limit k) window) d))
           (ra_user_byok (reserved_sums now (aq_user q) (aq_key q) d))
      then 0 else rs_cost_usd sz0)"

definition chosen_size :: "time \<Rightarrow> admission_request \<Rightarrow> db \<Rightarrow> reservation_size" where
  "chosen_size now q d = fst (choose_size
     (if aq_lane q = Free then sizing_cold (sizing_full (aq_sizing q)) else aq_sizing q)
     (ra_user_live (reserved_sums now (aq_user q) (aq_key q) d)))"

lemma gates_allowed:
  assumes "admission_gates cal now fresh q k window d = (Inr (Allowed s, d'), commit)"
  defines "agg \<equiv> spend_sums cal now (aq_user q) (aq_key q) (window_query (k_credit_limit k) window) d"
    and "res \<equiv> reserved_sums now (aq_user q) (aq_key q) d"
    and "sz0 \<equiv> chosen_size now q d" and "cost \<equiv> charged_cost cal now q k window d (chosen_size now q d)"
  shows "commit"
    and "spend_within_cap (sa_monthly_spend agg) (ra_cost res) cost (k_spend_cap k)"
    and "spend_within_cap (sa_user_monthly_spend agg) (ra_user_cost res) cost (sibling_max k_spend_cap d k (aq_user q))"
    and "velocity_within_cap (sa_recent_tokens agg) (ra_tokens res) (rs_total_tokens sz0) (k_velocity_cap k)"
    and "velocity_within_cap (sa_user_recent_tokens agg) (ra_user_tokens res) (rs_total_tokens sz0)
           (sibling_max k_velocity_cap d k (aq_user q))"
    and "aq_require_credits q \<Longrightarrow> \<exists>x. users d (aq_user q) = Some x \<and> user_encumbrance now d (aq_user q) + cost \<le> u_balance x"
    and "us_request_id s = fresh" "us_api_key_id s = aq_key q" "us_user_id s = aq_user q"
      "us_require_credits s = aq_require_credits q" "us_output_bound s = rs_output_tokens sz0"
    and "d' = (if aq_lane q = Reserved
               then d\<lparr> reservations := reservations d @ [new_reservation now fresh q (rs_total_tokens sz0) cost] \<rparr> else d)"
    and "map_option rh_reserved_cost_usd (us_reservation s) = (if aq_lane q = Reserved then Some cost else None)"
proof -
  obtain sz bs where cs: "choose_size (if aq_lane q = Free then sizing_cold (sizing_full (aq_sizing q)) else aq_sizing q)
     (ra_user_live (reserved_sums now (aq_user q) (aq_key q) d)) = (sz, bs)"
    by fastforce
  have sz: "sz0 = sz" "chosen_size now q d = sz"
    using cs by (simp_all add: sz0_def chosen_size_def)
  have cost: "(if reserves_no_byok_fee (aq_byok q)
           (sa_user_monthly_byok (spend_sums cal now (aq_user q) (aq_key q) (window_query (k_credit_limit k) window) d))
           (ra_user_byok (reserved_sums now (aq_user q) (aq_key q) d))
      then 0 else rs_cost_usd sz) = cost"
    by (simp only: cost_def charged_cost_def sz)
  note g = assms(1) [unfolded admission_gates_def Let_def cs prod.case cost, folded agg_def res_def]
  show "commit"
    "spend_within_cap (sa_monthly_spend agg) (ra_cost res) cost (k_spend_cap k)"
    "spend_within_cap (sa_user_monthly_spend agg) (ra_user_cost res) cost (sibling_max k_spend_cap d k (aq_user q))"
    "velocity_within_cap (sa_recent_tokens agg) (ra_tokens res) (rs_total_tokens sz0) (k_velocity_cap k)"
    "velocity_within_cap (sa_user_recent_tokens agg) (ra_user_tokens res) (rs_total_tokens sz0)
           (sibling_max k_velocity_cap d k (aq_user q))"
    "aq_require_credits q \<Longrightarrow> \<exists>x. users d (aq_user q) = Some x \<and> user_encumbrance now d (aq_user q) + cost \<le> u_balance x"
    "us_request_id s = fresh" "us_api_key_id s = aq_key q" "us_user_id s = aq_user q"
    "us_require_credits s = aq_require_credits q" "us_output_bound s = rs_output_tokens sz0"
    "d' = (if aq_lane q = Reserved
               then d\<lparr> reservations := reservations d @ [new_reservation now fresh q (rs_total_tokens sz0) cost] \<rparr> else d)"
    "map_option rh_reserved_cost_usd (us_reservation s) = (if aq_lane q = Reserved then Some cost else None)"
    using g unfolding sz(1)
    by (cases "users d (aq_user q)"; auto split: if_splits metering_lane.splits)+
qed

definition prepared :: "time \<Rightarrow> admission_request \<Rightarrow> db \<Rightarrow> db" where
  "prepared now q d = (if aq_lane q = Reserved then sweep_expired now (touch_key now q d) else touch_key now q d)"

lemma touch_key_simps [db_simps]:
  "users (touch_key now q d) = users d" "reservations (touch_key now q d) = reservations d"
  "ledger (touch_key now q d) = ledger d" "events (touch_key now q d) = events d"
  "rollup (touch_key now q d) = rollup d" "request_attempts (touch_key now q d) = request_attempts d"
  by (simp_all add: touch_key_def)

lemma sweep_expired_simps [db_simps]:
  "users (sweep_expired now d) = users d" "api_keys (sweep_expired now d) = api_keys d"
  "ledger (sweep_expired now d) = ledger d" "events (sweep_expired now d) = events d"
  "rollup (sweep_expired now d) = rollup d" "request_attempts (sweep_expired now d) = request_attempts d"
  by (simp_all add: sweep_expired_def)

lemma find_update_where:
  "(\<And>x. P (f x) = P x) \<Longrightarrow> List.find P (update_where Q f xs) = map_option (\<lambda>x. if Q x then f x else x) (List.find P xs)"
  by (induction xs) auto

lemma key_user_touch [db_simps]: "key_user (touch_key now q d) k = key_user d k"
proof (cases "List.find (\<lambda>x. k_id x = k) (api_keys d)")
  case (Some y)
  then show ?thesis
    by (simp add: key_user_def touch_key_def find_update_where)
qed (simp add: key_user_def touch_key_def find_update_where)

lemma key_user_cong: "api_keys d' = api_keys d \<Longrightarrow> key_user d' k = key_user d k"
  by (simp add: key_user_def)

lemma key_user_sweep [db_simps]: "key_user (sweep_expired now d) k = key_user d k"
  by (rule key_user_cong) (simp add: db_simps)

lemma of_user_sweep [db_simps]: "of_user (sweep_expired now d) u = of_user d u"
  by (rule ext) (simp add: of_user_def db_simps)

lemma of_user_touch [db_simps]: "of_user (touch_key now q d) u = of_user d u"
  by (rule ext) (simp add: of_user_def db_simps)

lemma quarantine_row_simps [simp]:
  "r_id (quarantine_row now r) = r_id r" "r_key (quarantine_row now r) = r_key r"
  "r_cost (quarantine_row now r) = r_cost r" "r_expires_at (quarantine_row now r) = r_expires_at r"
  "r_intent (quarantine_row now r) = r_intent r" "r_released_at (quarantine_row now r) = r_released_at r"
  "r_dispatched_at (quarantine_row now r) = r_dispatched_at r" "r_tokens (quarantine_row now r) = r_tokens r"
  "r_byok_basis (quarantine_row now r) = r_byok_basis r"
  by (simp_all add: quarantine_row_def)

lemma encumbers_quarantine [simp]: "encumbers t (quarantine_row now r) = encumbers t r"
  by (simp add: encumbers_def)

lemma reclaimable_not_encumbers: "reclaimable now r \<Longrightarrow> now \<le> t \<Longrightarrow> \<not> encumbers t r"
  by (auto simp: reclaimable_def encumbers_def)

text \<open>The sweep changes no aggregate over encumbering reservations, now or later.\<close>

lemma sweep_sum_where:
  assumes "now \<le> t" and "\<And>r. P (quarantine_row now r) = P r" and "\<And>r. f (quarantine_row now r) = f r"
    and "\<And>r. P r \<Longrightarrow> encumbers t r"
  shows "sum_where P f (reservations (sweep_expired now d)) = sum_where P f (reservations d)"
proof -
  have "sum_where P f (reservations (sweep_expired now d))
      = sum_where P f (List.filter (\<lambda>r. \<not> reclaimable now r) (reservations d))"
    unfolding sweep_expired_def using assms(2,3) by (simp add: sum_where_update)
  also have "\<dots> = sum_where P f (reservations d)"
    unfolding sum_where_filter using reclaimable_not_encumbers [OF _ assms(1)] assms(4)
    by (intro sum_where_cong) auto
  finally show ?thesis .
qed

lemma user_encumbrance_sweep:
  "now \<le> t \<Longrightarrow> user_encumbrance t (sweep_expired now d) u = user_encumbrance t d u"
  unfolding user_encumbrance_def of_user_sweep
  by (rule sweep_sum_where) (auto simp: of_user_def)

lemma user_encumbrance_touch [db_simps]: "user_encumbrance t (touch_key now q d) u = user_encumbrance t d u"
  by (simp add: user_encumbrance_def db_simps)

lemma user_encumbrance_prepared: "user_encumbrance now (prepared now q d) u = user_encumbrance now d u"
  by (simp add: prepared_def user_encumbrance_sweep user_encumbrance_touch)

lemma prepared_simps [db_simps]:
  "users (prepared now q d) = users d" "ledger (prepared now q d) = ledger d"
  "events (prepared now q d) = events d" "rollup (prepared now q d) = rollup d"
  "key_user (prepared now q d) k = key_user d k" "of_user (prepared now q d) u = of_user d u"
  "request_attempts (prepared now q d) = request_attempts d"
  by (simp_all add: prepared_def db_simps)

lemma admission_allowed:
  assumes "begin_usage_session cal now fresh q d = (Inr (Allowed s), d')"
  obtains k window x where "List.find (key_usable now q) (api_keys d) = Some k"
    "k_credit_limit_window k = map_option window_as_str window"
    "users d (aq_user q) = Some x" "u_frozen_at x = None"
    "admission_gates cal now fresh q k window (prepared now q d) = (Inr (Allowed s, d'), True)"
proof -
  obtain k where k: "List.find (key_usable now q) (api_keys d) = Some k"
    using assms by (cases "List.find (key_usable now q) (api_keys d)")
      (auto simp: begin_usage_session_def Let_def split: if_splits)
  define w where "w = (case k_credit_limit_window k of
                      None \<Rightarrow> Some None
                    | Some kw \<Rightarrow> (case window_from_keyword kw of None \<Rightarrow> None | Some w \<Rightarrow> Some (Some w)))"
  obtain window where window: "w = Some window"
    using assms k by (cases w) (auto simp: begin_usage_session_def Let_def w_def [symmetric] split: if_splits)
  have kw: "k_credit_limit_window k = map_option window_as_str window"
    using window by (auto simp: w_def window_kw.parse_eq_Some split: option.splits)
  obtain x where x: "users d (aq_user q) = Some x"
    using assms k window by (cases "users d (aq_user q)")
      (auto simp: begin_usage_session_def Let_def w_def [symmetric] db_simps split: if_splits)
  have nf: "u_frozen_at x = None"
    using assms k window x
    by (auto simp: begin_usage_session_def Let_def w_def [symmetric] db_simps split: if_splits)
  obtain o' c where g: "admission_gates cal now fresh q k window (prepared now q d) = (o', c)"
    by fastforce
  have "(case (o', c) of (Inl e, _) \<Rightarrow> (Inl e, d)
      | (Inr (out, d3), commit) \<Rightarrow> (Inr out, if commit then d3 else d)) = (Inr (Allowed s), d')"
    using assms k window x nf unfolding g [symmetric] prepared_def
    by (simp add: begin_usage_session_def Let_def w_def [symmetric] db_simps split: if_splits)
  then obtain d3 where o: "o' = Inr (Allowed s, d3)" "d' = (if c then d3 else d)"
    by (auto split: sum.splits prod.splits)
  have c
    using gates_allowed(1) g o by blast
  then show ?thesis
    using that [OF k kw x nf] g o by simp
qed

section \<open>Solvency\<close>

text \<open>
  A database is solvent at an instant when every balance covers what its user's encumbering
  reservations hold; an account is secured up to an amount when it is short of that by no more than the amount.
  Reservations never cost less than nothing, and keys and reservations are
  identified by their primary keys.
\<close>

definition secured :: "money \<Rightarrow> time \<Rightarrow> db \<Rightarrow> uuid \<Rightarrow> bool" where
  "secured late now d u \<longleftrightarrow> (\<forall>x. users d u = Some x \<longrightarrow> user_encumbrance now d u \<le> u_balance x + late)"

definition solvent :: "time \<Rightarrow> db \<Rightarrow> bool" where
  "solvent now d \<longleftrightarrow> (\<forall>u x. users d u = Some x \<longrightarrow> user_encumbrance now d u \<le> u_balance x)"

definition rows_wf :: "db \<Rightarrow> bool" where
  "rows_wf d \<longleftrightarrow> distinct (List.map k_id (api_keys d)) \<and> distinct (List.map r_id (reservations d)) \<and>
     (\<forall>r \<in> set (reservations d). 0 \<le> r_cost r)"

lemma encumbers_antimono: "now \<le> later \<Longrightarrow> encumbers later r \<Longrightarrow> encumbers now r"
  by (auto simp: encumbers_def)

lemma encumbrance_antimono:
  "rows_wf d \<Longrightarrow> now \<le> later \<Longrightarrow> user_encumbrance later d u \<le> user_encumbrance now d u"
  unfolding user_encumbrance_def
  by (rule sum_where_mono) (auto simp: rows_wf_def intro: encumbers_antimono)

lemma solvent_secured: "solvent now d \<longleftrightarrow> (\<forall>u. secured 0 now d u)"
  by (simp add: solvent_def secured_def)

lemma secured_later: "rows_wf d \<Longrightarrow> secured late now d u \<Longrightarrow> now \<le> later \<Longrightarrow> secured late later d u"
  unfolding secured_def using encumbrance_antimono order_trans by blast

lemma encumbrance_snoc:
  "user_encumbrance now (d\<lparr> reservations := reservations d @ [r] \<rparr>) u
     = user_encumbrance now d u + (if of_user d u r \<and> encumbers now r then r_cost r else 0)"
proof -
  have "of_user (d\<lparr> reservations := reservations d @ [r] \<rparr>) = of_user d"
    by (intro ext) (simp add: of_user_def key_user_def)
  then show ?thesis
    by (simp add: user_encumbrance_def)
qed

lemma usable_key_user:
  assumes "distinct (List.map k_id (api_keys d))" "List.find (key_usable now q) (api_keys d) = Some k"
  shows "key_user d (aq_key q) = Some (aq_user q)"
  using find_SomeD [OF assms(2)] find_key [OF assms(1), of k] by (auto simp: key_user_def key_usable_def)

lemma secured_prepared: "secured late now (prepared now q d) u = secured late now d u"
  by (simp add: secured_def user_encumbrance_prepared db_simps)

lemma admission_secured:
  assumes "begin_usage_session cal now fresh q d = (Inr (Allowed s), d')" "rows_wf d" "secured late now d u" "0 \<le> late"
    and "aq_lane q = Reserved \<longrightarrow> aq_require_credits q"
  shows "secured late now d' u"
  using assms(1)
proof (rule admission_allowed)
  fix k window x
  assume k: "List.find (key_usable now q) (api_keys d) = Some k"
    and g: "admission_gates cal now fresh q k window (prepared now q d) = (Inr (Allowed s, d'), True)"
  define p where "p = prepared now q d"
  define r where "r = new_reservation now fresh q (rs_total_tokens (chosen_size now q p))
    (charged_cost cal now q k window p (chosen_size now q p))"
  have sp: "secured late now p u"
    using assms(3) by (simp add: p_def secured_prepared)
  have d': "d' = (if aq_lane q = Reserved then p\<lparr> reservations := reservations p @ [r] \<rparr> else p)"
    using gates_allowed(12) [OF g [folded p_def]] by (simp add: r_def)
  show ?thesis
  proof (cases "aq_lane q = Reserved")
    case True
    have enough: "\<exists>x. users p (aq_user q) = Some x \<and> user_encumbrance now p (aq_user q) + r_cost r \<le> u_balance x"
      using gates_allowed(6) [OF g [folded p_def]] assms(5) True by (simp add: r_def new_reservation_def)
    have "key_user p (aq_key q) = Some (aq_user q)"
      using usable_key_user [OF _ k] assms(2) by (simp add: p_def db_simps rows_wf_def)
    then have ou: "of_user p u r \<longleftrightarrow> u = aq_user q"
      by (auto simp: of_user_def r_def new_reservation_def)
    have e: "user_encumbrance now d' u = user_encumbrance now p u
        + (if of_user p u r \<and> encumbers now r then r_cost r else 0)" and users: "users d' = users p"
      using d' True by (simp_all add: encumbrance_snoc)
    show ?thesis
      using sp enough assms(4) unfolding secured_def e ou users by (auto split: if_splits)
  qed (use d' sp in simp)
qed

section \<open>What admission leaves alone\<close>

lemma begin_not_allowed:
  assumes "begin_usage_session cal now fresh q d = (out, d')" "\<And>s. out \<noteq> Inr (Allowed s)"
  shows "d' = d"
proof -
  have keep: "(case r of (Inl e, _) \<Rightarrow> (Inl e, d) | (Inr (o', d3), commit) \<Rightarrow> (Inr o', if commit then d3 else d)) = (out, d')
      \<Longrightarrow> r = admission_gates cal now fresh q k w p \<Longrightarrow> d' = d" for r k w p
  proof -
    assume a: "(case r of (Inl e, _) \<Rightarrow> (Inl e, d) | (Inr (o', d3), commit) \<Rightarrow> (Inr o', if commit then d3 else d)) = (out, d')"
      and r: "r = admission_gates cal now fresh q k w p"
    show "d' = d"
    proof (cases r)
      case (Pair a' c)
      show ?thesis
      proof (cases a')
        case (Inl e)
        then show ?thesis
          using a Pair by auto
      next
        case (Inr od)
        obtain o' d3 where od: "od = (o', d3)"
          by fastforce
        have "o' = Allowed s \<Longrightarrow> False" for s
          using assms(2) [of s] a Pair Inr od by auto
        moreover have "c \<Longrightarrow> \<exists>s. o' = Allowed s"
          using r Pair Inr od unfolding admission_gates_def Let_def
          by (auto split: prod.splits if_splits metering_lane.splits)
        ultimately show ?thesis
          using a Pair Inr od by auto
      qed
    qed
  qed
  show ?thesis
    using assms(1) unfolding begin_usage_session_def Let_def
    by (auto split: if_splits option.splits intro: keep)
qed

lemma begin_frame:
  assumes "begin_usage_session cal now fresh q d = (out, d')"
  shows "users d' = users d" "ledger d' = ledger d" "events d' = events d" "rollup d' = rollup d"
    "request_attempts d' = request_attempts d"
proof -
  have "users d' = users d \<and> ledger d' = ledger d \<and> events d' = events d \<and> rollup d' = rollup d \<and>
      request_attempts d' = request_attempts d"
  proof (cases "\<exists>s. out = Inr (Allowed s)")
    case False
    then show ?thesis
      using begin_not_allowed [OF assms] by auto
  next
    case True
    then obtain s where "begin_usage_session cal now fresh q d = (Inr (Allowed s), d')"
      using assms by auto
    then show ?thesis
    proof (rule admission_allowed)
      fix k window x
      assume "admission_gates cal now fresh q k window (prepared now q d) = (Inr (Allowed s, d'), True)"
      from gates_allowed(12) [OF this] show ?thesis
        by (auto simp: db_simps split: if_splits)
    qed
  qed
  then show "users d' = users d" "ledger d' = ledger d" "events d' = events d" "rollup d' = rollup d"
    "request_attempts d' = request_attempts d"
    by simp_all
qed

lemma set_sweep:
  "r \<in> set (reservations (sweep_expired now d)) \<longleftrightarrow>
    (\<exists>r0 \<in> set (reservations d). \<not> reclaimable now r0 \<and>
       r = (if quarantinable now r0 then quarantine_row now r0 else r0))"
  by (auto simp: sweep_expired_def set_update_where)

lemma rows_wf_sweep: "rows_wf d \<Longrightarrow> rows_wf (sweep_expired now d)"
  unfolding rows_wf_def
  by (auto simp: set_sweep db_simps) (auto simp: sweep_expired_def map_update_where distinct_map_filter_key)

lemma keys_touch: "List.map k_id (api_keys (touch_key now q d)) = List.map k_id (api_keys d)"
  by (simp add: touch_key_def map_update_where)

lemma rows_wf_touch: "rows_wf d \<Longrightarrow> rows_wf (touch_key now q d)"
  by (simp add: rows_wf_def keys_touch db_simps)

lemma rows_wf_prepared: "rows_wf d \<Longrightarrow> rows_wf (prepared now q d)"
  by (simp add: prepared_def rows_wf_sweep rows_wf_touch)

lemma prepared_ids: "r_id ` set (reservations (prepared now q d)) \<subseteq> r_id ` set (reservations d)"
  by (auto simp: prepared_def set_sweep db_simps image_iff) (metis quarantine_row_simps(1))

lemma charged_cost_nonneg:
  "\<not> size_negative (chosen_size now q d) \<Longrightarrow> 0 \<le> charged_cost cal now q k window d (chosen_size now q d)"
  by (simp add: charged_cost_def size_negative_def)

lemma chosen_size_nonneg:
  assumes "begin_usage_session cal now fresh q d = (Inr (Allowed s), d')"
  shows "\<not> size_negative (chosen_size now q e)"
  using assms unfolding begin_usage_session_def Let_def chosen_size_def choose_size_def
  by (auto split: if_splits option.splits simp: sizing_cold_def)

lemma admission_rows_wf:
  assumes "begin_usage_session cal now fresh q d = (out, d')" "rows_wf d" "fresh \<notin> r_id ` set (reservations d)"
  shows "rows_wf d'"
proof (cases "\<exists>s. out = Inr (Allowed s)")
  case False
  then show ?thesis
    using begin_not_allowed [OF assms(1)] assms(2) by auto
next
  case True
  then obtain s where b: "begin_usage_session cal now fresh q d = (Inr (Allowed s), d')"
    using assms(1) by auto
  then show ?thesis
  proof (rule admission_allowed)
    fix k window x
    assume g: "admission_gates cal now fresh q k window (prepared now q d) = (Inr (Allowed s, d'), True)"
    have w: "rows_wf (prepared now q d)"
      by (rule rows_wf_prepared [OF assms(2)])
    have f: "fresh \<notin> r_id ` set (reservations (prepared now q d))"
      using assms(3) prepared_ids by blast
    show ?thesis
      using w f charged_cost_nonneg [OF chosen_size_nonneg [OF b]] unfolding gates_allowed(12) [OF g]
      by (auto simp: rows_wf_def new_reservation_def)
  qed
qed

section \<open>The caps hold once the reservation is held\<close>

lemma velocity_within_capD: "velocity_within_cap settled reserved additional cap \<Longrightarrow> settled + reserved + additional \<le> cap"
  by (auto simp: velocity_within_cap_def checked_add_i64_def split: option.splits if_splits)

lemma spend_within_capD: "spend_within_cap settled reserved additional cap \<Longrightarrow> settled + (reserved + additional) \<le> cap"
  by (auto simp: spend_within_cap_def Let_def)

lemma reserved_sums_snoc:
  assumes "of_user d u r" "encumbers now r" "r_key r = k"
  defines "d' \<equiv> d\<lparr> reservations := reservations d @ [r] \<rparr>"
  shows "ra_cost (reserved_sums now u k d') = ra_cost (reserved_sums now u k d) + r_cost r"
    and "ra_user_cost (reserved_sums now u k d') = ra_user_cost (reserved_sums now u k d) + r_cost r"
    and "ra_tokens (reserved_sums now u k d') = ra_tokens (reserved_sums now u k d) + r_tokens r"
    and "ra_user_tokens (reserved_sums now u k d') = ra_user_tokens (reserved_sums now u k d) + r_tokens r"
proof -
  have o: "of_user d' = of_user d"
    by (intro ext) (simp add: of_user_def key_user_def d'_def)
  show "ra_cost (reserved_sums now u k d') = ra_cost (reserved_sums now u k d) + r_cost r"
    and "ra_user_cost (reserved_sums now u k d') = ra_user_cost (reserved_sums now u k d) + r_cost r"
    and "ra_tokens (reserved_sums now u k d') = ra_tokens (reserved_sums now u k d) + r_tokens r"
    and "ra_user_tokens (reserved_sums now u k d') = ra_user_tokens (reserved_sums now u k d) + r_tokens r"
    using assms(1-3) by (simp_all add: reserved_sums_def Let_def o) (simp_all add: d'_def)
qed

lemma spend_sums_other_window:
  "sa_monthly_spend (spend_sums cal now u k w d) = sa_monthly_spend (spend_sums cal now u k QNone d)"
  "sa_user_monthly_spend (spend_sums cal now u k w d) = sa_user_monthly_spend (spend_sums cal now u k QNone d)"
  "sa_recent_tokens (spend_sums cal now u k w d) = sa_recent_tokens (spend_sums cal now u k QNone d)"
  "sa_user_recent_tokens (spend_sums cal now u k w d) = sa_user_recent_tokens (spend_sums cal now u k QNone d)"
  by (simp_all add: spend_sums_def Let_def)

lemma spend_sums_reservations:
  "spend_sums cal now u k w (d\<lparr> reservations := rs \<rparr>) = spend_sums cal now u k w d"
proof -
  have "key_user (d\<lparr> reservations := rs \<rparr>) = key_user d"
    by (intro ext) (simp add: key_user_def)
  then show ?thesis
    by (simp add: spend_sums_def cong: window_query.case_cong option.case_cong)
qed

definition caps_hold :: "calendar \<Rightarrow> time \<Rightarrow> uuid \<Rightarrow> api_key \<Rightarrow> db \<Rightarrow> bool" where
  "caps_hold cal now u k d \<longleftrightarrow>
     (let agg = spend_sums cal now u (k_id k) QNone d; res = reserved_sums now u (k_id k) d in
      sa_monthly_spend agg + ra_cost res \<le> k_spend_cap k \<and>
      sa_user_monthly_spend agg + ra_user_cost res \<le> sibling_max k_spend_cap d k u \<and>
      sa_recent_tokens agg + ra_tokens res \<le> k_velocity_cap k \<and>
      sa_user_recent_tokens agg + ra_user_tokens res \<le> sibling_max k_velocity_cap d k u)"

lemma admission_caps_hold:
  assumes b: "begin_usage_session cal now fresh q d = (Inr (Allowed s), d')"
    and w: "rows_wf d" and lane: "aq_lane q = Reserved"
  shows "\<exists>k \<in> set (api_keys d). key_usable now q k \<and> caps_hold cal now (aq_user q) k d' \<and>
    (\<exists>x. users d' (aq_user q) = Some x \<and> u_frozen_at x = None \<and>
       (aq_require_credits q \<longrightarrow> user_encumbrance now d' (aq_user q) \<le> u_balance x))"
  using b
proof (rule admission_allowed)
  fix k window x
  assume k: "List.find (key_usable now q) (api_keys d) = Some k"
    and x: "users d (aq_user q) = Some x" "u_frozen_at x = None"
    and g: "admission_gates cal now fresh q k window (prepared now q d) = (Inr (Allowed s, d'), True)"
  let ?u = "aq_user q"
  define p where "p = prepared now q d"
  define sz where "sz = chosen_size now q p"
  define cost where "cost = charged_cost cal now q k window p sz"
  define r where "r = new_reservation now fresh q (rs_total_tokens sz) cost"
  note gates = gates_allowed [OF g [folded p_def], folded sz_def, folded cost_def]
  have id: "k_id k = aq_key q" "k \<in> set (api_keys d)" "key_usable now q k"
    using find_SomeD [OF k] by (auto simp: key_usable_def)
  have d': "d' = p\<lparr> reservations := reservations p @ [r] \<rparr>"
    using gates(12) lane by (simp add: r_def)
  have r: "of_user p ?u r" "encumbers now r" "r_key r = aq_key q" "r_cost r = cost" "r_tokens r = rs_total_tokens sz"
    using usable_key_user [OF _ k] w
    by (simp_all add: p_def db_simps rows_wf_def of_user_def r_def new_reservation_def encumbers_def RESERVATION_TTL_def)
  have s: "sibling_max col d' k ?u = sibling_max col p k ?u" for col :: "api_key \<Rightarrow> 'v::linorder"
    by (simp add: sibling_max_def d')
  note res = reserved_sums_snoc [OF r(1-3), folded d']
  have "caps_hold cal now ?u k d'"
    using spend_within_capD [OF gates(2)] spend_within_capD [OF gates(3)]
      velocity_within_capD [OF gates(4)] velocity_within_capD [OF gates(5)]
    unfolding caps_hold_def Let_def id(1) res s spend_sums_other_window [of cal now ?u "aq_key q" "window_query _ _"]
    by (simp add: d' spend_sums_reservations r add.assoc)
  moreover have "aq_require_credits q \<Longrightarrow> user_encumbrance now d' ?u \<le> u_balance x"
    using gates(6) x r unfolding d' encumbrance_snoc by (simp add: p_def db_simps)
  ultimately show ?thesis
    using id x by (intro bexI [of _ k]) (auto simp: d' p_def db_simps)
qed

end
