(* ===== verification/Settlement.thy ===== *)
theory Settlement
  imports Admission
begin

text \<open>
  Settlement of \<^verbatim>\<open>router/src/db.rs\<close>: the durable intent, the settle transaction and its retry
  loop, the failure counter and the quarantine, the recovery sweep, operator collection and
  operator release.  Every database call is a function of the state; what the environment can do
  to a call (fail before it, lose the answer of a commit) is an argument of the retry loop.
\<close>

section \<open>Constants and error classes\<close>

definition SETTLEMENT_ATTEMPTS :: nat where
  "SETTLEMENT_ATTEMPTS = 3"

definition SETTLEMENT_RECOVERY_GRACE :: time where
  "SETTLEMENT_RECOVERY_GRACE = 60"

definition MAX_SETTLE_ATTEMPTS :: int where
  "MAX_SETTLE_ATTEMPTS = 8"

definition transient_codes :: "string list" where
  "transient_codes = [''40001'', ''40P01'', ''55P03'', ''57014'', ''57P01'', ''57P02'', ''57P03'', ''53300'', ''53200'']"

fun is_transient :: "sql_error \<Rightarrow> bool" where
  "is_transient PoolTimedOut = True"
| "is_transient PoolClosed = True"
| "is_transient (Io m) = True"
| "is_transient (Database code) = (code \<in> set transient_codes \<or> take 2 code = ''08'')"
| "is_transient (Protocol m) = False"
| "is_transient RowNotFound = False"

fun is_unique_violation :: "sql_error \<Rightarrow> bool" where
  "is_unique_violation (Database code) = (code = ''23505'')"
| "is_unique_violation _ = False"

definition checked_token_count :: "nat \<Rightarrow> string \<Rightarrow> (sql_error, int) result" where
  "checked_token_count value field =
     (if int value \<le> i32_max then Inr (int value)
      else Inl (Protocol (field @ '' exceeds the database integer range'')))"

section \<open>Dispatch and intent\<close>

text \<open>The marker fires once, for a session that has a reservation.\<close>

definition dispatch_update :: "time \<Rightarrow> uuid \<Rightarrow> uuid \<Rightarrow> db \<Rightarrow> db" where
  "dispatch_update now rid kid d =
     d\<lparr> reservations := update_where (\<lambda>r. r_id r = rid \<and> r_key r = kid \<and> r_dispatched_at r = None)
          (\<lambda>r. r\<lparr> r_dispatched_at := Some now \<rparr>) (reservations d) \<rparr>"

definition fire :: "time \<Rightarrow> usage_session \<Rightarrow> bool \<times> db \<Rightarrow> bool \<times> db" where
  "fire now s st =
     (case us_reservation s of
        None \<Rightarrow> st
      | Some _ \<Rightarrow> if fst st then st else (True, dispatch_update now (us_request_id s) (us_api_key_id s) (snd st)))"

definition persist_intent :: "time \<Rightarrow> usage_session \<Rightarrow> settlement_intent \<Rightarrow> db \<Rightarrow> db" where
  "persist_intent now s i d =
     d\<lparr> reservations := update_where (\<lambda>r. r_id r = us_request_id s \<and> r_key r = us_api_key_id s)
          (\<lambda>r. r\<lparr> r_intent := Some (Readable i), r_intent_at := Some now \<rparr>) (reservations d) \<rparr>"

section \<open>The settle transaction\<close>

datatype settle_outcome = Settled | AlreadySettled | Forgiven

text \<open>What the customer owes for the request, and the catalog value it accrues.\<close>

definition month_byok_consumed :: "calendar \<Rightarrow> time \<Rightarrow> uuid \<Rightarrow> db \<Rightarrow> money" where
  "month_byok_consumed cal now u d =
     rollup_sum (\<lambda>row. key_user d (fst row) = Some u \<and> utc_month cal now \<le> snd row) (month_byok (rollup d))"

definition settled_cost ::
  "decimal_ops \<Rightarrow> calendar \<Rightarrow> time \<Rightarrow> uuid \<Rightarrow> usage_record \<Rightarrow> db \<Rightarrow> (sql_error, money \<times> money option) result" where
  "settled_cost D cal now u r d =
     (case byok_catalog_usd r of
        None \<Rightarrow> Inr (cost_usd r, None)
      | Some catalog \<Rightarrow>
          let billable = billable_above_allowance catalog (month_byok_consumed cal now u d) in
          (case apply_fee D billable fee_rate of
             None \<Rightarrow> Inl (Protocol ''BYOK fee overflowed while pricing against the monthly allowance'')
           | Some fee \<Rightarrow> Inr (min fee (cost_usd r), Some catalog)))"

definition attempt_counts :: "attempt_tokens \<Rightarrow> (sql_error, int option \<times> int option \<times> int option \<times> int option) result" where
  "attempt_counts t =
     bind_result (transpose_option (\<lambda>n. checked_token_count n ''attempt_input_tokens'') (at_input t)) (\<lambda>input.
     bind_result (transpose_option (\<lambda>n. checked_token_count n ''attempt_cached_input_tokens'') (at_cached_input t)) (\<lambda>cached0.
     let cached = map_option (\<lambda>c. min c (unwrap_or input c)) cached0 in
     bind_result (transpose_option (\<lambda>n. checked_token_count n ''attempt_cache_write_input_tokens'') (at_cache_write_input t)) (\<lambda>written0.
     let written = map_option (\<lambda>w. min w (unwrap_or input w - unwrap_or cached 0)) written0 in
     bind_result (transpose_option (\<lambda>n. checked_token_count n ''attempt_output_tokens'') (at_output t)) (\<lambda>output.
       Inr (input, cached, output, written)))))"

fun insert_attempts :: "uuid \<Rightarrow> uuid \<Rightarrow> uuid \<Rightarrow> attempt_record list \<Rightarrow> db \<Rightarrow> (sql_error, db) result" where
  "insert_attempts rid kid u [] d = Inr d"
| "insert_attempts rid kid u (a # as) d =
     bind_result (attempt_counts (a_tokens a)) (\<lambda>(input, cached, output, written).
     bind_result (insert_request_attempt
         \<lparr> q_request = rid, q_key = kid, q_user = u, q_attempt = a, q_input = input, q_cached = cached,
           q_output = output, q_cache_write = written \<rparr> d) (\<lambda>d'.
       insert_attempts rid kid u as d'))"

definition settled_event ::
  "decimal_ops \<Rightarrow> time \<Rightarrow> uuid \<Rightarrow> uuid \<Rightarrow> settlement_intent \<Rightarrow> usage_record \<Rightarrow> money
    \<Rightarrow> int \<times> int \<times> int \<times> int \<Rightarrow> money \<times> money option \<Rightarrow> usage_event" where
  "settled_event D now rid kid i r snapshot counts charge =
     (case counts of (input, cached, written, output) \<Rightarrow>
      \<lparr> e_request = rid, e_key = kid, e_ts = now, e_tier = tier r, e_provider = upstream_provider r,
        e_model = upstream_model r, e_input = input, e_cached = min cached input,
        e_cache_write = min written (input - min cached input), e_output = output,
        e_cost = fst charge, e_latency_ms = latency_ms r, e_status = status r,
        e_telemetry = (telemetry r)\<lparr> finish_reason_source :=
           (if finish_reason (telemetry r) = None then None else finish_reason_source (telemetry r)) \<rparr>,
        e_cost_basis = cost_basis D r, e_attempts_cogs = cogs_summarize (attempts r),
        e_attempt_count = (if attempts r = [] then None else Some (min (int (length (attempts r))) (2 ^ 15 - 1))),
        e_task_signature = Some (si_task_signature i), e_task_signature_scheme = si_task_signature_scheme i,
        e_tool_names_sha256 = si_tool_names_sha256 i,
        e_reserved_output = Some (si_reserved_output_tokens i), e_reserved_cost = Some snapshot,
        e_estimator_basis = Some (basis_as_str (basis_from_keyword (si_estimator_basis i))),
        e_byok_catalog = snd charge \<rparr>)"

definition discard_settled_reservation :: "uuid \<Rightarrow> uuid \<Rightarrow> db \<Rightarrow> db" where
  "discard_settled_reservation rid kid d =
     d\<lparr> reservations := List.filter (\<lambda>r. \<not> (r_id r = rid \<and> r_key r = kid \<and>
          list_ex (\<lambda>e. e_request e = rid) (events d))) (reservations d) \<rparr>"

text \<open>The debit: never more than the reservation held, posted to the ledger under the request.\<close>

definition debit_user :: "time \<Rightarrow> uuid \<Rightarrow> uuid \<Rightarrow> money \<Rightarrow> db \<Rightarrow> (sql_error, db) result" where
  "debit_user now rid u debit d =
     (if debit \<le> 0 then Inr d
      else
        bind_result (update_balance False u (- debit) d) (\<lambda>(b, d').
          case b of
            None \<Rightarrow> Inl (Protocol ''usage settlement found no owning user'')
          | Some balance_after \<Rightarrow>
              insert_ledger \<lparr> l_user = u, l_created_at = now, l_type = UsageEntry, l_amount = - debit,
                l_balance_after = balance_after, l_session = None, l_payment_intent = None,
                l_request = Some rid, l_note = None \<rparr> d'))"

definition owed_row :: "uuid \<Rightarrow> uuid \<Rightarrow> reservation \<Rightarrow> bool" where
  "owed_row rid kid r \<longleftrightarrow> r_id r = rid \<and> r_key r = kid \<and> r_released_at r = None"

text \<open>The writes of the transaction once the reservation has been consumed.\<close>

datatype settle_body_error = EventError sql_error | OtherError sql_error

definition settle_body ::
  "decimal_ops \<Rightarrow> calendar \<Rightarrow> time \<Rightarrow> uuid \<Rightarrow> uuid \<Rightarrow> settlement_intent \<Rightarrow> usage_record \<Rightarrow> money
    \<Rightarrow> int \<times> int \<times> int \<times> int \<Rightarrow> money \<Rightarrow> db \<Rightarrow> (settle_body_error, db) result" where
  "settle_body D cal now rid kid i r snapshot counts reserved d =
     (case settled_cost D cal now (si_user_id i) r d of
        Inl e \<Rightarrow> Inl (OtherError e)
      | Inr charge \<Rightarrow>
          (case insert_event cal (settled_event D now rid kid i r snapshot counts charge) d of
             Inl e \<Rightarrow> Inl (EventError e)
           | Inr d1 \<Rightarrow>
               (case bind_result (insert_attempts rid kid (si_user_id i) (attempts r) d1) (\<lambda>d2.
                       if si_require_credits i then debit_user now rid (si_user_id i) (min (fst charge) reserved) d2
                       else Inr d2) of
                  Inl e \<Rightarrow> Inl (OtherError e)
                | Inr d3 \<Rightarrow> Inr d3)))"

definition intent_counts :: "usage_record \<Rightarrow> (sql_error, int \<times> int \<times> int \<times> int) result" where
  "intent_counts r =
     bind_result (checked_token_count (prompt_tokens (usage r)) ''prompt_tokens'') (\<lambda>input.
     bind_result (checked_token_count (cached_input_tokens (usage r)) ''cached_input_tokens'') (\<lambda>cached.
     bind_result (checked_token_count (cache_write_tokens (usage r)) ''cache_write_input_tokens'') (\<lambda>written.
     bind_result (checked_token_count (completion_tokens (usage r)) ''completion_tokens'') (\<lambda>output.
       Inr (input, cached, written, output)))))"

definition settle_once ::
  "decimal_ops \<Rightarrow> decimal_text \<Rightarrow> calendar \<Rightarrow> time \<Rightarrow> uuid \<Rightarrow> uuid \<Rightarrow> settlement_intent \<Rightarrow> db
    \<Rightarrow> (sql_error, settle_outcome) result \<times> db" where
  "settle_once D T cal now rid kid i d =
     (case bind_result (to_record T i) (\<lambda>r. bind_result (reserved_cost_snapshot T i) (\<lambda>snapshot.
             bind_result (intent_counts r) (\<lambda>counts. Inr (r, snapshot, counts)))) of
        Inl e \<Rightarrow> (Inl e, d)
      | Inr (r, snapshot, counts) \<Rightarrow>
          (case List.find (owed_row rid kid) (reservations d) of
             None \<Rightarrow>
               if list_ex (\<lambda>x. r_id x = rid \<and> r_released_at x \<noteq> None) (reservations d) then (Inr Forgiven, d)
               else if list_ex (\<lambda>e. e_request e = rid) (events d) then (Inr AlreadySettled, d)
               else (Inl (Protocol ''usage reservation is missing and no settled row exists for it''), d)
           | Some row \<Rightarrow>
               let d0 = d\<lparr> reservations := List.filter (\<lambda>x. \<not> owed_row rid kid x) (reservations d) \<rparr> in
               (case settle_body D cal now rid kid i r snapshot counts (r_cost row) d0 of
                  Inr d' \<Rightarrow> (Inr Settled, d')
                | Inl (EventError e) \<Rightarrow>
                    if is_unique_violation e then (Inr AlreadySettled, discard_settled_reservation rid kid d)
                    else (Inl e, d)
                | Inl (OtherError e) \<Rightarrow> (Inl e, d))))"

section \<open>Failure, quarantine and retry\<close>

text \<open>The two CHECK constraints of a reservation that this update can violate.\<close>

definition reservation_checks :: "reservation \<Rightarrow> bool" where
  "reservation_checks r \<longleftrightarrow>
     (r_quarantined_at r = None \<or> r_intent r \<noteq> None \<or> r_dispatched_at r \<noteq> None) \<and>
     (r_released_at r = None \<or> r_quarantined_at r \<noteq> None)"

definition failed_row :: "decimal_text \<Rightarrow> time \<Rightarrow> sql_error \<Rightarrow> reservation \<Rightarrow> reservation" where
  "failed_row T now e r =
     r\<lparr> r_settle_attempts := r_settle_attempts r + 1, r_last_error := Some (take 500 (d_error_text T e)),
        r_quarantined_at :=
          (if r_intent r = None then None
           else if r_quarantined_at r \<noteq> None then r_quarantined_at r
           else if MAX_SETTLE_ATTEMPTS \<le> r_settle_attempts r + 1 then Some now
           else None) \<rparr>"

definition record_settle_failure :: "decimal_text \<Rightarrow> time \<Rightarrow> uuid \<Rightarrow> sql_error \<Rightarrow> db \<Rightarrow> (sql_error, bool option) result \<times> db" where
  "record_settle_failure T now rid e d =
     (case List.find (\<lambda>r. r_id r = rid) (reservations d) of
        None \<Rightarrow> (Inr None, d)
      | Some r \<Rightarrow>
          if \<not> reservation_checks (failed_row T now e r) then (Inl CHECK_VIOLATION, d)
          else (Inr (Some (r_quarantined_at (failed_row T now e r) \<noteq> None)),
                d\<lparr> reservations := update_where (\<lambda>x. r_id x = rid) (failed_row T now e) (reservations d) \<rparr>))"

definition quarantine_settlement :: "time \<Rightarrow> uuid \<Rightarrow> string \<Rightarrow> db \<Rightarrow> db" where
  "quarantine_settlement now rid reason d =
     d\<lparr> reservations := update_where (\<lambda>r. r_id r = rid \<and> r_intent r \<noteq> None)
          (\<lambda>r. r\<lparr> r_quarantined_at := or_else (r_quarantined_at r) (Some now),
                  r_last_error := Some (take 500 reason) \<rparr>) (reservations d) \<rparr>"

text \<open>
  What the environment does to one attempt: the clock it reads, and either nothing, a failure
  before the transaction took effect, or an error reported for a commit that did happen.
\<close>

datatype fault = NoFault | FailBefore sql_error | CommitLost sql_error

definition faulty ::
  "fault \<Rightarrow> (db \<Rightarrow> (sql_error, 'a) result \<times> db) \<Rightarrow> db \<Rightarrow> (sql_error, 'a) result \<times> db" where
  "faulty f run d =
     (case f of
        NoFault \<Rightarrow> run d
      | FailBefore e \<Rightarrow> (Inl e, d)
      | CommitLost e \<Rightarrow> (case run d of (Inr _, d') \<Rightarrow> (Inl e, d') | (Inl e', d') \<Rightarrow> (Inl e', d')))"

record environment =
  env_now :: "nat \<Rightarrow> time"
  env_settle :: "nat \<Rightarrow> fault"
  env_failure :: "nat \<Rightarrow> fault"
  env_persist :: "nat \<Rightarrow> fault"

function settle_with_retry_from ::
  "nat \<Rightarrow> decimal_ops \<Rightarrow> decimal_text \<Rightarrow> calendar \<Rightarrow> environment \<Rightarrow> uuid \<Rightarrow> uuid \<Rightarrow> settlement_intent \<Rightarrow> db
    \<Rightarrow> (sql_error, unit) result \<times> db" where
  "settle_with_retry_from attempt D T cal env rid kid i d =
     (case faulty (env_settle env attempt) (settle_once D T cal (env_now env attempt) rid kid i) d of
        (Inr _, d') \<Rightarrow> (Inr (), d')
      | (Inl e, d') \<Rightarrow>
          let d'' = snd (faulty (env_failure env attempt) (record_settle_failure T (env_now env attempt) rid e) d') in
          if \<not> is_transient e \<or> SETTLEMENT_ATTEMPTS \<le> attempt then (Inl e, d'')
          else settle_with_retry_from (attempt + 1) D T cal env rid kid i d'')"
  by pat_completeness auto

termination
  by (relation "measure (\<lambda>(attempt, _). SETTLEMENT_ATTEMPTS - attempt)") auto

declare settle_with_retry_from.simps [simp del]

definition settle_with_retry ::
  "decimal_ops \<Rightarrow> decimal_text \<Rightarrow> calendar \<Rightarrow> environment \<Rightarrow> uuid \<Rightarrow> uuid \<Rightarrow> settlement_intent \<Rightarrow> db
    \<Rightarrow> (sql_error, unit) result \<times> db" where
  "settle_with_retry = settle_with_retry_from 1"

section \<open>Recording a finished request\<close>

text \<open>
  A free-lane request writes an observability row at cost zero and never touches money; a failure
  of that write is logged and dropped.
\<close>

definition free_event :: "decimal_ops \<Rightarrow> time \<Rightarrow> usage_session \<Rightarrow> usage_record \<Rightarrow> int \<times> int \<times> int \<times> int \<Rightarrow> usage_event" where
  "free_event D now s r counts =
     (case counts of (input, cached, written, output) \<Rightarrow>
      \<lparr> e_request = us_request_id s, e_key = us_api_key_id s, e_ts = now, e_tier = tier r,
        e_provider = upstream_provider r, e_model = upstream_model r, e_input = input,
        e_cached = min cached input, e_cache_write = min written (input - min cached input),
        e_output = output, e_cost = 0, e_latency_ms = latency_ms r, e_status = status r,
        e_telemetry = (telemetry r)\<lparr> finish_reason_source :=
           (if finish_reason (telemetry r) = None then None else finish_reason_source (telemetry r)) \<rparr>,
        e_cost_basis = cost_basis D r, e_attempts_cogs = \<lparr> cogs_total = None, cogs_complete = None \<rparr>,
        e_attempt_count = (let n = int (length (attempts r)) in if 1 \<le> n \<and> n \<le> 2 ^ 15 - 1 then Some n else None),
        e_task_signature = None, e_task_signature_scheme = None, e_tool_names_sha256 = None,
        e_reserved_output = None, e_reserved_cost = None, e_estimator_basis = None,
        e_byok_catalog = None \<rparr>)"

definition observe_free_usage :: "decimal_ops \<Rightarrow> calendar \<Rightarrow> time \<Rightarrow> usage_session \<Rightarrow> usage_record \<Rightarrow> db \<Rightarrow> db" where
  "observe_free_usage D cal now s r d =
     (case intent_counts r of
        Inl _ \<Rightarrow> d
      | Inr counts \<Rightarrow> (case insert_event cal (free_event D now s r counts) d of Inl _ \<Rightarrow> d | Inr d' \<Rightarrow> d'))"

function persist_with_retry_from :: "nat \<Rightarrow> environment \<Rightarrow> usage_session \<Rightarrow> settlement_intent \<Rightarrow> db \<Rightarrow> db" where
  "persist_with_retry_from attempt env s i d =
     (if SETTLEMENT_ATTEMPTS < attempt then d
      else
        (case faulty (env_persist env attempt) (\<lambda>x. (Inr (), persist_intent (env_now env attempt) s i x)) d of
           (Inr _, d') \<Rightarrow> d'
         | (Inl e, d') \<Rightarrow>
             if \<not> is_transient e \<or> attempt = SETTLEMENT_ATTEMPTS then d'
             else persist_with_retry_from (attempt + 1) env s i d'))"
  by pat_completeness auto

termination
  by (relation "measure (\<lambda>(attempt, _). Suc SETTLEMENT_ATTEMPTS - attempt)") auto

declare persist_with_retry_from.simps [simp del]

definition record_usage ::
  "decimal_ops \<Rightarrow> decimal_text \<Rightarrow> calendar \<Rightarrow> environment \<Rightarrow> usage_session \<Rightarrow> usage_record \<Rightarrow> db
    \<Rightarrow> (sql_error, unit) result \<times> db" where
  "record_usage D T cal env s r d =
     (case us_reservation s of
        None \<Rightarrow> (Inr (), observe_free_usage D cal (env_now env 0) s r d)
      | Some handle \<Rightarrow>
          let i = intent_new T s handle r in
          settle_with_retry D T cal env (us_request_id s) (us_api_key_id s) i
            (persist_with_retry_from 1 env s i d))"

section \<open>Recovery and operator collection\<close>

record settlement_recovery =
  sr_settled :: nat
  sr_already_settled :: nat
  sr_failed :: nat
  sr_quarantined :: nat
  sr_forgiven :: nat

definition no_recovery :: settlement_recovery where
  "no_recovery = \<lparr> sr_settled = 0, sr_already_settled = 0, sr_failed = 0, sr_quarantined = 0, sr_forgiven = 0 \<rparr>"

definition recover_quarantined_settlement ::
  "decimal_ops \<Rightarrow> decimal_text \<Rightarrow> calendar \<Rightarrow> time \<Rightarrow> uuid \<Rightarrow> db \<Rightarrow> settlement_recovery \<times> db" where
  "recover_quarantined_settlement D T cal now rid d =
     (case List.find (\<lambda>r. r_id r = rid \<and> r_intent r \<noteq> None) (reservations d) of
        None \<Rightarrow> (no_recovery, d)
      | Some row \<Rightarrow>
          if r_released_at row \<noteq> None then (no_recovery\<lparr> sr_forgiven := 1 \<rparr>, d)
          else
            (case r_intent row of
               Some (Readable i) \<Rightarrow>
                 if si_version i \<noteq> SETTLEMENT_INTENT_VERSION then (no_recovery\<lparr> sr_failed := 1 \<rparr>, d)
                 else
                   (case settle_once D T cal now (r_id row) (r_key row) i d of
                      (Inr Settled, d') \<Rightarrow> (no_recovery\<lparr> sr_settled := 1 \<rparr>, d')
                    | (Inr AlreadySettled, d') \<Rightarrow> (no_recovery\<lparr> sr_already_settled := 1 \<rparr>, d')
                    | (Inr Forgiven, d') \<Rightarrow> (no_recovery\<lparr> sr_forgiven := 1 \<rparr>, d')
                    | (Inl e, d') \<Rightarrow> (no_recovery\<lparr> sr_failed := 1 \<rparr>, d'))
             | _ \<Rightarrow> (no_recovery\<lparr> sr_failed := 1 \<rparr>, d)))"

definition owed_rows :: "time \<Rightarrow> int \<Rightarrow> db \<Rightarrow> reservation list" where
  "owed_rows now limit d =
     take (nat (max limit 0))
       (sort_key (\<lambda>r. unwrap_or (r_intent_at r) 0)
         (List.filter (\<lambda>r. r_intent r \<noteq> None \<and> r_quarantined_at r = None \<and>
            (case r_intent_at r of None \<Rightarrow> False | Some t \<Rightarrow> t \<le> now - SETTLEMENT_RECOVERY_GRACE)) (reservations d)))"

definition recover_row ::
  "decimal_ops \<Rightarrow> decimal_text \<Rightarrow> calendar \<Rightarrow> time \<Rightarrow> reservation \<Rightarrow> settlement_recovery \<times> db
    \<Rightarrow> settlement_recovery \<times> db" where
  "recover_row D T cal now row st =
     (case st of (summary, d) \<Rightarrow>
       (case r_intent row of
          Some (Readable i) \<Rightarrow>
            if si_version i \<noteq> SETTLEMENT_INTENT_VERSION
            then (summary\<lparr> sr_quarantined := sr_quarantined summary + 1 \<rparr>,
                  quarantine_settlement now (r_id row) ''unsupported settlement payload version'' d)
            else
              (case settle_once D T cal now (r_id row) (r_key row) i d of
                 (Inr Settled, d') \<Rightarrow> (summary\<lparr> sr_settled := sr_settled summary + 1 \<rparr>, d')
               | (Inr AlreadySettled, d') \<Rightarrow> (summary\<lparr> sr_already_settled := sr_already_settled summary + 1 \<rparr>, d')
               | (Inr Forgiven, d') \<Rightarrow> (summary\<lparr> sr_forgiven := sr_forgiven summary + 1 \<rparr>, d')
               | (Inl e, d') \<Rightarrow>
                   (case record_settle_failure T now (r_id row) e d' of
                      (Inr (Some True), d'') \<Rightarrow> (summary\<lparr> sr_quarantined := sr_quarantined summary + 1 \<rparr>, d'')
                    | (_, d'') \<Rightarrow> (summary\<lparr> sr_failed := sr_failed summary + 1 \<rparr>, d'')))
        | _ \<Rightarrow> (summary\<lparr> sr_quarantined := sr_quarantined summary + 1 \<rparr>,
                quarantine_settlement now (r_id row) ''settlement payload is unreadable'' d)))"

definition recover_owed_settlements ::
  "decimal_ops \<Rightarrow> decimal_text \<Rightarrow> calendar \<Rightarrow> time \<Rightarrow> int \<Rightarrow> db \<Rightarrow> settlement_recovery \<times> db" where
  "recover_owed_settlements D T cal now limit d =
     fold (recover_row D T cal now) (owed_rows now limit d) (no_recovery, d)"

record quarantined_settlement =
  qs_request :: uuid
  qs_key :: uuid
  qs_quarantined_at :: time
  qs_attempts :: int
  qs_reserved :: money
  qs_owed :: "money option"
  qs_error :: "string option"

fun payload_cost :: "payload \<Rightarrow> money option" where
  "payload_cost (Readable i) = plain_numeric (si_cost_usd i)"
| "payload_cost (Unreadable None) = None"
| "payload_cost (Unreadable (Some t)) = plain_numeric t"

definition quarantined_settlements :: "int \<Rightarrow> db \<Rightarrow> quarantined_settlement list" where
  "quarantined_settlements limit d =
     List.map (\<lambda>r. \<lparr> qs_request = r_id r, qs_key = r_key r,
            qs_quarantined_at = unwrap_or (r_quarantined_at r) 0, qs_attempts = r_settle_attempts r,
            qs_reserved = r_cost r, qs_owed = Option.bind (r_intent r) payload_cost, qs_error = r_last_error r \<rparr>)
       (take (nat (max limit 0))
         (sort_key (\<lambda>r. unwrap_or (r_quarantined_at r) 0)
           (List.filter (\<lambda>r. r_quarantined_at r \<noteq> None \<and> r_released_at r = None) (reservations d))))"

section \<open>Operator release\<close>

datatype release_refusal = NoSuchReservation | StillLive | NotQuarantined | StillOwes "money option"

datatype reservation_release =
    Released time bool "money option"
  | AlreadyReleased time "string option"
  | Refused release_refusal

definition release_quarantined_reservation ::
  "time \<Rightarrow> uuid \<Rightarrow> string \<Rightarrow> bool \<Rightarrow> db \<Rightarrow> (sql_error, reservation_release) result \<times> db" where
  "release_quarantined_reservation now rid note0 forgive d =
     (let note = trim note0 in
      if note = [] then (Inl (Protocol ''a reservation release must state its reason''), d)
      else
        (case List.find (\<lambda>r. r_id r = rid) (reservations d) of
           None \<Rightarrow> (Inr (Refused NoSuchReservation), d)
         | Some r \<Rightarrow>
             let owed = (r_intent r \<noteq> None); amount = Option.bind (r_intent r) payload_cost in
             if key_user d (r_key r) = None then (Inr (Refused NoSuchReservation), d)
             else
               (case r_released_at r of
                  Some t \<Rightarrow> (Inr (AlreadyReleased t (r_released_note r)), d)
                | None \<Rightarrow>
                    if r_quarantined_at r = None
                    then (Inr (Refused (if now < r_expires_at r then StillLive else NotQuarantined)), d)
                    else if owed \<and> \<not> forgive then (Inr (Refused (StillOwes amount)), d)
                    else (Inr (Released now owed (if owed then amount else None)),
                          d\<lparr> reservations := update_where (\<lambda>x. r_id x = rid \<and> r_released_at x = None)
                               (\<lambda>x. x\<lparr> r_released_at := Some now, r_released_note := Some note \<rparr>) (reservations d) \<rparr>))))"

section \<open>Lemmas: the writes of a settle\<close>

lemma bind_result_Inr: "bind_result m f = Inr y \<longleftrightarrow> (\<exists>x. m = Inr x \<and> f x = Inr y)"
  by (cases m) (auto simp: bind_result_def)

lemma bind_result_Inl: "bind_result m f = Inl e \<longleftrightarrow> m = Inl e \<or> (\<exists>x. m = Inr x \<and> f x = Inl e)"
  by (cases m) (auto simp: bind_result_def)

lemma insert_event_Inr:
  "insert_event cal e d = Inr d' \<longleftrightarrow> usage_event_checks e \<and> (\<forall>x \<in> set (events d). e_request x \<noteq> e_request e) \<and>
     d' = d\<lparr> events := events d @ [e], rollup := accrue cal e (rollup d) \<rparr>"
  by (auto simp: insert_event_def list_ex_iff)

lemma insert_attempts_Inr:
  "insert_attempts rid kid u as d = Inr d' \<Longrightarrow> \<exists>qs. d' = d\<lparr> request_attempts := request_attempts d @ qs \<rparr>"
proof (induction as arbitrary: d)
  case Nil
  then show ?case
    by (auto intro: exI [of _ "[]"])
next
  case (Cons a as)
  then obtain counts where c: "attempt_counts (a_tokens a) = Inr counts"
    by (auto simp: bind_result_Inr)
  obtain d1 where d1: "insert_request_attempt
         \<lparr> q_request = rid, q_key = kid, q_user = u, q_attempt = a, q_input = fst counts,
           q_cached = fst (snd counts), q_output = fst (snd (snd counts)),
           q_cache_write = snd (snd (snd counts)) \<rparr> d = Inr d1" "insert_attempts rid kid u as d1 = Inr d'"
    using Cons.prems c by (cases counts) (auto simp: bind_result_Inr)
  obtain q where "d1 = d\<lparr> request_attempts := request_attempts d @ [q] \<rparr>"
    using d1(1) by (auto simp: insert_request_attempt_def split: if_splits)
  moreover obtain qs where "d' = d1\<lparr> request_attempts := request_attempts d1 @ qs \<rparr>"
    using Cons.IH [OF d1(2)] by blast
  ultimately show ?case
    by auto
qed

text \<open>A debit either moves nothing or is one posting of that amount under that request.\<close>

lemma debit_user_Inr:
  assumes "debit_user now rid u debit d = Inr d'"
  shows "(debit \<le> 0 \<and> d' = d) \<or>
    (0 < debit \<and> (\<exists>x x' l. users d u = Some x \<and> u_balance x' = u_balance x - debit \<and> 0 \<le> u_balance x' \<and>
       posts d d' u l \<and> l_type l = UsageEntry \<and> l_amount l = - debit \<and> l_request l = Some rid \<and> l_session l = None \<and>
       d' = d\<lparr> users := (users d)(u \<mapsto> x'), ledger := ledger d @ [l] \<rparr>))"
proof (cases "debit \<le> 0")
  case False
  then obtain b d1 where b: "update_balance False u (- debit) d = Inr (Some b, d1)"
    and l: "insert_ledger \<lparr> l_user = u, l_created_at = now, l_type = UsageEntry, l_amount = - debit,
                l_balance_after = b, l_session = None, l_payment_intent = None,
                l_request = Some rid, l_note = None \<rparr> d1 = Inr d'"
    using assms by (auto simp: debit_user_def bind_result_Inr split: option.splits)
  from b obtain x where x: "users d u = Some x" "b = u_balance x + - debit"
      "d1 = d\<lparr> users := (users d)(u \<mapsto> x\<lparr> u_balance := b \<rparr>) \<rparr>" "False \<or> 0 \<le> b \<or> u_balance x \<le> b"
    by (rule update_balance_Inr)
  note i = insert_ledger_Inr [OF l]
  have "0 \<le> b"
    using x(2,4) False by auto
  then show ?thesis
    using False x i
    by (intro disjI2 conjI exI [of _ x] exI [of _ "x\<lparr> u_balance := b \<rparr>"]
        exI [of _ "\<lparr> l_user = u, l_created_at = now, l_type = UsageEntry, l_amount = - debit,
                l_balance_after = b, l_session = None, l_payment_intent = None,
                l_request = Some rid, l_note = None \<rparr>"]) (auto simp: posts_def)
qed (use assms in \<open>simp add: debit_user_def\<close>)

lemma debit_user_total:
  assumes "users d u = Some x" "debit \<le> u_balance x"
    and "\<And>l. l \<in> set (ledger d) \<Longrightarrow> l_request l \<noteq> Some rid"
  shows "\<exists>d'. debit_user now rid u debit d = Inr d'"
  using assms
  by (auto simp: debit_user_def update_balance_def bind_result_def Let_def insert_ledger_def ledger_checks_def
      ledger_unique_def list_all_iff)

text \<open>Everything a committed settle has done.\<close>

lemma settle_body_Inr:
  assumes "settle_body D cal now rid kid i r snapshot counts reserved d = Inr d'"
  obtains charge ev d2 where
    "settled_cost D cal now (si_user_id i) r d = Inr charge"
    "ev = settled_event D now rid kid i r snapshot counts charge"
    "usage_event_checks ev" "\<forall>x \<in> set (events d). e_request x \<noteq> rid"
    "users d2 = users d" "ledger d2 = ledger d" "reservations d2 = reservations d" "api_keys d2 = api_keys d"
    "events d2 = events d @ [ev]" "rollup d2 = accrue cal ev (rollup d)"
    "checkout_intents d2 = checkout_intents d" "autopay_intents d2 = autopay_intents d" "reversals d2 = reversals d"
    "(if si_require_credits i then debit_user now rid (si_user_id i) (min (fst charge) reserved) d2 else Inr d2) = Inr d'"
proof -
  obtain charge where c: "settled_cost D cal now (si_user_id i) r d = Inr charge"
    using assms by (auto simp: settle_body_def split: sum.splits)
  define ev where "ev = settled_event D now rid kid i r snapshot counts charge"
  have er: "e_request ev = rid"
    by (auto simp: ev_def settled_event_def split: prod.splits)
  obtain d1 where d1: "insert_event cal ev d = Inr d1"
    using assms c by (auto simp: settle_body_def ev_def split: sum.splits)
  obtain d2 where d2: "insert_attempts rid kid (si_user_id i) (attempts r) d1 = Inr d2"
    "(if si_require_credits i then debit_user now rid (si_user_id i) (min (fst charge) reserved) d2 else Inr d2) = Inr d'"
    using assms c d1 by (auto simp: settle_body_def ev_def [symmetric] bind_result_Inr split: sum.splits)
  note e = d1 [unfolded insert_event_Inr er]
  obtain qs where "d2 = d1\<lparr> request_attempts := request_attempts d1 @ qs \<rparr>"
    using insert_attempts_Inr [OF d2(1)] by blast
  then show ?thesis
    using e d2(2) c by (intro that [of charge ev d2]) (simp_all add: ev_def)
qed

lemma settle_once_Settled:
  assumes "settle_once D T cal now rid kid i d = (Inr Settled, d')"
  obtains row r snapshot counts where
    "List.find (owed_row rid kid) (reservations d) = Some row" "to_record T i = Inr r"
    "reserved_cost_snapshot T i = Inr snapshot" "intent_counts r = Inr counts"
    "settle_body D cal now rid kid i r snapshot counts (r_cost row)
       (d\<lparr> reservations := List.filter (\<lambda>x. \<not> owed_row rid kid x) (reservations d) \<rparr>) = Inr d'"
  using assms unfolding settle_once_def
  by (auto simp: bind_result_Inr Let_def split: sum.splits option.splits if_splits settle_body_error.splits)

lemma settle_once_not_Settled:
  assumes "settle_once D T cal now rid kid i d = (out, d')" "out \<noteq> Inr Settled"
  shows "d' = d \<or> (out = Inr AlreadySettled \<and> d' = discard_settled_reservation rid kid d)"
  using assms unfolding settle_once_def
  by (auto simp: Let_def split: sum.splits option.splits if_splits settle_body_error.splits prod.splits)

lemma discard_frame [db_simps]:
  "users (discard_settled_reservation rid kid d) = users d" "ledger (discard_settled_reservation rid kid d) = ledger d"
  "events (discard_settled_reservation rid kid d) = events d" "api_keys (discard_settled_reservation rid kid d) = api_keys d"
  "rollup (discard_settled_reservation rid kid d) = rollup d"
  by (simp_all add: discard_settled_reservation_def)

text \<open>In one fact: what a settle call can have done to money, events and reservations.\<close>

definition debited :: "uuid \<Rightarrow> uuid \<Rightarrow> money \<Rightarrow> db \<Rightarrow> db \<Rightarrow> bool" where
  "debited rid u cap d d' \<longleftrightarrow>
     (users d' = users d \<and> ledger d' = ledger d) \<or>
     (\<exists>l. posts d d' u l \<and> l_type l = UsageEntry \<and> l_request l = Some rid \<and> l_session l = None \<and>
        - cap \<le> l_amount l \<and> l_amount l < 0)"

lemma settle_once_effect:
  assumes "settle_once D T cal now rid kid i d = (Inr Settled, d')"
  obtains row ev where
    "row \<in> set (reservations d)" "owed_row rid kid row"
    "reservations d' = List.filter (\<lambda>x. \<not> owed_row rid kid x) (reservations d)"
    "events d' = events d @ [ev]" "e_request ev = rid" "e_key ev = kid" "usage_event_checks ev"
    "\<forall>x \<in> set (events d). e_request x \<noteq> rid"
    "api_keys d' = api_keys d" "rollup d' = accrue cal ev (rollup d)"
    "debited rid (si_user_id i) (min (e_cost ev) (r_cost row)) d d'"
    "\<not> si_require_credits i \<Longrightarrow> users d' = users d"
    "\<And>v. v \<noteq> si_user_id i \<Longrightarrow> users d' v = users d v"
proof -
  obtain row r snapshot counts where s:
    "List.find (owed_row rid kid) (reservations d) = Some row" "to_record T i = Inr r"
    "settle_body D cal now rid kid i r snapshot counts (r_cost row)
       (d\<lparr> reservations := List.filter (\<lambda>x. \<not> owed_row rid kid x) (reservations d) \<rparr>) = Inr d'"
    by (rule settle_once_Settled [OF assms])
  obtain charge ev d2 where b:
    "ev = settled_event D now rid kid i r snapshot counts charge"
    "usage_event_checks ev" "\<forall>x \<in> set (events d). e_request x \<noteq> rid"
    "users d2 = users d" "ledger d2 = ledger d"
    "reservations d2 = List.filter (\<lambda>x. \<not> owed_row rid kid x) (reservations d)" "api_keys d2 = api_keys d"
    "events d2 = events d @ [ev]" "rollup d2 = accrue cal ev (rollup d)"
    "(if si_require_credits i then debit_user now rid (si_user_id i) (min (fst charge) (r_cost row)) d2 else Inr d2) = Inr d'"
    by (rule settle_body_Inr [OF s(3)]) (rule that, assumption, assumption, simp_all)
  have ev: "e_request ev = rid" "e_key ev = kid" "e_cost ev = fst charge"
    by (simp_all add: b(1) settled_event_def split: prod.splits)
  have cases: "d' = d2 \<or> (si_require_credits i \<and> 0 < min (fst charge) (r_cost row) \<and>
      (\<exists>x x' l. users d2 (si_user_id i) = Some x \<and> posts d2 d' (si_user_id i) l \<and> l_type l = UsageEntry \<and>
         l_amount l = - min (fst charge) (r_cost row) \<and> l_request l = Some rid \<and> l_session l = None \<and>
         d' = d2\<lparr> users := (users d2)(si_user_id i \<mapsto> x'), ledger := ledger d2 @ [l] \<rparr>))"
    using b(10) debit_user_Inr [of now rid "si_user_id i" "min (fst charge) (r_cost row)" d2 d']
    by (auto split: if_splits)
  have keep: "reservations d' = reservations d2" "events d' = events d2" "api_keys d' = api_keys d2" "rollup d' = rollup d2"
    using cases by auto
  have "debited rid (si_user_id i) (min (e_cost ev) (r_cost row)) d d'"
    using cases b(4,5) unfolding debited_def posts_def ev by fastforce
  moreover have "\<not> si_require_credits i \<Longrightarrow> users d' = users d"
    using cases b(4) by auto
  moreover have "v \<noteq> si_user_id i \<Longrightarrow> users d' v = users d v" for v
    using cases b(4) by auto
  ultimately show ?thesis
    using that [of row ev] find_SomeD [OF s(1)] b ev(1,2) keep by metis
qed

section \<open>Lemmas: a settle keeps the invariants\<close>

lemma debited_money_inv: "debited rid u c d d' \<Longrightarrow> money_inv d \<Longrightarrow> money_inv d'"
  unfolding debited_def by (auto intro: posts_money_inv money_inv_frame)

lemma debited_grows: "debited rid u c d d' \<Longrightarrow> ledger_grows d d'"
  unfolding debited_def by (auto simp: posts_def ledger_grows_def)

lemma settle_once_money:
  "money_inv d \<Longrightarrow> money_inv (snd (settle_once D T cal now rid kid i d))"
  "ledger_grows d (snd (settle_once D T cal now rid kid i d))"
proof -
  obtain out d' where s: "settle_once D T cal now rid kid i d = (out, d')"
    by fastforce
  have "(money_inv d \<longrightarrow> money_inv d') \<and> ledger_grows d d'"
  proof (cases "out = Inr Settled")
    case True
    then show ?thesis
      using settle_once_effect [OF s [unfolded True]] debited_money_inv debited_grows by metis
  next
    case False
    have "users d' = users d \<and> ledger d' = ledger d"
      using settle_once_not_Settled [OF s False] by (auto simp: db_simps)
    then show ?thesis
      by (auto intro: money_inv_frame simp: ledger_grows_def)
  qed
  then show "money_inv d \<Longrightarrow> money_inv (snd (settle_once D T cal now rid kid i d))"
    "ledger_grows d (snd (settle_once D T cal now rid kid i d))"
    by (simp_all add: s)
qed

interpretation settle_op: money_operation
  "\<lambda>(now, rid, kid, i) d. snd (settle_once D T cal now rid kid i d)" for D T cal
  by unfold_locales (auto simp: settle_once_money)

lemma owed_filter:
  assumes "rows_wf d" "row \<in> set (reservations d)" "owed_row rid kid row"
  shows "List.filter (\<lambda>x. \<not> owed_row rid kid x) (reservations d) = List.filter (\<lambda>x. r_id x \<noteq> r_id row) (reservations d)"
proof (rule filter_cong [OF refl])
  fix x
  assume "x \<in> set (reservations d)"
  then have "r_id x = r_id row \<Longrightarrow> x = row"
    using assms(1,2) distinct_key_unique [of r_id "reservations d" x row] by (simp add: rows_wf_def)
  then show "(\<not> owed_row rid kid x) = (r_id x \<noteq> r_id row)"
    using assms(3) by (auto simp: owed_row_def)
qed

lemma encumbrance_without_row:
  assumes "rows_wf d" "row \<in> set (reservations d)" "api_keys d' = api_keys d"
    and "reservations d' = List.filter (\<lambda>x. r_id x \<noteq> r_id row) (reservations d)"
  shows "user_encumbrance now d' u = user_encumbrance now d u - (if of_user d u row \<and> encumbers now row then r_cost row else 0)"
proof -
  have o: "of_user d' u = of_user d u"
    by (rule ext) (simp add: of_user_def key_user_cong [OF assms(3)])
  show ?thesis
    unfolding user_encumbrance_def o assms(4)
    using sum_where_remove [of r_id "reservations d" row "\<lambda>r. of_user d u r \<and> encumbers now r" r_cost] assms(1,2)
    by (simp add: rows_wf_def)
qed

lemma settle_once_rows_wf: "rows_wf d \<Longrightarrow> rows_wf (snd (settle_once D T cal now rid kid i d))"
proof -
  assume w: "rows_wf d"
  obtain out d' where s: "settle_once D T cal now rid kid i d = (out, d')"
    by fastforce
  have sub: "rows_wf e" if "api_keys e = api_keys d" "reservations e = List.filter P (reservations d)" for e P
    using w that by (auto simp: rows_wf_def distinct_map_filter_key)
  have "rows_wf d'"
  proof (cases "out = Inr Settled")
    case True
    then show ?thesis
      using settle_once_effect [OF s [unfolded True]] sub by metis
  next
    case False
    have "rows_wf (discard_settled_reservation rid kid d)"
      by (rule sub) (simp_all add: discard_settled_reservation_def)
    then show ?thesis
      using settle_once_not_Settled [OF s False] w by auto
  qed
  then show ?thesis
    by (simp add: s)
qed

lemma debited_balance:
  assumes "debited rid u c d d'" "users d' v = Some y" "0 \<le> c"
  obtains x where "users d v = Some x" "u_balance x - (if v = u then c else 0) \<le> u_balance y"
    "u_balance y \<le> u_balance x"
proof -
  have "\<exists>x. users d v = Some x \<and> u_balance x - (if v = u then c else 0) \<le> u_balance y \<and> u_balance y \<le> u_balance x"
    using assms unfolding debited_def posts_def by (auto split: if_splits)
  then show ?thesis
    using that by blast
qed

text \<open>What the reservation of a settle had stopped holding before it: the price of a late settle.\<close>

definition late_hold :: "time \<Rightarrow> uuid \<Rightarrow> uuid \<Rightarrow> db \<Rightarrow> uuid \<Rightarrow> money" where
  "late_hold now rid kid d u =
     sum_where (\<lambda>r. of_user d u r \<and> owed_row rid kid r \<and> \<not> encumbers now r) r_cost (reservations d)"

lemma late_hold_nonneg: "rows_wf d \<Longrightarrow> 0 \<le> late_hold now rid kid d u"
  unfolding late_hold_def by (intro sum_where_nonneg) (simp add: rows_wf_def)

lemma sum_where_member:
  fixes f :: "'a \<Rightarrow> money"
  shows "x \<in> set xs \<Longrightarrow> P x \<Longrightarrow> (\<And>y. y \<in> set xs \<Longrightarrow> 0 \<le> f y) \<Longrightarrow> f x \<le> sum_where P f xs"
proof (induction xs)
  case (Cons y ys)
  have "0 \<le> sum_where P f ys"
    using Cons.prems(3) by (intro sum_where_nonneg) simp
  moreover have "0 \<le> f y"
    using Cons.prems(3) by simp
  ultimately show ?case
    using Cons by (auto intro: add_increasing order_trans)
qed simp

lemma settle_once_secured:
  assumes s: "settle_once D T cal now rid kid i d = (Inr Settled, d')" and w: "rows_wf d" and v: "secured late now d u"
    and own: "key_user d kid = Some (si_user_id i)"
  shows "secured (late + late_hold now rid kid d u) now d' u"
  using s
proof (rule settle_once_effect)
  fix row ev
  assume row: "row \<in> set (reservations d)" "owed_row rid kid row"
    and res: "reservations d' = List.filter (\<lambda>x. \<not> owed_row rid kid x) (reservations d)"
    and keys: "api_keys d' = api_keys d" and ev: "usage_event_checks ev"
    and deb: "debited rid (si_user_id i) (min (e_cost ev) (r_cost row)) d d'"
  have c: "0 \<le> min (e_cost ev) (r_cost row)"
    using ev w row(1) by (auto simp: usage_event_checks_def rows_wf_def)
  have of: "of_user d u row \<longleftrightarrow> u = si_user_id i"
    using own row(2) by (auto simp: of_user_def owed_row_def)
  have e: "user_encumbrance now d' u = user_encumbrance now d u - (if of_user d u row \<and> encumbers now row then r_cost row else 0)"
    using encumbrance_without_row [OF w row(1) keys] res owed_filter [OF w row] by simp
  have "r_cost row \<le> late_hold now rid kid d u" if "of_user d u row" "\<not> encumbers now row"
    unfolding late_hold_def using that row w by (intro sum_where_member) (auto simp: rows_wf_def)
  then have h: "(if u = si_user_id i then r_cost row else 0) - (if of_user d u row \<and> encumbers now row then r_cost row else 0)
      \<le> late_hold now rid kid d u"
    using late_hold_nonneg [OF w, of now rid kid u] of by auto
  show ?thesis
    unfolding secured_def
  proof (intro allI impI)
    fix y
    assume y: "users d' u = Some y"
    obtain x where x: "users d u = Some x"
      "u_balance x - (if u = si_user_id i then min (e_cost ev) (r_cost row) else 0) \<le> u_balance y"
      using debited_balance [OF deb y c] by blast
    moreover have "user_encumbrance now d u \<le> u_balance x + late"
      using v x(1) by (simp add: secured_def)
    moreover have "(if u = si_user_id i then min (e_cost ev) (r_cost row) else 0) \<le> (if u = si_user_id i then r_cost row else 0)"
      by simp
    ultimately show "user_encumbrance now d' u \<le> u_balance y + (late + late_hold now rid kid d u)"
      using h unfolding e by linarith
  qed
qed

lemma settle_refused_secured:
  assumes s: "settle_once D T cal now rid kid i d = (out, d')" "out \<noteq> Inr Settled" and w: "rows_wf d" and v: "secured late now d u"
  shows "secured late now d' u"
proof -
  have "user_encumbrance now (discard_settled_reservation rid kid d) u \<le> user_encumbrance now d u"
  proof -
    have "of_user (discard_settled_reservation rid kid d) u = of_user d u"
      by (rule ext) (simp add: of_user_def key_user_def db_simps)
    then show ?thesis
      using w unfolding user_encumbrance_def discard_settled_reservation_def
      by (auto simp: sum_where_filter rows_wf_def intro!: sum_where_mono)
  qed
  then have "secured late now (discard_settled_reservation rid kid d) u"
    using v unfolding secured_def discard_frame by (meson order_trans)
  then show ?thesis
    using settle_once_not_Settled [OF s] v by auto
qed

text \<open>A debit within a secured encumbrance is never refused by the overdraft trigger.\<close>

definition usage_backed :: "db \<Rightarrow> bool" where
  "usage_backed d \<longleftrightarrow> (\<forall>l \<in> set (ledger d). \<forall>rid. l_request l = Some rid \<longrightarrow> (\<exists>e \<in> set (events d). e_request e = rid))"

lemma row_within_encumbrance:
  assumes "rows_wf d" "row \<in> set (reservations d)" "of_user d u row" "encumbers now row"
  shows "r_cost row \<le> user_encumbrance now d u"
proof -
  define d' where "d' = d\<lparr> reservations := List.filter (\<lambda>x. r_id x \<noteq> r_id row) (reservations d) \<rparr>"
  have "user_encumbrance now d' u = user_encumbrance now d u - r_cost row"
    using encumbrance_without_row [OF assms(1,2), of d' now u] assms(3,4) by (simp add: d'_def)
  moreover have "0 \<le> user_encumbrance now d' u"
    using assms(1) unfolding user_encumbrance_def d'_def by (intro sum_where_nonneg) (auto simp: rows_wf_def)
  ultimately show ?thesis
    by simp
qed

lemma settle_never_overdraws:
  assumes w: "rows_wf d" and v: "secured 0 now d (si_user_id i)" and b: "usage_backed d"
    and row: "List.find (owed_row rid kid) (reservations d) = Some row" and enc: "encumbers now row"
    and own: "key_user d kid = Some (si_user_id i)" and u: "users d (si_user_id i) = Some x"
    and pre: "to_record T i = Inr r" "reserved_cost_snapshot T i = Inr snapshot" "intent_counts r = Inr counts"
    and charge: "settled_cost D cal now (si_user_id i) r
       (d\<lparr> reservations := List.filter (\<lambda>y. \<not> owed_row rid kid y) (reservations d) \<rparr>) = Inr charge"
    and ev: "insert_event cal (settled_event D now rid kid i r snapshot counts charge)
       (d\<lparr> reservations := List.filter (\<lambda>y. \<not> owed_row rid kid y) (reservations d) \<rparr>) = Inr d1"
    and att: "insert_attempts rid kid (si_user_id i) (attempts r) d1 = Inr d2"
  shows "fst (settle_once D T cal now rid kid i d) = Inr Settled"
proof -
  have rin: "row \<in> set (reservations d)" "owed_row rid kid row"
    using find_SomeD [OF row] by simp_all
  have "r_cost row \<le> u_balance x"
    using row_within_encumbrance [OF w rin(1) _ enc, of "si_user_id i"] own rin(2) u v
    by (fastforce simp: of_user_def owed_row_def secured_def)
  moreover have er: "e_request (settled_event D now rid kid i r snapshot counts charge) = rid"
    by (simp add: settled_event_def split: prod.splits)
  note e = ev [unfolded insert_event_Inr er]
  obtain qs where d2: "d2 = d1\<lparr> request_attempts := request_attempts d1 @ qs \<rparr>"
    using insert_attempts_Inr [OF att] by blast
  have "\<And>l. l \<in> set (ledger d2) \<Longrightarrow> l_request l \<noteq> Some rid"
    using b e d2 by (auto simp: usage_backed_def)
  moreover have "users d2 (si_user_id i) = Some x"
    using u e d2 by simp
  ultimately have "\<exists>d3. debit_user now rid (si_user_id i) (min (fst charge) (r_cost row)) d2 = Inr d3"
    by (intro debit_user_total [of d2 "si_user_id i" x]) (simp_all add: min_le_iff_disj)
  then obtain d3 where "debit_user now rid (si_user_id i) (min (fst charge) (r_cost row)) d2 = Inr d3"
    by blast
  then show ?thesis
    by (simp add: settle_once_def pre row Let_def settle_body_def charge ev att bind_result_def)
qed

section \<open>Lemmas: retries charge at most once\<close>

text \<open>What identifies a reservation and prices it; the failure counter and the quarantine do not change it.\<close>

definition core :: "reservation \<Rightarrow> uuid \<times> uuid \<times> money \<times> time option" where
  "core r = (r_id r, r_key r, r_cost r, r_released_at r)"

definition has_event :: "uuid \<Rightarrow> db \<Rightarrow> bool" where
  "has_event rid d \<longleftrightarrow> (\<exists>e \<in> set (events d). e_request e = rid)"

definition settled_db :: "uuid \<Rightarrow> db \<Rightarrow> bool" where
  "settled_db rid d \<longleftrightarrow> has_event rid d \<and> rid \<notin> r_id ` set (reservations d)"

definition untouched :: "uuid \<Rightarrow> db \<Rightarrow> db \<Rightarrow> bool" where
  "untouched rid d d' \<longleftrightarrow> users d' = users d \<and> ledger d' = ledger d \<and> events d' = events d \<and> api_keys d' = api_keys d \<and>
     (List.map core (reservations d') = List.map core (reservations d) \<or> has_event rid d)"

definition charged_once :: "uuid \<Rightarrow> uuid \<Rightarrow> uuid \<Rightarrow> db \<Rightarrow> db \<Rightarrow> bool" where
  "charged_once rid kid u d d' \<longleftrightarrow> \<not> has_event rid d \<and> settled_db rid d' \<and>
     (\<exists>row \<in> set (reservations d). \<exists>ev. owed_row rid kid row \<and> events d' = events d @ [ev] \<and> e_request ev = rid \<and>
        debited rid u (min (e_cost ev) (r_cost row)) d d')"

lemma core_failed_row [simp]: "core (failed_row T now e r) = core r"
  by (simp add: core_def failed_row_def)

lemma failure_untouched: "untouched rid' d (snd (record_settle_failure T now rid e d))"
  by (auto simp: record_settle_failure_def untouched_def map_update_where split: option.splits)

lemma failure_stuck: "rid \<notin> r_id ` set (reservations d) \<Longrightarrow> snd (record_settle_failure T now rid e d) = d"
  by (auto simp: record_settle_failure_def dest!: find_SomeD split: option.splits)

lemma settle_stuck:
  assumes "settled_db rid d"
  shows "snd (settle_once D T cal now rid kid i d) = d" "fst (settle_once D T cal now rid kid i d) \<noteq> Inr Settled"
proof -
  have "List.find (owed_row rid kid) (reservations d) = None"
    using assms by (auto simp: settled_db_def find_None_iff owed_row_def)
  then show "snd (settle_once D T cal now rid kid i d) = d" "fst (settle_once D T cal now rid kid i d) \<noteq> Inr Settled"
    by (auto simp: settle_once_def split: sum.splits prod.splits)
qed

lemma untouched_refl [simp]: "untouched rid d d"
  by (simp add: untouched_def)

lemma untouched_trans: "untouched rid d e \<Longrightarrow> untouched rid e f \<Longrightarrow> untouched rid d f"
  by (auto simp: untouched_def has_event_def)

lemma untouched_charged:
  assumes "untouched rid d e" "charged_once rid kid u e f"
  shows "charged_once rid kid u d f"
proof -
  obtain row ev where row: "row \<in> set (reservations e)" "owed_row rid kid row" "events f = events e @ [ev]"
    "e_request ev = rid" "debited rid u (min (e_cost ev) (r_cost row)) e f" and n: "\<not> has_event rid e" "settled_db rid f"
    using assms(2) by (auto simp: charged_once_def)
  have same: "users e = users d" "ledger e = ledger d" "events e = events d"
    using assms(1) by (simp_all add: untouched_def)
  have "\<not> has_event rid d"
    using n(1) same(3) by (simp add: has_event_def)
  then have "core ` set (reservations e) = core ` set (reservations d)"
    using assms(1) by (metis untouched_def list.set_map)
  then obtain row' where row': "row' \<in> set (reservations d)" "core row' = core row"
    using row(1) by (metis (no_types, lifting) imageE image_eqI)
  moreover have "owed_row rid kid row'" "r_cost row' = r_cost row"
    using row(2) row'(2) by (auto simp: owed_row_def core_def)
  moreover have "debited rid u (min (e_cost ev) (r_cost row)) d f"
    using row(5) same by (simp add: debited_def posts_def)
  ultimately show ?thesis
    using row(3,4) same(3) \<open>\<not> has_event rid d\<close> n(2) by (fastforce simp: charged_once_def)
qed

lemma settle_once_once:
  assumes "rows_wf d"
  shows "untouched rid d (snd (settle_once D T cal now rid kid i d)) \<or>
    charged_once rid kid (si_user_id i) d (snd (settle_once D T cal now rid kid i d))"
    and "fst (settle_once D T cal now rid kid i d) = Inr Settled \<Longrightarrow>
      charged_once rid kid (si_user_id i) d (snd (settle_once D T cal now rid kid i d))"
proof -
  obtain out d' where s: "settle_once D T cal now rid kid i d = (out, d')"
    by fastforce
  have ch: "charged_once rid kid (si_user_id i) d d'" if "out = Inr Settled"
    using s [unfolded that]
  proof (rule settle_once_effect)
    fix row ev
    assume row: "row \<in> set (reservations d)" "owed_row rid kid row"
      and res: "reservations d' = List.filter (\<lambda>x. \<not> owed_row rid kid x) (reservations d)"
      and ev: "events d' = events d @ [ev]" "e_request ev = rid" "\<forall>x \<in> set (events d). e_request x \<noteq> rid"
      and deb: "debited rid (si_user_id i) (min (e_cost ev) (r_cost row)) d d'"
    have "settled_db rid d'"
      using owed_filter [OF assms row] row(2) ev by (auto simp: settled_db_def has_event_def res owed_row_def)
    then show ?thesis
      using row ev deb by (auto simp: charged_once_def has_event_def)
  qed
  have "untouched rid d d'" if "out \<noteq> Inr Settled"
  proof -
    have "list_ex (\<lambda>e. e_request e = rid) (events d) \<Longrightarrow> has_event rid d"
      by (simp add: has_event_def list_ex_iff)
    then have "untouched rid d (discard_settled_reservation rid kid d)"
      by (cases "list_ex (\<lambda>e. e_request e = rid) (events d)")
        (simp_all add: untouched_def db_simps, simp add: discard_settled_reservation_def)
    then show ?thesis
      using settle_once_not_Settled [OF s that] by auto
  qed
  then show "untouched rid d (snd (settle_once D T cal now rid kid i d)) \<or>
    charged_once rid kid (si_user_id i) d (snd (settle_once D T cal now rid kid i d))"
    "fst (settle_once D T cal now rid kid i d) = Inr Settled \<Longrightarrow>
      charged_once rid kid (si_user_id i) d (snd (settle_once D T cal now rid kid i d))"
    using ch by (auto simp: s)
qed

lemma failure_rows_wf: "rows_wf d \<Longrightarrow> rows_wf (snd (record_settle_failure T now rid e d))"
proof -
  assume w: "rows_wf d"
  have "r_id (failed_row T now e r) = r_id r" "r_cost (failed_row T now e r) = r_cost r" for r
    by (simp_all add: failed_row_def)
  then show ?thesis
    using w by (auto simp: record_settle_failure_def rows_wf_def map_update_where set_update_where split: option.splits)
qed

lemma faulty_state: "snd (faulty f run d) = d \<or> snd (faulty f run d) = snd (run d)"
  by (cases f) (auto simp: faulty_def split: sum.splits prod.splits)

lemma faulty_Inr: "faulty f run d = (Inr x, d') \<Longrightarrow> run d = (Inr x, d')"
  by (cases f) (auto simp: faulty_def split: sum.splits prod.splits)

lemma retry_stuck:
  "settled_db rid d \<Longrightarrow> snd (settle_with_retry_from a D T cal env rid kid i d) = d"
proof (induction a D T cal env rid kid i d rule: settle_with_retry_from.induct)
  case (1 a D T cal env rid kid i d)
  obtain out d1 where f: "faulty (env_settle env a) (settle_once D T cal (env_now env a) rid kid i) d = (out, d1)"
    by fastforce
  have d1: "d1 = d"
    using faulty_state [of "env_settle env a" "settle_once D T cal (env_now env a) rid kid i" d]
      settle_stuck(1) [OF "1.prems"] f by auto
  have fs: "snd (faulty (env_failure env a) (record_settle_failure T (env_now env a) rid e) d) = d" for e
    using faulty_state [of "env_failure env a" "record_settle_failure T (env_now env a) rid e" d]
      failure_stuck [of rid d] "1.prems" by (auto simp: settled_db_def)
  show ?case
    using "1.IH" [OF f [symmetric]] f "1.prems" fs unfolding d1
    by (subst settle_with_retry_from.simps) (auto simp: Let_def split: sum.splits)
qed

lemma retry_effect:
  "rows_wf d \<Longrightarrow> settle_with_retry_from a D T cal env rid kid i d = (out, d') \<Longrightarrow>
     untouched rid d d' \<or> charged_once rid kid (si_user_id i) d d'"
proof (induction a D T cal env rid kid i d arbitrary: out d' rule: settle_with_retry_from.induct)
  case (1 a D T cal env rid kid i d)
  obtain o1 d1 where f: "faulty (env_settle env a) (settle_once D T cal (env_now env a) rid kid i) d = (o1, d1)"
    by fastforce
  have e1: "untouched rid d d1 \<or> charged_once rid kid (si_user_id i) d d1" and w1: "rows_wf d1"
    using faulty_state [of "env_settle env a" "settle_once D T cal (env_now env a) rid kid i" d] f
      settle_once_once(1) [OF "1.prems"(1)] settle_once_rows_wf [OF "1.prems"(1)] "1.prems"(1)
    by (metis snd_conv untouched_refl)+
  show ?case
  proof (cases o1)
    case (Inr x)
    then show ?thesis
      using "1.prems"(2) f e1 by (subst (asm) settle_with_retry_from.simps) simp
  next
    case (Inl e)
    define d2 where "d2 = snd (faulty (env_failure env a) (record_settle_failure T (env_now env a) rid e) d1)"
    have d2: "d2 = d1 \<or> d2 = snd (record_settle_failure T (env_now env a) rid e d1)"
      unfolding d2_def by (rule faulty_state)
    have w2: "rows_wf d2" and u2: "untouched rid d1 d2"
      using d2 w1 failure_rows_wf failure_untouched by auto
    have "out = Inl e \<and> d' = d2 \<or>
        \<not> (\<not> is_transient e \<or> SETTLEMENT_ATTEMPTS \<le> a) \<and>
        settle_with_retry_from (a + 1) D T cal env rid kid i d2 = (out, d')"
      using "1.prems"(2) f Inl
      by (subst (asm) settle_with_retry_from.simps) (auto simp: Let_def d2_def split: if_splits)
    then consider "d' = d2" | "untouched rid d2 d' \<or> charged_once rid kid (si_user_id i) d2 d'"
        "snd (settle_with_retry_from (a + 1) D T cal env rid kid i d2) = d'"
      using "1.IH" [OF f [symmetric] Inl d2_def _ w2] by fastforce
    then show ?thesis
    proof cases
      case 1
      show ?thesis
      proof (cases "untouched rid d d1")
        case True
        then show ?thesis
          using untouched_trans [OF _ u2] 1 by blast
      next
        case False
        then have c: "charged_once rid kid (si_user_id i) d d1"
          using e1 by blast
        then have "d2 = d1"
          using d2 failure_stuck by (auto simp: charged_once_def settled_db_def)
        then show ?thesis
          using c 1 by simp
      qed
    next
      case 2
      show ?thesis
      proof (cases "untouched rid d d1")
        case True
        then have "untouched rid d d2"
          by (rule untouched_trans [OF _ u2])
        then show ?thesis
          using 2(1) untouched_trans untouched_charged by blast
      next
        case False
        then have c: "charged_once rid kid (si_user_id i) d d1"
          using e1 by blast
        then have st: "settled_db rid d1"
          by (simp add: charged_once_def)
        then have "d2 = d1"
          using d2 failure_stuck by (auto simp: settled_db_def)
        then have "d' = d1"
          using 2(2) retry_stuck [OF st] by metis
        then show ?thesis
          using c by simp
      qed
    qed
  qed
qed

text \<open>When the loop says the settle is done, it is: there is an event, or the debt was forgiven.\<close>

lemma body_unique_violation:
  assumes "settle_body D cal now rid kid i r snapshot counts reserved d = Inl (EventError e)" "is_unique_violation e"
  shows "has_event rid d"
proof -
  have er: "e_request (settled_event D now rid kid i r snapshot counts charge) = rid" for charge
    by (simp add: settled_event_def split: prod.splits)
  obtain charge where "insert_event cal (settled_event D now rid kid i r snapshot counts charge) d = Inl e"
    using assms(1) by (auto simp: settle_body_def split: sum.splits)
  then show ?thesis
    using assms(2) by (auto simp: insert_event_def er has_event_def list_ex_iff CHECK_VIOLATION_def split: if_splits)
qed

lemma settle_once_AlreadySettled:
  assumes "settle_once D T cal now rid kid i d = (Inr AlreadySettled, d')"
  shows "has_event rid d"
proof (cases "List.find (owed_row rid kid) (reservations d)")
  case None
  then show ?thesis
    using assms by (auto simp: settle_once_def has_event_def list_ex_iff split: sum.splits prod.splits if_splits)
next
  case (Some row)
  then obtain r snapshot counts e where
    b: "settle_body D cal now rid kid i r snapshot counts (r_cost row)
         (d\<lparr> reservations := List.filter (\<lambda>x. \<not> owed_row rid kid x) (reservations d) \<rparr>) = Inl (EventError e)"
      "is_unique_violation e"
    using assms by (auto simp: settle_once_def Let_def split: sum.splits prod.splits if_splits settle_body_error.splits)
  show ?thesis
    using body_unique_violation [OF b] by (simp add: has_event_def)
qed

lemma settle_once_done:
  assumes "rows_wf d" "settle_once D T cal now rid kid i d = (Inr out, d')"
  shows "has_event rid d' \<or> (\<exists>r \<in> set (reservations d'). r_id r = rid \<and> r_released_at r \<noteq> None)"
proof (cases out)
  case Settled
  then show ?thesis
    using settle_once_once(2) [OF assms(1), of D T cal now rid kid i] assms(2)
    by (auto simp: charged_once_def settled_db_def)
next
  case AlreadySettled
  then have "has_event rid d"
    using assms(2) settle_once_AlreadySettled by blast
  then show ?thesis
    using settle_once_not_Settled [OF assms(2)] AlreadySettled by (auto simp: has_event_def db_simps)
next
  case Forgiven
  then show ?thesis
    using assms(2) unfolding settle_once_def
    by (auto simp: list_ex_iff Let_def split: sum.splits option.splits if_splits settle_body_error.splits prod.splits)
qed

lemma retry_done:
  "rows_wf d \<Longrightarrow> settle_with_retry_from a D T cal env rid kid i d = (Inr (), d') \<Longrightarrow>
     has_event rid d' \<or> (\<exists>r \<in> set (reservations d'). r_id r = rid \<and> r_released_at r \<noteq> None)"
proof (induction a D T cal env rid kid i d arbitrary: d' rule: settle_with_retry_from.induct)
  case (1 a D T cal env rid kid i d)
  obtain o1 d1 where f: "faulty (env_settle env a) (settle_once D T cal (env_now env a) rid kid i) d = (o1, d1)"
    by fastforce
  show ?case
  proof (cases o1)
    case (Inr x)
    then have "d' = d1"
      using "1.prems"(2) f by (subst (asm) settle_with_retry_from.simps) simp
    then show ?thesis
      using settle_once_done [OF "1.prems"(1) faulty_Inr [OF f [unfolded Inr]]] by simp
  next
    case (Inl e)
    define d2 where "d2 = snd (faulty (env_failure env a) (record_settle_failure T (env_now env a) rid e) d1)"
    have w1: "rows_wf d1"
      using faulty_state [of "env_settle env a" "settle_once D T cal (env_now env a) rid kid i" d] f
        settle_once_rows_wf [OF "1.prems"(1)] "1.prems"(1) by (metis snd_conv)
    have w2: "rows_wf d2"
      using faulty_state [of "env_failure env a" "record_settle_failure T (env_now env a) rid e" d1] w1
        failure_rows_wf by (auto simp: d2_def)
    have "\<not> (\<not> is_transient e \<or> SETTLEMENT_ATTEMPTS \<le> a) \<and>
        settle_with_retry_from (a + 1) D T cal env rid kid i d2 = (Inr (), d')"
      using "1.prems"(2) f Inl
      by (subst (asm) settle_with_retry_from.simps) (auto simp: Let_def d2_def split: if_splits)
    then show ?thesis
      using "1.IH" [OF f [symmetric] Inl d2_def _ w2] by blast
  qed
qed

section \<open>Lemmas: the overdraft trigger never fires\<close>

lemma checked_count_error: "checked_token_count n f = Inl e \<Longrightarrow> e \<noteq> RAISE_EXCEPTION"
  by (auto simp: checked_token_count_def RAISE_EXCEPTION_def split: if_splits)

lemma transpose_error:
  "transpose_option f x = Inl e \<Longrightarrow> (\<And>y e. f y = Inl e \<Longrightarrow> e \<noteq> E) \<Longrightarrow> e \<noteq> E"
  by (cases x) (auto simp: bind_result_Inl)

lemma map_result_error:
  "map_result f xs = Inl e \<Longrightarrow> (\<And>y e. f y = Inl e \<Longrightarrow> e \<noteq> E) \<Longrightarrow> e \<noteq> E"
  by (induction xs) (auto simp: bind_result_Inl)

lemma decimal_error: "settlement_decimal T v f = Inl e \<Longrightarrow> e \<noteq> RAISE_EXCEPTION"
  by (auto simp: settlement_decimal_def RAISE_EXCEPTION_def split: option.splits)

lemma to_attempt_error: "to_attempt T p = Inl e \<Longrightarrow> e \<noteq> RAISE_EXCEPTION"
  by (auto simp: to_attempt_def bind_result_Inl dest: transpose_error decimal_error)

lemma to_record_error:
  assumes "to_record T i = Inl e"
  shows "e \<noteq> RAISE_EXCEPTION"
proof -
  consider "map_result (to_attempt T) (si_attempts i) = Inl e" | "settlement_decimal T (si_cost_usd i) ''cost_usd'' = Inl e"
    | "transpose_option (\<lambda>c. settlement_decimal T c ''byok_catalog_usd'') (si_byok_catalog_usd i) = Inl e"
    using assms by (auto simp: to_record_def bind_result_Inl)
  then show ?thesis
  proof cases
    case 1
    then show ?thesis
      by (rule map_result_error) (rule to_attempt_error)
  next
    case 2
    then show ?thesis
      by (rule decimal_error)
  next
    case 3
    then show ?thesis
      by (rule transpose_error) (rule decimal_error)
  qed
qed

lemma intent_counts_error: "intent_counts r = Inl e \<Longrightarrow> e \<noteq> RAISE_EXCEPTION"
  by (auto simp: intent_counts_def bind_result_Inl dest!: checked_count_error)

lemma attempt_counts_error: "attempt_counts t = Inl e \<Longrightarrow> e \<noteq> RAISE_EXCEPTION"
  unfolding attempt_counts_def bind_result_Inl Let_def
  by (elim disjE exE conjE; (erule transpose_error, erule checked_count_error)?) auto

lemma insert_attempts_error: "insert_attempts rid kid u as d = Inl e \<Longrightarrow> e \<noteq> RAISE_EXCEPTION"
proof (induction as arbitrary: d)
  case (Cons a as)
  then show ?case
    by (auto simp: bind_result_Inl insert_request_attempt_def CHECK_VIOLATION_def UNIQUE_VIOLATION_def RAISE_EXCEPTION_def
        split: if_splits dest: attempt_counts_error)
qed simp

lemma insert_event_error: "insert_event cal ev d = Inl e \<Longrightarrow> e \<noteq> RAISE_EXCEPTION"
  by (auto simp: insert_event_def CHECK_VIOLATION_def UNIQUE_VIOLATION_def RAISE_EXCEPTION_def split: if_splits)

lemma settled_cost_error: "settled_cost D cal now u r d = Inl e \<Longrightarrow> e \<noteq> RAISE_EXCEPTION"
  by (auto simp: settled_cost_def Let_def RAISE_EXCEPTION_def split: option.splits)

lemma debit_user_error:
  assumes "debit_user now rid u debit d = Inl e" "\<And>x. users d u = Some x \<Longrightarrow> debit \<le> u_balance x"
  shows "e \<noteq> RAISE_EXCEPTION"
  using assms
  by (cases "users d u") (auto simp: debit_user_def bind_result_Inl update_balance_def insert_ledger_def Let_def
      CHECK_VIOLATION_def UNIQUE_VIOLATION_def RAISE_EXCEPTION_def split: if_splits)

lemma settle_body_error:
  assumes "settle_body D cal now rid kid i r snapshot counts reserved d = Inl err"
    and cover: "\<And>x. users d (si_user_id i) = Some x \<Longrightarrow> reserved \<le> u_balance x"
  shows "err \<noteq> EventError RAISE_EXCEPTION \<and> err \<noteq> OtherError RAISE_EXCEPTION"
proof (cases "settled_cost D cal now (si_user_id i) r d")
  case (Inl e)
  then show ?thesis
    using assms(1) settled_cost_error [OF Inl] by (auto simp: settle_body_def)
next
  case (Inr charge)
  define ev where "ev = settled_event D now rid kid i r snapshot counts charge"
  show ?thesis
  proof (cases "insert_event cal ev d")
    case (Inl e)
    then show ?thesis
      using assms(1) Inr insert_event_error [OF Inl] by (auto simp: settle_body_def ev_def)
  next
    case d1: (Inr d1)
    have u1: "users d1 = users d"
      using d1 by (auto simp: insert_event_def split: if_splits)
    define tail where "tail = bind_result (insert_attempts rid kid (si_user_id i) (attempts r) d1) (\<lambda>d2.
                       if si_require_credits i then debit_user now rid (si_user_id i) (min (fst charge) reserved) d2
                       else Inr d2)"
    obtain e where e: "tail = Inl e" "err = OtherError e"
      using assms(1) Inr d1 by (cases tail) (auto simp: settle_body_def ev_def tail_def)
    have "e \<noteq> RAISE_EXCEPTION"
      using e(1) unfolding tail_def bind_result_Inl
    proof (elim disjE exE conjE)
      assume "insert_attempts rid kid (si_user_id i) (attempts r) d1 = Inl e"
      then show ?thesis
        by (rule insert_attempts_error)
    next
      fix d2
      assume d2: "insert_attempts rid kid (si_user_id i) (attempts r) d1 = Inr d2"
        and t: "(if si_require_credits i then debit_user now rid (si_user_id i) (min (fst charge) reserved) d2
            else Inr d2) = Inl e"
      have u2: "users d2 = users d"
        using insert_attempts_Inr [OF d2] u1 by auto
      have "debit_user now rid (si_user_id i) (min (fst charge) reserved) d2 = Inl e"
        using t by (auto split: if_splits)
      then show ?thesis
        by (rule debit_user_error) (use cover u2 in \<open>auto simp: min_le_iff_disj\<close>)
    qed
    then show ?thesis
      using e by simp
  qed
qed

lemma settle_once_no_overdraft:
  assumes w: "rows_wf d" and v: "secured 0 now d (si_user_id i)"
    and live: "\<And>r. r \<in> set (reservations d) \<Longrightarrow> owed_row rid kid r \<Longrightarrow> encumbers now r"
    and own: "key_user d kid = Some (si_user_id i)"
  shows "fst (settle_once D T cal now rid kid i d) \<noteq> Inl RAISE_EXCEPTION"
proof (cases "bind_result (to_record T i) (\<lambda>r. bind_result (reserved_cost_snapshot T i) (\<lambda>snapshot.
             bind_result (intent_counts r) (\<lambda>counts. Inr (r, snapshot, counts))))")
  case (Inl e)
  then have "e \<noteq> RAISE_EXCEPTION"
    by (auto simp: bind_result_Inl reserved_cost_snapshot_def dest: to_record_error intent_counts_error decimal_error)
  then show ?thesis
    using Inl by (simp add: settle_once_def)
next
  case (Inr rsc)
  obtain r snapshot counts where rsc: "rsc = (r, snapshot, counts)"
    by (cases rsc)
  show ?thesis
  proof (cases "List.find (owed_row rid kid) (reservations d)")
    case None
    then show ?thesis
      using Inr rsc by (simp add: settle_once_def RAISE_EXCEPTION_def)
  next
    case (Some row)
    have row: "row \<in> set (reservations d)" "r_id row = rid" "r_key row = kid" "owed_row rid kid row"
      using find_SomeD [OF Some] by (auto simp: owed_row_def)
    have "of_user d (si_user_id i) row"
      using own row by (simp add: of_user_def)
    then have "r_cost row \<le> user_encumbrance now d (si_user_id i)"
      using row_within_encumbrance [OF w row(1)] live row by blast
    then have cover: "users d (si_user_id i) = Some x \<Longrightarrow> r_cost row \<le> u_balance x" for x
      using v order_trans unfolding secured_def add_0_right by blast
    define d0 where "d0 = d\<lparr> reservations := List.filter (\<lambda>x. \<not> owed_row rid kid x) (reservations d) \<rparr>"
    define body where "body = settle_body D cal now rid kid i r snapshot counts (r_cost row) d0"
    have err: "body = Inl err \<Longrightarrow> err \<noteq> EventError RAISE_EXCEPTION \<and> err \<noteq> OtherError RAISE_EXCEPTION" for err
      unfolding body_def by (erule settle_body_error) (simp add: d0_def cover)
    have "fst (settle_once D T cal now rid kid i d) = fst (case body of
                  Inr d' \<Rightarrow> (Inr Settled, d')
                | Inl (EventError e) \<Rightarrow>
                    if is_unique_violation e then (Inr AlreadySettled, discard_settled_reservation rid kid d)
                    else (Inl e, d)
                | Inl (OtherError e) \<Rightarrow> (Inl e, d))"
      using Inr rsc Some by (simp add: settle_once_def Let_def body_def d0_def)
    then show ?thesis
      using err by (auto split: sum.splits settle_body_error.splits)
  qed
qed

section \<open>Lemmas: what a settle charges\<close>

definition usage_row :: "time \<Rightarrow> uuid \<Rightarrow> uuid \<Rightarrow> money \<Rightarrow> money \<Rightarrow> ledger_entry" where
  "usage_row now u rid debit balance_after =
     \<lparr> l_user = u, l_created_at = now, l_type = UsageEntry, l_amount = - debit, l_balance_after = balance_after,
       l_session = None, l_payment_intent = None, l_request = Some rid, l_note = None \<rparr>"

text \<open>The account after a debit, written out.\<close>

definition debited_exactly :: "time \<Rightarrow> uuid \<Rightarrow> uuid \<Rightarrow> money \<Rightarrow> db \<Rightarrow> db \<Rightarrow> bool" where
  "debited_exactly now rid u debit d d' \<longleftrightarrow>
     (if debit \<le> 0 then users d' = users d \<and> ledger d' = ledger d
      else \<exists>x. users d u = Some x \<and> debit \<le> u_balance x \<and>
        users d' = (users d)(u \<mapsto> x\<lparr> u_balance := u_balance x - debit \<rparr>) \<and>
        ledger d' = ledger d @ [usage_row now u rid debit (u_balance x - debit)])"

lemma debit_user_exactly:
  assumes "debit_user now rid u debit d = Inr d'"
  shows "debited_exactly now rid u debit d d'"
proof (cases "debit \<le> 0")
  case True
  then show ?thesis
    using assms by (simp add: debit_user_def debited_exactly_def)
next
  case False
  then obtain b d1 where b: "update_balance False u (- debit) d = Inr (Some b, d1)"
    and l: "insert_ledger (usage_row now u rid debit b) d1 = Inr d'"
    using assms by (auto simp: debit_user_def bind_result_Inr usage_row_def split: option.splits)
  from b show ?thesis
    by (rule update_balance_Inr) (use False insert_ledger_Inr [OF l] in \<open>auto simp: debited_exactly_def\<close>)
qed

lemma settled_cost_reservations:
  "settled_cost D cal now u r (d\<lparr> reservations := rs \<rparr>) = settled_cost D cal now u r d"
proof -
  have "month_byok_consumed cal now u (d\<lparr> reservations := rs \<rparr>) = month_byok_consumed cal now u d"
    by (simp add: month_byok_consumed_def key_user_def)
  then show ?thesis
    unfolding settled_cost_def by presburger
qed

lemma debited_exactly_frame:
  "users d2 = users d \<Longrightarrow> ledger d2 = ledger d \<Longrightarrow> debited_exactly now rid u debit d2 d' = debited_exactly now rid u debit d d'"
  by (simp add: debited_exactly_def)

lemma settle_once_charges:
  assumes "settle_once D T cal now rid kid i d = (Inr Settled, d')"
  obtains row r charge ev where
    "List.find (owed_row rid kid) (reservations d) = Some row" "to_record T i = Inr r"
    "settled_cost D cal now (si_user_id i) r d = Inr charge"
    "events d' = events d @ [ev]" "e_request ev = rid" "e_cost ev = fst charge" "e_byok_catalog ev = snd charge"
    "debited_exactly now rid (si_user_id i) (if si_require_credits i then min (fst charge) (r_cost row) else 0) d d'"
  using assms
proof (rule settle_once_Settled)
  fix row r snapshot counts
  assume row: "List.find (owed_row rid kid) (reservations d) = Some row" and r: "to_record T i = Inr r"
    and body: "settle_body D cal now rid kid i r snapshot counts (r_cost row)
       (d\<lparr> reservations := List.filter (\<lambda>x. \<not> owed_row rid kid x) (reservations d) \<rparr>) = Inr d'"
  from body show ?thesis
  proof (rule settle_body_Inr)
    fix charge ev d2
    assume c: "settled_cost D cal now (si_user_id i) r
         (d\<lparr> reservations := List.filter (\<lambda>x. \<not> owed_row rid kid x) (reservations d) \<rparr>) = Inr charge"
      and ev: "ev = settled_event D now rid kid i r snapshot counts charge"
      and keep: "users d2 = users (d\<lparr> reservations := List.filter (\<lambda>x. \<not> owed_row rid kid x) (reservations d) \<rparr>)"
        "ledger d2 = ledger (d\<lparr> reservations := List.filter (\<lambda>x. \<not> owed_row rid kid x) (reservations d) \<rparr>)"
        "events d2 = events (d\<lparr> reservations := List.filter (\<lambda>x. \<not> owed_row rid kid x) (reservations d) \<rparr>) @ [ev]"
      and last: "(if si_require_credits i then debit_user now rid (si_user_id i) (min (fst charge) (r_cost row)) d2
          else Inr d2) = Inr d'"
    have "debited_exactly now rid (si_user_id i) (if si_require_credits i then min (fst charge) (r_cost row) else 0) d2 d'"
      using last by (auto simp: debited_exactly_def split: if_splits dest: debit_user_exactly)
    then have x: "debited_exactly now rid (si_user_id i) (if si_require_credits i then min (fst charge) (r_cost row) else 0) d d'"
      by (rule iffD1 [OF debited_exactly_frame, rotated 2]) (simp_all add: keep)
    have "events d' = events d2"
      using last by (auto simp: debit_user_def bind_result_Inr insert_ledger_def update_balance_def Let_def
          split: if_splits option.splits)
    moreover have "e_request ev = rid" "e_cost ev = fst charge" "e_byok_catalog ev = snd charge"
      by (auto simp: ev settled_event_def split: prod.splits)
    ultimately show ?thesis
      using that [OF row r c [unfolded settled_cost_reservations] _ _ _ _ x] keep by simp
  qed
qed

section \<open>Lemmas: releases\<close>

lemma released_row:
  assumes "release_quarantined_reservation now rid memo forgive d = (Inr (Released t owed amount), d')"
  obtains r where "List.find (\<lambda>r. r_id r = rid) (reservations d) = Some r"
    "d' = d\<lparr> reservations := update_where (\<lambda>x. r_id x = rid \<and> r_released_at x = None)
       (\<lambda>x. x\<lparr> r_released_at := Some now, r_released_note := Some (trim memo) \<rparr>) (reservations d) \<rparr>"
proof (cases "List.find (\<lambda>r. r_id r = rid) (reservations d)")
  case None
  then show ?thesis
    using assms by (simp add: release_quarantined_reservation_def Let_def split: if_splits)
next
  case (Some r)
  have "trim memo \<noteq> []" "key_user d (r_key r) \<noteq> None"
    using assms Some by (auto simp: release_quarantined_reservation_def Let_def split: if_splits)
  moreover have "r_released_at r = None"
    using assms Some calculation by (cases "r_released_at r") (simp_all add: release_quarantined_reservation_def Let_def)
  ultimately show ?thesis
    using assms Some by (intro that [OF Some])
      (auto simp: release_quarantined_reservation_def Let_def split: if_splits)
qed

end
