(* ===== verification/Billing.thy ===== *)
theory Billing
  imports Settlement "HOL-Library.List_Lexorder" "HOL-Library.Char_ord"
begin

text \<open>
  The credit side of \<^verbatim>\<open>router/src/billing.rs\<close>: checkout quotes, purchases, promotional
  grants, freezes, reversals and the tombstones of reversals that arrive before their credit,
  write-offs and recoveries.  Each function is one transaction; the advisory locks serialize the
  transactions of a user and of a payment intent.
\<close>

section \<open>Checkout quotes\<close>

text \<open>\<^verbatim>\<open>ROUND (amount * 100)::bigint\<close>: to the nearest cent, ties away from zero.\<close>

definition round_cents :: "money \<Rightarrow> int" where
  "round_cents amount =
     (if 0 \<le> amount then \<lfloor>amount * 100 + 1 / 2\<rfloor> else - \<lfloor>- amount * 100 + 1 / 2\<rfloor>)"

definition checkout_checks :: "checkout_intent \<Rightarrow> bool" where
  "checkout_checks c \<longleftrightarrow> \<not> blank (ci_session c) \<and> 0 < ci_amount_cents c \<and> 0 < ci_credit c \<and>
     round_cents (ci_credit c) \<le> ci_amount_cents c \<and>
     length (ci_currency c) = 3 \<and> list_all (\<lambda>ch. ch \<in> set ''abcdefghijklmnopqrstuvwxyz'') (ci_currency c) \<and>
     (case ci_settled_at c of None \<Rightarrow> True | Some t \<Rightarrow> ci_created_at c \<le> t)"

definition record_checkout_intent ::
  "time \<Rightarrow> string \<Rightarrow> uuid \<Rightarrow> int \<Rightarrow> money \<Rightarrow> string \<Rightarrow> db \<Rightarrow> (sql_error, unit) result \<times> db" where
  "record_checkout_intent now session u cents credit currency d =
     (let c = \<lparr> ci_session = session, ci_user = u, ci_amount_cents = cents, ci_credit = credit,
                ci_currency = currency, ci_settled_at = None, ci_created_at = now \<rparr> in
      if \<not> checkout_checks c then (Inl CHECK_VIOLATION, d)
      else if list_ex (\<lambda>x. ci_session x = session) (checkout_intents d) then (Inl UNIQUE_VIOLATION, d)
      else if users d u = None then (Inl (Database ''23503''), d)
      else (Inr (), d\<lparr> checkout_intents := checkout_intents d @ [c] \<rparr>))"

definition checkout_intent :: "string \<Rightarrow> db \<Rightarrow> checkout_intent option" where
  "checkout_intent session d = List.find (\<lambda>c. ci_session c = session) (checkout_intents d)"

definition settle_checkout_intent :: "time \<Rightarrow> string \<Rightarrow> db \<Rightarrow> bool \<times> db" where
  "settle_checkout_intent now session d =
     (let P = (\<lambda>c. ci_session c = session \<and> ci_settled_at c = None) in
      (list_ex P (checkout_intents d),
       d\<lparr> checkout_intents := update_where P (\<lambda>c. c\<lparr> ci_settled_at := Some now \<rparr>) (checkout_intents d) \<rparr>))"

record checkout_intent_sweep =
  cs_removed :: nat
  cs_oldest :: "time option"
  cs_quoted_credit :: money

definition abandoned :: "time \<Rightarrow> int \<Rightarrow> db \<Rightarrow> checkout_intent \<Rightarrow> bool" where
  "abandoned now retention_days d c \<longleftrightarrow>
     ci_settled_at c = None \<and> ci_created_at c < now - retention_days * 86400 \<and>
     \<not> list_ex (\<lambda>l. l_session l = Some (ci_session c)) (ledger d)"

text \<open>
  \<^verbatim>\<open>acquired\<close> says whether the try-lock of the cleanup was free.  A negative limit is an error
  of the LIMIT clause.
\<close>

definition sweep_expired_checkout_intents ::
  "bool \<Rightarrow> time \<Rightarrow> int \<Rightarrow> int \<Rightarrow> db \<Rightarrow> (sql_error, checkout_intent_sweep option) result \<times> db" where
  "sweep_expired_checkout_intents acquired now retention_days limit d =
     (if \<not> acquired then (Inr None, d)
      else if limit < 0 then (Inl (Database ''2201W''), d)
      else
        let chosen = take (nat limit)
              (sort_key ci_created_at (List.filter (abandoned now retention_days d) (checkout_intents d)));
            gone = (\<lambda>c. ci_session c \<in> set (List.map ci_session chosen) \<and> abandoned now retention_days d c);
            removed = List.filter gone (checkout_intents d)
        in (Inr (Some \<lparr> cs_removed = length removed,
                        cs_oldest = (case removed of [] \<Rightarrow> None | c # cs \<Rightarrow> Some (fold (\<lambda>x m. min (ci_created_at x) m) cs (ci_created_at c))),
                        cs_quoted_credit = sum_list (List.map ci_credit removed) \<rparr>),
            d\<lparr> checkout_intents := List.filter (\<lambda>c. \<not> gone c) (checkout_intents d) \<rparr>))"

section \<open>Posting a credit or a debit\<close>

text \<open>
  The pair of statements every money transaction shares: UPDATE the balance, RETURNING it, and
  INSERT the ledger row that explains it.  \<^verbatim>\<open>missing\<close> is the error for an absent user.
\<close>

definition post ::
  "bool \<Rightarrow> sql_error \<Rightarrow> uuid \<Rightarrow> money \<Rightarrow> (money \<Rightarrow> ledger_entry) \<Rightarrow> db \<Rightarrow> (sql_error, money \<times> db) result" where
  "post credit_reversal missing u delta entry d =
     bind_result (update_balance credit_reversal u delta d) (\<lambda>(b, d1).
       case b of
         None \<Rightarrow> Inl missing
       | Some balance_after \<Rightarrow>
           bind_result (insert_ledger (entry balance_after) d1) (\<lambda>d2. Inr (balance_after, d2)))"

definition entry ::
  "uuid \<Rightarrow> time \<Rightarrow> entry_type \<Rightarrow> money \<Rightarrow> string option \<Rightarrow> string option \<Rightarrow> string option \<Rightarrow> money \<Rightarrow> ledger_entry" where
  "entry u now ty amount session intent note balance_after =
     \<lparr> l_user = u, l_created_at = now, l_type = ty, l_amount = amount, l_balance_after = balance_after,
       l_session = session, l_payment_intent = intent, l_request = None, l_note = note \<rparr>"

section \<open>Freezing\<close>

datatype freeze_reason = Dispute | Operator

fun freeze_as_str :: "freeze_reason \<Rightarrow> string" where
  "freeze_as_str Dispute = ''dispute''"
| "freeze_as_str Operator = ''operator''"

definition freeze_account :: "time \<Rightarrow> uuid \<Rightarrow> freeze_reason \<Rightarrow> db \<Rightarrow> bool \<times> db" where
  "freeze_account now u reason d =
     (case users d u of
        None \<Rightarrow> (False, d)
      | Some x \<Rightarrow>
          if u_frozen_at x \<noteq> None then (False, d)
          else (True, d\<lparr> users := (users d)(u \<mapsto> x\<lparr> u_frozen_at := Some now,
                        u_frozen_reason := Some (freeze_as_str reason) \<rparr>) \<rparr>))"

definition unfreeze_account :: "uuid \<Rightarrow> db \<Rightarrow> bool \<times> db" where
  "unfreeze_account u d =
     (case users d u of
        None \<Rightarrow> (False, d)
      | Some x \<Rightarrow>
          if u_frozen_at x = None then (False, d)
          else (True, d\<lparr> users := (users d)(u \<mapsto> x\<lparr> u_frozen_at := None, u_frozen_reason := None \<rparr>) \<rparr>))"

definition freeze_state :: "uuid \<Rightarrow> db \<Rightarrow> (time \<times> string) option option" where
  "freeze_state u d =
     map_option (\<lambda>x. case (u_frozen_at x, u_frozen_reason x) of
                       (Some t, Some r) \<Rightarrow> Some (t, r) | _ \<Rightarrow> None) (users d u)"

section \<open>Reversals\<close>

text \<open>The first purchase or recharge a payment intent paid for, by ledger id.\<close>

definition credit_of :: "string \<Rightarrow> ledger_entry \<Rightarrow> bool" where
  "credit_of intent l \<longleftrightarrow> (l_type l = Purchase \<or> l_type l = Autopay) \<and>
     (l_payment_intent l = Some intent \<or> l_session l = Some intent)"

definition credited_purchase :: "string \<Rightarrow> db \<Rightarrow> ledger_entry option" where
  "credited_purchase intent d = List.find (credit_of intent) (ledger d)"

definition reversed_already :: "string \<Rightarrow> string \<Rightarrow> ledger_entry \<Rightarrow> bool" where
  "reversed_already obj intent l \<longleftrightarrow>
     l_session l = Some obj \<or> (l_type l = Refund \<and> l_payment_intent l = Some intent)"

datatype reversal_outcome = Reversed money money | AlreadyReversed | UnknownPurchase

definition reverse_purchase ::
  "time \<Rightarrow> string \<Rightarrow> string \<Rightarrow> string \<Rightarrow> db \<Rightarrow> (sql_error, reversal_outcome) result \<times> db" where
  "reverse_purchase now intent obj note d =
     (if trim obj = [] then (Inl (Protocol ''credit reversal requires a Stripe object id''), d)
      else
        (case credited_purchase intent d of
           None \<Rightarrow> (Inr UnknownPurchase, d)
         | Some c \<Rightarrow>
             if list_ex (reversed_already obj intent) (ledger d) then (Inr AlreadyReversed, d)
             else
               transact (\<lambda>d.
                 bind_result
                   (post True (Protocol ''credit reversal found no such user'') (l_user c) (- l_amount c)
                      (entry (l_user c) now Refund (- l_amount c) (Some obj) (Some intent) (Some note)) d)
                   (\<lambda>(balance_after, d'). Inr (Reversed (l_amount c) balance_after, d'))) d))"

definition greatest_cents :: "int option \<Rightarrow> int option \<Rightarrow> int option" where
  "greatest_cents new old =
     (case (or_else new old, or_else old new) of
        (Some a, Some b) \<Rightarrow> Some (max a b) | (a, None) \<Rightarrow> a | (None, b) \<Rightarrow> b)"

definition insert_observed_reversal ::
  "time \<Rightarrow> string \<Rightarrow> string \<Rightarrow> bool \<Rightarrow> int option \<Rightarrow> string option \<Rightarrow> db \<Rightarrow> (sql_error, db) result" where
  "insert_observed_reversal now obj intent dispute cents currency d =
     (if trim obj = [] then Inl (Protocol ''observed reversal requires a Stripe object id'')
      else if trim intent = [] then Inl (Protocol ''observed reversal requires a payment intent id'')
      else if list_ex (\<lambda>o'. o_object o' = obj) (reversals d)
      then Inr (d\<lparr> reversals := update_where
             (\<lambda>o'. o_object o' = obj \<and> o_applied_at o' = None \<and> o_payment_intent o' = intent \<and>
                   o_is_dispute o' = dispute \<and> o_currency o' = currency)
             (\<lambda>o'. o'\<lparr> o_cents := greatest_cents cents (o_cents o') \<rparr>) (reversals d) \<rparr>)
      else Inr (d\<lparr> reversals := reversals d @
             [\<lparr> o_object = obj, o_payment_intent = intent, o_is_dispute = dispute, o_cents = cents,
                o_currency = currency, o_observed_at = now, o_applied_at = None \<rparr>] \<rparr>))"

definition resolve_reversal_against_credit ::
  "time \<Rightarrow> string \<Rightarrow> string \<Rightarrow> bool \<Rightarrow> int option \<Rightarrow> string option \<Rightarrow> db
    \<Rightarrow> (sql_error, ledger_entry option) result \<times> db" where
  "resolve_reversal_against_credit now obj intent dispute cents currency d =
     (if trim obj = [] then (Inl (Protocol ''observed reversal requires a Stripe object id''), d)
      else if trim intent = [] then (Inl (Protocol ''observed reversal requires a payment intent id''), d)
      else
        (case credited_purchase intent d of
           Some c \<Rightarrow> (Inr (Some c), d)
         | None \<Rightarrow>
             transact (\<lambda>d. bind_result (insert_observed_reversal now obj intent dispute cents currency d)
               (\<lambda>d'. Inr (None, d'))) d))"

definition mark_intent_reversals_applied :: "time \<Rightarrow> string \<Rightarrow> db \<Rightarrow> (sql_error, nat) result \<times> db" where
  "mark_intent_reversals_applied now intent d =
     (if trim intent = [] then (Inl (Protocol ''stamping observed reversals requires a payment intent id''), d)
      else
        let P = (\<lambda>o'. o_payment_intent o' = intent \<and> o_applied_at o' = None) in
        (Inr (count_where P (reversals d)),
         d\<lparr> reversals := update_where P (\<lambda>o'. o'\<lparr> o_applied_at := Some now \<rparr>) (reversals d) \<rparr>))"

definition covers :: "money \<Rightarrow> observed_reversal \<Rightarrow> bool" where
  "covers credited o' \<longleftrightarrow> o_currency o' = Some ''usd'' \<and>
     (case o_cents o' of None \<Rightarrow> False | Some c \<Rightarrow> round_cents credited \<le> c)"

definition reversal_note :: "observed_reversal \<Rightarrow> string" where
  "reversal_note o' =
     (if o_is_dispute o' then ''chargeback reversal ('' else ''refund reversal ('') @ o_object o' @
       ''); reversal observed before credit''"

definition apply_one_reversal ::
  "time \<Rightarrow> uuid \<Rightarrow> string \<Rightarrow> money \<Rightarrow> observed_reversal \<Rightarrow> db \<Rightarrow> (sql_error, db) result" where
  "apply_one_reversal now u intent credited o' d =
     (let d1 = (if o_is_dispute o' then snd (freeze_account now u Dispute d) else d) in
      bind_result
        (if covers credited o' \<and> \<not> list_ex (reversed_already (o_object o') intent) (ledger d1)
         then bind_result
                (post True RowNotFound u (- credited)
                   (entry u now Refund (- credited) (Some (o_object o')) (Some intent) (Some (reversal_note o'))) d1)
                (\<lambda>(_, d2). Inr d2)
         else Inr d1)
        (\<lambda>d2. Inr (if o_is_dispute o' \<or> covers credited o'
                   then d2\<lparr> reversals := update_where (\<lambda>x. o_object x = o_object o')
                          (\<lambda>x. x\<lparr> o_applied_at := Some now \<rparr>) (reversals d2) \<rparr>
                   else d2)))"

fun apply_reversals ::
  "time \<Rightarrow> uuid \<Rightarrow> string \<Rightarrow> money \<Rightarrow> observed_reversal list \<Rightarrow> db \<Rightarrow> (sql_error, db) result" where
  "apply_reversals now u intent credited [] d = Inr d"
| "apply_reversals now u intent credited (o' # os) d =
     bind_result (apply_one_reversal now u intent credited o' d) (\<lambda>d'. apply_reversals now u intent credited os d')"

text \<open>ORDER BY observed_at, object_id: a stable sort by the second key, then by the first.\<close>

definition pending_reversals :: "string \<Rightarrow> db \<Rightarrow> observed_reversal list" where
  "pending_reversals intent d =
     sort_key o_observed_at (sort_key o_object
       (List.filter (\<lambda>o'. o_payment_intent o' = intent \<and> o_applied_at o' = None) (reversals d)))"

definition apply_observed_reversals :: "time \<Rightarrow> uuid \<Rightarrow> string \<Rightarrow> money \<Rightarrow> db \<Rightarrow> (sql_error, db) result" where
  "apply_observed_reversals now u intent credited d = apply_reversals now u intent credited (pending_reversals intent d) d"

section \<open>Credits\<close>

datatype credit_outcome = Applied money | AlreadyApplied

definition credit_purchase ::
  "time \<Rightarrow> uuid \<Rightarrow> money \<Rightarrow> string \<Rightarrow> string option \<Rightarrow> db \<Rightarrow> (sql_error, credit_outcome) result \<times> db" where
  "credit_purchase now u amount session intent d =
     (if amount \<le> 0 then (Inl (Protocol ''credit purchase amount must be positive''), d)
      else if trim session = [] then (Inl (Protocol ''credit purchase requires a Stripe session id''), d)
      else if list_ex (\<lambda>l. l_session l = Some session) (ledger d) then (Inr AlreadyApplied, d)
      else
        transact (\<lambda>d.
          bind_result
            (post False (Protocol ''credit purchase found no such user'') u amount
               (entry u now Purchase amount (Some session) intent None) d)
            (\<lambda>(balance_after, d1).
              bind_result
                (case intent of None \<Rightarrow> Inr d1 | Some p \<Rightarrow> apply_observed_reversals now u p amount d1)
                (\<lambda>d2. Inr (Applied balance_after, d2)))) d)"

definition grant_promo :: "time \<Rightarrow> uuid \<Rightarrow> money \<Rightarrow> string \<Rightarrow> db \<Rightarrow> (sql_error, unit) result \<times> db" where
  "grant_promo now u amount note d =
     (if amount = 0 then (Inr (), d)
      else if amount < 0 then (Inl (Protocol ''promo credit amount cannot be negative''), d)
      else
        transact (\<lambda>d.
          bind_result
            (post False (Protocol ''promo grant found no such user'') u amount
               (entry u now Promo amount None None (Some note)) d)
            (\<lambda>(_, d'). Inr ((), d'))) d)"

section \<open>Resolving a receivable\<close>

datatype resolution_outcome =
    WrittenOff money money
  | AlreadyWrittenOff money
  | Recovered money money
  | NothingOwed money

definition write_off_receivable :: "time \<Rightarrow> uuid \<Rightarrow> string \<Rightarrow> db \<Rightarrow> (sql_error, resolution_outcome) result \<times> db" where
  "write_off_receivable now u note0 d =
     (let note = trim note0 in
      if note = [] then (Inl (Protocol ''a write-off must state its reason''), d)
      else
        (case users d u of
           None \<Rightarrow> (Inl (Protocol ''write-off found no such user''), d)
         | Some x \<Rightarrow>
             if 0 \<le> u_balance x
             then (Inr (if list_ex (\<lambda>l. l_user l = u \<and> l_type l = Writeoff) (ledger d)
                        then AlreadyWrittenOff (u_balance x) else NothingOwed (u_balance x)), d)
             else
               let forgiven = - u_balance x in
               transact (\<lambda>d.
                 bind_result
                   (post False RowNotFound u forgiven
                      (entry u now Writeoff forgiven None None (Some note)) d)
                   (\<lambda>(balance_after, d'). Inr (WrittenOff forgiven balance_after, d'))) d))"

definition record_recovery :: "time \<Rightarrow> uuid \<Rightarrow> money \<Rightarrow> string \<Rightarrow> db \<Rightarrow> (sql_error, resolution_outcome) result \<times> db" where
  "record_recovery now u amount note0 d =
     (let note = trim note0 in
      if note = [] then (Inl (Protocol ''a recovery must state its reason''), d)
      else if amount \<le> 0 then (Inl (Protocol ''recovery amount must be positive''), d)
      else
        (case users d u of
           None \<Rightarrow> (Inl (Protocol ''recovery found no such user''), d)
         | Some x \<Rightarrow>
             if u_frozen_at x = None \<and> \<not> list_ex (\<lambda>l. l_user l = u \<and> l_type l = Refund) (ledger d) \<and> 0 \<le> u_balance x
             then (Inr (NothingOwed (u_balance x)), d)
             else
               transact (\<lambda>d.
                 bind_result
                   (post False RowNotFound u amount
                      (entry u now Recovery amount None None (Some note)) d)
                   (\<lambda>(balance_after, d'). Inr (Recovered amount balance_after, d'))) d))"

section \<open>Lemmas: postings\<close>

lemma entry_simps [simp]:
  "l_user (entry u now ty a s i n b) = u" "l_amount (entry u now ty a s i n b) = a"
  "l_balance_after (entry u now ty a s i n b) = b" "l_session (entry u now ty a s i n b) = s"
  "l_payment_intent (entry u now ty a s i n b) = i" "l_type (entry u now ty a s i n b) = ty"
  "l_request (entry u now ty a s i n b) = None" "l_note (entry u now ty a s i n b) = n"
  by (simp_all add: entry_def)

lemma post_Inr:
  assumes "post flag missing u delta (entry u now ty delta session intent note) d = Inr (b, d')"
  obtains x l where "users d u = Some x" "b = u_balance x + delta" "l = entry u now ty delta session intent note b"
    "d' = d\<lparr> users := (users d)(u \<mapsto> x\<lparr> u_balance := b \<rparr>), ledger := ledger d @ [l] \<rparr>"
    "posts d d' u l" "ledger_checks l" "flag \<or> 0 \<le> b \<or> u_balance x \<le> b"
proof -
  obtain d1 where d1: "update_balance flag u delta d = Inr (Some b, d1)"
    and l: "insert_ledger (entry u now ty delta session intent note b) d1 = Inr d'"
    using assms by (auto simp: post_def bind_result_Inr split: option.splits)
  from d1 obtain x where x: "users d u = Some x" "b = u_balance x + delta"
      "d1 = d\<lparr> users := (users d)(u \<mapsto> x\<lparr> u_balance := b \<rparr>) \<rparr>" "flag \<or> 0 \<le> b \<or> u_balance x \<le> b"
    by (rule update_balance_Inr)
  note i = insert_ledger_Inr [OF l]
  have "posts d d' u (entry u now ty delta session intent note b)"
    using x i by (auto simp: posts_def)
  then show ?thesis
    using that [OF x(1,2) refl _ _ _ x(4)] x(3) i by simp
qed

lemma post_ok:
  assumes "users d u = Some x" and "flag \<or> 0 \<le> u_balance x + delta \<or> 0 \<le> delta"
    and "ledger_checks (entry u now ty delta session intent note (u_balance x + delta))"
    and "ledger_unique (ledger d) (entry u now ty delta session intent note (u_balance x + delta))"
  shows "post flag missing u delta (entry u now ty delta session intent note) d
    = Inr (u_balance x + delta,
        d\<lparr> users := (users d)(u \<mapsto> x\<lparr> u_balance := u_balance x + delta \<rparr>),
           ledger := ledger d @ [entry u now ty delta session intent note (u_balance x + delta)] \<rparr>)"
  using assms by (auto simp: post_def update_balance_def bind_result_def insert_ledger_def Let_def)

lemma money_step_post:
  "post flag missing u delta (entry u now ty delta session intent note) d = Inr (b, d') \<Longrightarrow> money_step d d'"
  by (erule post_Inr) (rule money_step_posts)

lemma transact_money:
  "(\<And>x d'. body d = Inr (x, d') \<Longrightarrow> money_step d d') \<Longrightarrow> money_step d (snd (transact body d))"
  by (auto simp: transact_def split: sum.splits)

lemma freeze_money [money_steps]: "money_step d (snd (freeze_account now u reason d))"
  by (auto simp: freeze_account_def split: option.splits intro!: money_step_frame)

lemma unfreeze_money [money_steps]: "money_step d (snd (unfreeze_account u d))"
  by (auto simp: unfreeze_account_def split: option.splits intro!: money_step_frame)

lemma freeze_keeps [db_simps]:
  "ledger (snd (freeze_account now u reason d)) = ledger d" "reversals (snd (freeze_account now u reason d)) = reversals d"
  "reservations (snd (freeze_account now u reason d)) = reservations d" "events (snd (freeze_account now u reason d)) = events d"
  "api_keys (snd (freeze_account now u reason d)) = api_keys d" "autopay_intents (snd (freeze_account now u reason d)) = autopay_intents d"
  by (auto simp: freeze_account_def split: option.splits)

lemma reverse_money [money_steps]: "money_step d (snd (reverse_purchase now intent obj note d))"
  by (auto simp: reverse_purchase_def bind_result_Inr split: option.splits intro!: transact_money intro: money_step_post)

lemma apply_one_money:
  assumes "apply_one_reversal now u intent credited o' d = Inr d'"
  shows "money_step d d'"
proof -
  define d1 where "d1 = (if o_is_dispute o' then snd (freeze_account now u Dispute d) else d)"
  have s1: "money_step d d1"
    by (simp add: d1_def freeze_money)
  obtain d2 where d2: "(if covers credited o' \<and> \<not> list_ex (reversed_already (o_object o') intent) (ledger d1)
         then bind_result
                (post True RowNotFound u (- credited)
                   (entry u now Refund (- credited) (Some (o_object o')) (Some intent) (Some (reversal_note o'))) d1)
                (\<lambda>(_, d2). Inr d2)
         else Inr d1) = Inr d2"
    and d': "d' = (if o_is_dispute o' \<or> covers credited o'
                   then d2\<lparr> reversals := update_where (\<lambda>x. o_object x = o_object o')
                          (\<lambda>x. x\<lparr> o_applied_at := Some now \<rparr>) (reversals d2) \<rparr>
                   else d2)"
    using assms by (auto simp: apply_one_reversal_def Let_def d1_def [symmetric] bind_result_Inr)
  have "money_step d1 d2"
    using d2 by (auto simp: bind_result_Inr split: if_splits intro: money_step_post)
  moreover have "money_step d2 d'"
    by (rule money_step_same) (simp_all add: d')
  ultimately show ?thesis
    using s1 money_step_trans by blast
qed

lemma apply_reversals_money: "apply_reversals now u intent credited os d = Inr d' \<Longrightarrow> money_step d d'"
  by (induction os arbitrary: d) (auto simp: bind_result_Inr intro: money_step_trans apply_one_money)

lemma apply_observed_money: "apply_observed_reversals now u intent credited d = Inr d' \<Longrightarrow> money_step d d'"
  unfolding apply_observed_reversals_def by (rule apply_reversals_money)

lemma credit_money [money_steps]: "money_step d (snd (credit_purchase now u amount session intent d))"
proof -
  have step: "money_step d d2"
    if p: "post False e u amount (entry u now Purchase amount (Some session) intent None) d = Inr (b, d1)"
      and a: "(case intent of None \<Rightarrow> Inr d1 | Some p \<Rightarrow> apply_observed_reversals now u p amount d1) = Inr d2"
    for e b d1 d2
    using money_step_post [OF p] apply_observed_money a
    by (cases intent) (auto intro: money_step_trans)
  show ?thesis
    unfolding credit_purchase_def
    by (auto simp: bind_result_Inr intro!: transact_money intro: step)
qed

lemma promo_money [money_steps]: "money_step d (snd (grant_promo now u amount note d))"
  by (auto simp: grant_promo_def bind_result_Inr intro!: transact_money intro: money_step_post)

lemma write_off_money [money_steps]: "money_step d (snd (write_off_receivable now u note d))"
  by (auto simp: write_off_receivable_def Let_def bind_result_Inr split: option.splits intro!: transact_money intro: money_step_post)

lemma recovery_money [money_steps]: "money_step d (snd (record_recovery now u amount note d))"
  by (auto simp: record_recovery_def Let_def bind_result_Inr split: option.splits intro!: transact_money intro: money_step_post)

lemma resolve_money [money_steps]: "money_step d (snd (resolve_reversal_against_credit now obj intent dispute cents currency d))"
  by (auto simp: resolve_reversal_against_credit_def bind_result_Inr insert_observed_reversal_def
      split: option.splits if_splits intro!: transact_money)

lemma mark_money [money_steps]: "money_step d (snd (mark_intent_reversals_applied now intent d))"
  by (auto simp: mark_intent_reversals_applied_def Let_def intro: money_step_same)

lemma checkout_money [money_steps]:
  "money_step d (snd (record_checkout_intent now session u cents credit currency d))"
  "money_step d (snd (settle_checkout_intent now session d))"
  "money_step d (snd (sweep_expired_checkout_intents acquired now days limit d))"
  by (auto simp: record_checkout_intent_def settle_checkout_intent_def sweep_expired_checkout_intents_def Let_def
      intro: money_step_same)

end
