(* ===== verification/Autopay.thy ===== *)
theory Autopay
  imports Billing
begin

text \<open>
  Automatic recharge, the second half of \<^verbatim>\<open>router/src/billing.rs\<close>: which accounts may be
  charged, the claim of an attempt before Stripe is called, the exactly-once settlement of a
  charge, and the tax that was frozen with it.  A recharge row moves from pending to one of three
  final states, and only one of them credits the account.
\<close>

section \<open>Eligibility\<close>

definition autopay_eligible :: "user \<Rightarrow> bool" where
  "autopay_eligible x \<longleftrightarrow> u_frozen_at x = None \<and> 0 \<le> u_balance x \<and> u_autopay_failures x < 3"

definition has_pending :: "uuid \<Rightarrow> db \<Rightarrow> bool" where
  "has_pending u d \<longleftrightarrow> list_ex (\<lambda>i. ai_user i = u \<and> ai_status i = Pending) (autopay_intents d)"

record autopay_candidate =
  ac_user :: uuid
  ac_customer :: string
  ac_topup :: money

text \<open>The candidates among the user ids a scan visits, neediest first.\<close>

definition autopay_candidate_row :: "uuid \<Rightarrow> db \<Rightarrow> (money \<times> autopay_candidate) option" where
  "autopay_candidate_row u d =
     (case users d u of
        None \<Rightarrow> None
      | Some x \<Rightarrow>
          (case (u_autopay_threshold x, u_stripe_customer x, u_autopay_topup x) of
             (Some threshold, Some customer, Some topup) \<Rightarrow>
               if u_autopay_enabled x \<and> u_balance x < threshold \<and> autopay_eligible x \<and> \<not> has_pending u d
               then Some (u_balance x, \<lparr> ac_user = u, ac_customer = customer, ac_topup = topup \<rparr>)
               else None
           | _ \<Rightarrow> None))"

definition autopay_candidates :: "uuid list \<Rightarrow> nat \<Rightarrow> db \<Rightarrow> autopay_candidate list" where
  "autopay_candidates ids limit d =
     List.map snd (take limit (sort_key fst (List.map_filter (\<lambda>u. autopay_candidate_row u d) ids)))"

section \<open>Rows\<close>

definition new_autopay_intent :: "time \<Rightarrow> string \<Rightarrow> uuid \<Rightarrow> money \<Rightarrow> money \<Rightarrow> autopay_intent" where
  "new_autopay_intent now intent u amount charge =
     \<lparr> ai_payment_intent = intent, ai_user = u, ai_amount = amount, ai_charge = charge, ai_tax = None,
       ai_tax_calculation = None, ai_tax_transaction = None, ai_tax_recorded_at = None,
       ai_tax_reversal = None, ai_tax_reversed_at = None, ai_status = Pending,
       ai_created_at = now, ai_updated_at = now \<rparr>"

definition autopay_checks :: "autopay_intent \<Rightarrow> bool" where
  "autopay_checks i \<longleftrightarrow> 0 < ai_amount i \<and> ai_amount i \<le> ai_charge i \<and> opt_nonneg (ai_tax i)"

text \<open>The primary key, and one pending row for each user.\<close>

definition autopay_conflict :: "autopay_intent \<Rightarrow> db \<Rightarrow> bool" where
  "autopay_conflict i d \<longleftrightarrow>
     list_ex (\<lambda>x. ai_payment_intent x = ai_payment_intent i) (autopay_intents d) \<or>
     (ai_status i = Pending \<and> has_pending (ai_user i) d)"

text \<open>INSERT ... ON CONFLICT DO NOTHING; the flag counts the inserted row.\<close>

definition insert_autopay :: "autopay_intent \<Rightarrow> db \<Rightarrow> (sql_error, bool \<times> db) result" where
  "insert_autopay i d =
     (if \<not> autopay_checks i then Inl CHECK_VIOLATION
      else if autopay_conflict i d then Inr (False, d)
      else Inr (True, d\<lparr> autopay_intents := autopay_intents d @ [i] \<rparr>))"

definition claim_autopay_attempt ::
  "time \<Rightarrow> uuid \<Rightarrow> money \<Rightarrow> money \<Rightarrow> string \<Rightarrow> db \<Rightarrow> (sql_error, bool) result \<times> db" where
  "claim_autopay_attempt now u amount charge key d =
     (case users d u of
        None \<Rightarrow> (Inr False, d)
      | Some x \<Rightarrow>
          if u_autopay_enabled x \<and> u_autopay_topup x = Some amount \<and>
             (case u_autopay_threshold x of None \<Rightarrow> False | Some t \<Rightarrow> u_balance x < t) \<and> autopay_eligible x
          then transact (insert_autopay (new_autopay_intent now (''local_'' @ key) u amount charge)) d
          else (Inr False, d))"

definition autopay_still_armed :: "uuid \<Rightarrow> db \<Rightarrow> bool" where
  "autopay_still_armed u d =
     (case users d u of None \<Rightarrow> False | Some x \<Rightarrow> u_autopay_enabled x \<and> autopay_eligible x)"

definition attach_autopay_intent :: "time \<Rightarrow> string \<Rightarrow> string \<Rightarrow> db \<Rightarrow> db" where
  "attach_autopay_intent now key intent d =
     (let local = (\<lambda>i. ai_payment_intent i = ''local_'' @ key) in
      if list_ex local (autopay_intents d) \<and> \<not> list_ex (\<lambda>i. ai_payment_intent i = intent) (autopay_intents d)
      then d\<lparr> autopay_intents := update_where local
             (\<lambda>i. i\<lparr> ai_payment_intent := intent, ai_updated_at := now \<rparr>) (autopay_intents d) \<rparr>
      else d\<lparr> autopay_intents := List.filter (\<lambda>i. \<not> local i) (autopay_intents d) \<rparr>)"

definition stale_autopay_intents :: "time \<Rightarrow> int \<Rightarrow> int \<Rightarrow> db \<Rightarrow> autopay_intent list" where
  "stale_autopay_intents now older_than replayable_within d =
     sort_key ai_created_at (List.filter (\<lambda>i. ai_status i = Pending \<and>
       ai_created_at i < now - older_than * 60 \<and> now - replayable_within * 60 \<le> ai_created_at i) (autopay_intents d))"

definition overdue_autopay_intents :: "time \<Rightarrow> int \<Rightarrow> db \<Rightarrow> autopay_intent list" where
  "overdue_autopay_intents now older_than d =
     sort_key ai_created_at (List.filter (\<lambda>i. ai_status i = Pending \<and> ai_created_at i < now - older_than * 60) (autopay_intents d))"

definition withheld_autopay_intents :: "db \<Rightarrow> (string \<times> uuid \<times> money) list" where
  "withheld_autopay_intents d =
     List.map (\<lambda>i. (ai_payment_intent i, ai_user i, ai_charge i + unwrap_or (ai_tax i) 0))
       (sort_key ai_updated_at (List.filter (\<lambda>i. ai_status i = Withheld) (autopay_intents d)))"

section \<open>Tax\<close>

definition autopay_tax :: "string \<Rightarrow> db \<Rightarrow> (money \<times> string option) option" where
  "autopay_tax intent d =
     (case List.find (\<lambda>i. ai_payment_intent i = intent) (autopay_intents d) of
        None \<Rightarrow> None
      | Some i \<Rightarrow> map_option (\<lambda>t. (t, ai_tax_calculation i)) (ai_tax i))"

definition freeze_tax_row :: "time \<Rightarrow> money \<Rightarrow> string option \<Rightarrow> autopay_intent \<Rightarrow> autopay_intent" where
  "freeze_tax_row now tax calculation i =
     i\<lparr> ai_tax := Some (unwrap_or (ai_tax i) tax),
        ai_tax_calculation := (if ai_tax i = None then calculation else ai_tax_calculation i),
        ai_updated_at := now \<rparr>"

definition freeze_autopay_tax ::
  "time \<Rightarrow> string \<Rightarrow> money \<Rightarrow> string option \<Rightarrow> db \<Rightarrow> (sql_error, (money \<times> string option) option) result \<times> db" where
  "freeze_autopay_tax now intent tax calculation d =
     (let P = (\<lambda>i. ai_payment_intent i = intent \<and> ai_status i = Pending) in
      case List.find P (autopay_intents d) of
        None \<Rightarrow> (Inr None, d)
      | Some i \<Rightarrow>
          let i' = freeze_tax_row now tax calculation i in
          if \<not> autopay_checks i' then (Inl CHECK_VIOLATION, d)
          else (Inr (map_option (\<lambda>t. (t, ai_tax_calculation i')) (ai_tax i')),
                d\<lparr> autopay_intents := update_where P (freeze_tax_row now tax calculation) (autopay_intents d) \<rparr>))"

definition freeze_autopay_tax_transaction :: "time \<Rightarrow> string \<Rightarrow> string \<Rightarrow> db \<Rightarrow> db" where
  "freeze_autopay_tax_transaction now intent transaction d =
     d\<lparr> autopay_intents := update_where (\<lambda>i. ai_payment_intent i = intent \<and> ai_tax_recorded_at i = None)
          (\<lambda>i. i\<lparr> ai_tax_transaction := Some transaction, ai_tax_recorded_at := Some now, ai_updated_at := now \<rparr>)
          (autopay_intents d) \<rparr>"

definition unrecorded_autopay_tax :: "int \<Rightarrow> db \<Rightarrow> (string \<times> string) list" where
  "unrecorded_autopay_tax limit d =
     take (nat limit) (List.map_filter (\<lambda>i. map_option (\<lambda>c. (ai_payment_intent i, c)) (ai_tax_calculation i))
       (sort_key ai_updated_at (List.filter (\<lambda>i. ai_status i = Succeeded \<and> ai_tax_calculation i \<noteq> None \<and>
          ai_tax_recorded_at i = None) (autopay_intents d))))"

definition refunded :: "db \<Rightarrow> autopay_intent \<Rightarrow> bool" where
  "refunded d i \<longleftrightarrow> list_ex (\<lambda>l. l_type l = Refund \<and> l_payment_intent l = Some (ai_payment_intent i)) (ledger d)"

definition unreversed_autopay_tax :: "int \<Rightarrow> db \<Rightarrow> (string \<times> string) list" where
  "unreversed_autopay_tax limit d =
     take (nat limit) (List.map_filter (\<lambda>i. map_option (\<lambda>t. (ai_payment_intent i, t)) (ai_tax_transaction i))
       (sort_key ai_updated_at (List.filter (\<lambda>i. ai_tax_recorded_at i \<noteq> None \<and> ai_tax_transaction i \<noteq> None \<and>
          ai_tax_reversed_at i = None \<and> refunded d i) (autopay_intents d))))"

definition mark_autopay_tax_reversed :: "time \<Rightarrow> string \<Rightarrow> string \<Rightarrow> db \<Rightarrow> db" where
  "mark_autopay_tax_reversed now intent reversal d =
     d\<lparr> autopay_intents := update_where (\<lambda>i. ai_payment_intent i = intent \<and> ai_tax_reversed_at i = None)
          (\<lambda>i. i\<lparr> ai_tax_reversal := Some reversal, ai_tax_reversed_at := Some now, ai_updated_at := now \<rparr>)
          (autopay_intents d) \<rparr>"

definition unreversible_autopay_tax :: "db \<Rightarrow> string list" where
  "unreversible_autopay_tax d =
     List.map ai_payment_intent (sort_key ai_updated_at (List.filter (\<lambda>i. ai_tax_recorded_at i \<noteq> None \<and>
       ai_tax_transaction i = None \<and> ai_tax_reversed_at i = None \<and> refunded d i) (autopay_intents d)))"

section \<open>Settlement of a recharge\<close>

datatype autopay_outcome = Credited | AutopayAlreadySettled | Unknown | AutopayWithheld

definition set_status :: "time \<Rightarrow> (autopay_intent \<Rightarrow> bool) \<Rightarrow> autopay_status \<Rightarrow> db \<Rightarrow> db" where
  "set_status now P s d =
     d\<lparr> autopay_intents := update_where P (\<lambda>i. i\<lparr> ai_status := s, ai_updated_at := now \<rparr>) (autopay_intents d) \<rparr>"

definition pending_intent :: "string \<Rightarrow> autopay_intent \<Rightarrow> bool" where
  "pending_intent intent i \<longleftrightarrow> ai_payment_intent i = intent \<and> ai_status i = Pending"

text \<open>The credit, conditional on the account still being enabled and eligible.\<close>

definition autopay_credit :: "time \<Rightarrow> uuid \<Rightarrow> money \<Rightarrow> string \<Rightarrow> user \<Rightarrow> db \<Rightarrow> (sql_error, db) result" where
  "autopay_credit now u amount intent x d =
     bind_result (post False RowNotFound u amount
        (entry u now Autopay amount (Some intent) None (Some ''autopay recharge''))
        (d\<lparr> users := (users d)(u \<mapsto> x\<lparr> u_autopay_failures := 0 \<rparr>) \<rparr>))
       (\<lambda>(_, d1). apply_observed_reversals now u intent amount d1)"

text \<open>
  The recovered tuple re-creates a lost row and must agree with a stored one; on a mismatch the row
  is failed, that write is committed, and the call is an error.  INSERT ... ON CONFLICT
  (payment_intent_id) names one conflict only: a second pending row of the user is a unique violation.
\<close>

definition insert_recovered ::
  "time \<Rightarrow> string \<Rightarrow> (uuid \<times> money \<times> money) option \<Rightarrow> db \<Rightarrow> (sql_error, db) result" where
  "insert_recovered now intent recovered d =
     (case recovered of
        None \<Rightarrow> Inr d
      | Some (u, amount, charge) \<Rightarrow>
          let row = new_autopay_intent now intent u amount charge in
          if \<not> autopay_checks row then Inl CHECK_VIOLATION
          else if list_ex (\<lambda>i. ai_payment_intent i = intent) (autopay_intents d) then Inr d
          else if has_pending u d then Inl UNIQUE_VIOLATION
          else Inr (d\<lparr> autopay_intents := autopay_intents d @ [row] \<rparr>))"

definition stored_charge :: "string \<Rightarrow> db \<Rightarrow> (uuid \<times> money \<times> money) option" where
  "stored_charge intent d =
     map_option (\<lambda>i. (ai_user i, ai_amount i, ai_charge i))
       (List.find (\<lambda>i. ai_payment_intent i = intent) (autopay_intents d))"

text \<open>From the conditional move out of pending on; \<^verbatim>\<open>d\<close> is the state a rollback restores.\<close>

definition settle_pending :: "time \<Rightarrow> string \<Rightarrow> db \<Rightarrow> db \<Rightarrow> (sql_error, autopay_outcome) result \<times> db" where
  "settle_pending now intent d d1 =
     (case List.find (pending_intent intent) (autopay_intents d1) of
        None \<Rightarrow> (Inr (if stored_charge intent d1 = None then Unknown else AutopayAlreadySettled), d)
      | Some i \<Rightarrow>
          let d2 = set_status now (pending_intent intent) Succeeded d1;
              u = ai_user i;
              withheld = set_status now (\<lambda>i. ai_payment_intent i = intent) Withheld d2
          in
          (case users d2 u of
             None \<Rightarrow> (Inr AutopayWithheld, withheld)
           | Some x \<Rightarrow>
               if u_autopay_enabled x \<and> autopay_eligible x
               then (case autopay_credit now u (ai_amount i) intent x d2 of
                       Inl e \<Rightarrow> (Inl e, d)
                     | Inr d3 \<Rightarrow> (Inr Credited, d3))
               else (Inr AutopayWithheld, withheld)))"

definition settle_autopay_intent ::
  "time \<Rightarrow> string \<Rightarrow> (uuid \<times> money \<times> money) option \<Rightarrow> db \<Rightarrow> (sql_error, autopay_outcome) result \<times> db" where
  "settle_autopay_intent now intent recovered d =
     (case insert_recovered now intent recovered d of
        Inl e \<Rightarrow> (Inl e, d)
      | Inr d1 \<Rightarrow>
          if recovered \<noteq> None \<and> stored_charge intent d1 \<noteq> recovered
          then (Inl (Protocol ''autopay intent stored amount disagrees with the corroborated collection; refusing to credit''),
                set_status now (pending_intent intent) Failed d1)
          else settle_pending now intent d d1)"

definition bump_failures :: "user \<Rightarrow> user" where
  "bump_failures x =
     x\<lparr> u_autopay_failures := u_autopay_failures x + 1,
        u_autopay_enabled := (u_autopay_enabled x \<and> u_autopay_failures x + 1 < 3) \<rparr>"

definition bump_autopay_failure :: "uuid \<Rightarrow> db \<Rightarrow> db" where
  "bump_autopay_failure u d = d\<lparr> users := (users d)(u := map_option bump_failures (users d u)) \<rparr>"

definition fail_autopay_intent :: "time \<Rightarrow> string \<Rightarrow> db \<Rightarrow> bool \<times> db" where
  "fail_autopay_intent now intent d =
     (case List.find (pending_intent intent) (autopay_intents d) of
        None \<Rightarrow> (False, d)
      | Some i \<Rightarrow> (True, bump_autopay_failure (ai_user i) (set_status now (pending_intent intent) Failed d)))"

definition record_autopay_charge ::
  "time \<Rightarrow> string \<Rightarrow> uuid \<Rightarrow> money \<Rightarrow> money \<Rightarrow> db \<Rightarrow> (sql_error, unit) result \<times> db" where
  "record_autopay_charge now intent u amount charge d =
     transact (\<lambda>d. bind_result (insert_autopay (new_autopay_intent now intent u amount charge) d)
       (\<lambda>(_, d'). Inr ((), d'))) d"

section \<open>Lemmas: the money contract\<close>

lemma set_status_keeps [db_simps]:
  "users (set_status now P s d) = users d" "ledger (set_status now P s d) = ledger d"
  "reservations (set_status now P s d) = reservations d" "api_keys (set_status now P s d) = api_keys d"
  "events (set_status now P s d) = events d" "reversals (set_status now P s d) = reversals d"
  by (simp_all add: set_status_def)

lemma set_status_money [simp]: "money_step d (set_status now P s d)"
  by (simp add: set_status_def)

lemma insert_autopay_money: "insert_autopay i d = Inr (b, d') \<Longrightarrow> money_step d d'"
  by (auto simp: insert_autopay_def split: if_splits)

lemma claim_money [money_steps]: "money_step d (snd (claim_autopay_attempt now u amount charge key d))"
  by (auto simp: claim_autopay_attempt_def split: option.splits intro!: transact_money intro: insert_autopay_money)

lemma record_charge_money [money_steps]: "money_step d (snd (record_autopay_charge now intent u amount charge d))"
  by (auto simp: record_autopay_charge_def bind_result_Inr intro!: transact_money intro: insert_autopay_money)

lemma attach_money [money_steps]: "money_step d (attach_autopay_intent now key intent d)"
  by (simp add: attach_autopay_intent_def Let_def)

lemma tax_money [money_steps]:
  "money_step d (snd (freeze_autopay_tax now intent tax calculation d))"
  "money_step d (freeze_autopay_tax_transaction now intent transaction d)"
  "money_step d (mark_autopay_tax_reversed now intent reversal d)"
  by (auto simp: freeze_autopay_tax_def freeze_autopay_tax_transaction_def mark_autopay_tax_reversed_def Let_def
      split: option.splits)

lemma bump_money [money_steps]: "money_step d (bump_autopay_failure u d)"
  by (rule money_step_frame) (auto simp: bump_autopay_failure_def bump_failures_def option.map_comp comp_def)

lemma fail_money [money_steps]: "money_step d (snd (fail_autopay_intent now intent d))"
  by (auto simp: fail_autopay_intent_def split: option.splits intro: money_step_trans [OF set_status_money bump_money])

lemma autopay_credit_money:
  assumes "autopay_credit now u amount intent x d = Inr d'" "users d u = Some x"
  shows "money_step d d'"
proof -
  define d0 where "d0 = d\<lparr> users := (users d)(u \<mapsto> x\<lparr> u_autopay_failures := 0 \<rparr>) \<rparr>"
  have s0: "money_step d d0"
    by (rule money_step_frame) (auto simp: d0_def assms(2))
  obtain b d1 where p: "post False RowNotFound u amount
        (entry u now Autopay amount (Some intent) None (Some ''autopay recharge'')) d0 = Inr (b, d1)"
    and a: "apply_observed_reversals now u intent amount d1 = Inr d'"
    using assms(1) by (auto simp: autopay_credit_def d0_def [symmetric] bind_result_Inr)
  show ?thesis
    using s0 money_step_post [OF p] apply_observed_money [OF a] money_step_trans by blast
qed

section \<open>Lemmas: a charge settles once\<close>

lemma set_status_ball:
  "(\<forall>i \<in> set (autopay_intents (set_status now P s d)). Q i) \<longleftrightarrow>
     (\<forall>j \<in> set (autopay_intents d). Q (if P j then j\<lparr> ai_status := s, ai_updated_at := now \<rparr> else j))"
  unfolding set_status_def by (auto simp: set_update_where)

lemma set_status_bex:
  "(\<exists>i \<in> set (autopay_intents (set_status now P s d)). Q i) \<longleftrightarrow>
     (\<exists>j \<in> set (autopay_intents d). Q (if P j then j\<lparr> ai_status := s, ai_updated_at := now \<rparr> else j))"
  unfolding set_status_def by (auto simp: set_update_where)

text \<open>The outcome of a settle, case by case.\<close>

definition withhold :: "time \<Rightarrow> string \<Rightarrow> db \<Rightarrow> db" where
  "withhold now intent d1 = set_status now (\<lambda>i. ai_payment_intent i = intent) Withheld
     (set_status now (pending_intent intent) Succeeded d1)"

lemma insert_recovered_Inr:
  "insert_recovered now intent recovered d = Inr d1 \<Longrightarrow>
     ledger d1 = ledger d \<and> users d1 = users d \<and>
     (d1 = d \<or> (\<exists>i. d1 = d\<lparr> autopay_intents := autopay_intents d @ [i] \<rparr>))"
  by (auto simp: insert_recovered_def Let_def split: option.splits if_splits)

lemma settle_pending_cases:
  assumes "settle_pending now intent d d1 = (r, d')"
  obtains (none) "List.find (pending_intent intent) (autopay_intents d1) = None" "d' = d"
      "r = Inr Unknown \<or> r = Inr AutopayAlreadySettled"
  | (withheld) i where "List.find (pending_intent intent) (autopay_intents d1) = Some i"
      "r = Inr AutopayWithheld" "d' = withhold now intent d1"
  | (failed) e where "r = Inl e" "d' = d"
  | (credited) i x where "List.find (pending_intent intent) (autopay_intents d1) = Some i" "r = Inr Credited"
      "users d1 (ai_user i) = Some x" "u_autopay_enabled x" "autopay_eligible x"
      "autopay_credit now (ai_user i) (ai_amount i) intent x (set_status now (pending_intent intent) Succeeded d1) = Inr d'"
  using assms unfolding settle_pending_def Let_def withhold_def [symmetric]
  by (auto simp: set_status_keeps split: option.splits if_splits sum.splits)

lemma settle_autopay_cases:
  assumes "settle_autopay_intent now intent recovered d = (r, d')"
  obtains (error) e where "r = Inl e" "users d' = users d" "ledger d' = ledger d"
  | (pending) d1 where "insert_recovered now intent recovered d = Inr d1" "settle_pending now intent d d1 = (r, d')"
  using assms unfolding settle_autopay_intent_def
  by (auto simp: set_status_keeps split: sum.splits if_splits dest: insert_recovered_Inr)

lemma withhold_keeps [db_simps]: "users (withhold now intent d) = users d" "ledger (withhold now intent d) = ledger d"
  by (simp_all add: withhold_def set_status_keeps)

lemma settle_autopay_money [money_steps]: "money_step d (snd (settle_autopay_intent now intent recovered d))"
proof -
  obtain r d' where s: "settle_autopay_intent now intent recovered d = (r, d')"
    by fastforce
  have "money_step d d'"
    using s
  proof (cases rule: settle_autopay_cases)
    case (error e)
    then show ?thesis
      by (auto intro: money_step_same)
  next
    case (pending d1)
    note same = insert_recovered_Inr [OF pending(1)]
    show ?thesis
      using pending(2)
    proof (cases rule: settle_pending_cases)
      case (credited i x)
      have "money_step d (set_status now (pending_intent intent) Succeeded d1)"
        by (rule money_step_same) (simp_all add: set_status_keeps same)
      moreover have "money_step (set_status now (pending_intent intent) Succeeded d1) d'"
        by (rule autopay_credit_money [OF credited(6)]) (simp add: set_status_keeps credited(3))
      ultimately show ?thesis
        by (rule money_step_trans)
    qed (auto intro: money_step_same simp: db_simps same)
  qed
  then show ?thesis
    by (simp add: s)
qed

text \<open>What a credited charge posts: one autopay row under its payment intent.\<close>

lemma autopay_credit_posts:
  assumes "autopay_credit now u amount intent x d = Inr d'"
  shows "\<exists>l \<in> set (ledger d'). l_type l = Autopay \<and> l_session l = Some intent \<and> l_amount l = amount \<and> l_user l = u"
proof -
  obtain b d1 where p: "post False RowNotFound u amount
        (entry u now Autopay amount (Some intent) None (Some ''autopay recharge''))
        (d\<lparr> users := (users d)(u \<mapsto> x\<lparr> u_autopay_failures := 0 \<rparr>) \<rparr>) = Inr (b, d1)"
    and a: "apply_observed_reversals now u intent amount d1 = Inr d'"
    using assms by (auto simp: autopay_credit_def bind_result_Inr)
  have "\<exists>l \<in> set (ledger d1). l_type l = Autopay \<and> l_session l = Some intent \<and> l_amount l = amount \<and> l_user l = u"
    by (rule post_Inr [OF p]) auto
  moreover have "ledger_grows d1 d'"
    using apply_observed_money [OF a] by (simp add: money_step_def)
  ultimately show ?thesis
    by (auto simp: ledger_grows_def)
qed

text \<open>A reversal tombstone is stamped in the tombstone table only; recharge rows are not touched by it.\<close>

lemma post_keeps:
  "post flag missing u delta (entry u now ty delta s i n) d = Inr (b, d') \<Longrightarrow>
     autopay_intents d' = autopay_intents d \<and> reservations d' = reservations d \<and> events d' = events d \<and>
     api_keys d' = api_keys d \<and> reversals d' = reversals d \<and> rollup d' = rollup d"
  by (erule post_Inr) simp

lemma freeze_rollup [db_simps]: "rollup (snd (freeze_account now u reason d)) = rollup d"
  by (auto simp: freeze_account_def split: option.splits)

lemma apply_one_keeps:
  "apply_one_reversal now u intent credited o' d = Inr d' \<Longrightarrow>
     autopay_intents d' = autopay_intents d \<and> reservations d' = reservations d \<and> events d' = events d \<and>
     api_keys d' = api_keys d \<and> rollup d' = rollup d"
  by (auto simp: apply_one_reversal_def Let_def bind_result_Inr db_simps split: if_splits dest!: post_keeps)

lemma apply_reversals_keeps:
  "apply_reversals now u intent credited os d = Inr d' \<Longrightarrow>
     autopay_intents d' = autopay_intents d \<and> reservations d' = reservations d \<and> events d' = events d \<and>
     api_keys d' = api_keys d \<and> rollup d' = rollup d"
  by (induction os arbitrary: d) (auto simp: bind_result_Inr dest!: apply_one_keeps)

lemma autopay_credit_keeps:
  assumes "autopay_credit now u amount intent x d = Inr d'"
  shows "autopay_intents d' = autopay_intents d \<and> reservations d' = reservations d \<and> events d' = events d \<and>
     api_keys d' = api_keys d \<and> rollup d' = rollup d"
  using assms
  by (auto simp: autopay_credit_def bind_result_Inr apply_observed_reversals_def dest!: post_keeps apply_reversals_keeps)

definition intent_final :: "string \<Rightarrow> db \<Rightarrow> bool" where
  "intent_final intent d \<longleftrightarrow>
     (\<exists>i \<in> set (autopay_intents d). ai_payment_intent i = intent) \<and>
     (\<forall>i \<in> set (autopay_intents d). ai_payment_intent i = intent \<longrightarrow> ai_status i \<noteq> Pending)"

lemma settle_final_noop:
  assumes "intent_final intent d" "settle_autopay_intent now intent recovered d = (r, d')"
  shows "users d' = users d" "ledger d' = ledger d" "r \<noteq> Inr Credited"
proof -
  have ex: "list_ex (\<lambda>i. ai_payment_intent i = intent) (autopay_intents d)"
    using assms by (auto simp: intent_final_def list_ex_iff)
  have none: "List.find (pending_intent intent) (autopay_intents d) = None"
    using assms by (auto simp: intent_final_def find_None_iff pending_intent_def)
  have d1: "insert_recovered now intent recovered d = Inr d1 \<Longrightarrow> d1 = d" for d1
    by (auto simp: insert_recovered_def ex Let_def split: option.splits if_splits)
  have "users d' = users d \<and> ledger d' = ledger d \<and> r \<noteq> Inr Credited"
    using assms(2)
  proof (cases rule: settle_autopay_cases)
    case (pending d1)
    show ?thesis
      using pending(2) by (cases rule: settle_pending_cases) (auto simp: d1 [OF pending(1)] none)
  qed auto
  then show "users d' = users d" "ledger d' = ledger d" "r \<noteq> Inr Credited"
    by simp_all
qed

lemma settle_makes_final:
  assumes "settle_autopay_intent now intent recovered d = (Inr out, d')" "out = Credited \<or> out = AutopayWithheld"
  shows "intent_final intent d'"
  using assms(1)
proof (cases rule: settle_autopay_cases)
  case (pending d1)
  define d2 where "d2 = set_status now (pending_intent intent) Succeeded d1"
  have f2: "intent_final intent d2" if "List.find (pending_intent intent) (autopay_intents d1) = Some i" for i
    using find_SomeD [OF that] unfolding intent_final_def d2_def set_status_ball set_status_bex
    by (auto simp: pending_intent_def intro!: bexI [of _ i])
  show ?thesis
    using pending(2)
  proof (cases rule: settle_pending_cases)
    case none
    then show ?thesis
      using assms(2) by auto
  next
    case (withheld i)
    show ?thesis
      using f2 [OF withheld(1)] unfolding withheld(3) withhold_def d2_def [symmetric]
      unfolding intent_final_def set_status_ball set_status_bex by auto
  next
    case (failed e)
    then show ?thesis
      by simp
  next
    case (credited i x)
    show ?thesis
      using f2 [OF credited(1)] autopay_credit_keeps [OF credited(6)] by (simp add: d2_def intent_final_def)
  qed
qed simp

end
