(* ===== verification/Ledger.thy ===== *)
theory Ledger
  imports Autopay
begin

text \<open>
  The money operations together.  Every database operation of admission, settlement, billing and
  recharge is one constructor, \<^verbatim>\<open>run_op\<close> runs it, and the contract of \<^verbatim>\<open>Schema\<close>
  holds for all of them.  A second, narrower transition system, the prepaid machine, leaves out the
  operations that take credit back, and shows that a balance always covers what is reserved.
\<close>

section \<open>All operations\<close>

datatype (plugins only: code size) db_op =
    OpAdmit time uuid admission_request
  | OpDispatch time uuid uuid
  | OpPersist time usage_session settlement_intent
  | OpSettle time uuid uuid settlement_intent
  | OpFree time usage_session usage_record
  | OpSettleFailure time uuid sql_error
  | OpRecoverOwed time int
  | OpRecoverQuarantined time uuid
  | OpRelease time uuid string bool
  | OpCheckout time string uuid int money string
  | OpSettleCheckout time string
  | OpSweepCheckouts bool time int int
  | OpCredit time uuid money string "string option"
  | OpPromo time uuid money string
  | OpFreeze time uuid freeze_reason
  | OpUnfreeze uuid
  | OpReverse time string string string
  | OpResolveReversal time string string bool "int option" "string option"
  | OpMarkApplied time string
  | OpWriteOff time uuid string
  | OpRecovery time uuid money string
  | OpClaim time uuid money money string
  | OpAttach time string string
  | OpFreezeTax time string money "string option"
  | OpTaxTransaction time string string
  | OpTaxReversed time string string
  | OpSettleAutopay time string "(uuid \<times> money \<times> money) option"
  | OpFailAutopay time string
  | OpBumpFailure uuid
  | OpRecordCharge time string uuid money money

primrec run_op :: "decimal_ops \<Rightarrow> decimal_text \<Rightarrow> calendar \<Rightarrow> db_op \<Rightarrow> db \<Rightarrow> db" where
  "run_op D T cal (OpAdmit now fresh q) d = snd (begin_usage_session cal now fresh q d)"
| "run_op D T cal (OpDispatch now rid kid) d = dispatch_update now rid kid d"
| "run_op D T cal (OpPersist now s i) d = persist_intent now s i d"
| "run_op D T cal (OpSettle now rid kid i) d = snd (settle_once D T cal now rid kid i d)"
| "run_op D T cal (OpFree now s r) d = observe_free_usage D cal now s r d"
| "run_op D T cal (OpSettleFailure now rid e) d = snd (record_settle_failure T now rid e d)"
| "run_op D T cal (OpRecoverOwed now limit) d = snd (recover_owed_settlements D T cal now limit d)"
| "run_op D T cal (OpRecoverQuarantined now rid) d = snd (recover_quarantined_settlement D T cal now rid d)"
| "run_op D T cal (OpRelease now rid note forgive) d = snd (release_quarantined_reservation now rid note forgive d)"
| "run_op D T cal (OpCheckout now session u cents credit currency) d =
     snd (record_checkout_intent now session u cents credit currency d)"
| "run_op D T cal (OpSettleCheckout now session) d = snd (settle_checkout_intent now session d)"
| "run_op D T cal (OpSweepCheckouts acquired now days limit) d =
     snd (sweep_expired_checkout_intents acquired now days limit d)"
| "run_op D T cal (OpCredit now u amount session intent) d = snd (credit_purchase now u amount session intent d)"
| "run_op D T cal (OpPromo now u amount note) d = snd (grant_promo now u amount note d)"
| "run_op D T cal (OpFreeze now u reason) d = snd (freeze_account now u reason d)"
| "run_op D T cal (OpUnfreeze u) d = snd (unfreeze_account u d)"
| "run_op D T cal (OpReverse now intent obj note) d = snd (reverse_purchase now intent obj note d)"
| "run_op D T cal (OpResolveReversal now obj intent dispute cents currency) d =
     snd (resolve_reversal_against_credit now obj intent dispute cents currency d)"
| "run_op D T cal (OpMarkApplied now intent) d = snd (mark_intent_reversals_applied now intent d)"
| "run_op D T cal (OpWriteOff now u note) d = snd (write_off_receivable now u note d)"
| "run_op D T cal (OpRecovery now u amount note) d = snd (record_recovery now u amount note d)"
| "run_op D T cal (OpClaim now u amount charge key) d = snd (claim_autopay_attempt now u amount charge key d)"
| "run_op D T cal (OpAttach now key intent) d = attach_autopay_intent now key intent d"
| "run_op D T cal (OpFreezeTax now intent tax calculation) d = snd (freeze_autopay_tax now intent tax calculation d)"
| "run_op D T cal (OpTaxTransaction now intent transaction) d = freeze_autopay_tax_transaction now intent transaction d"
| "run_op D T cal (OpTaxReversed now intent reversal) d = mark_autopay_tax_reversed now intent reversal d"
| "run_op D T cal (OpSettleAutopay now intent recovered) d = snd (settle_autopay_intent now intent recovered d)"
| "run_op D T cal (OpFailAutopay now intent) d = snd (fail_autopay_intent now intent d)"
| "run_op D T cal (OpBumpFailure u) d = bump_autopay_failure u d"
| "run_op D T cal (OpRecordCharge now intent u amount charge) d =
     snd (record_autopay_charge now intent u amount charge d)"

section \<open>Every operation honours the money contract\<close>

lemma admit_money [money_steps]: "money_step d (snd (begin_usage_session cal now fresh q d))"
proof -
  obtain out d' where "begin_usage_session cal now fresh q d = (out, d')"
    by fastforce
  from begin_frame [OF this] this show ?thesis
    by (simp add: money_step_same)
qed

lemma settle_money_step [money_steps]: "money_step d (snd (settle_once D T cal now rid kid i d))"
  by (simp add: money_step_def settle_once_money)

lemma dispatch_money [money_steps]: "money_step d (dispatch_update now rid kid d)"
  by (simp add: dispatch_update_def)

lemma persist_money [money_steps]: "money_step d (persist_intent now s i d)"
  by (simp add: persist_intent_def)

lemma free_money [money_steps]: "money_step d (observe_free_usage D cal now s r d)"
  by (auto simp: observe_free_usage_def insert_event_def split: sum.splits if_splits intro: money_step_same)

lemma failure_money [money_steps]: "money_step d (snd (record_settle_failure T now rid e d))"
  by (auto simp: record_settle_failure_def split: option.splits)

lemma quarantine_money [money_steps]: "money_step d (quarantine_settlement now rid reason d)"
  by (simp add: quarantine_settlement_def)

lemma recover_row_money: "money_step d (snd (recover_row D T cal now row (summary, d)))"
proof -
  have fail: "money_step d (snd (record_settle_failure T now (r_id row) e d'))"
    if "settle_once D T cal now (r_id row) (r_key row) i d = (r, d')" for i r d' e
    using money_step_trans [OF settle_money_step failure_money] that by (metis snd_conv)
  have ok: "money_step d d'" if "settle_once D T cal now (r_id row) (r_key row) i d = (r, d')" for i r d'
    using settle_money_step that by (metis snd_conv)
  have out: "snd (case record_settle_failure T now (r_id row) e d' of
                      (Inr (Some True), d'') \<Rightarrow> (x, d'') | (_, d'') \<Rightarrow> (y, d''))
      = snd (record_settle_failure T now (r_id row) e d')" for e d' and x y :: settlement_recovery
    by (auto split: prod.splits sum.splits option.splits bool.splits)
  show ?thesis
    by (auto simp: recover_row_def out quarantine_money
        split: option.splits payload.splits sum.splits prod.splits settle_outcome.splits intro: fail ok)
qed

lemma recover_owed_money [money_steps]: "money_step d (snd (recover_owed_settlements D T cal now limit d))"
proof -
  have "money_step d (snd (fold (recover_row D T cal now) rows (summary, d)))" for rows summary d
  proof (induction rows arbitrary: summary d)
    case (Cons row rows)
    obtain s' d' where r: "recover_row D T cal now row (summary, d) = (s', d')"
      by fastforce
    show ?case
      using money_step_trans [OF recover_row_money [of d D T cal now row summary, unfolded r snd_conv] Cons.IH]
      by (simp add: r)
  qed simp
  then show ?thesis
    by (simp add: recover_owed_settlements_def)
qed

lemma recover_quarantined_money [money_steps]:
  "money_step d (snd (recover_quarantined_settlement D T cal now rid d))"
proof -
  have ok: "money_step d d'" if "settle_once D T cal now a b i d = (r, d')" for a b i r d'
    using settle_money_step that by (metis snd_conv)
  show ?thesis
    by (auto simp: recover_quarantined_settlement_def
        split: option.splits payload.splits sum.splits prod.splits settle_outcome.splits intro: ok)
qed

lemma release_money [money_steps]: "money_step d (snd (release_quarantined_reservation now rid note forgive d))"
  by (auto simp: release_quarantined_reservation_def Let_def split: option.splits)

lemma run_op_money: "money_step d (run_op D T cal p d)"
  by (cases p) (simp_all add: money_steps)

interpretation ledger: money_operation "run_op D T cal" for D T cal
  using run_op_money by unfold_locales (auto simp: money_step_def)

section \<open>Tombstones take a credit back at most once\<close>

definition refund_on :: "string \<Rightarrow> db \<Rightarrow> bool" where
  "refund_on intent d \<longleftrightarrow> (\<exists>l \<in> set (ledger d). l_type l = Refund \<and> l_payment_intent l = Some intent)"

lemma apply_one_balance:
  assumes "apply_one_reversal now u intent credited o' d = Inr d'" "0 \<le> credited" "users d v = Some x"
  shows "\<exists>y. users d' v = Some y \<and>
    u_balance x - (if v = u \<and> \<not> refund_on intent d \<and> refund_on intent d' then credited else 0) \<le> u_balance y"
    and "refund_on intent d \<Longrightarrow> refund_on intent d'"
proof -
  define d1 where "d1 = (if o_is_dispute o' then snd (freeze_account now u Dispute d) else d)"
  have l1: "ledger d1 = ledger d"
    by (simp add: d1_def freeze_keeps)
  have "\<exists>x1. users d1 v = Some x1 \<and> u_balance x1 = u_balance x"
    using assms(3) unfolding d1_def freeze_account_def by (auto split: option.splits)
  then obtain x1 where x1: "users d1 v = Some x1" "u_balance x1 = u_balance x"
    by blast
  obtain d2 where d2: "(if covers credited o' \<and> \<not> list_ex (reversed_already (o_object o') intent) (ledger d1)
         then bind_result
                (post True RowNotFound u (- credited)
                   (entry u now Refund (- credited) (Some (o_object o')) (Some intent) (Some (reversal_note o'))) d1)
                (\<lambda>(_, d2). Inr d2)
         else Inr d1) = Inr d2"
    and d': "users d' = users d2" "ledger d' = ledger d2"
    using assms(1) by (auto simp: apply_one_reversal_def Let_def d1_def [symmetric] bind_result_Inr)
  show "refund_on intent d \<Longrightarrow> refund_on intent d'"
    using d2 d' l1 by (auto simp: refund_on_def bind_result_Inr split: if_splits elim!: post_Inr)
  show "\<exists>y. users d' v = Some y \<and>
    u_balance x - (if v = u \<and> \<not> refund_on intent d \<and> refund_on intent d' then credited else 0) \<le> u_balance y"
  proof (cases "covers credited o' \<and> \<not> list_ex (reversed_already (o_object o') intent) (ledger d1)")
    case False
    then have "d2 = d1"
      using d2 by auto
    then show ?thesis
      using x1 d' assms(2) by auto
  next
    case True
    then have no: "\<not> refund_on intent d"
      by (auto simp: refund_on_def reversed_already_def list_ex_iff l1)
    obtain b where p: "post True RowNotFound u (- credited)
        (entry u now Refund (- credited) (Some (o_object o')) (Some intent) (Some (reversal_note o'))) d1 = Inr (b, d2)"
      using d2 True by (auto simp: bind_result_Inr)
    show ?thesis
      using p
    proof (rule post_Inr)
      fix z l
      assume z: "users d1 u = Some z" "b = u_balance z + - credited"
          "l = entry u now Refund (- credited) (Some (o_object o')) (Some intent) (Some (reversal_note o')) b"
          "d2 = d1\<lparr> users := (users d1)(u \<mapsto> z\<lparr> u_balance := b \<rparr>), ledger := ledger d1 @ [l] \<rparr>"
      have "refund_on intent d'"
        using z by (auto simp: refund_on_def d')
      then show ?thesis
        using z x1 no by (auto simp: d')
    qed
  qed
qed

lemma apply_reversals_balance:
  assumes "apply_reversals now u intent credited os d = Inr d'" "0 \<le> credited" "users d v = Some x"
  shows "\<exists>y. users d' v = Some y \<and>
    u_balance x - (if v = u \<and> \<not> refund_on intent d \<and> refund_on intent d' then credited else 0) \<le> u_balance y \<and>
    (refund_on intent d \<longrightarrow> refund_on intent d')"
  using assms
proof (induction os arbitrary: d x)
  case Nil
  then show ?case
    by auto
next
  case (Cons o' os)
  obtain d1 where d1: "apply_one_reversal now u intent credited o' d = Inr d1"
    "apply_reversals now u intent credited os d1 = Inr d'"
    using Cons.prems(1) by (auto simp: bind_result_Inr)
  obtain y where y: "users d1 v = Some y"
    "u_balance x - (if v = u \<and> \<not> refund_on intent d \<and> refund_on intent d1 then credited else 0) \<le> u_balance y"
    using apply_one_balance(1) [OF d1(1) Cons.prems(2,3)] by blast
  note r = apply_one_balance(2) [OF d1(1) Cons.prems(2,3)]
  obtain z where z: "users d' v = Some z"
    "u_balance y - (if v = u \<and> \<not> refund_on intent d1 \<and> refund_on intent d' then credited else 0) \<le> u_balance z"
    "refund_on intent d1 \<longrightarrow> refund_on intent d'"
    using Cons.IH [OF d1(2) Cons.prems(2) y(1)] by blast
  show ?case
    using y z r by (intro exI [of _ z]) (auto split: if_splits)
qed

section \<open>The rows that anchor a credit, a reversal and a recharge\<close>

lemma find_append: "List.find P xs = Some x \<Longrightarrow> List.find P (xs @ ys) = Some x"
  by (induction xs) auto

lemma credit_purchase_row:
  assumes "credit_purchase now u amount session intent d = (Inr (Applied b), d1)"
  shows "\<exists>l \<in> set (ledger d1). l_session l = Some session"
proof -
  obtain d0 where p: "post False (Protocol ''credit purchase found no such user'') u amount
        (entry u now Purchase amount (Some session) intent None) d = Inr (b, d0)"
    and a: "(case intent of None \<Rightarrow> Inr d0 | Some p \<Rightarrow> apply_observed_reversals now u p amount d0) = Inr d1"
    using assms by (auto simp: credit_purchase_def transact_def bind_result_Inr split: if_splits sum.splits)
  have "ledger_grows d0 d1"
    using a apply_observed_money by (auto simp: money_step_def split: option.splits)
  moreover from p have "\<exists>l \<in> set (ledger d0). l_session l = Some session"
    by (rule post_Inr) auto
  ultimately show ?thesis
    by (auto simp: ledger_grows_def)
qed

lemma reverse_purchase_Reversed:
  assumes "reverse_purchase now intent obj memo d = (Inr (Reversed amount balance), d1)"
  shows "\<exists>c x l. credited_purchase intent d = Some c \<and> amount = l_amount c \<and> users d (l_user c) = Some x \<and>
      balance = u_balance x - amount \<and> users d1 = (users d)(l_user c \<mapsto> x\<lparr> u_balance := balance \<rparr>) \<and>
      ledger d1 = ledger d @ [l] \<and> l_type l = Refund \<and> l_payment_intent l = Some intent"
proof -
  obtain c where c: "credited_purchase intent d = Some c"
    using assms by (auto simp: reverse_purchase_def split: if_splits option.splits)
  have amount: "amount = l_amount c" and p: "post True (Protocol ''credit reversal found no such user'') (l_user c) (- l_amount c)
      (entry (l_user c) now Refund (- l_amount c) (Some obj) (Some intent) (Some memo)) d = Inr (balance, d1)"
    using assms c by (auto simp: reverse_purchase_def transact_def bind_result_Inr split: if_splits sum.splits)
  from p show ?thesis
    by (rule post_Inr) (simp add: c amount)
qed

lemma recharge_credit:
  assumes "settle_autopay_intent now intent recovered d = (Inr Credited, d1)"
  obtains u amount x e where "ledger e = ledger d" "autopay_credit now u amount intent x e = Inr d1"
  using assms
proof (rule settle_autopay_cases)
  fix e
  assume e: "insert_recovered now intent recovered d = Inr e" "settle_pending now intent d e = (Inr Credited, d1)"
  from e(2) show thesis
  proof (rule settle_pending_cases)
    fix i x
    assume "autopay_credit now (ai_user i) (ai_amount i) intent x (set_status now (pending_intent intent) Succeeded e) = Inr d1"
    moreover have "ledger (set_status now (pending_intent intent) Succeeded e) = ledger d"
      using insert_recovered_Inr [OF e(1)] by (simp add: db_simps)
    ultimately show thesis
      using that by blast
  qed auto
qed auto

lemma recharge_row:
  assumes "settle_autopay_intent now intent recovered d = (Inr Credited, d1)"
  shows "\<exists>l \<in> set (ledger d1). l_session l = Some intent"
  using assms by (rule recharge_credit) (use autopay_credit_posts in blast)

text \<open>The ledger's unique session anchor is what stops a second credit.\<close>

lemma recharge_fresh:
  assumes "settle_autopay_intent now intent recovered d = (Inr Credited, d1)" "l \<in> set (ledger d)"
  shows "l_session l \<noteq> Some intent"
  using assms(1)
proof (rule recharge_credit)
  fix u amount x e
  assume e: "ledger e = ledger d" "autopay_credit now u amount intent x e = Inr d1"
  define e' where "e' = e\<lparr> users := (users e)(u \<mapsto> x\<lparr> u_autopay_failures := 0 \<rparr>) \<rparr>"
  obtain b d2 where "post False RowNotFound u amount
      (entry u now Autopay amount (Some intent) None (Some ''autopay recharge'')) e' = Inr (b, d2)"
    using e(2) by (auto simp: autopay_credit_def bind_result_Inr e'_def)
  then show ?thesis
    by (rule post_Inr) (use assms(2) e(1) in \<open>auto simp: posts_def ledger_unique_def list_all_iff e'_def\<close>)
qed

lemma withheld_frame:
  assumes "settle_autopay_intent now intent recovered d = (Inr AutopayWithheld, d1)"
  shows "users d1 = users d \<and> ledger d1 = ledger d"
  using assms
proof (rule settle_autopay_cases)
  fix e
  assume e: "insert_recovered now intent recovered d = Inr e" "settle_pending now intent d e = (Inr AutopayWithheld, d1)"
  from e(2) show ?thesis
    by (rule settle_pending_cases) (use insert_recovered_Inr [OF e(1)] in \<open>auto simp: db_simps\<close>)
qed auto

end
