(* ===== verification/Prepaid.thy ===== *)
theory Prepaid
  imports Ledger
begin

text \<open>
  The prepaid machine: admission, dispatch, settlement and every operation that gives credit, as a
  transition system over the clock and the database.  Its invariant is that every balance covers
  what its user's live and owed reservations hold, up to what settles and intents took that came after
  their reservation had expired; so a settle of a live reservation is never refused by the overdraft
  trigger on an account without such a late settle.  Operations that take credit back (a refund or a chargeback) are
  not steps of this machine: they are what the receivable workflow is for.
\<close>

section \<open>Operations that only give\<close>

text \<open>
  Reservations, keys and events are untouched, no balance is lowered, and the ledger grows by
  entries that belong to no request.
\<close>

definition credit_like :: "db \<Rightarrow> db \<Rightarrow> bool" where
  "credit_like d d' \<longleftrightarrow>
     reservations d' = reservations d \<and> api_keys d' = api_keys d \<and> events d' = events d \<and>
     (\<forall>v y. users d' v = Some y \<longrightarrow> (\<exists>x. users d v = Some x \<and> u_balance x \<le> u_balance y)) \<and>
     (\<forall>l \<in> set (ledger d'). l \<in> set (ledger d) \<or> l_request l = None)"

lemma credit_like_refl [simp]: "credit_like d d"
  by (auto simp: credit_like_def)

lemma credit_like_frame:
  assumes "reservations d' = reservations d" "api_keys d' = api_keys d" "events d' = events d" "ledger d' = ledger d"
    and "\<And>v. map_option u_balance (users d' v) = map_option u_balance (users d v)"
  shows "credit_like d d'"
proof -
  have "\<exists>x. users d v = Some x \<and> u_balance x \<le> u_balance y" if "users d' v = Some y" for v y
    using assms(5) [of v] that by (cases "users d v") auto
  then show ?thesis
    using assms(1-4) by (auto simp: credit_like_def)
qed

lemma credit_like_post:
  assumes "post flag missing u delta (entry u now ty delta s i n) d = Inr (b, d')" "0 \<le> delta"
  shows "credit_like d d'"
  using assms(1)
proof (rule post_Inr)
  fix x l
  assume "users d u = Some x" "b = u_balance x + delta" "l = entry u now ty delta s i n b"
    "d' = d\<lparr> users := (users d)(u \<mapsto> x\<lparr> u_balance := b \<rparr>), ledger := ledger d @ [l] \<rparr>"
  then show ?thesis
    using assms(2) by (auto simp: credit_like_def)
qed

lemma apply_one_requests:
  "apply_one_reversal now u intent credited o' d = Inr d' \<Longrightarrow> \<forall>l \<in> set (ledger d'). l \<in> set (ledger d) \<or> l_request l = None"
  by (auto simp: apply_one_reversal_def Let_def bind_result_Inr db_simps freeze_keeps split: if_splits elim!: post_Inr)

lemma apply_reversals_requests:
  "apply_reversals now u intent credited os d = Inr d' \<Longrightarrow> \<forall>l \<in> set (ledger d'). l \<in> set (ledger d) \<or> l_request l = None"
proof (induction os arbitrary: d)
  case (Cons o' os)
  then show ?case
    using apply_one_requests by (fastforce simp: bind_result_Inr)
qed simp

lemma apply_one_users:
  "apply_one_reversal now u intent credited o' d = Inr d' \<Longrightarrow> users d' v = None \<longleftrightarrow> users d v = None"
  by (auto simp: apply_one_reversal_def Let_def bind_result_Inr freeze_account_def split: if_splits option.splits elim!: post_Inr)

lemma apply_reversals_users:
  "apply_reversals now u intent credited os d = Inr d' \<Longrightarrow> users d' v = None \<longleftrightarrow> users d v = None"
proof (induction os arbitrary: d)
  case (Cons o' os)
  then show ?case
    using apply_one_users by (fastforce simp: bind_result_Inr)
qed simp

text \<open>A credit followed by the tombstones waiting for it never leaves the account poorer than before.\<close>

lemma credit_then_reversals:
  assumes p: "post False missing u amount (entry u now ty amount s i n) d = Inr (b, d1)" "0 \<le> amount"
    and a: "apply_observed_reversals now u intent amount d1 = Inr d2"
  shows "credit_like d d2"
proof -
  note keep = apply_reversals_keeps [OF a [unfolded apply_observed_reversals_def]] post_keeps [OF p(1)]
  have bal: "\<exists>x. users d v = Some x \<and> u_balance x \<le> u_balance y" if y: "users d2 v = Some y" for v y
  proof -
    obtain z where z: "users d1 v = Some z"
      using apply_reversals_users [OF a [unfolded apply_observed_reversals_def], of v] y
      by (cases "users d1 v") auto
    have zy: "u_balance z - (if v = u then amount else 0) \<le> u_balance y"
      using apply_reversals_balance [OF a [unfolded apply_observed_reversals_def] p(2) z] y p(2)
      by (auto split: if_splits)
    have "\<exists>x. users d v = Some x \<and> u_balance x + (if v = u then amount else 0) = u_balance z"
      using p(1) by (rule post_Inr) (use z in \<open>auto split: if_splits\<close>)
    then show ?thesis
      using zy by (auto split: if_splits)
  qed
  have "\<forall>l \<in> set (ledger d1). l \<in> set (ledger d) \<or> l_request l = None"
    using credit_like_post [OF p] by (simp add: credit_like_def)
  then have led: "\<forall>l \<in> set (ledger d2). l \<in> set (ledger d) \<or> l_request l = None"
    using apply_reversals_requests [OF a [unfolded apply_observed_reversals_def]] by metis
  show ?thesis
    using keep bal led by (simp add: credit_like_def)
qed

primrec credit_op :: "db_op \<Rightarrow> bool" where
  "credit_op (OpAdmit a b c) = False"
| "credit_op (OpDispatch a b c) = False"
| "credit_op (OpPersist a b c) = False"
| "credit_op (OpSettle a b c d) = False"
| "credit_op (OpFree a b c) = False"
| "credit_op (OpSettleFailure a b c) = False"
| "credit_op (OpRecoverOwed a b) = False"
| "credit_op (OpRecoverQuarantined a b) = False"
| "credit_op (OpRelease a b c d) = False"
| "credit_op (OpCheckout a b c d e f) = True"
| "credit_op (OpSettleCheckout a b) = True"
| "credit_op (OpSweepCheckouts a b c d) = True"
| "credit_op (OpCredit a b c d e) = True"
| "credit_op (OpPromo a b c d) = True"
| "credit_op (OpFreeze a b c) = True"
| "credit_op (OpUnfreeze a) = True"
| "credit_op (OpReverse a b c d) = False"
| "credit_op (OpResolveReversal a b c d e f) = False"
| "credit_op (OpMarkApplied a b) = False"
| "credit_op (OpWriteOff a b c) = True"
| "credit_op (OpRecovery a b c d) = True"
| "credit_op (OpClaim a b c d e) = True"
| "credit_op (OpAttach a b c) = True"
| "credit_op (OpFreezeTax a b c d) = True"
| "credit_op (OpTaxTransaction a b c) = True"
| "credit_op (OpTaxReversed a b c) = True"
| "credit_op (OpSettleAutopay a b c) = True"
| "credit_op (OpFailAutopay a b) = True"
| "credit_op (OpBumpFailure a) = True"
| "credit_op (OpRecordCharge a b c d e) = True"

lemma transact_credit:
  "(\<And>x d'. body d = Inr (x, d') \<Longrightarrow> credit_like d d') \<Longrightarrow> credit_like d (snd (transact body d))"
  by (auto simp: transact_def split: sum.splits)

lemma credit_purchase_credit: "credit_like d (snd (credit_purchase now u amount session intent d))"
proof -
  have step: "credit_like d d2"
    if p: "post False e u amount (entry u now Purchase amount (Some session) intent None) d = Inr (b, d1)" "\<not> amount \<le> 0"
      and a: "(case intent of None \<Rightarrow> Inr d1 | Some p \<Rightarrow> apply_observed_reversals now u p amount d1) = Inr d2"
    for e b d1 d2
    using credit_like_post [OF p(1)] credit_then_reversals [OF p(1)] p(2) a by (cases intent) auto
  show ?thesis
    unfolding credit_purchase_def by (auto simp: bind_result_Inr intro!: transact_credit intro: step)
qed

lemma autopay_credit_credit:
  assumes "autopay_credit now u amount intent x d = Inr d'" "users d u = Some x" "0 \<le> amount"
  shows "credit_like d d'"
proof -
  define d0 where "d0 = d\<lparr> users := (users d)(u \<mapsto> x\<lparr> u_autopay_failures := 0 \<rparr>) \<rparr>"
  obtain b d1 where p: "post False RowNotFound u amount
        (entry u now Autopay amount (Some intent) None (Some ''autopay recharge'')) d0 = Inr (b, d1)"
    and a: "apply_observed_reversals now u intent amount d1 = Inr d'"
    using assms(1) by (auto simp: autopay_credit_def d0_def [symmetric] bind_result_Inr)
  have "credit_like d0 d'"
    by (rule credit_then_reversals [OF p assms(3) a])
  then have c: "reservations d' = reservations d0" "api_keys d' = api_keys d0" "events d' = events d0"
      "\<forall>l \<in> set (ledger d'). l \<in> set (ledger d0) \<or> l_request l = None"
      "\<And>v y. users d' v = Some y \<Longrightarrow> \<exists>z. users d0 v = Some z \<and> u_balance z \<le> u_balance y"
    by (auto simp: credit_like_def)
  have "\<exists>z. users d v = Some z \<and> u_balance z \<le> u_balance y" if "users d' v = Some y" for v y
    using c(5) [OF that] assms(2) by (auto simp: d0_def split: if_splits)
  then show ?thesis
    using c(1-4) by (simp add: credit_like_def d0_def)
qed

definition autopay_amounts_positive :: "db \<Rightarrow> bool" where
  "autopay_amounts_positive d \<longleftrightarrow> (\<forall>i \<in> set (autopay_intents d). 0 < ai_amount i)"

lemma settle_autopay_credit:
  assumes "autopay_amounts_positive d"
  shows "credit_like d (snd (settle_autopay_intent now intent recovered d))"
proof -
  obtain r d' where s: "settle_autopay_intent now intent recovered d = (r, d')"
    by fastforce
  have pos: "\<forall>i \<in> set (autopay_intents d1). 0 < ai_amount i" if "insert_recovered now intent recovered d = Inr d1" for d1
    using that assms
    by (auto simp: insert_recovered_def autopay_amounts_positive_def Let_def autopay_checks_def split: option.splits if_splits)
  have fields: "reservations d1 = reservations d \<and> api_keys d1 = api_keys d \<and> events d1 = events d"
    if "insert_recovered now intent recovered d = Inr d1" for d1
    using insert_recovered_Inr [OF that] by auto
  have "credit_like d d'"
  proof (cases r)
    case (Inl e)
    have "users d' = users d \<and> ledger d' = ledger d \<and> reservations d' = reservations d \<and> api_keys d' = api_keys d \<and> events d' = events d"
    proof (cases "insert_recovered now intent recovered d")
      case (Inl e')
      then show ?thesis
        using s by (simp add: settle_autopay_intent_def)
    next
      case (Inr d1)
      note same = insert_recovered_Inr [OF Inr] fields [OF Inr]
      show ?thesis
        using s Inr same \<open>r = Inl e\<close> unfolding settle_autopay_intent_def
        by (auto simp: set_status_keeps split: if_splits elim: settle_pending_cases)
    qed
    then show ?thesis
      by (intro credit_like_frame) simp_all
  next
    case (Inr out)
    show ?thesis
      using s
    proof (cases rule: settle_autopay_cases)
      case (error e)
      then show ?thesis
        using Inr by simp
    next
      case (pending d1)
      note same = insert_recovered_Inr [OF pending(1)] fields [OF pending(1)]
      show ?thesis
        using pending(2)
      proof (cases rule: settle_pending_cases)
        case (withheld i)
        then show ?thesis
          using same by (intro credit_like_frame) (simp_all add: withhold_def set_status_keeps)
      next
        case (credited i x)
        have "credit_like (set_status now (pending_intent intent) Succeeded d1) d'"
          using find_SomeD [OF credited(1)] pos [OF pending(1)] credited(3)
          by (intro autopay_credit_credit [OF credited(6)]) (auto simp: set_status_keeps intro: less_imp_le)
        then show ?thesis
          using same by (simp add: credit_like_def set_status_keeps)
      qed simp_all
    qed
  qed
  then show ?thesis
    by (simp add: s)
qed

lemma credit_op_credit:
  assumes "credit_op p" "autopay_amounts_positive d"
  shows "credit_like d (run_op D T cal p d)"
proof -
  have promo: "credit_like d (snd (grant_promo now u amount memo d))" for now u amount memo
    by (auto simp: grant_promo_def bind_result_Inr not_less intro!: transact_credit intro: credit_like_post)
  have off: "credit_like d (snd (write_off_receivable now u memo d))" for now u memo
    by (auto simp: write_off_receivable_def Let_def bind_result_Inr split: option.splits intro!: transact_credit)
      (erule credit_like_post, simp)
  have rec: "credit_like d (snd (record_recovery now u amount memo d))" for now u amount memo
    by (auto simp: record_recovery_def Let_def bind_result_Inr not_le split: option.splits intro!: transact_credit)
      (erule credit_like_post, simp)+
  have frz: "credit_like d (snd (freeze_account now u reason d))" "credit_like d (snd (unfreeze_account u d))" for now u reason
    by (auto simp: freeze_account_def unfreeze_account_def split: option.splits intro!: credit_like_frame)
  have bump: "credit_like d (bump_autopay_failure u e)"
    if "users e = users d" "ledger e = ledger d" "reservations e = reservations d" "api_keys e = api_keys d" "events e = events d"
    for u e
    using that by (intro credit_like_frame) (auto simp: bump_autopay_failure_def bump_failures_def option.map_comp comp_def)
  have ins: "credit_like d d'" if "insert_autopay i d = Inr (b, d')" for i b d'
    using that by (auto simp: insert_autopay_def split: if_splits intro!: credit_like_frame)
  have claim: "credit_like d (snd (claim_autopay_attempt now u amount charge key d))" for now u amount charge key
    by (auto simp: claim_autopay_attempt_def split: option.splits intro!: transact_credit intro: ins)
  have charge: "credit_like d (snd (record_autopay_charge now intent u amount charge d))" for now intent u amount charge
    by (auto simp: record_autopay_charge_def bind_result_Inr intro!: transact_credit intro: ins)
  have checkout: "credit_like d (snd (record_checkout_intent now session u cents credit currency d))"
    "credit_like d (snd (settle_checkout_intent now session d))"
    "credit_like d (snd (sweep_expired_checkout_intents acquired now days limit d))"
    for acquired days limit and now session u cents credit currency
    by (auto simp: record_checkout_intent_def settle_checkout_intent_def sweep_expired_checkout_intents_def Let_def
        intro!: credit_like_frame)
  have attach: "credit_like d (attach_autopay_intent now key intent d)" for now key intent
    by (auto simp: attach_autopay_intent_def Let_def intro!: credit_like_frame)
  have tax: "credit_like d (snd (freeze_autopay_tax now intent tax calculation d))"
    "credit_like d (freeze_autopay_tax_transaction now intent transaction d)"
    "credit_like d (mark_autopay_tax_reversed now intent transaction d)" for now intent tax calculation transaction
    by (auto simp: freeze_autopay_tax_def freeze_autopay_tax_transaction_def mark_autopay_tax_reversed_def Let_def
        split: option.splits intro!: credit_like_frame)
  have fail: "credit_like d (snd (fail_autopay_intent now intent d))" for now intent
    by (auto simp: fail_autopay_intent_def split: option.splits intro: bump simp: set_status_keeps)
  show ?thesis
    using assms credit_purchase_credit settle_autopay_credit promo off rec frz bump claim charge checkout attach fail tax
    by (cases p) simp_all
qed

section \<open>The machine\<close>

type_synonym machine = "time \<times> db"

text \<open>
  A step carries what it takes from each user's cover: nothing, except that the late settle of a reservation
  that had expired without an intent takes what the reservation no longer held, and so does an intent written
  on it, which makes it hold again.
\<close>

inductive prepaid_step ::
    "decimal_ops \<Rightarrow> decimal_text \<Rightarrow> calendar \<Rightarrow> machine \<Rightarrow> (uuid \<Rightarrow> money) \<Rightarrow> machine \<Rightarrow> bool"
  for D T cal where
  tick: "now \<le> later \<Longrightarrow> prepaid_step D T cal (now, d) (\<lambda>_. 0) (later, d)"
| admit: "fresh \<notin> r_id ` set (reservations d) \<Longrightarrow> (aq_lane q = Reserved \<longrightarrow> aq_require_credits q) \<Longrightarrow>
    prepaid_step D T cal (now, d) (\<lambda>_. 0) (now, snd (begin_usage_session cal now fresh q d))"
| dispatch: "prepaid_step D T cal (now, d) (\<lambda>_. 0) (now, dispatch_update now rid kid d)"
| persist: "prepaid_step D T cal (now, d) (late_hold now (us_request_id s) (us_api_key_id s) d) (now, persist_intent now s i d)"
| settle: "key_user d kid = Some (si_user_id i) \<Longrightarrow>
    settle_once D T cal now rid kid i d = (Inr Settled, d') \<Longrightarrow>
    prepaid_step D T cal (now, d) (late_hold now rid kid d) (now, d')"
| unsettled: "settle_once D T cal now rid kid i d = (out, d') \<Longrightarrow> out \<noteq> Inr Settled \<Longrightarrow>
    prepaid_step D T cal (now, d) (\<lambda>_. 0) (now, d')"
| failure: "prepaid_step D T cal (now, d) (\<lambda>_. 0) (now, snd (record_settle_failure T now rid e d))"
| release: "prepaid_step D T cal (now, d) (\<lambda>_. 0) (now, snd (release_quarantined_reservation now rid memo forgive d))"
| free: "prepaid_step D T cal (now, d) (\<lambda>_. 0) (now, observe_free_usage D cal now s r d)"
| credit: "credit_op p \<Longrightarrow> autopay_amounts_positive d \<Longrightarrow>
    prepaid_step D T cal (now, d) (\<lambda>_. 0) (now, run_op D T cal p d)"

text \<open>The amounts of the steps of a run add up, user by user.\<close>

inductive prepaid_reachable ::
    "decimal_ops \<Rightarrow> decimal_text \<Rightarrow> calendar \<Rightarrow> machine \<Rightarrow> (uuid \<Rightarrow> money) \<Rightarrow> machine \<Rightarrow> bool"
  for D T cal start where
  here: "prepaid_reachable D T cal start (\<lambda>_. 0) start"
| step: "prepaid_reachable D T cal start late m \<Longrightarrow> prepaid_step D T cal m more_late m' \<Longrightarrow>
    prepaid_reachable D T cal start (\<lambda>u. late u + more_late u) m'"

definition prepaid_inv :: "machine \<Rightarrow> bool" where
  "prepaid_inv m \<longleftrightarrow> rows_wf (snd m) \<and> solvent (fst m) (snd m) \<and> usage_backed (snd m)"

section \<open>The invariant\<close>

lemma secured_update:
  assumes v: "secured late now d u" and d': "d' = d\<lparr> reservations := update_where P f (reservations d) \<rparr>"
    and f: "\<And>r. r_key (f r) = r_key r" "\<And>r. r_cost (f r) = r_cost r" and nn: "rows_wf d"
    and enc: "\<And>r. r \<in> set (reservations d) \<Longrightarrow> P r \<Longrightarrow> encumbers now (f r) \<Longrightarrow> encumbers now r \<or> Q r"
  shows "secured (late + sum_where (\<lambda>r. of_user d u r \<and> Q r \<and> \<not> encumbers now r) r_cost (reservations d)) now d' u"
proof -
  have o: "of_user d' = of_user d"
    by (intro ext) (simp add: d' of_user_def key_user_def)
  have of: "of_user d u (f r) = of_user d u r" for r
    by (simp add: of_user_def f)
  have "sum_where (\<lambda>r. of_user d u r \<and> encumbers now r) r_cost (update_where P f rs)
      \<le> sum_where (\<lambda>r. of_user d u r \<and> encumbers now r) r_cost rs +
        sum_where (\<lambda>r. of_user d u r \<and> Q r \<and> \<not> encumbers now r) r_cost rs" if "set rs \<subseteq> set (reservations d)" for rs
    using that
  proof (induction rs)
    case (Cons r rs)
    then have "0 \<le> r_cost r" "P r \<Longrightarrow> encumbers now (f r) \<Longrightarrow> encumbers now r \<or> Q r"
      using nn enc by (auto simp: rows_wf_def)
    then show ?case
      using Cons by (auto simp: of f)
  qed simp
  then have "user_encumbrance now d' u \<le> user_encumbrance now d u +
      sum_where (\<lambda>r. of_user d u r \<and> Q r \<and> \<not> encumbers now r) r_cost (reservations d)"
    unfolding user_encumbrance_def o by (simp add: d')
  then show ?thesis
    using v unfolding secured_def by (fastforce simp: d')
qed

lemma secured_update_same:
  assumes "secured late now d u" "d' = d\<lparr> reservations := update_where P f (reservations d) \<rparr>"
    and "\<And>r. r_key (f r) = r_key r" "\<And>r. r_cost (f r) = r_cost r" "rows_wf d"
    and "\<And>r. r \<in> set (reservations d) \<Longrightarrow> P r \<Longrightarrow> encumbers now (f r) \<Longrightarrow> encumbers now r"
  shows "secured late now d' u"
proof -
  have "sum_where (\<lambda>_. False) r_cost rs = 0" for rs :: "reservation list"
    by (induction rs) simp_all
  then show ?thesis
    using secured_update [OF assms(1-5), of "\<lambda>_. False"] assms(6) by simp
qed

lemma update_rows_frame:
  assumes "rows_wf d" "usage_backed d" and d': "d' = d\<lparr> reservations := update_where P f (reservations d) \<rparr>"
    and f: "\<And>r. r_id (f r) = r_id r" "\<And>r. r_cost (f r) = r_cost r"
  shows "rows_wf d' \<and> usage_backed d' \<and> users d' = users d"
  using assms(1,2) f by (auto simp: d' rows_wf_def map_update_where set_update_where usage_backed_def)

lemma usage_backed_more_events:
  "usage_backed d \<Longrightarrow> ledger d' = ledger d \<Longrightarrow> set (events d) \<subseteq> set (events d') \<Longrightarrow> usage_backed d'"
  by (fastforce simp: usage_backed_def)

lemma settle_usage_backed:
  assumes "usage_backed d"
  shows "usage_backed (snd (settle_once D T cal now rid kid i d))"
proof -
  obtain out d' where s: "settle_once D T cal now rid kid i d = (out, d')"
    by fastforce
  have "usage_backed d'"
  proof (cases "out = Inr Settled")
    case True
    show ?thesis
      using s [unfolded True]
    proof (rule settle_once_effect)
      fix row ev
      assume ev: "events d' = events d @ [ev]" "e_request ev = rid"
        and deb: "debited rid (si_user_id i) (min (e_cost ev) (r_cost row)) d d'"
      have "l \<in> set (ledger d') \<Longrightarrow> l \<in> set (ledger d) \<or> l_request l = Some rid" for l
        using deb by (auto simp: debited_def posts_def)
      then show ?thesis
        using assms ev by (fastforce simp: usage_backed_def)
    qed
  next
    case False
    show ?thesis
      using settle_once_not_Settled [OF s False] assms by (auto simp: usage_backed_def db_simps)
  qed
  then show ?thesis
    by (simp add: s)
qed

lemma settle_once_floor:
  assumes s: "settle_once D T cal now rid kid i d = (out, d')" and nn: "\<And>v x. users d v = Some x \<Longrightarrow> 0 \<le> u_balance x"
    and y: "users d' v = Some y"
  shows "0 \<le> u_balance y"
proof (cases "out = Inr Settled")
  case True
  show ?thesis
    using s [unfolded True]
  proof (rule settle_once_charges)
    fix row r charge
    assume "debited_exactly now rid (si_user_id i) (if si_require_credits i then min (fst charge) (r_cost row) else 0) d d'"
    then show ?thesis
      using nn y by (auto simp: debited_exactly_def split: if_splits)
  qed
next
  case False
  then show ?thesis
    using settle_once_not_Settled [OF s False] nn y by (auto simp: db_simps)
qed

text \<open>Every account is secured up to what late settles and intents took from it, and none is negative.\<close>

definition prepaid_within :: "(uuid \<Rightarrow> money) \<Rightarrow> machine \<Rightarrow> bool" where
  "prepaid_within late m \<longleftrightarrow> rows_wf (snd m) \<and> usage_backed (snd m) \<and>
     (\<forall>u. 0 \<le> late u \<and> secured (late u) (fst m) (snd m) u) \<and> (\<forall>u x. users (snd m) u = Some x \<longrightarrow> 0 \<le> u_balance x)"

lemma prepaid_inv_within: "prepaid_inv m \<Longrightarrow> prepaid_within (\<lambda>_. 0) m"
proof -
  assume i: "prepaid_inv m"
  have "0 \<le> user_encumbrance (fst m) (snd m) u" for u
    unfolding user_encumbrance_def using i by (intro sum_where_nonneg) (simp add: prepaid_inv_def rows_wf_def)
  moreover have sec: "secured 0 (fst m) (snd m) u" for u
    using i by (simp add: prepaid_inv_def solvent_secured)
  ultimately have "0 \<le> u_balance x" if "users (snd m) u = Some x" for u x
    using that unfolding secured_def by (metis add_0_right order_trans)
  then show ?thesis
    using i sec by (simp add: prepaid_inv_def prepaid_within_def)
qed

lemma prepaid_step_within:
  "prepaid_step D T cal m more_late m' \<Longrightarrow> prepaid_within late m \<Longrightarrow> prepaid_within (\<lambda>u. late u + more_late u) m'"
proof (induction rule: prepaid_step.induct)
  case (tick now later d)
  then show ?case
    by (auto simp: prepaid_within_def intro: secured_later)
next
  case (admit fresh d q now)
  obtain out d' where b: "begin_usage_session cal now fresh q d = (out, d')"
    by fastforce
  note frame = begin_frame [OF b]
  have "secured (late u) now d' u" for u
  proof (cases "\<exists>s. out = Inr (Allowed s)")
    case True
    then show ?thesis
      using admission_secured [of cal now fresh q d] b admit by (auto simp: prepaid_within_def)
  next
    case False
    then show ?thesis
      using begin_not_allowed [OF b] admit by (auto simp: prepaid_within_def)
  qed
  then show ?case
    using admission_rows_wf [OF b _ admit(1)] admit(3) frame by (simp add: prepaid_within_def b usage_backed_def)
next
  case (dispatch now d rid kid)
  have "secured (late u) now (dispatch_update now rid kid d) u" for u
    using dispatch by (intro secured_update_same [OF _ dispatch_update_def]) (simp_all add: prepaid_within_def encumbers_def)
  moreover have "rows_wf (dispatch_update now rid kid d) \<and> usage_backed (dispatch_update now rid kid d) \<and>
      users (dispatch_update now rid kid d) = users d"
    using dispatch by (intro update_rows_frame [OF _ _ dispatch_update_def]) (simp_all add: prepaid_within_def)
  ultimately show ?case
    using dispatch by (simp add: prepaid_within_def)
next
  case (persist now d s i)
  have "secured (late u + late_hold now (us_request_id s) (us_api_key_id s) d u) now (persist_intent now s i d) u" for u
    unfolding late_hold_def using persist
    by (intro secured_update [OF _ persist_intent_def]) (auto simp: prepaid_within_def encumbers_def owed_row_def)
  moreover have "rows_wf (persist_intent now s i d) \<and> usage_backed (persist_intent now s i d) \<and> users (persist_intent now s i d) = users d"
    using persist by (intro update_rows_frame [OF _ _ persist_intent_def]) (simp_all add: prepaid_within_def)
  ultimately show ?case
    using persist late_hold_nonneg by (simp add: prepaid_within_def)
next
  case (settle d kid i now rid d')
  then show ?case
    using settle_once_secured [OF settle(2) _ _ settle(1)] settle_once_rows_wf [of d D T cal now rid kid i] late_hold_nonneg
      settle_usage_backed [of d D T cal now rid kid i] settle_once_floor [OF settle(2)]
    by (simp add: prepaid_within_def)
next
  case (unsettled now rid kid i d out d')
  then show ?case
    using settle_refused_secured [OF unsettled(1,2)] settle_once_rows_wf [of d D T cal now rid kid i]
      settle_usage_backed [of d D T cal now rid kid i] settle_once_floor [OF unsettled(1)]
    by (simp add: prepaid_within_def)
next
  case (failure now d rid e)
  define d' where "d' = d\<lparr> reservations := update_where (\<lambda>x. r_id x = rid) (failed_row T now e) (reservations d) \<rparr>"
  have "secured (late u) now d' u" for u
    using failure by (intro secured_update_same [OF _ d'_def]) (simp_all add: prepaid_within_def failed_row_def encumbers_def)
  then have "prepaid_within late (now, d')"
    using failure update_rows_frame [OF _ _ d'_def] by (simp add: prepaid_within_def failed_row_def)
  then show ?case
    using failure by (auto simp: record_settle_failure_def d'_def split: option.splits)
next
  case (release now d rid memo forgive)
  define d' where "d' = d\<lparr> reservations := update_where (\<lambda>x. r_id x = rid \<and> r_released_at x = None)
      (\<lambda>x. x\<lparr> r_released_at := Some now, r_released_note := Some (trim memo) \<rparr>) (reservations d) \<rparr>"
  have "secured (late u) now d' u" for u
    using release by (intro secured_update_same [OF _ d'_def]) (simp_all add: prepaid_within_def encumbers_def)
  then have "prepaid_within late (now, d')"
    using release update_rows_frame [OF _ _ d'_def] by (simp add: prepaid_within_def)
  then show ?case
    using release by (auto simp: release_quarantined_reservation_def Let_def d'_def split: option.splits)
next
  case (free now d s r)
  have "prepaid_within late (now, d')" if "insert_event cal ev d = Inr d'" for ev d'
    using free that usage_backed_more_events [of d d']
    by (auto simp: insert_event_Inr prepaid_within_def secured_def user_encumbrance_def of_user_def key_user_def rows_wf_def)
  then show ?case
    using free by (auto simp: observe_free_usage_def split: sum.splits)
next
  case (credit p d now)
  have c: "credit_like d (run_op D T cal p d)"
    using credit_op_credit credit(1,2) by blast
  have "user_encumbrance now (run_op D T cal p d) u = user_encumbrance now d u" for u
    using c by (simp add: credit_like_def user_encumbrance_def of_user_def key_user_def)
  then have "secured (late u) now (run_op D T cal p d) u" for u
    using c credit(3) unfolding prepaid_within_def secured_def credit_like_def by (simp, meson add_right_mono order_trans)
  moreover have "rows_wf (run_op D T cal p d)" "usage_backed (run_op D T cal p d)"
    using c credit(3) by (auto simp: prepaid_within_def rows_wf_def usage_backed_def credit_like_def)
  ultimately show ?case
    using c credit(3) unfolding prepaid_within_def credit_like_def by (simp, meson order_trans)
qed

lemma prepaid_reachable_within:
  "prepaid_reachable D T cal start late m \<Longrightarrow> prepaid_inv start \<Longrightarrow> prepaid_within late m"
  by (induction rule: prepaid_reachable.induct) (auto intro: prepaid_inv_within prepaid_step_within)

end
