(* ===== verification/Scenario.thy ===== *)
theory Scenario
  imports Prepaid
begin

text \<open>
  One concrete account, used to show that the hypotheses of the database theorems can hold: a user
  with twenty dollars from one purchase, one key, a request that reserves ten dollars, and the
  record of a finished request that cost seven.
\<close>

definition demo_text :: decimal_text where
  "demo_text = \<lparr> d_show = (\<lambda>m. if m = 10 then ''10'' else ''7''), d_parse = plain_numeric, d_error_text = (\<lambda>e. ''error'') \<rparr>"

definition demo_cal :: calendar where
  "demo_cal = \<lparr> utc_month = (\<lambda>t. t div 2592000 * 2592000), utc_day = (\<lambda>t. t div 86400),
     utc_week_start = (\<lambda>t. t div 604800 * 7) \<rparr>"

definition demo_user :: user where
  "demo_user = \<lparr> u_balance = 20, u_frozen_at = None, u_frozen_reason = None, u_stripe_customer = Some ''cus_1'',
     u_autopay_enabled = True, u_autopay_threshold = Some 25, u_autopay_topup = Some 30, u_autopay_failures = 0 \<rparr>"

definition demo_key :: api_key where
  "demo_key = \<lparr> k_id = 5, k_user = 1, k_spend_cap = 100, k_velocity_cap = 100000, k_disabled = False,
     k_expires_at = None, k_credit_limit = Some 50, k_credit_limit_window = Some ''daily'', k_created_at = 0,
     k_last_used_at = None \<rparr>"

definition demo_purchase :: ledger_entry where
  "demo_purchase = \<lparr> l_user = 1, l_created_at = 0, l_type = Purchase, l_amount = 20, l_balance_after = 20,
     l_session = Some ''cs_1'', l_payment_intent = Some ''pi_1'', l_request = None, l_note = None \<rparr>"

definition demo_rollup :: spend_rollups where
  "demo_rollup = \<lparr> month_spend = [], month_byok = [], day_spend = [], total_spend = [] \<rparr>"

definition demo_db :: db where
  "demo_db = \<lparr> users = [1 \<mapsto> demo_user], api_keys = [demo_key], reservations = [], events = [],
     request_attempts = [], ledger = [demo_purchase], checkout_intents = [], autopay_intents = [],
     reversals = [], rollup = demo_rollup \<rparr>"

definition demo_size :: reservation_size where
  "demo_size = \<lparr> rs_total_tokens = 2000, rs_output_tokens = 500, rs_cost_usd = 10 \<rparr>"

definition demo_signature :: task_signature where
  "demo_signature = \<lparr> hex = ''0123456789abcdef'', scheme = 2, tool_names_sha256 = replicate 64 (CHR ''a'') \<rparr>"

definition demo_request :: admission_request where
  "demo_request = \<lparr> aq_key = 5, aq_user = 1, aq_sizing = sizing_cold demo_size,
     aq_byok = \<lparr> catalog_basis = None, wholly_byok = False \<rparr>, aq_signature = demo_signature,
     aq_require_credits = True, aq_lane = Reserved \<rparr>"

definition demo_handle :: reservation_handle where
  "demo_handle = \<lparr> rh_task_signature = demo_signature, rh_reserved_cost_usd = 10, rh_estimator_basis = Cold \<rparr>"

definition demo_session :: usage_session where
  "demo_session = \<lparr> us_request_id = 77, us_api_key_id = 5, us_user_id = 1, us_require_credits = True,
     us_output_bound = 500, us_reservation = Some demo_handle \<rparr>"

definition demo_reservation :: reservation where
  "demo_reservation = \<lparr> r_id = 77, r_key = 5, r_expires_at = 2200, r_tokens = 2000, r_cost = 10, r_byok_basis = None,
     r_intent = None, r_intent_at = None, r_settle_attempts = 0, r_last_error = None, r_quarantined_at = None,
     r_dispatched_at = None, r_released_at = None, r_released_note = None \<rparr>"

text \<open>The database after the request of \<^term>\<open>demo_request\<close> was admitted at time 1000.\<close>

definition demo_admitted :: db where
  "demo_admitted = demo_db\<lparr> api_keys := [demo_key\<lparr> k_last_used_at := Some 1000 \<rparr>],
     reservations := [demo_reservation] \<rparr>"

definition demo_rates :: model_rates where
  "demo_rates = \<lparr> input_per_mtok = Some 3, output_per_mtok = Some 15, cached_input_per_mtok = None,
     cache_write_per_mtok = None \<rparr>"

definition demo_telemetry :: request_telemetry where
  "demo_telemetry = \<lparr> requested_max_tokens = 500, t_stream = False, prompt_bytes = 100, message_count = 1,
     tool_count = 0, candidate_id = Some ''c'', basis_rates = None, sell_rates = demo_rates,
     finish_reason = Some ''stop'', finish_reason_source = Some FINISH_REASON_UPSTREAM, shape_ok = None,
     t_usage_gap = None, t_priority = Some Balanced, t_byok = None \<rparr>"

definition demo_record :: usage_record where
  "demo_record = \<lparr> tier = ''standard'', upstream_provider = ''p'', upstream_model = ''m'',
     usage = mk_usage 1000 0 0 200, cost_usd = 7, byok_catalog_usd = None, latency_ms = 12, status = 200,
     telemetry = demo_telemetry, attempts = [] \<rparr>"

definition demo_intent :: settlement_intent where
  "demo_intent = intent_new demo_text demo_session demo_handle demo_record"

lemma demo_money_inv: "money_inv demo_db" "money_inv demo_admitted"
  by (auto simp: money_inv_def conserved_def demo_admitted_def demo_db_def demo_user_def demo_purchase_def ledger_total_def
      ledger_rows_ok_def ledger_checks_def List.map_filter_def)

lemma demo_prepaid: "prepaid_inv (1000, demo_db)" "prepaid_inv (1000, demo_admitted)"
  by (auto simp: prepaid_inv_def rows_wf_def solvent_def usage_backed_def user_encumbrance_def demo_admitted_def
      demo_db_def demo_purchase_def demo_user_def demo_reservation_def)

lemma demo_admission:
  "fst (begin_usage_session demo_cal 1000 77 demo_request demo_db) = Inr (Allowed demo_session)"
  by code_simp

lemma demo_admission_db:
  "reservations (snd (begin_usage_session demo_cal 1000 77 demo_request demo_db)) = [demo_reservation]"
  by code_simp

lemma demo_cost: "plain_numeric ''7'' = Some 7" "plain_numeric ''10'' = Some 10"
  by code_simp+

lemma demo_usage: "to_usage (usage_payload_new (mk_usage 1000 0 0 200)) = mk_usage 1000 0 0 200"
  by (simp add: to_usage_def usage_payload_new_def mk_usage_def cached_input_tokens_def cache_write_tokens_def)

lemma demo_telemetry_back: "to_telemetry (telemetry_payload_new demo_telemetry) = demo_telemetry"
  by (simp add: to_telemetry_def telemetry_payload_new_def demo_telemetry_def demo_rates_def to_rates_def rates_payload_new_def
      finish_reason_source_from_keyword_def or_else_def priority_from_keyword_def)

lemma demo_to_record: "to_record demo_text demo_intent = Inr demo_record"
  by (simp add: to_record_def demo_intent_def intent_new_def demo_record_def demo_text_def bind_result_def
      settlement_decimal_def demo_cost demo_usage demo_telemetry_back)

lemma demo_snapshot: "reserved_cost_snapshot demo_text demo_intent = Inr 10"
  by (simp add: reserved_cost_snapshot_def settlement_decimal_def demo_intent_def intent_new_def demo_text_def
      demo_handle_def demo_cost)

lemma demo_counts: "intent_counts demo_record = Inr (1000, 0, 0, 200)"
  by (simp add: intent_counts_def demo_record_def mk_usage_def cached_input_tokens_def cache_write_tokens_def
      bind_result_def checked_token_count_def i32_max_def)

lemma demo_charge: "settled_cost exact_decimal demo_cal 1100 u demo_record d = Inr (7, None)"
  by (simp add: settled_cost_def demo_record_def)

definition demo_event :: usage_event where
  "demo_event = settled_event exact_decimal 1100 77 5 demo_intent demo_record 10 (1000, 0, 0, 200) (7, None)"

lemma demo_hex: "is_hex 16 ''0123456789abcdef''" "is_hex 64 (replicate 64 (CHR ''a''))"
  "\<not> blank ''standard''" "\<not> blank ''p''" "\<not> blank ''m''"
  by code_simp+

lemma demo_event_checks: "usage_event_checks demo_event"
  using demo_hex
  by (simp add: usage_event_checks_def demo_event_def settled_event_def demo_record_def demo_telemetry_def demo_intent_def
      intent_new_def demo_handle_def demo_signature_def opt_nonneg_def cost_basis_def cogs_summarize_def demo_session_def)

definition demo_settled :: db where
  "demo_settled = demo_db\<lparr> users := [1 \<mapsto> demo_user\<lparr> u_balance := 13 \<rparr>],
     api_keys := [demo_key\<lparr> k_last_used_at := Some 1000 \<rparr>], events := [demo_event],
     rollup := accrue demo_cal demo_event demo_rollup,
     ledger := [demo_purchase, \<lparr> l_user = 1, l_created_at = 1100, l_type = UsageEntry, l_amount = - 7,
       l_balance_after = 13, l_session = None, l_payment_intent = None, l_request = Some 77, l_note = None \<rparr>] \<rparr>"

lemma demo_settles:
  "settle_once exact_decimal demo_text demo_cal 1100 77 5 demo_intent demo_admitted = (Inr Settled, demo_settled)"
proof -
  have i: "si_user_id demo_intent = 1" "si_require_credits demo_intent"
    by (simp_all add: demo_intent_def intent_new_def demo_session_def del: One_nat_def)
  have e: "e_request demo_event = 77" "attempts demo_record = []"
    by (simp_all add: demo_event_def settled_event_def demo_record_def)
  show ?thesis
    using demo_event_checks i e
    by (simp add: settle_once_def Let_def demo_to_record demo_snapshot demo_counts bind_result_def owed_row_def demo_admitted_def
        demo_reservation_def settle_body_def demo_charge demo_event_def [symmetric] insert_event_def demo_db_def
        debit_user_def update_balance_def demo_user_def insert_ledger_def ledger_checks_def ledger_unique_def
        demo_purchase_def demo_settled_def del: One_nat_def)
qed

end
