(* ===== verification/Floats.thy ===== *)
theory Floats
  imports Prelude
begin

text \<open>
  The 64-bit floats of the walk: provider health, learned output sizes and expected costs are
  non-negative floats, so a float here is a non-negative rational, infinity or not a number (negative infinity,
  which none of them reaches, has no counterpart).  Every
  operation rounds its exact result to the nearest float, ties to even.  Rounding is shown to be
  monotone and to keep what is a float already, which is all the components use of it.
\<close>

section \<open>Rounding\<close>

definition round_half_even :: "rat \<Rightarrow> int" where
  "round_half_even x =
     (let f = \<lfloor>x\<rfloor>; r = x - of_int f in
      if r < 1 / 2 then f else if 1 / 2 < r then f + 1 else if even f then f else f + 1)"

fun bit_length :: "nat \<Rightarrow> nat" where
  "bit_length n = (if n = 0 then 0 else Suc (bit_length (n div 2)))"

declare bit_length.simps [simp del]

definition pow2 :: "int \<Rightarrow> rat" where
  "pow2 e = (if 0 \<le> e then 2 ^ nat e else 1 / 2 ^ nat (- e))"

text \<open>The exponent of a positive number: \<^verbatim>\<open>pow2 e \<le> x < pow2 (e + 1)\<close>.\<close>

definition binary_exponent :: "rat \<Rightarrow> int" where
  "binary_exponent x =
     (if 1 \<le> x then int (bit_length (nat \<lfloor>x\<rfloor>)) - 1
      else - int (bit_length (nat (\<lceil>1 / x\<rceil> - 1))))"

definition ulp_exponent :: "rat \<Rightarrow> int" where
  "ulp_exponent x = max (binary_exponent x - 52) (- 1074)"

definition nearest :: "rat \<Rightarrow> rat" where
  "nearest x =
     (if x = 0 then 0
      else of_int (round_half_even (x / pow2 (ulp_exponent x))) * pow2 (ulp_exponent x))"

datatype f64 = Fin rat | Inf | NaN

definition fl :: "rat \<Rightarrow> f64" where
  "fl x = (if 2 ^ 1024 \<le> nearest x then Inf else Fin (nearest x))"

fun finite_f64 :: "f64 \<Rightarrow> rat option" where
  "finite_f64 (Fin x) = Some x"
| "finite_f64 _ = None"

fun f64_add :: "f64 \<Rightarrow> f64 \<Rightarrow> f64" where
  "f64_add (Fin a) (Fin b) = fl (a + b)"
| "f64_add NaN _ = NaN"
| "f64_add _ NaN = NaN"
| "f64_add _ _ = Inf"

fun f64_mul :: "f64 \<Rightarrow> f64 \<Rightarrow> f64" where
  "f64_mul (Fin a) (Fin b) = fl (a * b)"
| "f64_mul NaN _ = NaN"
| "f64_mul _ NaN = NaN"
| "f64_mul (Fin a) Inf = (if a = 0 then NaN else Inf)"
| "f64_mul Inf (Fin b) = (if b = 0 then NaN else Inf)"
| "f64_mul Inf Inf = Inf"

fun f64_div :: "f64 \<Rightarrow> f64 \<Rightarrow> f64" where
  "f64_div (Fin a) (Fin b) = (if b = 0 then (if a = 0 then NaN else Inf) else fl (a / b))"
| "f64_div NaN _ = NaN"
| "f64_div _ NaN = NaN"
| "f64_div (Fin a) Inf = Fin 0"
| "f64_div Inf (Fin b) = Inf"
| "f64_div Inf Inf = NaN"

fun f64_le :: "f64 \<Rightarrow> f64 \<Rightarrow> bool" where
  "f64_le (Fin a) (Fin b) = (a \<le> b)"
| "f64_le (Fin a) Inf = True"
| "f64_le Inf Inf = True"
| "f64_le _ _ = False"

definition f64_less :: "f64 \<Rightarrow> f64 \<Rightarrow> bool" where
  "f64_less a b \<longleftrightarrow> f64_le a b \<and> a \<noteq> b"

lemmas f64_eval = fl_def nearest_def ulp_exponent_def binary_exponent_def bit_length.simps pow2_def
  round_half_even_def Let_def

section \<open>Rounding is monotone\<close>

lemma round_half_even_of_int [simp]: "round_half_even (of_int k) = k"
  by (simp add: round_half_even_def)

lemma round_half_even_pow [simp]: "round_half_even (2 ^ n) = 2 ^ n" "round_half_even 0 = 0"
  using round_half_even_of_int [of "2 ^ n"] round_half_even_of_int [of 0] by simp_all

lemma round_half_even_bounds: "\<lfloor>x\<rfloor> \<le> round_half_even x" "round_half_even x \<le> \<lfloor>x\<rfloor> + 1"
  by (auto simp: round_half_even_def Let_def)

lemma round_half_even_mono:
  assumes "x \<le> y"
  shows "round_half_even x \<le> round_half_even y"
proof (cases "\<lfloor>x\<rfloor> = \<lfloor>y\<rfloor>")
  case True
  then show ?thesis
    using assms by (auto simp: round_half_even_def Let_def)
next
  case False
  then have "\<lfloor>x\<rfloor> + 1 \<le> \<lfloor>y\<rfloor>"
    using floor_mono [OF assms] by linarith
  then show ?thesis
    using round_half_even_bounds [of x] round_half_even_bounds [of y] by linarith
qed

lemma pow2_pos [simp]: "0 < pow2 e"
  by (simp add: pow2_def)

lemma pow2_nonzero [simp]: "pow2 e \<noteq> 0"
  using pow2_pos [of e] by linarith

lemma pow2_powi: "pow2 e = 2 powi e"
  by (simp add: pow2_def power_int_def field_simps power_divide)

lemma pow2_add: "pow2 (a + b) = pow2 a * pow2 b"
  by (simp add: pow2_powi power_int_add)

lemma pow2_diff: "pow2 (a - b) = pow2 a / pow2 b"
  by (simp add: pow2_powi power_int_diff)

lemma pow2_mono: "a \<le> b \<Longrightarrow> pow2 a \<le> pow2 b"
  by (simp add: pow2_powi power_int_increasing)

lemma divide_pow2_mono: "x \<le> y \<Longrightarrow> x / pow2 m \<le> y / pow2 m"
  by (rule divide_right_mono) (simp_all add: less_imp_le)

lemma pow2_of_int: "0 \<le> e \<Longrightarrow> pow2 e = of_int (2 ^ nat e)"
  by (simp add: pow2_def)

lemma bit_length_bounds:
  "0 < n \<Longrightarrow> 0 < bit_length n \<and> 2 ^ (bit_length n - 1) \<le> n \<and> n < 2 ^ bit_length n"
proof (induction n rule: bit_length.induct)
  case (1 n)
  show ?case
  proof (cases "n div 2 = 0")
    case True
    then have "n = 1"
      using 1(2) by (simp add: div_eq_0_iff)
    then show ?thesis
      by (simp add: bit_length.simps)
  next
    case False
    obtain m where m: "bit_length (n div 2) = Suc m" "2 ^ m \<le> n div 2" "n div 2 < 2 ^ Suc m"
      using 1 False by (cases "bit_length (n div 2)") auto
    have "2 * (n div 2) \<le> n" "n < 2 * (n div 2) + 2"
      by auto
    then have "2 ^ Suc m \<le> n" "n < 2 ^ Suc (Suc m)"
      using m(2,3) by auto
    moreover have "bit_length n = Suc (Suc m)"
      using 1(2) m(1) by (subst bit_length.simps) simp
    ultimately show ?thesis
      by simp
  qed
qed

lemma binary_exponent_bounds:
  assumes "0 < x"
  shows "pow2 (binary_exponent x) \<le> x \<and> x < pow2 (binary_exponent x + 1)"
proof (cases "1 \<le> x")
  case True
  let ?n = "nat \<lfloor>x\<rfloor>"
  have n: "0 < ?n" "of_nat ?n \<le> x" "x < of_nat ?n + 1"
    using True floor_correct [of x] by (auto simp: le_floor_iff of_nat_nat)
  obtain m where m: "bit_length ?n = Suc m" "2 ^ m \<le> ?n" "?n < 2 ^ Suc m"
    using bit_length_bounds [OF n(1)] by (cases "bit_length ?n") auto
  have "(of_nat (2 ^ m) :: rat) \<le> of_nat ?n" "(of_nat (?n + 1) :: rat) \<le> of_nat (2 ^ Suc m)"
    using m(2,3) by (simp_all only: of_nat_le_iff)
  then have "of_nat (2 ^ m) \<le> x" "x < of_nat (2 ^ Suc m)"
    using n(2,3) unfolding of_nat_add by linarith+
  then have "2 ^ m \<le> x" "x < 2 ^ Suc m"
    by simp_all
  then show ?thesis
    using True m(1) by (simp add: binary_exponent_def pow2_def nat_add_distrib)
next
  case False
  let ?y = "1 / x"
  let ?n = "nat (\<lceil>?y\<rceil> - 1)"
  have y: "1 < ?y"
    using False assms by simp
  then have c: "2 \<le> \<lceil>?y\<rceil>"
    by (simp add: le_ceiling_iff)
  have "of_nat ?n = (of_int \<lceil>?y\<rceil> - 1 :: rat)"
    using of_nat_nat [of "\<lceil>?y\<rceil> - 1", where 'a = rat] c
    by (metis add_0 diff_ge_0_iff_ge dual_order.trans of_int_1 of_int_diff one_le_numeral)
  then have n: "0 < ?n" "of_nat ?n < ?y" "?y \<le> of_nat ?n + 1"
    using c ceiling_correct [of ?y] by auto
  obtain m where m: "bit_length ?n = Suc m" "2 ^ m \<le> ?n" "?n < 2 ^ Suc m"
    using bit_length_bounds [OF n(1)] by (cases "bit_length ?n") auto
  have "(of_nat (2 ^ m) :: rat) \<le> of_nat ?n" "(of_nat (?n + 1) :: rat) \<le> of_nat (2 ^ Suc m)"
    using m(2,3) by (simp_all only: of_nat_le_iff)
  then have "of_nat (2 ^ m) < ?y" "?y \<le> of_nat (2 ^ Suc m)"
    using n(2,3) unfolding of_nat_add by linarith+
  then have "2 ^ m < ?y" "?y \<le> 2 ^ Suc m"
    by simp_all
  then have "1 / 2 ^ Suc m \<le> x" "x < 1 / 2 ^ m"
    using assms by (simp_all add: field_simps)
  then show ?thesis
    using False m(1) by (simp add: binary_exponent_def pow2_def nat_add_distrib)
qed

lemma binary_exponent_mono:
  assumes "0 < x" "x \<le> y"
  shows "binary_exponent x \<le> binary_exponent y"
proof (rule ccontr)
  assume "\<not> ?thesis"
  then have "pow2 (binary_exponent y + 1) \<le> pow2 (binary_exponent x)"
    by (intro pow2_mono) simp
  then show False
    using binary_exponent_bounds [of x] binary_exponent_bounds [of y] assms by linarith
qed

text \<open>A multiple of the unit is a bound that rounding respects.\<close>

lemma round_below:
  assumes "x \<le> pow2 k" "m \<le> k"
  shows "of_int (round_half_even (x / pow2 m)) * pow2 m \<le> pow2 k"
proof -
  have "x / pow2 m \<le> pow2 (k - m)"
    using assms(1) by (simp add: pow2_diff divide_pow2_mono)
  then have "round_half_even (x / pow2 m) \<le> 2 ^ nat (k - m)"
    using round_half_even_mono [of "x / pow2 m" "of_int (2 ^ nat (k - m))"] pow2_of_int [of "k - m"]
      assms(2) by simp
  then have "of_int (round_half_even (x / pow2 m)) \<le> pow2 (k - m)"
    using pow2_of_int [of "k - m"] assms(2) by (metis diff_ge_0_iff_ge of_int_le_iff)
  then show ?thesis
    by (simp add: pow2_diff pos_le_divide_eq)
qed

lemma round_above:
  assumes "pow2 k \<le> x" "m \<le> k"
  shows "pow2 k \<le> of_int (round_half_even (x / pow2 m)) * pow2 m"
proof -
  have "pow2 (k - m) \<le> x / pow2 m"
    using assms(1) by (simp add: pow2_diff divide_pow2_mono)
  then have "2 ^ nat (k - m) \<le> round_half_even (x / pow2 m)"
    using round_half_even_mono [of "of_int (2 ^ nat (k - m))" "x / pow2 m"] pow2_of_int [of "k - m"]
      assms(2) by simp
  then have "pow2 (k - m) \<le> of_int (round_half_even (x / pow2 m))"
    using pow2_of_int [of "k - m"] assms(2) by (metis diff_ge_0_iff_ge of_int_le_iff)
  then show ?thesis
    by (simp add: pow2_diff pos_divide_le_eq)
qed

text \<open>Rounding by the exponent alone, for the constants the components compute with.\<close>

lemma nearest_at:
  assumes "pow2 e \<le> x" "x < pow2 (e + 1)" "- 1022 \<le> e"
  shows "nearest x = of_int (round_half_even (x / pow2 (e - 52))) * pow2 (e - 52)"
proof -
  have pos: "0 < x"
    using assms(1) pow2_pos [of e] by linarith
  have b: "pow2 (binary_exponent x) \<le> x" "x < pow2 (binary_exponent x + 1)"
    using binary_exponent_bounds [OF pos] by simp_all
  have "\<not> e + 1 \<le> binary_exponent x" "\<not> binary_exponent x + 1 \<le> e"
    using pow2_mono [of "e + 1" "binary_exponent x"] pow2_mono [of "binary_exponent x + 1" e]
      b assms by linarith+
  then have "binary_exponent x = e"
    by linarith
  then show ?thesis
    using assms(3) pos by (simp add: nearest_def ulp_exponent_def)
qed

lemma nearest_nonneg: "0 \<le> x \<Longrightarrow> 0 \<le> nearest x"
  using round_half_even_mono [of 0 "x / pow2 (ulp_exponent x)"] round_half_even_of_int [of 0]
    divide_pow2_mono [of 0 x "ulp_exponent x"] by (simp add: nearest_def less_imp_le)

lemma nearest_mono:
  assumes "0 \<le> x" "x \<le> y"
  shows "nearest x \<le> nearest y"
proof (cases "x = 0")
  case True
  then show ?thesis
    using nearest_nonneg assms by (simp add: nearest_def)
next
  case False
  then have pos: "0 < x" "0 < y"
    using assms by auto
  show ?thesis
  proof (cases "ulp_exponent x = ulp_exponent y")
    case True
    then show ?thesis
      using pos round_half_even_mono [of "x / pow2 (ulp_exponent y)" "y / pow2 (ulp_exponent y)"]
        assms(2)
        by (simp add: nearest_def divide_pow2_mono)
  next
    case False
    then have ulp: "ulp_exponent y = binary_exponent y - 52" "binary_exponent x < binary_exponent y"
        "ulp_exponent x \<le> binary_exponent y"
      using binary_exponent_mono [OF pos(1) assms(2)] by (auto simp: ulp_exponent_def max_def split: if_splits)
    have "x \<le> pow2 (binary_exponent y)"
      using binary_exponent_bounds [OF pos(1)] pow2_mono [of "binary_exponent x + 1" "binary_exponent y"]
        ulp(2) by simp
    then have "nearest x \<le> pow2 (binary_exponent y)"
      using round_below ulp(3) pos(1) by (simp add: nearest_def)
    also have "\<dots> \<le> nearest y"
      using round_above [of "binary_exponent y" y "ulp_exponent y"] binary_exponent_bounds [OF pos(2)]
        ulp(1) pos(2) by (simp add: nearest_def)
    finally show ?thesis .
  qed
qed

text \<open>What is a float already is not changed: \<^verbatim>\<open>m * 2 ^ k\<close> with a mantissa of 53 bits.\<close>

lemma nearest_float:
  assumes "m < 2 ^ 53" "- 1074 \<le> k"
  shows "nearest (of_nat m * pow2 k) = of_nat m * pow2 k"
proof (cases "m = 0")
  case True
  then show ?thesis
    by (simp add: nearest_def)
next
  case False
  let ?x = "of_nat m * pow2 k"
  let ?u = "ulp_exponent ?x"
  have pos: "0 < ?x"
    using False by simp
  have "?x < pow2 53 * pow2 k"
  proof -
    have "(of_nat m :: rat) < of_nat (2 ^ 53)"
      using assms(1) by (simp only: of_nat_less_iff)
    then have "of_nat m < pow2 53"
      by (simp add: pow2_def)
    then show ?thesis
      by simp
  qed
  then have "pow2 (binary_exponent ?x) < pow2 (53 + k)"
    using binary_exponent_bounds [OF pos] unfolding pow2_add by linarith
  then have "binary_exponent ?x < 53 + k"
    using pow2_mono [of "53 + k" "binary_exponent ?x"] by (meson leI not_less)
  then have "?u \<le> k"
    using assms(2) by (simp add: ulp_exponent_def)
  then have "?x / pow2 ?u = of_int (int m * 2 ^ nat (k - ?u))"
    using pow2_of_int [of "k - ?u"] by (simp add: pow2_diff times_divide_eq_right [symmetric]
        del: times_divide_eq_right)
  then have "round_half_even (?x / pow2 ?u) = int m * 2 ^ nat (k - ?u)"
    by (metis round_half_even_of_int)
  then have "nearest ?x = of_int (int m * 2 ^ nat (k - ?u)) * pow2 ?u"
    using pos by (simp add: nearest_def)
  also have "\<dots> = ?x / pow2 ?u * pow2 ?u"
    using \<open>?x / pow2 ?u = of_int (int m * 2 ^ nat (k - ?u))\<close> by simp
  finally show ?thesis
    using pow2_pos [of ?u] by simp
qed

lemma nearest_of_nat: "n < 2 ^ 53 \<Longrightarrow> nearest (of_nat n) = of_nat n"
  using nearest_float [of n 0] by (simp add: pow2_def)

lemma fl_Fin:
  assumes "0 \<le> x" "x \<le> 2 ^ 1000"
  shows "fl x = Fin (nearest x)"
proof -
  have "nearest x \<le> nearest (pow2 1000)"
    using assms by (intro nearest_mono) (simp_all add: pow2_def)
  also have "\<dots> = pow2 1000"
    using nearest_float [of 1 1000] by simp
  also have "\<dots> < 2 ^ 1024"
    by (simp add: pow2_def)
  finally show ?thesis
    by (simp add: fl_def)
qed

end
