(* ===== verification/Text.thy ===== *)
theory Text
  imports Floats "HOL-Library.Sublist"
begin

text \<open>
  What the source uses of Rust's strings, numbers and JSON values: searching, splitting and lower
  casing the UTF-8 bytes of a text, integers and floats read from decimal digits, and the JSON values that a parser, not part of the repository, returns.
\<close>

section \<open>Searching and splitting\<close>

fun find_str :: "string \<Rightarrow> string \<Rightarrow> nat option" where
  "find_str p [] = (if p = [] then Some 0 else None)"
| "find_str p (c # s) = (if prefix p (c # s) then Some 0 else map_option Suc (find_str p s))"

definition contains :: "string \<Rightarrow> string \<Rightarrow> bool" where
  "contains p s \<longleftrightarrow> find_str p s \<noteq> None"

definition contains_any :: "string list \<Rightarrow> string \<Rightarrow> bool" where
  "contains_any ps s \<longleftrightarrow> list_ex (\<lambda>p. contains p s) ps"

definition split_once :: "string \<Rightarrow> string \<Rightarrow> (string \<times> string) option" where
  "split_once p s = map_option (\<lambda>i. (take i s, drop (i + length p) s)) (find_str p s)"

fun split_on :: "(char \<Rightarrow> bool) \<Rightarrow> string \<Rightarrow> string list" where
  "split_on P [] = [[]]"
| "split_on P (c # s) =
     (if P c then [] # split_on P s
      else case split_on P s of [] \<Rightarrow> [[c]] | t # ts \<Rightarrow> (c # t) # ts)"

lemma sublist_trans: "sublist u v \<Longrightarrow> sublist v w \<Longrightarrow> sublist u w"
  by (metis sublist_order.order.trans)

lemma find_str_SomeD:
  "find_str p s = Some i \<Longrightarrow> s = take i s @ p @ drop (i + length p) s \<and> i + length p \<le> length s"
proof (induction s arbitrary: i)
  case Nil
  then show ?case by (simp split: if_splits)
next
  case (Cons c s)
  show ?case
  proof (cases "prefix p (c # s)")
    case True
    then show ?thesis
      using Cons.prems by (auto simp: prefix_def dest: arg_cong [of _ _ length])
  next
    case False
    then obtain j where "find_str p s = Some j" "i = Suc j"
      using Cons.prems by auto
    then show ?thesis
      using Cons.IH [of j] by simp
  qed
qed

lemma find_str_None_iff: "find_str p s = None \<longleftrightarrow> \<not> sublist p s"
  by (induction s) (auto simp: sublist_Cons_right)

lemma contains_iff: "contains p s \<longleftrightarrow> sublist p s"
  using find_str_None_iff [of p s] by (simp add: contains_def)

text \<open>The first occurrence: no earlier prefix of the text contains the pattern.\<close>

lemma find_str_first:
  "find_str p s = Some i \<Longrightarrow> k < i + length p \<Longrightarrow> \<not> sublist p (take k s)"
proof (induction s arbitrary: i k)
  case Nil
  then show ?case by (auto split: if_splits)
next
  case (Cons c s)
  show ?case
  proof (cases "prefix p (c # s)")
    case True
    then show ?thesis
      using Cons.prems by (auto dest!: sublist_length_le)
  next
    case False
    then obtain j where j: "find_str p s = Some j" "i = Suc j"
      using Cons.prems by auto
    show ?thesis
    proof (cases k)
      case 0
      then show ?thesis
        using False by auto
    next
      case (Suc m)
      have "\<not> sublist p (take m s)"
        using Cons.IH [OF j(1)] Cons.prems(2) j(2) Suc by simp
      moreover have "\<not> prefix p (c # take m s)"
        using False by (metis Suc prefix_order.trans take_Suc_Cons take_is_prefix)
      ultimately show ?thesis
        using Suc by (simp add: sublist_Cons_right)
    qed
  qed
qed

text \<open>A word without a certain character lies on one side of that character.\<close>

lemma sublist_around:
  assumes "sublist w (a @ c # b)" "c \<notin> set w"
  shows "sublist w a \<or> sublist w b"
proof -
  obtain u v where e: "a @ c # b = u @ w @ v"
    using assms(1) by (auto simp: sublist_def)
  then consider t where "a = u @ t" "t @ c # b = w @ v"
    | t where "u = a @ t" "c # b = t @ w @ v"
    by (auto simp: append_eq_append_conv2)
  then show ?thesis
  proof cases
    case 1
    then obtain r where "t = w @ r \<or> w = t @ r \<and> c # b = r @ v"
      by (auto simp: append_eq_append_conv2)
    then show ?thesis
    proof
      assume "t = w @ r"
      then show ?thesis
        using 1 by (auto simp: sublist_def)
    next
      assume r: "w = t @ r \<and> c # b = r @ v"
      then have "r = []"
        using assms(2) by (cases r) auto
      then have "a = u @ w @ []"
        using r 1 by simp
      then show ?thesis
        by (metis sublist_appendI)
    qed
  next
    case 2
    show ?thesis
    proof (cases t)
      case Nil
      then have "w = []"
        using 2 assms(2) by (cases w) auto
      then show ?thesis
        by simp
    next
      case (Cons x t')
      then have "b = t' @ w @ v"
        using 2 by simp
      then show ?thesis
        by (metis sublist_appendI)
    qed
  qed
qed

text \<open>\<^verbatim>\<open>str::replace\<close>: every occurrence, from the left, without overlap.\<close>

function replace_str :: "string \<Rightarrow> string \<Rightarrow> string \<Rightarrow> string" where
  "replace_str p r s =
     (if p = [] then s
      else case find_str p s of
             None \<Rightarrow> s
           | Some i \<Rightarrow> take i s @ r @ replace_str p r (drop (i + length p) s))"
  by pat_completeness auto
termination
proof (relation "measure (\<lambda>(p, r, s). length s)", goal_cases)
  case 1
  then show ?case by simp
next
  case (2 p r s i)
  then show ?case
    using find_str_SomeD [of p s i] by (cases p) auto
qed

declare replace_str.simps [simp del]

definition starts_with :: "string \<Rightarrow> string \<Rightarrow> bool" where
  "starts_with p s \<longleftrightarrow> take (length p) s = p"

text \<open>\<^verbatim>\<open>rsplit_once\<close> on one character.\<close>

definition rsplit_once :: "char \<Rightarrow> string \<Rightarrow> (string \<times> string) option" where
  "rsplit_once c s =
     (if c \<in> set s
      then let after = rev (takeWhile (\<lambda>x. x \<noteq> c) (rev s))
           in Some (take (length s - length after - 1) s, after)
      else None)"

section \<open>Letter case and characters\<close>

definition ascii_lower :: "char \<Rightarrow> char" where
  "ascii_lower c =
     (let n = of_char c :: nat in if 65 \<le> n \<and> n \<le> 90 then char_of (n + 32) else c)"

definition ascii_upper :: "char \<Rightarrow> char" where
  "ascii_upper c =
     (let n = of_char c :: nat in if 97 \<le> n \<and> n \<le> 122 then char_of (n - 32) else c)"

text \<open>
  Lower casing, as far as a search for ASCII text can tell: besides the ASCII letters, the only
  code points whose lower case has an ASCII letter are U+0130 and the Kelvin sign U+212A.  Every
  other code point above ASCII lowers to code points above ASCII and is left as it is here.
\<close>

fun to_lowercase :: "string \<Rightarrow> string" where
  "to_lowercase [] = []"
| "to_lowercase (c # s) =
     (if List.map of_char (take 2 (c # s)) = [196, 176 :: nat]
      then [CHR ''i'', char_of (204 :: nat), char_of (135 :: nat)] @ to_lowercase (drop 1 s)
      else if List.map of_char (take 3 (c # s)) = [226, 132, 170 :: nat]
      then CHR ''k'' # to_lowercase (drop 2 s)
      else ascii_lower c # to_lowercase s)"

definition is_continuation :: "char \<Rightarrow> bool" where
  "is_continuation c \<longleftrightarrow> 128 \<le> (of_char c :: nat) \<and> (of_char c :: nat) < 192"

definition char_count :: "string \<Rightarrow> nat" where
  "char_count s = count_where (\<lambda>c. \<not> is_continuation c) s"

definition is_char_boundary :: "string \<Rightarrow> nat \<Rightarrow> bool" where
  "is_char_boundary s i \<longleftrightarrow> i = 0 \<or> i = length s \<or> (i < length s \<and> \<not> is_continuation (s ! i))"

text \<open>\<^verbatim>\<open>split_whitespace\<close> keeps the runs between white space.\<close>

function words_from :: "string \<Rightarrow> string \<Rightarrow> string list" where
  "words_from word s =
     (if s = [] then (if word = [] then [] else [word])
      else if space_len white_space s = 0 then words_from (word @ [hd s]) (tl s)
      else (if word = [] then [] else [word]) @ words_from [] (drop (space_len white_space s) s))"
  by pat_completeness auto
termination
  by (relation "measure (\<lambda>(w, s). length s)") auto

declare words_from.simps [simp del]

definition split_whitespace :: "string \<Rightarrow> string list" where
  "split_whitespace s = words_from [] s"

fun join :: "string \<Rightarrow> string list \<Rightarrow> string" where
  "join sep [] = []"
| "join sep [w] = w"
| "join sep (w # v # ws) = w @ sep @ join sep (v # ws)"

section \<open>Numbers in text\<close>

definition parse_u16 :: "string \<Rightarrow> nat option" where
  "parse_u16 digits =
     (if digits = [] \<or> \<not> list_all is_digit digits then None
      else let v = digits_value digits in if v \<le> 65535 then Some v else None)"

text \<open>
  \<^verbatim>\<open>str::parse::<f64>\<close> on digits and points, with the test that the result is finite: at
  most one point and at least one digit.
\<close>

definition parse_f64 :: "string \<Rightarrow> rat option" where
  "parse_f64 s =
     (let whole = takeWhile is_digit s; rest = dropWhile is_digit s in
      case rest of
        [] \<Rightarrow> if whole = [] then None else finite_f64 (fl (of_nat (digits_value whole)))
      | c # fraction \<Rightarrow>
          if c = CHR ''.'' \<and> list_all is_digit fraction \<and> (whole \<noteq> [] \<or> fraction \<noteq> [])
          then finite_f64 (fl (of_nat (digits_value whole) +
                 of_nat (digits_value fraction) / 10 ^ length fraction))
          else None)"

section \<open>JSON values\<close>

text \<open>
  The values of \<^verbatim>\<open>serde_json\<close>; a number is its text.  The parser is not part of the
  repository: where the source parses, it is an argument.
\<close>

datatype (plugins only: code size) json =
    JNull
  | JBool bool
  | JNumber string
  | JString string
  | JArray "json list"
  | JObject "(string \<times> json) list"

fun json_get :: "string \<Rightarrow> json \<Rightarrow> json option" where
  "json_get k (JObject members) = map_of members k"
| "json_get k _ = None"

fun json_str :: "json \<Rightarrow> string option" where
  "json_str (JString s) = Some s"
| "json_str _ = None"

end
