(* ===== verification/Retry.thy ===== *)
theory Retry
  imports Text Schema
begin

text \<open>
  How the candidate walk reads a failed attempt (\<^verbatim>\<open>router/src/retry.rs\<close>): the
  classification of an upstream failure, the waits between attempts, the shortening of a prompt
  that did not fit, and the scrubbing of what is logged of an error.
\<close>

section \<open>Failures and messages\<close>

text \<open>
  An \<^verbatim>\<open>anyhow::Error\<close> as this module sees it: the text of the error, the text with its
  chain of causes, and the status of the \<^verbatim>\<open>reqwest\<close> error inside, if it is one and has one.
\<close>

record upstream_error =
  e_text :: string
  e_chain :: string
  e_status :: "nat option"

datatype content_part = TextPart string bool | ImagePart string bool

record chat_message =
  m_role :: string
  m_content :: string
  m_cache_control :: bool
  m_parts :: "content_part list"

record tool_call =
  tc_id :: string
  tc_name :: string
  tc_arguments :: string
  tc_extra_content :: "json option"

datatype stop_reason = StopEnd | StopLength | StopToolCalls | StopContentFilter

fun stop_reason_as_str :: "stop_reason \<Rightarrow> string" where
  "stop_reason_as_str StopEnd = ''stop''"
| "stop_reason_as_str StopLength = ''length''"
| "stop_reason_as_str StopToolCalls = ''tool_calls''"
| "stop_reason_as_str StopContentFilter = ''content_filter''"

definition stop_reason_from_openai :: "string \<Rightarrow> stop_reason option" where
  "stop_reason_from_openai reason =
     (if reason = ''stop'' then Some StopEnd
      else if reason = ''length'' then Some StopLength
      else if reason = ''tool_calls'' \<or> reason = ''function_call'' then Some StopToolCalls
      else if reason = ''content_filter'' then Some StopContentFilter
      else None)"

record chat_response =
  cr_text :: "string option"
  cr_tool_calls :: "tool_call list"
  cr_usage :: "token_usage option"
  cr_reasoning_content :: "string option"
  cr_stop_reason :: "stop_reason option"

definition text_or_empty :: "chat_response \<Rightarrow> string" where
  "text_or_empty r = (case cr_text r of None \<Rightarrow> [] | Some t \<Rightarrow> t)"

section \<open>Classification\<close>

definition RETENTION_ATTESTATION_MARKER :: string where
  "RETENTION_ATTESTATION_MARKER = ''did not attest zero data retention''"

definition is_retention_attestation_failure :: "upstream_error \<Rightarrow> bool" where
  "is_retention_attestation_failure err \<longleftrightarrow> contains RETENTION_ATTESTATION_MARKER (e_text err)"

definition is_rate_limited :: "upstream_error \<Rightarrow> bool" where
  "is_rate_limited err =
     (case e_status err of
        Some code \<Rightarrow> code = 429
      | None \<Rightarrow> contains ''429'' (e_text err) \<and>
          (contains ''Too Many'' (e_text err) \<or> contains ''rate'' (e_text err) \<or>
           contains ''limit'' (e_text err)))"

definition business_hints :: "string list" where
  "business_hints = [''plan does not include'', ''doesn't include'', ''not include'',
     ''insufficient balance'', ''insufficient_balance'', ''insufficient quota'',
     ''insufficient_quota'', ''quota exhausted'', ''out of credits'', ''no available package'',
     ''package not active'', ''purchase package'', ''model not available for your plan'']"

definition number_tokens :: "string \<Rightarrow> nat list" where
  "number_tokens s = List.map_filter parse_u16 (split_on (\<lambda>c. \<not> is_digit c) s)"

definition is_non_retryable_rate_limit :: "upstream_error \<Rightarrow> bool" where
  "is_non_retryable_rate_limit err \<longleftrightarrow>
     is_rate_limited err \<and>
     (let lower = to_lowercase (e_text err) in
      contains_any business_hints lower \<or>
      list_ex (\<lambda>code. code = 1113 \<or> code = 1311) (number_tokens lower))"

definition context_hints :: "string list" where
  "context_hints = [''exceeds the context window'', ''exceeds the available context size'',
     ''context window of this model'', ''maximum context length'', ''context length exceeded'',
     ''too many tokens'', ''token limit exceeded'', ''prompt is too long'', ''input is too long'',
     ''prompt exceeds max length'']"

definition is_context_window_exceeded :: "upstream_error \<Rightarrow> bool" where
  "is_context_window_exceeded err \<longleftrightarrow> contains_any context_hints (to_lowercase (e_text err))"

definition tool_schema_hints :: "string list" where
  "tool_schema_hints = [''tool call validation failed'', ''was not in request'',
     ''not found in tool list'', ''invalid_tool_call'']"

definition is_tool_schema_error :: "upstream_error \<Rightarrow> bool" where
  "is_tool_schema_error err \<longleftrightarrow> contains_any tool_schema_hints (to_lowercase (e_text err))"

definition auth_hints :: "string list" where
  "auth_hints = [''invalid api key'', ''incorrect api key'', ''missing api key'',
     ''api key not set'', ''authentication failed'', ''auth failed'', ''unauthorized'',
     ''forbidden'', ''permission denied'', ''access denied'', ''invalid token'']"

definition is_non_retryable :: "upstream_error \<Rightarrow> bool" where
  "is_non_retryable err =
     (if is_context_window_exceeded err \<or> is_tool_schema_error err then False
      else case e_status err of
        Some code \<Rightarrow> 400 \<le> code \<and> code < 500 \<and> code \<noteq> 429 \<and> code \<noteq> 408
      | None \<Rightarrow>
          (case List.find (\<lambda>code. 400 \<le> code \<and> code < 500) (number_tokens (e_text err)) of
             Some code \<Rightarrow> code \<noteq> 429 \<and> code \<noteq> 408
           | None \<Rightarrow>
               (let lower = to_lowercase (e_text err) in
                contains_any auth_hints lower \<or>
                (contains ''model'' lower \<and>
                 contains_any [''not found'', ''unknown'', ''unsupported'', ''does not exist'',
                   ''invalid''] lower))))"

datatype failure_class =
    Retryable
  | RateLimited
  | RateLimitedNonRetryable
  | NonRetryable
  | ContextWindow bool
  | RetentionAttestation

definition classify :: "upstream_error \<Rightarrow> bool \<Rightarrow> failure_class" where
  "classify err context_truncated =
     (if is_retention_attestation_failure err then RetentionAttestation
      else let rate_limited = is_rate_limited err in
        if \<not> context_truncated \<and> is_context_window_exceeded err then ContextWindow rate_limited
        else
          let non_retryable = is_non_retryable err \<or> is_non_retryable_rate_limit err in
          if non_retryable then (if rate_limited then RateLimitedNonRetryable else NonRetryable)
          else (if rate_limited then RateLimited else Retryable))"

definition class_is_non_retryable :: "failure_class \<Rightarrow> bool" where
  "class_is_non_retryable c \<longleftrightarrow> c \<in> {NonRetryable, RateLimitedNonRetryable, RetentionAttestation}"

definition class_is_rate_limited :: "failure_class \<Rightarrow> bool" where
  "class_is_rate_limited c \<longleftrightarrow> c \<in> {RateLimited, RateLimitedNonRetryable}"

definition permits_byok_fallback :: "failure_class \<Rightarrow> bool" where
  "permits_byok_fallback c \<longleftrightarrow> c \<noteq> RateLimitedNonRetryable"

fun class_outcome :: "failure_class \<Rightarrow> string" where
  "class_outcome RateLimited = ''rate_limited''"
| "class_outcome RateLimitedNonRetryable = ''rate_limited''"
| "class_outcome (ContextWindow rate_limited) =
     (if rate_limited then ''rate_limited'' else ''upstream_error'')"
| "class_outcome Retryable = ''upstream_error''"
| "class_outcome NonRetryable = ''upstream_error''"
| "class_outcome RetentionAttestation = ''upstream_error''"

section \<open>Waiting\<close>

definition BACKOFF_CAP_MS :: nat where
  "BACKOFF_CAP_MS = 10000"

definition RETRY_AFTER_CAP_MS :: nat where
  "RETRY_AFTER_CAP_MS = 30000"

text \<open>
  The hint of an upstream, in milliseconds.  \<^verbatim>\<open>Duration::from_secs_f64\<close> rounds to the
  nearest nanosecond and panics from \<^verbatim>\<open>2 ^ 64\<close> seconds on, which is a result of its own here.
\<close>

datatype retry_after = NoHint | Hint nat | Panics

fun retry_after_from :: "string list \<Rightarrow> string \<Rightarrow> retry_after" where
  "retry_after_from [] lower = NoHint"
| "retry_after_from (p # ps) lower =
     (case find_str p lower of
        None \<Rightarrow> retry_after_from ps lower
      | Some pos \<Rightarrow>
          (let after = drop (pos + length p) lower;
               num_str = takeWhile (\<lambda>c. is_digit c \<or> c = CHR ''.'') (trim after)
           in case parse_f64 num_str of
                None \<Rightarrow> retry_after_from ps lower
              | Some secs \<Rightarrow>
                  if 2 ^ 64 \<le> secs then Panics
                  else let millis = nat (round_half_even (secs * 10 ^ 9)) div 10 ^ 6
                       in if millis \<le> u64_max then Hint millis else retry_after_from ps lower))"

definition retry_after_prefixes :: "string list" where
  "retry_after_prefixes = [''retry-after:'', ''retry_after:'', ''retry-after '', ''retry_after '']"

definition parse_retry_after_ms :: "upstream_error \<Rightarrow> retry_after" where
  "parse_retry_after_ms err = retry_after_from retry_after_prefixes (to_lowercase (e_text err))"

definition compute_backoff :: "nat \<Rightarrow> upstream_error \<Rightarrow> nat option" where
  "compute_backoff base_ms err =
     (case parse_retry_after_ms err of
        Panics \<Rightarrow> None
      | Hint ms \<Rightarrow> Some (max (min ms RETRY_AFTER_CAP_MS) base_ms)
      | NoHint \<Rightarrow> Some base_ms)"

definition next_backoff :: "nat \<Rightarrow> nat" where
  "next_backoff base_ms = min (sat_mul base_ms 2) BACKOFF_CAP_MS"

section \<open>Responses and prompts\<close>

definition is_empty_completion :: "chat_response \<Rightarrow> bool" where
  "is_empty_completion r \<longleftrightarrow>
     trim (text_or_empty r) = [] \<and> cr_tool_calls r = [] \<and>
     (case cr_reasoning_content r of None \<Rightarrow> True | Some reasoning \<Rightarrow> trim reasoning = [])"

definition remove_at :: "nat \<Rightarrow> 'a list \<Rightarrow> 'a list" where
  "remove_at i xs = take i xs @ drop (Suc i) xs"

definition non_system :: "chat_message list \<Rightarrow> nat list" where
  "non_system messages =
     List.filter (\<lambda>i. m_role (messages ! i) \<noteq> ''system'') [0..<length messages]"

definition truncate_for_context :: "chat_message list \<Rightarrow> nat \<times> chat_message list" where
  "truncate_for_context messages =
     (if length (non_system messages) \<le> 1 then (0, messages)
      else let drop_count = length (non_system messages) div 2
           in (drop_count,
               fold remove_at (rev (take drop_count (non_system messages))) messages))"

section \<open>What is logged of an error\<close>

definition is_alnum :: "char \<Rightarrow> bool" where
  "is_alnum c \<longleftrightarrow> is_digit c \<or> (let n = of_char c :: nat in 65 \<le> n \<and> n \<le> 90 \<or> 97 \<le> n \<and> n \<le> 122)"

definition is_secret_char :: "char \<Rightarrow> bool" where
  "is_secret_char c \<longleftrightarrow> is_alnum c \<or> c \<in> set ''-_.:''"

definition PREFIXES :: "string list" where
  "PREFIXES = [''sk-'', ''xoxb-'', ''xoxp-'', ''ghp_'', ''gho_'', ''ghu_'', ''github_pat_'']"

definition REDACTED :: string where
  "REDACTED = ''[REDACTED]''"

text \<open>The loop over one prefix; what lies before the search position is not looked at again.\<close>

function scrub_from :: "string \<Rightarrow> string \<Rightarrow> string" where
  "scrub_from p s =
     (if p = [] then s
      else case find_str p s of
        None \<Rightarrow> s
      | Some i \<Rightarrow>
          (let rest = drop (i + length p) s in
           if takeWhile is_secret_char rest = [] then take (i + length p) s @ scrub_from p rest
           else take i s @ REDACTED @ scrub_from p (dropWhile is_secret_char rest)))"
  by pat_completeness auto
termination
proof (relation "measure (\<lambda>(p, s). length s)", goal_cases)
  case 1
  then show ?case by simp
next
  case (2 p s i rest)
  then show ?case
    using find_str_SomeD [of p s i] by (cases p) auto
next
  case (3 p s i rest)
  have "length (dropWhile is_secret_char rest) \<le> length rest"
    by (rule length_dropWhile_le)
  then show ?case
    using 3 find_str_SomeD [of p s i] by (cases p) auto
qed

declare scrub_from.simps [simp del]

lemma scrub_from_None: "find_str q s = None \<Longrightarrow> scrub_from q s = s"
  by (simp add: scrub_from.simps)

lemma scrub_from_open:
  "q \<noteq> [] \<Longrightarrow> find_str q s = Some i \<Longrightarrow> takeWhile is_secret_char (drop (i + length q) s) = [] \<Longrightarrow>
    scrub_from q s = take (i + length q) s @ scrub_from q (drop (i + length q) s)"
  by (subst scrub_from.simps) (simp add: Let_def)

lemma scrub_from_replace:
  "q \<noteq> [] \<Longrightarrow> find_str q s = Some i \<Longrightarrow> takeWhile is_secret_char (drop (i + length q) s) \<noteq> [] \<Longrightarrow>
    scrub_from q s =
      take i s @ REDACTED @ scrub_from q (dropWhile is_secret_char (drop (i + length q) s))"
  by (subst scrub_from.simps) (simp add: Let_def)

definition scrub_secret_patterns :: "string \<Rightarrow> string" where
  "scrub_secret_patterns input = fold scrub_from PREFIXES input"

definition MAX_API_ERROR_CHARS :: nat where
  "MAX_API_ERROR_CHARS = 500"

fun boundary_below :: "string \<Rightarrow> nat \<Rightarrow> nat" where
  "boundary_below s 0 = 0"
| "boundary_below s (Suc n) = (if is_char_boundary s (Suc n) then Suc n else boundary_below s n)"

definition sanitize_api_error :: "string \<Rightarrow> string" where
  "sanitize_api_error input =
     (let scrubbed = scrub_secret_patterns input in
      if char_count scrubbed \<le> MAX_API_ERROR_CHARS then scrubbed
      else take (boundary_below scrubbed MAX_API_ERROR_CHARS) scrubbed @ ''...'')"

definition compact_error_detail :: "upstream_error \<Rightarrow> string" where
  "compact_error_detail err = join '' '' (split_whitespace (sanitize_api_error (e_chain err)))"

text \<open>The parameter a 400 refused; the JSON parser is an argument.\<close>

definition parameter_rejection :: "(string \<Rightarrow> json option) \<Rightarrow> upstream_error \<Rightarrow> string option" where
  "parameter_rejection from_str err =
     Option.bind (split_once ''HTTP 400'' (e_text err)) (\<lambda>(_, after_status).
     Option.bind (split_once '': '' after_status) (\<lambda>(_, tail).
     Option.bind (from_str (trim tail)) (\<lambda>envelope.
     Option.bind (json_get ''error'' envelope) (\<lambda>error.
     if Option.bind (json_get ''type'' error) json_str \<noteq> Some ''invalid_request_error'' then None
     else Option.bind (Option.bind (json_get ''param'' error) json_str) (\<lambda>param.
       if trim param = [] then None
       else let message = (case Option.bind (json_get ''message'' error) json_str of
                             None \<Rightarrow> [] | Some m \<Rightarrow> m);
                sanitized = sanitize_api_error (trim message)
            in Some (if sanitized = [] then ''parameter '' @ [CHR 0x27] @ param @ [CHR 0x27] @ '' was refused''
                     else ''parameter '' @ [CHR 0x27] @ param @ [CHR 0x27] @ '': '' @ sanitized))))))"


section \<open>Removing by index\<close>

text \<open>A reference for the truncation: drop the first messages that are not of the system.\<close>

fun drop_non_system :: "nat \<Rightarrow> chat_message list \<Rightarrow> chat_message list" where
  "drop_non_system 0 ms = ms"
| "drop_non_system (Suc n) [] = []"
| "drop_non_system (Suc n) (m # ms) =
     (if m_role m = ''system'' then m # drop_non_system (Suc n) ms else drop_non_system n ms)"

lemma non_system_Nil [simp]: "non_system [] = []"
  by (simp add: non_system_def)

lemma non_system_Cons [simp]:
  "non_system (m # ms) =
     (if m_role m = ''system'' then [] else [0]) @ List.map Suc (non_system ms)"
  by (simp add: non_system_def upt_conv_Cons map_Suc_upt [symmetric] filter_map comp_def
      del: upt_Suc)

lemma length_non_system:
  "length (non_system ms) = count_where (\<lambda>m. m_role m \<noteq> ''system'') ms"
  by (induction ms) simp_all

lemma remove_at_0 [simp]: "remove_at 0 (x # xs) = xs"
  by (simp add: remove_at_def)

lemma fold_remove_at_Suc:
  "fold remove_at (List.map Suc is) (x # xs) = x # fold remove_at is xs"
  by (induction "is" arbitrary: xs) (simp_all add: remove_at_def)

lemma fold_remove_at_non_system:
  "fold remove_at (rev (take n (non_system ms))) ms = drop_non_system n ms"
proof (induction n ms rule: drop_non_system.induct)
  case (3 n m ms)
  then show ?case
    by (simp add: take_map rev_map fold_remove_at_Suc)
qed simp_all

lemma drop_non_system_keeps:
  "subseq (drop_non_system n ms) ms"
  "List.filter (\<lambda>m. m_role m = ''system'') (drop_non_system n ms) =
     List.filter (\<lambda>m. m_role m = ''system'') ms"
  "List.filter (\<lambda>m. m_role m \<noteq> ''system'') (drop_non_system n ms) =
     drop n (List.filter (\<lambda>m. m_role m \<noteq> ''system'') ms)"
  by (induction n ms rule: drop_non_system.induct) auto

section \<open>Scrubbing\<close>

lemma sublist_snocD: "sublist (q @ [c]) (take k s) \<Longrightarrow> sublist q (take (k - 1) s)"
proof -
  assume "sublist (q @ [c]) (take k s)"
  then obtain u v where e: "take k s = u @ (q @ [c]) @ v"
    by (auto simp: sublist_def)
  then have "butlast (take k s) = u @ q @ butlast (c # v)"
    by (simp add: butlast_append)
  moreover have "butlast (take k s) = take (min (length s) k - 1) s"
    by (simp add: butlast_conv_take min.commute)
  ultimately have "sublist q (take (min (length s) k - 1) s)"
    by (metis sublist_appendI)
  moreover have "prefix (take (min (length s) k - 1) s) (take (k - 1) s)"
    by (metis diff_le_mono min.cobounded2 take_all_iff take_is_prefix take_take min.absorb1)
  ultimately show ?thesis
    by (metis prefix_imp_sublist sublist_trans)
qed

lemma scrub_from_hd:
  assumes "q \<noteq> []" "d \<noteq> hd q"
  shows "\<exists>r'. scrub_from q (d # r) = d # r'"
proof (cases "find_str q (d # r)")
  case None
  then show ?thesis
    by (simp add: scrub_from_None)
next
  case (Some i)
  then have "i \<noteq> 0"
    using assms by (cases q) (auto split: if_splits)
  then obtain j where "i = Suc j"
    by (cases i) auto
  then show ?thesis
    using assms(1) Some by (subst scrub_from.simps) (simp add: Let_def)
qed

text \<open>A word that the marker cannot be part of: only secret characters, none of the marker's.\<close>

definition hidden :: "string \<Rightarrow> bool" where
  "hidden w \<longleftrightarrow> list_all is_secret_char w \<and> \<not> sublist w ''REDACTED''"

lemma brackets_not_secret: "\<not> is_secret_char (CHR ''['')" "\<not> is_secret_char (CHR '']'')"
  by (simp_all add: is_secret_char_def is_alnum_def is_digit_def)

lemma hidden_brackets: "hidden w \<Longrightarrow> CHR ''['' \<notin> set w \<and> CHR '']'' \<notin> set w"
  using brackets_not_secret by (auto simp: hidden_def list_all_iff)

lemma sublist_marker:
  assumes "hidden w" "sublist w (a @ REDACTED @ b)"
  shows "sublist w a \<or> sublist w b"
proof -
  have "sublist w (a @ CHR ''['' # (''REDACTED'' @ CHR '']'' # b))"
    using assms(2) by (simp add: REDACTED_def)
  then have "sublist w a \<or> sublist w (''REDACTED'' @ CHR '']'' # b)"
    by (rule sublist_around) (simp add: hidden_brackets [OF assms(1)])
  moreover have "sublist w ''REDACTED'' \<or> sublist w b" if "sublist w (''REDACTED'' @ CHR '']'' # b)"
    using that by (rule sublist_around) (simp add: hidden_brackets [OF assms(1)])
  ultimately show ?thesis
    using assms(1) unfolding hidden_def by blast
qed

lemma sublist_split_at_open:
  assumes "hidden w" "q \<noteq> []" "is_secret_char (hd q)" "takeWhile is_secret_char rest = []"
    "sublist w (a @ scrub_from q rest)"
  shows "sublist w a \<or> sublist w (scrub_from q rest)"
proof (cases rest)
  case Nil
  then show ?thesis
    using assms(2,5) by (simp add: scrub_from_None)
next
  case (Cons d r)
  have d: "\<not> is_secret_char d"
    using assms(4) Cons by (auto split: if_splits)
  then obtain r' where "scrub_from q rest = d # r'"
    using scrub_from_hd [of q d r] assms(2,3) Cons by auto
  moreover have "d \<notin> set w"
    using d assms(1) by (auto simp: hidden_def list_all_iff)
  ultimately show ?thesis
    using sublist_around [of w a d r'] assms(5) by (auto simp: sublist_Cons_right)
qed

lemma scrub_from_keeps:
  assumes "hidden w" "q \<noteq> []" "is_secret_char (hd q)" "sublist w (scrub_from q s)"
  shows "sublist w s"
  using assms(2-4)
proof (induction q s rule: scrub_from.induct)
  case (1 q s)
  note q = 1(3,4) and w = 1(5)
  show ?case
  proof (cases "find_str q s")
    case None
    then show ?thesis
      using w None by (simp add: scrub_from_None)
  next
    case (Some i)
    let ?rest = "drop (i + length q) s"
    have parts: "sublist (take k s) s" "sublist (drop k s) s" for k
      by simp_all
    have rest: "sublist (dropWhile is_secret_char ?rest) s"
      by (metis parts(2) sublist_dropWhile sublist_trans)
    show ?thesis
    proof (cases "takeWhile is_secret_char ?rest = []")
      case True
      then have "sublist w (take (i + length q) s @ scrub_from q ?rest)"
        using w scrub_from_open [OF q(1) Some True] by simp
      then show ?thesis
        using sublist_split_at_open [OF assms(1) q True] 1(1) [OF q(1) Some refl True q] parts
        by (metis sublist_trans)
    next
      case False
      then have "sublist w (take i s @ REDACTED @ scrub_from q (dropWhile is_secret_char ?rest))"
        using w scrub_from_replace [OF q(1) Some False] by simp
      then show ?thesis
        using sublist_marker [OF assms(1)] 1(2) [OF q(1) Some refl False q] parts rest
        by (metis sublist_trans)
    qed
  qed
qed

lemma scrub_from_hides:
  assumes "hidden (q @ [c])" "q \<noteq> []" "is_secret_char (hd q)"
  shows "\<not> sublist (q @ [c]) (scrub_from q s)"
  using assms
proof (induction q s rule: scrub_from.induct)
  case (1 q s)
  have snoc: "\<not> sublist (q @ [c]) t" if "\<not> sublist q t" for t
    using that by (metis sublist_appendI append_Nil sublist_trans)
  show ?case
  proof (cases "find_str q s")
    case None
    then show ?thesis
      using None snoc [of s] find_str_None_iff [of q s] by (simp add: scrub_from_None)
  next
    case (Some i)
    let ?rest = "drop (i + length q) s"
    have before: "\<not> sublist (q @ [c]) (take (i + length q) s)"
      using find_str_first [OF Some, of "i + length q - 1"] sublist_snocD [of q c "i + length q" s] 1(4)
      by (cases q) auto
    have before_i: "\<not> sublist (q @ [c]) (take i s)"
      using before by (metis le_add1 min.absorb1 prefix_imp_sublist sublist_trans take_is_prefix take_take)
    show ?thesis
    proof (cases "takeWhile is_secret_char ?rest = []")
      case True
      then show ?thesis
        using sublist_split_at_open [OF 1(3-5) True] 1(1) [OF 1(4) Some refl True 1(3-5)] before
          scrub_from_open [OF 1(4) Some True] by auto
    next
      case False
      then show ?thesis
        using sublist_marker [OF 1(3)] 1(2) [OF 1(4) Some refl False 1(3-5)] before_i
          scrub_from_replace [OF 1(4) Some False] by auto
    qed
  qed
qed

lemma fold_scrub_keeps:
  assumes "hidden w" "\<forall>q \<in> set qs. q \<noteq> [] \<and> is_secret_char (hd q)"
  shows "sublist w (fold scrub_from qs s) \<Longrightarrow> sublist w s"
  using assms(2)
proof (induction qs arbitrary: s)
  case (Cons q qs)
  then have "sublist w (scrub_from q s)"
    by simp
  then show ?case
    using scrub_from_keeps [OF assms(1), of q s] Cons.prems(2) by auto
qed simp

lemma fold_scrub_hides:
  assumes "hidden (p @ [c])" "p \<in> set qs" "\<forall>q \<in> set qs. q \<noteq> [] \<and> is_secret_char (hd q)"
  shows "\<not> sublist (p @ [c]) (fold scrub_from qs s)"
  using assms(2,3)
proof (induction qs arbitrary: s)
  case (Cons q qs)
  show ?case
  proof (cases "p = q")
    case True
    have "\<not> sublist (p @ [c]) (scrub_from q s)"
      using scrub_from_hides [of q c s] assms(1) Cons.prems(2) True by simp
    then show ?thesis
      using fold_scrub_keeps [OF assms(1), of qs] Cons.prems(2) by auto
  next
    case False
    then show ?thesis
      using Cons by simp
  qed
qed simp

lemma PREFIXES_hidden:
  assumes "p \<in> set PREFIXES" "is_secret_char c"
  shows "hidden (p @ [c])" "p \<noteq> [] \<and> is_secret_char (hd p)"
proof -
  have p: "p \<noteq> [] \<and> hd p \<notin> set ''REDACTED'' \<and> list_all is_secret_char p"
    using assms(1) by (auto simp: PREFIXES_def is_secret_char_def is_alnum_def is_digit_def)
  have "\<not> sublist (p @ [c]) ''REDACTED''"
  proof
    assume "sublist (p @ [c]) ''REDACTED''"
    then obtain ps ss where "''REDACTED'' = ps @ (p @ [c]) @ ss"
      unfolding sublist_def by blast
    then have "set p \<subseteq> set ''REDACTED''"
      by (metis Un_iff set_append subsetI)
    then show False
      using p by (metis list.set_sel(1) subsetD)
  qed
  then show "hidden (p @ [c])" "p \<noteq> [] \<and> is_secret_char (hd p)"
    using p assms(2) by (auto simp: hidden_def list_all_iff)
qed

lemma scrub_from_absent: "\<not> sublist q s \<Longrightarrow> scrub_from q s = s"
  by (simp add: scrub_from_None find_str_None_iff)

lemma scrub_untouched: "\<forall>p \<in> set PREFIXES. \<not> sublist p s \<Longrightarrow> scrub_secret_patterns s = s"
  by (simp add: scrub_secret_patterns_def PREFIXES_def scrub_from_absent)

section \<open>Waits\<close>

lemma compute_backoff_bounds:
  "compute_backoff b e = Some w \<Longrightarrow> b \<le> w \<and> w \<le> max b RETRY_AFTER_CAP_MS"
  by (auto simp: compute_backoff_def split: retry_after.splits)

lemma next_backoff_le: "next_backoff b \<le> BACKOFF_CAP_MS"
  by (simp add: next_backoff_def)

lemma next_backoff_schedule:
  "b \<le> BACKOFF_CAP_MS \<Longrightarrow> (next_backoff ^^ n) b = min (b * 2 ^ n) BACKOFF_CAP_MS"
proof (induction n)
  case (Suc n)
  have "next_backoff (min (b * 2 ^ n) BACKOFF_CAP_MS) = min (b * 2 ^ n * 2) BACKOFF_CAP_MS"
    by (simp add: next_backoff_def sat_mul_def BACKOFF_CAP_MS_def u64_max_def min_def)
  then show ?case
    using Suc by (simp add: mult.assoc mult.commute)
qed simp

text \<open>A hint that no duration can hold ends the task that reads it.\<close>

definition huge_retry_after :: upstream_error where
  "huge_retry_after = \<lparr> e_text = ''HTTP 429: retry-after: 99999999999999999999'',
     e_chain = ''HTTP 429'', e_status = None \<rparr>"

lemma huge_number: "parse_f64 ''99999999999999999999'' = Some 100000000000000000000"
proof -
  have "\<lfloor>99999999999999999999 / 16384 :: rat\<rfloor> = 6103515624999999"
    by (simp add: floor_eq_iff)
  then show ?thesis
    by (simp add: parse_f64_def is_digit_def digits_value_def f64_eval)
qed

lemma huge_retry_after_panics: "compute_backoff 500 huge_retry_after = None"
proof -
  have l: "to_lowercase (e_text huge_retry_after) = ''http 429: retry-after: 99999999999999999999''"
    by code_simp
  have f: "find_str ''retry-after:'' ''http 429: retry-after: 99999999999999999999'' = Some 10"
    by simp
  have n: "takeWhile (\<lambda>c. is_digit c \<or> c = CHR ''.'')
      (trim '' 99999999999999999999'') = ''99999999999999999999''"
    by (simp add: trim_eval is_digit_def)
  show ?thesis
    by (simp add: compute_backoff_def parse_retry_after_ms_def l retry_after_prefixes_def f n huge_number
        Let_def del: find_str.simps)
qed

section \<open>Properties\<close>

text \<open>C36: a backoff is at least its base and at most the larger of the base and the retry-after cap,
  and from the walk's first base it doubles up to its own cap; the one exception is a hint of
  \<^verbatim>\<open>2 ^ 64\<close> seconds or more, which passes the guards and then panics.\<close>

theorem backoff_bounded_or_panics:
  "(case compute_backoff b e of
      None \<Rightarrow> parse_retry_after_ms e = Panics
    | Some w \<Rightarrow> b \<le> w \<and> w \<le> max b RETRY_AFTER_CAP_MS) \<and>
   (next_backoff ^^ n) 500 = min (500 * 2 ^ n) BACKOFF_CAP_MS \<and>
   compute_backoff 500 huge_retry_after = None"
proof -
  have "case compute_backoff b e of
      None \<Rightarrow> parse_retry_after_ms e = Panics
    | Some w \<Rightarrow> b \<le> w \<and> w \<le> max b RETRY_AFTER_CAP_MS"
    by (auto simp: compute_backoff_def min_def max_def split: retry_after.split)
  then show ?thesis
    using next_backoff_schedule [of 500 n] huge_retry_after_panics by (simp add: BACKOFF_CAP_MS_def)
qed

text \<open>after scrubbing, no text of an upstream error still has one of the known credential
  prefixes followed by a character that a credential is made of.\<close>

theorem scrub_leaves_no_secret:
  assumes "p \<in> set PREFIXES" "is_secret_char c"
  shows "\<not> sublist (p @ [c]) (scrub_secret_patterns input)"
  unfolding scrub_secret_patterns_def
  using PREFIXES_hidden [OF _ assms(2)] assms(1) by (intro fold_scrub_hides) auto

lemma scrub_leaves_no_secret_witness:
  "\<not> sublist ''sk-a'' (scrub_secret_patterns ''bad key sk-abc123 (sk- alone), ghp_XY'')"
  using scrub_leaves_no_secret [of "''sk-''" "CHR ''a''"]
  by (simp add: PREFIXES_def is_secret_char_def is_alnum_def is_digit_def)

text \<open>shortening a prompt drops the older half of the messages that are not of the system,
  rounded down and none when at most one is left; every system message stays, the rest keep
  their order, and the count it returns is the count it dropped.\<close>

theorem truncate_drops_older_half:
  "let (n, kept) = truncate_for_context ms;
       others = List.filter (\<lambda>m. m_role m \<noteq> ''system'') ms
   in n = (if length others \<le> 1 then 0 else length others div 2) \<and> subseq kept ms \<and>
      length kept + n = length ms \<and>
      List.filter (\<lambda>m. m_role m = ''system'') kept = List.filter (\<lambda>m. m_role m = ''system'') ms \<and>
      List.filter (\<lambda>m. m_role m \<noteq> ''system'') kept = drop n others"
proof -
  let ?others = "List.filter (\<lambda>m. m_role m \<noteq> ''system'') ms"
  let ?n = "if length ?others \<le> 1 then 0 else length ?others div 2"
  have k: "length (non_system ms) = length ?others"
    by (simp add: length_non_system count_where_def)
  have t: "truncate_for_context ms = (?n, drop_non_system ?n ms)"
    by (simp add: truncate_for_context_def k fold_remove_at_non_system Let_def)
  note keeps = drop_non_system_keeps [of ?n ms]
  have split: "length xs = length (List.filter (\<lambda>m. m_role m = ''system'') xs) +
      length (List.filter (\<lambda>m. m_role m \<noteq> ''system'') xs)" for xs
    using sum_length_filter_compl [of "\<lambda>m. m_role m = ''system''" xs] by simp
  have "length (drop_non_system ?n ms) + ?n = length ms"
    using split [of ms] split [of "drop_non_system ?n ms"] keeps(2,3) by simp
  then show ?thesis
    unfolding t Let_def using keeps by simp
qed

text \<open>an upstream that says the prompt does not fit, and attests retention, is answered by
  shortening the prompt once; after that the same failure is a plain or a rate limited one and
  never a permanent refusal of the request, and every label it can get is one the attempts table
  admits.\<close>

theorem context_failure_repaired_once:
  assumes "is_context_window_exceeded e" "\<not> is_retention_attestation_failure e"
  shows "classify e False = ContextWindow (is_rate_limited e) \<and>
    classify e True \<in> {Retryable, RateLimited, RateLimitedNonRetryable} \<and>
    class_outcome (classify e truncated) \<in> set known_outcomes"
proof -
  have "\<not> is_non_retryable e"
    using assms(1) by (simp add: is_non_retryable_def)
  moreover have "is_non_retryable_rate_limit e \<Longrightarrow> is_rate_limited e"
    by (simp add: is_non_retryable_rate_limit_def)
  moreover have "class_outcome c \<in> {''rate_limited'', ''upstream_error''}" for c
    by (cases c) auto
  moreover have "{''rate_limited'', ''upstream_error''} \<subseteq> set known_outcomes"
    by (simp add: known_outcomes_def)
  ultimately show ?thesis
    using assms by (auto simp: classify_def Let_def)
qed

definition tpm_failure :: upstream_error where
  "tpm_failure = \<lparr> e_text = ''429 Too Many Requests: token limit exceeded'',
     e_chain = ''429 Too Many Requests: token limit exceeded'', e_status = None \<rparr>"

lemma context_failure_repaired_once_witness:
  "classify tpm_failure False = ContextWindow (is_rate_limited tpm_failure)"
proof -
  have "is_context_window_exceeded tpm_failure" "\<not> is_retention_attestation_failure tpm_failure"
    by code_simp+
  then show ?thesis
    using context_failure_repaired_once [of tpm_failure False] by simp
qed

end
