(* ===== verification/Inventory.thy ===== *)
theory Inventory
  imports Text
begin

text \<open>
  The provider inventory (\<^verbatim>\<open>router/src/providers.rs\<close>): what an upstream is, where it is
  dialled and with which credential, the checks an inventory passes when it is loaded, and what of
  it can be dispatched to in a given environment.  The environment is a function from variable
  names to their values; the JSON file is read before, so a list of entries is the input here.  A
  \<^verbatim>\<open>BTreeMap\<close> is the list of its entries by ascending key.
\<close>

section \<open>Entries\<close>

datatype credential_kind = ApiKey | GoogleServiceAccount

definition needs_minting :: "credential_kind \<Rightarrow> bool" where
  "needs_minting k \<longleftrightarrow> k = GoogleServiceAccount"

datatype settlement_declaration = Metered | Free

datatype credential_requirement = Required | NoCredential

datatype provider_adapter =
  Anthropic | OpenAiResponses | ChatCompletions | AnthropicBedrockRuntime

fun dials_a_billed_endpoint :: "provider_adapter \<Rightarrow> bool" where
  "dials_a_billed_endpoint ChatCompletions = False"
| "dials_a_billed_endpoint Anthropic = True"
| "dials_a_billed_endpoint OpenAiResponses = True"
| "dials_a_billed_endpoint AnthropicBedrockRuntime = True"

record provider_surface =
  s_adapter :: provider_adapter
  s_base_url :: string

record provider_metadata =
  p_key :: string
  p_adapter :: provider_adapter
  p_settlement :: settlement_declaration
  p_credential :: credential_requirement
  p_credential_env :: "string option"
  p_secret_name :: "string option"
  p_display_name :: "string option"
  p_base_url :: "string option"
  p_region_env :: "string option"
  p_project_env :: "string option"
  p_credential_kind :: credential_kind
  p_unreconcilable_reason :: "string option"
  p_source_provider_key :: "string option"
  p_attestation_header :: "string option"
  p_attestation_expect :: "string option"
  p_surfaces :: "(string \<times> provider_surface) list"

type_synonym inventory = "provider_metadata list"

definition REGION_PLACEHOLDER :: string where
  "REGION_PLACEHOLDER = ''{region}''"

definition PROJECT_PLACEHOLDER :: string where
  "PROJECT_PLACEHOLDER = ''{project}''"

definition find_provider :: "inventory \<Rightarrow> string \<Rightarrow> provider_metadata option" where
  "find_provider entries key = List.find (\<lambda>p. p_key p = key) entries"

section \<open>Checks\<close>

text \<open>Why an inventory is refused, one value for each message of the source.\<close>

datatype inventory_fault =
    EmptyProviderList
  | EmptyRequiredValue
  | CredentialUndeclared string
  | KeylessOnBilledEndpoint string
  | KeylessWithCredential string
  | FreeOnBilledEndpoint string
  | RegionUndeclared string
  | RegionUnused string
  | EmptyUnreconcilableReason string
  | EmptySourceProviderKey string
  | ContradictoryReconciliation string
  | HalfAttestation string
  | BlankAttestation string
  | UnusableAttestationHeader string
  | UnenforcedAttestation string
  | BlankSurfaceName string
  | EmptySurfaceUrl string string
  | SurfaceRegionUndeclared string string
  | ProjectUndeclared string
  | ProjectUnused string
  | MintedWithoutCredential string
  | RuntimeWithoutUrl string
  | RuntimeUrlWithPath string
  | DuplicateProviderKey string
  | EmptyBaseUrl string
  | ChatCompletionsWithoutUrl string
  | ShadowsShipped string
  | BorrowsShippedCredential string
  | RuntimeWithoutEndpoint string

type_synonym 'a checked = "(inventory_fault, 'a) result"

definition refuse_if :: "bool \<Rightarrow> inventory_fault \<Rightarrow> unit checked" where
  "refuse_if b e = (if b then Inl e else Inr ())"

text \<open>The checks run in their order, and the first refusal is the result.\<close>

fun all_checks :: "('e, unit) result list \<Rightarrow> ('e, unit) result" where
  "all_checks [] = Inr ()"
| "all_checks (Inl e # cs) = Inl e"
| "all_checks (Inr u # cs) = all_checks cs"

definition blank_opt :: "string option \<Rightarrow> bool" where
  "blank_opt v \<longleftrightarrow> (case v of None \<Rightarrow> False | Some s \<Rightarrow> trim s = [])"

definition declared :: "string option \<Rightarrow> bool" where
  "declared v \<longleftrightarrow> (case v of None \<Rightarrow> False | Some s \<Rightarrow> trim s \<noteq> [])"

definition validate_credential :: "provider_metadata \<Rightarrow> unit checked" where
  "validate_credential p =
     (case p_credential p of
        Required \<Rightarrow>
          refuse_if (\<not> declared (p_credential_env p) \<or> \<not> declared (p_secret_name p))
            (CredentialUndeclared (p_key p))
      | NoCredential \<Rightarrow>
          if dials_a_billed_endpoint (p_adapter p) then Inl (KeylessOnBilledEndpoint (p_key p))
          else refuse_if (p_credential_env p \<noteq> None \<or> p_secret_name p \<noteq> None)
                 (KeylessWithCredential (p_key p)))"

definition validate_settlement :: "provider_metadata \<Rightarrow> unit checked" where
  "validate_settlement p =
     refuse_if (p_settlement p = Free \<and> dials_a_billed_endpoint (p_adapter p))
       (FreeOnBilledEndpoint (p_key p))"

definition entry_urls :: "provider_metadata \<Rightarrow> string list" where
  "entry_urls p =
     (case p_base_url p of None \<Rightarrow> [] | Some u \<Rightarrow> [u]) @ List.map (s_base_url \<circ> snd) (p_surfaces p)"

definition validate_region :: "provider_metadata \<Rightarrow> unit checked" where
  "validate_region p =
     (let interpolates = list_ex (contains REGION_PLACEHOLDER) (entry_urls p);
          named = declared (p_region_env p)
      in if interpolates \<and> \<not> named then Inl (RegionUndeclared (p_key p))
         else refuse_if (\<not> interpolates \<and> named) (RegionUnused (p_key p)))"

definition validate_project :: "provider_metadata \<Rightarrow> unit checked" where
  "validate_project p =
     (let interpolates = list_ex (contains PROJECT_PLACEHOLDER) (entry_urls p);
          named = declared (p_project_env p)
      in if interpolates \<and> \<not> named then Inl (ProjectUndeclared (p_key p))
         else refuse_if (\<not> interpolates \<and> named) (ProjectUnused (p_key p)))"

definition validate_reconciliation :: "provider_metadata \<Rightarrow> unit checked" where
  "validate_reconciliation p =
     all_checks
       [refuse_if (blank_opt (p_unreconcilable_reason p)) (EmptyUnreconcilableReason (p_key p)),
        refuse_if (blank_opt (p_source_provider_key p)) (EmptySourceProviderKey (p_key p)),
        refuse_if (p_source_provider_key p \<noteq> None \<and> p_unreconcilable_reason p \<noteq> None)
          (ContradictoryReconciliation (p_key p))]"

text \<open>Whether a text is an HTTP header name is the HTTP library's to say.\<close>

definition validate_attestation :: "(string \<Rightarrow> bool) \<Rightarrow> provider_metadata \<Rightarrow> unit checked" where
  "validate_attestation header_name p =
     (case (p_attestation_header p, p_attestation_expect p) of
        (None, None) \<Rightarrow> Inr ()
      | (Some header, Some expect) \<Rightarrow>
          if trim header = [] \<or> trim expect = [] then Inl (BlankAttestation (p_key p))
          else if \<not> header_name (trim header) then Inl (UnusableAttestationHeader (p_key p))
          else refuse_if
                 (list_ex (\<lambda>a. a \<noteq> ChatCompletions)
                    (p_adapter p # List.map (s_adapter \<circ> snd) (p_surfaces p)))
                 (UnenforcedAttestation (p_key p))
      | _ \<Rightarrow> Inl (HalfAttestation (p_key p)))"

definition validate_surface :: "provider_metadata \<Rightarrow> string \<times> provider_surface \<Rightarrow> unit checked" where
  "validate_surface p = (\<lambda>(name, surface).
     if trim name = [] then Inl (BlankSurfaceName (p_key p))
     else if trim (s_base_url surface) = [] then Inl (EmptySurfaceUrl (p_key p) name)
     else refuse_if (contains REGION_PLACEHOLDER (s_base_url surface) \<and> \<not> declared (p_region_env p))
            (SurfaceRegionUndeclared (p_key p) name))"

definition validate_surfaces :: "provider_metadata \<Rightarrow> unit checked" where
  "validate_surfaces p = all_checks (List.map (validate_surface p) (p_surfaces p))"

definition validate_credential_kind :: "provider_metadata \<Rightarrow> unit checked" where
  "validate_credential_kind p =
     refuse_if (needs_minting (p_credential_kind p) \<and> p_credential p \<noteq> Required)
       (MintedWithoutCredential (p_key p))"

definition trim_end_matches :: "char \<Rightarrow> string \<Rightarrow> string" where
  "trim_end_matches c s = rev (dropWhile (\<lambda>x. x = c) (rev s))"

definition url_has_path :: "string \<Rightarrow> bool" where
  "url_has_path url =
     (let rest = (case split_once ''://'' url of None \<Rightarrow> url | Some (_, r) \<Rightarrow> r)
      in CHR ''/'' \<in> set (trim_end_matches (CHR ''/'') rest))"

definition validate_runtime_root ::
    "provider_metadata \<Rightarrow> provider_adapter \<times> string option \<Rightarrow> unit checked" where
  "validate_runtime_root p = (\<lambda>(adapter, url).
     if adapter \<noteq> AnthropicBedrockRuntime then Inr ()
     else case url of
            None \<Rightarrow> Inl (RuntimeWithoutUrl (p_key p))
          | Some u \<Rightarrow> refuse_if (url_has_path u) (RuntimeUrlWithPath (p_key p)))"

definition validate_runtime_roots :: "provider_metadata \<Rightarrow> unit checked" where
  "validate_runtime_roots p =
     all_checks (List.map (validate_runtime_root p)
       ((p_adapter p, p_base_url p) #
        List.map (\<lambda>(_, s). (s_adapter s, Some (s_base_url s))) (p_surfaces p)))"

definition validate_entry :: "(string \<Rightarrow> bool) \<Rightarrow> string list \<Rightarrow> provider_metadata \<Rightarrow> unit checked" where
  "validate_entry header_name keys p =
     all_checks
       [refuse_if (trim (p_key p) = [] \<or> blank_opt (p_display_name p)) EmptyRequiredValue,
        validate_credential p, validate_settlement p, validate_region p, validate_reconciliation p,
        validate_attestation header_name p, validate_surfaces p, validate_project p,
        validate_credential_kind p, validate_runtime_roots p,
        refuse_if (p_key p \<in> set keys) (DuplicateProviderKey (p_key p)),
        refuse_if (blank_opt (p_base_url p)) (EmptyBaseUrl (p_key p)),
        refuse_if (p_adapter p = ChatCompletions \<and> p_base_url p = None)
          (ChatCompletionsWithoutUrl (p_key p))]"

fun validate_from :: "(string \<Rightarrow> bool) \<Rightarrow> string list \<Rightarrow> inventory \<Rightarrow> unit checked" where
  "validate_from header_name keys [] = Inr ()"
| "validate_from header_name keys (p # ps) =
     (case validate_entry header_name keys p of
        Inl e \<Rightarrow> Inl e
      | Inr u \<Rightarrow> validate_from header_name (p_key p # keys) ps)"

definition validate :: "(string \<Rightarrow> bool) \<Rightarrow> inventory \<Rightarrow> unit checked" where
  "validate header_name entries =
     (if entries = [] then Inl EmptyProviderList else validate_from header_name [] entries)"

fun admit_operator :: "string list \<Rightarrow> string list \<Rightarrow> inventory \<Rightarrow> inventory \<Rightarrow> inventory checked" where
  "admit_operator shipped_keys shipped_credentials [] entries = Inr entries"
| "admit_operator shipped_keys shipped_credentials (p # ps) entries =
     (if p_key p \<in> set shipped_keys then Inl (ShadowsShipped (p_key p))
      else case p_credential_env p of
             Some name \<Rightarrow>
               if name \<in> set shipped_credentials then Inl (BorrowsShippedCredential (p_key p))
               else admit_operator shipped_keys shipped_credentials ps (entries @ [p])
           | None \<Rightarrow> admit_operator shipped_keys shipped_credentials ps (entries @ [p]))"

definition assembled :: "(string \<Rightarrow> bool) \<Rightarrow> inventory \<Rightarrow> inventory \<Rightarrow> inventory checked" where
  "assembled header_name shipped operator =
     (case admit_operator (List.map p_key shipped) (List.map_filter p_credential_env shipped)
             operator shipped of
        Inl e \<Rightarrow> Inl e
      | Inr entries \<Rightarrow> (case validate header_name entries of Inl e \<Rightarrow> Inl e | Inr u \<Rightarrow> Inr entries))"

section \<open>Reading the inventory\<close>

definition provider_has_surface :: "inventory \<Rightarrow> string \<Rightarrow> string \<Rightarrow> bool" where
  "provider_has_surface entries provider surface \<longleftrightarrow>
     (case find_provider entries provider of
        None \<Rightarrow> False | Some p \<Rightarrow> map_of (p_surfaces p) surface \<noteq> None)"

definition provider_carries_cache_control :: "inventory \<Rightarrow> string \<Rightarrow> string option \<Rightarrow> bool" where
  "provider_carries_cache_control entries provider surface \<longleftrightarrow>
     (case Option.bind (find_provider entries provider) (\<lambda>p.
             case surface of
               None \<Rightarrow> Some (p_adapter p)
             | Some name \<Rightarrow> map_option s_adapter (map_of (p_surfaces p) name)) of
        None \<Rightarrow> False
      | Some a \<Rightarrow> a = Anthropic \<or> a = AnthropicBedrockRuntime)"

definition is_supported_provider :: "inventory \<Rightarrow> string \<Rightarrow> bool" where
  "is_supported_provider entries provider \<longleftrightarrow> find_provider entries provider \<noteq> None"

definition provider_settles_free :: "inventory \<Rightarrow> string \<Rightarrow> bool" where
  "provider_settles_free entries provider \<longleftrightarrow>
     (case find_provider entries provider of None \<Rightarrow> False | Some p \<Rightarrow> p_settlement p = Free)"

definition accepts_byok :: "provider_metadata \<Rightarrow> bool" where
  "accepts_byok p \<longleftrightarrow> p_credential p = Required \<and> \<not> needs_minting (p_credential_kind p)"

definition provider_accepts_byok :: "inventory \<Rightarrow> string \<Rightarrow> bool" where
  "provider_accepts_byok entries provider \<longleftrightarrow>
     (case find_provider entries provider of None \<Rightarrow> False | Some p \<Rightarrow> accepts_byok p)"

section \<open>Dispatch\<close>

type_synonym environment_vars = "string \<Rightarrow> string option"

definition read_credential :: "environment_vars \<Rightarrow> string \<Rightarrow> string option" where
  "read_credential env name =
     (case env name of None \<Rightarrow> None | Some v \<Rightarrow> if trim v = [] then None else Some (trim v))"

definition base_url_override :: "environment_vars \<Rightarrow> string \<Rightarrow> string option" where
  "base_url_override env key =
     (let variable = ''ZEROROUTER_PROVIDER_BASE_URL_'' @
            List.map (\<lambda>c. if c = CHR ''-'' then CHR ''_'' else c) (List.map ascii_upper key)
      in case env variable of
           None \<Rightarrow> None | Some v \<Rightarrow> if trim v = [] then None else Some (trim v))"

definition name_or_empty :: "string option \<Rightarrow> string" where
  "name_or_empty v = (case v of None \<Rightarrow> [] | Some s \<Rightarrow> s)"

definition resolve_region ::
    "string \<Rightarrow> string option \<Rightarrow> string option \<Rightarrow> environment_vars \<Rightarrow> string option" where
  "resolve_region base_url region_env project_env read_env =
     Option.bind
       (if contains REGION_PLACEHOLDER base_url
        then map_option (\<lambda>region. replace_str REGION_PLACEHOLDER region base_url)
               (read_env (name_or_empty region_env))
        else Some base_url)
       (\<lambda>resolved.
          if contains PROJECT_PLACEHOLDER resolved
          then map_option (\<lambda>project. replace_str PROJECT_PLACEHOLDER project resolved)
                 (read_env (name_or_empty project_env))
          else Some resolved)"

definition endpoint :: "provider_metadata \<Rightarrow> environment_vars \<Rightarrow> string option option" where
  "endpoint p read_env =
     (case p_base_url p of
        None \<Rightarrow> Some None
      | Some url \<Rightarrow> map_option Some (resolve_region url (p_region_env p) (p_project_env p) read_env))"

definition unresolvable_endpoint_env :: "provider_metadata \<Rightarrow> string" where
  "unresolvable_endpoint_env p =
     name_or_empty (case p_region_env p of None \<Rightarrow> p_project_env p | Some e \<Rightarrow> Some e)"

datatype dispatchable = Ready string "string option" "(string \<times> string) list" | Missing string

fun resolve_surfaces ::
    "string option \<Rightarrow> provider_metadata \<Rightarrow> environment_vars \<Rightarrow>
     (string \<times> provider_surface) list \<Rightarrow> (string \<times> string) list option" where
  "resolve_surfaces override_url p read_env [] = Some []"
| "resolve_surfaces override_url p read_env ((name, surface) # rest) =
     Option.bind
       (case override_url of
          Some url \<Rightarrow> Some url
        | None \<Rightarrow> resolve_region (s_base_url surface) (p_region_env p) (p_project_env p) read_env)
       (\<lambda>resolved. map_option ((#) (name, resolved)) (resolve_surfaces override_url p read_env rest))"

definition dispatch :: "environment_vars \<Rightarrow> environment_vars \<Rightarrow> provider_metadata \<Rightarrow> dispatchable" where
  "dispatch env read_env p =
     (let override_url = base_url_override env (p_key p) in
      case (case override_url of Some url \<Rightarrow> Some (Some url) | None \<Rightarrow> endpoint p read_env) of
        None \<Rightarrow> Missing (unresolvable_endpoint_env p)
      | Some url \<Rightarrow>
          (case resolve_surfaces override_url p read_env (p_surfaces p) of
             None \<Rightarrow> Missing (unresolvable_endpoint_env p)
           | Some surfaces \<Rightarrow>
               (case p_credential p of
                  NoCredential \<Rightarrow> Ready [] url surfaces
                | Required \<Rightarrow>
                    (case read_env (name_or_empty (p_credential_env p)) of
                       None \<Rightarrow> Missing (name_or_empty (p_credential_env p))
                     | Some credential \<Rightarrow> Ready credential url surfaces))))"

definition provider_is_dispatchable :: "inventory \<Rightarrow> environment_vars \<Rightarrow> string \<Rightarrow> bool" where
  "provider_is_dispatchable entries env provider \<longleftrightarrow>
     (case find_provider entries provider of
        None \<Rightarrow> False
      | Some p \<Rightarrow> (case dispatch env (read_credential env) p of
                   Ready _ _ _ \<Rightarrow> True | Missing _ \<Rightarrow> False))"

definition byok_capable_providers :: "inventory \<Rightarrow> environment_vars \<Rightarrow> string list" where
  "byok_capable_providers entries env =
     List.map p_key (List.filter (\<lambda>p. accepts_byok p \<and> provider_is_dispatchable entries env (p_key p)) entries)"

definition plane ::
    "provider_metadata \<Rightarrow> string option \<Rightarrow> string option \<Rightarrow> (string \<times> string) list \<Rightarrow>
     (provider_adapter \<times> string option) option" where
  "plane p surface url surfaces =
     (case surface of
        None \<Rightarrow> Some (p_adapter p, url)
      | Some name \<Rightarrow>
          map_option (\<lambda>s. (s_adapter s, map_of surfaces name)) (map_of (p_surfaces p) name))"

section \<open>What a checked inventory guarantees\<close>

lemma refuse_if_Inr [simp]: "refuse_if b e = Inr u \<longleftrightarrow> \<not> b"
  by (simp add: refuse_if_def)

lemma all_checks_Inr [simp]: "all_checks cs = Inr u \<longleftrightarrow> (\<forall>c \<in> set cs. c = Inr ())"
  by (induction cs rule: all_checks.induct) auto

lemma validate_entry_Inr:
  "validate_entry h keys p = Inr u \<longleftrightarrow>
     trim (p_key p) \<noteq> [] \<and> \<not> blank_opt (p_display_name p) \<and> validate_credential p = Inr () \<and>
     validate_settlement p = Inr () \<and> validate_region p = Inr () \<and> validate_reconciliation p = Inr () \<and>
     validate_attestation h p = Inr () \<and> validate_surfaces p = Inr () \<and> validate_project p = Inr () \<and>
     validate_credential_kind p = Inr () \<and> validate_runtime_roots p = Inr () \<and>
     p_key p \<notin> set keys \<and> \<not> blank_opt (p_base_url p) \<and>
     \<not> (p_adapter p = ChatCompletions \<and> p_base_url p = None)"
  by (auto simp: validate_entry_def)

lemma validate_from_Inr:
  "validate_from h keys entries = Inr u \<Longrightarrow>
    distinct (List.map p_key entries) \<and> set keys \<inter> p_key ` set entries = {} \<and>
    (\<forall>p \<in> set entries. \<exists>ks. validate_entry h ks p = Inr ())"
proof (induction h keys entries rule: validate_from.induct)
  case (2 h keys p ps)
  then have v: "validate_entry h keys p = Inr ()" "validate_from h (p_key p # keys) ps = Inr u"
    by (auto split: sum.splits)
  with 2(1) [OF v(1)] show ?case
    by (auto simp: validate_entry_Inr)
qed simp

lemma admit_operator_Inr:
  "admit_operator ks cs ops entries = Inr entries2 \<Longrightarrow>
    entries2 = entries @ ops \<and> (\<forall>p \<in> set ops. p_key p \<notin> set ks \<and>
      (\<forall>name. p_credential_env p = Some name \<longrightarrow> name \<notin> set cs))"
proof (induction ks cs ops entries rule: admit_operator.induct)
  case (2 ks cs p ps entries)
  show ?case
  proof (cases "p_credential_env p")
    case None
    then show ?thesis
      using 2(1) 2(3) by (simp split: if_split_asm)
  next
    case (Some name)
    then show ?thesis
      using 2(2) 2(3) by (simp split: if_split_asm)
  qed
qed simp

lemma in_map_filter: "x \<in> set xs \<Longrightarrow> f x = Some y \<Longrightarrow> y \<in> set (List.map_filter f xs)"
  by (induction xs) (auto simp: map_filter_simps split: option.splits)

lemma find_provider_SomeD: "find_provider entries k = Some p \<Longrightarrow> p \<in> set entries \<and> p_key p = k"
  unfolding find_provider_def by (rule find_SomeD)

lemma validate_entry_sound:
  assumes e: "validate_entry header_name ks p = Inr ()"
  shows "(p_settlement p = Free \<or> p_credential p = NoCredential \<longrightarrow>
      p_adapter p = ChatCompletions \<and> declared (p_base_url p)) \<and>
    (p_credential p = Required \<longrightarrow> declared (p_credential_env p)) \<and>
    (needs_minting (p_credential_kind p) \<longrightarrow> p_credential p = Required)"
proof -
  have billed: "p_adapter p = ChatCompletions" if "\<not> dials_a_billed_endpoint (p_adapter p)"
    using that by (cases "p_adapter p") auto
  have c: "validate_credential p = Inr ()" "validate_settlement p = Inr ()"
      "validate_credential_kind p = Inr ()" "\<not> blank_opt (p_base_url p)"
      "p_adapter p = ChatCompletions \<Longrightarrow> p_base_url p \<noteq> None"
    using e by (simp_all add: validate_entry_Inr)
  have keyless: "p_credential p = NoCredential \<Longrightarrow> \<not> dials_a_billed_endpoint (p_adapter p)"
      "p_credential p = Required \<Longrightarrow> declared (p_credential_env p)"
    using c(1) by (auto simp: validate_credential_def split: if_splits)
  have free: "p_settlement p = Free \<Longrightarrow> \<not> dials_a_billed_endpoint (p_adapter p)"
      "needs_minting (p_credential_kind p) \<Longrightarrow> p_credential p = Required"
    using c(2,3) by (auto simp: validate_settlement_def validate_credential_kind_def)
  have url: "p_adapter p = ChatCompletions \<Longrightarrow> declared (p_base_url p)"
    using c(4,5) by (auto simp: declared_def blank_opt_def)
  show ?thesis
    using billed keyless free url by blast
qed

lemma admitted_operator_disjoint:
  assumes "admit_operator (List.map p_key shipped) (List.map_filter p_credential_env shipped)
      operator shipped = Inr entries" "p \<in> set operator" "q \<in> set shipped"
  shows "p_key p \<noteq> p_key q \<and> (p_credential_env p \<noteq> None \<longrightarrow> p_credential_env p \<noteq> p_credential_env q)"
proof -
  have fresh: "p_key p \<notin> set (List.map p_key shipped)"
      "\<forall>name. p_credential_env p = Some name \<longrightarrow> name \<notin> set (List.map_filter p_credential_env shipped)"
    using admit_operator_Inr [OF assms(1)] assms(2) by simp_all
  have "p_key q \<in> set (List.map p_key shipped)"
    using assms(3) by simp
  then have "p_key p \<noteq> p_key q"
    using fresh(1) by metis
  moreover have "p_credential_env p \<noteq> p_credential_env q" if some: "p_credential_env p \<noteq> None"
  proof
    assume same: "p_credential_env p = p_credential_env q"
    obtain name where name: "p_credential_env p = Some name"
      using some by (cases "p_credential_env p") simp_all
    then have "name \<in> set (List.map_filter p_credential_env shipped)"
      using in_map_filter [of q shipped p_credential_env name] assms(3) same by simp
    then show False
      using fresh(2) name by simp
  qed
  ultimately show ?thesis
    by simp
qed

lemma assembled_entries:
  assumes "assembled header_name shipped operator = Inr entries" "p \<in> set entries" "p_credential p = Required"
  shows "declared (p_credential_env p)"
proof -
  have "validate_from header_name [] entries = Inr ()"
    using assms(1) by (auto simp: assembled_def validate_def split: sum.splits if_splits)
  then obtain ks where "validate_entry header_name ks p = Inr ()"
    using validate_from_Inr assms(2) by blast
  then show ?thesis
    using validate_entry_sound assms(3) by blast
qed

section \<open>Properties\<close>

text \<open>an inventory that was assembled keeps the shipped entries first and the operator's after
  them under keys of their own; only an entry of the chat completions adapter settles free or takes
  no credential, and it names its endpoint; every other entry names its credential; and no
  operator entry reads a variable that holds a credential of a shipped one.\<close>

theorem assembled_inventory_sound:
  assumes "assembled header_name shipped operator = Inr entries"
  shows "entries = shipped @ operator \<and> distinct (List.map p_key entries) \<and>
    (\<forall>p \<in> set entries.
       (p_settlement p = Free \<or> p_credential p = NoCredential \<longrightarrow>
          p_adapter p = ChatCompletions \<and> declared (p_base_url p)) \<and>
       (p_credential p = Required \<longrightarrow> declared (p_credential_env p)) \<and>
       (needs_minting (p_credential_kind p) \<longrightarrow> p_credential p = Required)) \<and>
    (\<forall>p \<in> set operator. \<forall>q \<in> set shipped.
       p_key p \<noteq> p_key q \<and> (p_credential_env p \<noteq> None \<longrightarrow> p_credential_env p \<noteq> p_credential_env q))"
proof -
  obtain v: "admit_operator (List.map p_key shipped) (List.map_filter p_credential_env shipped)
      operator shipped = Inr entries" "validate_from header_name [] entries = Inr ()"
    using assms by (auto simp: assembled_def validate_def split: sum.splits if_splits)
  note ops = admit_operator_Inr [OF v(1)]
  note valid = validate_from_Inr [OF v(2)]
  have checked: "\<exists>ks. validate_entry header_name ks p = Inr ()" if "p \<in> set entries" for p
    using valid that by auto
  show ?thesis
  proof (rule conjI [OF _ conjI [OF _ conjI]])
    show "entries = shipped @ operator" "distinct (List.map p_key entries)"
      using ops valid by simp_all
    show "\<forall>p \<in> set entries.
       (p_settlement p = Free \<or> p_credential p = NoCredential \<longrightarrow>
          p_adapter p = ChatCompletions \<and> declared (p_base_url p)) \<and>
       (p_credential p = Required \<longrightarrow> declared (p_credential_env p)) \<and>
       (needs_minting (p_credential_kind p) \<longrightarrow> p_credential p = Required)"
    proof
      fix p
      assume "p \<in> set entries"
      from checked [OF this] obtain ks where "validate_entry header_name ks p = Inr ()" ..
      then show "(p_settlement p = Free \<or> p_credential p = NoCredential \<longrightarrow>
          p_adapter p = ChatCompletions \<and> declared (p_base_url p)) \<and>
        (p_credential p = Required \<longrightarrow> declared (p_credential_env p)) \<and>
        (needs_minting (p_credential_kind p) \<longrightarrow> p_credential p = Required)"
        by (rule validate_entry_sound)
    qed
  qed (use admitted_operator_disjoint [OF v(1)] in \<open>intro ballI, simp only:\<close>)
qed

definition demo_provider :: provider_metadata where
  "demo_provider = \<lparr> p_key = ''xai'', p_adapter = ChatCompletions, p_settlement = Metered,
     p_credential = Required, p_credential_env = Some ''XAI_API_KEY'',
     p_secret_name = Some ''xai-api-key'', p_display_name = None,
     p_base_url = Some ''https://api.x.ai/v1'', p_region_env = None, p_project_env = None,
     p_credential_kind = ApiKey, p_unreconcilable_reason = None, p_source_provider_key = None,
     p_attestation_header = None, p_attestation_expect = None, p_surfaces = [] \<rparr>"

definition demo_local :: provider_metadata where
  "demo_local = demo_provider\<lparr> p_key := ''local'', p_settlement := Free, p_credential := NoCredential,
     p_credential_env := None, p_secret_name := None, p_base_url := Some ''http://localhost'' \<rparr>"

lemma demo_inventory_assembled:
  "assembled (\<lambda>_. True) [demo_provider] [demo_local] = Inr [demo_provider, demo_local]"
proof -
  have trimmed [simp]: "trim ''xai'' \<noteq> []" "trim ''local'' \<noteq> []" "trim ''XAI_API_KEY'' \<noteq> []"
      "trim ''xai-api-key'' \<noteq> []" "trim ''https://api.x.ai/v1'' \<noteq> []" "trim ''http://localhost'' \<noteq> []"
    by (simp_all add: trim_eval)
  have [simp]: "\<not> contains p ''https://api.x.ai/v1''" "\<not> contains p ''http://localhost''"
    if "p = REGION_PLACEHOLDER \<or> p = PROJECT_PLACEHOLDER" for p
    using that by (auto simp: contains_def REGION_PLACEHOLDER_def PROJECT_PLACEHOLDER_def)
  have "validate_from (\<lambda>_. True) [] [demo_provider, demo_local] = Inr ()"
    by (simp add: demo_provider_def demo_local_def validate_entry_def refuse_if_def blank_opt_def
        declared_def validate_credential_def validate_settlement_def validate_region_def
        validate_reconciliation_def validate_attestation_def validate_surfaces_def
        validate_project_def validate_credential_kind_def validate_runtime_roots_def
        validate_runtime_root_def entry_urls_def Let_def needs_minting_def)
  then show ?thesis
    by (simp add: assembled_def validate_def map_filter_def demo_provider_def demo_local_def)
qed

lemma assembled_inventory_sound_witness: "p_adapter demo_local = ChatCompletions"
  using assembled_inventory_sound [OF demo_inventory_assembled]
  by (simp add: demo_local_def demo_provider_def)

end
