(* ===== verification/Catalog.thy ===== *)
theory Catalog
  imports Inventory Pricing Priority "HOL-Library.List_Lexorder" "HOL-Library.Char_ord"
begin

text \<open>
  The model catalog (\<^verbatim>\<open>router/src/config.rs\<close>): tiers, their candidates, what each
  declares, the checks a catalog passes when it is loaded, the tiers that are withheld because they
  would sell below cost, the identifiers that several providers share, and how a requested model
  resolves to a route.  The input is the catalog as the TOML parser built it; a map is the list of
  its entries by ascending key.
\<close>

section \<open>Ordered maps\<close>

fun map_insert :: "string \<Rightarrow> 'v \<Rightarrow> (string \<times> 'v) list \<Rightarrow> (string \<times> 'v) list" where
  "map_insert k v [] = [(k, v)]"
| "map_insert k v ((k', w) # m) =
     (if k = k' then (k, v) # m else if k < k' then (k, v) # (k', w) # m else (k', w) # map_insert k v m)"

fun map_push :: "string \<Rightarrow> 'v \<Rightarrow> (string \<times> 'v list) list \<Rightarrow> (string \<times> 'v list) list" where
  "map_push k v [] = [(k, [v])]"
| "map_push k v ((k', vs) # m) =
     (if k = k' then (k', vs @ [v]) # m
      else if k < k' then (k, [v]) # (k', vs) # m else (k', vs) # map_push k v m)"

definition map_remove :: "string \<Rightarrow> (string \<times> 'v) list \<Rightarrow> (string \<times> 'v) list" where
  "map_remove k m = List.filter (\<lambda>e. fst e \<noteq> k) m"

text \<open>\<^verbatim>\<open>collect\<close> into a map: a later entry of the same key replaces the earlier one.\<close>

definition map_collect :: "(string \<times> 'v) list \<Rightarrow> (string \<times> 'v) list" where
  "map_collect es = fold (\<lambda>(k, v). map_insert k v) es []"

fun try_fold :: "('b \<Rightarrow> 'a \<Rightarrow> 'b option) \<Rightarrow> 'b \<Rightarrow> 'a list \<Rightarrow> 'b option" where
  "try_fold f acc [] = Some acc"
| "try_fold f acc (x # xs) = (case f acc x of None \<Rightarrow> None | Some b \<Rightarrow> try_fold f b xs)"

section \<open>Candidates and what they declare\<close>

record model_metadata =
  md_context_window :: "nat option"
  md_max_output_tokens :: "nat option"
  md_input_modalities :: "string list option"
  md_tool_call :: "bool option"

record tier_candidate =
  c_id :: string
  c_provider :: string
  c_model :: string
  c_surface :: "string option"
  c_rates :: rate_schedule
  c_metadata :: model_metadata

definition candidate_rates_are_zero :: "tier_candidate \<Rightarrow> bool" where
  "candidate_rates_are_zero c \<longleftrightarrow> schedule_are_zero (c_rates c)"

definition is_free :: "inventory \<Rightarrow> tier_candidate \<Rightarrow> bool" where
  "is_free entries c \<longleftrightarrow> candidate_rates_are_zero c \<and> provider_settles_free entries (c_provider c)"

record request_needs =
  n_prompt_bound :: nat
  n_tools :: bool
  n_modalities :: "string list"

definition can_serve :: "model_metadata \<Rightarrow> request_needs \<Rightarrow> bool" where
  "can_serve md needs =
     (if (case md_context_window md of None \<Rightarrow> False | Some w \<Rightarrow> w < n_prompt_bound needs) then False
      else if n_tools needs \<and> md_tool_call md = Some False then False
      else case md_input_modalities md of
             None \<Rightarrow> True
           | Some modalities \<Rightarrow> list_all (\<lambda>m. m \<in> set modalities) (n_modalities needs))"

text \<open>
  \<^verbatim>\<open>narrowed\<close>: a field of a tier is known when every candidate declares it, and is then the
  narrowest declaration.
\<close>

definition narrow :: "('a \<Rightarrow> 'a \<Rightarrow> 'a) \<Rightarrow> 'a option list \<Rightarrow> 'a option" where
  "narrow meet ds =
     Option.bind
       (try_fold (\<lambda>acc d. map_option (\<lambda>v. Some (case acc of None \<Rightarrow> v | Some a \<Rightarrow> meet a v)) d) None ds)
       (\<lambda>r. r)"

definition narrowed :: "tier_candidate list \<Rightarrow> model_metadata" where
  "narrowed cs =
     \<lparr> md_context_window = narrow min (List.map (md_context_window \<circ> c_metadata) cs),
       md_max_output_tokens = narrow min (List.map (md_max_output_tokens \<circ> c_metadata) cs),
       md_input_modalities =
         narrow (\<lambda>shared more. List.filter (\<lambda>m. m \<in> set more) shared)
           (List.map (md_input_modalities \<circ> c_metadata) cs),
       md_tool_call = narrow (\<and>) (List.map (md_tool_call \<circ> c_metadata) cs) \<rparr>"

section \<open>Retention\<close>

datatype retention_posture = Zero | Standard

fun ordering_rank :: "retention_posture \<Rightarrow> nat" where
  "ordering_rank Zero = 0"
| "ordering_rank Standard = 1"

fun wire_token :: "retention_posture \<Rightarrow> string" where
  "wire_token Zero = ''zero''"
| "wire_token Standard = ''standard''"

fun weaker :: "retention_posture \<Rightarrow> retention_posture \<Rightarrow> retention_posture" where
  "weaker Zero Zero = Zero"
| "weaker _ _ = Standard"

text \<open>The postures in the order of their rank; the weaker of two is their maximum.\<close>

instantiation retention_posture :: linorder
begin

definition less_eq_retention_posture :: "retention_posture \<Rightarrow> retention_posture \<Rightarrow> bool" where
  "p \<le> q \<longleftrightarrow> ordering_rank p \<le> ordering_rank q"

definition less_retention_posture :: "retention_posture \<Rightarrow> retention_posture \<Rightarrow> bool" where
  "p < q \<longleftrightarrow> ordering_rank p < ordering_rank q"

lemma ordering_rank_inject: "ordering_rank p = ordering_rank q \<longleftrightarrow> p = q"
  by (cases p; cases q) simp_all

instance
  by standard (auto simp: less_eq_retention_posture_def less_retention_posture_def
      simp flip: ordering_rank_inject)

end

lemma weaker_max: "weaker p q = max p q"
  by (cases p; cases q) (simp_all add: max_def less_eq_retention_posture_def)

datatype retention_policy = ZdrOnly | AllowNonZdr

definition policy_from_keyword :: "string \<Rightarrow> retention_policy option" where
  "policy_from_keyword k =
     (if k = ''zdr_only'' then Some ZdrOnly
      else if k = ''allow_non_zdr'' then Some AllowNonZdr else None)"

fun policy_as_keyword :: "retention_policy \<Rightarrow> string" where
  "policy_as_keyword ZdrOnly = ''zdr_only''"
| "policy_as_keyword AllowNonZdr = ''allow_non_zdr''"

fun permits :: "retention_policy \<Rightarrow> retention_posture \<Rightarrow> bool" where
  "permits policy Zero = True"
| "permits AllowNonZdr Standard = True"
| "permits ZdrOnly Standard = False"

interpretation policy_kw: keyword_codec policy_as_keyword policy_from_keyword
proof unfold_locales
  show "policy_from_keyword (policy_as_keyword x) = Some x" for x
    by (cases x) (simp_all add: policy_from_keyword_def)
  show "policy_from_keyword k = Some x \<Longrightarrow> policy_as_keyword x = k" for k x
    by (auto simp: policy_from_keyword_def split: if_splits)
qed

record retention_pin =
  rp_posture :: retention_posture
  rp_description :: string
  rp_source_url :: string
  rp_verified :: string
  rp_source_sha256 :: string
  rp_source_extract_anchors :: "string list"
  rp_openrouter_slug :: "string option"

section \<open>The catalog\<close>

record tier_definition =
  td_candidates :: "tier_candidate list"
  td_rates :: rate_schedule
  td_retention :: "retention_pin option"

datatype tier_config_error =
    UnsupportedSchema nat
  | InvalidTierId string
  | InvalidRate string string
  | UnbillableRate string string rat
  | InvalidCandidate string
  | EmptyTier string
  | UnsupportedProvider string string
  | UnknownSurface string string string
  | CacheWritePricedOffMessagesWire string string string
  | DuplicateModelId string
  | PrioritySuffixCollision string
  | ZeroModelLimit string string string
  | InvalidModalities string string
  | ZeroPriceWithoutFreeSettlement string string string
  | NegativeMargin string string string rat rat nat
  | InvalidConditionalThresholds string "nat list"
  | CachedRateAboveInputRate string rat rat
  | UnlabelledLane string string string
  | IncompleteRetentionPin string string
  | InvalidRetentionDate string string
  | InvalidRetentionSourceUrl string string
  | InvalidRetentionDigest string string

record unavailable_tier =
  ut_tier :: string
  ut_reason :: tier_config_error
  ut_definition :: tier_definition

record unified_model =
  um_definition :: tier_definition
  um_retention :: "(string \<times> retention_posture) list"

record tier_catalog =
  cat_schema_version :: nat
  cat_tiers :: "(string \<times> tier_definition) list"
  cat_retention :: "(string \<times> retention_pin) list"
  cat_unavailable :: "(string \<times> unavailable_tier) list"
  cat_unified :: "(string \<times> unified_model) list"

record resolved_route =
  rr_requested_model :: string
  rr_candidates :: "tier_candidate list"
  rr_sell_rates :: rate_schedule
  rr_retention :: "(string \<times> retention_posture) list"
  rr_routed :: bool

definition retention_posture_of :: "resolved_route \<Rightarrow> string \<Rightarrow> retention_posture option" where
  "retention_posture_of r candidate = map_of (rr_retention r) candidate"

definition sells_free :: "resolved_route \<Rightarrow> bool" where
  "sells_free r \<longleftrightarrow> schedule_are_zero (rr_sell_rates r)"

definition candidate_retention ::
    "tier_catalog \<Rightarrow> tier_definition \<Rightarrow> tier_candidate \<Rightarrow> retention_pin option" where
  "candidate_retention cat td c =
     or_else (td_retention td) (map_of (cat_retention cat) (c_provider c))"

definition tier_retention :: "tier_catalog \<Rightarrow> tier_definition \<Rightarrow> retention_pin option" where
  "tier_retention cat td =
     (case td_retention td of
        Some pin \<Rightarrow> Some pin
      | None \<Rightarrow>
          Option.bind
            (try_fold (\<lambda>weakest pin. map_option (\<lambda>p. Some (case weakest of
                None \<Rightarrow> p
              | Some w \<Rightarrow> if weaker (rp_posture w) (rp_posture p) = rp_posture w then w else p)) pin)
              None (List.map (\<lambda>c. map_of (cat_retention cat) (c_provider c)) (td_candidates td)))
            (\<lambda>r. r))"

definition route_retention ::
    "tier_catalog \<Rightarrow> tier_definition \<Rightarrow> tier_candidate list \<Rightarrow> (string \<times> retention_posture) list" where
  "route_retention cat td cs =
     map_collect (List.map_filter
       (\<lambda>c. map_option (\<lambda>pin. (c_id c, rp_posture pin)) (candidate_retention cat td c)) cs)"

fun find_map :: "('a \<Rightarrow> 'b option) \<Rightarrow> 'a list \<Rightarrow> 'b option" where
  "find_map f [] = None"
| "find_map f (x # xs) = or_else (f x) (find_map f xs)"

definition resolve :: "tier_catalog \<Rightarrow> string \<Rightarrow> resolved_route option" where
  "resolve cat model =
     (case map_of (cat_tiers cat) model of
        Some td \<Rightarrow>
          if td_candidates td \<noteq> []
          then Some \<lparr> rr_requested_model = model, rr_candidates = td_candidates td,
                 rr_sell_rates = td_rates td, rr_retention = route_retention cat td (td_candidates td),
                 rr_routed = False \<rparr>
          else None
      | None \<Rightarrow> None)"

definition resolve_concrete :: "tier_catalog \<Rightarrow> string \<Rightarrow> resolved_route option" where
  "resolve_concrete cat model =
     find_map (\<lambda>(_, td). map_option
         (\<lambda>c. \<lparr> rr_requested_model = model, rr_candidates = [c], rr_sell_rates = td_rates td,
             rr_retention = route_retention cat td [c], rr_routed = False \<rparr>)
         (List.find (\<lambda>c. c_id c = model) (td_candidates td)))
       (cat_tiers cat)"

text \<open>\<^verbatim>\<open>TierCatalog::resolve\<close>: a tier with candidates first, then a concrete id.\<close>

definition catalog_resolve :: "tier_catalog \<Rightarrow> string \<Rightarrow> resolved_route option" where
  "catalog_resolve cat model = or_else (resolve cat model) (resolve_concrete cat model)"

definition resolve_unified :: "tier_catalog \<Rightarrow> string \<Rightarrow> resolved_route option" where
  "resolve_unified cat model =
     map_option (\<lambda>um. \<lparr> rr_requested_model = model, rr_candidates = td_candidates (um_definition um),
         rr_sell_rates = td_rates (um_definition um), rr_retention = um_retention um, rr_routed = True \<rparr>)
       (map_of (cat_unified cat) model)"

definition unavailable_for :: "tier_catalog \<Rightarrow> string \<Rightarrow> unavailable_tier option" where
  "unavailable_for cat model =
     or_else (map_of (cat_unavailable cat) model)
       (List.find (\<lambda>u. list_ex (\<lambda>c. c_id c = model) (td_candidates (ut_definition u)))
          (List.map snd (cat_unavailable cat)))"

section \<open>Listing\<close>

record model_listing =
  ml_owned_by :: string
  ml_sell_rates :: rate_schedule
  ml_metadata :: model_metadata
  ml_retention :: retention_pin

definition list_alias ::
    "tier_catalog \<Rightarrow> string \<Rightarrow> tier_definition \<Rightarrow> tier_candidate list \<Rightarrow> (string \<times> model_listing) list \<Rightarrow>
     (string \<times> model_listing) list option" where
  "list_alias cat tid td reachable models =
     (if list_all (\<lambda>c. c_id c \<noteq> tid) (td_candidates td)
      then map_option (\<lambda>pin. map_insert tid
               \<lparr> ml_owned_by = ''zerorouter'', ml_sell_rates = td_rates td,
                 ml_metadata = narrowed reachable, ml_retention = pin \<rparr> models)
             (tier_retention cat (td\<lparr> td_candidates := reachable \<rparr>))
      else Some models)"

definition list_candidate ::
    "tier_catalog \<Rightarrow> tier_definition \<Rightarrow> tier_candidate \<Rightarrow> (string \<times> model_listing) list \<Rightarrow>
     (string \<times> model_listing) list" where
  "list_candidate cat td c models =
     (case candidate_retention cat td c of
        None \<Rightarrow> models
      | Some pin \<Rightarrow>
          if map_of models (c_id c) = None
          then map_insert (c_id c)
                 \<lparr> ml_owned_by = c_provider c, ml_sell_rates = td_rates td,
                   ml_metadata = c_metadata c, ml_retention = pin \<rparr> models
          else models)"

definition list_tier ::
    "(string \<Rightarrow> bool) \<Rightarrow> tier_catalog \<Rightarrow> string \<times> tier_definition \<Rightarrow> (string \<times> model_listing) list \<Rightarrow>
     (string \<times> model_listing) list" where
  "list_tier can_dispatch cat = (\<lambda>(tid, td) models.
     (let reachable = List.filter (\<lambda>c. can_dispatch (c_provider c)) (td_candidates td) in
      if reachable = [] then models
      else case list_alias cat tid td reachable models of
             None \<Rightarrow> models
           | Some models' \<Rightarrow> fold (list_candidate cat td) reachable models'))"

definition list_models :: "(string \<Rightarrow> bool) \<Rightarrow> tier_catalog \<Rightarrow> (string \<times> model_listing) list" where
  "list_models can_dispatch cat = fold (list_tier can_dispatch cat) (cat_tiers cat) []"

section \<open>Checks\<close>

type_synonym config_check = "(tier_config_error, unit) result"

definition reject_if :: "bool \<Rightarrow> tier_config_error \<Rightarrow> config_check" where
  "reject_if b e = (if b then Inl e else Inr ())"

definition is_hex_digit :: "char \<Rightarrow> bool" where
  "is_hex_digit c \<longleftrightarrow> is_digit c \<or> c \<in> set ''abcdefABCDEF''"

text \<open>Whether a text is a calendar date is the date library's to say.\<close>

definition validate_retention_pin :: "(string \<Rightarrow> bool) \<Rightarrow> string \<Rightarrow> retention_pin \<Rightarrow> config_check" where
  "validate_retention_pin is_date subject pin =
     all_checks
       [reject_if (trim (rp_description pin) = []) (IncompleteRetentionPin subject ''description''),
        reject_if (trim (rp_source_url pin) = []) (IncompleteRetentionPin subject ''source_url''),
        reject_if (trim (rp_verified pin) = []) (IncompleteRetentionPin subject ''verified''),
        reject_if (trim (rp_source_sha256 pin) = []) (IncompleteRetentionPin subject ''source_sha256''),
        reject_if (\<not> is_date (trim (rp_verified pin))) (InvalidRetentionDate subject (rp_verified pin)),
        reject_if (\<not> starts_with ''https://'' (trim (rp_source_url pin)) \<and>
                   \<not> starts_with ''http://'' (trim (rp_source_url pin)))
          (InvalidRetentionSourceUrl subject (rp_source_url pin)),
        reject_if (length (trim (rp_source_sha256 pin)) \<noteq> 64 \<or>
                   \<not> list_all is_hex_digit (trim (rp_source_sha256 pin)))
          (InvalidRetentionDigest subject (rp_source_sha256 pin)),
        reject_if (list_ex (\<lambda>a. trim a = []) (rp_source_extract_anchors pin))
          (IncompleteRetentionPin subject ''source_extract_anchors'')]"

definition reject_priority_suffix_collision :: "string \<Rightarrow> config_check" where
  "reject_priority_suffix_collision ident =
     reject_if (case rsplit_once (CHR '':'') ident of
                  None \<Rightarrow> False | Some (_, keyword) \<Rightarrow> priority_from_keyword keyword \<noteq> None)
       (PrioritySuffixCollision ident)"

text \<open>A rate that is not finite has no counterpart here: the catalog's rates are rationals.\<close>

definition validate_rate :: "decimal_ops \<Rightarrow> string \<Rightarrow> string \<Rightarrow> rat option \<Rightarrow> bool \<Rightarrow> config_check" where
  "validate_rate D tid dimension rate required =
     (if (required \<and> rate = None) \<or> (case rate of None \<Rightarrow> False | Some v \<Rightarrow> v < 0)
      then Inl (InvalidRate tid dimension)
      else case rate of
             None \<Rightarrow> Inr ()
           | Some v \<Rightarrow> reject_if (billable_rate D v = None) (UnbillableRate tid dimension v))"

definition validate_rates :: "decimal_ops \<Rightarrow> string \<Rightarrow> model_rates \<Rightarrow> config_check" where
  "validate_rates D tid r =
     all_checks
       [validate_rate D tid ''input_per_mtok'' (input_per_mtok r) True,
        validate_rate D tid ''output_per_mtok'' (output_per_mtok r) True,
        validate_rate D tid ''cached_input_per_mtok'' (cached_input_per_mtok r) False,
        validate_rate D tid ''cache_write_per_mtok'' (cache_write_per_mtok r) False]"

fun ascending :: "nat list \<Rightarrow> bool" where
  "ascending (a # b # ns) = (a < b \<and> ascending (b # ns))"
| "ascending _ = True"

definition validate_rate_schedule :: "decimal_ops \<Rightarrow> string \<Rightarrow> rate_schedule \<Rightarrow> config_check" where
  "validate_rate_schedule D tid s =
     all_checks
       ([validate_rates D tid (base s),
         reject_if (\<not> (case thresholds s of [] \<Rightarrow> True | first # _ \<Rightarrow> 0 < first \<and> ascending (thresholds s)))
           (InvalidConditionalThresholds tid (thresholds s))] @
        List.map (\<lambda>c. validate_rates D tid (cond_rates c)) (conditional s))"

definition validate_metadata :: "string \<Rightarrow> tier_candidate \<Rightarrow> config_check" where
  "validate_metadata tid c =
     all_checks
       [reject_if (md_context_window (c_metadata c) = Some 0) (ZeroModelLimit tid (c_id c) ''context_window''),
        reject_if (md_max_output_tokens (c_metadata c) = Some 0)
          (ZeroModelLimit tid (c_id c) ''max_output_tokens''),
        reject_if (case md_input_modalities (c_metadata c) of
                     None \<Rightarrow> False | Some ms \<Rightarrow> ms = [] \<or> list_ex (\<lambda>m. trim m = []) ms)
          (InvalidModalities tid (c_id c))]"

definition validate_zero_price :: "inventory \<Rightarrow> string \<Rightarrow> tier_candidate \<Rightarrow> config_check" where
  "validate_zero_price entries tid c =
     reject_if (any_required_rates_are_zero (c_rates c) \<and> \<not> provider_settles_free entries (c_provider c))
       (ZeroPriceWithoutFreeSettlement tid (c_id c) (c_provider c))"

definition margin_dimension ::
    "string \<Rightarrow> tier_candidate \<Rightarrow> nat \<Rightarrow> string \<times> rat option \<times> rat option \<Rightarrow> config_check" where
  "margin_dimension tid c probe = (\<lambda>(dimension, basis, sell).
     case (basis, sell) of
       (Some b, Some s) \<Rightarrow> reject_if (s < b) (NegativeMargin tid (c_id c) dimension b s probe)
     | _ \<Rightarrow> Inr ())"

definition margin_at :: "string \<Rightarrow> rate_schedule \<Rightarrow> tier_candidate \<Rightarrow> nat \<Rightarrow> config_check" where
  "margin_at tid sell c probe =
     (let b = at_prompt_tokens (c_rates c) probe; s = at_prompt_tokens sell probe in
      all_checks (List.map (margin_dimension tid c probe)
        [(''input_per_mtok'', input_per_mtok b, input_per_mtok s),
         (''output_per_mtok'', output_per_mtok b, output_per_mtok s),
         (''cached_input_per_mtok'', effective_cached_input_per_mtok b, effective_cached_input_per_mtok s),
         (''cache_write_per_mtok'', effective_cache_write_per_mtok b, effective_cache_write_per_mtok s)]))"

definition margin_probes :: "rate_schedule \<Rightarrow> tier_candidate \<Rightarrow> nat list" where
  "margin_probes sell c = remdups (sort (0 # thresholds (c_rates c) @ thresholds sell))"

definition validate_candidate_margin :: "string \<Rightarrow> rate_schedule \<Rightarrow> tier_candidate \<Rightarrow> config_check" where
  "validate_candidate_margin tid sell c =
     all_checks (List.map (margin_at tid sell c) (margin_probes sell c))"

definition cache_is_a_discount :: "string \<Rightarrow> model_rates \<Rightarrow> config_check" where
  "cache_is_a_discount tid r =
     (case (input_per_mtok r, cached_input_per_mtok r) of
        (Some i, Some c) \<Rightarrow> reject_if (i < c) (CachedRateAboveInputRate tid i c)
      | _ \<Rightarrow> Inr ())"

definition validate_cache_is_a_discount :: "string \<Rightarrow> rate_schedule \<Rightarrow> config_check" where
  "validate_cache_is_a_discount tid s =
     all_checks (List.map (cache_is_a_discount tid) (base s # List.map cond_rates (conditional s)))"

text \<open>What condemns the whole file, for one candidate.\<close>

definition validate_candidate ::
    "decimal_ops \<Rightarrow> inventory \<Rightarrow> tier_catalog \<Rightarrow> string \<Rightarrow> tier_definition \<Rightarrow> string list \<Rightarrow> tier_candidate \<Rightarrow>
     config_check" where
  "validate_candidate D entries cat tid td concrete_ids c =
     all_checks
       [reject_if (trim (c_id c) = [] \<or> starts_with ''zero/'' (c_id c) \<or> trim (c_provider c) = [] \<or>
                   trim (c_model c) = []) (InvalidCandidate tid),
        reject_priority_suffix_collision (c_id c),
        reject_if (\<not> is_supported_provider entries (c_provider c)) (UnsupportedProvider tid (c_provider c)),
        (case c_surface c of
           None \<Rightarrow> Inr ()
         | Some s \<Rightarrow> reject_if (\<not> provider_has_surface entries (c_provider c) s)
                      (UnknownSurface tid (c_provider c) s)),
        reject_if (prices_cache_writes (base (c_rates c)) \<and>
                   \<not> provider_carries_cache_control entries (c_provider c) (c_surface c))
          (CacheWritePricedOffMessagesWire tid (c_id c) (c_provider c)),
        reject_if (c_id c \<in> set concrete_ids) (DuplicateModelId (c_id c)),
        reject_if (td_retention td = None \<and> map_of (cat_retention cat) (c_provider c) = None)
          (UnlabelledLane tid (c_id c) (c_provider c)),
        validate_rate_schedule D tid (c_rates c),
        validate_metadata tid c,
        validate_zero_price entries tid c]"

text \<open>What withholds the tier alone.\<close>

definition withheld_by :: "string \<Rightarrow> tier_definition \<Rightarrow> tier_candidate \<Rightarrow> config_check" where
  "withheld_by tid td c =
     all_checks
       [validate_candidate_margin tid (td_rates td) c,
        validate_cache_is_a_discount tid (c_rates c),
        validate_cache_is_a_discount tid (td_rates td)]"

type_synonym withheld = "(string \<times> tier_config_error) list"

fun validate_candidates ::
    "decimal_ops \<Rightarrow> inventory \<Rightarrow> tier_catalog \<Rightarrow> string \<Rightarrow> tier_definition \<Rightarrow> string list \<times> withheld \<Rightarrow>
     tier_candidate list \<Rightarrow> (tier_config_error, string list \<times> withheld) result" where
  "validate_candidates D entries cat tid td acc [] = Inr acc"
| "validate_candidates D entries cat tid td (concrete_ids, out) (c # cs) =
     (case validate_candidate D entries cat tid td concrete_ids c of
        Inl e \<Rightarrow> Inl e
      | Inr _ \<Rightarrow>
          validate_candidates D entries cat tid td
            (c_id c # concrete_ids,
             (case withheld_by tid td c of
                Inr _ \<Rightarrow> out
              | Inl e \<Rightarrow> if map_of out tid = None then map_insert tid e out else out)) cs)"

definition validate_tier ::
    "decimal_ops \<Rightarrow> inventory \<Rightarrow> (string \<Rightarrow> bool) \<Rightarrow> tier_catalog \<Rightarrow> string \<times> tier_definition \<Rightarrow>
     string list \<times> withheld \<Rightarrow> (tier_config_error, string list \<times> withheld) result" where
  "validate_tier D entries is_date cat = (\<lambda>(tid, td) acc.
     (case all_checks
        [(case td_retention td of
            None \<Rightarrow> Inr () | Some pin \<Rightarrow> validate_retention_pin is_date (''tier '' @ tid) pin),
         reject_if (\<not> (starts_with ''zero/'' tid \<and> length ''zero/'' < length tid) \<and>
                    \<not> list_ex (\<lambda>c. c_id c = tid) (td_candidates td)) (InvalidTierId tid),
         reject_priority_suffix_collision tid,
         reject_if (td_candidates td = []) (EmptyTier tid),
         validate_rate_schedule D tid (td_rates td)] of
        Inl e \<Rightarrow> Inl e
      | Inr _ \<Rightarrow> validate_candidates D entries cat tid td acc (td_candidates td)))"

fun validate_tiers ::
    "decimal_ops \<Rightarrow> inventory \<Rightarrow> (string \<Rightarrow> bool) \<Rightarrow> tier_catalog \<Rightarrow> string list \<times> withheld \<Rightarrow>
     (string \<times> tier_definition) list \<Rightarrow> (tier_config_error, withheld) result" where
  "validate_tiers D entries is_date cat acc [] = Inr (snd acc)"
| "validate_tiers D entries is_date cat acc (t # ts) =
     (case validate_tier D entries is_date cat t acc of
        Inl e \<Rightarrow> Inl e
      | Inr acc' \<Rightarrow> validate_tiers D entries is_date cat acc' ts)"

definition validate_tier_catalog ::
    "decimal_ops \<Rightarrow> inventory \<Rightarrow> (string \<Rightarrow> bool) \<Rightarrow> tier_catalog \<Rightarrow> (tier_config_error, withheld) result" where
  "validate_tier_catalog D entries is_date cat =
     (if cat_schema_version cat \<noteq> 1 then Inl (UnsupportedSchema (cat_schema_version cat))
      else case all_checks (List.map (\<lambda>(p, pin). validate_retention_pin is_date (''provider '' @ p) pin)
                  (cat_retention cat)) of
             Inl e \<Rightarrow> Inl e
           | Inr _ \<Rightarrow>
               (case validate_tiers D entries is_date cat ([], []) (cat_tiers cat) of
                  Inl e \<Rightarrow> Inl e
                | Inr out \<Rightarrow>
                    if length out = length (cat_tiers cat)
                    then (case out of [] \<Rightarrow> Inr [] | (_, e) # _ \<Rightarrow> Inl e)
                    else Inr out))"

section \<open>Loading\<close>

definition withhold_one :: "string \<times> tier_config_error \<Rightarrow> tier_catalog \<Rightarrow> tier_catalog" where
  "withhold_one = (\<lambda>(tid, reason) cat.
     (case map_of (cat_tiers cat) tid of
        None \<Rightarrow> cat
      | Some td \<Rightarrow> cat\<lparr> cat_tiers := map_remove tid (cat_tiers cat),
          cat_unavailable := map_insert tid
            \<lparr> ut_tier = tid, ut_reason = reason, ut_definition = td \<rparr> (cat_unavailable cat) \<rparr>))"

definition withhold_tiers :: "withheld \<Rightarrow> tier_catalog \<Rightarrow> tier_catalog" where
  "withhold_tiers out cat = fold withhold_one out cat"

record unified_member =
  mem_candidate :: tier_candidate
  mem_sell_rates :: rate_schedule
  mem_posture :: retention_posture

definition unified_bare :: "tier_catalog \<Rightarrow> tier_candidate \<Rightarrow> string option" where
  "unified_bare cat c =
     (case split_once ''/'' (c_id c) of
        None \<Rightarrow> None
      | Some (_, bare) \<Rightarrow>
          if bare = [] \<or> contains ''/'' bare \<or> map_of (cat_tiers cat) bare \<noteq> None then None
          else Some bare)"

definition group_candidate ::
    "tier_catalog \<Rightarrow> tier_definition \<Rightarrow> tier_candidate \<Rightarrow> (string \<times> unified_member list) list \<Rightarrow>
     (string \<times> unified_member list) list" where
  "group_candidate cat td c groups =
     (case (unified_bare cat c, candidate_retention cat td c) of
        (Some bare, Some pin) \<Rightarrow>
          map_push bare \<lparr> mem_candidate = c, mem_sell_rates = td_rates td, mem_posture = rp_posture pin \<rparr> groups
      | _ \<Rightarrow> groups)"

definition unified_groups :: "tier_catalog \<Rightarrow> (string \<times> unified_member list) list" where
  "unified_groups cat =
     fold (\<lambda>(_, td). fold (group_candidate cat td) (td_candidates td)) (cat_tiers cat) []"

definition unify :: "unified_member list \<Rightarrow> unified_model option" where
  "unify members =
     (if length (remdups (List.map (c_provider \<circ> mem_candidate) members)) < 2 then None
      else map_option (\<lambda>sell.
          let ordered = sort_key (ordering_rank \<circ> mem_posture) members in
          \<lparr> um_definition = \<lparr> td_candidates = List.map mem_candidate ordered, td_rates = sell,
              td_retention = None \<rparr>,
            um_retention = map_collect (List.map (\<lambda>m. (c_id (mem_candidate m), mem_posture m)) ordered) \<rparr>)
        (dearest_across (List.map mem_sell_rates members)))"

definition synthesize_unified :: "tier_catalog \<Rightarrow> tier_catalog" where
  "synthesize_unified cat =
     cat\<lparr> cat_unified := List.map_filter (\<lambda>(bare, members). map_option (Pair bare) (unify members))
           (unified_groups cat) \<rparr>"

definition load_tier_catalog ::
    "decimal_ops \<Rightarrow> inventory \<Rightarrow> (string \<Rightarrow> bool) \<Rightarrow> tier_catalog \<Rightarrow> (tier_config_error, tier_catalog) result" where
  "load_tier_catalog D entries is_date parsed =
     (case validate_tier_catalog D entries is_date parsed of
        Inl e \<Rightarrow> Inl e
      | Inr out \<Rightarrow> Inr (synthesize_unified (withhold_tiers out parsed)))"

section \<open>Lemmas: the checks\<close>

lemma reject_if_Inr [simp]: "reject_if b e = Inr u \<longleftrightarrow> \<not> b"
  by (simp add: reject_if_def)

lemma map_of_map_insert: "map_of (map_insert k v m) = (map_of m)(k \<mapsto> v)"
  by (induction k v m rule: map_insert.induct) (auto simp: fun_eq_iff)

lemma validate_rate_Inr:
  "validate_rate D tid d r req = Inr u \<longleftrightarrow>
     (req \<longrightarrow> r \<noteq> None) \<and> (\<forall>v. r = Some v \<longrightarrow> 0 \<le> v \<and> billable_rate D v \<noteq> None)"
  by (cases r) (auto simp: validate_rate_def)

lemma validate_rate_schedule_tables:
  assumes "validate_rate_schedule D tid s = Inr u" "t \<in> set (tables s)"
  shows "input_per_mtok t \<noteq> None \<and> output_per_mtok t \<noteq> None \<and> rates_nonneg t"
proof -
  have "validate_rates D tid t = Inr ()"
    using assms by (auto simp: validate_rate_schedule_def tables_def)
  then show ?thesis
    by (auto simp: validate_rates_def validate_rate_Inr rates_nonneg_def billed_defs unwrap_or_def
        split: option.splits)
qed

text \<open>Every rate a validated table bills at converts to an amount of money.\<close>

lemma validate_rate_schedule_billable:
  assumes "validate_rate_schedule D tid s = Inr u" "t \<in> set (tables s)"
  shows "billable_rate D (billed_input t) \<noteq> None" "billable_rate D (billed_output t) \<noteq> None"
    "billable_rate D (billed_cached t) \<noteq> None" "billable_rate D (billed_write t) \<noteq> None"
proof -
  have v: "validate_rates D tid t = Inr ()"
    using assms by (auto simp: validate_rate_schedule_def tables_def)
  show "billable_rate D (billed_input t) \<noteq> None" "billable_rate D (billed_output t) \<noteq> None"
    "billable_rate D (billed_cached t) \<noteq> None" "billable_rate D (billed_write t) \<noteq> None"
    using v by (auto simp: validate_rates_def validate_rate_Inr billed_defs unwrap_or_def simp del: not_None_eq split: option.splits)
qed

lemma margin_probe:
  "\<exists>p \<in> set (margin_probes sell c).
     at_prompt_tokens (c_rates c) n = at_prompt_tokens (c_rates c) p \<and>
     at_prompt_tokens sell n = at_prompt_tokens sell p"
proof -
  define P where "P = {t \<in> set (margin_probes sell c). t \<le> n}"
  have P: "finite P" "0 \<in> P"
    by (auto simp: P_def margin_probes_def set_insort_key)
  then have m: "Max P \<in> P" "\<And>t. t \<in> P \<Longrightarrow> t \<le> Max P"
    by (auto intro: Max_in)
  have same: "t \<le> n \<longleftrightarrow> t \<le> Max P" if "t \<in> set (margin_probes sell c)" for t
    using m that by (auto simp: P_def dest: order_trans)
  have at: "at_prompt_tokens s n = at_prompt_tokens s (Max P)"
    if "set (thresholds s) \<subseteq> set (margin_probes sell c)" for s
  proof -
    have "List.filter (\<lambda>c. min_prompt_tokens c \<le> n) (conditional s) =
        List.filter (\<lambda>c. min_prompt_tokens c \<le> Max P) (conditional s)"
      using that same by (intro filter_cong) (auto simp: thresholds_def)
    then show ?thesis
      by (simp add: at_prompt_tokens_def)
  qed
  have "at_prompt_tokens (c_rates c) n = at_prompt_tokens (c_rates c) (Max P)"
       "at_prompt_tokens sell n = at_prompt_tokens sell (Max P)"
    by (intro at; auto simp: margin_probes_def set_insort_key)+
  moreover have "Max P \<in> set (margin_probes sell c)"
    using m(1) by (simp add: P_def)
  ultimately show ?thesis
    by blast
qed

lemma margin_at_rates_le:
  assumes "margin_at tid sell c p = Inr u"
    and "input_per_mtok (at_prompt_tokens (c_rates c) p) \<noteq> None"
      "output_per_mtok (at_prompt_tokens (c_rates c) p) \<noteq> None"
    and "input_per_mtok (at_prompt_tokens sell p) \<noteq> None" "output_per_mtok (at_prompt_tokens sell p) \<noteq> None"
  shows "rates_le (at_prompt_tokens (c_rates c) p) (at_prompt_tokens sell p)"
  using assms unfolding rates_le_def billed_effective billed_input_def billed_output_def
  by (auto simp: margin_at_def margin_dimension_def Let_def unwrap_or_def or_else_def
      effective_cached_input_per_mtok_def effective_cache_write_per_mtok_def not_less
      split: option.splits)

lemma margin_rates_le:
  assumes "validate_candidate_margin tid sell c = Inr u"
    and "validate_rate_schedule D tid1 (c_rates c) = Inr u1" "validate_rate_schedule D tid2 sell = Inr u2"
  shows "rates_le (at_prompt_tokens (c_rates c) n) (at_prompt_tokens sell n)"
proof -
  obtain p where p: "p \<in> set (margin_probes sell c)"
      "at_prompt_tokens (c_rates c) n = at_prompt_tokens (c_rates c) p"
      "at_prompt_tokens sell n = at_prompt_tokens sell p"
    using margin_probe by blast
  then have "margin_at tid sell c p = Inr ()"
    using assms(1) by (simp add: validate_candidate_margin_def)
  then show ?thesis
    unfolding p(2,3)
    using validate_rate_schedule_tables [OF assms(2)] validate_rate_schedule_tables [OF assms(3)]
    by (intro margin_at_rates_le) (auto simp: at_prompt_tokens_in_tables)
qed

section \<open>Lemmas: what a loaded catalog has passed\<close>

lemma validate_candidates_Inr:
  "validate_candidates D entries cat tid td acc cs = Inr acc' \<Longrightarrow>
    (\<forall>c \<in> set cs. \<exists>ids. validate_candidate D entries cat tid td ids c = Inr ()) \<and>
    dom (map_of (snd acc)) \<subseteq> dom (map_of (snd acc')) \<and>
    (\<forall>c \<in> set cs. withheld_by tid td c \<noteq> Inr () \<longrightarrow> tid \<in> dom (map_of (snd acc')))"
proof (induction D entries cat tid td acc cs rule: validate_candidates.induct)
  case (2 D entries cat tid td ids out c cs)
  let ?out = "case withheld_by tid td c of Inr _ \<Rightarrow> out
    | Inl e \<Rightarrow> if map_of out tid = None then map_insert tid e out else out"
  have v: "validate_candidate D entries cat tid td ids c = Inr ()"
      "validate_candidates D entries cat tid td (c_id c # ids, ?out) cs = Inr acc'"
    using 2(2) by (auto split: sum.splits)
  have out: "dom (map_of out) \<subseteq> dom (map_of ?out)"
      "withheld_by tid td c \<noteq> Inr () \<Longrightarrow> tid \<in> dom (map_of ?out)"
    by (cases "withheld_by tid td c"; auto simp: map_of_map_insert)+
  note rest = 2(1) [OF v]
  have "dom (map_of out) \<subseteq> dom (map_of (snd acc'))"
    using out(1) rest unfolding snd_conv by (meson order_trans)
  moreover have "tid \<in> dom (map_of (snd acc'))" if "withheld_by tid td c \<noteq> Inr ()"
    using out(2) [OF that] rest unfolding snd_conv by (meson subsetD)
  ultimately show ?case
    using rest v(1) by auto
qed simp

lemma validate_tiers_Inr:
  "validate_tiers D entries is_date cat acc ts = Inr out \<Longrightarrow>
    dom (map_of (snd acc)) \<subseteq> dom (map_of out) \<and>
    (\<forall>(tid, td) \<in> set ts. validate_rate_schedule D tid (td_rates td) = Inr () \<and>
      (\<forall>c \<in> set (td_candidates td).
         (\<exists>ids. validate_candidate D entries cat tid td ids c = Inr ()) \<and>
         (withheld_by tid td c \<noteq> Inr () \<longrightarrow> tid \<in> dom (map_of out))))"
proof (induction D entries is_date cat acc ts rule: validate_tiers.induct)
  case (2 D entries is_date cat acc t ts)
  obtain tid td where t: "t = (tid, td)"
    by (cases t)
  obtain acc' where v: "validate_tier D entries is_date cat t acc = Inr acc'"
      "validate_tiers D entries is_date cat acc' ts = Inr out"
    using 2(2) by (auto split: sum.splits)
  have "validate_rate_schedule D tid (td_rates td) = Inr ()"
      "validate_candidates D entries cat tid td acc (td_candidates td) = Inr acc'"
    using v(1) by (auto simp: validate_tier_def t split: sum.splits)
  note r = this(1) and c = validate_candidates_Inr [OF this(2)]
  note rest = 2(1) [OF v]
  have "dom (map_of (snd acc)) \<subseteq> dom (map_of out)"
    using c rest by (meson order_trans)
  moreover have "tid \<in> dom (map_of out)" if "x \<in> set (td_candidates td)" "withheld_by tid td x \<noteq> Inr ()" for x
    using c rest that by (meson subsetD)
  ultimately show ?case
    using r c rest t by auto
qed simp

lemma withhold_tiers_tiers:
  "cat_tiers (withhold_tiers out cat) = List.filter (\<lambda>e. fst e \<notin> fst ` set out) (cat_tiers cat) \<and>
   cat_retention (withhold_tiers out cat) = cat_retention cat"
proof (induction out arbitrary: cat)
  case (Cons o1 out)
  obtain tid e where o1: "o1 = (tid, e)"
    by (cases o1)
  have "cat_tiers (withhold_one o1 cat) = List.filter (\<lambda>e. fst e \<noteq> tid) (cat_tiers cat) \<and>
      cat_retention (withhold_one o1 cat) = cat_retention cat"
  proof (cases "map_of (cat_tiers cat) tid")
    case None
    then have "List.filter (\<lambda>e. fst e \<noteq> tid) (cat_tiers cat) = cat_tiers cat"
      by (auto simp: map_of_eq_None_iff filter_id_conv)
    then show ?thesis
      using None by (simp add: withhold_one_def o1)
  next
    case (Some td)
    then show ?thesis
      by (simp add: withhold_one_def o1 map_remove_def)
  qed
  then show ?case
    using Cons [of "withhold_one o1 cat"] o1 by (auto simp: withhold_tiers_def intro: filter_cong)
qed (simp add: withhold_tiers_def)

lemma loaded_tier:
  assumes "load_tier_catalog D entries is_date parsed = Inr cat" "(tid, td) \<in> set (cat_tiers cat)"
  shows "validate_rate_schedule D tid (td_rates td) = Inr ()"
    and "c \<in> set (td_candidates td) \<Longrightarrow> validate_rate_schedule D tid (c_rates c) = Inr ()"
    and "c \<in> set (td_candidates td) \<Longrightarrow> withheld_by tid td c = Inr ()"
proof -
  obtain out where out: "validate_tier_catalog D entries is_date parsed = Inr out"
      "cat = synthesize_unified (withhold_tiers out parsed)"
    using assms(1) by (auto simp: load_tier_catalog_def split: sum.splits)
  then have v: "validate_tiers D entries is_date parsed ([], []) (cat_tiers parsed) = Inr out"
    by (auto simp: validate_tier_catalog_def split: sum.splits if_splits list.splits)
  have kept: "(tid, td) \<in> set (cat_tiers parsed)" "tid \<notin> dom (map_of out)"
    using assms(2) out(2) withhold_tiers_tiers [of out parsed]
    by (auto simp: synthesize_unified_def dom_map_of_conv_image_fst)
  note t = validate_tiers_Inr [OF v]
  show "validate_rate_schedule D tid (td_rates td) = Inr ()"
    using t kept by auto
  show "validate_rate_schedule D tid (c_rates c) = Inr ()" if "c \<in> set (td_candidates td)"
    using t kept that by (auto simp: validate_candidate_def)
  show "withheld_by tid td c = Inr ()" if "c \<in> set (td_candidates td)"
    using t kept that by blast
qed

text \<open>The margin of a loaded tier, at every prompt size and in every dimension.\<close>

lemma loaded_margin:
  assumes "load_tier_catalog D entries is_date parsed = Inr cat" "(tid, td) \<in> set (cat_tiers cat)"
    "c \<in> set (td_candidates td)"
  shows "rates_le (at_prompt_tokens (c_rates c) n) (at_prompt_tokens (td_rates td) n)"
proof -
  have "validate_candidate_margin tid (td_rates td) c = Inr ()"
    using loaded_tier(3) [OF assms] by (simp add: withheld_by_def)
  then show ?thesis
    using loaded_tier(1,2) [OF assms(1,2)] assms(3) margin_rates_le by blast
qed

section \<open>Lemmas: identifiers shared by several providers\<close>

lemma map_push_in:
  "(k, ws) \<in> set (map_push b x m) \<Longrightarrow> w \<in> set ws \<Longrightarrow>
    (\<exists>vs. (k, vs) \<in> set m \<and> w \<in> set vs) \<or> (k = b \<and> w = x)"
  by (induction b x m rule: map_push.induct) (auto split: if_splits)

definition member_of :: "tier_catalog \<Rightarrow> string \<Rightarrow> unified_member \<Rightarrow> bool" where
  "member_of cat bare m \<longleftrightarrow>
     (\<exists>(tid, td) \<in> set (cat_tiers cat). mem_candidate m \<in> set (td_candidates td) \<and>
        mem_sell_rates m = td_rates td \<and> unified_bare cat (mem_candidate m) = Some bare \<and>
        map_option rp_posture (candidate_retention cat td (mem_candidate m)) = Some (mem_posture m))"

definition groups_sound :: "tier_catalog \<Rightarrow> (string \<times> unified_member list) list \<Rightarrow> bool" where
  "groups_sound cat groups \<longleftrightarrow> (\<forall>(bare, ms) \<in> set groups. \<forall>m \<in> set ms. member_of cat bare m)"

lemma member_ofE:
  assumes "member_of cat bare m"
  obtains tid td where "(tid, td) \<in> set (cat_tiers cat)" "mem_candidate m \<in> set (td_candidates td)"
    "mem_sell_rates m = td_rates td"
    "map_option rp_posture (candidate_retention cat td (mem_candidate m)) = Some (mem_posture m)"
  using assms unfolding member_of_def by (auto simp del: map_option_eq_Some)

lemma group_candidate_sound:
  assumes "groups_sound cat groups" "(tid, td) \<in> set (cat_tiers cat)" "c \<in> set (td_candidates td)"
  shows "groups_sound cat (group_candidate cat td c groups)"
proof (cases "unified_bare cat c")
  case None
  then show ?thesis
    using assms(1) by (simp add: group_candidate_def)
next
  case (Some bare)
  show ?thesis
  proof (cases "candidate_retention cat td c")
    case None
    then show ?thesis
      using Some assms(1) by (simp add: group_candidate_def)
  next
    case (Some pin)
    let ?m = "\<lparr> mem_candidate = c, mem_sell_rates = td_rates td, mem_posture = rp_posture pin \<rparr>"
    have "member_of cat bare ?m"
      using \<open>unified_bare cat c = Some bare\<close> Some assms(2,3) unfolding member_of_def
      by (intro bexI [of _ "(tid, td)"]) simp_all
    then show ?thesis
      using assms(1) \<open>unified_bare cat c = Some bare\<close> Some map_push_in [of _ _ bare ?m groups]
      unfolding groups_sound_def group_candidate_def by fastforce
  qed
qed

lemma fold_candidates_sound:
  "groups_sound cat groups \<Longrightarrow> (tid, td) \<in> set (cat_tiers cat) \<Longrightarrow> set cs \<subseteq> set (td_candidates td) \<Longrightarrow>
    groups_sound cat (fold (group_candidate cat td) cs groups)"
  by (induction cs arbitrary: groups) (auto intro: group_candidate_sound)

lemma unified_groups_sound: "groups_sound cat (unified_groups cat)"
proof -
  have "groups_sound cat (fold (\<lambda>(_, td). fold (group_candidate cat td) (td_candidates td)) ts groups)"
    if "groups_sound cat groups" "set ts \<subseteq> set (cat_tiers cat)" for ts groups
    using that
  proof (induction ts arbitrary: groups)
    case (Cons t ts)
    then show ?case
      by (cases t) (auto intro!: Cons.IH fold_candidates_sound)
  qed simp
  moreover have "groups_sound cat []"
    by (simp add: groups_sound_def)
  ultimately show ?thesis
    unfolding unified_groups_def by blast
qed

section \<open>Lemmas: cost\<close>

lemma exact_cost_mono:
  assumes "conversion_ok D" "rates_billable D r" "rates_billable D r'" "rates_le r r'"
  shows "exact_cost D r u \<le> exact_cost D r' u"
proof -
  have mono: "price D x \<le> price D y" if "billable6 D x" "billable6 D y" "x \<le> y" for x y
    using billable_mono [OF assms(1)] billable6D(1) [OF assms(1)] that by blast
  show ?thesis
    using assms(2-4) unfolding exact_cost_def rates_billable_def rates_le_def
    by (intro divide_right_mono add_mono mult_left_mono mono) auto
qed

text \<open>
  The loader does not ask how many decimal places a rate has.  That is the one condition on the rates of a
  table left to state: a rate that converts at all converts to at most six places.
\<close>

definition six_decimals :: "decimal_ops \<Rightarrow> rat \<Rightarrow> bool" where
  "six_decimals D x = (case d_from_f64 D x of None \<Rightarrow> True | Some d \<Rightarrow> at_scale 6 d)"

definition table_six_decimals :: "decimal_ops \<Rightarrow> model_rates \<Rightarrow> bool" where
  "table_six_decimals D r \<longleftrightarrow> six_decimals D (billed_input r) \<and> six_decimals D (billed_output r) \<and>
     six_decimals D (billed_cached r) \<and> six_decimals D (billed_write r)"

lemma validated_billable:
  assumes "validate_rate_schedule D tid s = Inr u" "\<forall>t \<in> set (tables s). table_six_decimals D t"
  shows "rates_billable D (at_prompt_tokens s n)"
proof -
  let ?t = "at_prompt_tokens s n"
  have six: "billable6 D x" if "billable_rate D x \<noteq> None" "six_decimals D x" for x
    using that billable_rate_conv [of D x] by (auto simp: billable6_def six_decimals_def split: option.splits)
  have t: "?t \<in> set (tables s)"
    by (rule at_prompt_tokens_in_tables)
  show ?thesis
    using validate_rate_schedule_billable [OF assms(1) t] bspec [OF assms(2) t]
    by (simp add: rates_billable_def table_six_decimals_def six)
qed

section \<open>Lemmas: narrowing\<close>

lemma narrow_declared: "narrow meet (Some v # List.map Some vs) = Some (foldl meet v vs)"
proof -
  have "try_fold (\<lambda>acc d. map_option (\<lambda>v. Some (case acc of None \<Rightarrow> v | Some a \<Rightarrow> meet a v)) d)
      (Some v) (List.map Some vs) = Some (Some (foldl meet v vs))" for v
    by (induction vs arbitrary: v) simp_all
  then show ?thesis
    by (simp add: narrow_def)
qed

lemma foldl_min_le: "(n :: nat) \<le> foldl min v vs \<longleftrightarrow> n \<le> v \<and> (\<forall>x \<in> set vs. n \<le> x)"
  by (induction vs arbitrary: v) auto

lemma foldl_filter_set:
  "set (foldl (\<lambda>shared more. List.filter (\<lambda>m. m \<in> set more) shared) v vs) =
    {m \<in> set v. \<forall>x \<in> set vs. m \<in> set x}"
  by (induction vs arbitrary: v) auto

lemma foldl_conj: "foldl (\<and>) v vs \<longleftrightarrow> v \<and> (\<forall>x \<in> set vs. x)"
  by (induction vs arbitrary: v) auto

lemma all_declared:
  assumes "\<forall>c \<in> set cs. f c \<noteq> None"
  obtains vs where "List.map f cs = List.map Some vs"
  using assms by (induction cs) (auto, metis list.simps(9))

lemma can_serve_iff:
  "can_serve md needs \<longleftrightarrow>
     (\<forall>x. md_context_window md = Some x \<longrightarrow> n_prompt_bound needs \<le> x) \<and>
     (n_tools needs \<longrightarrow> (\<forall>x. md_tool_call md = Some x \<longrightarrow> x)) \<and>
     (\<forall>x. md_input_modalities md = Some x \<longrightarrow> (\<forall>y \<in> set (n_modalities needs). y \<in> set x))"
  by (cases "md_context_window md"; cases "md_input_modalities md"; cases "md_tool_call md")
    (auto simp: can_serve_def list_all_iff not_less)

lemma in_declared:
  assumes "List.map f cs = List.map Some vs"
  shows "x \<in> set vs \<longleftrightarrow> (\<exists>c \<in> set cs. f c = Some x)"
proof -
  have "Some x \<in> set (List.map f cs) \<longleftrightarrow> Some x \<in> set (List.map Some vs)"
    using assms by simp
  then show ?thesis
    by (metis (no_types, lifting) image_iff image_set inj_image_mem_iff inj_Some)
qed

lemma ball_declared:
  assumes "List.map f cs = List.map Some vs"
  shows "(\<forall>x \<in> set vs. P x) \<longleftrightarrow> (\<forall>c \<in> set cs. \<forall>x. f c = Some x \<longrightarrow> P x)"
  using in_declared [OF assms] by blast

section \<open>A catalog for the witnesses\<close>

definition demo_entries :: inventory where
  "demo_entries = [demo_provider, demo_provider\<lparr> p_key := ''groq'' \<rparr>]"

definition demo_pin :: retention_pin where
  "demo_pin = \<lparr> rp_posture = Zero, rp_description = ''x'', rp_source_url = ''https://x'',
     rp_verified = ''2026-01-01'', rp_source_sha256 = replicate 64 (CHR ''0''),
     rp_source_extract_anchors = [], rp_openrouter_slug = None \<rparr>"

definition demo_metadata :: model_metadata where
  "demo_metadata = \<lparr> md_context_window = Some 1000, md_max_output_tokens = None,
     md_input_modalities = Some [''text''], md_tool_call = Some True \<rparr>"

definition demo_candidate :: "string \<Rightarrow> rat \<Rightarrow> tier_candidate" where
  "demo_candidate provider cost = \<lparr> c_id = provider @ ''/m'', c_provider = provider, c_model = ''m'',
     c_surface = None, c_rates = flat \<lparr> input_per_mtok = Some cost, output_per_mtok = Some cost,
       cached_input_per_mtok = None, cache_write_per_mtok = None \<rparr>, c_metadata = demo_metadata \<rparr>"

definition demo_tier :: "string \<Rightarrow> rat \<Rightarrow> rat \<Rightarrow> tier_definition" where
  "demo_tier provider cost sell = \<lparr> td_candidates = [demo_candidate provider cost],
     td_rates = c_rates (demo_candidate provider sell), td_retention = None \<rparr>"

definition demo_catalog :: tier_catalog where
  "demo_catalog = \<lparr> cat_schema_version = 1,
     cat_tiers = [(''groq/m'', demo_tier ''groq'' 1 2), (''xai/m'', demo_tier ''xai'' 2 3)],
     cat_retention = [(''groq'', demo_pin\<lparr> rp_posture := Standard \<rparr>), (''xai'', demo_pin)],
     cat_unavailable = [], cat_unified = [] \<rparr>"

lemmas demo_catalog_defs = demo_catalog_def demo_tier_def demo_candidate_def demo_metadata_def

lemma demo_pin_plain [simp]:
  "trim ''x'' = ''x''" "trim ''https://x'' = ''https://x''" "trim ''2026-01-01'' = ''2026-01-01''"
  "trim (replicate 64 (CHR ''0'')) = replicate 64 (CHR ''0'')"
  by (rule trim_plain; simp add: plain_char_def list_all_iff)+

lemma demo_pin_valid:
  "validate_retention_pin (\<lambda>_. True) subject demo_pin = Inr ()"
  "validate_retention_pin (\<lambda>_. True) subject (demo_pin\<lparr> rp_posture := Standard \<rparr>) = Inr ()"
proof -
  have "list_all is_hex_digit (replicate 64 (CHR ''0''))" "replicate 64 (CHR ''0'') \<noteq> []"
    by (simp_all add: list_all_iff is_hex_digit_def is_digit_def)
  then show "validate_retention_pin (\<lambda>_. True) subject demo_pin = Inr ()"
      "validate_retention_pin (\<lambda>_. True) subject (demo_pin\<lparr> rp_posture := Standard \<rparr>) = Inr ()"
    by (simp_all add: validate_retention_pin_def demo_pin_def reject_if_def starts_with_def)
qed

lemma demo_tiers_valid:
  "validate_tiers exact_decimal demo_entries (\<lambda>_. True) demo_catalog ([], []) (cat_tiers demo_catalog) =
     Inr []"
proof -
  have [simp]: "trim ''groq/m'' \<noteq> []" "trim ''xai/m'' \<noteq> []" "trim ''groq'' \<noteq> []" "trim ''xai'' \<noteq> []"
      "trim ''m'' \<noteq> []" "trim ''text'' \<noteq> []"
    by (simp_all add: trim_plain plain_char_def)
  have [simp]: "rsplit_once (CHR '':'') ''groq/m'' = None" "rsplit_once (CHR '':'') ''xai/m'' = None"
    by (simp_all add: rsplit_once_def)
  have rates: "validate_rate_schedule exact_decimal tid (flat \<lparr> input_per_mtok = Some x,
      output_per_mtok = Some x, cached_input_per_mtok = None, cache_write_per_mtok = None \<rparr>) = Inr ()"
    if "x \<in> {1, 2, 3}" for tid x
    using that
    by (auto simp: validate_rate_schedule_def flat_def thresholds_def validate_rates_def validate_rate_def
        reject_if_def billable_rate_def exact_decimal_def max_rate_per_mtok_def)
  have margin: "withheld_by tid (demo_tier p x y) (demo_candidate p x) = Inr ()" if "x \<le> y" for tid p x y
    using that
    by (simp add: withheld_by_def validate_candidate_margin_def margin_probes_def margin_at_def
        margin_dimension_def demo_catalog_defs flat_def at_prompt_tokens_def thresholds_def
        validate_cache_is_a_discount_def cache_is_a_discount_def reject_if_def
        effective_cached_input_per_mtok_def effective_cache_write_per_mtok_def or_else_def)
  note cand_defs = validate_candidate_def demo_catalog_def demo_candidate_def demo_tier_def demo_metadata_def
    reject_if_def starts_with_def reject_priority_suffix_collision_def is_supported_provider_def
    find_provider_def demo_entries_def demo_provider_def prices_cache_writes_def
    validate_metadata_def validate_zero_price_def any_required_rates_are_zero_def
    required_rates_are_zero_def tables_def
  have base: "base (flat t) = t" "conditional (flat t) = []" for t
    by (simp_all add: flat_def)
  have cand: "validate_candidate exact_decimal demo_entries demo_catalog tid (demo_tier ''groq'' 1 y) ids
      (demo_candidate ''groq'' 1) = Inr ()" if "''groq/m'' \<notin> set ids" for y tid ids
    using that rates [of 1 tid] by (simp add: cand_defs base)
  have cand2: "validate_candidate exact_decimal demo_entries demo_catalog tid (demo_tier ''xai'' 2 y) ids
      (demo_candidate ''xai'' 2) = Inr ()" if "''xai/m'' \<notin> set ids" for y tid ids
    using that rates [of 2 tid] by (simp add: cand_defs base)
  note tier_defs = validate_tier_def reject_if_def reject_priority_suffix_collision_def
  have parts: "td_retention (demo_tier p x y) = None" "td_candidates (demo_tier p x y) = [demo_candidate p x]"
      "c_id (demo_candidate p x) = p @ ''/m''"
      "td_rates (demo_tier p x y) = flat \<lparr> input_per_mtok = Some y, output_per_mtok = Some y,
         cached_input_per_mtok = None, cache_write_per_mtok = None \<rparr>" for p x y
    by (simp_all add: demo_tier_def demo_candidate_def)
  have "validate_tier exact_decimal demo_entries (\<lambda>_. True) demo_catalog
      (''groq/m'', demo_tier ''groq'' 1 2) ([], []) = Inr ([''groq/m''], [])"
    using rates [of 2 "''groq/m''"] cand [of "[]" "''groq/m''" 2] margin [of 1 2 "''groq/m''" "''groq''"]
    by (simp add: tier_defs parts)
  moreover have "validate_tier exact_decimal demo_entries (\<lambda>_. True) demo_catalog
      (''xai/m'', demo_tier ''xai'' 2 3) ([''groq/m''], []) = Inr ([''xai/m'', ''groq/m''], [])"
    using rates [of 3 "''xai/m''"] cand2 [of "[''groq/m'']" "''xai/m''" 3] margin [of 2 3 "''xai/m''" "''xai''"]
    by (simp add: tier_defs parts)
  moreover have "cat_tiers demo_catalog =
      [(''groq/m'', demo_tier ''groq'' 1 2), (''xai/m'', demo_tier ''xai'' 2 3)]"
    by (simp add: demo_catalog_def)
  ultimately show ?thesis
    by simp
qed

lemma demo_load:
  "load_tier_catalog exact_decimal demo_entries (\<lambda>_. True) demo_catalog = Inr (synthesize_unified demo_catalog)"
  using demo_tiers_valid demo_pin_valid
  by (simp add: load_tier_catalog_def validate_tier_catalog_def demo_catalog_def withhold_tiers_def)

section \<open>Properties\<close>

text \<open>C35: No candidate of a loaded catalog is sold below its cost: at every prompt size, whichever
  bands of the two price tables it falls in, the cost basis of a usage and its price at the tier's
  sell rates both exist (the loader refuses a table with a rate that is missing, negative or cannot be
  billed), and the price is not the smaller.  The conditions beside the load: the rates that convert
  have at most six decimal places, which the loader does not check, and the usage counts at most 2 ^ 46
  tokens of either kind.\<close>

theorem catalog_never_below_cost:
  assumes "load_tier_catalog D entries is_date parsed = Inr cat"
    and "(tid, td) \<in> set (cat_tiers cat)" "c \<in> set (td_candidates td)"
    and "decimal_exact D" "conversion_ok D"
    and "\<forall>t \<in> set (tables (c_rates c)) \<union> set (tables (td_rates td)). table_six_decimals D t"
    and "prompt_tokens u \<le> max_priced_tokens" "completion_tokens u \<le> max_priced_tokens"
  shows "\<exists>basis price. usage_cost D (at_prompt_tokens (c_rates c) n) u = Some basis \<and>
    usage_cost D (at_prompt_tokens (td_rates td) n) u = Some price \<and> basis \<le> price"
proof -
  let ?b = "at_prompt_tokens (c_rates c) n" and ?s = "at_prompt_tokens (td_rates td) n"
  have r: "rates_billable D ?b" "rates_billable D ?s"
    using validated_billable [OF loaded_tier(2) [OF assms(1,2,3)]] validated_billable [OF loaded_tier(1) [OF assms(1,2)]] assms(6)
    by (simp_all add: ball_Un)
  have "usage_cost D ?b u = Some (exact_cost D ?b u)" "usage_cost D ?s u = Some (exact_cost D ?s u)"
    using usage_cost_exact [OF assms(4,5) _ assms(7,8)] r by simp_all
  moreover have "exact_cost D ?b u \<le> exact_cost D ?s u"
    using exact_cost_mono [OF assms(5) r loaded_margin [OF assms(1-3)]] .
  ultimately show ?thesis
    by blast
qed

lemma demo_six_decimals:
  "\<forall>t \<in> set (tables (c_rates (demo_candidate p x))). table_six_decimals exact_decimal t" if "x \<in> {1, 2, 3}"
  using that
  by (auto simp: demo_candidate_def flat_def tables_def table_six_decimals_def six_decimals_def
      billed_defs unwrap_or_def exact_decimal_def at_scale_iff Ints_mult)

lemma catalog_never_below_cost_witness:
  "\<exists>basis price. usage_cost exact_decimal (at_prompt_tokens (c_rates (demo_candidate ''xai'' 2)) 10)
      (mk_usage 10 0 0 5) = Some basis \<and>
    usage_cost exact_decimal (at_prompt_tokens (c_rates (demo_candidate ''xai'' 3)) 10) (mk_usage 10 0 0 5) =
      Some price \<and> basis \<le> price"
proof -
  have "(''xai/m'', demo_tier ''xai'' 2 3) \<in> set (cat_tiers (synthesize_unified demo_catalog))"
    by (simp add: synthesize_unified_def demo_catalog_def)
  from catalog_never_below_cost [OF demo_load this _ exact_decimal_exact conversion_exact_decimal,
      of "demo_candidate ''xai'' 2" "mk_usage 10 0 0 5" 10]
  show ?thesis
    using demo_six_decimals [of 2 "''xai''"] demo_six_decimals [of 3 "''xai''"]
    by (simp add: demo_tier_def mk_usage_def max_priced_tokens_def ball_Un)
qed

text \<open>A unified model comes from one group of candidates, each priced by a tier of the catalog.\<close>

lemma unified_members:
  assumes "load_tier_catalog D entries is_date parsed = Inr cat" "resolve_unified cat model = Some r"
  obtains members where "\<And>x. x \<in> set members \<Longrightarrow> member_of cat model x"
    "2 \<le> card (set (List.map (c_provider \<circ> mem_candidate) members))"
    "rr_candidates r = List.map mem_candidate (sort_key (ordering_rank \<circ> mem_posture) members)"
    "dearest_across (List.map mem_sell_rates members) = Some (rr_sell_rates r)"
proof -
  obtain um where um: "map_of (cat_unified cat) model = Some um"
      "rr_candidates r = td_candidates (um_definition um)" "rr_sell_rates r = td_rates (um_definition um)"
    using assms(2) by (auto simp: resolve_unified_def)
  obtain w where w: "cat = synthesize_unified w"
    using assms(1) by (auto simp: load_tier_catalog_def split: sum.splits)
  have "unified_bare cat = unified_bare w" "candidate_retention cat = candidate_retention w"
      "cat_tiers cat = cat_tiers w"
    by (auto simp: w fun_eq_iff synthesize_unified_def unified_bare_def candidate_retention_def
        split: option.splits)
  then have same: "member_of w = member_of cat"
    by (simp add: fun_eq_iff member_of_def)
  have "(model, um) \<in> set (cat_unified cat)"
    using um(1) by (rule map_of_SomeD)
  then obtain members where m: "(model, members) \<in> set (unified_groups w)" "unify members = Some um"
    by (auto simp: w synthesize_unified_def List.map_filter_def)
  show thesis
  proof (rule that)
    show "member_of cat model x" if "x \<in> set members" for x
      using unified_groups_sound [of w] m(1) that by (auto simp: groups_sound_def same)
  qed (use m(2) um(2,3) in \<open>auto simp: unify_def Let_def length_remdups_card_conv split: if_splits\<close>)
qed

lemma unified_member_covered:
  assumes load: "load_tier_catalog D entries is_date parsed = Inr cat"
    and member: "\<And>x. x \<in> set members \<Longrightarrow> member_of cat model x"
    and sell: "dearest_across (List.map mem_sell_rates members) = Some rates" and x: "x \<in> set members"
  shows "\<exists>(tid, td) \<in> set (cat_tiers cat). mem_candidate x \<in> set (td_candidates td) \<and>
    map_option rp_posture (candidate_retention cat td (mem_candidate x)) = Some (mem_posture x) \<and>
    rates_le (at_prompt_tokens (td_rates td) n) (at_prompt_tokens rates n) \<and>
    rates_le (at_prompt_tokens (c_rates (mem_candidate x)) n) (at_prompt_tokens rates n)"
proof -
  have nonneg: "rates_nonneg t" if "y \<in> set (List.map mem_sell_rates members)" "t \<in> set (tables y)" for y t
  proof -
    obtain z where z: "z \<in> set members" "y = mem_sell_rates z"
      using \<open>y \<in> set (List.map mem_sell_rates members)\<close> by auto
    then obtain tid td where "(tid, td) \<in> set (cat_tiers cat)" "y = td_rates td"
      using member [OF z(1)] by (metis member_ofE)
    then show ?thesis
      using loaded_tier(1) [OF load] validate_rate_schedule_tables that(2) by blast
  qed
  obtain tid td where t: "(tid, td) \<in> set (cat_tiers cat)" "mem_candidate x \<in> set (td_candidates td)"
      "mem_sell_rates x = td_rates td"
      "map_option rp_posture (candidate_retention cat td (mem_candidate x)) = Some (mem_posture x)"
    using member [OF x] by (rule member_ofE)
  have up: "rates_le (at_prompt_tokens (td_rates td) n) (at_prompt_tokens rates n)"
    using at_prompt_tokens_reconciled [OF sell, of "td_rates td" n] nonneg t(3) x
    by (metis image_eqI list.set_map)
  moreover have "rates_le (at_prompt_tokens (c_rates (mem_candidate x)) n) (at_prompt_tokens (td_rates td) n)"
    by (rule loaded_margin [OF load t(1,2)])
  ultimately have "rates_le (at_prompt_tokens (c_rates (mem_candidate x)) n) (at_prompt_tokens rates n)"
    by (auto simp: rates_le_def)
  then show ?thesis
    using t up by (intro bexI [of _ "(tid, td)"]) simp_all
qed

text \<open>a shared identifier of a loaded catalog routes to candidates of at least two providers, the
  zero-retention ones first, each of them a candidate of some tier; and the price it sells at is, in
  every dimension and at every prompt size, at least that tier's and at least the candidate's cost.\<close>

theorem unified_route_sound:
  assumes "load_tier_catalog D entries is_date parsed = Inr cat" "resolve_unified cat model = Some r"
  shows "2 \<le> card (c_provider ` set (rr_candidates r)) \<and>
    (\<exists>postures. sorted (List.map ordering_rank postures) \<and>
      length postures = length (rr_candidates r) \<and>
      (\<forall>i < length postures. \<exists>(tid, td) \<in> set (cat_tiers cat).
         rr_candidates r ! i \<in> set (td_candidates td) \<and>
         map_option rp_posture (candidate_retention cat td (rr_candidates r ! i)) = Some (postures ! i) \<and>
         rates_le (at_prompt_tokens (td_rates td) n) (at_prompt_tokens (rr_sell_rates r) n) \<and>
         rates_le (at_prompt_tokens (c_rates (rr_candidates r ! i)) n)
           (at_prompt_tokens (rr_sell_rates r) n)))"
proof -
  obtain members where members: "\<And>x. x \<in> set members \<Longrightarrow> member_of cat model x"
      "2 \<le> card (set (List.map (c_provider \<circ> mem_candidate) members))"
      "rr_candidates r = List.map mem_candidate (sort_key (ordering_rank \<circ> mem_posture) members)"
      "dearest_across (List.map mem_sell_rates members) = Some (rr_sell_rates r)"
    using unified_members [OF assms] by metis
  let ?ordered = "sort_key (ordering_rank \<circ> mem_posture) members"
  let ?postures = "List.map mem_posture ?ordered"
  note each = unified_member_covered [OF assms(1) members(1,4)]
  have providers: "c_provider ` set (rr_candidates r) = set (List.map (c_provider \<circ> mem_candidate) members)"
    using members(3) by (auto simp: image_iff)
  have order: "sorted (List.map ordering_rank ?postures)"
    using sorted_sort_key [of "ordering_rank \<circ> mem_posture" members] by simp
  have len: "length ?postures = length (rr_candidates r)"
    using members(3) by simp
  have nth: "\<exists>(tid, td) \<in> set (cat_tiers cat).
         rr_candidates r ! i \<in> set (td_candidates td) \<and>
         map_option rp_posture (candidate_retention cat td (rr_candidates r ! i)) = Some (?postures ! i) \<and>
         rates_le (at_prompt_tokens (td_rates td) n) (at_prompt_tokens (rr_sell_rates r) n) \<and>
         rates_le (at_prompt_tokens (c_rates (rr_candidates r ! i)) n)
           (at_prompt_tokens (rr_sell_rates r) n)" if "i < length ?postures" for i
    using each [of "?ordered ! i" n] that members(3) nth_mem [of i ?ordered] by simp
  show ?thesis
  proof (intro conjI exI [of _ ?postures] allI impI)
    show "2 \<le> card (c_provider ` set (rr_candidates r))"
      using members(2) providers by simp
  qed (use order len nth in \<open>simp_all only:\<close>)
qed

lemma demo_unified: "resolve_unified (synthesize_unified demo_catalog) ''m'' \<noteq> None"
  by (simp add: resolve_unified_def synthesize_unified_def unified_groups_def group_candidate_def
      unified_bare_def split_once_def contains_def demo_catalog_defs candidate_retention_def or_else_def
      List.map_filter_def unify_def dearest_across_def flat_def thresholds_def)

lemma unified_route_sound_witness:
  "\<exists>r. resolve_unified (synthesize_unified demo_catalog) ''m'' = Some r \<and>
    2 \<le> card (c_provider ` set (rr_candidates r))"
  using unified_route_sound [OF demo_load] demo_unified by blast

text \<open>where every candidate declares its limits, what a tier advertises is exactly what all of
  them can do: the narrowed declaration admits a request if and only if each candidate's does.\<close>

theorem narrowed_serves_iff_all_serve:
  assumes "cs \<noteq> []"
    and "\<forall>c \<in> set cs. md_context_window (c_metadata c) \<noteq> None \<and>
      md_input_modalities (c_metadata c) \<noteq> None \<and> md_tool_call (c_metadata c) \<noteq> None"
  shows "can_serve (narrowed cs) needs \<longleftrightarrow> (\<forall>c \<in> set cs. can_serve (c_metadata c) needs)"
proof -
  obtain ws where ws: "List.map (md_context_window \<circ> c_metadata) cs = List.map Some ws"
    using all_declared [of cs "md_context_window \<circ> c_metadata"] assms(2) by auto
  obtain ms where ms: "List.map (md_input_modalities \<circ> c_metadata) cs = List.map Some ms"
    using all_declared [of cs "md_input_modalities \<circ> c_metadata"] assms(2) by auto
  obtain ts where ts: "List.map (md_tool_call \<circ> c_metadata) cs = List.map Some ts"
    using all_declared [of cs "md_tool_call \<circ> c_metadata"] assms(2) by auto
  obtain w ws' m ms' t ts' where cons: "ws = w # ws'" "ms = m # ms'" "ts = t # ts'"
    using assms(1) ws ms ts by (cases ws; cases ms; cases ts; cases cs) auto
  have n: "md_context_window (narrowed cs) = Some (foldl min w ws')"
      "md_input_modalities (narrowed cs) =
        Some (foldl (\<lambda>shared more. List.filter (\<lambda>m. m \<in> set more) shared) m ms')"
      "md_tool_call (narrowed cs) = Some (foldl (\<and>) t ts')"
    using ws ms ts by (simp_all add: narrowed_def cons narrow_declared comp_def)
  have "can_serve (narrowed cs) needs \<longleftrightarrow>
      (\<forall>x \<in> set ws. n_prompt_bound needs \<le> x) \<and> (n_tools needs \<longrightarrow> (\<forall>x \<in> set ts. x)) \<and>
      (\<forall>x \<in> set ms. \<forall>y \<in> set (n_modalities needs). y \<in> set x)"
  proof -
    have "(\<forall>x \<in> set (n_modalities needs).
          x \<in> set (foldl (\<lambda>shared more. List.filter (\<lambda>m. m \<in> set more) shared) m ms')) \<longleftrightarrow>
        (\<forall>x \<in> set ms. \<forall>y \<in> set (n_modalities needs). y \<in> set x)"
      unfolding foldl_filter_set cons by auto
    then show ?thesis
      unfolding can_serve_iff n by (simp add: foldl_min_le foldl_conj cons)
  qed
  also have "\<dots> \<longleftrightarrow> (\<forall>c \<in> set cs. can_serve (c_metadata c) needs)"
    unfolding can_serve_iff ball_declared [OF ws] ball_declared [OF ms] ball_declared [OF ts] comp_def
    by (cases "n_tools needs") (simp_all add: ball_conj_distrib)
  finally show ?thesis .
qed

lemma narrowed_serves_iff_all_serve_witness:
  "can_serve (narrowed [demo_candidate ''xai'' 2, demo_candidate ''groq'' 1])
     \<lparr> n_prompt_bound = 1001, n_tools = True, n_modalities = [] \<rparr> \<longleftrightarrow>
   (\<forall>c \<in> set [demo_candidate ''xai'' 2, demo_candidate ''groq'' 1].
      can_serve (c_metadata c) \<lparr> n_prompt_bound = 1001, n_tools = True, n_modalities = [] \<rparr>)"
  by (rule narrowed_serves_iff_all_serve) (auto simp: demo_candidate_def demo_metadata_def)

end
