(* ===== verification/Health.thy ===== *)
theory Health
  imports Floats Usage Catalog
begin

text \<open>
  Provider health (\<^verbatim>\<open>router/src/health.rs\<close>): the registry that remembers how each upstream
  model answered, and the ledger of a walk, whose only way to record an attempt also tells the
  registry.  Times are milliseconds of the process clock.
\<close>

section \<open>The registry\<close>

definition ERROR_EWMA_ALPHA :: f64 where
  "ERROR_EWMA_ALPHA = fl (3 / 10)"

definition DEMOTION_THRESHOLD :: f64 where
  "DEMOTION_THRESHOLD = fl (1 / 2)"

definition RATE_LIMIT_COOLDOWN :: time where
  "RATE_LIMIT_COOLDOWN = 60 * 1000"

record rung_health =
  error_ewma :: f64
  cooldown_until :: "time option"

definition default_rung :: rung_health where
  "default_rung = \<lparr> error_ewma = Fin 0, cooldown_until = None \<rparr>"

type_synonym health = "string \<times> string \<Rightarrow> rung_health option"

definition rung_demoted :: "rung_health \<Rightarrow> time \<Rightarrow> bool" where
  "rung_demoted r now \<longleftrightarrow>
     f64_less DEMOTION_THRESHOLD (error_ewma r) \<or>
     (case cooldown_until r of None \<Rightarrow> False | Some until \<Rightarrow> now < until)"

datatype health_update = HealthSuccess | HealthFailure | HealthRateLimited

definition update_of_outcome :: "string \<Rightarrow> health_update option" where
  "update_of_outcome s =
     (if s = ''ok'' then Some HealthSuccess
      else if s = ''rate_limited'' then Some HealthRateLimited
      else if s = ''upstream_error'' \<or> s = ''timeout'' \<or> s = ''stream_error'' then Some HealthFailure
      else None)"

text \<open>\<^verbatim>\<open>1.0 - ERROR_EWMA_ALPHA\<close>, rounded.\<close>

definition ONE_MINUS_ALPHA :: f64 where
  "ONE_MINUS_ALPHA = (case ERROR_EWMA_ALPHA of Fin a \<Rightarrow> fl (1 - a) | x \<Rightarrow> x)"

fun apply_update :: "time \<Rightarrow> health_update \<Rightarrow> rung_health \<Rightarrow> rung_health" where
  "apply_update now HealthSuccess r =
     r\<lparr> error_ewma := f64_mul (error_ewma r) ONE_MINUS_ALPHA, cooldown_until := None \<rparr>"
| "apply_update now HealthFailure r =
     r\<lparr> error_ewma := f64_add ERROR_EWMA_ALPHA (f64_mul ONE_MINUS_ALPHA (error_ewma r)) \<rparr>"
| "apply_update now HealthRateLimited r = r\<lparr> cooldown_until := Some (now + RATE_LIMIT_COOLDOWN) \<rparr>"

definition observe :: "time \<Rightarrow> attempt_record \<Rightarrow> health \<Rightarrow> health" where
  "observe now a h =
     (case update_of_outcome (outcome a) of
        None \<Rightarrow> h
      | Some u \<Rightarrow>
          (let key = (a_upstream_provider a, a_upstream_model a);
               rung = (case h key of None \<Rightarrow> default_rung | Some r \<Rightarrow> r)
           in h(key \<mapsto> apply_update now u rung)))"

definition should_skip :: "time \<Rightarrow> health \<Rightarrow> tier_candidate \<Rightarrow> bool" where
  "should_skip now h c \<longleftrightarrow>
     (case h (c_provider c, c_model c) of None \<Rightarrow> False | Some r \<Rightarrow> rung_demoted r now)"

section \<open>The ledger of a walk\<close>

record walk_ledger =
  wl_health :: health
  wl_rows :: "attempt_record list"

definition ledger_push :: "time \<Rightarrow> attempt_record \<Rightarrow> walk_ledger \<Rightarrow> walk_ledger" where
  "ledger_push now row l = l\<lparr> wl_health := observe now row (wl_health l), wl_rows := wl_rows l @ [row] \<rparr>"

definition take_rows :: "walk_ledger \<Rightarrow> attempt_record list \<times> walk_ledger" where
  "take_rows l = (wl_rows l, l\<lparr> wl_rows := [] \<rparr>)"

section \<open>Constants\<close>

definition alpha :: rat where
  "alpha = 5404319552844595 / 18014398509481984"

definition one_minus_alpha :: rat where
  "one_minus_alpha = 6305039478318694 / 9007199254740992"

lemma alpha_fl: "ERROR_EWMA_ALPHA = Fin alpha"
proof -
  have "\<lfloor>27021597764222976 / 5 :: rat\<rfloor> = 5404319552844595"
    by (simp add: floor_eq_iff)
  then have "nearest (3 / 10) = alpha"
    by (simp add: nearest_at [of "- 2"] alpha_def pow2_def round_half_even_def)
  then show ?thesis
    by (simp add: ERROR_EWMA_ALPHA_def fl_Fin)
qed

lemma one_minus_alpha_fl: "ONE_MINUS_ALPHA = Fin one_minus_alpha"
proof -
  have "\<lfloor>12610078956637389 / 2 :: rat\<rfloor> = 6305039478318694"
    by (simp add: floor_eq_iff)
  then have "nearest (1 - alpha) = one_minus_alpha"
    by (simp add: nearest_at [of "- 1"] alpha_def one_minus_alpha_def pow2_def round_half_even_def)
  moreover have "0 \<le> 1 - alpha" "1 - alpha \<le> 2 ^ 1000"
    by (simp_all add: alpha_def)
  ultimately show ?thesis
    by (simp add: ONE_MINUS_ALPHA_def alpha_fl fl_Fin)
qed

lemma threshold_fl: "DEMOTION_THRESHOLD = Fin (1 / 2)"
  using nearest_float [of 1 "- 1"] by (simp add: DEMOTION_THRESHOLD_def fl_Fin pow2_def)

section \<open>The error average stays a fraction\<close>

definition ewma_step :: "rat \<Rightarrow> rat" where
  "ewma_step e = nearest (alpha + nearest (one_minus_alpha * e))"

definition ewma_decay :: "rat \<Rightarrow> rat" where
  "ewma_decay e = nearest (e * one_minus_alpha)"

lemma consts_range: "0 < alpha" "alpha < 1" "0 < one_minus_alpha" "one_minus_alpha < 1"
  by (simp_all add: alpha_def one_minus_alpha_def)

lemma nearest_one_minus_alpha: "nearest one_minus_alpha = one_minus_alpha"
  using nearest_float [of 6305039478318694 "- 53"] by (simp add: one_minus_alpha_def pow2_def)

lemma nearest_sum_one: "nearest (alpha + one_minus_alpha) = 1"
proof -
  have "\<lfloor>18014398509481983 / 2 :: rat\<rfloor> = 9007199254740991"
    by (simp add: floor_eq_iff)
  then show ?thesis
    by (simp add: nearest_at [of "- 1"] alpha_def one_minus_alpha_def pow2_def round_half_even_def)
qed

lemma ewma_step_mono: "0 \<le> x \<Longrightarrow> x \<le> y \<Longrightarrow> ewma_step x \<le> ewma_step y"
  unfolding ewma_step_def using consts_range
  by (intro nearest_mono add_left_mono mult_left_mono add_nonneg_nonneg nearest_nonneg) simp_all

lemma ewma_decay_mono: "0 \<le> x \<Longrightarrow> x \<le> y \<Longrightarrow> ewma_decay x \<le> ewma_decay y"
  unfolding ewma_decay_def using consts_range by (intro nearest_mono mult_right_mono) simp_all

lemma ewma_step_nonneg: "0 \<le> x \<Longrightarrow> 0 \<le> ewma_step x"
  unfolding ewma_step_def using consts_range by (intro nearest_nonneg add_nonneg_nonneg) simp_all

lemma ewma_decay_nonneg: "0 \<le> x \<Longrightarrow> 0 \<le> ewma_decay x"
  unfolding ewma_decay_def using consts_range by (intro nearest_nonneg) simp_all

lemma ewma_step_one: "ewma_step 1 = 1"
  by (simp add: ewma_step_def nearest_one_minus_alpha nearest_sum_one)

lemma ewma_step_le_one: "0 \<le> x \<Longrightarrow> x \<le> 1 \<Longrightarrow> ewma_step x \<le> 1"
  using ewma_step_mono [of x 1] ewma_step_one by simp

lemma ewma_decay_one: "ewma_decay 1 = one_minus_alpha"
  by (simp add: ewma_decay_def nearest_one_minus_alpha)

lemma ewma_decay_le: "0 \<le> x \<Longrightarrow> x \<le> 1 \<Longrightarrow> ewma_decay x \<le> one_minus_alpha"
  using ewma_decay_mono [of x 1] ewma_decay_one by simp

definition rung_ok :: "rung_health \<Rightarrow> bool" where
  "rung_ok r \<longleftrightarrow> (\<exists>e. error_ewma r = Fin e \<and> 0 \<le> e \<and> e \<le> 1)"

definition health_ok :: "health \<Rightarrow> bool" where
  "health_ok h \<longleftrightarrow> (\<forall>k r. h k = Some r \<longrightarrow> rung_ok r)"

lemma fl_small: "0 \<le> x \<Longrightarrow> x \<le> 2 \<Longrightarrow> fl x = Fin (nearest x)"
  by (rule fl_Fin) simp_all

lemma apply_update_ewma:
  assumes "error_ewma r = Fin e" "0 \<le> e" "e \<le> 1"
  shows "error_ewma (apply_update now HealthSuccess r) = Fin (ewma_decay e)"
    and "error_ewma (apply_update now HealthFailure r) = Fin (ewma_step e)"
    and "error_ewma (apply_update now HealthRateLimited r) = Fin e"
proof -
  have m: "0 \<le> one_minus_alpha * e" "one_minus_alpha * e \<le> 1"
    using assms consts_range by (auto intro: mult_le_one)
  then have n: "0 \<le> nearest (one_minus_alpha * e)" "nearest (one_minus_alpha * e) \<le> 1"
    using nearest_nonneg nearest_mono [of "one_minus_alpha * e" 1] nearest_of_nat [of 1] by auto
  show "error_ewma (apply_update now HealthSuccess r) = Fin (ewma_decay e)"
    using m by (simp add: assms(1) one_minus_alpha_fl ewma_decay_def fl_small mult.commute)
  show "error_ewma (apply_update now HealthFailure r) = Fin (ewma_step e)"
    using m n consts_range by (simp add: assms(1) one_minus_alpha_fl alpha_fl ewma_step_def fl_small)
  show "error_ewma (apply_update now HealthRateLimited r) = Fin e"
    by (simp add: assms(1))
qed

lemma apply_update_ok: "rung_ok r \<Longrightarrow> rung_ok (apply_update now u r)"
proof -
  assume "rung_ok r"
  then obtain e where e: "error_ewma r = Fin e" "0 \<le> e" "e \<le> 1"
    by (auto simp: rung_ok_def)
  note a = apply_update_ewma [OF e]
  show ?thesis
  proof (cases u)
    case HealthSuccess
    then show ?thesis
      using a(1) ewma_decay_nonneg [OF e(2)] ewma_decay_le [OF e(2,3)] consts_range(4)
      by (auto simp: rung_ok_def simp del: apply_update.simps)
  next
    case HealthFailure
    then show ?thesis
      using a(2) ewma_step_nonneg [OF e(2)] ewma_step_le_one [OF e(2,3)]
      by (auto simp: rung_ok_def simp del: apply_update.simps)
  next
    case HealthRateLimited
    then show ?thesis
      using a(3) e by (auto simp: rung_ok_def)
  qed
qed

lemma default_rung_ok: "rung_ok default_rung"
  by (simp add: rung_ok_def default_rung_def)

lemma observe_ok: "health_ok h \<Longrightarrow> health_ok (observe now a h)"
  by (auto simp: observe_def health_ok_def Let_def default_rung_ok intro!: apply_update_ok
      split: option.splits)

text \<open>Any history of observations, each with its time, from an empty registry.\<close>

definition observed :: "(time \<times> attempt_record) list \<Rightarrow> health" where
  "observed hist = fold (\<lambda>(t, a). observe t a) hist (\<lambda>_. None)"

lemma observed_ok: "health_ok (observed hist)"
proof -
  have fold_ok: "health_ok h \<Longrightarrow> health_ok (fold (\<lambda>(t, a). observe t a) hist h)" for h
    by (induction hist arbitrary: h) (auto intro: observe_ok)
  have "health_ok (\<lambda>_. None)"
    by (simp add: health_ok_def)
  from fold_ok [OF this] show ?thesis
    by (simp add: observed_def)
qed

lemma observe_at:
  assumes "update_of_outcome (outcome a) = Some u"
  shows "observe now a h (a_upstream_provider a, a_upstream_model a) =
    Some (apply_update now u (case h (a_upstream_provider a, a_upstream_model a) of
      None \<Rightarrow> default_rung | Some r \<Rightarrow> r))"
  using assms by (simp add: observe_def Let_def)

section \<open>Properties\<close>

lemma two_failures_cross: "0 \<le> e \<Longrightarrow> 1 / 2 < ewma_step (ewma_step e)"
proof -
  assume "0 \<le> e"
  have "nearest alpha = alpha"
    using nearest_float [of 5404319552844595 "- 54"] by (simp add: alpha_def pow2_def)
  moreover have "nearest 0 = 0"
    by (simp add: nearest_def)
  ultimately have zero: "ewma_step 0 = alpha"
    by (simp add: ewma_step_def)
  have "52 / 256 \<le> one_minus_alpha * alpha"
    by (simp add: one_minus_alpha_def alpha_def)
  then have "nearest (52 / 256) \<le> nearest (one_minus_alpha * alpha)"
    by (intro nearest_mono) simp_all
  moreover have "nearest (52 / 256) = 52 / 256"
    using nearest_float [of 52 "- 8"] by (simp add: pow2_def)
  ultimately have "alpha + 52 / 256 \<le> alpha + nearest (one_minus_alpha * alpha)"
    by simp
  moreover have "257 / 512 \<le> alpha + 52 / 256"
    by (simp add: alpha_def)
  ultimately have "nearest (257 / 512) \<le> ewma_step alpha"
    unfolding ewma_step_def by (intro nearest_mono) simp_all
  moreover have "nearest (257 / 512) = 257 / 512"
    using nearest_float [of 257 "- 9"] by (simp add: pow2_def)
  ultimately have "1 / 2 < ewma_step alpha"
    by simp
  also have "\<dots> \<le> ewma_step (ewma_step e)"
    using ewma_step_mono [OF order_refl \<open>0 \<le> e\<close>] zero consts_range(1)
    by (intro ewma_step_mono) simp_all
  finally show ?thesis .
qed

lemma two_successes_recover: "0 \<le> e \<Longrightarrow> e \<le> 1 \<Longrightarrow> ewma_decay (ewma_decay e) \<le> 1 / 2"
proof -
  assume e: "0 \<le> e" "e \<le> 1"
  have "ewma_decay (ewma_decay e) \<le> ewma_decay one_minus_alpha"
    using e ewma_decay_nonneg ewma_decay_le by (intro ewma_decay_mono) simp_all
  also have "\<dots> \<le> nearest (1 / 2)"
    unfolding ewma_decay_def by (intro nearest_mono) (simp_all add: one_minus_alpha_def)
  also have "nearest (1 / 2) = 1 / 2"
    using nearest_float [of 1 "- 1"] by (simp add: pow2_def)
  finally show ?thesis .
qed

text \<open>whatever a rung has seen before, its error average is a fraction; two attempts in a row
  that it did not answer demote it, and two completions in a row restore it and end its cooldown.\<close>

theorem health_demotes_and_recovers:
  assumes "a_upstream_provider x = c_provider c" "a_upstream_model x = c_model c"
    and "a_upstream_provider y = c_provider c" "a_upstream_model y = c_model c"
  shows "health_ok (observed hist) \<and>
    (update_of_outcome (outcome x) = Some HealthFailure \<and> update_of_outcome (outcome y) = Some HealthFailure \<longrightarrow>
       should_skip now (observed (hist @ [(t1, x), (t2, y)])) c) \<and>
    (update_of_outcome (outcome x) = Some HealthSuccess \<and> update_of_outcome (outcome y) = Some HealthSuccess \<longrightarrow>
       \<not> should_skip now (observed (hist @ [(t1, x), (t2, y)])) c)"
proof -
  let ?k = "(c_provider c, c_model c)"
  let ?h = "observed hist"
  define r where "r = (case ?h ?k of None \<Rightarrow> default_rung | Some r \<Rightarrow> r)"
  have "rung_ok r"
    using observed_ok [of hist] default_rung_ok by (auto simp: r_def health_ok_def split: option.splits)
  then obtain e where e: "error_ewma r = Fin e" "0 \<le> e" "e \<le> 1"
    by (auto simp: rung_ok_def)
  have two: "observed (hist @ [(t1, x), (t2, y)]) ?k = Some (apply_update t2 v (apply_update t1 u r))"
    if "update_of_outcome (outcome x) = Some u" "update_of_outcome (outcome y) = Some v" for u v
    using observe_at [OF that(2), of t2 "observe t1 x ?h"] observe_at [OF that(1), of t1 ?h] assms
    by (simp add: observed_def r_def)
  have fail: "should_skip now (observed (hist @ [(t1, x), (t2, y)])) c"
    if f: "update_of_outcome (outcome x) = Some HealthFailure" "update_of_outcome (outcome y) = Some HealthFailure"
  proof -
    note a = apply_update_ewma(2) [OF e, of t1]
    have "error_ewma (apply_update t2 HealthFailure (apply_update t1 HealthFailure r)) =
        Fin (ewma_step (ewma_step e))"
      using apply_update_ewma(2) [OF a ewma_step_nonneg [OF e(2)] ewma_step_le_one [OF e(2,3)]] .
    then show ?thesis
      using two [OF f] two_failures_cross [OF e(2)]
      by (simp add: should_skip_def rung_demoted_def threshold_fl f64_less_def del: apply_update.simps)
  qed
  have ok: "\<not> should_skip now (observed (hist @ [(t1, x), (t2, y)])) c"
    if s: "update_of_outcome (outcome x) = Some HealthSuccess" "update_of_outcome (outcome y) = Some HealthSuccess"
  proof -
    note a = apply_update_ewma(1) [OF e, of t1]
    have "ewma_decay e \<le> 1"
      using ewma_decay_le [OF e(2,3)] consts_range(4) by simp
    then have "error_ewma (apply_update t2 HealthSuccess (apply_update t1 HealthSuccess r)) =
        Fin (ewma_decay (ewma_decay e))"
      using apply_update_ewma(1) [OF a ewma_decay_nonneg [OF e(2)]] by simp
    moreover have "cooldown_until (apply_update t2 HealthSuccess (apply_update t1 HealthSuccess r)) = None"
      by simp
    ultimately show ?thesis
      using two [OF s] two_successes_recover [OF e(2,3)]
      by (auto simp: should_skip_def rung_demoted_def threshold_fl f64_less_def simp del: apply_update.simps)
  qed
  show ?thesis
    using observed_ok fail ok by blast
qed

definition demo_attempt :: "string \<Rightarrow> attempt_record" where
  "demo_attempt label = \<lparr> attempt_no = 1, started_at = 0, a_candidate_id = ''xai/m'',
     a_upstream_provider = ''xai'', a_upstream_model = ''m'', outcome = label, served = False,
     a_latency_ms = 0, a_tokens = tokens_unknown, tokens_estimated = False, a_cost_basis_usd = None,
     a_finish_reason = None, validator_kind = None \<rparr>"

lemma health_demotes_and_recovers_witness:
  "should_skip 0 (observed ([] @ [(0, demo_attempt ''timeout''), (0, demo_attempt ''upstream_error'')]))
     (demo_candidate ''xai'' 2)"
  using health_demotes_and_recovers [of "demo_attempt ''timeout''" "demo_candidate ''xai'' 2"
      "demo_attempt ''upstream_error''" "[]" 0 0 0]
  by (simp add: demo_attempt_def demo_candidate_def update_of_outcome_def)

end
