(* ===== verification/Routes.thy ===== *)
theory Routes
  imports Catalog Usage
begin

text \<open>
  From the candidates of a resolved request to the clients that can be called
  (\<^verbatim>\<open>router/src/providers.rs\<close>, \<^verbatim>\<open>router/src/wire/mod.rs\<close>): credentials minted or read, the
  customer's own key where the provider takes one, one client for each plane, and the house twin
  that may stand in for a customer's key.  A client is the record of what its constructor is given.
\<close>

section \<open>Attestation of a response\<close>

record response_attestation =
  ra_header :: string
  ra_expected :: string

definition attestation_new :: "(string \<Rightarrow> bool) \<Rightarrow> string \<Rightarrow> string \<Rightarrow> response_attestation option" where
  "attestation_new header_name header expected =
     (if header_name (trim header)
      then Some \<lparr> ra_header = trim header, ra_expected = trim expected \<rparr> else None)"

definition unquote :: "string \<Rightarrow> string" where
  "unquote seen =
     (case seen of
        [] \<Rightarrow> seen
      | c # rest \<Rightarrow>
          if c = CHR 0x22 \<and> rest \<noteq> [] \<and> last rest = CHR 0x22 then butlast rest else seen)"

definition satisfied_by :: "response_attestation \<Rightarrow> string \<Rightarrow> bool" where
  "satisfied_by a v \<longleftrightarrow>
     List.map ascii_lower (unquote (trim v)) = List.map ascii_lower (ra_expected a)"

text \<open>The headers of a response are a lookup by name; a value that is no text reads as a marker.\<close>

definition verify_attestation ::
    "response_attestation \<Rightarrow> (string \<Rightarrow> string option option) \<Rightarrow> bool" where
  "verify_attestation a headers \<longleftrightarrow>
     (case headers (ra_header a) of
        None \<Rightarrow> False
      | Some v \<Rightarrow> satisfied_by a (case v of None \<Rightarrow> ''<non-ascii>'' | Some s \<Rightarrow> s))"

section \<open>Clients\<close>

record upstream_client =
  u_adapter :: provider_adapter
  u_alias :: string
  u_credential :: string
  u_base_url :: "string option"
  u_max_output_tokens :: nat
  u_attestation :: "response_attestation option"

datatype build_error =
    InvalidInventory string
  | EmptyRoute
  | UnsupportedBy string string
  | UnknownSurfaceOf string string string
  | NoAvailableCredentials "string list"

definition create_provider ::
    "(string \<Rightarrow> bool) \<Rightarrow> provider_metadata \<Rightarrow> provider_adapter \<Rightarrow> string \<Rightarrow> nat \<Rightarrow> string option \<Rightarrow> bool \<Rightarrow>
     (build_error, upstream_client) result" where
  "create_provider header_name p adapter credential max_tokens url byok =
     (let client = \<lparr> u_adapter = adapter, u_alias = p_key p, u_credential = credential, u_base_url = url,
            u_max_output_tokens = max_tokens, u_attestation = None \<rparr> in
      case adapter of
        ChatCompletions \<Rightarrow>
          (case (if byok then None else p_attestation_header p,
                 if byok then None else p_attestation_expect p) of
             (Some header, Some expect) \<Rightarrow>
               (case attestation_new header_name header expect of
                  None \<Rightarrow> Inl (InvalidInventory (p_key p))
                | Some a \<Rightarrow> Inr (client\<lparr> u_attestation := Some a \<rparr>))
           | _ \<Rightarrow> Inr client)
      | AnthropicBedrockRuntime \<Rightarrow>
          (if url = None then Inl (InvalidInventory (p_key p)) else Inr client)
      | _ \<Rightarrow> Inr client)"

section \<open>Credentials\<close>

type_synonym byok_credentials = "(string \<times> string \<times> bool) list"

definition with_fallback :: "(string \<times> string \<times> bool) list \<Rightarrow> byok_credentials" where
  "with_fallback pairs = map_collect pairs"

definition byok_get :: "byok_credentials \<Rightarrow> string \<Rightarrow> string option" where
  "byok_get byok provider = map_option fst (map_of byok provider)"

definition falls_back :: "byok_credentials \<Rightarrow> string \<Rightarrow> bool" where
  "falls_back byok provider \<longleftrightarrow> (case map_of byok provider of None \<Rightarrow> False | Some (_, fb) \<Rightarrow> fb)"

text \<open>
  \<^verbatim>\<open>mint_credentials\<close>; the exchange of a service-account key for an access token is a parameter,
  \<^verbatim>\<open>None\<close> where it fails.
\<close>

type_synonym minted = "(string \<times> string option) list"

fun mint_credentials ::
    "(provider_metadata \<Rightarrow> string \<Rightarrow> string option) \<Rightarrow> inventory \<Rightarrow> environment_vars \<Rightarrow> string list \<Rightarrow>
     tier_candidate list \<Rightarrow> minted" where
  "mint_credentials mint entries env seen [] = []"
| "mint_credentials mint entries env seen (c # cs) =
     (if c_provider c \<in> set seen then mint_credentials mint entries env seen cs
      else
        let rest = mint_credentials mint entries env (c_provider c # seen) cs in
        case find_provider entries (c_provider c) of
          None \<Rightarrow> rest
        | Some p \<Rightarrow>
            if \<not> needs_minting (p_credential_kind p) then rest
            else case p_credential_env p of
                   None \<Rightarrow> rest
                 | Some name \<Rightarrow>
                     (case read_credential env name of
                        None \<Rightarrow> rest
                      | Some raw \<Rightarrow>
                          if map_of rest name = None then (name, mint p raw) # rest else rest))"

definition resolve_credential :: "minted \<Rightarrow> string \<Rightarrow> environment_vars \<Rightarrow> string option" where
  "resolve_credential m name read_env =
     (case map_of m name of Some token \<Rightarrow> token | None \<Rightarrow> read_env name)"

text \<open>A customer's key stands in for the provider's own variable and for nothing else.\<close>

definition credential_for_entry ::
    "provider_metadata \<Rightarrow> string option \<Rightarrow> environment_vars \<Rightarrow> environment_vars" where
  "credential_for_entry p byok_credential credential_for name =
     (case byok_credential of
        Some credential \<Rightarrow>
          if Some name = p_credential_env p then Some credential else credential_for name
      | None \<Rightarrow> credential_for name)"

section \<open>Building a route\<close>

record provider_candidate =
  pc_definition :: tier_candidate
  pc_client :: upstream_client
  pc_byok :: bool
  pc_fallback_for :: "string option"

record provider_route =
  rt_candidates :: "provider_candidate list"
  rt_byok_providers :: "string set"

record route_builder =
  b_available :: "provider_candidate list"
  b_missing :: "string list"
  b_byok :: "string set"
  b_clients :: "(string \<times> string option \<times> bool) \<Rightarrow> upstream_client option"
  b_unavailable :: "string set"

record build_context =
  bc_header_name :: "string \<Rightarrow> bool"
  bc_env :: environment_vars
  bc_credential_for :: environment_vars
  bc_entries :: inventory
  bc_max_tokens :: nat
  bc_byok :: byok_credentials

definition byok_credential :: "build_context \<Rightarrow> provider_metadata \<Rightarrow> string option" where
  "byok_credential ctx p = (if accepts_byok p then byok_get (bc_byok ctx) (p_key p) else None)"

text \<open>The client of one plane, from the credential of the customer or of the house.\<close>

datatype client_result = Built upstream_client | Unavailable string | Failed build_error

definition build_client ::
    "build_context \<Rightarrow> provider_metadata \<Rightarrow> tier_candidate \<Rightarrow> string option \<Rightarrow> client_result" where
  "build_client ctx p c byok =
     (case dispatch (bc_env ctx) (credential_for_entry p byok (bc_credential_for ctx)) p of
        Missing name \<Rightarrow> Unavailable name
      | Ready credential url surfaces \<Rightarrow>
          (case plane p (c_surface c) url surfaces of
             None \<Rightarrow> Failed (UnknownSurfaceOf (c_id c) (c_provider c) (name_or_empty (c_surface c)))
           | Some (adapter, plane_url) \<Rightarrow>
               (case create_provider (bc_header_name ctx) p adapter credential (bc_max_tokens ctx)
                       plane_url (byok \<noteq> None) of
                  Inl e \<Rightarrow> Failed e
                | Inr u \<Rightarrow> Built u)))"

definition cached_client ::
    "build_context \<Rightarrow> provider_metadata \<Rightarrow> tier_candidate \<Rightarrow> string option \<Rightarrow> route_builder \<Rightarrow> client_result" where
  "cached_client ctx p c byok b =
     (case b_clients b (p_key p, c_surface c, byok \<noteq> None) of
        Some u \<Rightarrow> Built u
      | None \<Rightarrow> build_client ctx p c byok)"

definition remember ::
    "provider_metadata \<Rightarrow> tier_candidate \<Rightarrow> string option \<Rightarrow> upstream_client \<Rightarrow> route_builder \<Rightarrow> route_builder" where
  "remember p c byok u b =
     b\<lparr> b_clients := (b_clients b)((p_key p, c_surface c, byok \<noteq> None) \<mapsto> u) \<rparr>"

text \<open>The candidate on its client, and its house twin where the customer asked for one.\<close>

definition push_candidate ::
    "build_context \<Rightarrow> provider_metadata \<Rightarrow> tier_candidate \<Rightarrow> upstream_client \<Rightarrow> route_builder \<Rightarrow> route_builder" where
  "push_candidate ctx p c u b =
     (let own = byok_credential ctx p;
          b1 = (if own = None then b else b\<lparr> b_byok := insert (p_key p) (b_byok b) \<rparr>);
          twin = (if own \<noteq> None \<and> falls_back (bc_byok ctx) (p_key p)
                  then (case cached_client ctx p c None b1 of Built v \<Rightarrow> Some v | _ \<Rightarrow> None)
                  else None);
          b2 = (case twin of None \<Rightarrow> b1 | Some v \<Rightarrow> remember p c None v b1);
          row = \<lparr> pc_definition = c, pc_client = u, pc_byok = own \<noteq> None, pc_fallback_for = None \<rparr>
      in b2\<lparr> b_available := b_available b2 @ row #
               (case twin of
                  None \<Rightarrow> []
                | Some v \<Rightarrow> [\<lparr> pc_definition = c, pc_client = v, pc_byok = False,
                               pc_fallback_for = Some (p_key p) \<rparr>]) \<rparr>)"

definition add_candidate ::
    "build_context \<Rightarrow> tier_candidate \<Rightarrow> route_builder \<Rightarrow> (build_error, route_builder) result" where
  "add_candidate ctx c b =
     (case find_provider (bc_entries ctx) (c_provider c) of
        None \<Rightarrow> Inl (UnsupportedBy (c_id c) (c_provider c))
      | Some p \<Rightarrow>
          if p_key p \<in> b_unavailable b then Inr b
          else
            (case cached_client ctx p c (byok_credential ctx p) b of
               Failed e \<Rightarrow> Inl e
             | Unavailable name \<Rightarrow>
                 Inr (b\<lparr> b_missing := b_missing b @ [name],
                        b_unavailable := insert (p_key p) (b_unavailable b) \<rparr>)
             | Built u \<Rightarrow>
                 Inr (push_candidate ctx p c u (remember p c (byok_credential ctx p) u b))))"

fun add_candidates ::
    "build_context \<Rightarrow> tier_candidate list \<Rightarrow> route_builder \<Rightarrow> (build_error, route_builder) result" where
  "add_candidates ctx [] b = Inr b"
| "add_candidates ctx (c # cs) b =
     (case add_candidate ctx c b of Inl e \<Rightarrow> Inl e | Inr b1 \<Rightarrow> add_candidates ctx cs b1)"

definition empty_builder :: route_builder where
  "empty_builder = \<lparr> b_available = [], b_missing = [], b_byok = {}, b_clients = (\<lambda>_. None),
     b_unavailable = {} \<rparr>"

definition build_with_byok ::
    "build_context \<Rightarrow> tier_candidate list \<Rightarrow> (build_error, provider_route) result" where
  "build_with_byok ctx cs =
     (if cs = [] then Inl EmptyRoute
      else case add_candidates ctx cs empty_builder of
             Inl e \<Rightarrow> Inl e
           | Inr b \<Rightarrow>
               if b_available b = [] then Inl (NoAvailableCredentials (b_missing b))
               else Inr \<lparr> rt_candidates = b_available b, rt_byok_providers = b_byok b \<rparr>)"

definition served_on_byok :: "provider_route \<Rightarrow> string \<Rightarrow> bool" where
  "served_on_byok r provider \<longleftrightarrow> provider \<in> rt_byok_providers r"

text \<open>\<^verbatim>\<open>ProviderRoute::new_with_byok\<close>: minted tokens stand in for the variables they come from.\<close>

definition new_with_byok ::
    "(provider_metadata \<Rightarrow> string \<Rightarrow> string option) \<Rightarrow> (string \<Rightarrow> bool) \<Rightarrow> environment_vars \<Rightarrow> inventory \<Rightarrow>
     nat \<Rightarrow> byok_credentials \<Rightarrow> tier_candidate list \<Rightarrow> (build_error, provider_route) result" where
  "new_with_byok mint header_name env entries max_tokens byok cs =
     (let m = mint_credentials mint entries env [] cs in
      build_with_byok
        \<lparr> bc_header_name = header_name, bc_env = env,
          bc_credential_for = (\<lambda>name. resolve_credential m name (read_credential env)),
          bc_entries = entries, bc_max_tokens = max_tokens, bc_byok = byok \<rparr> cs)"

section \<open>The route without its caches\<close>

text \<open>
  What the build means: every candidate on its own, in order, with no client shared and no provider
  remembered as unavailable.
\<close>

definition house_twin :: "build_context \<Rightarrow> provider_metadata \<Rightarrow> tier_candidate \<Rightarrow> upstream_client option" where
  "house_twin ctx p c =
     (if byok_credential ctx p \<noteq> None \<and> falls_back (bc_byok ctx) (p_key p)
      then (case build_client ctx p c None of Built v \<Rightarrow> Some v | _ \<Rightarrow> None)
      else None)"

definition candidate_rows ::
    "build_context \<Rightarrow> provider_metadata \<Rightarrow> tier_candidate \<Rightarrow> upstream_client \<Rightarrow> provider_candidate list" where
  "candidate_rows ctx p c u =
     \<lparr> pc_definition = c, pc_client = u, pc_byok = byok_credential ctx p \<noteq> None, pc_fallback_for = None \<rparr> #
     (case house_twin ctx p c of
        None \<Rightarrow> []
      | Some v \<Rightarrow>
          [\<lparr> pc_definition = c, pc_client = v, pc_byok = False, pc_fallback_for = Some (p_key p) \<rparr>])"

definition reference_entries ::
    "build_context \<Rightarrow> tier_candidate \<Rightarrow> (build_error, provider_candidate list) result" where
  "reference_entries ctx c =
     (case find_provider (bc_entries ctx) (c_provider c) of
        None \<Rightarrow> Inl (UnsupportedBy (c_id c) (c_provider c))
      | Some p \<Rightarrow>
          (case build_client ctx p c (byok_credential ctx p) of
             Failed e \<Rightarrow> Inl e
           | Unavailable _ \<Rightarrow> Inr []
           | Built u \<Rightarrow> Inr (candidate_rows ctx p c u)))"

definition reference_route ::
    "build_context \<Rightarrow> tier_candidate list \<Rightarrow> (build_error, provider_candidate list) result" where
  "reference_route ctx cs = bind_result (map_result (reference_entries ctx) cs) (\<lambda>groups. Inr (concat groups))"

text \<open>The variables that were missing, once for each provider.\<close>

fun missing_names :: "build_context \<Rightarrow> string set \<Rightarrow> tier_candidate list \<Rightarrow> string list" where
  "missing_names ctx seen [] = []"
| "missing_names ctx seen (c # cs) =
     (case find_provider (bc_entries ctx) (c_provider c) of
        None \<Rightarrow> []
      | Some p \<Rightarrow>
          (case build_client ctx p c (byok_credential ctx p) of
             Unavailable name \<Rightarrow>
               (if c_provider c \<in> seen then [] else [name]) @
               missing_names ctx (insert (c_provider c) seen) cs
           | _ \<Rightarrow> missing_names ctx seen cs))"

section \<open>The caches are transparent\<close>

lemma build_client_surface:
  "c_surface c = c_surface c' \<Longrightarrow> build_client ctx p c byok = Built u \<Longrightarrow> build_client ctx p c' byok = Built u"
  by (auto simp: build_client_def split: dispatchable.splits option.splits sum.splits prod.splits)

lemma build_client_unavailable:
  "build_client ctx p c byok = Unavailable name \<Longrightarrow> build_client ctx p c' byok = Unavailable name"
  by (auto simp: build_client_def split: dispatchable.splits option.splits sum.splits prod.splits)

text \<open>What a builder remembers is what building again would give.\<close>

definition client_known ::
    "build_context \<Rightarrow> string \<Rightarrow> string option \<Rightarrow> bool \<Rightarrow> upstream_client \<Rightarrow> bool" where
  "client_known ctx k s own u \<longleftrightarrow>
     (\<exists>p. find_provider (bc_entries ctx) k = Some p \<and>
        (\<forall>c. c_surface c = s \<longrightarrow>
           build_client ctx p c (if own then byok_credential ctx p else None) = Built u))"

definition provider_down :: "build_context \<Rightarrow> string \<Rightarrow> bool" where
  "provider_down ctx k \<longleftrightarrow>
     (\<exists>p name. find_provider (bc_entries ctx) k = Some p \<and>
        (\<forall>c. build_client ctx p c (byok_credential ctx p) = Unavailable name))"

definition builder_ok :: "build_context \<Rightarrow> route_builder \<Rightarrow> bool" where
  "builder_ok ctx b \<longleftrightarrow>
     (\<forall>k s own u. b_clients b (k, s, own) = Some u \<longrightarrow> client_known ctx k s own u) \<and>
     (\<forall>k \<in> b_unavailable b. provider_down ctx k)"

lemma builder_ok_cached:
  assumes "builder_ok ctx b" "find_provider (bc_entries ctx) (p_key p) = Some p"
    and "byok = (if own then byok_credential ctx p else None)" "own \<longleftrightarrow> byok \<noteq> None"
  shows "cached_client ctx p c byok b = build_client ctx p c byok"
proof (cases "b_clients b (p_key p, c_surface c, own)")
  case None
  then show ?thesis
    using assms(4) by (simp add: cached_client_def)
next
  case (Some u)
  then have "client_known ctx (p_key p) (c_surface c) own u"
    using assms(1) by (simp add: builder_ok_def)
  then have "build_client ctx p c byok = Built u"
    using assms(2,3) by (auto simp: client_known_def)
  then show ?thesis
    using Some assms(4) by (simp add: cached_client_def)
qed

lemma builder_ok_remember:
  assumes "builder_ok ctx b" "find_provider (bc_entries ctx) (p_key p) = Some p"
    and "build_client ctx p c byok = Built u" "byok = None \<or> byok = byok_credential ctx p"
  shows "builder_ok ctx (remember p c byok u b)"
proof -
  have "build_client ctx p c' byok = Built u" if "c_surface c' = c_surface c" for c'
    using build_client_surface [OF that [symmetric] assms(3)] .
  then have "client_known ctx (p_key p) (c_surface c) (byok \<noteq> None) u"
    using assms(2,4) by (auto simp: client_known_def)
  then show ?thesis
    using assms(1) by (simp add: builder_ok_def remember_def)
qed

lemma builder_ok_fields:
  "builder_ok ctx (b\<lparr> b_available := xs \<rparr>) = builder_ok ctx b"
  "builder_ok ctx (b\<lparr> b_byok := ks \<rparr>) = builder_ok ctx b"
  "builder_ok ctx (b\<lparr> b_missing := ns \<rparr>) = builder_ok ctx b"
  by (simp_all add: builder_ok_def)

lemma remember_fields [simp]:
  "b_available (remember p c byok u b) = b_available b" "b_byok (remember p c byok u b) = b_byok b"
  "b_missing (remember p c byok u b) = b_missing b"
  "b_unavailable (remember p c byok u b) = b_unavailable b"
  by (simp_all add: remember_def)

lemma push_candidate_spec:
  fixes c :: tier_candidate and u :: upstream_client
  assumes ok: "builder_ok ctx b" and p: "find_provider (bc_entries ctx) (p_key p) = Some p"
  defines "b' \<equiv> push_candidate ctx p c u b"
  shows "builder_ok ctx b'" "b_available b' = b_available b @ candidate_rows ctx p c u"
    "b_byok b' = b_byok b \<union> (if byok_credential ctx p = None then {} else {p_key p})"
    "b_missing b' = b_missing b" "b_unavailable b' = b_unavailable b"
proof -
  define b1 where "b1 = (if byok_credential ctx p = None then b
    else b\<lparr> b_byok := insert (p_key p) (b_byok b) \<rparr>)"
  have ok1: "builder_ok ctx b1"
    using ok by (simp add: b1_def builder_ok_fields)
  have house: "cached_client ctx p c None b1 = build_client ctx p c None"
    by (rule builder_ok_cached [OF ok1 p, where own = False]) simp_all
  define b2 where "b2 = (case house_twin ctx p c of None \<Rightarrow> b1 | Some v \<Rightarrow> remember p c None v b1)"
  have "build_client ctx p c None = Built v" if "house_twin ctx p c = Some v" for v
    using that by (auto simp: house_twin_def split: if_splits client_result.splits)
  then have ok2: "builder_ok ctx b2"
    using ok1 builder_ok_remember [OF ok1 p, of c None] by (auto simp: b2_def split: option.split)
  have b': "b' = b2\<lparr> b_available := b_available b2 @ candidate_rows ctx p c u \<rparr>"
    unfolding b'_def push_candidate_def Let_def b1_def [symmetric] house house_twin_def [symmetric]
      b2_def [symmetric] candidate_rows_def by (rule refl)
  show "builder_ok ctx b'"
    using ok2 by (simp only: b' builder_ok_fields)
  have same: "b_available b2 = b_available b" "b_missing b2 = b_missing b"
      "b_unavailable b2 = b_unavailable b"
      "b_byok b2 = b_byok b \<union> (if byok_credential ctx p = None then {} else {p_key p})"
    by (auto simp: b2_def b1_def split: option.splits)
  show "b_available b' = b_available b @ candidate_rows ctx p c u"
    "b_byok b' = b_byok b \<union> (if byok_credential ctx p = None then {} else {p_key p})"
    "b_missing b' = b_missing b" "b_unavailable b' = b_unavailable b"
    by (simp_all add: b' same)
qed

text \<open>One candidate: the cached step against the reference.\<close>

definition own_keys :: "provider_candidate list \<Rightarrow> string set" where
  "own_keys rows = (c_provider \<circ> pc_definition) ` {x \<in> set rows. pc_byok x}"

lemma own_keys_simps:
  "own_keys [] = {}"
  "own_keys (x # xs) = (if pc_byok x then {c_provider (pc_definition x)} else {}) \<union> own_keys xs"
  by (auto simp: own_keys_def)

lemma own_keys_append: "own_keys (xs @ ys) = own_keys xs \<union> own_keys ys"
  by (auto simp: own_keys_def)

lemma add_candidate_spec:
  assumes ok: "builder_ok ctx b"
  shows "case reference_entries ctx c of
      Inl e \<Rightarrow> add_candidate ctx c b = Inl e
    | Inr rows \<Rightarrow> \<exists>b'. add_candidate ctx c b = Inr b' \<and> builder_ok ctx b' \<and>
        b_available b' = b_available b @ rows \<and> b_byok b' = b_byok b \<union> own_keys rows \<and>
        b_missing b' @ missing_names ctx (b_unavailable b') cs =
          b_missing b @ missing_names ctx (b_unavailable b) (c # cs)"
proof (cases "find_provider (bc_entries ctx) (c_provider c)")
  case None
  then show ?thesis
    by (simp add: reference_entries_def add_candidate_def)
next
  case (Some p)
  then have key: "p_key p = c_provider c"
    using find_provider_SomeD by blast
  then have p: "find_provider (bc_entries ctx) (p_key p) = Some p"
    using Some by simp
  let ?own = "byok_credential ctx p"
  have cached: "cached_client ctx p c ?own b = build_client ctx p c ?own"
    by (rule builder_ok_cached [OF ok p, where own = "?own \<noteq> None"]) auto
  have down: "\<exists>name. build_client ctx p c ?own = Unavailable name" if "p_key p \<in> b_unavailable b"
    using ok that p by (auto simp: builder_ok_def provider_down_def)
  show ?thesis
  proof (cases "build_client ctx p c ?own")
    case (Failed e)
    then have "p_key p \<notin> b_unavailable b"
      using down by auto
    then show ?thesis
      using Some Failed cached by (simp add: reference_entries_def add_candidate_def Let_def)
  next
    case (Unavailable name)
    then have "provider_down ctx (p_key p)"
      using build_client_unavailable p unfolding provider_down_def by blast
    then have "builder_ok ctx (b\<lparr> b_missing := ns, b_unavailable := insert (p_key p) (b_unavailable b) \<rparr>)" for ns
      using ok by (simp add: builder_ok_def)
    then show ?thesis
      using Some Unavailable cached key
      by (cases "p_key p \<in> b_unavailable b")
        (simp_all add: reference_entries_def add_candidate_def own_keys_def insert_absorb ok)
  next
    case (Built u)
    then have up: "p_key p \<notin> b_unavailable b"
      using down by auto
    have ok1: "builder_ok ctx (remember p c ?own u b)"
      by (rule builder_ok_remember [OF ok p Built]) simp
    have keys: "own_keys (candidate_rows ctx p c u) = (if ?own = None then {} else {p_key p})"
      by (simp add: own_keys_simps candidate_rows_def key split: option.split)
    show ?thesis
      using Some Built cached up push_candidate_spec [OF ok1 p, of c u]
      by (simp add: reference_entries_def add_candidate_def keys)
  qed
qed

lemma add_candidates_spec:
  assumes "builder_ok ctx b"
  shows "case map_result (reference_entries ctx) cs of
      Inl e \<Rightarrow> add_candidates ctx cs b = Inl e
    | Inr groups \<Rightarrow> \<exists>b'. add_candidates ctx cs b = Inr b' \<and>
        b_available b' = b_available b @ concat groups \<and>
        b_byok b' = b_byok b \<union> own_keys (concat groups) \<and>
        b_missing b' = b_missing b @ missing_names ctx (b_unavailable b) cs"
  using assms
proof (induction cs arbitrary: b)
  case Nil
  then show ?case
    by (simp add: own_keys_def)
next
  case (Cons c cs)
  note head = add_candidate_spec [OF Cons.prems, of c cs]
  show ?case
  proof (cases "reference_entries ctx c")
    case (Inl e)
    then show ?thesis
      using head by (simp add: bind_result_def)
  next
    case (Inr rows)
    then obtain b1 where b1: "add_candidate ctx c b = Inr b1" "builder_ok ctx b1"
        "b_available b1 = b_available b @ rows" "b_byok b1 = b_byok b \<union> own_keys rows"
        "b_missing b1 @ missing_names ctx (b_unavailable b1) cs =
          b_missing b @ missing_names ctx (b_unavailable b) (c # cs)"
      using head by auto
    show ?thesis
    proof (cases "map_result (reference_entries ctx) cs")
      case (Inl e)
      then show ?thesis
        using Cons.IH [OF b1(2)] Inr b1(1) by (simp add: bind_result_def)
    next
      case (Inr groups)
      then obtain b2 where "add_candidates ctx cs b1 = Inr b2"
          "b_available b2 = b_available b1 @ concat groups"
          "b_byok b2 = b_byok b1 \<union> own_keys (concat groups)"
          "b_missing b2 = b_missing b1 @ missing_names ctx (b_unavailable b1) cs"
        using Cons.IH [OF b1(2)] by auto
      then show ?thesis
        using \<open>reference_entries ctx c = Inr rows\<close> Inr b1
        by (simp add: bind_result_def own_keys_append Un_assoc del: missing_names.simps)
    qed
  qed
qed

lemma build_reference:
  "build_with_byok ctx cs =
     (if cs = [] then Inl EmptyRoute
      else case reference_route ctx cs of
             Inl e \<Rightarrow> Inl e
           | Inr rows \<Rightarrow>
               if rows = [] then Inl (NoAvailableCredentials (missing_names ctx {} cs))
               else Inr \<lparr> rt_candidates = rows,
                 rt_byok_providers = (c_provider \<circ> pc_definition) ` {x \<in> set rows. pc_byok x} \<rparr>)"
proof -
  have "builder_ok ctx empty_builder"
    by (simp add: builder_ok_def empty_builder_def)
  from add_candidates_spec [OF this, of cs] show ?thesis
    by (auto simp: build_with_byok_def reference_route_def bind_result_def empty_builder_def own_keys_def
        split: sum.splits)
qed

section \<open>Whose credential a client carries\<close>

definition house_credential :: "build_context \<Rightarrow> provider_metadata \<Rightarrow> string option" where
  "house_credential ctx p =
     (case p_credential p of
        NoCredential \<Rightarrow> Some []
      | Required \<Rightarrow> Option.bind (p_credential_env p) (bc_credential_for ctx))"

lemma create_provider_Inr:
  "create_provider h p a cred n url byok = Inr u \<Longrightarrow>
    u_alias u = p_key p \<and> u_credential u = cred \<and> (byok \<longrightarrow> u_attestation u = None)"
  by (auto simp: create_provider_def Let_def split: provider_adapter.splits option.splits if_splits)

lemma build_client_Built:
  assumes "build_client ctx p c byok = Built u" "p_credential p = Required \<Longrightarrow> p_credential_env p \<noteq> None"
  shows "u_alias u = p_key p"
    and "p_credential p = Required \<Longrightarrow> byok = Some key \<Longrightarrow> u_credential u = key \<and> u_attestation u = None"
    and "byok = None \<Longrightarrow> house_credential ctx p = Some (u_credential u)"
proof -
  obtain cred url surfaces where ready:
      "dispatch (bc_env ctx) (credential_for_entry p byok (bc_credential_for ctx)) p = Ready cred url surfaces"
    using assms(1) by (auto simp: build_client_def split: dispatchable.splits)
  have cred: "credential_for_entry p byok (bc_credential_for ctx) name = Some cred"
    if "p_credential p = Required" "p_credential_env p = Some name" for name
    using ready that by (auto simp: dispatch_def Let_def name_or_empty_def split: option.splits)
  have keyless: "cred = []" if "p_credential p = NoCredential"
    using ready that by (auto simp: dispatch_def Let_def split: option.splits)
  obtain adapter plane_url where "create_provider (bc_header_name ctx) p adapter cred (bc_max_tokens ctx)
      plane_url (byok \<noteq> None) = Inr u"
    using assms(1) ready by (auto simp: build_client_def split: option.splits sum.splits)
  note u = create_provider_Inr [OF this]
  then show "u_alias u = p_key p"
    by simp
  show "u_credential u = key \<and> u_attestation u = None" if "p_credential p = Required" "byok = Some key"
    using u cred assms(2) that by (auto simp: credential_for_entry_def)
  show "house_credential ctx p = Some (u_credential u)" if "byok = None"
    using u cred keyless assms(2) that
    by (cases "p_credential p") (auto simp: credential_for_entry_def house_credential_def)
qed

text \<open>
  What one catalog candidate becomes on a route: its client carries the customer's key exactly where
  there is one the provider takes; the house's credential serves otherwise, and beside a customer's
  key only as the twin behind it.
\<close>

definition candidate_group :: "build_context \<Rightarrow> tier_candidate \<Rightarrow> provider_candidate list \<Rightarrow> bool" where
  "candidate_group ctx c g \<longleftrightarrow>
     (\<exists>p. find_provider (bc_entries ctx) (c_provider c) = Some p \<and>
        (\<forall>x \<in> set g. pc_definition x = c \<and> u_alias (pc_client x) = c_provider c) \<and>
        (case byok_credential ctx p of
           None \<Rightarrow>
             length g \<le> 1 \<and>
             (\<forall>x \<in> set g. \<not> pc_byok x \<and> pc_fallback_for x = None \<and>
                house_credential ctx p = Some (u_credential (pc_client x)))
         | Some key \<Rightarrow>
             length g \<le> (if falls_back (bc_byok ctx) (c_provider c) then 2 else 1) \<and>
             (\<forall>x \<in> set (take 1 g). pc_byok x \<and> pc_fallback_for x = None \<and>
                u_credential (pc_client x) = key \<and> u_attestation (pc_client x) = None) \<and>
             (\<forall>x \<in> set (drop 1 g). \<not> pc_byok x \<and> pc_fallback_for x = Some (c_provider c) \<and>
                house_credential ctx p = Some (u_credential (pc_client x)))))"

lemma house_twin_Some:
  "house_twin ctx p c = Some v \<Longrightarrow>
    build_client ctx p c None = Built v \<and> byok_credential ctx p \<noteq> None \<and> falls_back (bc_byok ctx) (p_key p)"
  by (auto simp: house_twin_def split: if_splits client_result.splits)

lemma reference_group:
  assumes entries: "\<forall>p \<in> set (bc_entries ctx). p_credential p = Required \<longrightarrow> p_credential_env p \<noteq> None"
    and g: "reference_entries ctx c = Inr g"
  shows "candidate_group ctx c g"
proof -
  obtain p where p: "find_provider (bc_entries ctx) (c_provider c) = Some p"
    using g by (auto simp: reference_entries_def split: option.splits)
  then have key: "p_key p = c_provider c" and declared: "p_credential p = Required \<Longrightarrow> p_credential_env p \<noteq> None"
    using find_provider_SomeD [OF p] entries by auto
  have req: "p_credential p = Required" if "byok_credential ctx p \<noteq> None"
    using that by (auto simp: byok_credential_def accepts_byok_def split: if_splits)
  show ?thesis
  proof (cases "g = []")
    case True
    then show ?thesis
      using p by (auto simp: candidate_group_def split: option.split)
  next
    case False
    then obtain u where u: "build_client ctx p c (byok_credential ctx p) = Built u" "g = candidate_rows ctx p c u"
      using g p by (auto simp: reference_entries_def split: client_result.splits)
    note own = build_client_Built [OF u(1) declared]
    have twin: "u_alias v = p_key p" "house_credential ctx p = Some (u_credential v)"
      if "house_twin ctx p c = Some v" for v
      using build_client_Built(1,3) [OF _ declared, of ctx c None v] house_twin_Some [OF that] by auto
    have none: "house_twin ctx p c = None" if "byok_credential ctx p = None"
      using that by (simp add: house_twin_def)
    have customer: "u_credential u = key" "u_attestation u = None" if "byok_credential ctx p = Some key" for key
      using own(2) [of key] req that by auto
    show ?thesis
    proof (cases "byok_credential ctx p")
      case None
      then show ?thesis
        using p own(1,3) key none by (auto simp: candidate_group_def u(2) candidate_rows_def)
    next
      case (Some k)
      show ?thesis
        using Some p own(1) key customer [OF Some] twin house_twin_Some [of ctx p c]
        by (cases "house_twin ctx p c") (auto simp: candidate_group_def u(2) candidate_rows_def)
    qed
  qed
qed

lemma map_result_list_all2:
  "map_result f xs = Inr ys \<Longrightarrow> list_all2 (\<lambda>x y. f x = Inr y) xs ys"
  by (induction xs arbitrary: ys) (auto simp: bind_result_def split: sum.splits)

section \<open>Properties\<close>

text \<open>the build shares one client between the candidates of a plane and skips a provider it has
  found unavailable, and neither changes the result: it is the route that takes each candidate on its
  own, in order, with the first error, the missing variables and the customer's providers to match.\<close>

theorem cached_build_is_reference:
  "build_with_byok ctx cs =
     (if cs = [] then Inl EmptyRoute
      else case reference_route ctx cs of
             Inl e \<Rightarrow> Inl e
           | Inr rows \<Rightarrow>
               if rows = [] then Inl (NoAvailableCredentials (missing_names ctx {} cs))
               else Inr \<lparr> rt_candidates = rows,
                 rt_byok_providers = (c_provider \<circ> pc_definition) ` {x \<in> set rows. pc_byok x} \<rparr>)"
  by (rule build_reference)

lemma route_groups:
  assumes "assembled (bc_header_name ctx) shipped operator = Inr (bc_entries ctx)"
    and "build_with_byok ctx cs = Inr r"
  shows "\<exists>groups. rt_candidates r = concat groups \<and> list_all2 (candidate_group ctx) cs groups"
proof -
  have entries: "\<forall>p \<in> set (bc_entries ctx). p_credential p = Required \<longrightarrow> p_credential_env p \<noteq> None"
  proof (intro ballI impI)
    fix p
    assume "p \<in> set (bc_entries ctx)" "p_credential p = Required"
    then have "declared (p_credential_env p)"
      by (rule assembled_entries [OF assms(1)])
    then show "p_credential_env p \<noteq> None"
      by (auto simp: declared_def split: option.splits)
  qed
  obtain groups where groups: "map_result (reference_entries ctx) cs = Inr groups"
      "rt_candidates r = concat groups"
    using assms(2) unfolding build_reference by (auto simp: reference_route_def bind_result_def
        split: if_splits sum.splits)
  have "list_all2 (candidate_group ctx) cs groups"
    using map_result_list_all2 [OF groups(1)] by (rule list_all2_mono) (rule reference_group [OF entries])
  then show ?thesis
    using groups(2) by blast
qed

text \<open>C37: over an assembled inventory the candidates of a route are, candidate by candidate and in
  order, as described above: a customer's key goes to the client of its own provider and nowhere else,
  every other client carries the house's credential, and a house twin stands only right behind the
  customer's candidate, where the customer asked for it.\<close>

theorem customer_key_stays_with_its_provider:
  assumes "assembled (bc_header_name ctx) shipped operator = Inr (bc_entries ctx)"
    and "build_with_byok ctx cs = Inr r"
  shows "\<exists>groups. rt_candidates r = concat groups \<and> list_all2 (candidate_group ctx) cs groups"
  by (rule route_groups [OF assms])

definition demo_build :: build_context where
  "demo_build = \<lparr> bc_header_name = (\<lambda>_. True), bc_env = (\<lambda>_. None),
     bc_credential_for = (\<lambda>name. if name = ''XAI_API_KEY'' then Some ''house'' else None),
     bc_entries = [demo_provider, demo_local], bc_max_tokens = 64,
     bc_byok = [(''xai'', ''own'', True)] \<rparr>"

definition demo_client :: "string \<Rightarrow> upstream_client" where
  "demo_client credential = \<lparr> u_adapter = ChatCompletions, u_alias = ''xai'', u_credential = credential,
     u_base_url = Some ''https://api.x.ai/v1'', u_max_output_tokens = 64, u_attestation = None \<rparr>"

lemma demo_clients:
  "build_client demo_build demo_provider c (Some ''own'') = Built (demo_client ''own'')"
  "build_client demo_build demo_provider c None = Built (demo_client ''house'')"
  if "c_surface c = None"
proof -
  have [simp]: "\<not> contains p ''https://api.x.ai/v1''" if "p = REGION_PLACEHOLDER \<or> p = PROJECT_PLACEHOLDER" for p
    using that by (auto simp: contains_def REGION_PLACEHOLDER_def PROJECT_PLACEHOLDER_def)
  show "build_client demo_build demo_provider c (Some ''own'') = Built (demo_client ''own'')"
    "build_client demo_build demo_provider c None = Built (demo_client ''house'')"
    using that by (simp_all add: build_client_def dispatch_def base_url_override_def endpoint_def demo_build_def
        demo_provider_def resolve_region_def credential_for_entry_def name_or_empty_def plane_def
        create_provider_def demo_client_def)
qed

lemma customer_key_stays_with_its_provider_witness:
  "\<exists>groups r. build_with_byok demo_build [demo_candidate ''xai'' 2] = Inr r \<and>
     rt_candidates r = concat groups \<and> list_all2 (candidate_group demo_build) [demo_candidate ''xai'' 2] groups \<and>
     List.map pc_byok (rt_candidates r) = [True, False]"
proof -
  have c: "c_surface (demo_candidate ''xai'' 2) = None" "c_provider (demo_candidate ''xai'' 2) = ''xai''"
    by (simp_all add: demo_candidate_def)
  have own: "byok_credential demo_build demo_provider = Some ''own''"
    by (simp add: byok_credential_def accepts_byok_def demo_provider_def needs_minting_def byok_get_def demo_build_def)
  have rows: "reference_route demo_build [demo_candidate ''xai'' 2] =
      Inr (candidate_rows demo_build demo_provider (demo_candidate ''xai'' 2) (demo_client ''own''))"
    using demo_clients [OF c(1)] own
    by (simp add: reference_route_def reference_entries_def bind_result_def c find_provider_def)
      (simp add: demo_build_def demo_provider_def)
  have byok: "List.map pc_byok (candidate_rows demo_build demo_provider (demo_candidate ''xai'' 2)
      (demo_client ''own'')) = [True, False]"
    using demo_clients [OF c(1)] own
    by (simp add: candidate_rows_def house_twin_def falls_back_def) (simp add: demo_build_def demo_provider_def)
  obtain r where r: "build_with_byok demo_build [demo_candidate ''xai'' 2] = Inr r"
      "rt_candidates r = candidate_rows demo_build demo_provider (demo_candidate ''xai'' 2) (demo_client ''own'')"
    using rows by (simp add: build_reference candidate_rows_def)
  have "assembled (bc_header_name demo_build) [demo_provider] [demo_local] = Inr (bc_entries demo_build)"
    using demo_inventory_assembled by (simp add: demo_build_def)
  from customer_key_stays_with_its_provider [OF this r(1)] show ?thesis
    using r byok by auto
qed

end
