(* ===== verification/Address.thy ===== *)
theory Address
  imports Text "HOL-Library.Word"
begin

unbundle bit_operations_syntax

text \<open>
  IP literals in the URLs a customer sends (\<^verbatim>\<open>router/src/openai.rs\<close>): the parsers of the
  standard library and the check that keeps an image URL away from private and local networks.
\<close>

section \<open>Parsing\<close>

type_synonym ipv4 = "8 word \<times> 8 word \<times> 8 word \<times> 8 word"
type_synonym ipv6 = "16 word list"

datatype ip_addr = V4 ipv4 | V6 ipv6

definition parse_octet :: "string \<Rightarrow> 8 word option" where
  "parse_octet s =
     (if s = [] \<or> 3 < length s \<or> \<not> list_all is_digit s \<or> (hd s = CHR ''0'' \<and> 1 < length s) \<or>
         255 < digits_value s then None
      else Some (of_nat (digits_value s)))"

definition parse_ipv4 :: "string \<Rightarrow> ipv4 option" where
  "parse_ipv4 s =
     (case List.map parse_octet (split_on (\<lambda>c. c = CHR ''.'') s) of
        [Some a, Some b, Some c, Some d] \<Rightarrow> Some (a, b, c, d)
      | _ \<Rightarrow> None)"

definition hex_digit :: "char \<Rightarrow> nat option" where
  "hex_digit c =
     (let n = of_char c :: nat in
      if 48 \<le> n \<and> n \<le> 57 then Some (n - 48)
      else if 97 \<le> n \<and> n \<le> 102 then Some (n - 87)
      else if 65 \<le> n \<and> n \<le> 70 then Some (n - 55)
      else None)"

fun hex_number :: "nat \<Rightarrow> string \<Rightarrow> nat option" where
  "hex_number acc [] = Some acc"
| "hex_number acc (c # s) = (case hex_digit c of None \<Rightarrow> None | Some d \<Rightarrow> hex_number (16 * acc + d) s)"

definition parse_segment :: "string \<Rightarrow> 16 word option" where
  "parse_segment s =
     (if s = [] \<or> 4 < length s then None else map_option of_nat (hex_number 0 s))"

definition segments_of_v4 :: "ipv4 \<Rightarrow> 16 word list" where
  "segments_of_v4 = (\<lambda>(a, b, c, d).
     [push_bit 8 (ucast a) OR ucast b, push_bit 8 (ucast c) OR ucast d])"

text \<open>Groups between colons; the last may be an IPv4 address in the place of two groups.\<close>

fun parse_groups :: "bool \<Rightarrow> string list \<Rightarrow> 16 word list option" where
  "parse_groups v4 [] = Some []"
| "parse_groups v4 [g] =
     (case parse_segment g of
        Some w \<Rightarrow> Some [w]
      | None \<Rightarrow> if v4 then map_option segments_of_v4 (parse_ipv4 g) else None)"
| "parse_groups v4 (g # h # gs) =
     (case parse_segment g of
        None \<Rightarrow> None
      | Some w \<Rightarrow> map_option ((#) w) (parse_groups v4 (h # gs)))"

definition groups_of :: "bool \<Rightarrow> string \<Rightarrow> 16 word list option" where
  "groups_of v4 s = (if s = [] then Some [] else parse_groups v4 (split_on (\<lambda>c. c = CHR '':'') s))"

definition parse_ipv6 :: "string \<Rightarrow> ipv6 option" where
  "parse_ipv6 s =
     (case split_once ''::'' s of
        None \<Rightarrow>
          (case groups_of True s of
             Some ws \<Rightarrow> if length ws = 8 then Some ws else None
           | None \<Rightarrow> None)
      | Some (head, tail) \<Rightarrow>
          (case (groups_of False head, groups_of True tail) of
             (Some hs, Some ts) \<Rightarrow>
               if length hs + length ts \<le> 7
               then Some (hs @ replicate (8 - length hs - length ts) 0 @ ts) else None
           | _ \<Rightarrow> None))"

definition parse_ip :: "string \<Rightarrow> ip_addr option" where
  "parse_ip s =
     (case parse_ipv4 s of
        Some a \<Rightarrow> Some (V4 a)
      | None \<Rightarrow> map_option V6 (parse_ipv6 s))"

section \<open>Which addresses are public\<close>

definition ipv4_is_public :: "ipv4 \<Rightarrow> bool" where
  "ipv4_is_public = (\<lambda>(a, b, c, d).
     \<not> ((a = 10 \<or> (a = 172 \<and> 16 \<le> b \<and> b \<le> 31) \<or> (a = 192 \<and> b = 168)) \<or>
        a = 127 \<or>
        (a = 169 \<and> b = 254) \<or>
        (a = 0 \<and> b = 0 \<and> c = 0 \<and> d = 0) \<or>
        (a = 255 \<and> b = 255 \<and> c = 255 \<and> d = 255) \<or>
        ((a = 192 \<and> b = 0 \<and> c = 2) \<or> (a = 198 \<and> b = 51 \<and> c = 100) \<or> (a = 203 \<and> b = 0 \<and> c = 113)) \<or>
        a = 0 \<or>
        (a = 100 \<and> b AND 0xC0 = 64)))"

text \<open>\<^verbatim>\<open>Ipv6Addr::to_ipv4_mapped\<close>: \<^verbatim>\<open>::ffff:a.b.c.d\<close>.\<close>

definition to_ipv4_mapped :: "ipv6 \<Rightarrow> ipv4 option" where
  "to_ipv4_mapped ws =
     (case ws of
        [s0, s1, s2, s3, s4, s5, s6, s7] \<Rightarrow>
          if s0 = 0 \<and> s1 = 0 \<and> s2 = 0 \<and> s3 = 0 \<and> s4 = 0 \<and> s5 = 0xFFFF
          then Some (ucast (drop_bit 8 s6), ucast s6, ucast (drop_bit 8 s7), ucast s7)
          else None
      | _ \<Rightarrow> None)"

definition ip_literal_is_public :: "ip_addr \<Rightarrow> bool" where
  "ip_literal_is_public ip =
     (case ip of
        V4 a \<Rightarrow> ipv4_is_public a
      | V6 ws \<Rightarrow>
          (case to_ipv4_mapped ws of
             Some a \<Rightarrow> ipv4_is_public a
           | None \<Rightarrow>
               \<not> (ws = replicate 7 0 @ [1] \<or>
                  ws = replicate 8 0 \<or>
                  hd ws AND 0xFE00 = 0xFC00 \<or>
                  hd ws AND 0xFFC0 = 0xFE80)))"

section \<open>URLs\<close>

definition strip_prefix :: "string \<Rightarrow> string \<Rightarrow> string option" where
  "strip_prefix p s = (if starts_with p s then Some (drop (length p) s) else None)"

definition trim_brackets :: "string \<Rightarrow> string" where
  "trim_brackets s =
     rev (dropWhile (\<lambda>c. c = CHR '']'') (rev (dropWhile (\<lambda>c. c = CHR ''['') s)))"

definition is_data_url :: "string \<Rightarrow> bool" where
  "is_data_url url \<longleftrightarrow>
     (case strip_prefix ''data:'' url of
        None \<Rightarrow> False | Some rest \<Rightarrow> split_once '';base64,'' rest \<noteq> None)"

text \<open>The URL parser is not part of the repository: it yields a scheme and a host, if any.\<close>

definition image_url_is_admissible :: "(string \<Rightarrow> (string \<times> string option) option) \<Rightarrow> string \<Rightarrow> bool" where
  "image_url_is_admissible parse_url url \<longleftrightarrow>
     (if is_data_url url then True
      else case parse_url url of
             None \<Rightarrow> False
           | Some (scheme, host) \<Rightarrow>
               if scheme \<noteq> ''https'' then False
               else case host of
                      None \<Rightarrow> False
                    | Some h \<Rightarrow>
                        (case parse_ip (trim_brackets h) of
                           Some ip \<Rightarrow> ip_literal_is_public ip
                         | None \<Rightarrow> True))"

section \<open>The reserved blocks\<close>

text \<open>The address as a number, and the blocks an image may not be fetched from.\<close>

definition address :: "ipv4 \<Rightarrow> nat" where
  "address = (\<lambda>(a, b, c, d). ((unat a * 256 + unat b) * 256 + unat c) * 256 + unat d)"

definition block :: "nat \<Rightarrow> nat \<Rightarrow> nat \<Rightarrow> nat \<Rightarrow> nat \<Rightarrow> nat set" where
  "block a b c d bits =
     {((a * 256 + b) * 256 + c) * 256 + d ..< ((a * 256 + b) * 256 + c) * 256 + d + 2 ^ (32 - bits)}"

definition reserved_blocks :: "nat set list" where
  "reserved_blocks =
     [block 0 0 0 0 8, block 10 0 0 0 8, block 100 64 0 0 10, block 127 0 0 0 8, block 169 254 0 0 16,
      block 172 16 0 0 12, block 192 0 2 0 24, block 192 168 0 0 16, block 198 51 100 0 24,
      block 203 0 113 0 24, block 255 255 255 255 32]"

lemma octet: "unat (a :: 8 word) < 256"
  using unsigned_less [of a, where 'a = nat] by simp

lemma octet_mask: "(b :: 8 word) AND 0xC0 = 64 \<longleftrightarrow> 64 \<le> unat b \<and> unat b < 128"
proof -
  have "list_all (\<lambda>n. (word_of_nat n AND 0xC0 = (64 :: 8 word)) = (64 \<le> n \<and> n < 128)) [0..<256]"
    by code_simp
  then have "(word_of_nat n AND 0xC0 = (64 :: 8 word)) = (64 \<le> n \<and> n < 128)" if "n < 256" for n
    using that by (simp add: list_all_iff)
  from this [OF octet, of b] show ?thesis
    by simp
qed

text \<open>A block is the addresses with one quotient, and the quotients of an address are its octets.\<close>

lemma interval_div: "0 < m \<Longrightarrow> x \<in> {m * k ..< m * k + m} \<longleftrightarrow> x div m = (k :: nat)"
  using dividend_less_times_div [of m x] times_div_less_eq_dividend [of m x]
  by (auto intro!: div_nat_eqI simp: add.commute mult.commute)

lemma address_div:
  fixes a b c d :: "8 word"
  defines "x \<equiv> address (a, b, c, d)"
  shows "x div 256 = (unat a * 256 + unat b) * 256 + unat c" "x div 65536 = unat a * 256 + unat b"
    "x div 16777216 = unat a" "x div 1048576 = unat a * 16 + unat b div 16"
    "x div 4194304 = unat a * 4 + unat b div 64"
proof -
  note bounds = octet [of a] octet [of b] octet [of c] octet [of d]
  show one: "x div 256 = (unat a * 256 + unat b) * 256 + unat c"
    using bounds by (simp add: x_def address_def)
  show two: "x div 65536 = unat a * 256 + unat b"
    using bounds div_mult2_eq [of x 256 256] by (simp add: one)
  show "x div 16777216 = unat a"
    using bounds div_mult2_eq [of x 65536 256] by (simp add: two)
  show "x div 1048576 = unat a * 16 + unat b div 16"
    using div_mult2_eq [of x 65536 16] div_mult_self3 [of 16 "unat a * 16" "unat b"] by (simp add: two)
  show "x div 4194304 = unat a * 4 + unat b div 64"
    using div_mult2_eq [of x 65536 64] div_mult_self3 [of 64 "unat a * 4" "unat b"] by (simp add: two)
qed

lemma digit2: "b < 256 \<Longrightarrow> b' < 256 \<Longrightarrow> a * 256 + b = a' * 256 + b' \<longleftrightarrow> a = a' \<and> b = (b' :: nat)"
proof (rule iffI)
  assume b: "b < 256" "b' < 256" and e: "a * 256 + b = a' * 256 + b'"
  from arg_cong [OF e, of "\<lambda>n. n div 256"] arg_cong [OF e, of "\<lambda>n. n mod 256"] b
  show "a = a' \<and> b = b'"
    by simp
qed simp

lemma in_block:
  assumes "m = 2 ^ (32 - bits)" "((p * 256 + q) * 256 + r) * 256 + s = m * k"
  shows "x \<in> block p q r s bits \<longleftrightarrow> x div m = k"
proof -
  have "block p q r s bits = {m * k ..< m * k + m}"
    unfolding block_def assms(2) unfolding assms(1) by (rule refl)
  moreover have "0 < m"
    unfolding assms(1) by simp
  ultimately show ?thesis
    using interval_div [of m x k] by (simp only:)
qed

lemma in_block8: "address (a, b, c, d) \<in> block p 0 0 0 8 \<longleftrightarrow> unat a = p"
  using in_block [of 16777216 8 p 0 0 0 p] by (simp add: address_div)

lemma in_block16:
  "q < 256 \<Longrightarrow> address (a, b, c, d) \<in> block p q 0 0 16 \<longleftrightarrow> unat a = p \<and> unat b = q"
  using in_block [of 65536 16 p q 0 0 "p * 256 + q"] digit2 [of "unat b" q "unat a" p] octet [of b]
  by (simp add: address_div)

lemma in_block24:
  "q < 256 \<Longrightarrow> r < 256 \<Longrightarrow>
    address (a, b, c, d) \<in> block p q r 0 24 \<longleftrightarrow> unat a = p \<and> unat b = q \<and> unat c = r"
  using in_block [of 256 24 p q r 0 "(p * 256 + q) * 256 + r"] digit2 [of "unat b" q "unat a" p] octet [of b]
    digit2 [of "unat c" r "unat a * 256 + unat b" "p * 256 + q"] octet [of c]
  by (simp add: address_div)

lemma in_block32:
  "q < 256 \<Longrightarrow> r < 256 \<Longrightarrow> s < 256 \<Longrightarrow>
    address (a, b, c, d) \<in> block p q r s 32 \<longleftrightarrow> unat a = p \<and> unat b = q \<and> unat c = r \<and> unat d = s"
  using in_block [of 1 32 p q r s "((p * 256 + q) * 256 + r) * 256 + s"] digit2 [of "unat b" q "unat a" p] octet [of b]
    digit2 [of "unat c" r "unat a * 256 + unat b" "p * 256 + q"] octet [of c]
    digit2 [of "unat d" s "(unat a * 256 + unat b) * 256 + unat c" "(p * 256 + q) * 256 + r"] octet [of d]
  by (simp add: address_def)

lemma in_block_shared:
  "address (a, b, c, d) \<in> block 100 64 0 0 10 \<longleftrightarrow> unat a = 100 \<and> b AND 0xC0 = 64"
proof -
  have "n * 4 + m = 401 \<longleftrightarrow> n = 100 \<and> m = 1" if "m < 4" for n m :: nat
    using that by presburger
  from this [of "unat b div 64" "unat a"] show ?thesis
    using in_block [of 4194304 10 100 64 0 0 401] octet [of b]
    by (auto simp: address_div octet_mask)
qed

lemma in_block_private:
  "address (a, b, c, d) \<in> block 172 16 0 0 12 \<longleftrightarrow> unat a = 172 \<and> 16 \<le> unat b \<and> unat b \<le> 31"
proof -
  have "n * 16 + m = 2753 \<longleftrightarrow> n = 172 \<and> m = 1" if "m < 16" for n m :: nat
    using that by presburger
  from this [of "unat b div 16" "unat a"] show ?thesis
    using in_block [of 1048576 12 172 16 0 0 2753] octet [of b] by (auto simp: address_div)
qed

lemmas in_blocks = in_block8 in_block16 in_block24 in_block32 in_block_shared in_block_private

lemma ipv4_is_public_iff: "ipv4_is_public ip \<longleftrightarrow> (\<forall>blk \<in> set reserved_blocks. address ip \<notin> blk)"
proof -
  obtain a b c d where ip: "ip = (a, b, c, d)"
    by (cases ip)
  define shared where "shared \<longleftrightarrow> b AND 0xC0 = 64"
  have "ipv4_is_public ip \<longleftrightarrow>
      unat a \<noteq> 10 \<and> \<not> (unat a = 172 \<and> 16 \<le> unat b \<and> unat b \<le> 31) \<and>
      \<not> (unat a = 192 \<and> unat b = 168) \<and> unat a \<noteq> 127 \<and> \<not> (unat a = 169 \<and> unat b = 254) \<and>
      \<not> (unat a = 255 \<and> unat b = 255 \<and> unat c = 255 \<and> unat d = 255) \<and>
      \<not> (unat a = 192 \<and> unat b = 0 \<and> unat c = 2) \<and> \<not> (unat a = 198 \<and> unat b = 51 \<and> unat c = 100) \<and>
      \<not> (unat a = 203 \<and> unat b = 0 \<and> unat c = 113) \<and> unat a \<noteq> 0 \<and> \<not> (unat a = 100 \<and> shared)"
    unfolding ipv4_is_public_def ip prod.case word_eq_iff_unsigned [where 'a = nat] word_le_nat_alt
    by (simp add: shared_def word_eq_iff_unsigned [where 'a = nat]) blast
  then show ?thesis
    by (simp add: reserved_blocks_def ip in_blocks shared_def [symmetric]) blast
qed

section \<open>Properties\<close>

text \<open>C38: an image URL that is fetched over the network is https and names no address literal of a
  reserved block: neither directly nor as an IPv4 address mapped into IPv6, and no IPv6 loopback,
  unspecified, unique-local or link-local address.\<close>

theorem admissible_image_url_is_public:
  assumes "image_url_is_admissible parse_url url" "\<not> is_data_url url"
  shows "\<exists>host. parse_url url = Some (''https'', Some host) \<and>
    (case parse_ip (trim_brackets host) of
       None \<Rightarrow> True
     | Some (V4 ip) \<Rightarrow> (\<forall>blk \<in> set reserved_blocks. address ip \<notin> blk)
     | Some (V6 ws) \<Rightarrow>
         (case to_ipv4_mapped ws of
            Some ip \<Rightarrow> \<forall>blk \<in> set reserved_blocks. address ip \<notin> blk
          | None \<Rightarrow> ws \<noteq> replicate 7 0 @ [1] \<and> ws \<noteq> replicate 8 0 \<and>
              hd ws AND 0xFE00 \<noteq> 0xFC00 \<and> hd ws AND 0xFFC0 \<noteq> 0xFE80))"
proof -
  obtain host where host: "parse_url url = Some (''https'', Some host)"
      "case parse_ip (trim_brackets host) of Some ip \<Rightarrow> ip_literal_is_public ip | None \<Rightarrow> True"
    using assms by (auto simp: image_url_is_admissible_def split: option.splits if_splits)
  then show ?thesis
    by (auto simp: ip_literal_is_public_def ipv4_is_public_iff split: option.splits ip_addr.splits)
qed

lemma admissible_image_url_is_public_witness:
  "\<exists>host. Some (''https'', Some ''[2001:db8::7]'') = Some (''https'', Some host) \<and>
     parse_ip (trim_brackets host) = Some (V6 [0x2001, 0xDB8, 0, 0, 0, 0, 0, 7])"
proof -
  have "parse_ip (trim_brackets ''[2001:db8::7]'') = Some (V6 [0x2001, 0xDB8, 0, 0, 0, 0, 0, 7])"
    by code_simp
  moreover have "ip_literal_is_public (V6 [0x2001, 0xDB8, 0, 0, 0, 0, 0, 7])" "\<not> is_data_url ''https://x''"
    by code_simp+
  ultimately have "image_url_is_admissible (\<lambda>_. Some (''https'', Some ''[2001:db8::7]'')) ''https://x''"
    "\<not> is_data_url ''https://x''"
    by (simp_all add: image_url_is_admissible_def)
  from admissible_image_url_is_public [OF this] show ?thesis
    using \<open>parse_ip _ = _\<close> by simp
qed

end
