(* ===== verification/Request.thy ===== *)
theory Request
  imports Address Retry Catalog
begin

text \<open>
  A chat completion as the customer sends it (\<^verbatim>\<open>router/src/openai.rs\<close>): its shape after
  JSON decoding, what is refused, the prompt the upstream gets, the capabilities it needs, the cache
  breakpoints it places, and the usage a reservation has to cover.
\<close>

section \<open>Shape\<close>

type_synonym members = "(string \<times> json) list"

record openai_function_call =
  fc_name :: string
  fc_arguments :: string
  fc_extra :: members

record openai_tool_call =
  otc_id :: string
  otc_kind :: string
  otc_function :: openai_function_call
  otc_extra :: members

record openai_message =
  om_role :: string
  om_content :: json
  om_tool_calls :: "openai_tool_call list"
  om_tool_call_id :: "string option"
  om_name :: "string option"
  om_reasoning_content :: "string option"
  om_extra :: members

record openai_function_spec =
  fs_name :: string
  fs_description :: string
  fs_parameters :: json
  fs_extra :: members

record openai_tool =
  ot_kind :: string
  ot_function :: openai_function_spec
  ot_extra :: members

record stream_options_request =
  so_include_usage :: bool
  so_extra :: members

text \<open>A temperature is any float: a number, or infinite or not a number.\<close>

datatype temperature = Degrees rat | NotFinite

record chat_completion_request =
  rq_model :: string
  rq_messages :: "openai_message list"
  rq_stream :: bool
  rq_temperature :: "temperature option"
  rq_max_tokens :: "nat option"
  rq_tools :: "openai_tool list"
  rq_tool_choice :: "json option"
  rq_stream_options :: "stream_options_request option"
  rq_priority :: "priority option option"
  rq_extra :: members

definition has_member :: "string \<Rightarrow> members \<Rightarrow> bool" where
  "has_member k ms \<longleftrightarrow> map_of ms k \<noteq> None"

fun json_array :: "json \<Rightarrow> json list" where
  "json_array (JArray vs) = vs"
| "json_array _ = []"

fun json_members :: "json \<Rightarrow> members option" where
  "json_members (JObject ms) = Some ms"
| "json_members _ = None"

definition json_type :: "json \<Rightarrow> string option" where
  "json_type v = Option.bind (json_get ''type'' v) json_str"

definition json_url :: "json \<Rightarrow> string option" where
  "json_url part = Option.bind (json_get ''image_url'' part) (\<lambda>img. Option.bind (json_get ''url'' img) json_str)"

section \<open>Validation\<close>

datatype request_fault =
    ModelEmpty | MessagesEmpty | RoleUnsupported | ToolInvalid | TemperatureNotFinite
  | MaxTokensZero | ToolChoiceUnsupported | ToolChoiceWithoutTools | ToolCallsOffAssistant
  | ToolCallInvalid | ToolMessageWithoutId | ToolCallIdOffTool | NameNotPreserved | ReasoningNotPreserved

definition fault_if :: "bool \<Rightarrow> request_fault \<Rightarrow> (request_fault, unit) result" where
  "fault_if b e = (if b then Inl e else Inr ())"

definition blank_option :: "string option \<Rightarrow> bool" where
  "blank_option v \<longleftrightarrow> (case v of None \<Rightarrow> True | Some s \<Rightarrow> trim s = [])"

definition validate_message :: "openai_message \<Rightarrow> (request_fault, unit) result" where
  "validate_message m =
     all_checks
       [fault_if (om_tool_calls m \<noteq> [] \<and> om_role m \<noteq> ''assistant'') ToolCallsOffAssistant,
        fault_if (list_ex (\<lambda>call. trim (otc_id call) = [] \<or> otc_kind call \<noteq> ''function'' \<or>
                     trim (fc_name (otc_function call)) = []) (om_tool_calls m)) ToolCallInvalid,
        fault_if (om_role m = ''tool'' \<and> blank_option (om_tool_call_id m)) ToolMessageWithoutId,
        fault_if (om_role m \<noteq> ''tool'' \<and> om_tool_call_id m \<noteq> None) ToolCallIdOffTool,
        fault_if (om_name m \<noteq> None \<and> om_role m \<noteq> ''tool'') NameNotPreserved,
        fault_if (om_reasoning_content m \<noteq> None \<and> om_role m \<noteq> ''assistant'') ReasoningNotPreserved]"

definition validate_request :: "chat_completion_request \<Rightarrow> (request_fault, unit) result" where
  "validate_request r =
     all_checks
       ([fault_if (trim (rq_model r) = []) ModelEmpty,
         fault_if (rq_messages r = []) MessagesEmpty,
         fault_if (list_ex (\<lambda>m. om_role m \<notin> set [''system'', ''user'', ''assistant'', ''tool''])
                     (rq_messages r)) RoleUnsupported,
         fault_if (list_ex (\<lambda>t. ot_kind t \<noteq> ''function'' \<or> trim (fs_name (ot_function t)) = [])
                     (rq_tools r)) ToolInvalid,
         fault_if (rq_temperature r = Some NotFinite) TemperatureNotFinite,
         fault_if (rq_max_tokens r = Some 0) MaxTokensZero,
         fault_if (case rq_tool_choice r of
                     None \<Rightarrow> False | Some choice \<Rightarrow> json_str choice \<noteq> Some ''auto'') ToolChoiceUnsupported,
         fault_if (rq_tool_choice r \<noteq> None \<and> rq_tools r = []) ToolChoiceWithoutTools] @
        List.map validate_message (rq_messages r))"

definition include_stream_usage :: "chat_completion_request \<Rightarrow> bool" where
  "include_stream_usage r \<longleftrightarrow>
     (case rq_stream_options r of None \<Rightarrow> False | Some opts \<Rightarrow> so_include_usage opts)"

section \<open>Cache breakpoints\<close>

datatype cache_control_fault = FaultShape | FaultTtl | FaultTooMany nat

definition MAX_CACHE_BREAKPOINTS :: nat where
  "MAX_CACHE_BREAKPOINTS = 4"

definition validate_cache_control :: "json \<Rightarrow> (cache_control_fault, unit) result" where
  "validate_cache_control v =
     (case json_members v of
        None \<Rightarrow> Inl FaultShape
      | Some ms \<Rightarrow>
          if has_member ''ttl'' ms then Inl FaultTtl
          else if length ms \<noteq> 1 \<or> json_type v \<noteq> Some ''ephemeral'' then Inl FaultShape
          else Inr ())"

definition content_part_cache_controls :: "openai_message \<Rightarrow> json list" where
  "content_part_cache_controls m =
     List.map_filter (\<lambda>part. Option.bind (json_members part) (\<lambda>ms. map_of ms ''cache_control''))
       (json_array (om_content m))"

definition contains_cache_control :: "chat_completion_request \<Rightarrow> bool" where
  "contains_cache_control r \<longleftrightarrow>
     has_member ''cache_control'' (rq_extra r) \<or>
     list_ex (\<lambda>m. has_member ''cache_control'' (om_extra m) \<or> content_part_cache_controls m \<noteq> []) (rq_messages r) \<or>
     list_ex (\<lambda>t. has_member ''cache_control'' (ot_extra t)) (rq_tools r)"

definition unplaceable_cache_control :: "chat_completion_request \<Rightarrow> bool" where
  "unplaceable_cache_control r \<longleftrightarrow> has_member ''cache_control'' (rq_extra r)"

definition placed_cache_controls :: "chat_completion_request \<Rightarrow> json list" where
  "placed_cache_controls r =
     List.map_filter (\<lambda>m. map_of (om_extra m) ''cache_control'') (rq_messages r) @
     List.map_filter (\<lambda>t. map_of (ot_extra t) ''cache_control'') (rq_tools r) @
     concat (List.map content_part_cache_controls (rq_messages r))"

definition cache_breakpoints :: "chat_completion_request \<Rightarrow> (cache_control_fault, nat) result" where
  "cache_breakpoints r =
     (case all_checks (List.map validate_cache_control (placed_cache_controls r)) of
        Inl e \<Rightarrow> Inl e
      | Inr _ \<Rightarrow>
          (let count = length (placed_cache_controls r) in
           if MAX_CACHE_BREAKPOINTS < count then Inl (FaultTooMany count) else Inr count))"

section \<open>Extensions\<close>

definition only_keys :: "string list \<Rightarrow> members \<Rightarrow> bool" where
  "only_keys ks ms \<longleftrightarrow> list_all (\<lambda>(k, v). k \<in> set ks) ms"

definition part_is_supported ::
    "(string \<Rightarrow> (string \<times> string option) option) \<Rightarrow> string \<Rightarrow> json \<Rightarrow> bool" where
  "part_is_supported parse_url role part \<longleftrightarrow>
     (case json_members part of
        None \<Rightarrow> False
      | Some ms \<Rightarrow>
          if json_type part = Some ''text''
          then (case map_of ms ''text'' of None \<Rightarrow> False | Some v \<Rightarrow> json_str v \<noteq> None) \<and>
               only_keys [''type'', ''text'', ''cache_control''] ms
          else if json_type part = Some ''image_url'' \<and> role = ''user''
          then (case Option.bind (map_of ms ''image_url'') json_members of
                  None \<Rightarrow> False
                | Some img \<Rightarrow>
                    (case Option.bind (map_of img ''url'') json_str of
                       None \<Rightarrow> False
                     | Some url \<Rightarrow> image_url_is_admissible parse_url (trim url)) \<and>
                    only_keys [''url''] img) \<and>
               only_keys [''type'', ''image_url'', ''cache_control''] ms
          else False)"

definition content_is_supported ::
    "(string \<Rightarrow> (string \<times> string option) option) \<Rightarrow> string \<Rightarrow> json \<Rightarrow> bool" where
  "content_is_supported parse_url role content \<longleftrightarrow>
     (case content of
        JString s \<Rightarrow> True
      | JNull \<Rightarrow> True
      | JArray parts \<Rightarrow> list_all (part_is_supported parse_url role) parts
      | _ \<Rightarrow> False)"

definition contains_unsupported_extensions ::
    "(string \<Rightarrow> (string \<times> string option) option) \<Rightarrow> chat_completion_request \<Rightarrow> bool" where
  "contains_unsupported_extensions parse_url r \<longleftrightarrow>
     \<not> only_keys [''cache_control''] (rq_extra r) \<or>
     (case rq_stream_options r of None \<Rightarrow> False | Some opts \<Rightarrow> so_extra opts \<noteq> []) \<or>
     list_ex (\<lambda>m. \<not> content_is_supported parse_url (om_role m) (om_content m) \<or>
        \<not> only_keys [''cache_control''] (om_extra m) \<or>
        list_ex (\<lambda>call. otc_extra call \<noteq> [] \<or> fc_extra (otc_function call) \<noteq> []) (om_tool_calls m))
       (rq_messages r) \<or>
     list_ex (\<lambda>t. \<not> only_keys [''cache_control''] (ot_extra t) \<or> fs_extra (ot_function t) \<noteq> []) (rq_tools r)"

section \<open>The prompt\<close>

text \<open>\<^verbatim>\<open>provider.rs\<close>: a turn as the wires take it.\<close>

definition plain_turn :: "string \<Rightarrow> string \<Rightarrow> chat_message" where
  "plain_turn role content = \<lparr> m_role = role, m_content = content, m_cache_control = False, m_parts = [] \<rparr>"

fun part_cache_control :: "content_part \<Rightarrow> bool" where
  "part_cache_control (TextPart _ c) = c"
| "part_cache_control (ImagePart _ c) = c"

fun part_text :: "content_part \<Rightarrow> string option" where
  "part_text (TextPart t _) = Some t"
| "part_text (ImagePart _ _) = None"

definition newline :: string where
  "newline = [CHR 0x0A]"

definition user_parts :: "content_part list \<Rightarrow> chat_message" where
  "user_parts parts = (plain_turn ''user'' (join newline (List.map_filter part_text parts)))\<lparr> m_parts := parts \<rparr>"

definition with_cache_breakpoint :: "chat_message \<Rightarrow> chat_message" where
  "with_cache_breakpoint m = m\<lparr> m_cache_control := True \<rparr>"

definition has_client_breakpoint :: "chat_message \<Rightarrow> bool" where
  "has_client_breakpoint m \<longleftrightarrow> m_cache_control m \<or> list_ex part_cache_control (m_parts m)"

record tool_spec =
  ts_name :: string
  ts_description :: string
  ts_parameters :: json
  ts_cache_control :: bool

text \<open>
  The rendering of a JSON value is \<^verbatim>\<open>serde_json\<close>'s and a parameter.
  \<^verbatim>\<open>content_to_parts\<close> walks the parts with a vector and a flag; the vector is the
  filtered list and the flag a disjunction over the parts.
\<close>

definition part_marked :: "json \<Rightarrow> bool" where
  "part_marked part \<longleftrightarrow> (case json_members part of None \<Rightarrow> False | Some ms \<Rightarrow> has_member ''cache_control'' ms)"

definition content_part_of :: "json \<Rightarrow> content_part option" where
  "content_part_of part =
     (if json_type part = Some ''text''
      then map_option (\<lambda>t. TextPart t (part_marked part)) (Option.bind (json_get ''text'' part) json_str)
      else if json_type part = Some ''image_url''
      then map_option (\<lambda>url. ImagePart url (part_marked part)) (json_url part)
      else None)"

definition earns_structure :: "json \<Rightarrow> bool" where
  "earns_structure part \<longleftrightarrow> part_marked part \<or> (json_type part = Some ''image_url'' \<and> json_url part \<noteq> None)"

fun content_to_parts :: "json \<Rightarrow> content_part list option" where
  "content_to_parts (JArray raw) =
     (if list_ex earns_structure raw then Some (List.map_filter content_part_of raw) else None)"
| "content_to_parts _ = None"

definition text_of_part :: "json \<Rightarrow> string option" where
  "text_of_part part =
     (if json_type part = Some ''text'' then Option.bind (json_get ''text'' part) json_str else None)"

fun content_to_text :: "(json \<Rightarrow> string) \<Rightarrow> json \<Rightarrow> string" where
  "content_to_text show_json (JString text) = text"
| "content_to_text show_json (JArray parts) = join newline (List.map_filter text_of_part parts)"
| "content_to_text show_json JNull = []"
| "content_to_text show_json v = show_json v"

definition json_option :: "string option \<Rightarrow> json" where
  "json_option v = (case v of None \<Rightarrow> JNull | Some s \<Rightarrow> JString s)"

text \<open>The members of an object in the order of its map, which sorts the keys.\<close>

definition call_json :: "openai_tool_call \<Rightarrow> json" where
  "call_json call = JObject [(''arguments'', JString (fc_arguments (otc_function call))),
     (''id'', JString (otc_id call)), (''name'', JString (fc_name (otc_function call)))]"

definition to_provider_message :: "(json \<Rightarrow> string) \<Rightarrow> openai_message \<Rightarrow> chat_message" where
  "to_provider_message show_json m =
     (let role = om_role m; text = content_to_text show_json (om_content m) in
      if role = ''assistant'' \<and> om_tool_calls m \<noteq> []
      then plain_turn ''assistant'' (show_json (JObject [(''content'', JString text),
             (''reasoning_content'', json_option (om_reasoning_content m)),
             (''tool_calls'', JArray (List.map call_json (om_tool_calls m)))]))
      else if role = ''assistant'' \<and> om_reasoning_content m \<noteq> None
      then plain_turn ''assistant'' (show_json (JObject [(''content'', JString text),
             (''reasoning_content'', json_option (om_reasoning_content m))]))
      else if role = ''tool''
      then plain_turn ''tool'' (show_json (JObject [(''content'', JString text),
             (''name'', json_option (om_name m)), (''tool_call_id'', json_option (om_tool_call_id m))]))
      else if role = ''system'' then plain_turn ''system'' text
      else if role = ''assistant'' then plain_turn ''assistant'' text
      else (case content_to_parts (om_content m) of
              Some parts \<Rightarrow> user_parts parts
            | None \<Rightarrow> plain_turn ''user'' text))"

definition provider_messages :: "(json \<Rightarrow> string) \<Rightarrow> chat_completion_request \<Rightarrow> chat_message list" where
  "provider_messages show_json r =
     List.map (\<lambda>m. let turn = to_provider_message show_json m in
               if has_member ''cache_control'' (om_extra m) then with_cache_breakpoint turn else turn)
       (rq_messages r)"

definition provider_tools :: "chat_completion_request \<Rightarrow> tool_spec list" where
  "provider_tools r =
     List.map (\<lambda>t. \<lparr> ts_name = fs_name (ot_function t), ts_description = fs_description (ot_function t),
                  ts_parameters = fs_parameters (ot_function t),
                  ts_cache_control = has_member ''cache_control'' (ot_extra t) \<rparr>) (rq_tools r)"

section \<open>Needs and sizing\<close>

definition message_modalities :: "openai_message \<Rightarrow> string list" where
  "message_modalities m =
     (case om_content m of
        JString _ \<Rightarrow> [''text'']
      | JArray parts \<Rightarrow>
          List.map_filter (\<lambda>part.
            if json_type part = Some ''text'' then Some ''text''
            else if json_type part = Some ''image_url'' then Some ''image'' else None) parts
      | _ \<Rightarrow> [])"

text \<open>The set of the code, in its order.\<close>

definition needs :: "chat_completion_request \<Rightarrow> nat \<Rightarrow> request_needs" where
  "needs r prompt_bound =
     \<lparr> n_prompt_bound = prompt_bound, n_tools = (rq_tools r \<noteq> []),
       n_modalities = List.filter (\<lambda>k. k \<in> set (concat (List.map message_modalities (rq_messages r))))
                        [''image'', ''text''] \<rparr>"

definition image_urls :: "openai_message list \<Rightarrow> string list" where
  "image_urls ms =
     List.map_filter (\<lambda>part. if json_type part = Some ''image_url'' then json_url part else None)
       (concat (List.map (\<lambda>m. json_array (om_content m)) (List.filter (\<lambda>m. om_role m = ''user'') ms)))"

definition MAX_IMAGE_PROMPT_TOKENS :: nat where
  "MAX_IMAGE_PROMPT_TOKENS = 10549"

definition byte_len :: "string \<Rightarrow> nat" where
  "byte_len s = (if length s \<le> u64_max then length s else u64_max)"

fun value_byte_len :: "(json \<Rightarrow> string) \<Rightarrow> json \<Rightarrow> nat" where
  "value_byte_len show_json (JString s) = byte_len s"
| "value_byte_len show_json JNull = 0"
| "value_byte_len show_json v = byte_len (show_json v)"

definition opt_len :: "string option \<Rightarrow> nat" where
  "opt_len v = (case v of None \<Rightarrow> 0 | Some s \<Rightarrow> byte_len s)"

text \<open>One saturating addition per term, in the order of the code.\<close>

definition message_terms :: "(json \<Rightarrow> string) \<Rightarrow> openai_message \<Rightarrow> nat list" where
  "message_terms show_json m =
     [64, byte_len (om_role m), value_byte_len show_json (om_content m), opt_len (om_tool_call_id m),
      opt_len (om_name m), opt_len (om_reasoning_content m)] @
     concat (List.map (\<lambda>call. [64, byte_len (otc_id call), byte_len (fc_name (otc_function call)),
                          byte_len (fc_arguments (otc_function call))]) (om_tool_calls m))"

definition tool_terms :: "(json \<Rightarrow> string) \<Rightarrow> openai_tool \<Rightarrow> nat list" where
  "tool_terms show_json t =
     [128, byte_len (fs_name (ot_function t)), byte_len (fs_description (ot_function t)),
      value_byte_len show_json (fs_parameters (ot_function t))]"

definition reservation_usage :: "(json \<Rightarrow> string) \<Rightarrow> chat_completion_request \<Rightarrow> nat \<Rightarrow> openai_usage" where
  "reservation_usage show_json r max_output_tokens =
     (let of_messages = fold (\<lambda>m acc. foldl sat_add acc (message_terms show_json m)) (rq_messages r) 0;
          of_tools = fold (\<lambda>t acc. foldl sat_add acc (tool_terms show_json t)) (rq_tools r) of_messages;
          input_bound = sat_add of_tools
            (sat_mul (min (length (image_urls (rq_messages r))) u64_max) MAX_IMAGE_PROMPT_TOKENS) in
      \<lparr> prompt_tokens = input_bound, completion_tokens = max_output_tokens,
        total_tokens = sat_add input_bound max_output_tokens, prompt_tokens_details = None \<rparr>)"

section \<open>What the reservation holds\<close>

text \<open>The bound without the saturation of each addition.\<close>

definition prompt_size :: "(json \<Rightarrow> string) \<Rightarrow> chat_completion_request \<Rightarrow> nat" where
  "prompt_size show_json r =
     (\<Sum>m\<leftarrow>rq_messages r. sum_list (message_terms show_json m)) +
     (\<Sum>t\<leftarrow>rq_tools r. sum_list (tool_terms show_json t)) +
     MAX_IMAGE_PROMPT_TOKENS * length (image_urls (rq_messages r))"

lemma foldl_sat_add: "foldl sat_add (min a u64_max) xs = min (a + sum_list xs) u64_max"
proof (induction xs arbitrary: a)
  case (Cons x xs)
  have "sat_add (min a u64_max) x = min (a + x) u64_max"
    by (auto simp: sat_add_def)
  then show ?case
    using Cons.IH [of "a + x"] by (simp add: add.assoc)
qed simp

lemma fold_sat_terms:
  "fold (\<lambda>x acc. foldl sat_add acc (f x)) xs (min a u64_max) = min (a + (\<Sum>x\<leftarrow>xs. sum_list (f x))) u64_max"
  by (induction xs arbitrary: a) (simp_all add: foldl_sat_add add.assoc)

lemma sat_add_images:
  "sat_add (min a u64_max) (sat_mul (min k u64_max) c) = min (a + c * k) u64_max" if "0 < c"
proof (cases "k \<le> u64_max")
  case True
  then show ?thesis by (simp add: sat_add_def sat_mul_def mult.commute)
next
  case False
  then have "u64_max \<le> k" by simp
  also have "k \<le> c * k" using that by simp
  finally have big: "u64_max \<le> c * k" .
  have "u64_max \<le> u64_max * c" using that by simp
  with False big show ?thesis by (simp add: sat_add_def sat_mul_def)
qed

lemma clamp_both: "sat_add (min a u64_max) b = min (a + b) u64_max"
  by (auto simp: sat_add_def)

text \<open>The prompt a reservation prices is the plain sum of 64 tokens and the bytes of every message
  and tool call, 128 tokens and the bytes of every tool, and 10549 tokens for every image, clamped once
  to 64 bits: the saturating additions of the loop lose nothing below that, and the total adds the
  output bound the same way.\<close>

theorem reservation_usage_is_clamped_sum:
  "reservation_usage show_json r n =
     \<lparr> prompt_tokens = min (prompt_size show_json r) u64_max, completion_tokens = n,
       total_tokens = min (prompt_size show_json r + n) u64_max, prompt_tokens_details = None \<rparr>"
proof -
  have messages: "fold (\<lambda>m acc. foldl sat_add acc (message_terms show_json m)) (rq_messages r) 0
      = min (\<Sum>m\<leftarrow>rq_messages r. sum_list (message_terms show_json m)) u64_max"
    using fold_sat_terms [of "message_terms show_json" "rq_messages r" 0] by simp
  have bound: "sat_add (fold (\<lambda>t acc. foldl sat_add acc (tool_terms show_json t)) (rq_tools r)
        (fold (\<lambda>m acc. foldl sat_add acc (message_terms show_json m)) (rq_messages r) 0))
      (sat_mul (min (length (image_urls (rq_messages r))) u64_max) MAX_IMAGE_PROMPT_TOKENS)
      = min (prompt_size show_json r) u64_max"
    by (simp add: messages fold_sat_terms sat_add_images MAX_IMAGE_PROMPT_TOKENS_def prompt_size_def)
  show ?thesis
    unfolding reservation_usage_def Let_def bound by (simp add: clamp_both)
qed

section \<open>Which cache marks reach the upstream\<close>

definition turn_marks :: "chat_message \<Rightarrow> nat" where
  "turn_marks m = (if m_cache_control m then 1 else 0) + length (List.filter part_cache_control (m_parts m))"

definition sent_marks :: "(json \<Rightarrow> string) \<Rightarrow> chat_completion_request \<Rightarrow> nat" where
  "sent_marks show_json r =
     sum_list (List.map turn_marks (provider_messages show_json r)) +
     length (List.filter ts_cache_control (provider_tools r))"

definition flattened :: "openai_message \<Rightarrow> bool" where
  "flattened m \<longleftrightarrow> om_role m \<in> set [''system'', ''assistant'', ''tool'']"

definition lost_marks :: "chat_completion_request \<Rightarrow> nat" where
  "lost_marks r =
     (\<Sum>m\<leftarrow>List.filter flattened (rq_messages r). length (content_part_cache_controls m))"

lemma part_marked_get: "part_marked part \<longleftrightarrow> Option.bind (json_members part) (\<lambda>ms. map_of ms ''cache_control'') \<noteq> None"
  by (cases "json_members part") (auto simp: part_marked_def has_member_def)

lemma length_map_filter: "length (List.map_filter f xs) = length (List.filter (\<lambda>x. f x \<noteq> None) xs)"
  by (simp add: List.map_filter_def comp_def)

lemma json_get_members: "json_members v = Some ms \<Longrightarrow> json_get k v = map_of ms k"
  by (cases v) auto

lemma json_members_object: "json_members v = Some ms \<longleftrightarrow> v = JObject ms"
  by (cases v) auto

lemma json_get_object: "json_get k v = Option.bind (json_members v) (\<lambda>ms. map_of ms k)"
  by (cases v) auto

lemma supported_part:
  assumes "part_is_supported parse_url role part"
  obtains p where "content_part_of part = Some p" "part_cache_control p = part_marked part"
proof -
  from assms obtain ms where part: "part = JObject ms"
    by (auto simp: part_is_supported_def json_members_object split: option.splits)
  show thesis
  proof (cases "json_type part = Some ''text''")
    case True
    with assms part obtain v t where "map_of ms ''text'' = Some v" "json_str v = Some t"
      by (auto simp: part_is_supported_def split: option.splits)
    with True part show thesis
      by (intro that [of "TextPart t (part_marked part)"]) (simp_all add: content_part_of_def)
  next
    case False
    with assms part have img: "json_type part = Some ''image_url''"
      by (auto simp: part_is_supported_def split: if_splits)
    with assms part False obtain i where i: "Option.bind (map_of ms ''image_url'') json_members = Some i"
      and url: "(case Option.bind (map_of i ''url'') json_str of None \<Rightarrow> False
          | Some url \<Rightarrow> image_url_is_admissible parse_url (trim url))"
      by (auto simp: part_is_supported_def split: if_splits option.splits)
    from url obtain u where "Option.bind (map_of i ''url'') json_str = Some u"
      by (auto split: option.splits)
    moreover from i obtain w where "map_of ms ''image_url'' = Some w" "json_members w = Some i"
      by (auto simp: bind_eq_Some_conv)
    ultimately have "json_url part = Some u"
      using part by (simp add: json_url_def json_get_members)
    with img show thesis
      by (intro that [of "ImagePart u (part_marked part)"]) (simp_all add: content_part_of_def)
  qed
qed

lemma supported_parts_marks:
  assumes "list_all (part_is_supported parse_url role) parts"
  shows "length (List.filter part_cache_control (List.map_filter content_part_of parts))
      = length (List.filter part_marked parts)"
  using assms
proof (induction parts)
  case (Cons part parts)
  then obtain p where "content_part_of part = Some p" "part_cache_control p = part_marked part"
    using supported_part by (metis list.pred_inject(2))
  with Cons show ?case by (simp add: map_filter_simps)
qed (simp add: map_filter_simps)

lemma plain_turn_marks: "turn_marks (plain_turn role text) = 0"
  by (simp add: turn_marks_def plain_turn_def)

lemma content_marks:
  "length (content_part_cache_controls m) = length (List.filter part_marked (json_array (om_content m)))"
  by (simp add: content_part_cache_controls_def length_map_filter part_marked_get [abs_def] del: not_None_eq)

lemma turn_marks_of_message:
  assumes "content_is_supported parse_url (om_role m) (om_content m)"
  shows "turn_marks (to_provider_message show_json m)
      = (if flattened m then 0 else length (content_part_cache_controls m))"
proof (cases "flattened m")
  case True
  then have "om_role m = ''system'' \<or> om_role m = ''assistant'' \<or> om_role m = ''tool''"
    by (simp add: flattened_def)
  with True show ?thesis
    by (auto simp: to_provider_message_def Let_def plain_turn_marks)
next
  case False
  then have shape: "to_provider_message show_json m = (case content_to_parts (om_content m) of
      Some parts \<Rightarrow> user_parts parts | None \<Rightarrow> plain_turn ''user'' (content_to_text show_json (om_content m)))"
    by (simp add: flattened_def to_provider_message_def Let_def)
  show ?thesis
  proof (cases "om_content m")
    case (JArray parts)
    then have all: "list_all (part_is_supported parse_url (om_role m)) parts"
      using assms by (simp add: content_is_supported_def)
    show ?thesis
    proof (cases "list_ex earns_structure parts")
      case True
      then show ?thesis
        using False shape JArray supported_parts_marks [OF all]
        by (simp add: content_marks user_parts_def turn_marks_def plain_turn_def)
    next
      case unmarked: False
      then have "List.filter part_marked parts = []"
        by (auto simp: earns_structure_def list_ex_iff filter_empty_conv)
      then show ?thesis
        using False shape JArray unmarked by (simp add: content_marks plain_turn_marks)
    qed
  qed (use False shape in \<open>simp_all add: content_marks plain_turn_marks\<close>)
qed

lemma plain_turn_unmarked: "\<not> m_cache_control (plain_turn role text)"
  by (simp add: plain_turn_def)

lemma turn_unmarked: "\<not> m_cache_control (to_provider_message show_json m)"
  by (simp add: to_provider_message_def Let_def plain_turn_unmarked user_parts_def plain_turn_def
      split: option.splits)

lemma marked_turn: "\<not> m_cache_control t \<Longrightarrow> turn_marks (with_cache_breakpoint t) = Suc (turn_marks t)"
  by (simp add: turn_marks_def with_cache_breakpoint_def)

lemma sum_map_filter_split:
  "(\<Sum>x\<leftarrow>xs. f x) = (\<Sum>x\<leftarrow>xs. if P x then 0 else f x) + (\<Sum>x\<leftarrow>List.filter P xs. (f x :: nat))"
  by (induction xs) simp_all

lemma sum_list_add: "(\<Sum>x\<leftarrow>xs. f x + g x) = (\<Sum>x\<leftarrow>xs. f x) + (\<Sum>x\<leftarrow>xs. (g x :: nat))"
  by (induction xs) simp_all

lemma length_map_filter_sum:
  "length (List.map_filter f xs) = (\<Sum>x\<leftarrow>xs. if f x = None then 0 else 1)"
  by (induction xs) (auto simp: map_filter_simps split: option.splits)

text \<open>On a request whose extensions are supported, a cache mark on a message, a tool or a content
  part of a user turn reaches the upstream, and a mark on a content part of a system, assistant or tool
  message, which the checks accept and count, does not.\<close>

theorem cache_marks_sent:
  assumes "\<not> contains_unsupported_extensions parse_url r"
  shows "sent_marks show_json r + lost_marks r = length (placed_cache_controls r)"
proof -
  let ?own = "\<lambda>m. if map_of (om_extra m) ''cache_control'' = None then 0 else 1 :: nat"
  let ?parts = "\<lambda>m. length (content_part_cache_controls m)"
  have supported: "content_is_supported parse_url (om_role m) (om_content m)" if "m \<in> set (rq_messages r)" for m
    using assms that by (auto simp: contains_unsupported_extensions_def list_ex_iff)
  have turn: "turn_marks (let turn = to_provider_message show_json m in
        if has_member ''cache_control'' (om_extra m) then with_cache_breakpoint turn else turn)
      = ?own m + (if flattened m then 0 else ?parts m)" if "m \<in> set (rq_messages r)" for m
    using turn_marks_of_message [OF supported [OF that], of show_json]
    by (simp add: Let_def has_member_def marked_turn turn_unmarked)
  have turns: "sum_list (List.map turn_marks (provider_messages show_json r))
      = (\<Sum>m\<leftarrow>rq_messages r. ?own m) + (\<Sum>m\<leftarrow>rq_messages r. if flattened m then 0 else ?parts m)"
    unfolding provider_messages_def List.map_map comp_def sum_list_add [symmetric]
    by (rule arg_cong [where f = sum_list]) (simp add: turn)
  have tools: "length (List.filter ts_cache_control (provider_tools r))
      = length (List.map_filter (\<lambda>t. map_of (ot_extra t) ''cache_control'') (rq_tools r))"
    by (simp add: provider_tools_def filter_map comp_def has_member_def length_map_filter)
  have "length (placed_cache_controls r) = (\<Sum>m\<leftarrow>rq_messages r. ?own m)
      + length (List.map_filter (\<lambda>t. map_of (ot_extra t) ''cache_control'') (rq_tools r))
      + (\<Sum>m\<leftarrow>rq_messages r. ?parts m)"
    by (simp add: placed_cache_controls_def length_map_filter_sum [of _ "rq_messages r"] length_concat comp_def)
  then show ?thesis
    using turns tools sum_map_filter_split [of ?parts "rq_messages r" flattened]
    by (simp add: sent_marks_def lost_marks_def)
qed

definition demo_turn :: "string \<Rightarrow> json \<Rightarrow> openai_message" where
  "demo_turn role content =
     \<lparr> om_role = role, om_content = content, om_tool_calls = [], om_tool_call_id = None, om_name = None,
       om_reasoning_content = None, om_extra = [] \<rparr>"

definition demo_chat :: chat_completion_request where
  "demo_chat =
     \<lparr> rq_model = ''auto'',
       rq_messages = [demo_turn ''system'' (JArray [JObject [(''cache_control'', JObject [(''type'', JString ''ephemeral'')]),
           (''text'', JString ''be brief''), (''type'', JString ''text'')]]), demo_turn ''user'' (JString ''hello'')],
       rq_stream = False, rq_temperature = None, rq_max_tokens = Some 9, rq_tools = [], rq_tool_choice = None,
       rq_stream_options = None, rq_priority = None, rq_extra = [] \<rparr>"

lemma demo_chat_supported: "\<not> contains_unsupported_extensions (\<lambda>_. None) demo_chat"
  by (simp add: contains_unsupported_extensions_def demo_chat_def demo_turn_def content_is_supported_def
      part_is_supported_def json_type_def only_keys_def)

lemma demo_chat_placed: "length (placed_cache_controls demo_chat) = 1" "lost_marks demo_chat = 1"
  by (simp_all add: placed_cache_controls_def demo_chat_def demo_turn_def content_part_cache_controls_def
      map_filter_simps lost_marks_def flattened_def)

lemma cache_marks_sent_witness:
  "\<not> contains_unsupported_extensions (\<lambda>_. None) demo_chat \<and>
   sent_marks (\<lambda>_. []) demo_chat = 0 \<and> length (placed_cache_controls demo_chat) = 1"
  using cache_marks_sent [OF demo_chat_supported, of "\<lambda>_. []"] demo_chat_placed demo_chat_supported by simp

end
