(* ===== verification/Reply.thy ===== *)
theory Reply
  imports Request Usage "HOL-Library.Multiset" "HOL-Library.Product_Lexorder"
begin

text \<open>
  What leaves the router about a request (\<^verbatim>\<open>router/src/openai.rs\<close>): the published model
  list, the finish reason of an attempt, whether its output was well shaped, and the task signature
  under which its output size is learned.
\<close>

section \<open>Finish reasons and shape\<close>

definition finish_reason_of :: "bool \<Rightarrow> openai_usage \<Rightarrow> nat option \<Rightarrow> string" where
  "finish_reason_of has_calls u max_tokens =
     (if has_calls then ''tool_calls''
      else if (case max_tokens of None \<Rightarrow> False | Some limit \<Rightarrow> limit \<le> completion_tokens u) then ''length''
      else ''stop'')"

record attempt_finish_reason =
  af_reason :: string
  af_source :: string

definition resolve_finish :: "stop_reason option \<Rightarrow> bool \<Rightarrow> openai_usage \<Rightarrow> nat option \<Rightarrow> attempt_finish_reason" where
  "resolve_finish reported has_calls u max_tokens =
     (case reported of
        None \<Rightarrow> \<lparr> af_reason = finish_reason_of has_calls u max_tokens, af_source = FINISH_REASON_SYNTHETIC \<rparr>
      | Some r \<Rightarrow> \<lparr> af_reason = stop_reason_as_str r, af_source = FINISH_REASON_UPSTREAM \<rparr>)"

record emitted_output =
  em_text :: bool
  em_reasoning :: bool
  em_tool_calls :: bool

definition record_text :: "string \<Rightarrow> emitted_output \<Rightarrow> emitted_output" where
  "record_text delta e = e\<lparr> em_text := em_text e \<or> delta \<noteq> [] \<rparr>"

definition record_reasoning :: "string \<Rightarrow> emitted_output \<Rightarrow> emitted_output" where
  "record_reasoning delta e = e\<lparr> em_reasoning := em_reasoning e \<or> delta \<noteq> [] \<rparr>"

definition record_tool_call :: "emitted_output \<Rightarrow> emitted_output" where
  "record_tool_call e = e\<lparr> em_tool_calls := True \<rparr>"

definition nothing_emitted :: emitted_output where
  "nothing_emitted = \<lparr> em_text = False, em_reasoning = False, em_tool_calls = False \<rparr>"

definition emitted_from_response :: "chat_response \<Rightarrow> emitted_output" where
  "emitted_from_response r =
     record_reasoning (case cr_reasoning_content r of None \<Rightarrow> [] | Some s \<Rightarrow> s)
       (record_text (text_or_empty r) (nothing_emitted\<lparr> em_tool_calls := cr_tool_calls r \<noteq> [] \<rparr>))"

definition emitted_nonempty :: "emitted_output \<Rightarrow> bool" where
  "emitted_nonempty e \<longleftrightarrow> em_text e \<or> em_reasoning e \<or> em_tool_calls e"

definition output_shape_ok :: "emitted_output \<Rightarrow> bool \<Rightarrow> string \<Rightarrow> bool" where
  "output_shape_ok e args_json reason \<longleftrightarrow> emitted_nonempty e \<and> args_json \<and> reason \<noteq> ''length''"

text \<open>Parsing JSON is \<^verbatim>\<open>serde_json\<close>'s and a parameter.\<close>

definition tool_args_all_json :: "(string \<Rightarrow> json option) \<Rightarrow> tool_call list \<Rightarrow> bool" where
  "tool_args_all_json parse_json calls \<longleftrightarrow> list_all (\<lambda>call. parse_json (tc_arguments call) \<noteq> None) calls"

definition tool_call_to_openai :: "tool_call \<Rightarrow> openai_tool_call" where
  "tool_call_to_openai call =
     \<lparr> otc_id = tc_id call, otc_kind = ''function'',
       otc_function = \<lparr> fc_name = tc_name call, fc_arguments = tc_arguments call, fc_extra = [] \<rparr>,
       otc_extra = [] \<rparr>"

section \<open>The published model list\<close>

record pricing_override =
  po_min_prompt_tokens :: nat
  po_prompt :: string
  po_completion :: string
  po_input_cache_read :: "string option"
  po_input_cache_write :: "string option"

record model_pricing =
  mp_prompt :: string
  mp_completion :: string
  mp_input_cache_read :: "string option"
  mp_input_cache_write :: "string option"
  mp_overrides :: "pricing_override list"

record model_retention =
  mr_posture :: retention_posture
  mr_description :: string
  mr_verified :: string

record model_object =
  mo_id :: string
  mo_object :: string
  mo_created :: nat
  mo_owned_by :: string
  mo_pricing :: model_pricing
  mo_context_length :: "nat option"
  mo_max_output_tokens :: "nat option"
  mo_input_modalities :: "string list option"
  mo_tool_call :: "bool option"
  mo_retention :: model_retention

record model_list =
  ls_object :: string
  ls_data :: "model_object list"

text \<open>
  The quotient and its rendering are the decimal library's.  Its division operator panics where the
  checked division has no result; a divisor of a million never overflows, so the quotient exists.
\<close>

definition per_token_price :: "decimal_ops \<Rightarrow> decimal_text \<Rightarrow> rat \<Rightarrow> string option" where
  "per_token_price D T rate_per_mtok =
     map_option (d_show T) (d_div D (unwrap_or (d_from_f64 D rate_per_mtok) 0) 1000000)"

definition optional_price :: "decimal_ops \<Rightarrow> decimal_text \<Rightarrow> rat option \<Rightarrow> string option option" where
  "optional_price D T rate = (case rate of None \<Rightarrow> Some None | Some r \<Rightarrow> map_option Some (per_token_price D T r))"

definition override_of :: "decimal_ops \<Rightarrow> decimal_text \<Rightarrow> conditional_rate \<Rightarrow> pricing_override option" where
  "override_of D T c =
     do {
       prompt \<leftarrow> per_token_price D T (unwrap_or (input_per_mtok (cond_rates c)) 0);
       completion \<leftarrow> per_token_price D T (unwrap_or (output_per_mtok (cond_rates c)) 0);
       cache_read \<leftarrow> optional_price D T (cached_input_per_mtok (cond_rates c));
       cache_write \<leftarrow> optional_price D T (cache_write_per_mtok (cond_rates c));
       Some \<lparr> po_min_prompt_tokens = min_prompt_tokens c, po_prompt = prompt, po_completion = completion,
              po_input_cache_read = cache_read, po_input_cache_write = cache_write \<rparr>
     }"

definition from_sell_rates :: "decimal_ops \<Rightarrow> decimal_text \<Rightarrow> rate_schedule \<Rightarrow> model_pricing option" where
  "from_sell_rates D T s =
     do {
       prompt \<leftarrow> per_token_price D T (unwrap_or (input_per_mtok (rate_schedule.base s)) 0);
       completion \<leftarrow> per_token_price D T (unwrap_or (output_per_mtok (rate_schedule.base s)) 0);
       cache_read \<leftarrow> optional_price D T (cached_input_per_mtok (rate_schedule.base s));
       cache_write \<leftarrow> optional_price D T (cache_write_per_mtok (rate_schedule.base s));
       overrides \<leftarrow> those (List.map (override_of D T) (conditional s));
       Some \<lparr> mp_prompt = prompt, mp_completion = completion, mp_input_cache_read = cache_read,
              mp_input_cache_write = cache_write, mp_overrides = overrides \<rparr>
     }"

definition model_object_of ::
    "decimal_ops \<Rightarrow> decimal_text \<Rightarrow> string \<times> model_listing \<Rightarrow> model_object option" where
  "model_object_of D T = (\<lambda>(mid, row).
     map_option (\<lambda>p.
       \<lparr> mo_id = mid, mo_object = ''model'', mo_created = 0, mo_owned_by = ml_owned_by row, mo_pricing = p,
         mo_context_length = md_context_window (ml_metadata row),
         mo_max_output_tokens = md_max_output_tokens (ml_metadata row),
         mo_input_modalities = md_input_modalities (ml_metadata row),
         mo_tool_call = md_tool_call (ml_metadata row),
         mo_retention = \<lparr> mr_posture = rp_posture (ml_retention row),
           mr_description = rp_description (ml_retention row), mr_verified = rp_verified (ml_retention row) \<rparr> \<rparr>)
       (from_sell_rates D T (ml_sell_rates row)))"

text \<open>The rows by retention rank and then by id: the lexicographic order of the two.\<close>

definition listing_key :: "string \<times> model_listing \<Rightarrow> nat \<times> string" where
  "listing_key = (\<lambda>(mid, row). (ordering_rank (rp_posture (ml_retention row)), mid))"

definition from_listing ::
    "decimal_ops \<Rightarrow> decimal_text \<Rightarrow> (string \<times> model_listing) list \<Rightarrow> model_list option" where
  "from_listing D T listing =
     map_option (\<lambda>rows. \<lparr> ls_object = ''list'', ls_data = rows \<rparr>)
       (those (List.map (model_object_of D T) (sort_key listing_key listing)))"

lemma those_map_conv: "those (List.map f xs) = Some ys \<longleftrightarrow> list_all2 (\<lambda>x y. f x = Some y) xs ys"
  by (induction xs arbitrary: ys) (auto simp: list_all2_Cons1 split: option.splits)

lemma model_object_key:
  "model_object_of D T row = Some m \<Longrightarrow>
     listing_key row = (ordering_rank (mr_posture (mo_retention m)), mo_id m)"
  by (auto simp: model_object_of_def listing_key_def split: prod.splits)

text \<open>The published list names every listed model once and no other, the models with zero
  retention first and each group by id.\<close>

lemma published_models_ordered:
  assumes "from_listing D T listing = Some l"
  shows "sorted (List.map (\<lambda>m. (ordering_rank (mr_posture (mo_retention m)), mo_id m)) (ls_data l))"
    and "mset (List.map mo_id (ls_data l)) = mset (List.map fst listing)"
proof -
  from assms have rows: "list_all2 (\<lambda>x y. model_object_of D T x = Some y) (sort_key listing_key listing) (ls_data l)"
    by (auto simp: from_listing_def those_map_conv)
  then have keys: "List.map listing_key (sort_key listing_key listing)
      = List.map (\<lambda>m. (ordering_rank (mr_posture (mo_retention m)), mo_id m)) (ls_data l)"
    by (induction rule: list_all2_induct) (simp_all add: model_object_key)
  then show "sorted (List.map (\<lambda>m. (ordering_rank (mr_posture (mo_retention m)), mo_id m)) (ls_data l))"
    by (metis sorted_sort_key)
  have "mset (List.map mo_id (ls_data l)) = mset (List.map snd (List.map listing_key (sort_key listing_key listing)))"
    by (simp add: keys comp_def)
  also have "\<dots> = mset (List.map fst listing)"
    by (simp add: listing_key_def case_prod_beta comp_def)
  finally show "mset (List.map mo_id (ls_data l)) = mset (List.map fst listing)" .
qed

section \<open>Task signatures\<close>

definition TASK_SIGNATURE_SCHEME :: nat where
  "TASK_SIGNATURE_SCHEME = 2"

text \<open>The big-endian bytes of a machine integer of \<open>k\<close> bytes.\<close>

primrec be_bytes :: "nat \<Rightarrow> nat \<Rightarrow> string" where
  "be_bytes 0 n = []"
| "be_bytes (Suc k) n = be_bytes k (n div 256) @ [char_of n]"

fun show_nat :: "nat \<Rightarrow> string" where
  "show_nat n = (if n < 10 then [char_of (48 + n)] else show_nat (n div 10) @ [char_of (48 + n mod 10)])"

declare show_nat.simps [simp del]

definition tool_digest_input :: "string list \<Rightarrow> string" where
  "tool_digest_input tool_names =
     be_bytes 8 (length tool_names) @ concat (List.map (\<lambda>name. be_bytes 8 (length name) @ name) (sort tool_names))"

text \<open>SHA-256 rendered in hexadecimal is the \<^verbatim>\<open>sha2\<close> package's and a parameter.\<close>

definition tool_names_digest :: "(string \<Rightarrow> string) \<Rightarrow> string list \<Rightarrow> string" where
  "tool_names_digest sha256 tool_names = sha256 (tool_digest_input tool_names)"

definition message_count_bucket :: "nat \<Rightarrow> string" where
  "message_count_bucket k =
     (if k \<le> 1 then ''1'' else if k \<le> 4 then ''2-4'' else if k \<le> 16 then ''5-16'' else ''17+'')"

definition log2_bucket :: "nat \<Rightarrow> nat" where
  "log2_bucket v = (if v = 0 then 0 else bit_length v - 1)"

definition unit_separator :: string where
  "unit_separator = [CHR 0x1F]"

definition signature_input ::
    "(string \<Rightarrow> string) \<Rightarrow> string \<Rightarrow> string list \<Rightarrow> nat \<Rightarrow> nat \<Rightarrow> bool \<Rightarrow> nat \<Rightarrow> string" where
  "signature_input sha256 user_id tool_names turns input_bytes streamed max_output =
     be_bytes 2 TASK_SIGNATURE_SCHEME @ unit_separator @ user_id @ unit_separator @
     tool_names_digest sha256 tool_names @ unit_separator @
     message_count_bucket turns @ unit_separator @
     show_nat (log2_bucket input_bytes) @ unit_separator @
     (if streamed then ''1'' else ''0'') @ unit_separator @
     show_nat (log2_bucket max_output)"

definition compute_task_signature ::
    "(string \<Rightarrow> string) \<Rightarrow> string \<Rightarrow> string list \<Rightarrow> nat \<Rightarrow> nat \<Rightarrow> bool \<Rightarrow> nat \<Rightarrow> task_signature" where
  "compute_task_signature sha256 user_id tool_names turns input_bytes streamed max_output =
     \<lparr> hex = take 16 (sha256 (signature_input sha256 user_id tool_names turns input_bytes streamed
          max_output)),
       scheme = int TASK_SIGNATURE_SCHEME, tool_names_sha256 = tool_names_digest sha256 tool_names \<rparr>"

lemma be_bytes_length: "length (be_bytes k n) = k"
  by (induction k arbitrary: n) simp_all

lemma be_bytes_mod: "be_bytes k n = be_bytes k m \<Longrightarrow> n mod 256 ^ k = m mod 256 ^ k"
proof (induction k arbitrary: n m)
  case (Suc k)
  then have last_byte: "char_of n = (char_of m :: char)" and front: "be_bytes k (n div 256) = be_bytes k (m div 256)"
    unfolding be_bytes.simps append1_eq_conv by blast+
  from arg_cong [OF last_byte, of "of_char :: char \<Rightarrow> nat"] have "n mod 256 = m mod 256"
    by simp
  with Suc.IH [OF front] show ?case
    by (simp add: mod_mult2_eq)
qed simp

lemma be_bytes_inj:
  assumes "be_bytes 8 n = be_bytes 8 m" "n < 2 ^ 64" "m < 2 ^ 64"
  shows "n = m"
  using be_bytes_mod [OF assms(1)] assms(2,3) by simp

lemma framed_inj:
  fixes xs ys :: "string list"
  assumes "concat (List.map (\<lambda>x. be_bytes 8 (length x) @ x) xs) = concat (List.map (\<lambda>y. be_bytes 8 (length y) @ y) ys)"
    and "length xs = length ys" "\<forall>x \<in> set xs. length x < 2 ^ 64" "\<forall>y \<in> set ys. length y < 2 ^ 64"
  shows "xs = ys"
  using assms(2,1,3,4)
proof (induction xs ys rule: list_induct2)
  case (Cons x xs y ys)
  then have head: "be_bytes 8 (length x) = be_bytes 8 (length y)"
    and rest: "x @ concat (List.map (\<lambda>x. be_bytes 8 (length x) @ x) xs)
      = y @ concat (List.map (\<lambda>y. be_bytes 8 (length y) @ y) ys)"
    by (auto simp: append_eq_append_conv be_bytes_length)
  from head Cons.prems have "length x = length y"
    by (intro be_bytes_inj) auto
  with rest Cons show ?case by auto
qed simp

lemma sort_eq_iff_mset: "sort xs = sort ys \<longleftrightarrow> mset xs = mset (ys :: string list)"
  by (metis mset_sort properties_for_sort sorted_sort)

text \<open>The bytes hashed for a request's tools are the same exactly when its tools are the same up
  to their order: the count and the length before each name keep any two lists apart, which a
  separator would not.\<close>

theorem tool_digest_input_injective:
  assumes "length ts < 2 ^ 64" "\<forall>t \<in> set ts. length t < 2 ^ 64"
    and "length us < 2 ^ 64" "\<forall>u \<in> set us. length u < 2 ^ 64"
  shows "tool_digest_input ts = tool_digest_input us \<longleftrightarrow> mset ts = mset us"
proof
  assume eq: "tool_digest_input ts = tool_digest_input us"
  then have count: "be_bytes 8 (length ts) = be_bytes 8 (length us)"
    and rest: "concat (List.map (\<lambda>n. be_bytes 8 (length n) @ n) (sort ts))
      = concat (List.map (\<lambda>n. be_bytes 8 (length n) @ n) (sort us))"
    by (auto simp: tool_digest_input_def append_eq_append_conv be_bytes_length)
  have "sort ts = sort us"
    using framed_inj [OF rest] be_bytes_inj [OF count assms(1,3)] assms(2,4) by simp
  then show "mset ts = mset us" by (simp add: sort_eq_iff_mset)
next
  assume eq: "mset ts = mset us"
  then have "length ts = length us" "sort ts = sort us"
    by (metis size_mset, simp add: sort_eq_iff_mset)
  then show "tool_digest_input ts = tool_digest_input us"
    by (simp add: tool_digest_input_def)
qed

lemma names_apart: "mset [''a'', ''bc''] \<noteq> mset [''ab'', ''c'']"
  by (rule notI, drule arg_cong [where f = set_mset]) (simp add: doubleton_eq_iff)

lemma tool_digest_input_injective_witness:
  "tool_digest_input [''a'', ''bc''] = tool_digest_input [''bc'', ''a''] \<and>
   tool_digest_input [''a'', ''bc''] \<noteq> tool_digest_input [''ab'', ''c'']"
  using tool_digest_input_injective [of "[''a'', ''bc'']" "[''bc'', ''a'']"]
    tool_digest_input_injective [of "[''a'', ''bc'']" "[''ab'', ''c'']"] names_apart
  by simp

end
