(* ===== verification/Walk.thy ===== *)
theory Walk
  imports Routes Retry Health Request Reply
begin

text \<open>
  The candidate walk of a request that is not streamed (\<^verbatim>\<open>run_non_streaming\<close> in
  \<^verbatim>\<open>router/src/api.rs\<close>): the candidates are tried in order, each up to three times, until one
  answers.  What the outside does (an upstream's answer, the time that passes, a shutdown, what other
  requests do to the health registry) is one event after the other; a walk reads them in order.
  Times are milliseconds since the walk began.
\<close>

section \<open>Attempt rows\<close>

definition i16_max :: int where
  "i16_max = 32767"

definition build_attempt ::
    "decimal_ops \<Rightarrow> time \<Rightarrow> nat \<Rightarrow> nat \<Rightarrow> nat \<Rightarrow> tier_candidate \<Rightarrow> string \<Rightarrow> bool \<Rightarrow> attempt_tokens \<Rightarrow> bool \<Rightarrow>
     string option \<Rightarrow> string option \<Rightarrow> attempt_record" where
  "build_attempt D utc clock attempt_started no c result is_served tokens estimated reason validator =
     (let latency = min (int (clock - attempt_started)) i32_max;
          cost = Option.bind (priceable tokens) (\<lambda>u.
            if conditional (c_rates c) = [] \<or> at_input tokens \<noteq> None
            then usage_cost D (at_prompt_tokens (c_rates c) (prompt_tokens u)) u else None)
      in \<lparr> attempt_no = min (int no) i16_max, started_at = utc + int clock - latency,
           a_candidate_id = c_id c, a_upstream_provider = c_provider c, a_upstream_model = c_model c,
           outcome = result, served = is_served, a_latency_ms = latency, a_tokens = tokens,
           tokens_estimated = estimated, a_cost_basis_usd = cost, a_finish_reason = reason,
           validator_kind = validator \<rparr>)"

definition attempt_tokens_of :: "openai_usage option \<Rightarrow> nat \<Rightarrow> attempt_tokens" where
  "attempt_tokens_of u estimated_output =
     (case u of
        Some u \<Rightarrow> tokens_measured u
      | None \<Rightarrow> if 0 < estimated_output then output_floor estimated_output else tokens_unknown)"

section \<open>Events and state\<close>

datatype upstream_result =
    ShutdownBefore
  | ShutdownDuring
  | Elapsed
  | Responded chat_response
  | UpstreamFailed upstream_error

record walk_event =
  we_result :: upstream_result
  we_wait :: nat
  we_interrupted :: bool
  we_registry :: "health \<Rightarrow> health"

text \<open>One call of an upstream, kept for the proofs: who was called, with which prompt, and what it did.\<close>

record upstream_call =
  uc_candidate :: provider_candidate
  uc_prompt :: "chat_message list"
  uc_truncated :: bool
  uc_result :: upstream_result

record walk_state =
  w_step :: nat
  w_clock :: nat
  w_ledger :: walk_ledger
  w_messages :: "chat_message list"
  w_truncated :: bool
  w_attestation_failed :: bool
  w_rejection :: "string option"
  w_last :: "tier_candidate option"
  w_armed :: "string set"
  w_calls :: "upstream_call list"

datatype walk_terminal =
    Exhausted
  | TerminalAttestation
  | ParameterRejected string
  | TerminalTimeout
  | TerminalShutdown

fun terminal_status :: "walk_terminal \<Rightarrow> int" where
  "terminal_status Exhausted = 502"
| "terminal_status TerminalAttestation = 502"
| "terminal_status (ParameterRejected _) = 400"
| "terminal_status TerminalTimeout = 504"
| "terminal_status TerminalShutdown = 503"

fun terminal_label :: "walk_terminal \<Rightarrow> string" where
  "terminal_label Exhausted = ''all upstream candidates failed''"
| "terminal_label TerminalAttestation = ''upstream did not attest zero data retention''"
| "terminal_label (ParameterRejected _) = ''upstream rejected a request parameter''"
| "terminal_label TerminalTimeout = ''upstream inference deadline exceeded''"
| "terminal_label TerminalShutdown = ''router draining''"

text \<open>A walk ends served by a candidate (with the number and the start of the attempt), in a terminal
  refusal, or in the panic a huge wait hint causes.\<close>

datatype walk_outcome =
    WalkServed provider_candidate chat_response nat nat
  | WalkRefused walk_terminal
  | WalkPanicked

record walk_context =
  wx_decimal :: decimal_ops
  wx_parse_json :: "string \<Rightarrow> json option"
  wx_utc :: time
  wx_events :: "nat \<Rightarrow> walk_event"
  wx_total :: nat

definition UPSTREAM_REQUEST_TIMEOUT :: nat where
  "UPSTREAM_REQUEST_TIMEOUT = 15 * 60 * 1000"

definition CANDIDATE_RETRIES :: nat where
  "CANDIDATE_RETRIES = 2"

definition CANDIDATE_BACKOFF_MS :: nat where
  "CANDIDATE_BACKOFF_MS = 500"

definition remaining_upstream_time :: "walk_state \<Rightarrow> nat option" where
  "remaining_upstream_time w =
     (if w_clock w < UPSTREAM_REQUEST_TIMEOUT then Some (UPSTREAM_REQUEST_TIMEOUT - w_clock w) else None)"

definition push_row ::
    "walk_context \<Rightarrow> tier_candidate \<Rightarrow> string \<Rightarrow> nat \<Rightarrow> nat \<Rightarrow> attempt_tokens \<Rightarrow> string option \<Rightarrow> walk_state \<Rightarrow> walk_state" where
  "push_row ctx c result attempt_started no tokens validator w =
     w\<lparr> w_ledger := ledger_push (wx_utc ctx + int (w_clock w))
          (build_attempt (wx_decimal ctx) (wx_utc ctx) (w_clock w) attempt_started no c result False tokens
             False None validator) (w_ledger w) \<rparr>"

definition next_no :: "walk_state \<Rightarrow> nat" where
  "next_no w = length (wl_rows (w_ledger w)) + 1"

section \<open>One call, one wait\<close>

text \<open>
  \<^verbatim>\<open>sleep_backoff\<close>: the wait never outlasts the deadline, and a shutdown cuts it short (\<^verbatim>\<open>False\<close>).
\<close>

definition sleep_backoff :: "walk_context \<Rightarrow> nat \<Rightarrow> walk_state \<Rightarrow> bool \<times> walk_state" where
  "sleep_backoff ctx wait_ms w =
     (let e = wx_events ctx (w_step w);
          remaining = (case remaining_upstream_time w of None \<Rightarrow> 0 | Some r \<Rightarrow> r);
          wait = min wait_ms remaining;
          w1 = w\<lparr> w_step := Suc (w_step w) \<rparr>
      in if we_interrupted e then (False, w1\<lparr> w_clock := w_clock w + min (we_wait e) wait \<rparr>)
         else (True, w1\<lparr> w_clock := w_clock w + wait \<rparr>))"

text \<open>The call itself; a timeout is the one result that takes all the time that remains.\<close>

definition call_upstream ::
    "walk_context \<Rightarrow> nat \<Rightarrow> provider_candidate \<Rightarrow> walk_state \<Rightarrow> upstream_result \<times> walk_state" where
  "call_upstream ctx remaining c w =
     (let e = wx_events ctx (w_step w);
          wait = (if we_result e = Elapsed then remaining else min (we_wait e) remaining);
          w1 = w\<lparr> w_step := Suc (w_step w), w_clock := w_clock w + wait \<rparr>
      in (we_result e,
          if we_result e = ShutdownBefore then w1
          else w1\<lparr> w_last := Some (pc_definition c),
                  w_calls := w_calls w @ [\<lparr> uc_candidate = c, uc_prompt = w_messages w,
                                            uc_truncated = w_truncated w, uc_result = we_result e \<rparr>] \<rparr>))"

text \<open>What a failed call leaves behind, whatever the walk does next.\<close>

definition note_failure ::
    "walk_context \<Rightarrow> provider_candidate \<Rightarrow> upstream_error \<Rightarrow> failure_class \<Rightarrow> nat \<Rightarrow> nat \<Rightarrow> walk_state \<Rightarrow> walk_state" where
  "note_failure ctx c err cls attempt_started no w =
     (let w1 = (if cls = RetentionAttestation then w\<lparr> w_attestation_failed := True \<rparr> else w);
          w2 = (if w_rejection w1 = None \<and> cls = NonRetryable
                then w1\<lparr> w_rejection := parameter_rejection (wx_parse_json ctx) err \<rparr> else w1);
          w3 = (if pc_byok c \<and> permits_byok_fallback cls
                then w2\<lparr> w_armed := insert (c_provider (pc_definition c)) (w_armed w2) \<rparr> else w2)
      in push_row ctx (pc_definition c) (class_outcome cls) attempt_started no tokens_unknown None w3)"

section \<open>The attempts on one candidate\<close>

datatype attempts_end = NextCandidate | StopWalk | EndWalk walk_outcome

text \<open>An attempt asks for another one, with the wait before the one after, or is the last.\<close>

datatype attempt_action = Again nat | Done attempts_end

definition wait_again :: "walk_context \<Rightarrow> nat \<Rightarrow> nat \<Rightarrow> walk_state \<Rightarrow> attempt_action \<times> walk_state" where
  "wait_again ctx wait backoff_ms w =
     (let (slept, w1) = sleep_backoff ctx wait w in
      (if slept then Again (next_backoff backoff_ms) else Done (EndWalk (WalkRefused TerminalShutdown)), w1))"

definition after_failure ::
    "walk_context \<Rightarrow> nat \<Rightarrow> nat \<Rightarrow> upstream_error \<Rightarrow> failure_class \<Rightarrow> walk_state \<Rightarrow> attempt_action \<times> walk_state" where
  "after_failure ctx left backoff_ms err cls w =
     (case cls of
        ContextWindow _ \<Rightarrow>
          (case truncate_for_context (w_messages w) of
             (dropped, messages) \<Rightarrow>
               if 0 < dropped
               then (Again backoff_ms, w\<lparr> w_messages := messages, w_truncated := True \<rparr>)
               else (Done StopWalk, w))
      | _ \<Rightarrow>
          if class_is_non_retryable cls then (Done NextCandidate, w)
          else if class_is_rate_limited cls \<and> 1 < wx_total ctx then (Done NextCandidate, w)
          else if 0 < left
          then (case compute_backoff backoff_ms err of
                  None \<Rightarrow> (Done (EndWalk WalkPanicked), w)
                | Some wait \<Rightarrow> wait_again ctx wait backoff_ms w)
          else (Done NextCandidate, w))"

definition empty_row ::
    "walk_context \<Rightarrow> provider_candidate \<Rightarrow> chat_response \<Rightarrow> nat \<Rightarrow> nat \<Rightarrow> walk_state \<Rightarrow> walk_state" where
  "empty_row ctx c response begun no w =
     push_row ctx (pc_definition c) ''validation_failed'' begun no
       (case try_from_provider (cr_usage response) of None \<Rightarrow> tokens_unknown | Some u \<Rightarrow> tokens_measured u)
       (Some ''empty_completion'') w"

definition after_call ::
    "walk_context \<Rightarrow> provider_candidate \<Rightarrow> nat \<Rightarrow> nat \<Rightarrow> nat \<Rightarrow> nat \<Rightarrow> upstream_result \<Rightarrow> walk_state \<Rightarrow>
     attempt_action \<times> walk_state" where
  "after_call ctx c left backoff_ms begun no result w =
     (case result of
        ShutdownBefore \<Rightarrow> (Done (EndWalk (WalkRefused TerminalShutdown)), w)
      | ShutdownDuring \<Rightarrow>
          (Done (EndWalk (WalkRefused TerminalShutdown)),
           push_row ctx (pc_definition c) ''aborted'' begun no tokens_unknown None w)
      | Elapsed \<Rightarrow>
          (Done (EndWalk (WalkRefused TerminalTimeout)),
           push_row ctx (pc_definition c) ''timeout'' begun no tokens_unknown None w)
      | Responded response \<Rightarrow>
          if 0 < left \<and> is_empty_completion response
          then wait_again ctx backoff_ms backoff_ms (empty_row ctx c response begun no w)
          else (Done (EndWalk (WalkServed c response no begun)), w)
      | UpstreamFailed err \<Rightarrow>
          (let cls = classify err (w_truncated w) in
           after_failure ctx left backoff_ms err cls (note_failure ctx c err cls begun no w)))"

text \<open>One round of the loop; \<open>left\<close> counts the rounds after it.\<close>

definition one_attempt ::
    "walk_context \<Rightarrow> provider_candidate \<Rightarrow> nat \<Rightarrow> nat \<Rightarrow> walk_state \<Rightarrow> attempt_action \<times> walk_state" where
  "one_attempt ctx c left backoff_ms w =
     (case remaining_upstream_time w of
        None \<Rightarrow> (Done (EndWalk (WalkRefused TerminalTimeout)), w)
      | Some remaining \<Rightarrow>
          (case call_upstream ctx remaining c w of
             (result, w1) \<Rightarrow> after_call ctx c left backoff_ms (w_clock w) (next_no w) result w1))"

fun try_candidate ::
    "walk_context \<Rightarrow> provider_candidate \<Rightarrow> nat \<Rightarrow> nat \<Rightarrow> walk_state \<Rightarrow> attempts_end \<times> walk_state" where
  "try_candidate ctx c 0 backoff_ms w = (NextCandidate, w)"
| "try_candidate ctx c (Suc left) backoff_ms w =
     (case one_attempt ctx c left backoff_ms w of
        (Again backoff_ms1, w1) \<Rightarrow> try_candidate ctx c left backoff_ms1 w1
      | (Done e, w1) \<Rightarrow> (e, w1))"

section \<open>The walk\<close>

text \<open>How a walk ends that runs out of candidates.\<close>

definition exhausted :: "walk_state \<Rightarrow> walk_terminal" where
  "exhausted w =
     (if w_attestation_failed w then TerminalAttestation
      else case w_rejection w of Some reason \<Rightarrow> ParameterRejected reason | None \<Rightarrow> Exhausted)"

definition twin_unarmed :: "provider_candidate \<Rightarrow> walk_state \<Rightarrow> bool" where
  "twin_unarmed c w \<longleftrightarrow> (case pc_fallback_for c of None \<Rightarrow> False | Some p \<Rightarrow> p \<notin> w_armed w)"

text \<open>What other requests did to the registry since.\<close>

definition meanwhile :: "walk_context \<Rightarrow> walk_state \<Rightarrow> walk_state" where
  "meanwhile ctx w =
     w\<lparr> w_step := Suc (w_step w),
        w_ledger := (w_ledger w)\<lparr> wl_health := we_registry (wx_events ctx (w_step w)) (wl_health (w_ledger w)) \<rparr> \<rparr>"

definition skip_row :: "walk_context \<Rightarrow> provider_candidate \<Rightarrow> string \<Rightarrow> walk_state \<Rightarrow> walk_state" where
  "skip_row ctx c result w =
     push_row ctx (pc_definition c) result (w_clock w) (next_no w) tokens_unknown None w"

definition health_skips :: "walk_context \<Rightarrow> provider_candidate \<Rightarrow> provider_candidate list \<Rightarrow> walk_state \<Rightarrow> bool" where
  "health_skips ctx c rest w \<longleftrightarrow>
     should_skip (wx_utc ctx + int (w_clock w)) (wl_health (w_ledger w)) (pc_definition c) \<and>
     (w_last w \<noteq> None \<or> rest \<noteq> [])"

fun walk :: "walk_context \<Rightarrow> provider_candidate list \<Rightarrow> walk_state \<Rightarrow> walk_outcome \<times> walk_state" where
  "walk ctx [] w = (WalkRefused (exhausted w), w)"
| "walk ctx (c # cs) w =
     (if twin_unarmed c w then walk ctx cs (skip_row ctx c ''policy_skipped'' w)
      else
        let w1 = meanwhile ctx w in
        if health_skips ctx c cs w1
        then walk ctx cs (skip_row ctx c ''health_skipped'' w1)
        else
          (case try_candidate ctx c (Suc CANDIDATE_RETRIES) CANDIDATE_BACKOFF_MS w1 of
             (NextCandidate, w2) \<Rightarrow> walk ctx cs w2
           | (StopWalk, w2) \<Rightarrow> (WalkRefused (exhausted w2), w2)
           | (EndWalk result, w2) \<Rightarrow> (result, w2)))"

definition walk_start :: "health \<Rightarrow> chat_message list \<Rightarrow> walk_state" where
  "walk_start registry messages =
     \<lparr> w_step = 0, w_clock = 0, w_ledger = \<lparr> wl_health = registry, wl_rows = [] \<rparr>, w_messages = messages,
       w_truncated = False, w_attestation_failed = False, w_rejection = None, w_last = None,
       w_armed = {}, w_calls = [] \<rparr>"

definition run_walk ::
    "walk_context \<Rightarrow> health \<Rightarrow> chat_message list \<Rightarrow> provider_candidate list \<Rightarrow> walk_outcome \<times> walk_state" where
  "run_walk ctx registry messages cs = walk (ctx\<lparr> wx_total := length cs \<rparr>) cs (walk_start registry messages)"

section \<open>Invariants of a walk\<close>

lemma twin_unarmed_iff: "twin_unarmed c w \<longleftrightarrow> (\<exists>p. pc_fallback_for c = Some p \<and> p \<notin> w_armed w)"
  by (simp add: twin_unarmed_def split: option.split)

text \<open>The call of an upstream the failure is about.\<close>

definition failed_call :: "provider_candidate \<Rightarrow> upstream_error \<Rightarrow> failure_class \<Rightarrow> walk_state \<Rightarrow> bool" where
  "failed_call c err cls w \<longleftrightarrow>
     w_calls w \<noteq> [] \<and> uc_candidate (last (w_calls w)) = c \<and>
     uc_result (last (w_calls w)) = UpstreamFailed err \<and> cls = classify err (uc_truncated (last (w_calls w)))"

text \<open>What is kept by each of the walk's own steps is kept by the walk.\<close>

locale walk_invariant =
  fixes ok :: "provider_candidate \<Rightarrow> bool"
    and I :: "walk_context \<Rightarrow> walk_state \<Rightarrow> bool"
  assumes call: "I ctx w \<Longrightarrow> ok c \<Longrightarrow> \<not> twin_unarmed c w \<Longrightarrow> remaining_upstream_time w = Some r \<Longrightarrow>
      I ctx (snd (call_upstream ctx r c w))"
    and failure: "I ctx w \<Longrightarrow> failed_call c err cls w \<Longrightarrow> I ctx (note_failure ctx c err cls begun (next_no w) w)"
    and row: "I ctx w \<Longrightarrow> I ctx (push_row ctx d s begun (next_no w) tokens v w)"
    and wait: "I ctx w \<Longrightarrow> I ctx (snd (sleep_backoff ctx ms w))"
    and prompt: "I ctx w \<Longrightarrow> I ctx (w\<lparr> w_messages := snd (truncate_for_context (w_messages w)), w_truncated := True \<rparr>)"
    and registry: "I ctx w \<Longrightarrow> I ctx (meanwhile ctx w)"

lemma call_upstream_frame [simp]:
  "w_ledger (snd (call_upstream ctx r c w)) = w_ledger w"
  "w_messages (snd (call_upstream ctx r c w)) = w_messages w"
  "w_truncated (snd (call_upstream ctx r c w)) = w_truncated w"
  "w_attestation_failed (snd (call_upstream ctx r c w)) = w_attestation_failed w"
  "w_rejection (snd (call_upstream ctx r c w)) = w_rejection w"
  "w_armed (snd (call_upstream ctx r c w)) = w_armed w"
  "w_step (snd (call_upstream ctx r c w)) = Suc (w_step w)"
  "next_no (snd (call_upstream ctx r c w)) = next_no w"
  by (simp_all add: call_upstream_def Let_def next_no_def)

lemma call_upstream_calls:
  "fst (call_upstream ctx r c w) \<noteq> ShutdownBefore \<Longrightarrow>
     w_calls (snd (call_upstream ctx r c w)) = w_calls w @
       [\<lparr> uc_candidate = c, uc_prompt = w_messages w, uc_truncated = w_truncated w,
          uc_result = fst (call_upstream ctx r c w) \<rparr>] \<and>
     w_last (snd (call_upstream ctx r c w)) = Some (pc_definition c)"
  by (simp add: call_upstream_def Let_def)

lemma push_row_frame [simp]:
  "w_messages (push_row ctx d s b n t v w) = w_messages w" "w_truncated (push_row ctx d s b n t v w) = w_truncated w"
  "w_attestation_failed (push_row ctx d s b n t v w) = w_attestation_failed w"
  "w_rejection (push_row ctx d s b n t v w) = w_rejection w" "w_armed (push_row ctx d s b n t v w) = w_armed w"
  "w_calls (push_row ctx d s b n t v w) = w_calls w" "w_last (push_row ctx d s b n t v w) = w_last w"
  "w_step (push_row ctx d s b n t v w) = w_step w" "w_clock (push_row ctx d s b n t v w) = w_clock w"
  by (simp_all add: push_row_def)

lemma sleep_frame [simp]:
  "w_messages (snd (sleep_backoff ctx ms w)) = w_messages w" "w_truncated (snd (sleep_backoff ctx ms w)) = w_truncated w"
  "w_attestation_failed (snd (sleep_backoff ctx ms w)) = w_attestation_failed w"
  "w_rejection (snd (sleep_backoff ctx ms w)) = w_rejection w" "w_armed (snd (sleep_backoff ctx ms w)) = w_armed w"
  "w_calls (snd (sleep_backoff ctx ms w)) = w_calls w" "w_last (snd (sleep_backoff ctx ms w)) = w_last w"
  "w_step (snd (sleep_backoff ctx ms w)) = Suc (w_step w)" "w_ledger (snd (sleep_backoff ctx ms w)) = w_ledger w"
  by (simp_all add: sleep_backoff_def Let_def)

lemma note_failure_frame [simp]:
  "w_messages (note_failure ctx c err cls b n w) = w_messages w"
  "w_truncated (note_failure ctx c err cls b n w) = w_truncated w"
  "w_calls (note_failure ctx c err cls b n w) = w_calls w" "w_last (note_failure ctx c err cls b n w) = w_last w"
  "w_step (note_failure ctx c err cls b n w) = w_step w" "w_clock (note_failure ctx c err cls b n w) = w_clock w"
  by (simp_all add: note_failure_def Let_def)

lemma note_failure_armed:
  "w_armed (note_failure ctx c err cls b n w) =
     (if pc_byok c \<and> permits_byok_fallback cls then insert (c_provider (pc_definition c)) (w_armed w) else w_armed w)"
  by (simp add: note_failure_def Let_def)

lemma note_failure_attestation:
  "w_attestation_failed (note_failure ctx c err cls b n w) \<longleftrightarrow> w_attestation_failed w \<or> cls = RetentionAttestation"
  by (simp add: note_failure_def Let_def)

lemma note_failure_rows:
  "w_ledger (note_failure ctx c err cls b n w) =
     w_ledger (push_row ctx (pc_definition c) (class_outcome cls) b n tokens_unknown None w)"
  by (simp add: note_failure_def push_row_def Let_def)

lemma meanwhile_frame [simp]:
  "w_messages (meanwhile ctx w) = w_messages w" "w_truncated (meanwhile ctx w) = w_truncated w"
  "w_attestation_failed (meanwhile ctx w) = w_attestation_failed w" "w_rejection (meanwhile ctx w) = w_rejection w"
  "w_armed (meanwhile ctx w) = w_armed w" "w_calls (meanwhile ctx w) = w_calls w" "w_last (meanwhile ctx w) = w_last w"
  "w_clock (meanwhile ctx w) = w_clock w" "w_step (meanwhile ctx w) = Suc (w_step w)"
  "wl_rows (w_ledger (meanwhile ctx w)) = wl_rows (w_ledger w)"
  by (simp_all add: meanwhile_def)

text \<open>The states one attempt can leave behind, as the cases the proofs go by.\<close>

lemma after_failure_cases:
  assumes "after_failure ctx left backoff_ms err cls w = (act, v)"
  obtains (same) e where "v = w" "act = Done e" "e \<in> {NextCandidate, StopWalk, EndWalk WalkPanicked}"
  | (shorter) "v = w\<lparr> w_messages := snd (truncate_for_context (w_messages w)), w_truncated := True \<rparr>"
      "0 < fst (truncate_for_context (w_messages w))" "act = Again backoff_ms"
  | (waited) ms where "wait_again ctx ms backoff_ms w = (act, v)" "0 < left"
proof (cases "\<exists>b. cls = ContextWindow b")
  case True
  then obtain b where "cls = ContextWindow b" by blast
  with assms have *: "(if 0 < fst (truncate_for_context (w_messages w))
      then (Again backoff_ms, w\<lparr> w_messages := snd (truncate_for_context (w_messages w)), w_truncated := True \<rparr>)
      else (Done StopWalk, w)) = (act, v)"
    by (simp add: after_failure_def case_prod_beta)
  show thesis
  proof (cases "0 < fst (truncate_for_context (w_messages w))")
    case True
    with * show thesis by (intro shorter) simp_all
  next
    case False
    with * show thesis by (intro same [of StopWalk]) simp_all
  qed
next
  case False
  then have shape: "after_failure ctx left backoff_ms err cls w =
      (if class_is_non_retryable cls then (Done NextCandidate, w)
       else if class_is_rate_limited cls \<and> 1 < wx_total ctx then (Done NextCandidate, w)
       else if 0 < left
       then (case compute_backoff backoff_ms err of
               None \<Rightarrow> (Done (EndWalk WalkPanicked), w)
             | Some wait \<Rightarrow> wait_again ctx wait backoff_ms w)
       else (Done NextCandidate, w))"
    by (cases cls) (simp_all add: after_failure_def)
  show thesis
  proof (cases "class_is_non_retryable cls \<or> class_is_rate_limited cls \<and> 1 < wx_total ctx \<or> left = 0")
    case True
    then have "after_failure ctx left backoff_ms err cls w = (Done NextCandidate, w)"
      unfolding shape by (elim disjE) simp_all
    with assms show thesis by (intro same [of NextCandidate]) simp_all
  next
    case False
    then have go: "\<not> class_is_non_retryable cls" "\<not> (class_is_rate_limited cls \<and> 1 < wx_total ctx)" "0 < left"
      by simp_all
    show thesis
    proof (cases "compute_backoff backoff_ms err")
      case None
      with assms go show thesis
        by (intro same [of "EndWalk WalkPanicked"]) (simp_all only: shape if_False if_True option.case, simp_all)
    next
      case (Some ms)
      with assms go show thesis
        by (intro waited [of ms]) (simp_all only: shape if_False if_True option.case)
    qed
  qed
qed

lemma one_attempt_cases:
  assumes "one_attempt ctx c left backoff_ms w = (act, v)"
  obtains (late) "remaining_upstream_time w = None" "v = w" "act = Done (EndWalk (WalkRefused TerminalTimeout))"
  | (stopped) r where "remaining_upstream_time w = Some r" "call_upstream ctx r c w = (ShutdownBefore, v)"
      "act = Done (EndWalk (WalkRefused TerminalShutdown))"
  | (ended) r res w1 s t where "remaining_upstream_time w = Some r" "call_upstream ctx r c w = (res, w1)"
      "res \<noteq> ShutdownBefore" "v = push_row ctx (pc_definition c) s (w_clock w) (next_no w) tokens_unknown None w1"
      "act = Done (EndWalk (WalkRefused t))" "t \<in> {TerminalShutdown, TerminalTimeout}"
  | (served) r response where "remaining_upstream_time w = Some r" "call_upstream ctx r c w = (Responded response, v)"
      "act = Done (EndWalk (WalkServed c response (next_no w) (w_clock w)))"
      "left = 0 \<or> \<not> is_empty_completion response"
  | (empty) r response w1 where "remaining_upstream_time w = Some r"
      "call_upstream ctx r c w = (Responded response, w1)" "0 < left"
      "wait_again ctx backoff_ms backoff_ms (empty_row ctx c response (w_clock w) (next_no w) w1) = (act, v)"
  | (failed) r err w1 where "remaining_upstream_time w = Some r" "call_upstream ctx r c w = (UpstreamFailed err, w1)"
      "after_failure ctx left backoff_ms err (classify err (w_truncated w1))
         (note_failure ctx c err (classify err (w_truncated w1)) (w_clock w) (next_no w) w1) = (act, v)"
proof (cases "remaining_upstream_time w")
  case None
  with assms show thesis by (intro late) (simp_all add: one_attempt_def)
next
  case (Some r)
  obtain res w1 where called: "call_upstream ctx r c w = (res, w1)"
    by (cases "call_upstream ctx r c w")
  with assms Some have after: "after_call ctx c left backoff_ms (w_clock w) (next_no w) res w1 = (act, v)"
    by (simp add: one_attempt_def)
  show thesis
  proof (cases res)
    case ShutdownBefore
    with after called show thesis by (intro stopped [OF Some]) (simp_all add: after_call_def)
  next
    case ShutdownDuring
    with after show thesis
      by (intro ended [OF Some called, of "''aborted''" TerminalShutdown]) (simp_all add: after_call_def)
  next
    case Elapsed
    with after show thesis
      by (intro ended [OF Some called, of "''timeout''" TerminalTimeout]) (simp_all add: after_call_def)
  next
    case (Responded response)
    show thesis
    proof (cases "0 < left \<and> is_empty_completion response")
      case True
      with after called Responded show thesis
        by (intro empty [OF Some, of response w1]) (simp_all add: after_call_def)
    next
      case False
      with after called Responded show thesis
        by (intro served [OF Some, of response]) (auto simp: after_call_def)
    qed
  next
    case (UpstreamFailed err)
    with after called show thesis
      by (intro failed [OF Some, of err w1]) (simp_all add: after_call_def Let_def)
  qed
qed

lemma wait_again_state: "wait_again ctx ms b w = (act, v) \<Longrightarrow> v = snd (sleep_backoff ctx ms w)"
  by (auto simp: wait_again_def case_prod_beta)

context walk_invariant begin

lemma one_attempt_keeps:
  assumes "I ctx w" "ok c" "\<not> twin_unarmed c w" "one_attempt ctx c left backoff_ms w = (act, v)"
  shows "I ctx v \<and> \<not> twin_unarmed c v"
proof -
  have called: "I ctx w1 \<and> next_no w1 = next_no w \<and> w_truncated w1 = w_truncated w \<and> \<not> twin_unarmed c w1 \<and>
      (res \<noteq> ShutdownBefore \<longrightarrow> w_calls w1 \<noteq> [] \<and> uc_candidate (last (w_calls w1)) = c \<and>
         uc_result (last (w_calls w1)) = res \<and> uc_truncated (last (w_calls w1)) = w_truncated w)"
    if "remaining_upstream_time w = Some r" "call_upstream ctx r c w = (res, w1)" for r res w1
    using call [OF assms(1-3) that(1)] that(2) assms(3) call_upstream_frame [of ctx r c w]
      call_upstream_calls [of ctx r c w]
    by (auto simp: twin_unarmed_iff)
  have noted: "I ctx (note_failure ctx c err cls (w_clock w) (next_no w) w1) \<and>
      \<not> twin_unarmed c (note_failure ctx c err cls (w_clock w) (next_no w) w1)"
    if "remaining_upstream_time w = Some r" "call_upstream ctx r c w = (UpstreamFailed err, w1)"
      "cls = classify err (w_truncated w1)" for r err w1 cls
    using called [OF that(1,2)] failure [of ctx w1 c err cls "w_clock w"] that(3)
    by (auto simp: failed_call_def twin_unarmed_iff note_failure_armed)
  have slept: "I ctx v \<and> \<not> twin_unarmed c v"
    if "I ctx x" "\<not> twin_unarmed c x" "wait_again ctx ms b x = (act, v)" for x ms b
    using wait [OF that(1), of ms] that(2) wait_again_state [OF that(3)]
    by (simp add: twin_unarmed_iff)
  from assms(4) show ?thesis
  proof (cases rule: one_attempt_cases)
    case late
    then show ?thesis using assms by simp
  next
    case (stopped r)
    then show ?thesis using called by blast
  next
    case (ended r res w1 s t)
    then show ?thesis
      using called [OF ended(1,2)] row [of ctx w1 "pc_definition c" s "w_clock w" tokens_unknown None]
      by (simp add: twin_unarmed_iff)
  next
    case (served r response)
    then show ?thesis using called by blast
  next
    case (empty r response w1)
    have "I ctx (empty_row ctx c response (w_clock w) (next_no w) w1) \<and>
        \<not> twin_unarmed c (empty_row ctx c response (w_clock w) (next_no w) w1)"
      using called [OF empty(1,2)] row [of ctx w1 "pc_definition c" "''validation_failed''" "w_clock w"]
      unfolding empty_row_def by (simp add: twin_unarmed_iff)
    with slept [OF _ _ empty(4)] show ?thesis by blast
  next
    case (failed r err w1)
    let ?cls = "classify err (w_truncated w1)"
    let ?w2 = "note_failure ctx c err ?cls (w_clock w) (next_no w) w1"
    have w2: "I ctx ?w2" "\<not> twin_unarmed c ?w2"
      using noted [OF failed(1,2) refl] by simp_all
    from failed(3) show ?thesis
    proof (cases rule: after_failure_cases)
      case shorter
      then show ?thesis using prompt [OF w2(1)] w2(2) by (simp add: twin_unarmed_iff)
    next
      case (waited ms)
      then show ?thesis using slept w2 by blast
    qed (use w2 in simp)
  qed
qed

lemma try_candidate_keeps:
  "I ctx w \<Longrightarrow> ok c \<Longrightarrow> \<not> twin_unarmed c w \<Longrightarrow> I ctx (snd (try_candidate ctx c left backoff_ms w))"
proof (induction left arbitrary: backoff_ms w)
  case (Suc left)
  obtain act v where step: "one_attempt ctx c left backoff_ms w = (act, v)"
    by (meson surj_pair)
  then show ?case
    using one_attempt_keeps [OF Suc.prems step] Suc.IH [of v] Suc.prems(2) by (cases act) simp_all
qed simp

lemma walk_keeps: "I ctx w \<Longrightarrow> \<forall>c \<in> set cs. ok c \<Longrightarrow> I ctx (snd (walk ctx cs w))"
proof (induction ctx cs w rule: walk.induct)
  case (2 ctx c cs w)
  let ?w1 = "meanwhile ctx w"
  have skip: "I ctx v \<Longrightarrow> I ctx (skip_row ctx c s v)" for v s
    by (simp add: skip_row_def row)
  consider (twin) "twin_unarmed c w" | (skipped) "\<not> twin_unarmed c w" "health_skips ctx c cs ?w1"
    | (tried) "\<not> twin_unarmed c w" "\<not> health_skips ctx c cs ?w1"
    by blast
  then show ?case
  proof cases
    case twin
    then show ?thesis using 2 skip by simp
  next
    case skipped
    then have "walk ctx (c # cs) w = walk ctx cs (skip_row ctx c ''health_skipped'' ?w1)"
      by (simp add: Let_def)
    then show ?thesis
      using "2.IH"(2) [OF skipped(1) refl skipped(2)] skip [OF registry [OF "2.prems"(1)]] "2.prems"(2) by simp
  next
    case tried
    obtain e w2 where tries: "try_candidate ctx c (Suc CANDIDATE_RETRIES) CANDIDATE_BACKOFF_MS ?w1 = (e, w2)"
      by (meson surj_pair)
    have "\<not> twin_unarmed c ?w1"
      using tried(1) by (simp add: twin_unarmed_iff)
    then have kept: "I ctx w2"
      using try_candidate_keeps [OF registry [OF "2.prems"(1)], of c "Suc CANDIDATE_RETRIES" CANDIDATE_BACKOFF_MS]
        "2.prems"(2) tries by simp
    have "walk ctx (c # cs) w = (case e of NextCandidate \<Rightarrow> walk ctx cs w2
        | StopWalk \<Rightarrow> (WalkRefused (exhausted w2), w2) | EndWalk result \<Rightarrow> (result, w2))"
      using tried tries by (simp add: Let_def del: try_candidate.simps)
    then show ?thesis
      using "2.IH"(3) [OF tried(1) refl tried(2) tries [symmetric]] kept "2.prems"(2)
      by (cases e) simp_all
  qed
qed simp

lemma run_keeps:
  assumes "I (ctx\<lparr> wx_total := length cs \<rparr>) (walk_start h ms)" "\<forall>c \<in> set cs. ok c"
  shows "I (ctx\<lparr> wx_total := length cs \<rparr>) (snd (run_walk ctx h ms cs))"
  unfolding run_walk_def using assms by (rule walk_keeps)

end

section \<open>A house twin is called only after the customer's key failed\<close>

text \<open>A call that arms the twin of \<open>p\<close>: the customer's own candidate of that provider, failing in a way
  that lets the house step in.\<close>

definition arms :: "upstream_call \<Rightarrow> string \<Rightarrow> bool" where
  "arms call p \<longleftrightarrow>
     pc_byok (uc_candidate call) \<and> c_provider (pc_definition (uc_candidate call)) = p \<and>
     (case uc_result call of
        UpstreamFailed err \<Rightarrow> permits_byok_fallback (classify err (uc_truncated call))
      | _ \<Rightarrow> False)"

definition twin_justified :: "upstream_call list \<Rightarrow> upstream_call \<Rightarrow> bool" where
  "twin_justified earlier call \<longleftrightarrow>
     (case pc_fallback_for (uc_candidate call) of
        None \<Rightarrow> True
      | Some p \<Rightarrow> list_ex (\<lambda>x. arms x p) earlier)"

definition twins_justified :: "upstream_call list \<Rightarrow> bool" where
  "twins_justified calls \<longleftrightarrow> list_all (\<lambda>i. twin_justified (take i calls) (calls ! i)) [0..<length calls]"

lemma twins_justified_snoc:
  "twins_justified (calls @ [x]) \<longleftrightarrow> twins_justified calls \<and> twin_justified calls x"
  by (auto simp: twins_justified_def list_all_iff nth_append)

definition armed_sound :: "walk_state \<Rightarrow> bool" where
  "armed_sound w \<longleftrightarrow>
     twins_justified (w_calls w) \<and> (\<forall>p \<in> w_armed w. list_ex (\<lambda>x. arms x p) (w_calls w))"

interpretation twin: walk_invariant "\<lambda>_. True" "\<lambda>_. armed_sound"
proof unfold_locales
  fix ctx w c r
  assume w: "armed_sound w" and twin: "\<not> twin_unarmed c w"
  have grown: "w_calls (snd (call_upstream ctx r c w)) = w_calls w \<or>
      (\<exists>x. uc_candidate x = c \<and> w_calls (snd (call_upstream ctx r c w)) = w_calls w @ [x])"
    by (auto simp: call_upstream_def Let_def)
  have "twin_justified (w_calls w) x" if "uc_candidate x = c" for x
    using w twin that
    by (auto simp: twin_justified_def twin_unarmed_iff armed_sound_def split: option.splits)
  with grown w show "armed_sound (snd (call_upstream ctx r c w))"
    by (auto simp: armed_sound_def twins_justified_snoc)
next
  fix ctx w c err cls begun
  assume w: "armed_sound w" and fail: "failed_call c err cls w"
  have "list_ex (\<lambda>x. arms x (c_provider (pc_definition c))) (w_calls w)" if "pc_byok c" "permits_byok_fallback cls"
  proof -
    have "last (w_calls w) \<in> set (w_calls w)" "arms (last (w_calls w)) (c_provider (pc_definition c))"
      using fail that by (auto simp: failed_call_def arms_def)
    then show ?thesis by (auto simp: list_ex_iff)
  qed
  with w show "armed_sound (note_failure ctx c err cls begun (next_no w) w)"
    by (auto simp: armed_sound_def note_failure_armed)
qed (simp_all add: armed_sound_def)

text \<open>Whatever the upstreams answer and whoever else uses them, a walk calls a house twin only when an earlier
  call of the same walk went to its provider with the customer's key and failed in a way that permits the
  fallback.\<close>

lemma twins_only_after_their_key:
  "twins_justified (w_calls (snd (run_walk ctx registry messages cs)))"
proof -
  have "armed_sound (walk_start registry messages)"
    by (simp add: armed_sound_def walk_start_def twins_justified_def)
  then have "armed_sound (snd (run_walk ctx registry messages cs))"
    using twin.run_keeps [of registry messages cs ctx] by simp
  then show ?thesis by (simp add: armed_sound_def)
qed

section \<open>Bounds\<close>

definition rows_numbered :: "attempt_record list \<Rightarrow> bool" where
  "rows_numbered rows \<longleftrightarrow>
     List.map attempt_no rows = List.map (\<lambda>i. min (int i) i16_max) [1..<Suc (length rows)]"

lemma push_row_rows:
  "wl_rows (w_ledger (push_row ctx d s b n t v w)) = wl_rows (w_ledger w) @
     [build_attempt (wx_decimal ctx) (wx_utc ctx) (w_clock w) b n d s False t False None v]"
  by (simp add: push_row_def ledger_push_def)

lemma build_attempt_no [simp]: "attempt_no (build_attempt D u k b n d s f t e r v) = min (int n) i16_max"
  by (simp add: build_attempt_def Let_def)

lemma push_row_numbered:
  "rows_numbered (wl_rows (w_ledger w)) \<Longrightarrow> rows_numbered (wl_rows (w_ledger (push_row ctx d s b (next_no w) t v w)))"
  by (simp add: push_row_rows rows_numbered_def next_no_def)

interpretation numbered: walk_invariant "\<lambda>_. True" "\<lambda>_ w. rows_numbered (wl_rows (w_ledger w))"
  by unfold_locales (simp_all add: push_row_numbered note_failure_rows)

lemma sleep_clock:
  "w_clock w \<le> UPSTREAM_REQUEST_TIMEOUT \<Longrightarrow> w_clock (snd (sleep_backoff ctx ms w)) \<le> UPSTREAM_REQUEST_TIMEOUT"
  by (auto simp: sleep_backoff_def remaining_upstream_time_def Let_def)

lemma call_clock:
  "remaining_upstream_time w = Some r \<Longrightarrow> w_clock (snd (call_upstream ctx r c w)) \<le> UPSTREAM_REQUEST_TIMEOUT"
  by (auto simp: call_upstream_def remaining_upstream_time_def Let_def split: if_splits)

interpretation timed: walk_invariant "\<lambda>_. True" "\<lambda>_ w. w_clock w \<le> UPSTREAM_REQUEST_TIMEOUT"
  by unfold_locales (simp_all add: sleep_clock call_clock)

text \<open>What a number of rounds adds to the calls, the rows and the events read.\<close>

definition grown :: "nat \<Rightarrow> nat \<Rightarrow> nat \<Rightarrow> walk_state \<Rightarrow> walk_state \<Rightarrow> bool" where
  "grown calls rows steps w v \<longleftrightarrow>
     length (w_calls v) \<le> length (w_calls w) + calls \<and>
     length (wl_rows (w_ledger v)) \<le> length (wl_rows (w_ledger w)) + rows \<and>
     w_step v \<le> w_step w + steps"

lemma grown_trans:
  "grown a b k w u \<Longrightarrow> grown a' b' k' u v \<Longrightarrow> grown (a + a') (b + b') (k + k') w v"
  by (auto simp: grown_def)

lemma grown_call: "grown 1 0 1 w (snd (call_upstream ctx r c w))"
  by (simp add: grown_def call_upstream_def Let_def)

lemma grown_row: "grown 0 1 0 w (push_row ctx d s b n t v w)"
  by (simp add: grown_def push_row_rows)

lemma grown_note: "grown 0 1 0 w (note_failure ctx c err cls b n w)"
  by (simp add: grown_def note_failure_rows push_row_rows)

lemma grown_sleep: "grown 0 0 1 w (snd (sleep_backoff ctx ms w))"
  by (simp add: grown_def)

lemma grown_weaken: "grown a b k w v \<Longrightarrow> a \<le> a' \<Longrightarrow> b \<le> b' \<Longrightarrow> k \<le> k' \<Longrightarrow> grown a' b' k' w v"
  by (auto simp: grown_def)

lemma grown_call_row:
  "call_upstream ctx r c w = (res, w1) \<Longrightarrow> grown 1 1 1 w (push_row ctx d s b n t v w1)"
  using grown_trans [OF grown_call [of w ctx r c] grown_row [of "snd (call_upstream ctx r c w)" ctx d s b n t v]]
  by simp

lemma grown_call_note:
  "call_upstream ctx r c w = (res, w1) \<Longrightarrow> grown 1 1 1 w (note_failure ctx c err cls b n w1)"
  using grown_trans [OF grown_call [of w ctx r c] grown_note [of "snd (call_upstream ctx r c w)" ctx c err cls b n]]
  by simp

lemma one_attempt_grown:
  assumes "one_attempt ctx c left backoff_ms w = (act, v)"
  shows "grown 1 1 2 w v"
  using assms
proof (cases rule: one_attempt_cases)
  case late
  then show ?thesis by (simp add: grown_def)
next
  case (stopped r)
  then show ?thesis using grown_call [of w ctx r c] by (auto intro: grown_weaken)
next
  case (ended r res w1 s t)
  then show ?thesis
    using grown_weaken [OF grown_call_row [OF ended(2)]] by simp
next
  case (served r response)
  then show ?thesis using grown_call [of w ctx r c] by (auto intro: grown_weaken)
next
  case (empty r response w1)
  have "grown 1 1 1 w (empty_row ctx c response (w_clock w) (next_no w) w1)"
    unfolding empty_row_def by (rule grown_call_row [OF empty(2)])
  from grown_trans [OF this grown_sleep] show ?thesis
    unfolding wait_again_state [OF empty(4)] by (rule grown_weaken) simp_all
next
  case (failed r err w1)
  have noted: "grown 1 1 1 w (note_failure ctx c err (classify err (w_truncated w1)) (w_clock w) (next_no w) w1)"
    by (rule grown_call_note [OF failed(2)])
  from failed(3) show ?thesis
  proof (cases rule: after_failure_cases)
    case (same e)
    with noted show ?thesis by (auto intro: grown_weaken)
  next
    case shorter
    with noted show ?thesis by (auto simp: grown_def)
  next
    case (waited ms)
    from grown_trans [OF noted grown_sleep] show ?thesis
      unfolding wait_again_state [OF waited(1)] by (rule grown_weaken) simp_all
  qed
qed

lemma try_candidate_grown: "grown left left (2 * left) w (snd (try_candidate ctx c left backoff_ms w))"
proof (induction left arbitrary: backoff_ms w)
  case (Suc left)
  obtain act v where step: "one_attempt ctx c left backoff_ms w = (act, v)"
    by (meson surj_pair)
  note one = one_attempt_grown [OF step]
  show ?case
  proof (cases act)
    case (Again ms)
    then show ?thesis
      using step grown_trans [OF one Suc.IH [of v ms]] by simp
  next
    case (Done e)
    then show ?thesis using step one by (auto intro: grown_weaken)
  qed
qed (simp add: grown_def)

lemma walk_grown: "grown (3 * length cs) (3 * length cs) (7 * length cs) w (snd (walk ctx cs w))"
proof (induction ctx cs w rule: walk.induct)
  case (2 ctx c cs w)
  have skip: "grown 0 1 0 v (skip_row ctx c s v)" for s v
    unfolding skip_row_def by (rule grown_row)
  have meanwhile: "grown 0 0 1 w (meanwhile ctx w)"
    by (simp add: grown_def)
  consider (twin) "twin_unarmed c w" | (skipped) "\<not> twin_unarmed c w" "health_skips ctx c cs (meanwhile ctx w)"
    | (tried) "\<not> twin_unarmed c w" "\<not> health_skips ctx c cs (meanwhile ctx w)"
    by blast
  then show ?case
  proof cases
    case twin
    then show ?thesis using grown_trans [OF skip "2.IH"(1) [OF twin]] by (auto intro: grown_weaken)
  next
    case skipped
    then show ?thesis
      using grown_trans [OF grown_trans [OF meanwhile skip] "2.IH"(2) [OF skipped(1) refl skipped(2)]]
      by (auto intro: grown_weaken)
  next
    case tried
    obtain e w2 where tries: "try_candidate ctx c (Suc CANDIDATE_RETRIES) CANDIDATE_BACKOFF_MS (meanwhile ctx w) = (e, w2)"
      by (meson surj_pair)
    have here: "grown 3 3 7 w w2"
      using grown_trans [OF meanwhile
          try_candidate_grown [of "Suc CANDIDATE_RETRIES" "meanwhile ctx w" ctx c CANDIDATE_BACKOFF_MS]]
      unfolding tries snd_conv by (rule grown_weaken) (simp_all add: CANDIDATE_RETRIES_def)
    have shape: "walk ctx (c # cs) w = (case e of NextCandidate \<Rightarrow> walk ctx cs w2
        | StopWalk \<Rightarrow> (WalkRefused (exhausted w2), w2) | EndWalk result \<Rightarrow> (result, w2))"
      using tried tries by (simp add: Let_def del: try_candidate.simps)
    show ?thesis
    proof (cases e)
      case NextCandidate
      then show ?thesis
        using shape grown_trans [OF here "2.IH"(3) [OF tried(1) refl tried(2) tries [symmetric] NextCandidate]]
        by simp
    qed (use shape here in \<open>auto intro: grown_weaken\<close>)
  qed
qed (simp add: grown_def)

text \<open>C8: A walk over \<open>n\<close> candidates always ends: it calls upstreams at most \<open>3 * n\<close> times, reads at
  most \<open>7 * n\<close> events, records at most \<open>3 * n\<close> rows, numbered one after the other from 1, and the time
  it accounts for never passes its deadline of 15 minutes.\<close>

theorem walk_is_bounded:
  "length (w_calls (snd (run_walk ctx registry messages cs))) \<le> 3 * length cs \<and>
   w_step (snd (run_walk ctx registry messages cs)) \<le> 7 * length cs \<and>
   length (wl_rows (w_ledger (snd (run_walk ctx registry messages cs)))) \<le> 3 * length cs \<and>
   rows_numbered (wl_rows (w_ledger (snd (run_walk ctx registry messages cs)))) \<and>
   w_clock (snd (run_walk ctx registry messages cs)) \<le> UPSTREAM_REQUEST_TIMEOUT"
proof -
  have start: "w_calls (walk_start registry messages) = []" "w_step (walk_start registry messages) = 0"
    "wl_rows (w_ledger (walk_start registry messages)) = []" "w_clock (walk_start registry messages) = 0"
    by (simp_all add: walk_start_def)
  have "grown (3 * length cs) (3 * length cs) (7 * length cs) (walk_start registry messages)
      (snd (run_walk ctx registry messages cs))"
    unfolding run_walk_def by (rule walk_grown)
  moreover have "rows_numbered (wl_rows (w_ledger (snd (run_walk ctx registry messages cs))))"
    by (rule numbered.run_keeps) (simp_all add: start rows_numbered_def)
  moreover have "w_clock (snd (run_walk ctx registry messages cs)) \<le> UPSTREAM_REQUEST_TIMEOUT"
    by (rule timed.run_keeps) (simp_all add: start)
  ultimately show ?thesis by (simp add: grown_def start)
qed

section \<open>Someone is called\<close>

interpretation armed: walk_invariant "\<lambda>_. True" "\<lambda>_ _. True"
  by unfold_locales simp_all

interpretation called: walk_invariant "\<lambda>_. True" "\<lambda>_ w. w_calls w \<noteq> []"
  by unfold_locales (auto simp: call_upstream_def Let_def)

definition untouched_walk :: "walk_state \<Rightarrow> bool" where
  "untouched_walk w \<longleftrightarrow> w_calls w = [] \<and> w_last w = None \<and> w_clock w < UPSTREAM_REQUEST_TIMEOUT"

lemma try_candidate_calls:
  assumes "untouched_walk w" "\<not> twin_unarmed c w" "try_candidate ctx c (Suc left) backoff_ms w = (e, v)"
  shows "w_calls v \<noteq> [] \<or> e = EndWalk (WalkRefused TerminalShutdown)"
proof -
  obtain r where r: "remaining_upstream_time w = Some r"
    using assms(1) by (simp add: untouched_walk_def remaining_upstream_time_def)
  obtain res w1 where call: "call_upstream ctx r c w = (res, w1)"
    by (cases "call_upstream ctx r c w")
  show ?thesis
  proof (cases "res = ShutdownBefore")
    case True
    then show ?thesis
      using assms(3) r call by (simp add: one_attempt_def after_call_def)
  next
    case False
    obtain act u where step: "one_attempt ctx c left backoff_ms w = (act, u)"
      by (meson surj_pair)
    have first: "w_calls w1 \<noteq> []"
      using call_upstream_calls [of ctx r c w] call False by simp
    from step have "w_calls u \<noteq> []"
    proof (cases rule: one_attempt_cases)
      case (empty r' response w1')
      then show ?thesis
        using call r first by (auto dest!: wait_again_state simp: empty_row_def)
    next
      case (failed r' err w1')
      then have calls: "w_calls w1' \<noteq> []"
        using call r first by simp
      from failed(3) calls show ?thesis
        by (cases rule: after_failure_cases) (auto dest: wait_again_state)
    qed (use call r first False in auto)
    moreover have "\<not> twin_unarmed c u"
      using armed.one_attempt_keeps [OF TrueI TrueI assms(2) step] by simp
    moreover have "v = u \<or> (\<exists>ms. v = snd (try_candidate ctx c left ms u))"
      using assms(3) step by (cases act) (simp, metis snd_conv, simp)
    ultimately show ?thesis
      using called.try_candidate_keeps [of u c ctx left] by auto
  qed
qed

lemma walk_calls:
  assumes "untouched_walk w" "cs \<noteq> []" "pc_fallback_for (last cs) = None"
    and "walk ctx cs w = (res, v)"
  shows "w_calls v \<noteq> [] \<or> res = WalkRefused TerminalShutdown"
  using assms
proof (induction ctx cs w rule: walk.induct)
  case (2 ctx c cs w)
  have skip: "untouched_walk u \<Longrightarrow> untouched_walk (skip_row ctx c s u)" for s u
    by (simp add: untouched_walk_def skip_row_def)
  have same: "untouched_walk (meanwhile ctx w)" "twin_unarmed c (meanwhile ctx w) = twin_unarmed c w"
    using "2.prems"(1) by (simp_all add: untouched_walk_def twin_unarmed_iff)
  consider (twin) "twin_unarmed c w" | (skipped) "\<not> twin_unarmed c w" "health_skips ctx c cs (meanwhile ctx w)"
    | (tried) "\<not> twin_unarmed c w" "\<not> health_skips ctx c cs (meanwhile ctx w)"
    by blast
  then show ?case
  proof cases
    case twin
    then have "cs \<noteq> []"
      using "2.prems"(3) by (auto simp: twin_unarmed_iff)
    then show ?thesis
      using "2.IH"(1) [OF twin skip [OF "2.prems"(1)]] "2.prems"(3,4) twin by simp
  next
    case skipped
    then have "cs \<noteq> []"
      using same(1) by (simp add: health_skips_def untouched_walk_def)
    then show ?thesis
      using "2.IH"(2) [OF skipped(1) refl skipped(2) skip [OF same(1)]] "2.prems"(3,4) skipped by simp
  next
    case tried
    obtain e u where tries: "try_candidate ctx c (Suc CANDIDATE_RETRIES) CANDIDATE_BACKOFF_MS (meanwhile ctx w) = (e, u)"
      by (meson surj_pair)
    have end_or_called: "w_calls u \<noteq> [] \<or> e = EndWalk (WalkRefused TerminalShutdown)"
      using try_candidate_calls [OF same(1) _ tries] same(2) tried(1) by simp
    have shape: "(res, v) = (case e of NextCandidate \<Rightarrow> walk ctx cs u
        | StopWalk \<Rightarrow> (WalkRefused (exhausted u), u) | EndWalk result \<Rightarrow> (result, u))"
      using "2.prems"(4) tried tries by (simp add: Let_def del: try_candidate.simps)
    show ?thesis
    proof (cases e)
      case NextCandidate
      then have "v = snd (walk ctx cs u)" "w_calls u \<noteq> []"
        using shape end_or_called by (simp_all, metis snd_conv)
      then show ?thesis using called.walk_keeps [of u cs ctx] by simp
    qed (use shape end_or_called in auto)
  qed
qed simp

text \<open>A walk over candidates the last of which is not a house twin calls at least one upstream before it
  gives up, however the health registry stands: only a shutdown ends it with nobody called.\<close>

theorem walk_calls_someone:
  assumes "cs \<noteq> []" "pc_fallback_for (last cs) = None" "run_walk ctx registry messages cs = (res, w)"
  shows "w_calls w \<noteq> [] \<or> res = WalkRefused TerminalShutdown"
proof -
  have "untouched_walk (walk_start registry messages)"
    by (simp add: untouched_walk_def walk_start_def UPSTREAM_REQUEST_TIMEOUT_def)
  from walk_calls [OF this assms(1,2) assms(3) [unfolded run_walk_def]] show ?thesis .
qed

text \<open>C39: On a route of a customer's candidate and its house twin, a demoted rung leaves nobody to call:
  the customer's candidate is skipped for its health because a candidate follows, and the twin for want
  of a failure, so the request fails although no upstream was asked.\<close>

theorem demoted_key_and_twin_never_called:
  assumes "pc_fallback_for c = None" "pc_fallback_for t = Some p"
    and "should_skip (wx_utc ctx) (we_registry (wx_events ctx 0) registry) (pc_definition c)"
  shows "fst (run_walk ctx registry messages [c, t]) = WalkRefused Exhausted \<and>
    w_calls (snd (run_walk ctx registry messages [c, t])) = []"
proof -
  let ?ctx = "ctx\<lparr> wx_total := 2 \<rparr>"
  let ?w = "walk_start registry messages"
  have "\<not> twin_unarmed c ?w" "health_skips ?ctx c [t] (meanwhile ?ctx ?w)"
    using assms by (simp_all add: twin_unarmed_iff health_skips_def walk_start_def meanwhile_def)
  moreover have "twin_unarmed t (skip_row ?ctx c ''health_skipped'' (meanwhile ?ctx ?w))"
    using assms(2) by (simp add: twin_unarmed_iff skip_row_def walk_start_def)
  ultimately show ?thesis
    by (simp add: run_walk_def numeral_2_eq_2 exhausted_def skip_row_def walk_start_def Let_def)
qed

definition quiet_event :: walk_event where
  "quiet_event = \<lparr> we_result = UpstreamFailed huge_retry_after, we_wait = 0, we_interrupted = False, we_registry = id \<rparr>"

definition demo_walk :: walk_context where
  "demo_walk = \<lparr> wx_decimal = exact_decimal, wx_parse_json = (\<lambda>_. None), wx_utc = 0,
     wx_events = (\<lambda>_. quiet_event), wx_total = 0 \<rparr>"

definition demo_rung :: "bool \<Rightarrow> string option \<Rightarrow> provider_candidate" where
  "demo_rung own twin = \<lparr> pc_definition = demo_candidate ''xai'' 2, pc_client = demo_client ''key'',
     pc_byok = own, pc_fallback_for = twin \<rparr>"

definition cooling :: health where
  "cooling = (\<lambda>_. Some (default_rung\<lparr> cooldown_until := Some 5 \<rparr>))"

lemma demo_skipped: "should_skip (wx_utc demo_walk) (we_registry (wx_events demo_walk 0) cooling) d"
  by (simp add: should_skip_def demo_walk_def quiet_event_def cooling_def rung_demoted_def)

lemma demoted_key_and_twin_never_called_witness:
  "fst (run_walk demo_walk cooling [] [demo_rung True None, demo_rung False (Some ''xai'')]) = WalkRefused Exhausted \<and>
   w_calls (snd (run_walk demo_walk cooling [] [demo_rung True None, demo_rung False (Some ''xai'')])) = []"
  by (rule demoted_key_and_twin_never_called [where p = "''xai''"]) (simp_all add: demo_rung_def demo_skipped)

definition silent_walk :: walk_context where
  "silent_walk = demo_walk\<lparr> wx_events := (\<lambda>_. quiet_event\<lparr> we_result := Elapsed \<rparr>) \<rparr>"

lemma silent_walk_ends: "fst (run_walk silent_walk cooling [] [demo_rung True None]) = WalkRefused TerminalTimeout"
  by (simp add: run_walk_def walk_start_def silent_walk_def demo_walk_def demo_rung_def quiet_event_def twin_unarmed_def health_skips_def meanwhile_def
    CANDIDATE_RETRIES_def one_attempt_def remaining_upstream_time_def UPSTREAM_REQUEST_TIMEOUT_def call_upstream_def after_call_def Let_def
    numeral_2_eq_2)

lemma walk_calls_someone_witness:
  "w_calls (snd (run_walk silent_walk cooling [] [demo_rung True None])) \<noteq> []"
  using walk_calls_someone [OF _ _ prod.collapse [symmetric], of "[demo_rung True None]" silent_walk cooling "[]"]
    silent_walk_ends by (simp add: demo_rung_def)

end
