(* ===== verification/Faults.thy ===== *)
theory Faults
  imports Walk
begin

text \<open>
  What a refused request is answered (\<^verbatim>\<open>router/src/error.rs\<close>): the kinds of refusal and the
  status, type, parameter and code of each; the texts of the messages are left out.
\<close>

datatype api_error =
    InvalidRequest
  | PriorityConflict
  | CacheControlUnsupported
  | CacheControlInvalid cache_control_fault
  | PromptCachingUnsupported string
  | PayloadTooLarge
  | Overloaded
  | RequestTimeout
  | UnsupportedRequestFields
  | UnsupportedRequestFieldsNamed string
  | ResponsesStoreUnsupported
  | ResponsesPreviousResponseUnsupported
  | ModalityUnsupported string string string
  | UnauthorizedKey
  | SpendCapExceeded
  | KeyCreditLimitReached
  | NoCreditsLeft
  | FrozenAccount
  | VelocityCapExceeded
  | ModelNotFound
  | ModelUnavailable string
  | TierCatalogUnavailable
  | DatabaseUnavailable
  | NoProviderAvailable
  | UpstreamUnavailable
  | UpstreamRejectedParameters string
  | RetentionAttestationFailed
  | NoZeroRetentionRoute
  | UpstreamTimeout
  | ServerShuttingDown
  | MeteringUnavailable

record error_parts =
  ep_status :: int
  ep_type :: string
  ep_param :: "string option"
  ep_code :: string

definition parts :: "int \<Rightarrow> string \<Rightarrow> string option \<Rightarrow> string \<Rightarrow> error_parts" where
  "parts code kind param name = \<lparr> ep_status = code, ep_type = kind, ep_param = param, ep_code = name \<rparr>"

fun response_parts :: "api_error \<Rightarrow> error_parts" where
  "response_parts InvalidRequest = parts 400 ''invalid_request_error'' None ''invalid_request''"
| "response_parts PriorityConflict =
     parts 400 ''invalid_request_error'' (Some ''zerorouter.priority'') ''priority_conflict''"
| "response_parts CacheControlUnsupported =
     parts 400 ''invalid_request_error'' (Some ''messages'') ''cache_control_unsupported''"
| "response_parts (CacheControlInvalid _) =
     parts 400 ''invalid_request_error'' (Some ''messages'') ''cache_control_invalid''"
| "response_parts (PromptCachingUnsupported _) =
     parts 400 ''invalid_request_error'' (Some ''messages'') ''prompt_caching_unsupported''"
| "response_parts PayloadTooLarge = parts 413 ''invalid_request_error'' None ''request_too_large''"
| "response_parts Overloaded = parts 503 ''server_error'' None ''server_overloaded''"
| "response_parts RequestTimeout = parts 408 ''invalid_request_error'' None ''request_timeout''"
| "response_parts UnsupportedRequestFields =
     parts 400 ''invalid_request_error'' None ''unsupported_request_fields''"
| "response_parts (UnsupportedRequestFieldsNamed _) =
     parts 400 ''invalid_request_error'' None ''unsupported_request_fields''"
| "response_parts ResponsesStoreUnsupported =
     parts 400 ''invalid_request_error'' (Some ''store'') ''responses_store_unsupported''"
| "response_parts ResponsesPreviousResponseUnsupported =
     parts 400 ''invalid_request_error'' (Some ''previous_response_id'') ''responses_previous_response_unsupported''"
| "response_parts (ModalityUnsupported _ _ _) =
     parts 400 ''invalid_request_error'' (Some ''messages'') ''modality_unsupported''"
| "response_parts UnauthorizedKey = parts 401 ''authentication_error'' None ''invalid_api_key''"
| "response_parts SpendCapExceeded = parts 402 ''billing_error'' None ''spend_cap_exceeded''"
| "response_parts KeyCreditLimitReached = parts 402 ''billing_error'' None ''key_credit_limit_exceeded''"
| "response_parts NoCreditsLeft = parts 402 ''billing_error'' None ''insufficient_credits''"
| "response_parts FrozenAccount = parts 402 ''billing_error'' None ''account_frozen''"
| "response_parts VelocityCapExceeded = parts 429 ''rate_limit_error'' None ''velocity_cap_exceeded''"
| "response_parts ModelNotFound = parts 404 ''invalid_request_error'' (Some ''model'') ''model_not_found''"
| "response_parts (ModelUnavailable _) = parts 503 ''server_error'' (Some ''model'') ''model_unavailable''"
| "response_parts TierCatalogUnavailable = parts 503 ''server_error'' None ''tier_catalog_unavailable''"
| "response_parts DatabaseUnavailable = parts 503 ''server_error'' None ''database_unavailable''"
| "response_parts NoProviderAvailable = parts 503 ''server_error'' None ''no_provider_available''"
| "response_parts UpstreamUnavailable = parts 502 ''server_error'' None ''upstream_unavailable''"
| "response_parts (UpstreamRejectedParameters _) =
     parts 400 ''invalid_request_error'' None ''upstream_rejected_parameters''"
| "response_parts RetentionAttestationFailed = parts 502 ''server_error'' None ''retention_attestation_failed''"
| "response_parts NoZeroRetentionRoute = parts 503 ''server_error'' (Some ''model'') ''no_zero_retention_route''"
| "response_parts UpstreamTimeout = parts 504 ''server_error'' None ''upstream_timeout''"
| "response_parts ServerShuttingDown = parts 503 ''server_error'' None ''server_shutting_down''"
| "response_parts MeteringUnavailable = parts 503 ''server_error'' None ''metering_unavailable''"

definition error_status :: "api_error \<Rightarrow> int" where
  "error_status e = ep_status (response_parts e)"

fun terminal_error :: "walk_terminal \<Rightarrow> api_error" where
  "terminal_error Exhausted = UpstreamUnavailable"
| "terminal_error TerminalAttestation = RetentionAttestationFailed"
| "terminal_error (ParameterRejected reason) = UpstreamRejectedParameters reason"
| "terminal_error TerminalTimeout = UpstreamTimeout"
| "terminal_error TerminalShutdown = ServerShuttingDown"

text \<open>The status a walk's end is metered under is the status it is answered with.\<close>

lemma terminal_status_answered: "error_status (terminal_error t) = terminal_status t"
  by (cases t) (simp_all add: error_status_def parts_def)

end
