(* ===== verification/Estimator.thy ===== *)
theory Estimator
  imports Floats Usage "HOL-Library.AList"
begin

text \<open>
  Learned output sizes (\<^verbatim>\<open>router/src/estimator.rs\<close> and the refresher of
  \<^verbatim>\<open>router/src/api.rs\<close>): the bound a warm cell gives a reservation, the cache of cells with its
  queue, and the marks that put a segment or a user back on cold sizing.

  Instants are seconds of a clock that does not go back.  A hash map is an association list and a hash
  set a list, in the order the container iterates; which order that is no result depends on.
\<close>

section \<open>The bound\<close>

definition WARM_MIN_ROWS :: int where
  "WARM_MIN_ROWS = 50"

definition CELL_TTL :: nat where
  "CELL_TTL = 5 * 60"

definition REFRESH_BATCH :: nat where
  "REFRESH_BATCH = 1024"

definition MAX_CELLS :: nat where
  "MAX_CELLS = 65536"

definition MAX_PENDING :: nat where
  "MAX_PENDING = 1024"

definition RESERVATION_HEADROOM :: f64 where
  "RESERVATION_HEADROOM = Fin (5 / 4)"

definition RESERVATION_FLOOR_FRACTION :: f64 where
  "RESERVATION_FLOOR_FRACTION = Fin (1 / 4)"

definition TAIL_GATE_RATIO :: f64 where
  "TAIL_GATE_RATIO = Fin 8"

definition REVERT_COOLDOWN :: nat where
  "REVERT_COOLDOWN = 7 * 24 * 60 * 60"

definition MAX_REVERT_MARKS :: nat where
  "MAX_REVERT_MARKS = 4096"

record cell_key =
  ck_signature :: string
  ck_scheme :: int
  ck_candidate :: "string option"

definition for_signature :: "task_signature \<Rightarrow> cell_key" where
  "for_signature s = \<lparr> ck_signature = hex s, ck_scheme = scheme s, ck_candidate = None \<rparr>"

definition for_candidate :: "task_signature \<Rightarrow> string \<Rightarrow> cell_key" where
  "for_candidate s cid = \<lparr> ck_signature = hex s, ck_scheme = scheme s, ck_candidate = Some cid \<rparr>"

record output_percentiles =
  p50 :: f64
  p90 :: f64
  p99 :: f64
  p_rows :: int

definition is_warm :: "output_percentiles \<Rightarrow> bool" where
  "is_warm p \<longleftrightarrow> WARM_MIN_ROWS \<le> p_rows p"

text \<open>\<^verbatim>\<open>f64::ceil\<close>, \<^verbatim>\<open>max\<close> and \<^verbatim>\<open>min\<close> (not a number gives way to the other operand), and the
  saturating cast to 32 bits.\<close>

fun f64_ceil :: "f64 \<Rightarrow> f64" where
  "f64_ceil (Fin x) = Fin (of_int \<lceil>x\<rceil>)"
| "f64_ceil x = x"

definition f64_max :: "f64 \<Rightarrow> f64 \<Rightarrow> f64" where
  "f64_max a b = (if a = NaN then b else if b = NaN then a else if f64_le a b then b else a)"

definition f64_min :: "f64 \<Rightarrow> f64 \<Rightarrow> f64" where
  "f64_min a b = (if a = NaN then b else if b = NaN then a else if f64_le a b then a else b)"

definition u32_max :: nat where
  "u32_max = 4294967295"

fun cast_u32 :: "f64 \<Rightarrow> nat" where
  "cast_u32 (Fin x) = min (nat \<lfloor>x\<rfloor>) u32_max"
| "cast_u32 Inf = u32_max"
| "cast_u32 NaN = 0"

definition learned_output_bound :: "output_percentiles \<Rightarrow> nat \<Rightarrow> nat option" where
  "learned_output_bound p requested_max =
     (if f64_le (p50 p) (Fin 0) \<or> f64_less TAIL_GATE_RATIO (f64_div (p99 p) (p50 p)) then None
      else
        let requested = Fin (of_nat requested_max);
            sized = f64_ceil (f64_mul (p99 p) RESERVATION_HEADROOM);
            floor = f64_ceil (f64_mul requested RESERVATION_FLOOR_FRACTION)
        in Some (cast_u32 (f64_min (f64_max sized floor) requested)))"

section \<open>The cache\<close>

datatype cell_read = Warm output_percentiles | ColdCell

record cached_cell =
  cc_fetched_at :: nat
  cc_measured :: "output_percentiles option"

record estimator =
  cells :: "(cell_key \<times> cached_cell) list"
  pending :: "cell_key list"
  reverted_segments :: "((string \<times> int) \<times> nat) list"
  reverted_users :: "(uuid \<times> nat) list"

definition empty_estimator :: estimator where
  "empty_estimator = \<lparr> cells = [], pending = [], reverted_segments = [], reverted_users = [] \<rparr>"

definition aged :: "nat \<Rightarrow> cached_cell \<Rightarrow> nat" where
  "aged now c = now - cc_fetched_at c"

definition enqueue :: "cell_key \<Rightarrow> estimator \<Rightarrow> estimator" where
  "enqueue k e =
     (if length (pending e) < MAX_PENDING then e\<lparr> pending := List.insert k (pending e) \<rparr> else e)"

definition lookup_cell :: "nat \<Rightarrow> cell_key \<Rightarrow> estimator \<Rightarrow> cell_read \<times> estimator" where
  "lookup_cell now k e =
     (case map_of (cells e) k of
        Some c \<Rightarrow>
          if aged now c \<le> CELL_TTL
          then (case cc_measured c of
                  Some m \<Rightarrow> if is_warm m then (Warm m, e) else (ColdCell, e)
                | None \<Rightarrow> (ColdCell, e))
          else (ColdCell, enqueue k e)
      | None \<Rightarrow> (ColdCell, enqueue k e))"

definition drain_pending :: "nat \<Rightarrow> estimator \<Rightarrow> cell_key list \<times> estimator" where
  "drain_pending limit e =
     (let ks = take limit (pending e) in
      (ks, e\<lparr> pending := List.filter (\<lambda>k. k \<notin> set ks) (pending e) \<rparr>))"

definition apply_cell :: "nat \<Rightarrow> cell_key \<Rightarrow> output_percentiles option \<Rightarrow> estimator \<Rightarrow> estimator" where
  "apply_cell now k measured e =
     (let full = MAX_CELLS \<le> length (cells e) \<and> map_of (cells e) k = None;
          kept = (if full then List.filter (\<lambda>(_, c). aged now c \<le> CELL_TTL) (cells e) else cells e)
      in if full \<and> MAX_CELLS \<le> length kept then e\<lparr> cells := kept \<rparr>
         else e\<lparr> cells := AList.update k \<lparr> cc_fetched_at = now, cc_measured = measured \<rparr> kept \<rparr>)"

definition mark :: "nat \<Rightarrow> 'k \<Rightarrow> ('k \<times> nat) list \<Rightarrow> ('k \<times> nat) list" where
  "mark now k marks =
     AList.update k (now + REVERT_COOLDOWN)
       (if MAX_REVERT_MARKS \<le> length marks then List.filter (\<lambda>(_, until). now < until) marks else marks)"

definition marked :: "nat \<Rightarrow> 'k \<Rightarrow> ('k \<times> nat) list \<Rightarrow> bool \<times> ('k \<times> nat) list" where
  "marked now k marks =
     (case map_of marks k of
        Some until \<Rightarrow> if now < until then (True, marks) else (False, AList.delete k marks)
      | None \<Rightarrow> (False, marks))"

definition revert_segment :: "nat \<Rightarrow> string \<Rightarrow> int \<Rightarrow> estimator \<Rightarrow> estimator" where
  "revert_segment now sig sch e = e\<lparr> reverted_segments := mark now (sig, sch) (reverted_segments e) \<rparr>"

definition revert_user :: "nat \<Rightarrow> uuid \<Rightarrow> estimator \<Rightarrow> estimator" where
  "revert_user now u e = e\<lparr> reverted_users := mark now u (reverted_users e) \<rparr>"

definition segment_reverted :: "nat \<Rightarrow> task_signature \<Rightarrow> estimator \<Rightarrow> bool \<times> estimator" where
  "segment_reverted now s e =
     (let (b, ms) = marked now (hex s, scheme s) (reverted_segments e) in (b, e\<lparr> reverted_segments := ms \<rparr>))"

definition user_reverted :: "nat \<Rightarrow> uuid \<Rightarrow> estimator \<Rightarrow> bool \<times> estimator" where
  "user_reverted now u e =
     (let (b, ms) = marked now u (reverted_users e) in (b, e\<lparr> reverted_users := ms \<rparr>))"

section \<open>The refresher\<close>

definition SEGMENT_LOSS_LIMIT_7D_USD :: rat where
  "SEGMENT_LOSS_LIMIT_7D_USD = 10"

definition ROW_LOSS_LIMIT_USD :: rat where
  "ROW_LOSS_LIMIT_USD = 1"

definition SEGMENT_HIT_RATE_LIMIT :: rat where
  "SEGMENT_HIT_RATE_LIMIT = nearest (5 / 1000)"

definition USER_LOSS_LIMIT_30D_USD :: rat where
  "USER_LOSS_LIMIT_30D_USD = 50"

record segment_clamp_stats =
  loss_7d_usd :: money
  max_row_loss_7d_usd :: money
  clamped_rows_7d :: nat
  learned_rows_7d :: nat
  loss_14d_usd :: money
  max_row_loss_14d_usd :: money
  clamped_rows_14d :: nat
  learned_rows_14d :: nat

text \<open>The nearest float of a decimal is the decimal library's, \<^verbatim>\<open>None\<close> where it has none.\<close>

definition decimal_to_f64 :: "(money \<Rightarrow> rat option) \<Rightarrow> money \<Rightarrow> f64" where
  "decimal_to_f64 to_f64 v = (case to_f64 v of None \<Rightarrow> Inf | Some x \<Rightarrow> Fin x)"

definition window_tripped :: "(money \<Rightarrow> rat option) \<Rightarrow> money \<Rightarrow> money \<Rightarrow> nat \<Rightarrow> nat \<Rightarrow> bool" where
  "window_tripped to_f64 loss max_row_loss clamped_rows learned_rows \<longleftrightarrow>
     (let hit_rate = f64_div (fl (of_nat clamped_rows)) (fl (of_nat learned_rows)) in
      f64_less (Fin SEGMENT_LOSS_LIMIT_7D_USD) (decimal_to_f64 to_f64 loss) \<or>
      f64_less (Fin ROW_LOSS_LIMIT_USD) (decimal_to_f64 to_f64 max_row_loss) \<or>
      f64_less (Fin SEGMENT_HIT_RATE_LIMIT) hit_rate)"

definition segment_tripped :: "(money \<Rightarrow> rat option) \<Rightarrow> segment_clamp_stats \<Rightarrow> bool" where
  "segment_tripped to_f64 s \<longleftrightarrow>
     window_tripped to_f64 (loss_7d_usd s) (max_row_loss_7d_usd s) (clamped_rows_7d s) (learned_rows_7d s) \<or>
     window_tripped to_f64 (loss_14d_usd s) (max_row_loss_14d_usd s) (clamped_rows_14d s) (learned_rows_14d s)"

text \<open>What the database and the clock answer while one key is refreshed; an outer \<^verbatim>\<open>None\<close> is a failed
  query.\<close>

record refresh_answers =
  ra_cancelled :: bool
  ra_now :: nat
  ra_measured :: "output_percentiles option option"
  ra_stats :: "segment_clamp_stats option"
  ra_user :: "uuid option option"
  ra_losses :: "(money \<times> money) option"

definition evaluate_revert ::
    "(money \<Rightarrow> rat option) \<Rightarrow> refresh_answers \<Rightarrow> cell_key \<Rightarrow> estimator \<Rightarrow> bool \<times> estimator" where
  "evaluate_revert to_f64 a k e =
     (case ra_stats a of
        None \<Rightarrow> (False, e)
      | Some stats \<Rightarrow>
          (let e1 = (if segment_tripped to_f64 stats
                     then revert_segment (ra_now a) (ck_signature k) (ck_scheme k) e else e) in
           case ra_user a of
             None \<Rightarrow> (False, e1)
           | Some None \<Rightarrow> (True, e1)
           | Some (Some u) \<Rightarrow>
               (case ra_losses a of
                  None \<Rightarrow> (False, e1)
                | Some (loss_30d, loss_rederive) \<Rightarrow>
                    (True,
                     if f64_less (Fin USER_LOSS_LIMIT_30D_USD) (decimal_to_f64 to_f64 loss_30d) \<or>
                        f64_less (Fin USER_LOSS_LIMIT_30D_USD) (decimal_to_f64 to_f64 loss_rederive)
                     then revert_user (ra_now a) u e1 else e1))))"

definition refresh_key ::
    "(money \<Rightarrow> rat option) \<Rightarrow> refresh_answers \<Rightarrow> cell_key \<Rightarrow> estimator \<Rightarrow> estimator" where
  "refresh_key to_f64 a k e =
     (case ra_measured a of
        None \<Rightarrow> enqueue k e
      | Some measured \<Rightarrow>
          (let (judged, e1) = (if ck_candidate k = None then evaluate_revert to_f64 a k e else (True, e)) in
           if judged then apply_cell (ra_now a) k measured e1 else enqueue k e1))"

fun refresh_keys ::
    "(money \<Rightarrow> rat option) \<Rightarrow> (nat \<Rightarrow> refresh_answers) \<Rightarrow> nat \<Rightarrow> cell_key list \<Rightarrow> estimator \<Rightarrow> estimator" where
  "refresh_keys to_f64 ask i [] e = e"
| "refresh_keys to_f64 ask i (k # ks) e =
     (if ra_cancelled (ask i) then e
      else refresh_keys to_f64 ask (Suc i) ks (refresh_key to_f64 (ask i) k e))"

definition refresh_estimator_batch ::
    "(money \<Rightarrow> rat option) \<Rightarrow> (nat \<Rightarrow> refresh_answers) \<Rightarrow> estimator \<Rightarrow> estimator" where
  "refresh_estimator_batch to_f64 ask e =
     (let (ks, e1) = drain_pending REFRESH_BATCH e in refresh_keys to_f64 ask 0 ks e1)"

section \<open>The learned bound\<close>

lemma f64_less_Fin: "f64_less (Fin a) (Fin b) \<longleftrightarrow> a < b"
  by (auto simp: f64_less_def)

lemma quarter_exact: "m < 2 ^ 53 \<Longrightarrow> f64_mul (Fin (of_nat m)) RESERVATION_FLOOR_FRACTION = Fin (of_nat m / 4)"
proof -
  assume m: "m < 2 ^ 53"
  then have "(of_nat m :: rat) \<le> of_nat (2 ^ 53)"
    by (simp only: of_nat_le_iff)
  then have small: "(of_nat m :: rat) / 4 \<le> 2 ^ 1000"
    by simp
  have "nearest (of_nat m / 4) = of_nat m / 4"
    using nearest_float [OF m, of "- 2"] by (simp add: pow2_def)
  then show ?thesis
    using fl_Fin [OF _ small] by (simp add: RESERVATION_FLOOR_FRACTION_def)
qed

lemma f64_max_ge: "f64_max a (Fin x) = Inf \<or> (\<exists>y. f64_max a (Fin x) = Fin y \<and> x \<le> y)"
  by (cases a) (auto simp: f64_max_def)

lemma f64_min_clamp: "f64_min Inf (Fin r) = Fin r" "f64_min (Fin y) (Fin r) = Fin (min y r)"
  by (auto simp: f64_min_def min_def)

text \<open>C9: The output a warm cell lets a reservation hold never exceeds what the customer asked for and
  never falls below a quarter of it, whatever the percentiles are, infinities and not-a-number
  included.\<close>

theorem learned_bound_within:
  assumes "learned_output_bound p requested_max = Some b" "requested_max \<le> u32_max"
  shows "b \<le> requested_max \<and> requested_max \<le> 4 * b"
proof -
  let ?r = "of_nat requested_max :: rat"
  let ?sized = "f64_ceil (f64_mul (p99 p) RESERVATION_HEADROOM)"
  let ?floor = "of_int \<lceil>?r / 4\<rceil> :: rat"
  have "f64_ceil (f64_mul (Fin ?r) RESERVATION_FLOOR_FRACTION) = Fin ?floor"
    using assms(2) by (simp add: quarter_exact u32_max_def)
  then have b: "b = cast_u32 (f64_min (f64_max ?sized (Fin ?floor)) (Fin ?r))"
    using assms(1) by (auto simp: learned_output_bound_def Let_def split: if_splits)
  have quarter: "requested_max \<le> 4 * nat \<lceil>?r / 4\<rceil>"
  proof -
    have "?r / 4 \<le> of_int \<lceil>?r / 4\<rceil>"
      by (rule le_of_int_ceiling)
    then have "?r \<le> 4 * of_int \<lceil>?r / 4\<rceil>"
      by linarith
    then have "?r \<le> of_int (4 * \<lceil>?r / 4\<rceil>)"
      by (simp only: of_int_mult of_int_numeral)
    then have "int requested_max \<le> 4 * \<lceil>?r / 4\<rceil>"
      by (metis of_int_le_iff of_int_of_nat_eq)
    then show ?thesis by linarith
  qed
  have le: "\<lceil>?r / 4\<rceil> \<le> int requested_max"
    by (simp add: ceiling_le_iff)
  from f64_max_ge [of ?sized ?floor] show ?thesis
  proof
    assume "f64_max ?sized (Fin ?floor) = Inf"
    with b assms(2) show ?thesis
      by (simp add: f64_min_clamp min_def)
  next
    assume "\<exists>y. f64_max ?sized (Fin ?floor) = Fin y \<and> ?floor \<le> y"
    then obtain y where y: "f64_max ?sized (Fin ?floor) = Fin y" "?floor \<le> y"
      by blast
    then have cast: "b = min (nat \<lfloor>min y ?r\<rfloor>) u32_max"
      by (simp add: b f64_min_clamp)
    have "\<lfloor>min y ?r\<rfloor> \<le> \<lfloor>?r\<rfloor>"
      by (rule floor_mono) simp
    then have upper: "nat \<lfloor>min y ?r\<rfloor> \<le> requested_max"
      by simp
    have "?floor \<le> min y ?r"
      using y(2) le by (simp add: of_int_le_iff [symmetric, where 'a = rat])
    then have "\<lceil>?r / 4\<rceil> \<le> \<lfloor>min y ?r\<rfloor>"
      by (simp add: le_floor_iff)
    then have "nat \<lceil>?r / 4\<rceil> \<le> nat \<lfloor>min y ?r\<rfloor>"
      by (rule nat_mono)
    with upper quarter cast assms(2) show ?thesis
      by (simp add: min_def)
  qed
qed

definition demo_percentiles :: output_percentiles where
  "demo_percentiles = \<lparr> p50 = Fin 100, p90 = Inf, p99 = NaN, p_rows = 60 \<rparr>"

lemma demo_learned: "learned_output_bound demo_percentiles 4096 = Some 1024"
  using quarter_exact [of 4096]
  by (simp add: learned_output_bound_def demo_percentiles_def TAIL_GATE_RATIO_def f64_less_def
      RESERVATION_HEADROOM_def f64_max_def f64_min_def u32_max_def)

lemma learned_bound_within_witness:
  "learned_output_bound demo_percentiles 4096 = Some 1024 \<and> (1024 :: nat) \<le> 4096 \<and> (4096 :: nat) \<le> 4 * 1024"
  using learned_bound_within [OF demo_learned] demo_learned by (simp add: u32_max_def)

section \<open>The cache stays well formed\<close>

datatype estimator_op =
    LookUp nat cell_key
  | Enqueue cell_key
  | Refresh "nat \<Rightarrow> refresh_answers"
  | AskSegment nat task_signature
  | AskUser nat uuid

fun estimator_run :: "(money \<Rightarrow> rat option) \<Rightarrow> estimator_op \<Rightarrow> estimator \<Rightarrow> estimator" where
  "estimator_run to_f64 (LookUp now k) e = snd (lookup_cell now k e)"
| "estimator_run to_f64 (Enqueue k) e = enqueue k e"
| "estimator_run to_f64 (Refresh ask) e = refresh_estimator_batch to_f64 ask e"
| "estimator_run to_f64 (AskSegment now s) e = snd (segment_reverted now s e)"
| "estimator_run to_f64 (AskUser now u) e = snd (user_reverted now u e)"

definition estimator_ok :: "estimator \<Rightarrow> bool" where
  "estimator_ok e \<longleftrightarrow>
     distinct (List.map fst (cells e)) \<and> length (cells e) \<le> MAX_CELLS \<and>
     distinct (pending e) \<and> length (pending e) \<le> MAX_PENDING \<and>
     distinct (List.map fst (reverted_segments e)) \<and> distinct (List.map fst (reverted_users e))"

lemma distinct_map_filter: "distinct (List.map f xs) \<Longrightarrow> distinct (List.map f (List.filter P xs))"
  by (induction xs) auto

lemma length_update: "length (AList.update k v m) \<le> Suc (length m)"
  by (induction m) auto

lemma length_update_known: "map_of m k \<noteq> None \<Longrightarrow> length (AList.update k v m) = length m"
  by (induction m) (auto split: if_splits)

lemma enqueue_ok: "estimator_ok e \<Longrightarrow> estimator_ok (enqueue k e)"
  by (auto simp: estimator_ok_def enqueue_def List.insert_def)

lemma lookup_ok: "estimator_ok e \<Longrightarrow> estimator_ok (snd (lookup_cell now k e))"
  by (auto simp: lookup_cell_def enqueue_ok split: option.splits)

lemma drain_ok: "estimator_ok e \<Longrightarrow> estimator_ok (snd (drain_pending limit e))"
  by (auto simp: estimator_ok_def drain_pending_def Let_def intro: le_trans [OF length_filter_le])

lemma apply_ok:
  assumes "estimator_ok e"
  shows "estimator_ok (apply_cell now k measured e)"
proof -
  let ?full = "MAX_CELLS \<le> length (cells e) \<and> map_of (cells e) k = None"
  define kept where "kept = (if ?full then List.filter (\<lambda>(_, c). aged now c \<le> CELL_TTL) (cells e) else cells e)"
  have kept: "distinct (List.map fst kept)" "length kept \<le> MAX_CELLS"
    using assms by (auto simp: kept_def estimator_ok_def distinct_map_filter intro: le_trans [OF length_filter_le])
  let ?c = "\<lparr> cc_fetched_at = now, cc_measured = measured \<rparr>"
  show ?thesis
  proof (cases "?full \<and> MAX_CELLS \<le> length kept")
    case True
    then have "apply_cell now k measured e = e\<lparr> cells := kept \<rparr>"
      unfolding apply_cell_def Let_def kept_def [symmetric] by (simp only: if_True simp_thms)
    with kept assms show ?thesis by (simp add: estimator_ok_def)
  next
    case False
    then have shape: "apply_cell now k measured e = e\<lparr> cells := AList.update k ?c kept \<rparr>"
      unfolding apply_cell_def Let_def kept_def [symmetric] by (simp only: if_False simp_thms)
    have "length (AList.update k ?c kept) \<le> MAX_CELLS"
    proof (cases "?full")
      case True
      with False show ?thesis using length_update [of k ?c kept] by simp
    next
      case False
      then have room: "length (cells e) < MAX_CELLS \<or> map_of (cells e) k \<noteq> None" and same: "kept = cells e"
        by (auto simp: kept_def)
      from room show ?thesis
      proof
        assume "length (cells e) < MAX_CELLS"
        then show ?thesis using length_update [of k ?c kept] same by simp
      next
        assume "map_of (cells e) k \<noteq> None"
        then show ?thesis using length_update_known [of kept k ?c] same kept(2) by simp
      qed
    qed
    with kept assms show ?thesis
      by (simp add: shape estimator_ok_def distinct_update)
  qed
qed

lemma mark_distinct: "distinct (List.map fst m) \<Longrightarrow> distinct (List.map fst (mark now k m))"
  by (simp add: mark_def distinct_update distinct_map_filter)

lemma marked_distinct: "distinct (List.map fst m) \<Longrightarrow> distinct (List.map fst (snd (marked now k m)))"
  by (auto simp: marked_def distinct_delete split: option.splits)

lemma revert_ok:
  "estimator_ok e \<Longrightarrow> estimator_ok (revert_segment now sig sch e)"
  "estimator_ok e \<Longrightarrow> estimator_ok (revert_user now u e)"
  by (simp_all add: estimator_ok_def revert_segment_def revert_user_def mark_distinct)

lemma reverted_ok:
  "estimator_ok e \<Longrightarrow> estimator_ok (snd (segment_reverted now s e))"
  "estimator_ok e \<Longrightarrow> estimator_ok (snd (user_reverted now u e))"
  by (simp_all add: estimator_ok_def segment_reverted_def user_reverted_def case_prod_beta marked_distinct)

lemma evaluate_revert_ok: "estimator_ok e \<Longrightarrow> estimator_ok (snd (evaluate_revert to_f64 a k e))"
  by (auto simp: evaluate_revert_def Let_def revert_ok split: option.splits)

lemma refresh_key_ok: "estimator_ok e \<Longrightarrow> estimator_ok (refresh_key to_f64 a k e)"
  using evaluate_revert_ok [of e to_f64 a k]
  by (auto simp: refresh_key_def Let_def enqueue_ok apply_ok split: option.splits prod.splits if_splits)

lemma refresh_keys_ok: "estimator_ok e \<Longrightarrow> estimator_ok (refresh_keys to_f64 ask i ks e)"
  by (induction to_f64 ask i ks e rule: refresh_keys.induct) (simp_all add: refresh_key_ok)

lemma estimator_run_ok: "estimator_ok e \<Longrightarrow> estimator_ok (estimator_run to_f64 p e)"
  using drain_ok [of e REFRESH_BATCH]
  by (cases p) (simp_all add: lookup_ok enqueue_ok reverted_ok refresh_estimator_batch_def refresh_keys_ok
      case_prod_beta)

text \<open>Whatever sequence of lookups, enqueues, refresh rounds and revert checks runs, the cache holds
  one cell for a key and at most 65536 of them, the queue one entry for a key and at most 1024, and the
  revert marks one instant for a segment or a user.\<close>

theorem estimator_well_formed: "estimator_ok (fold (estimator_run to_f64) ps empty_estimator)"
proof -
  have "estimator_ok e \<Longrightarrow> estimator_ok (fold (estimator_run to_f64) ps e)" for e
    by (induction ps arbitrary: e) (simp_all add: estimator_run_ok)
  moreover have "estimator_ok empty_estimator"
    by (simp add: estimator_ok_def empty_estimator_def)
  ultimately show ?thesis by blast
qed

section \<open>A reverted segment stays reverted\<close>

fun op_within :: "nat \<Rightarrow> nat \<Rightarrow> estimator_op \<Rightarrow> bool" where
  "op_within lo hi (LookUp now k) \<longleftrightarrow> lo \<le> now \<and> now < hi"
| "op_within lo hi (Enqueue k) \<longleftrightarrow> True"
| "op_within lo hi (Refresh ask) \<longleftrightarrow> (\<forall>i. lo \<le> ra_now (ask i) \<and> ra_now (ask i) < hi)"
| "op_within lo hi (AskSegment now s) \<longleftrightarrow> lo \<le> now \<and> now < hi"
| "op_within lo hi (AskUser now u) \<longleftrightarrow> lo \<le> now \<and> now < hi"

definition marked_until :: "nat \<Rightarrow> 'k \<Rightarrow> ('k \<times> nat) list \<Rightarrow> bool" where
  "marked_until t k marks \<longleftrightarrow> (\<exists>u. map_of marks k = Some u \<and> t \<le> u)"

lemma map_of_filter_kept:
  "map_of m k = Some v \<Longrightarrow> P (k, v) \<Longrightarrow> map_of (List.filter P m) k = Some v"
  by (induction m) (auto split: if_splits)

lemma mark_keeps:
  assumes "marked_until (t + REVERT_COOLDOWN) k m" "t \<le> now" "now < t + REVERT_COOLDOWN"
  shows "marked_until (t + REVERT_COOLDOWN) k (mark now k' m)"
proof -
  from assms(1) obtain u where u: "map_of m k = Some u" "t + REVERT_COOLDOWN \<le> u"
    by (auto simp: marked_until_def)
  then have "map_of (List.filter (\<lambda>(_, until). now < until) m) k = Some u"
    using assms(3) by (intro map_of_filter_kept) auto
  with u assms(2) show ?thesis
    by (auto simp: marked_until_def mark_def update_conv')
qed

lemma mark_sets: "marked_until (now + REVERT_COOLDOWN) k (mark now k m)"
  by (simp add: marked_until_def mark_def update_conv')

lemma marked_keeps:
  assumes "marked_until (t + REVERT_COOLDOWN) k m" "now < t + REVERT_COOLDOWN"
  shows "marked_until (t + REVERT_COOLDOWN) k (snd (marked now k' m))"
  using assms by (auto simp: marked_until_def marked_def delete_conv' split: option.splits)

lemma marked_true: "marked_until (t + REVERT_COOLDOWN) k m \<Longrightarrow> now < t + REVERT_COOLDOWN \<Longrightarrow> fst (marked now k m)"
  by (auto simp: marked_until_def marked_def)

lemma enqueue_marks [simp]: "reverted_segments (enqueue k e) = reverted_segments e"
  by (simp add: enqueue_def)

lemma lookup_marks [simp]: "reverted_segments (snd (lookup_cell now k e)) = reverted_segments e"
  by (auto simp: lookup_cell_def split: option.splits)

lemma apply_marks [simp]: "reverted_segments (apply_cell now k m e) = reverted_segments e"
  by (simp add: apply_cell_def Let_def)

lemma drain_marks [simp]: "reverted_segments (snd (drain_pending l e)) = reverted_segments e"
  by (simp add: drain_pending_def Let_def)

lemma revert_user_marks [simp]: "reverted_segments (revert_user now u e) = reverted_segments e"
  by (simp add: revert_user_def)

lemma revert_segment_marks [simp]:
  "reverted_segments (revert_segment now sig sch e) = mark now (sig, sch) (reverted_segments e)"
  by (simp add: revert_segment_def)

lemma evaluate_revert_marks:
  "reverted_segments (snd (evaluate_revert to_f64 a k e)) \<in>
     {reverted_segments e, mark (ra_now a) (ck_signature k, ck_scheme k) (reverted_segments e)}"
  by (auto simp: evaluate_revert_def Let_def split: option.splits)

lemma refresh_key_marks:
  "reverted_segments (refresh_key to_f64 a k e) \<in>
     {reverted_segments e, mark (ra_now a) (ck_signature k, ck_scheme k) (reverted_segments e)}"
  using evaluate_revert_marks [of to_f64 a k e]
  by (auto simp: refresh_key_def Let_def split: option.splits prod.splits if_splits)

lemma refresh_keys_keeps:
  assumes "marked_until (t + REVERT_COOLDOWN) s (reverted_segments e)"
    and "\<forall>i. t \<le> ra_now (ask i) \<and> ra_now (ask i) < t + REVERT_COOLDOWN"
  shows "marked_until (t + REVERT_COOLDOWN) s (reverted_segments (refresh_keys to_f64 ask i ks e))"
  using assms(1)
proof (induction ks arbitrary: i e)
  case (Cons k ks)
  have "marked_until (t + REVERT_COOLDOWN) s (reverted_segments (refresh_key to_f64 (ask i) k e))"
    using refresh_key_marks [of to_f64 "ask i" k e] mark_keeps [OF Cons.prems] assms(2) Cons.prems
    by auto
  then show ?case
    using Cons by simp
qed simp

lemma estimator_run_keeps:
  assumes "marked_until (t + REVERT_COOLDOWN) s (reverted_segments e)" "op_within t (t + REVERT_COOLDOWN) p"
  shows "marked_until (t + REVERT_COOLDOWN) s (reverted_segments (estimator_run to_f64 p e))"
proof (cases p)
  case (Refresh ask)
  then show ?thesis
    using refresh_keys_keeps [of t s "snd (drain_pending REFRESH_BATCH e)" ask to_f64 0] assms
    by (simp add: refresh_estimator_batch_def case_prod_beta)
next
  case (AskSegment now x)
  then show ?thesis
    using marked_keeps [OF assms(1)] assms(2) by (simp add: segment_reverted_def case_prod_beta)
next
  case (AskUser now u)
  then show ?thesis
    using assms(1) by (simp add: user_reverted_def case_prod_beta)
qed (use assms in simp_all)

text \<open>C10: Once the losses of a segment trip its limits, the segment answers as reverted for the whole
  cooldown of seven days, whatever other lookups, refresh rounds and revert checks happen in between.\<close>

theorem tripped_segment_stays_cold:
  assumes "ra_measured a = Some measured" "ra_stats a = Some stats" "segment_tripped to_f64 stats"
    and "list_all (op_within (ra_now a) (ra_now a + REVERT_COOLDOWN)) ps"
    and "now < ra_now a + REVERT_COOLDOWN"
  shows "fst (segment_reverted now s
           (fold (estimator_run to_f64) ps (refresh_key to_f64 a (for_signature s) e)))"
proof -
  let ?k = "(hex s, scheme s)"
  have run: "marked_until (ra_now a + REVERT_COOLDOWN) ?k (reverted_segments (fold (estimator_run to_f64) ps f))"
    if "marked_until (ra_now a + REVERT_COOLDOWN) ?k (reverted_segments f)" for f
    using that assms(4) by (induction ps arbitrary: f) (simp_all add: estimator_run_keeps)
  have "reverted_segments (refresh_key to_f64 a (for_signature s) e) = mark (ra_now a) ?k (reverted_segments e)"
    using assms(1,2,3)
    by (auto simp: refresh_key_def evaluate_revert_def for_signature_def Let_def split: option.splits)
  then have "marked_until (ra_now a + REVERT_COOLDOWN) ?k
      (reverted_segments (refresh_key to_f64 a (for_signature s) e))"
    by (simp add: mark_sets)
  from marked_true [OF run [OF this] assms(5)] show ?thesis
    by (simp add: segment_reverted_def case_prod_beta)
qed

definition demo_stats :: segment_clamp_stats where
  "demo_stats = \<lparr> loss_7d_usd = 11, max_row_loss_7d_usd = 0, clamped_rows_7d = 0, learned_rows_7d = 0,
     loss_14d_usd = 11, max_row_loss_14d_usd = 0, clamped_rows_14d = 0, learned_rows_14d = 0 \<rparr>"

definition demo_answers :: refresh_answers where
  "demo_answers = \<lparr> ra_cancelled = False, ra_now = 100, ra_measured = Some None, ra_stats = Some demo_stats,
     ra_user = Some None, ra_losses = None \<rparr>"

lemma demo_tripped: "segment_tripped Some demo_stats"
  by (simp add: segment_tripped_def window_tripped_def demo_stats_def Let_def decimal_to_f64_def
      f64_less_Fin SEGMENT_LOSS_LIMIT_7D_USD_def)

lemma tripped_segment_stays_cold_witness:
  "fst (segment_reverted 5000 \<lparr> hex = ''aa'', scheme = 2, tool_names_sha256 = ''bb'' \<rparr>
     (fold (estimator_run Some) [Enqueue \<lparr> ck_signature = ''cc'', ck_scheme = 2, ck_candidate = None \<rparr>]
        (refresh_key Some demo_answers (for_signature \<lparr> hex = ''aa'', scheme = 2, tool_names_sha256 = ''bb'' \<rparr>)
          empty_estimator)))"
  by (rule tripped_segment_stays_cold [where measured = None and stats = demo_stats])
    (simp_all add: demo_tripped demo_answers_def REVERT_COOLDOWN_def)

end
