(* ===== verification/Selection.thy ===== *)
theory Selection
  imports Faults Estimator
begin

text \<open>
  From a decoded request to the ordered route its walk goes down (\<^verbatim>\<open>router/src/api.rs\<close>): which
  model and priority it asked for, which candidates it may use, and in which order they are tried.
\<close>

section \<open>Model and priority\<close>

definition split_priority_suffix :: "string \<Rightarrow> (string \<times> priority) option" where
  "split_priority_suffix model =
     (case rsplit_once (CHR 0x3A) model of
        None \<Rightarrow> None
      | Some (bare, keyword) \<Rightarrow>
          (case priority_from_keyword keyword of
             None \<Rightarrow> None
           | Some p \<Rightarrow> if bare \<noteq> [] then Some (bare, p) else None))"

definition resolve_model :: "tier_catalog \<Rightarrow> bool \<Rightarrow> string \<Rightarrow> resolved_route option" where
  "resolve_model cat unified_ids_enabled model =
     or_else (catalog_resolve cat model) (if unified_ids_enabled then resolve_unified cat model else None)"

definition model_unresolvable :: "tier_catalog \<Rightarrow> string \<Rightarrow> api_error" where
  "model_unresolvable cat requested =
     (case unavailable_for cat requested of None \<Rightarrow> ModelNotFound | Some u \<Rightarrow> ModelUnavailable (ut_tier u))"

definition resolve_requested ::
    "tier_catalog \<Rightarrow> bool \<Rightarrow> string \<Rightarrow> (api_error, resolved_route \<times> priority option) result" where
  "resolve_requested cat unified_ids_enabled model =
     (case resolve_model cat unified_ids_enabled model of
        Some r \<Rightarrow> Inr (r, None)
      | None \<Rightarrow>
          (case split_priority_suffix model of
             Some (bare, p) \<Rightarrow>
               (case resolve_model cat unified_ids_enabled bare of
                  Some r \<Rightarrow> Inr (r, Some p)
                | None \<Rightarrow> Inl (model_unresolvable cat bare))
           | None \<Rightarrow> Inl (model_unresolvable cat model)))"

record priority_resolution =
  pr_resolved :: priority
  pr_engaged :: bool

definition priority_resolution_new :: "priority option \<Rightarrow> priority_resolution" where
  "priority_resolution_new p =
     \<lparr> pr_resolved = (case p of None \<Rightarrow> Balanced | Some q \<Rightarrow> q), pr_engaged = (p \<noteq> None) \<rparr>"

definition resolve_priority ::
    "priority option option \<Rightarrow> priority option \<Rightarrow> priority option \<Rightarrow> (api_error, priority_resolution) result" where
  "resolve_priority options from_name key_default =
     (let typed = Option.bind options (\<lambda>p. p) in
      case (typed, from_name) of
        (Some t, Some s) \<Rightarrow>
          if t \<noteq> s then Inl PriorityConflict
          else Inr (priority_resolution_new (or_else (or_else typed from_name) key_default))
      | _ \<Rightarrow> Inr (priority_resolution_new (or_else (or_else typed from_name) key_default)))"

section \<open>Capabilities and retention\<close>

definition takes_image :: "tier_candidate \<Rightarrow> bool" where
  "takes_image c \<longleftrightarrow>
     (case md_input_modalities (c_metadata c) of None \<Rightarrow> True | Some declared_kinds \<Rightarrow> ''image'' \<in> set declared_kinds)"

definition unservable_modality :: "chat_completion_request \<Rightarrow> resolved_route \<Rightarrow> api_error option" where
  "unservable_modality r resolved =
     (if ''image'' \<notin> set (n_modalities (needs r 0)) then None
      else if list_ex takes_image (rr_candidates resolved) then None
      else
        let accepted = (case rr_candidates resolved of
              [] \<Rightarrow> ''text''
            | c # _ \<Rightarrow> (case md_input_modalities (c_metadata c) of
                None \<Rightarrow> ''text'' | Some declared_kinds \<Rightarrow> join '', '' declared_kinds))
        in Some (ModalityUnsupported (rr_requested_model resolved) ''image'' accepted))"

definition sells_caching :: "tier_candidate \<Rightarrow> bool" where
  "sells_caching c \<longleftrightarrow> schedule_prices_cache_writes (c_rates c)"

definition unservable_prompt_caching :: "resolved_route \<Rightarrow> api_error option" where
  "unservable_prompt_caching resolved =
     (if list_ex sells_caching (rr_candidates resolved) then None
      else Some (PromptCachingUnsupported (rr_requested_model resolved)))"

definition keep_caching :: "nat \<Rightarrow> resolved_route \<Rightarrow> (api_error, resolved_route) result" where
  "keep_caching breakpoints resolved =
     (if breakpoints = 0 then Inr resolved
      else case unservable_prompt_caching resolved of
             Some e \<Rightarrow> Inl e
           | None \<Rightarrow> Inr (resolved\<lparr> rr_candidates := List.filter sells_caching (rr_candidates resolved) \<rparr>))"

definition keep_permitted :: "retention_policy \<Rightarrow> resolved_route \<Rightarrow> (api_error, resolved_route) result" where
  "keep_permitted policy resolved =
     (if \<not> rr_routed resolved then Inr resolved
      else
        let eligible = List.map fst (List.filter (\<lambda>(_, posture). permits policy posture) (rr_retention resolved));
            kept = List.filter (\<lambda>c. c_id c \<in> set eligible) (rr_candidates resolved)
        in if kept = [] then Inl NoZeroRetentionRoute else Inr (resolved\<lparr> rr_candidates := kept \<rparr>))"

definition transparency_labels :: "resolved_route \<Rightarrow> string \<Rightarrow> bool \<Rightarrow> string option" where
  "transparency_labels resolved candidate byok =
     (if byok then Some ''byok'' else map_option wire_token (retention_posture_of resolved candidate))"

definition candidate_label :: "resolved_route \<Rightarrow> provider_candidate \<Rightarrow> (string \<times> bool \<times> string) option" where
  "candidate_label resolved c =
     map_option (\<lambda>retention. (c_provider (pc_definition c), pc_byok c, retention))
       (transparency_labels resolved (c_id (pc_definition c)) (pc_byok c))"

definition unanimous_transparency ::
    "resolved_route \<Rightarrow> provider_candidate list \<Rightarrow> (string \<times> bool \<times> string) option" where
  "unanimous_transparency resolved cs =
     (case cs of
        [] \<Rightarrow> None
      | c # rest \<Rightarrow>
          (case candidate_label resolved c of
             None \<Rightarrow> None
           | Some first \<Rightarrow>
               if list_all (\<lambda>x. candidate_label resolved x = Some first) rest then Some first else None))"

definition free_lane_admissible :: "inventory \<Rightarrow> resolved_route \<Rightarrow> provider_candidate list \<Rightarrow> bool" where
  "free_lane_admissible entries resolved cs \<longleftrightarrow>
     sells_free resolved \<and> cs \<noteq> [] \<and> list_all (\<lambda>c. is_free entries (pc_definition c)) cs"

section \<open>Order\<close>

text \<open>The total order of floats: every number, then infinity, then not-a-number.\<close>

instantiation f64 :: linorder
begin

fun less_eq_f64 :: "f64 \<Rightarrow> f64 \<Rightarrow> bool" where
  "less_eq_f64 (Fin a) (Fin b) \<longleftrightarrow> a \<le> b"
| "less_eq_f64 (Fin a) _ \<longleftrightarrow> True"
| "less_eq_f64 Inf (Fin b) \<longleftrightarrow> False"
| "less_eq_f64 Inf _ \<longleftrightarrow> True"
| "less_eq_f64 NaN NaN \<longleftrightarrow> True"
| "less_eq_f64 NaN _ \<longleftrightarrow> False"

definition less_f64 :: "f64 \<Rightarrow> f64 \<Rightarrow> bool" where
  "less_f64 a b \<longleftrightarrow> a \<le> b \<and> \<not> b \<le> (a :: f64)"

instance
proof
  fix x y z :: f64
  show "x < y \<longleftrightarrow> x \<le> y \<and> \<not> y \<le> x" by (simp add: less_f64_def)
  show "x \<le> x" by (cases x) simp_all
  show "x \<le> y \<Longrightarrow> y \<le> z \<Longrightarrow> x \<le> z" by (cases x; cases y; cases z) simp_all
  show "x \<le> y \<Longrightarrow> y \<le> x \<Longrightarrow> x = y" by (cases x; cases y) simp_all
  show "x \<le> y \<or> y \<le> x" by (cases x; cases y) auto
qed

end

definition partition_route_by_retention ::
    "(string \<times> retention_posture) list \<Rightarrow> provider_candidate list \<Rightarrow> provider_candidate list" where
  "partition_route_by_retention retention cs =
     sort_key (\<lambda>c. ordering_rank (unwrap_or (map_of retention (c_id (pc_definition c))) Standard)) cs"

record cost_context =
  cx_signature :: task_signature
  cx_signature_cell :: cell_read
  cx_input_bytes :: nat

definition rate_or_infinite :: "rat option \<Rightarrow> f64" where
  "rate_or_infinite r = (case r of None \<Rightarrow> Inf | Some x \<Rightarrow> Fin x)"

definition expected_cost_basis :: "model_rates \<Rightarrow> nat \<Rightarrow> f64 \<Rightarrow> f64" where
  "expected_cost_basis r input_bytes expected_output_tokens =
     f64_add (f64_div (f64_mul (fl (of_nat input_bytes)) (rate_or_infinite (input_per_mtok r))) (Fin 1000000))
             (f64_div (f64_mul expected_output_tokens (rate_or_infinite (output_per_mtok r))) (Fin 1000000))"

definition candidate_cost :: "cost_context \<Rightarrow> cell_read \<Rightarrow> tier_candidate \<Rightarrow> f64 option" where
  "candidate_cost cx cell d =
     (case cell of
        Warm m \<Rightarrow> Some (expected_cost_basis (rate_schedule.base (c_rates d)) (cx_input_bytes cx) (p50 m))
      | ColdCell \<Rightarrow>
          (case cx_signature_cell cx of
             Warm m \<Rightarrow> Some (expected_cost_basis (rate_schedule.base (c_rates d)) (cx_input_bytes cx) (p50 m))
           | ColdCell \<Rightarrow> None))"

fun expected_costs ::
    "nat \<Rightarrow> cost_context \<Rightarrow> provider_candidate list \<Rightarrow> estimator \<Rightarrow> f64 option list \<times> estimator" where
  "expected_costs now cx [] e = ([], e)"
| "expected_costs now cx (c # cs) e =
     (let (cell, e1) = lookup_cell now (for_candidate (cx_signature cx) (c_id (pc_definition c))) e;
          (costs, e2) = expected_costs now cx cs e1
      in (candidate_cost cx cell (pc_definition c) # costs, e2))"

definition order_priced_by_expected_cost ::
    "nat \<Rightarrow> cost_context \<Rightarrow> provider_candidate list \<Rightarrow> estimator \<Rightarrow> provider_candidate list \<times> estimator" where
  "order_priced_by_expected_cost now cx cs e =
     (let (costs, e1) = expected_costs now cx cs e in
      if list_ex (\<lambda>c. c = None) costs then (cs, e1)
      else (List.map snd (sort_key fst (zip (List.map (\<lambda>c. unwrap_or c Inf) costs) cs)), e1))"

definition order_by_expected_cost ::
    "nat \<Rightarrow> inventory \<Rightarrow> cost_context \<Rightarrow> provider_candidate list \<Rightarrow> estimator \<Rightarrow> provider_candidate list \<times> estimator" where
  "order_by_expected_cost now entries cx cs e =
     (let free = List.filter (\<lambda>c. is_free entries (pc_definition c)) cs;
          priced = List.filter (\<lambda>c. \<not> is_free entries (pc_definition c)) cs;
          (ordered, e1) = order_priced_by_expected_cost now cx priced e
      in (free @ ordered, e1))"

text \<open>\<^verbatim>\<open>partition\<close> and two \<^verbatim>\<open>extend\<close>s: those that satisfy the predicate first, both in their order.\<close>

definition those_first :: "('a \<Rightarrow> bool) \<Rightarrow> 'a list \<Rightarrow> 'a list" where
  "those_first P xs = List.filter P xs @ List.filter (\<lambda>x. \<not> P x) xs"

definition order_candidates ::
    "nat \<Rightarrow> time \<Rightarrow> inventory \<Rightarrow> priority \<Rightarrow> cost_context \<Rightarrow> health \<Rightarrow> request_needs \<Rightarrow>
     provider_candidate list \<Rightarrow> estimator \<Rightarrow> provider_candidate list \<times> estimator" where
  "order_candidates now clock entries p cx h wants cs e =
     (let (cs1, e1) = (if p = Cost then order_by_expected_cost now entries cx cs e else (cs, e));
          cs2 = those_first (\<lambda>c. \<not> should_skip clock h (pc_definition c)) cs1
      in (if p = Cost then those_first (\<lambda>c. can_serve (c_metadata (pc_definition c)) wants) cs2 else cs2, e1))"

text \<open>\<^verbatim>\<open>round\<close> takes a half away from zero; the cast to 64 bits saturates.\<close>

fun round_tokens :: "f64 \<Rightarrow> nat" where
  "round_tokens (Fin x) = min (nat \<lfloor>x + 1 / 2\<rfloor>) u64_max"
| "round_tokens Inf = u64_max"
| "round_tokens NaN = 0"

section \<open>Orders move a candidate together with its twin\<close>

text \<open>A group is what one catalog candidate became on the route: the client on the customer's key and the
  house's twin of it.  A reordering that only looks at the catalog candidate moves groups whole.\<close>

definition uniform :: "provider_candidate list \<Rightarrow> bool" where
  "uniform g \<longleftrightarrow> g \<noteq> [] \<and> (\<forall>c \<in> set g. pc_definition c = pc_definition (hd g))"

definition groupwise :: "(provider_candidate list \<Rightarrow> provider_candidate list) \<Rightarrow> bool" where
  "groupwise f \<longleftrightarrow>
     (\<forall>gs. (\<forall>g \<in> set gs. uniform g) \<longrightarrow> (\<exists>hs. mset hs = mset gs \<and> f (concat gs) = concat hs))"

lemma groupwiseI:
  assumes "\<And>gs. \<forall>g \<in> set gs. uniform g \<Longrightarrow> \<exists>hs. mset hs = mset gs \<and> f (concat gs) = concat hs"
  shows "groupwise f"
  using assms by (simp add: groupwise_def)

lemma groupwiseE:
  assumes "groupwise f" "\<forall>g \<in> set gs. uniform g"
  obtains hs where "mset hs = mset gs" "f (concat gs) = concat hs" "\<forall>g \<in> set hs. uniform g"
  using assms by (auto simp: groupwise_def) (metis mset_eq_setD)

lemma groupwise_id: "groupwise (\<lambda>cs. cs)"
  by (auto simp: groupwise_def)

lemma groupwise_comp:
  assumes "groupwise f" "groupwise g"
  shows "groupwise (\<lambda>cs. g (f cs))"
proof (rule groupwiseI)
  fix gs
  assume gs: "\<forall>x \<in> set gs. uniform x"
  obtain hs where hs: "mset hs = mset gs" "f (concat gs) = concat hs" "\<forall>x \<in> set hs. uniform x"
    using groupwiseE [OF assms(1) gs] .
  obtain ks where "mset ks = mset hs" "g (concat hs) = concat ks"
    using groupwiseE [OF assms(2) hs(3)] .
  with hs show "\<exists>ks. mset ks = mset gs \<and> g (f (concat gs)) = concat ks"
    by metis
qed

lemma uniform_key: "uniform g \<Longrightarrow> c \<in> set g \<Longrightarrow> f (pc_definition c) = f (pc_definition (hd g))"
  by (metis uniform_def)

lemma filter_groups:
  assumes "\<forall>g \<in> set gs. uniform g"
  shows "List.filter (\<lambda>c. P (pc_definition c)) (concat gs)
      = concat (List.filter (\<lambda>g. P (pc_definition (hd g))) gs)"
  using assms
proof (induction gs)
  case (Cons g gs)
  then have "List.filter (\<lambda>c. P (pc_definition c)) g = (if P (pc_definition (hd g)) then g else [])"
    using uniform_key [of g _ P] by (auto simp: filter_id_conv filter_empty_conv)
  with Cons show ?case by simp
qed simp

lemma groupwise_first: "groupwise (those_first (\<lambda>c. P (pc_definition c)))"
proof (rule groupwiseI)
  fix gs
  assume gs: "\<forall>x \<in> set gs. uniform x"
  have "those_first (\<lambda>c. P (pc_definition c)) (concat gs) = concat (those_first (\<lambda>g. P (pc_definition (hd g))) gs)"
    using filter_groups [OF gs, of P] filter_groups [OF gs, of "\<lambda>d. \<not> P d"] by (simp add: those_first_def)
  moreover have "mset (those_first (\<lambda>g. P (pc_definition (hd g))) gs) = mset gs"
    by (simp add: those_first_def)
  ultimately show "\<exists>hs. mset hs = mset gs \<and> those_first (\<lambda>c. P (pc_definition c)) (concat gs) = concat hs"
    by blast
qed

text \<open>Sorting: an element goes before the first whose key is not smaller.\<close>

lemma insort_key_takeWhile:
  "insort_key f x xs = takeWhile (\<lambda>y. f y < f x) xs @ x # dropWhile (\<lambda>y. f y < f x) xs"
  by (induction xs) auto

lemma takeWhile_dropWhile_same:
  "takeWhile P (dropWhile P xs) = []" "dropWhile P (dropWhile P xs) = dropWhile P xs"
  by (induction xs) auto

lemma foldr_insort_same:
  assumes "\<forall>x \<in> set g. f x = k"
  shows "foldr (insort_key f) g xs = takeWhile (\<lambda>y. f y < k) xs @ g @ dropWhile (\<lambda>y. f y < k) xs"
  using assms
proof (induction g)
  case (Cons x g)
  let ?d = "dropWhile (\<lambda>y. f y < k) xs"
  have keys: "\<forall>y \<in> set g. f y = k"
    using Cons.prems by simp
  have "takeWhile (\<lambda>y. f y < k) (g @ ?d) = [] \<and> dropWhile (\<lambda>y. f y < k) (g @ ?d) = g @ ?d"
    using keys by (cases g) (simp_all add: takeWhile_dropWhile_same)
  moreover have "\<forall>y \<in> set (takeWhile (\<lambda>y. f y < k) xs). f y < k"
    by (auto dest: set_takeWhileD)
  ultimately show ?case
    using Cons by (simp add: insort_key_takeWhile takeWhile_append2 dropWhile_append2)
qed simp

lemma takeWhile_groups:
  assumes "\<forall>g \<in> set gs. uniform g"
  shows "takeWhile (\<lambda>c. P (pc_definition c)) (concat gs) = concat (takeWhile (\<lambda>g. P (pc_definition (hd g))) gs) \<and>
    dropWhile (\<lambda>c. P (pc_definition c)) (concat gs) = concat (dropWhile (\<lambda>g. P (pc_definition (hd g))) gs)"
  using assms
proof (induction gs)
  case (Cons g gs)
  have g: "uniform g" using Cons.prems by simp
  show ?case
  proof (cases "P (pc_definition (hd g))")
    case True
    then have "\<forall>c \<in> set g. P (pc_definition c)"
      using uniform_key [OF g, of _ P] by simp
    with True Cons show ?thesis
      by (simp add: takeWhile_append2 dropWhile_append2)
  next
    case False
    with g show ?thesis
      by (cases g) (simp_all add: uniform_def)
  qed
qed simp

lemma sort_groups:
  assumes "\<forall>g \<in> set gs. uniform g"
  shows "sort_key (\<lambda>c. f (pc_definition c)) (concat gs) = concat (sort_key (\<lambda>g. f (pc_definition (hd g))) gs)"
  using assms
proof (induction gs)
  case (Cons g gs)
  let ?key = "\<lambda>c. f (pc_definition c)" and ?gkey = "\<lambda>g. f (pc_definition (hd g))"
  have g: "\<forall>c \<in> set g. ?key c = ?gkey g"
    using Cons.prems uniform_key [of g _ f] by simp
  have rest: "\<forall>h \<in> set (sort_key ?gkey gs). uniform h"
    using Cons.prems by simp
  have "sort_key ?key (concat (g # gs)) = foldr (insort_key ?key) g (concat (sort_key ?gkey gs))"
    using Cons by (simp add: sort_key_def)
  also have "\<dots> = concat (insort_key ?gkey g (sort_key ?gkey gs))"
    using takeWhile_groups [OF rest, of "\<lambda>d. f d < ?gkey g"]
    by (simp add: foldr_insort_same [OF g] insort_key_takeWhile [of ?gkey])
  finally show ?case by (simp add: sort_key_def)
qed (simp add: sort_key_def)

lemma groupwise_sort: "groupwise (sort_key (\<lambda>c. f (pc_definition c)))"
proof (rule groupwiseI)
  fix gs
  assume "\<forall>x \<in> set gs. uniform x"
  from sort_groups [OF this, of f]
  show "\<exists>hs. mset hs = mset gs \<and> sort_key (\<lambda>c. f (pc_definition c)) (concat gs) = concat hs"
    by (metis mset_sort)
qed

section \<open>The order of a walk\<close>

lemma lookup_read: "fst (lookup_cell now k (snd (lookup_cell now k' e))) = fst (lookup_cell now k e)"
proof -
  have "cells (snd (lookup_cell now k' e)) = cells e"
    by (auto simp: lookup_cell_def enqueue_def split: option.splits)
  then show ?thesis by (auto simp: lookup_cell_def split: option.splits)
qed

text \<open>What a candidate is expected to cost depends on the catalog candidate alone.\<close>

definition cost_now :: "nat \<Rightarrow> cost_context \<Rightarrow> estimator \<Rightarrow> tier_candidate \<Rightarrow> f64 option" where
  "cost_now now cx e d = candidate_cost cx (fst (lookup_cell now (for_candidate (cx_signature cx) (c_id d)) e)) d"

lemma cost_now_lookup: "cost_now now cx (snd (lookup_cell now k e)) d = cost_now now cx e d"
  by (simp add: cost_now_def lookup_read)

lemma expected_costs_now: "fst (expected_costs now cx cs e) = List.map (\<lambda>c. cost_now now cx e (pc_definition c)) cs"
proof (induction cs arbitrary: e)
  case (Cons c cs)
  obtain cell e1 where l: "lookup_cell now (for_candidate (cx_signature cx) (c_id (pc_definition c))) e = (cell, e1)"
    by (meson surj_pair)
  then have "cost_now now cx e1 d = cost_now now cx e d" for d
    using cost_now_lookup [of now cx "for_candidate (cx_signature cx) (c_id (pc_definition c))" e d] by simp
  then show ?case
    using Cons.IH [of e1] l by (simp add: case_prod_beta cost_now_def)
qed simp

lemma sort_zip: "List.map snd (sort_key fst (zip (List.map f xs) xs)) = sort_key f xs"
proof -
  have "insort_key fst (f x, x) (List.map (\<lambda>y. (f y, y)) ys) = List.map (\<lambda>y. (f y, y)) (insort_key f x ys)" for x ys
    by (induction ys) auto
  then have "sort_key fst (List.map (\<lambda>x. (f x, x)) xs) = List.map (\<lambda>x. (f x, x)) (sort_key f xs)"
    by (induction xs) (simp_all add: sort_key_def)
  moreover have "zip (List.map f xs) xs = List.map (\<lambda>x. (f x, x)) xs"
    by (induction xs) simp_all
  ultimately show ?thesis by (simp add: comp_def)
qed

definition priced_order :: "nat \<Rightarrow> cost_context \<Rightarrow> estimator \<Rightarrow> provider_candidate list \<Rightarrow> provider_candidate list" where
  "priced_order now cx e cs =
     (if list_ex (\<lambda>c. cost_now now cx e (pc_definition c) = None) cs then cs
      else sort_key (\<lambda>c. unwrap_or (cost_now now cx e (pc_definition c)) Inf) cs)"

lemma order_priced_is: "fst (order_priced_by_expected_cost now cx cs e) = priced_order now cx e cs"
proof -
  obtain costs e1 where c: "expected_costs now cx cs e = (costs, e1)"
    by (meson surj_pair)
  then have "costs = List.map (\<lambda>c. cost_now now cx e (pc_definition c)) cs"
    using expected_costs_now [of now cx cs e] by simp
  then have costs: "costs = List.map (\<lambda>c. cost_now now cx e (pc_definition c)) cs" .
  have "list_ex (\<lambda>c. c = None) costs = list_ex (\<lambda>c. cost_now now cx e (pc_definition c) = None) cs"
    unfolding costs by (induction cs) simp_all
  then show ?thesis
    using sort_zip [of "\<lambda>c. unwrap_or (cost_now now cx e (pc_definition c)) Inf" cs]
    by (simp add: order_priced_by_expected_cost_def c priced_order_def) (simp add: costs comp_def)
qed

lemma groupwise_priced: "groupwise (priced_order now cx e)"
proof (rule groupwiseI)
  fix gs
  assume gs: "\<forall>x \<in> set gs. uniform x"
  from groupwise_sort [of "\<lambda>d. unwrap_or (cost_now now cx e d) Inf"] gs
  obtain hs where "mset hs = mset gs"
      "sort_key (\<lambda>c. unwrap_or (cost_now now cx e (pc_definition c)) Inf) (concat gs) = concat hs"
    by (auto elim: groupwiseE)
  then show "\<exists>hs. mset hs = mset gs \<and> priced_order now cx e (concat gs) = concat hs"
    by (auto simp: priced_order_def)
qed

lemma groupwise_by_cost: "groupwise (\<lambda>cs. fst (order_by_expected_cost now entries cx cs e))"
proof (rule groupwiseI)
  fix gs
  assume gs: "\<forall>x \<in> set gs. uniform x"
  let ?free = "\<lambda>d. is_free entries d" and ?gfree = "\<lambda>g. is_free entries (pc_definition (hd g))"
  have "\<forall>x \<in> set (List.filter (\<lambda>g. \<not> ?gfree g) gs). uniform x"
    using gs by simp
  then obtain hs where hs: "mset hs = mset (List.filter (\<lambda>g. \<not> ?gfree g) gs)"
      "priced_order now cx e (concat (List.filter (\<lambda>g. \<not> ?gfree g) gs)) = concat hs"
    by (rule groupwiseE [OF groupwise_priced])
  have "fst (order_by_expected_cost now entries cx (concat gs) e) = concat (List.filter ?gfree gs @ hs)"
    using filter_groups [OF gs, of ?free] filter_groups [OF gs, of "\<lambda>d. \<not> ?free d"] hs(2)
    by (simp add: order_by_expected_cost_def Let_def case_prod_beta order_priced_is)
  moreover have "mset (List.filter ?gfree gs @ hs) = mset gs"
    by (simp add: hs(1))
  ultimately show "\<exists>hs. mset hs = mset gs \<and> fst (order_by_expected_cost now entries cx (concat gs) e) = concat hs"
    by blast
qed

lemma groupwise_order: "groupwise (\<lambda>cs. fst (order_candidates now clock entries p cx h wants cs e))"
proof -
  let ?healthy = "those_first (\<lambda>c. \<not> should_skip clock h (pc_definition c))"
  let ?able = "those_first (\<lambda>c. can_serve (c_metadata (pc_definition c)) wants)"
  have healthy: "groupwise ?healthy" and able: "groupwise ?able"
    using groupwise_first [of "\<lambda>d. \<not> should_skip clock h d"] groupwise_first [of "\<lambda>d. can_serve (c_metadata d) wants"]
    by simp_all
  show ?thesis
  proof (cases "p = Cost")
    case True
    have "groupwise (\<lambda>cs. ?able (?healthy (fst (order_by_expected_cost now entries cx cs e))))"
      by (rule groupwise_comp [OF groupwise_comp [OF groupwise_by_cost healthy] able])
    with True show ?thesis by (simp add: order_candidates_def Let_def case_prod_beta)
  next
    case False
    with healthy show ?thesis by (simp add: order_candidates_def Let_def)
  qed
qed

text \<open>The order of the walk: by priority and health, and on a routed id by retention last.\<close>

definition dispatch_order ::
    "nat \<Rightarrow> time \<Rightarrow> inventory \<Rightarrow> priority \<Rightarrow> cost_context \<Rightarrow> health \<Rightarrow> request_needs \<Rightarrow> resolved_route \<Rightarrow>
     provider_candidate list \<Rightarrow> estimator \<Rightarrow> provider_candidate list \<times> estimator" where
  "dispatch_order now clock entries p cx h wants resolved cs e =
     (let (cs1, e1) = order_candidates now clock entries p cx h wants cs e in
      (if rr_routed resolved then partition_route_by_retention (rr_retention resolved) cs1 else cs1, e1))"

lemma groupwise_dispatch: "groupwise (\<lambda>cs. fst (dispatch_order now clock entries p cx h wants resolved cs e))"
proof -
  have sorted: "groupwise (partition_route_by_retention (rr_retention resolved))"
    using groupwise_sort [of "\<lambda>d. ordering_rank (unwrap_or (map_of (rr_retention resolved) (c_id d)) Standard)"]
    by (simp add: partition_route_by_retention_def [abs_def])
  show ?thesis
    using groupwise_comp [OF groupwise_order sorted, of now clock entries p cx h wants e]
      groupwise_order [of now clock entries p cx h wants e]
    by (cases "rr_routed resolved") (simp_all add: dispatch_order_def Let_def case_prod_beta)
qed

text \<open>However a route is ordered, by expected cost, health, capability or retention, the customer's
  client and the house's twin of one catalog candidate stay side by side in their order: the walk goes
  through the same groups, permuted as wholes.\<close>

theorem order_moves_groups_whole:
  assumes "\<forall>g \<in> set gs. uniform g"
  shows "\<exists>hs. mset hs = mset gs \<and> fst (dispatch_order now clock entries p cx h wants resolved (concat gs) e) = concat hs"
  using groupwise_dispatch assms by (auto simp: groupwise_def)

lemma order_moves_groups_whole_witness:
  "\<exists>hs. mset hs = mset [[demo_rung True None, demo_rung False (Some ''xai'')], [demo_rung False None]] \<and>
     fst (dispatch_order 0 0 [] Cost \<lparr> cx_signature = \<lparr> hex = [], scheme = 2, tool_names_sha256 = [] \<rparr>,
       cx_signature_cell = ColdCell, cx_input_bytes = 5 \<rparr> cooling
       \<lparr> n_prompt_bound = 5, n_tools = False, n_modalities = [] \<rparr>
       \<lparr> rr_requested_model = [], rr_candidates = [], rr_sell_rates = demo_schedule, rr_retention = [], rr_routed = True \<rparr>
       (concat [[demo_rung True None, demo_rung False (Some ''xai'')], [demo_rung False None]]) empty_estimator) = concat hs"
  by (rule order_moves_groups_whole) (simp add: uniform_def demo_rung_def)

text \<open>On a routed id a candidate of weaker retention never precedes one of stronger.\<close>

lemma dispatch_order_by_retention:
  "rr_routed resolved \<Longrightarrow>
     sorted (List.map (\<lambda>c. ordering_rank (unwrap_or (map_of (rr_retention resolved) (c_id (pc_definition c))) Standard))
       (fst (dispatch_order now clock entries p cx h wants resolved cs e)))"
  by (simp add: dispatch_order_def Let_def case_prod_beta partition_route_by_retention_def)

end
