(* ===== verification/Gateway.thy ===== *)
theory Gateway
  imports Selection Scenario
begin

text \<open>
  The request handler of \<^verbatim>\<open>router/src/api.rs\<close>: what a request is admitted with and what it is settled
  with.  \<^verbatim>\<open>inference\<close> is split where the code reads the database: the request and its route, the
  keys of the customer, the reservation, the walk and the settlement of what the walk came to.  The
  database may change between two of these steps, so each takes the one it finds.
\<close>

section \<open>Keys of the customer\<close>

text \<open>A row of \<^verbatim>\<open>byok_provider_keys\<close>: the provider, the sealed credential, and whether a failure of the key
  may fall back to the house.  A read that fails is \<^verbatim>\<open>None\<close>.\<close>

record byok_key =
  bk_provider :: string
  bk_sealed :: string
  bk_fallback :: bool

definition covered_providers :: "byok_key list \<Rightarrow> (string \<times> bool) list" where
  "covered_providers rows = List.map (\<lambda>k. (bk_provider k, bk_fallback k)) rows"

definition open_credentials :: "(string \<Rightarrow> string \<Rightarrow> string option) \<Rightarrow> byok_key list \<Rightarrow> (string \<times> string \<times> bool) list" where
  "open_credentials unseal rows =
     List.map_filter (\<lambda>k. map_option (\<lambda>credential. (bk_provider k, credential, bk_fallback k))
       (unseal (bk_provider k) (bk_sealed k))) rows"

definition byok_covered_providers :: "bool \<Rightarrow> byok_key list option \<Rightarrow> (string \<times> bool) list" where
  "byok_covered_providers enabled rows =
     (if \<not> enabled then []
      else case rows of None \<Rightarrow> [] | Some rows \<Rightarrow> map_collect (covered_providers rows))"

definition customer_credentials ::
    "bool \<Rightarrow> (string \<Rightarrow> string \<Rightarrow> string option) \<Rightarrow> byok_key list option \<Rightarrow> byok_credentials" where
  "customer_credentials enabled unseal rows =
     (if \<not> enabled then []
      else case rows of None \<Rightarrow> [] | Some rows \<Rightarrow> with_fallback (open_credentials unseal rows))"

section \<open>The size of a reservation\<close>

definition sized_reservation ::
    "decimal_ops \<Rightarrow> (json \<Rightarrow> string) \<Rightarrow> chat_completion_request \<Rightarrow> resolved_route \<Rightarrow> nat \<Rightarrow> money \<Rightarrow>
     (api_error, reservation_size) result" where
  "sized_reservation D render request resolved output_bound rate =
     (let u = reservation_usage render request output_bound in
      case usage_cost D (reservation_rates (rr_sell_rates resolved)) u of
        None \<Rightarrow> Inl MeteringUnavailable
      | Some catalog_cost \<Rightarrow>
          if i64_max < int (total_tokens u) then Inl InvalidRequest
          else (case apply_fee D catalog_cost rate of
                  None \<Rightarrow> Inl MeteringUnavailable
                | Some cost \<Rightarrow>
                    Inr \<lparr> rs_total_tokens = int (total_tokens u), rs_output_tokens = int output_bound,
                          rs_cost_usd = cost \<rparr>))"

text \<open>A request that only providers the customer has a key for can serve, none falling back to the house,
  is held at the fee; every other one at the catalog rate.\<close>

definition byok_reservation_rate :: "resolved_route \<Rightarrow> (string \<times> bool) list \<Rightarrow> money" where
  "byok_reservation_rate resolved covered =
     (if covered \<noteq> [] \<and> list_all (\<lambda>c. map_of covered (c_provider c) = Some False) (rr_candidates resolved)
      then fee_rate else house_rate)"

definition byok_reservation_posture ::
    "decimal_ops \<Rightarrow> (json \<Rightarrow> string) \<Rightarrow> chat_completion_request \<Rightarrow> resolved_route \<Rightarrow> nat \<Rightarrow> (string \<times> bool) list \<Rightarrow>
     money \<Rightarrow> (api_error, byok_reservation) result" where
  "byok_reservation_posture D render request resolved output_bound covered rate =
     (if \<not> list_ex (\<lambda>c. map_of covered (c_provider c) \<noteq> None) (rr_candidates resolved)
      then Inr \<lparr> catalog_basis = None, wholly_byok = False \<rparr>
      else bind_result (sized_reservation D render request resolved output_bound house_rate) (\<lambda>size.
        Inr \<lparr> catalog_basis = Some (rs_cost_usd size), wholly_byok = (rate = fee_rate) \<rparr>))"

definition admit_usage ::
    "calendar \<Rightarrow> time \<Rightarrow> uuid \<Rightarrow> admission_request \<Rightarrow> db \<Rightarrow> (api_error, usage_session) result \<times> db" where
  "admit_usage cal now fresh q d =
     (case begin_usage_session cal now fresh q d of
        (Inl _, d1) \<Rightarrow> (Inl DatabaseUnavailable, d1)
      | (Inr admission, d1) \<Rightarrow>
          (case admission of
             Allowed session \<Rightarrow> Inr session
           | Unauthorized \<Rightarrow> Inl UnauthorizedKey
           | SpendExceeded \<Rightarrow> Inl SpendCapExceeded
           | KeyCreditLimitExceeded \<Rightarrow> Inl KeyCreditLimitReached
           | VelocityExceeded \<Rightarrow> Inl VelocityCapExceeded
           | InsufficientCredits \<Rightarrow> Inl NoCreditsLeft
           | AccountFrozen \<Rightarrow> Inl FrozenAccount, d1))"

section \<open>Features of a request\<close>

record zerorouter_estimate =
  ze_output_tokens_p50 :: nat
  ze_output_tokens_p90 :: nat
  ze_basis :: reservation_basis

definition estimate_cold :: "nat \<Rightarrow> zerorouter_estimate" where
  "estimate_cold max_output_tokens =
     \<lparr> ze_output_tokens_p50 = max_output_tokens, ze_output_tokens_p90 = max_output_tokens, ze_basis = Cold \<rparr>"

definition estimate_of :: "cell_read \<Rightarrow> nat \<Rightarrow> zerorouter_estimate" where
  "estimate_of cell max_output_tokens =
     (case cell of
        Warm p \<Rightarrow> \<lparr> ze_output_tokens_p50 = round_tokens (p50 p), ze_output_tokens_p90 = round_tokens (p90 p),
                    ze_basis = Learned \<rparr>
      | ColdCell \<Rightarrow> estimate_cold max_output_tokens)"

record request_features =
  rf_requested_max_tokens :: int
  rf_stream :: bool
  rf_prompt_bytes :: int
  rf_message_count :: int
  rf_tool_count :: int
  rf_priority :: priority
  rf_knob_engaged :: bool
  rf_estimate :: zerorouter_estimate
  rf_byok_served :: bool
  rf_byok_fallback_served :: bool

definition from_request ::
    "chat_completion_request \<Rightarrow> openai_usage \<Rightarrow> priority_resolution \<Rightarrow> zerorouter_estimate \<Rightarrow> request_features" where
  "from_request request u p estimate =
     \<lparr> rf_requested_max_tokens = (case rq_max_tokens request of None \<Rightarrow> 0 | Some m \<Rightarrow> min (int m) i32_max),
       rf_stream = rq_stream request, rf_prompt_bytes = min (int (prompt_tokens u)) i64_max,
       rf_message_count = min (int (length (rq_messages request))) i32_max,
       rf_tool_count = min (int (length (rq_tools request))) i32_max,
       rf_priority = pr_resolved p, rf_knob_engaged = pr_engaged p, rf_estimate = estimate,
       rf_byok_served = False, rf_byok_fallback_served = False \<rparr>"

definition on_candidate :: "provider_candidate \<Rightarrow> request_features \<Rightarrow> request_features" where
  "on_candidate c f =
     f\<lparr> rf_byok_served := pc_byok c, rf_byok_fallback_served := (pc_fallback_for c \<noteq> None) \<rparr>"

definition byok_rate :: "request_features \<Rightarrow> money" where
  "byok_rate f = (if rf_byok_served f then fee_rate else house_rate)"

record zerorouter_attempt =
  za_candidate :: string
  za_outcome :: string
  za_latency_ms :: int

record zerorouter_metadata =
  zm_priority :: priority
  zm_estimate :: zerorouter_estimate
  zm_attempts :: "zerorouter_attempt list"
  zm_validated :: "bool option"
  zm_byok :: bool
  zm_byok_fallback :: bool

definition zerorouter_block :: "request_features \<Rightarrow> walk_ledger \<Rightarrow> zerorouter_metadata option" where
  "zerorouter_block f lg =
     (if rf_knob_engaged f \<or> rf_byok_served f \<or> rf_byok_fallback_served f
      then Some \<lparr> zm_priority = rf_priority f, zm_estimate = rf_estimate f,
             zm_attempts = List.map (\<lambda>row. \<lparr> za_candidate = a_candidate_id row, za_outcome = outcome row,
               za_latency_ms = a_latency_ms row \<rparr>) (wl_rows lg),
             zm_validated = None, zm_byok = rf_byok_served f, zm_byok_fallback = rf_byok_fallback_served f \<rparr>
      else None)"

section \<open>Settling what a walk came to\<close>

text \<open>What settling reads beside the database: the arithmetic, the calendar, the faults of its
  writes and how an identifier is written.\<close>

record settling =
  sg_decimal :: decimal_ops
  sg_text :: decimal_text
  sg_calendar :: calendar
  sg_environment :: environment
  sg_show_uuid :: "uuid \<Rightarrow> string"

text \<open>The record a request is settled with.  The catalog cost is priced at the band of the prompt; a request
  the customer's own key served owes the fee on it.\<close>

definition usage_record_of ::
    "decimal_ops \<Rightarrow> resolved_route \<Rightarrow> string \<Rightarrow> string \<Rightarrow> tier_candidate option \<Rightarrow> openai_usage \<Rightarrow>
     request_features \<Rightarrow> attempt_finish_reason option \<Rightarrow> bool option \<Rightarrow> usage_gap option \<Rightarrow>
     attempt_record list \<Rightarrow> nat \<Rightarrow> int \<Rightarrow> (api_error, usage_record) result" where
  "usage_record_of D resolved provider model c u f finish shape gap rows clock code =
     (let rates = at_prompt_tokens (rr_sell_rates resolved) (prompt_tokens u) in
      case usage_cost D rates u of
        None \<Rightarrow> Inl MeteringUnavailable
      | Some catalog_cost \<Rightarrow>
          (case apply_fee D catalog_cost (byok_rate f) of
             None \<Rightarrow> Inl MeteringUnavailable
           | Some cost \<Rightarrow>
               Inr \<lparr> tier = rr_requested_model resolved, upstream_provider = provider, upstream_model = model,
                     usage = u, cost_usd = cost,
                     byok_catalog_usd = (if rf_byok_served f then Some catalog_cost else None),
                     latency_ms = min (int clock) i32_max, status = code,
                     telemetry = \<lparr> requested_max_tokens = rf_requested_max_tokens f, t_stream = rf_stream f,
                       prompt_bytes = rf_prompt_bytes f, message_count = rf_message_count f,
                       tool_count = rf_tool_count f, candidate_id = map_option c_id c,
                       basis_rates = map_option (\<lambda>c. at_prompt_tokens (c_rates c) (prompt_tokens u)) c,
                       sell_rates = rates, finish_reason = map_option af_reason finish,
                       finish_reason_source = map_option af_source finish, shape_ok = shape,
                       t_usage_gap = map_option usage_gap_as_str gap, t_priority = Some (rf_priority f),
                       t_byok = Some (rf_byok_served f) \<rparr>,
                     attempts = rows \<rparr>))"

definition persist_usage ::
    "settling \<Rightarrow> usage_session \<Rightarrow> resolved_route \<Rightarrow> string \<Rightarrow> string \<Rightarrow> tier_candidate option \<Rightarrow> openai_usage \<Rightarrow>
     request_features \<Rightarrow> attempt_finish_reason option \<Rightarrow> bool option \<Rightarrow> usage_gap option \<Rightarrow>
     attempt_record list \<Rightarrow> nat \<Rightarrow> int \<Rightarrow> db \<Rightarrow> (api_error, unit) result \<times> db" where
  "persist_usage g session resolved provider model c u f finish shape gap rows clock code d =
     (case usage_record_of (sg_decimal g) resolved provider model c u f finish shape gap rows clock code of
        Inl e \<Rightarrow> (Inl e, d)
      | Inr r \<Rightarrow>
          (case record_usage (sg_decimal g) (sg_text g) (sg_calendar g) (sg_environment g) session r d of
             (Inl _, d1) \<Rightarrow> (Inl MeteringUnavailable, d1)
           | (Inr _, d1) \<Rightarrow> (Inr (), d1)))"

definition settle_walk_terminal ::
    "settling \<Rightarrow> usage_session \<Rightarrow> resolved_route \<Rightarrow> request_features \<Rightarrow> walk_terminal \<Rightarrow> walk_state \<Rightarrow> db \<Rightarrow>
     api_error \<times> db" where
  "settle_walk_terminal g session resolved f terminal w d =
     (let (provider, model) =
        (case w_last w of
           None \<Rightarrow> (''fallback-chain'', rr_requested_model resolved)
         | Some c \<Rightarrow> (c_provider c, c_model c))
      in case persist_usage g session resolved provider model (w_last w) default_usage f None None None
                (wl_rows (w_ledger w)) (w_clock w) (terminal_status terminal) d of
           (Inr _, d1) \<Rightarrow> (terminal_error terminal, d1)
         | (Inl e, d1) \<Rightarrow> (e, d1))"

section \<open>Serving a completion\<close>

record assistant_message =
  am_role :: string
  am_content :: "string option"
  am_tool_calls :: "openai_tool_call list"
  am_reasoning_content :: "string option"

record completion_choice =
  ch_index :: nat
  ch_message :: assistant_message
  ch_finish_reason :: string

record chat_completion_response =
  cc_id :: string
  cc_object :: string
  cc_created :: time
  cc_model :: string
  cc_choices :: "completion_choice list"
  cc_usage :: openai_usage
  cc_zerorouter :: "zerorouter_metadata option"

definition chat_completion_response_new ::
    "time \<Rightarrow> string \<Rightarrow> string \<Rightarrow> chat_response \<Rightarrow> openai_usage \<Rightarrow> nat option \<Rightarrow> zerorouter_metadata option \<Rightarrow>
     chat_completion_response" where
  "chat_completion_response_new now request_id model response u max_tokens meta =
     \<lparr> cc_id = request_id, cc_object = ''chat.completion'', cc_created = now, cc_model = model,
       cc_choices =
         [\<lparr> ch_index = 0,
            ch_message = \<lparr> am_role = ''assistant'', am_content = cr_text response,
              am_tool_calls = List.map tool_call_to_openai (cr_tool_calls response),
              am_reasoning_content = cr_reasoning_content response \<rparr>,
            ch_finish_reason = finish_reason_of (cr_tool_calls response \<noteq> []) u max_tokens \<rparr>],
       cc_usage = u, cc_zerorouter = meta \<rparr>"

definition transparency_headers :: "string \<Rightarrow> bool \<Rightarrow> string option \<Rightarrow> (string \<times> string) list" where
  "transparency_headers provider byok retention =
     [(''x-zerorouter-provider'', provider), (''x-zerorouter-byok'', if byok then ''true'' else ''false'')] @
     (case retention of None \<Rightarrow> [] | Some r \<Rightarrow> [(''x-zerorouter-retention'', r)])"

record served_response =
  sv_body :: chat_completion_response
  sv_headers :: "(string \<times> string) list"

text \<open>The row of the answer, beside the rows of the walk.\<close>

definition served_rows ::
    "walk_context \<Rightarrow> tier_candidate \<Rightarrow> nat \<Rightarrow> nat \<Rightarrow> bool \<Rightarrow> attempt_tokens \<Rightarrow> string option \<Rightarrow> walk_state \<Rightarrow> walk_ledger" where
  "served_rows ctx c no begun is_served tokens reason w =
     ledger_push (wx_utc ctx + int (w_clock w))
       (build_attempt (wx_decimal ctx) (wx_utc ctx) (w_clock w) begun no c ''ok'' is_served tokens False reason None)
       (w_ledger w)"

text \<open>An answer without usage cannot be billed: its row is not a served one, the request is settled at no
  usage, and the customer gets an error in its place.\<close>

definition serve_completion ::
    "settling \<Rightarrow> walk_context \<Rightarrow> usage_session \<Rightarrow> resolved_route \<Rightarrow> request_features \<Rightarrow> nat option \<Rightarrow>
     provider_candidate \<Rightarrow> chat_response \<Rightarrow> nat \<Rightarrow> nat \<Rightarrow> walk_state \<Rightarrow> db \<Rightarrow> (api_error, served_response) result \<times> db" where
  "serve_completion g ctx session resolved f0 max_tokens pc response no begun w d =
     (let c = pc_definition pc; f = on_candidate pc f0 in
      case try_from_provider (cr_usage response) of
        None \<Rightarrow>
          (case persist_usage g session resolved (c_provider c) (c_model c) (Some c) default_usage f None None None
                  (wl_rows (served_rows ctx c no begun False tokens_unknown None w)) (w_clock w) 502 d of
             (Inl e, d1) \<Rightarrow> (Inl e, d1)
           | (Inr _, d1) \<Rightarrow> (Inl MeteringUnavailable, d1))
      | Some u \<Rightarrow>
          let emitted = emitted_from_response response;
              finish = resolve_finish (cr_stop_reason response) (em_tool_calls emitted) u max_tokens;
              shape = output_shape_ok emitted (tool_args_all_json (wx_parse_json ctx) (cr_tool_calls response))
                        (af_reason finish);
              lg = served_rows ctx c no begun True (tokens_measured u) (Some (af_reason finish)) w;
              meta = zerorouter_block f lg
          in (case persist_usage g session resolved (c_provider c) (c_model c) (Some c) u f (Some finish) (Some shape)
                     None (wl_rows lg) (w_clock w) 200 d of
                (Inl e, d1) \<Rightarrow> (Inl e, d1)
              | (Inr _, d1) \<Rightarrow>
                  (Inr \<lparr> sv_body = chat_completion_response_new (wx_utc ctx + int (w_clock w)) (sg_show_uuid g (us_request_id session))
                           (rr_requested_model resolved) response u max_tokens meta,
                         sv_headers =
                           [(''x-request-id'', sg_show_uuid g (us_request_id session)), (''x-zerorouter-model'', c_model c),
                            (''x-zerorouter-attempts'', show_nat (length (wl_rows lg)))] @
                           transparency_headers (c_provider c) (rf_byok_served f)
                             (transparency_labels resolved (c_id c) (rf_byok_served f)) \<rparr>, d1)))"

text \<open>The request once it has been admitted, from its walk to its answer.  The reservation is marked as
  dispatched before the first upstream is called; the walk itself writes nothing else.\<close>

definition settle_walk ::
    "settling \<Rightarrow> walk_context \<Rightarrow> usage_session \<Rightarrow> resolved_route \<Rightarrow> request_features \<Rightarrow> nat option \<Rightarrow>
     walk_outcome \<times> walk_state \<Rightarrow> db \<Rightarrow> ((api_error, served_response) result \<times> db) option" where
  "settle_walk g ctx session resolved f max_tokens ended d =
     (case ended of
        (WalkServed pc response no begun, w) \<Rightarrow>
          Some (serve_completion g ctx session resolved f max_tokens pc response no begun w d)
      | (WalkRefused terminal, w) \<Rightarrow>
          (case settle_walk_terminal g session resolved f terminal w d of (e, d1) \<Rightarrow> Some (Inl e, d1))
      | (WalkPanicked, w) \<Rightarrow> None)"

section \<open>From a request to its reservation\<close>

record authenticated_key =
  ak_id :: uuid
  ak_user :: uuid
  ak_default_priority :: "priority option"
  ak_retention_policy :: retention_policy

text \<open>The fixed surroundings of the handler, and the functions of libraries it calls.\<close>

record gateway =
  gw_decimal :: decimal_ops
  gw_render :: "json \<Rightarrow> string"
  gw_url :: "string \<Rightarrow> (string \<times> string option) option"
  gw_sha256 :: "string \<Rightarrow> string"
  gw_show_uuid :: "uuid \<Rightarrow> string"
  gw_unseal :: "string \<Rightarrow> string \<Rightarrow> string option"
  gw_mint :: "provider_metadata \<Rightarrow> string \<Rightarrow> string option"
  gw_header_name :: "string \<Rightarrow> bool"
  gw_env :: environment_vars
  gw_entries :: inventory
  gw_unified_ids :: bool
  gw_keyring :: bool
  gw_require_credits :: bool

definition BASELINE_MAX_TOKENS :: nat where
  "BASELINE_MAX_TOKENS = 4096"

definition check_request :: "gateway \<Rightarrow> chat_completion_request \<Rightarrow> (api_error, nat) result" where
  "check_request gw request =
     (case validate_request request of
        Inl _ \<Rightarrow> Inl InvalidRequest
      | Inr _ \<Rightarrow>
          if unplaceable_cache_control request then Inl CacheControlUnsupported
          else (case cache_breakpoints request of
                  Inl f \<Rightarrow> Inl (CacheControlInvalid f)
                | Inr n \<Rightarrow>
                    if contains_unsupported_extensions (gw_url gw) request then Inl UnsupportedRequestFields
                    else Inr n))"

text \<open>The route a checked request may take, for the key that asks.\<close>

definition plan_route ::
    "gateway \<Rightarrow> tier_catalog \<Rightarrow> authenticated_key \<Rightarrow> nat \<Rightarrow> chat_completion_request \<Rightarrow>
     (api_error, resolved_route \<times> priority_resolution) result" where
  "plan_route gw catalog key breakpoints request =
     bind_result (resolve_requested catalog (gw_unified_ids gw) (rq_model request)) (\<lambda>(resolved, from_name).
     bind_result (resolve_priority (rq_priority request) from_name (ak_default_priority key)) (\<lambda>p.
     case unservable_modality request resolved of
       Some e \<Rightarrow> Inl e
     | None \<Rightarrow>
         bind_result (keep_caching breakpoints resolved) (\<lambda>resolved1.
         bind_result (keep_permitted (ak_retention_policy key) resolved1) (\<lambda>resolved2.
           Inr (resolved2, p)))))"

record request_plan =
  pl_request :: chat_completion_request
  pl_resolved :: resolved_route
  pl_priority :: priority_resolution

definition max_output_of :: "chat_completion_request \<Rightarrow> nat" where
  "max_output_of request = unwrap_or (rq_max_tokens request) BASELINE_MAX_TOKENS"

definition plan_request ::
    "gateway \<Rightarrow> tier_catalog option \<Rightarrow> authenticated_key \<Rightarrow> chat_completion_request \<Rightarrow> (api_error, request_plan) result" where
  "plan_request gw catalog key request =
     bind_result (check_request gw request) (\<lambda>breakpoints.
     case catalog of
       None \<Rightarrow> Inl TierCatalogUnavailable
     | Some catalog \<Rightarrow>
         bind_result (plan_route gw catalog key breakpoints request) (\<lambda>(resolved, p).
           Inr \<lparr> pl_request = request\<lparr> rq_max_tokens := Some (max_output_of request) \<rparr>,
                 pl_resolved = resolved, pl_priority = p \<rparr>))"

definition signature_of :: "gateway \<Rightarrow> authenticated_key \<Rightarrow> chat_completion_request \<Rightarrow> task_signature" where
  "signature_of gw key request =
     compute_task_signature (gw_sha256 gw) (gw_show_uuid gw (ak_user key))
       (List.map (\<lambda>t. fs_name (ot_function t)) (rq_tools request)) (length (rq_messages request))
       (prompt_tokens (reservation_usage (gw_render gw) request (max_output_of request)))
       (rq_stream request) (max_output_of request)"

text \<open>A learned size needs a warm segment, a priority other than success, and no revert; the reads of the
  revert marks happen in that order, and each may drop a mark that has expired.\<close>

definition learned_bound_of ::
    "nat \<Rightarrow> authenticated_key \<Rightarrow> task_signature \<Rightarrow> priority \<Rightarrow> nat \<Rightarrow> cell_read \<Rightarrow> estimator \<Rightarrow> nat option \<times> estimator" where
  "learned_bound_of now key s p max_output cell e =
     (case cell of
        ColdCell \<Rightarrow> (None, e)
      | Warm percentiles \<Rightarrow>
          if p = Success then (None, e)
          else (case segment_reverted now s e of
                  (True, e1) \<Rightarrow> (None, e1)
                | (False, e1) \<Rightarrow>
                    (case user_reverted now (ak_user key) e1 of
                       (True, e2) \<Rightarrow> (None, e2)
                     | (False, e2) \<Rightarrow> (learned_output_bound percentiles max_output, e2))))"

text \<open>The sizes a reservation may take, and the posture of the customer's own keys.\<close>

definition size_request ::
    "gateway \<Rightarrow> chat_completion_request \<Rightarrow> resolved_route \<Rightarrow> (string \<times> bool) list \<Rightarrow> nat option \<Rightarrow>
     (api_error, reservation_sizing \<times> byok_reservation) result" where
  "size_request gw request resolved covered learned =
     (let rate = byok_reservation_rate resolved covered;
          size = (\<lambda>bound. sized_reservation (gw_decimal gw) (gw_render gw) request resolved bound rate)
      in bind_result (size (max_output_of request)) (\<lambda>full.
         bind_result (transpose_option size learned) (\<lambda>learned_size.
         bind_result (byok_reservation_posture (gw_decimal gw) (gw_render gw) request resolved
             (max_output_of request) covered rate) (\<lambda>posture.
           Inr (\<lparr> sizing_learned = learned_size, sizing_full = full \<rparr>, posture)))))"

definition route_error :: "resolved_route \<Rightarrow> build_error \<Rightarrow> api_error" where
  "route_error resolved e =
     (case e of
        NoAvailableCredentials _ \<Rightarrow> ModelUnavailable (rr_requested_model resolved)
      | _ \<Rightarrow> NoProviderAvailable)"

definition build_route ::
    "gateway \<Rightarrow> resolved_route \<Rightarrow> nat \<Rightarrow> byok_credentials \<Rightarrow> (api_error, provider_route) result" where
  "build_route gw resolved max_output credentials =
     (case new_with_byok (gw_mint gw) (gw_header_name gw) (gw_env gw) (gw_entries gw) max_output credentials
             (rr_candidates resolved) of
        Inl e \<Rightarrow> Inl (route_error resolved e)
      | Inr r \<Rightarrow> Inr r)"

section \<open>The handler\<close>

text \<open>What the handler reads on its way: the catalog file, the customer's keys (twice, as the code does), the
  clocks, the identifier of the request and the health registry.\<close>

record request_reads =
  rd_catalog :: "tier_catalog option"
  rd_covered :: "byok_key list option"
  rd_opened :: "byok_key list option"
  rd_instant :: nat
  rd_time :: time
  rd_registry :: health

record prepared_request =
  pq_plan :: request_plan
  pq_estimate :: zerorouter_estimate
  pq_candidates :: "provider_candidate list"
  pq_transparency :: "(string \<times> bool \<times> string) option"
  pq_admission :: admission_request

definition prepare_route ::
    "gateway \<Rightarrow> request_reads \<Rightarrow> authenticated_key \<Rightarrow> request_plan \<Rightarrow> task_signature \<Rightarrow> cell_read \<Rightarrow> estimator \<Rightarrow>
     (api_error, provider_candidate list) result \<times> estimator" where
  "prepare_route gw rd key plan s cell e =
     (let request = pl_request plan; resolved = pl_resolved plan;
          bytes = prompt_tokens (reservation_usage (gw_render gw) request (max_output_of request))
      in case build_route gw resolved (max_output_of request)
                 (customer_credentials (gw_keyring gw) (gw_unseal gw) (rd_opened rd)) of
           Inl x \<Rightarrow> (Inl x, e)
         | Inr r \<Rightarrow>
             (let (cs, e1) = dispatch_order (rd_instant rd) (rd_time rd) (gw_entries gw)
                (pr_resolved (pl_priority plan))
                \<lparr> cx_signature = s, cx_signature_cell = cell, cx_input_bytes = bytes \<rparr> (rd_registry rd)
                (needs request bytes) resolved (rt_candidates r) e
              in (Inr cs, e1)))"

definition prepare_request ::
    "gateway \<Rightarrow> request_reads \<Rightarrow> authenticated_key \<Rightarrow> chat_completion_request \<Rightarrow> estimator \<Rightarrow>
     (api_error, prepared_request) result \<times> estimator" where
  "prepare_request gw rd key request e =
     (case plan_request gw (rd_catalog rd) key request of
        Inl x \<Rightarrow> (Inl x, e)
      | Inr plan \<Rightarrow>
          (let asked = pl_request plan;
               s = signature_of gw key asked;
               (cell, e1) = lookup_cell (rd_instant rd) (for_signature s) e;
               (learned, e2) = learned_bound_of (rd_instant rd) key s (pr_resolved (pl_priority plan))
                 (max_output_of asked) cell e1;
               covered = byok_covered_providers (gw_keyring gw) (rd_covered rd)
           in case size_request gw asked (pl_resolved plan) covered learned of
                Inl x \<Rightarrow> (Inl x, e2)
              | Inr (sizing, posture) \<Rightarrow>
                  (case prepare_route gw rd key plan s cell e2 of
                     (Inl x, e3) \<Rightarrow> (Inl x, e3)
                   | (Inr cs, e3) \<Rightarrow>
                       (Inr \<lparr> pq_plan = plan, pq_estimate = estimate_of cell (max_output_of asked),
                              pq_candidates = cs,
                              pq_transparency =
                                (if rq_stream asked then unanimous_transparency (pl_resolved plan) cs else None),
                              pq_admission =
                                \<lparr> aq_key = ak_id key, aq_user = ak_user key, aq_sizing = sizing, aq_byok = posture,
                                  aq_signature = s, aq_require_credits = gw_require_credits gw,
                                  aq_lane = (if free_lane_admissible (gw_entries gw) (pl_resolved plan) cs
                                             then Free else Reserved) \<rparr> \<rparr>, e3))))"

text \<open>The features of the request, from the size its reservation took.\<close>

definition features_of :: "gateway \<Rightarrow> prepared_request \<Rightarrow> usage_session \<Rightarrow> request_features" where
  "features_of gw pq session =
     (let asked = pl_request (pq_plan pq) in
      from_request asked (reservation_usage (gw_render gw) asked (nat (reserved_output_tokens session)))
        (pl_priority (pq_plan pq)) (pq_estimate pq))"

definition request_walk :: "gateway \<Rightarrow> request_reads \<Rightarrow> walk_context \<Rightarrow> prepared_request \<Rightarrow> walk_outcome \<times> walk_state" where
  "request_walk gw rd ctx pq =
     run_walk ctx (rd_registry rd) (provider_messages (gw_render gw) (pl_request (pq_plan pq))) (pq_candidates pq)"

text \<open>A request that is not streamed, once it is admitted: the first call marks the reservation, other
  requests change the database meanwhile, and what the walk came to is settled.\<close>

definition finish_request ::
    "gateway \<Rightarrow> request_reads \<Rightarrow> settling \<Rightarrow> walk_context \<Rightarrow> (db \<Rightarrow> db) \<Rightarrow> time \<Rightarrow> prepared_request \<Rightarrow> usage_session \<Rightarrow> db \<Rightarrow>
     ((api_error, served_response) result \<times> db) option" where
  "finish_request gw rd g ctx others dispatched pq session d =
     (let ended = request_walk gw rd ctx pq;
          d1 = (if w_calls (snd ended) = [] then d else snd (fire dispatched session (False, d)))
      in settle_walk g ctx session (pl_resolved (pq_plan pq)) (features_of gw pq session)
           (rq_max_tokens (pl_request (pq_plan pq))) ended (others d1))"

section \<open>A walk without a billable answer is free\<close>

definition same_money :: "db \<Rightarrow> db \<Rightarrow> bool" where
  "same_money d d' \<longleftrightarrow> users d' = users d \<and> ledger d' = ledger d"

lemma same_money_refl [simp]: "same_money d d"
  by (simp add: same_money_def)

text \<open>What every step of a settlement keeps, its retries keep.\<close>

lemma settle_with_retry_keeps:
  assumes settle: "\<And>now x. P x \<Longrightarrow> P (snd (settle_once D T cal now rid kid i x))"
    and failure: "\<And>now e x. P x \<Longrightarrow> P (snd (record_settle_failure T now rid e x))"
  shows "P d \<Longrightarrow> P (snd (settle_with_retry_from a D T cal env rid kid i d))"
proof (induction "Suc SETTLEMENT_ATTEMPTS - a" arbitrary: a d rule: less_induct)
  case less
  obtain o1 d1 where f: "faulty (env_settle env a) (settle_once D T cal (env_now env a) rid kid i) d = (o1, d1)"
    by fastforce
  have d1: "P d1"
    using faulty_state [of "env_settle env a" "settle_once D T cal (env_now env a) rid kid i" d] f settle less.prems
    by (metis snd_conv)
  define d2 where "d2 e = snd (faulty (env_failure env a) (record_settle_failure T (env_now env a) rid e) d1)" for e
  have d2: "P (d2 e)" for e
    using faulty_state [of "env_failure env a" "record_settle_failure T (env_now env a) rid e" d1] failure [OF d1]
    by (metis d1 d2_def)
  have again: "P (snd (settle_with_retry_from (a + 1) D T cal env rid kid i (d2 e)))" if "\<not> SETTLEMENT_ATTEMPTS \<le> a" for e
    using less.hyps [OF _ d2] that by simp
  show ?case
    using d1 d2 again by (subst settle_with_retry_from.simps) (auto simp: f Let_def d2_def split: sum.split)
qed

lemma persist_keeps_money: "same_money d (persist_with_retry_from a env s i d)"
proof (induction "Suc SETTLEMENT_ATTEMPTS - a" arbitrary: a d rule: less_induct)
  case less
  obtain o1 d1 where f: "faulty (env_persist env a) (\<lambda>x. (Inr (), persist_intent (env_now env a) s i x)) d = (o1, d1)"
    by fastforce
  have d1: "same_money d d1"
    using faulty_state [of "env_persist env a" "\<lambda>x. (Inr (), persist_intent (env_now env a) s i x)" d] f
    by (auto simp: same_money_def persist_intent_def)
  have "same_money d1 (persist_with_retry_from (a + 1) env s i d1)" if "\<not> SETTLEMENT_ATTEMPTS < a" "a \<noteq> SETTLEMENT_ATTEMPTS"
    using less.hyps that by simp
  then show ?case
    using d1 by (subst persist_with_retry_from.simps) (auto simp: f same_money_def split: sum.split)
qed

text \<open>A settle of an intent that owes nothing moves no money.\<close>

lemma settled_cost_le: "settled_cost D cal now u r d = Inr charge \<Longrightarrow> fst charge \<le> cost_usd r"
  by (auto simp: settled_cost_def Let_def split: option.splits)

lemma settle_once_free:
  assumes free: "\<And>r. to_record T i = Inr r \<Longrightarrow> cost_usd r \<le> 0"
  shows "same_money d (snd (settle_once D T cal now rid kid i d))"
proof -
  obtain out d' where s: "settle_once D T cal now rid kid i d = (out, d')"
    by fastforce
  show ?thesis
  proof (cases "out = Inr Settled")
    case True
    obtain row r snapshot counts where r: "List.find (owed_row rid kid) (reservations d) = Some row" "to_record T i = Inr r"
        "reserved_cost_snapshot T i = Inr snapshot" "intent_counts r = Inr counts"
        "settle_body D cal now rid kid i r snapshot counts (r_cost row)
          (d\<lparr> reservations := List.filter (\<lambda>x. \<not> owed_row rid kid x) (reservations d) \<rparr>) = Inr d'"
      by (rule settle_once_Settled [OF s [unfolded True]])
    obtain charge d2 where b: "settled_cost D cal now (si_user_id i) r
          (d\<lparr> reservations := List.filter (\<lambda>x. \<not> owed_row rid kid x) (reservations d) \<rparr>) = Inr charge"
        "users d2 = users d" "ledger d2 = ledger d"
        "(if si_require_credits i then debit_user now rid (si_user_id i) (min (fst charge) (r_cost row)) d2 else Inr d2) = Inr d'"
      using r(5) by (rule settle_body_Inr) simp
    have "min (fst charge) (r_cost row) \<le> 0"
      using settled_cost_le [OF b(1)] free [OF r(2)] by simp
    then show ?thesis
      using b(2-4) by (auto simp: s same_money_def debit_user_def split: if_splits)
  next
    case False
    then show ?thesis
      using settle_once_not_Settled [OF s] by (auto simp: s same_money_def discard_settled_reservation_def)
  qed
qed

lemma record_free_usage:
  assumes T: "d_parse T (d_show T 0) = Some 0" and r: "cost_usd r = 0"
  shows "same_money d (snd (record_usage D T cal env s r d))"
proof (cases "us_reservation s")
  case None
  then show ?thesis
    by (auto simp: record_usage_def observe_free_usage_def same_money_def insert_event_Inr split: sum.split)
next
  case (Some handle)
  define i where "i = intent_new T s handle r"
  have free: "cost_usd r' \<le> 0" if "to_record T i = Inr r'" for r'
    using that T r by (auto simp: i_def to_record_def intent_new_def bind_result_Inr settlement_decimal_def split: option.splits)
  have "same_money d (snd (settle_with_retry_from 1 D T cal env (us_request_id s) (us_api_key_id s) i
      (persist_with_retry_from 1 env s i d)))"
  proof (rule settle_with_retry_keeps)
    fix now x assume "same_money d x"
    then show "same_money d (snd (settle_once D T cal now (us_request_id s) (us_api_key_id s) i x))"
      using settle_once_free [OF free, where d = x] by (auto simp: same_money_def)
  next
    fix now e x assume "same_money d x"
    then show "same_money d (snd (record_settle_failure T now (us_request_id s) e x))"
      using failure_untouched [where d = x and T = T and now = now and rid = "us_request_id s" and e = e] by (auto simp: same_money_def untouched_def)
  qed (rule persist_keeps_money)
  then show ?thesis
    by (simp add: record_usage_def Some i_def Let_def settle_with_retry_def)
qed

lemma dec_repr_zero [simp]: "dec_repr 0"
proof -
  have "(0 :: nat) < 29"
    by simp
  then show ?thesis
    unfolding dec_repr_def at_scale_def list_ex_iff by (auto intro: exI [of _ 0])
qed

lemma usage_cost_nothing:
  assumes "decimal_exact D" "usage_cost D r default_usage = Some c"
  shows "c = 0"
proof -
  have m [simp]: "d_mul D 0 x = Some 0" and a [simp]: "d_add D 0 0 = Some 0" and v [simp]: "d_div D 0 1000000 = Some 0" for x
    using decimal_exact_mul [OF assms(1), of 0 x] decimal_exact_add [OF assms(1), of 0 0]
      decimal_exact_div [OF assms(1), of 1000000 0] by simp_all
  have "fresh_part default_usage = 0" "cached_part default_usage = 0" "written_part default_usage = 0"
    by (simp_all add: part_defs default_usage_def cached_input_tokens_def cache_write_tokens_def)
  then show ?thesis
    using assms(2) by (auto simp: usage_cost_parts default_usage_def bind_eq_Some_conv)
qed

lemma persist_default_free:
  assumes "decimal_exact (sg_decimal g)" "d_parse (sg_text g) (d_show (sg_text g) 0) = Some 0"
  shows "same_money d (snd (persist_usage g session resolved provider model c default_usage f finish shape gap rows clock code d))"
proof (cases "usage_record_of (sg_decimal g) resolved provider model c default_usage f finish shape gap rows clock code")
  case (Inl e)
  then show ?thesis
    by (simp add: persist_usage_def)
next
  case (Inr r)
  have "d_mul (sg_decimal g) 0 x = Some 0" for x
    using decimal_exact_mul [OF assms(1), of 0 x] by simp
  moreover obtain c0 where "usage_cost (sg_decimal g) (at_prompt_tokens (rr_sell_rates resolved) (prompt_tokens default_usage))
        default_usage = Some c0" "d_mul (sg_decimal g) c0 (byok_rate f) = Some (cost_usd r)"
    using Inr by (auto simp: usage_record_of_def Let_def apply_fee_def split: option.splits)
  ultimately have "cost_usd r = 0"
    using usage_cost_nothing [OF assms(1)] by (metis option.inject)
  then have "same_money d (snd (record_usage (sg_decimal g) (sg_text g) (sg_calendar g) (sg_environment g) session r d))"
    by (rule record_free_usage [OF assms(2)])
  then show ?thesis
    by (auto simp: persist_usage_def Inr split: sum.split prod.split)
qed

text \<open>A walk that came to nothing a customer can be billed for: a refusal, or an answer without usage.\<close>

definition unbilled :: "walk_outcome \<Rightarrow> bool" where
  "unbilled res =
     (case res of
        WalkRefused _ \<Rightarrow> True
      | WalkServed _ response _ _ \<Rightarrow> try_from_provider (cr_usage response) = None
      | WalkPanicked \<Rightarrow> False)"

text \<open>C14: A request whose walk is refused, or whose answer carries no usage, is answered with an error and
  moves no money, whatever faults its settlement meets: no balance changes and the ledger gets no entry.\<close>

theorem unbilled_walk_is_free:
  assumes "decimal_exact (sg_decimal g)" "d_parse (sg_text g) (d_show (sg_text g) 0) = Some 0"
    and "unbilled (fst ended)" "settle_walk g ctx session resolved f max_tokens ended d = Some (res, d')"
  shows "(\<exists>e. res = Inl e) \<and> users d' = users d \<and> ledger d' = ledger d"
proof -
  obtain out w where ended: "ended = (out, w)"
    by fastforce
  note free = persist_default_free [OF assms(1,2)]
  show ?thesis
  proof (cases out)
    case (WalkRefused terminal)
    obtain provider model where named: "(case w_last w of None \<Rightarrow> (''fallback-chain'', rr_requested_model resolved)
        | Some c \<Rightarrow> (c_provider c, c_model c)) = (provider, model)"
      by fastforce
    have "(\<exists>e. res = Inl e) \<and> d' = snd (persist_usage g session resolved provider model (w_last w) default_usage f None None
        None (wl_rows (w_ledger w)) (w_clock w) (terminal_status terminal) d)"
      using assms(4) by (auto simp: settle_walk_def ended WalkRefused settle_walk_terminal_def named
          split: sum.splits prod.splits)
    then show ?thesis
      using free by (auto simp: same_money_def)
  next
    case (WalkServed pc response no begun)
    then have "try_from_provider (cr_usage response) = None"
      using assms(3) by (simp add: ended unbilled_def)
    then have "(\<exists>e. res = Inl e) \<and> d' = snd (persist_usage g session resolved (c_provider (pc_definition pc))
        (c_model (pc_definition pc)) (Some (pc_definition pc)) default_usage (on_candidate pc f) None None None
        (wl_rows (served_rows ctx (pc_definition pc) no begun False tokens_unknown None w)) (w_clock w) 502 d)"
      using assms(4) by (auto simp: settle_walk_def ended WalkServed serve_completion_def Let_def
          split: sum.splits prod.splits)
    then show ?thesis
      using free by (auto simp: same_money_def)
  next
    case WalkPanicked
    then show ?thesis
      using assms(3) by (simp add: ended unbilled_def)
  qed
qed

lemma fold_map_insert: "map_of (fold (\<lambda>(k, v). map_insert k v) es m) = map_of m ++ map_of (rev es)"
  by (induction es arbitrary: m) (auto simp: map_of_map_insert fun_eq_iff map_add_def split: option.split)

lemma map_of_map_collect: "map_of (map_collect es) = map_of (rev es)"
  by (simp add: map_collect_def fold_map_insert)

lemma map_of_keyed: "map_of (List.map (\<lambda>x. (f x, g x)) xs) y = map_option g (map_of (List.map (\<lambda>x. (f x, x)) xs) y)"
  by (induction xs) simp_all

section \<open>Held and charged\<close>

definition keys_usable :: "inventory \<Rightarrow> (string \<Rightarrow> string \<Rightarrow> string option) \<Rightarrow> byok_key list \<Rightarrow> bool" where
  "keys_usable entries unseal rows \<longleftrightarrow>
     list_all (\<lambda>k. provider_accepts_byok entries (bk_provider k) \<and> unseal (bk_provider k) (bk_sealed k) \<noteq> None) rows"

lemma covered_key_opens:
  assumes "keys_usable entries unseal rows"
    and "map_of (byok_covered_providers keyring (Some rows)) provider = Some fb"
  shows "\<exists>key. map_of (customer_credentials keyring unseal (Some rows)) provider = Some (key, fb)"
    and "provider_accepts_byok entries provider"
proof -
  let ?rows = "List.map (\<lambda>k. (bk_provider k, k)) (rev rows)"
  have on: keyring
    using assms(2) by (simp add: byok_covered_providers_def split: if_splits)
  have open': "open_credentials unseal rows =
      List.map (\<lambda>k. (bk_provider k, the (unseal (bk_provider k) (bk_sealed k)), bk_fallback k)) rows"
    using assms(1) by (induction rows) (auto simp: open_credentials_def keys_usable_def List.map_filter_simps)
  have "map_of (rev (covered_providers rows)) provider = map_option bk_fallback (map_of ?rows provider)"
    by (simp add: covered_providers_def rev_map map_of_keyed [of bk_provider bk_fallback])
  moreover have "map_of (rev (open_credentials unseal rows)) provider =
      map_option (\<lambda>k. (the (unseal (bk_provider k) (bk_sealed k)), bk_fallback k)) (map_of ?rows provider)"
    by (simp add: open' rev_map map_of_keyed [of bk_provider "\<lambda>k. (the (unseal (bk_provider k) (bk_sealed k)), bk_fallback k)"])
  ultimately obtain k where k: "map_of ?rows provider = Some k"
      "map_of (customer_credentials keyring unseal (Some rows)) provider =
         Some (the (unseal (bk_provider k) (bk_sealed k)), fb)"
    using assms(2) on
    by (auto simp: byok_covered_providers_def customer_credentials_def with_fallback_def map_of_map_collect)
  then show "\<exists>key. map_of (customer_credentials keyring unseal (Some rows)) provider = Some (key, fb)"
    by blast
  show "provider_accepts_byok entries provider"
    using map_of_SomeD [OF k(1)] assms(1) by (auto simp: keys_usable_def list_all_iff)
qed

lemma fee_below_house: "fee_rate \<le> house_rate"
  by (simp add: fee_rate_def house_rate_def)

lemma byok_rate_le_house: "byok_rate f \<le> house_rate"
  using fee_below_house by (simp add: byok_rate_def)

lemma wholly_covered_group:
  assumes "candidate_group ctx c g" "x \<in> set g" "provider_accepts_byok (bc_entries ctx) (c_provider c)"
    and "map_of (bc_byok ctx) (c_provider c) = Some (key, False)"
  shows "pc_byok x"
proof -
  obtain p where p: "find_provider (bc_entries ctx) (c_provider c) = Some p"
    using assms(3) by (auto simp: provider_accepts_byok_def split: option.splits)
  then have "byok_credential ctx p = Some key"
    using assms(3,4) find_provider_SomeD [OF p] by (simp add: byok_credential_def provider_accepts_byok_def byok_get_def)
  then have g: "length g \<le> 1" "\<forall>y \<in> set (take 1 g). pc_byok y"
    using assms(1,4) p by (auto simp: candidate_group_def falls_back_def)
  then show ?thesis
    using assms(2) by (cases g) auto
qed

lemma build_route_Inr:
  assumes "build_route gw resolved max_output credentials = Inr r"
  obtains ctx where "build_with_byok ctx (rr_candidates resolved) = Inr r" "bc_entries ctx = gw_entries gw"
    "bc_byok ctx = credentials" "bc_header_name ctx = gw_header_name gw"
  using assms by (auto simp: build_route_def new_with_byok_def Let_def split: sum.splits)

text \<open>C13: Where every key of the customer opens and its provider takes one, no rung of the route is billed
  at more than the rate the reservation was sized at: a request held at the fee has no rung the house
  pays for.\<close>

theorem reservation_rate_covers_every_rung:
  assumes "assembled (gw_header_name gw) shipped operator = Inr (gw_entries gw)"
    and "keys_usable (gw_entries gw) (gw_unseal gw) rows"
    and "build_route gw resolved max_output (customer_credentials (gw_keyring gw) (gw_unseal gw) (Some rows)) = Inr r"
    and "x \<in> set (rt_candidates r)"
  shows "byok_rate (on_candidate x f) \<le> byok_reservation_rate resolved (byok_covered_providers (gw_keyring gw) (Some rows))"
proof (cases "list_all (\<lambda>c. map_of (byok_covered_providers (gw_keyring gw) (Some rows)) (c_provider c) = Some False)
    (rr_candidates resolved)")
  case False
  then show ?thesis
    by (simp add: byok_reservation_rate_def byok_rate_le_house)
next
  case True
  obtain ctx where ctx: "build_with_byok ctx (rr_candidates resolved) = Inr r" "bc_entries ctx = gw_entries gw"
      "bc_byok ctx = customer_credentials (gw_keyring gw) (gw_unseal gw) (Some rows)" "bc_header_name ctx = gw_header_name gw"
    by (rule build_route_Inr [OF assms(3)])
  obtain groups where groups: "rt_candidates r = concat groups" "list_all2 (candidate_group ctx) (rr_candidates resolved) groups"
    using route_groups [OF _ ctx(1)] assms(1) ctx(2,4) by auto
  then obtain c g where g: "candidate_group ctx c g" "x \<in> set g" "c \<in> set (rr_candidates resolved)"
    using assms(4) by (auto simp: list_all2_conv_all_nth in_set_conv_nth) (metis nth_mem)
  have covered: "map_of (byok_covered_providers (gw_keyring gw) (Some rows)) (c_provider c) = Some False"
    using True g(3) by (simp add: list_all_iff)
  obtain key where "map_of (bc_byok ctx) (c_provider c) = Some (key, False)" "provider_accepts_byok (bc_entries ctx) (c_provider c)"
    using covered_key_opens [OF assms(2) covered] ctx(2,3) by auto
  then have "pc_byok x"
    using wholly_covered_group [OF g(1,2)] by blast
  then show ?thesis
    using fee_below_house by (simp add: byok_rate_def on_candidate_def byok_reservation_rate_def)
qed

lemma exact_cost_money:
  assumes "conversion_ok D" "rates_billable D r" "prompt_tokens u \<le> max_priced_tokens" "completion_tokens u \<le> max_priced_tokens"
  shows "at_scale 12 (exact_cost D r u)" "0 \<le> exact_cost D r u" "exact_cost D r u \<le> 2 ^ 48"
proof -
  note b = assms(2) [unfolded rates_billable_def]
  note i = billable6D [OF assms(1) conjunct1 [OF b]] and o = billable6D [OF assms(1) conjunct1 [OF conjunct2 [OF b]]]
    and c = billable6D [OF assms(1) conjunct1 [OF conjunct2 [OF conjunct2 [OF b]]]]
    and w = billable6D [OF assms(1) conjunct2 [OF conjunct2 [OF conjunct2 [OF b]]]]
  have n: "fresh_part u \<le> max_priced_tokens" "cached_part u \<le> max_priced_tokens" "written_part u \<le> max_priced_tokens"
    using parts_sum [of u] assms(3) by simp_all
  define x where "x = of_nat (fresh_part u) * price D (billed_input r) + of_nat (cached_part u) * price D (billed_cached r)
      + of_nat (written_part u) * price D (billed_write r) + of_nat (completion_tokens u) * price D (billed_output r)"
  have e: "exact_cost D r u = x / 10 ^ 6"
    by (simp add: exact_cost_def x_def)
  have "at_scale 6 x"
    unfolding x_def using i c w o by (intro at_scale_add at_scale_of_nat_mult) simp_all
  then have "at_scale (6 + 6) (x / 10 ^ 6)"
    by (rule at_scale_div_pow)
  then show "at_scale 12 (exact_cost D r u)"
    by (simp add: e)
  note t = term_bound [OF i(3,4) n(1)] term_bound [OF c(3,4) n(2)] term_bound [OF w(3,4) n(3)] term_bound [OF o(3,4) assms(4)]
  have x: "0 \<le> x" "x \<le> 4 * (2 ^ 46 * 1000000)"
    using t unfolding x_def by linarith+
  show "0 \<le> exact_cost D r u" "exact_cost D r u \<le> 2 ^ 48"
    using x by (simp_all add: e)
qed

lemma apply_fee_exact:
  assumes D: "decimal_exact D" and c: "at_scale 12 c" "0 \<le> c" "c \<le> 2 ^ 48" and rate: "rate = fee_rate \<or> rate = house_rate"
  shows "apply_fee D c rate = Some (c * rate)"
proof -
  have "dec_repr (c * rate)"
  proof (cases "rate = house_rate")
    case True
    have "\<bar>c * 10 ^ 12\<bar> < 2 ^ 96"
      using c(2,3) by simp
    then show ?thesis
      using True by (simp add: house_rate_def dec_reprI [OF c(1)])
  next
    case False
    have "c * fee_rate * 10 ^ 14 = c * 10 ^ 12 * of_nat 5"
      by (simp add: fee_rate_def)
    then have "at_scale 14 (c * fee_rate)"
      using c(1) unfolding at_scale_iff by (metis Ints_mult Ints_of_nat)
    moreover have "\<bar>c * fee_rate * 10 ^ 14\<bar> < 2 ^ 96"
      using c(2,3) by (simp add: fee_rate_def)
    ultimately show ?thesis
      using False rate by (auto intro: dec_reprI)
  qed
  then show ?thesis
    using decimal_exact_mul [OF D] by (simp add: apply_fee_def)
qed

lemma byok_rate_known: "byok_rate f = fee_rate \<or> byok_rate f = house_rate"
  and reservation_rate_known: "byok_reservation_rate resolved covered = fee_rate \<or> byok_reservation_rate resolved covered = house_rate"
  by (simp_all add: byok_rate_def byok_reservation_rate_def)

text \<open>C12: What a request is settled at never exceeds what was held for it: for usage within the bound the
  reservation was sized for, in whichever band the prompt falls, billed at no more than the rate of the
  reservation, the record's cost is at most the reservation's.\<close>

theorem settled_within_reserved:
  assumes "decimal_exact D" "conversion_ok D" "\<forall>t \<in> set (tables (rr_sell_rates resolved)). rates_billable D t"
    and bound: "bound = reservation_usage render request output_bound" "prompt_tokens bound \<le> max_priced_tokens"
      "completion_tokens bound \<le> max_priced_tokens" "usage_within u bound"
    and size: "sized_reservation D render request resolved output_bound (byok_reservation_rate resolved covered) = Inr held"
    and rate: "byok_rate f \<le> byok_reservation_rate resolved covered"
    and settled: "usage_record_of D resolved provider model c u f finish shape gap rows clock code = Inr r"
  shows "0 \<le> cost_usd r \<and> cost_usd r \<le> rs_cost_usd held"
proof -
  define s where "s = rr_sell_rates resolved"
  have u: "prompt_tokens u \<le> max_priced_tokens" "completion_tokens u \<le> max_priced_tokens"
    using bound(2-4) by (simp_all add: usage_within_def)
  have billable: "rates_billable D (at_prompt_tokens s (prompt_tokens u))" "rates_billable D (reservation_rates s)"
    using assms(2,3) at_prompt_tokens_in_tables rates_billable_reservation unfolding s_def by blast+
  let ?c = "exact_cost D (at_prompt_tokens s (prompt_tokens u)) u" and ?h = "exact_cost D (reservation_rates s) bound"
  have priced: "usage_cost D (at_prompt_tokens s (prompt_tokens u)) u = Some ?c" "usage_cost D (reservation_rates s) bound = Some ?h"
    by (intro usage_cost_exact [OF assms(1,2)] billable u bound(2,3))+
  have "prompt_tokens_details bound = None"
    by (simp add: bound(1) reservation_usage_def Let_def)
  then have le: "?c \<le> ?h"
    using reservation_covers_any_band [OF assms(1,2) assms(3) bound(4) _ bound(2,3), of "prompt_tokens u"] priced
    unfolding s_def by auto
  note mc = exact_cost_money [OF assms(2) billable(1) u] and mh = exact_cost_money [OF assms(2) billable(2) bound(2,3)]
  have "cost_usd r = ?c * byok_rate f"
    using settled priced(1) apply_fee_exact [OF assms(1) mc byok_rate_known]
    by (auto simp: usage_record_of_def Let_def s_def)
  moreover have "rs_cost_usd held = ?h * byok_reservation_rate resolved covered"
    using size priced(2) apply_fee_exact [OF assms(1) mh reservation_rate_known] bound(1)
    by (auto simp: sized_reservation_def Let_def s_def split: if_splits)
  moreover have "0 \<le> byok_rate f"
    by (simp add: byok_rate_def fee_rate_def house_rate_def)
  ultimately show ?thesis
    using mc(2) mult_mono [OF le rate mh(2)] by simp
qed

section \<open>Who is called\<close>

lemma list_all2_member: "list_all2 P xs ys \<Longrightarrow> y \<in> set ys \<Longrightarrow> \<exists>x \<in> set xs. P x y"
  by (induction rule: list_all2_induct) auto

lemma build_route_definitions:
  assumes "build_with_byok ctx cs = Inr r" "x \<in> set (rt_candidates r)"
  shows "pc_definition x \<in> set cs"
proof -
  obtain groups where groups: "map_result (reference_entries ctx) cs = Inr groups" "rt_candidates r = concat groups"
    using assms(1) unfolding build_reference
    by (auto simp: reference_route_def bind_result_def split: if_splits sum.splits)
  have rel: "list_all2 (\<lambda>c g. reference_entries ctx c = Inr g) cs groups"
    by (rule map_result_list_all2 [OF groups(1)])
  obtain g where g: "g \<in> set groups" "x \<in> set g"
    using assms(2) groups(2) by auto
  obtain c where c: "c \<in> set cs" "reference_entries ctx c = Inr g"
    using list_all2_member [OF rel g(1)] by blast
  then have "pc_definition x = c"
    using g(2) by (auto simp: reference_entries_def candidate_rows_def split: option.splits client_result.splits)
  with c(1) show ?thesis
    by simp
qed

lemma set_dispatch_order:
  "set (fst (dispatch_order now clock entries p cx h wants resolved cs e)) = set cs"
proof -
  have "\<forall>g \<in> set (List.map (\<lambda>c. [c]) cs). uniform g"
    by (auto simp: uniform_def)
  then obtain hs where hs: "mset hs = mset (List.map (\<lambda>c. [c]) cs)"
      "fst (dispatch_order now clock entries p cx h wants resolved (concat (List.map (\<lambda>c. [c]) cs)) e) = concat hs"
    by (rule groupwiseE [OF groupwise_dispatch]) blast
  have "concat (List.map (\<lambda>c. [c]) cs) = cs"
    by (induction cs) simp_all
  moreover have "set hs = (\<lambda>c. [c]) ` set cs"
    using mset_eq_setD [OF hs(1)] by simp
  ultimately show ?thesis
    using hs(2) by auto
qed

lemma prepared_candidates:
  assumes "prepare_request gw rd key request e = (Inr pq, e1)" "x \<in> set (pq_candidates pq)"
  shows "pc_definition x \<in> set (rr_candidates (pl_resolved (pq_plan pq)))"
proof -
  obtain plan s cell e2 cs e3 where p: "pq_plan pq = plan" "pq_candidates pq = cs" "prepare_route gw rd key plan s cell e2 = (Inr cs, e3)"
    using assms(1) by (auto simp: prepare_request_def Let_def split: sum.splits prod.splits)
  obtain r where r: "build_route gw (pl_resolved plan) (max_output_of (pl_request plan))
        (customer_credentials (gw_keyring gw) (gw_unseal gw) (rd_opened rd)) = Inr r" "set cs = set (rt_candidates r)"
    using p(3) set_dispatch_order
    by (auto simp: prepare_route_def Let_def split: sum.splits prod.splits) (metis fst_conv)+
  obtain ctx where "build_with_byok ctx (rr_candidates (pl_resolved plan)) = Inr r"
    using r(1) by (auto simp: build_route_def new_with_byok_def Let_def split: sum.splits)
  then show ?thesis
    using build_route_definitions assms(2) p(1,2) r(2) by blast
qed

interpretation listed: walk_invariant ok "\<lambda>_ w. \<forall>x \<in> set (w_calls w). ok (uc_candidate x)" for ok
  by unfold_locales (auto simp: call_upstream_def note_failure_def push_row_def sleep_backoff_def meanwhile_def Let_def)

lemma calls_on_route:
  assumes "x \<in> set (w_calls (snd (run_walk ctx h ms cs)))"
  shows "uc_candidate x \<in> set cs"
  using listed.run_keeps [where ok = "\<lambda>c. c \<in> set cs" and ctx = ctx and cs = cs and h = h and ms = ms] assms
  by (simp add: walk_start_def)

text \<open>A house client on a route, for a provider the customer has a key to, is that key's twin.\<close>

lemma house_beside_key:
  assumes "list_all2 (candidate_group ctx) cs groups" "x \<in> set (concat groups)" "\<not> pc_byok x"
    and "find_provider (bc_entries ctx) (c_provider (pc_definition x)) = Some p" "byok_credential ctx p \<noteq> None"
  shows "pc_fallback_for x = Some (c_provider (pc_definition x)) \<and> falls_back (bc_byok ctx) (c_provider (pc_definition x))"
proof -
  obtain g where "g \<in> set groups" "x \<in> set g"
    using assms(2) by auto
  then obtain c where g: "candidate_group ctx c g" "x \<in> set g"
    using assms(1) by (metis in_set_conv_nth list_all2_nthD2)
  obtain key where key: "byok_credential ctx p = Some key"
    using assms(5) by blast
  have c: "pc_definition x = c"
    using g by (auto simp: candidate_group_def)
  have first: "\<forall>y \<in> set (take 1 g). pc_byok y" and rest: "\<forall>y \<in> set (drop 1 g). pc_fallback_for y = Some (c_provider c)"
      and len: "length g \<le> (if falls_back (bc_byok ctx) (c_provider c) then 2 else 1)"
    using g(1) assms(4) key by (auto simp: candidate_group_def c)
  have "x \<in> set (take 1 g) \<or> x \<in> set (drop 1 g)"
    using g(2) by (metis Un_iff append_take_drop_id set_append)
  then have "x \<in> set (drop 1 g)"
    using first assms(3) by blast
  moreover from this have "1 < length g"
    by (cases g) (auto simp: Suc_le_eq)
  ultimately show ?thesis
    using rest len by (auto simp: c split: if_splits)
qed

text \<open>C7: On a route that was built for a customer, a buffered walk over it calls the house's own client of a provider that
  the customer's key serves only where the customer let that key fall back, and only when an earlier call of the same walk went to
  that provider with the customer's key and failed in a way that permits the fallback, whatever the upstreams
  answer and whoever else uses them.  Providers the customer has no key to are not restricted.\<close>

theorem house_called_after_their_key:
  assumes "assembled (bc_header_name ctx) shipped operator = Inr (bc_entries ctx)" "build_with_byok ctx cs = Inr r"
    and "calls = w_calls (snd (run_walk wctx registry messages (rt_candidates r)))" "i < length calls"
    and "x = uc_candidate (calls ! i)" "\<not> pc_byok x"
    and "find_provider (bc_entries ctx) (c_provider (pc_definition x)) = Some p" "byok_credential ctx p \<noteq> None"
  shows "falls_back (bc_byok ctx) (c_provider (pc_definition x)) \<and> (\<exists>j < i. arms (calls ! j) (c_provider (pc_definition x)))"
proof -
  obtain groups where groups: "rt_candidates r = concat groups" "list_all2 (candidate_group ctx) cs groups"
    using route_groups [OF assms(1,2)] by blast
  have "x \<in> set (rt_candidates r)"
    using calls_on_route [of "calls ! i"] assms(3-5) nth_mem by metis
  then have twin: "pc_fallback_for x = Some (c_provider (pc_definition x))" "falls_back (bc_byok ctx) (c_provider (pc_definition x))"
    using house_beside_key [OF groups(2) _ assms(6-8)] groups(1) by simp_all
  have "twin_justified (take i calls) (calls ! i)"
    using twins_only_after_their_key [of wctx registry messages "rt_candidates r"] assms(3,4)
    by (simp add: twins_justified_def list_all_iff)
  then have "list_ex (\<lambda>y. arms y (c_provider (pc_definition x))) (take i calls)"
    using twin(1) by (simp add: twin_justified_def assms(5) [symmetric])
  then obtain y where "y \<in> set (take i calls)" "arms y (c_provider (pc_definition x))"
    by (auto simp: list_ex_iff)
  then have "\<exists>j < i. arms (calls ! j) (c_provider (pc_definition x))"
    using assms(4) by (auto simp: in_set_conv_nth)
  then show ?thesis
    using twin(2) by simp
qed

lemma planned_retention:
  assumes "plan_request gw catalog key request = Inr plan" "rr_routed (pl_resolved plan)"
    and "c \<in> set (rr_candidates (pl_resolved plan))"
  shows "\<exists>posture. (c_id c, posture) \<in> set (rr_retention (pl_resolved plan)) \<and> permits (ak_retention_policy key) posture"
proof -
  obtain cat n p where plan: "plan_route gw cat key n request = Inr (pl_resolved plan, p)"
    using assms(1) by (auto simp: plan_request_def bind_result_Inr split: option.splits)
  then obtain resolved1 where kept: "keep_permitted (ak_retention_policy key) resolved1 = Inr (pl_resolved plan)"
    by (auto simp: plan_route_def bind_result_Inr split: option.splits)
  then have routed: "rr_routed resolved1"
    using assms(2) by (auto simp: keep_permitted_def Let_def split: if_splits)
  with kept have "pl_resolved plan = resolved1\<lparr> rr_candidates := List.filter (\<lambda>c. c_id c \<in> set
      (List.map fst (List.filter (\<lambda>(_, posture). permits (ak_retention_policy key) posture) (rr_retention resolved1))))
      (rr_candidates resolved1) \<rparr>"
    by (auto simp: keep_permitted_def Let_def split: if_splits)
  then show ?thesis
    using assms(3) by auto
qed

lemma prepared_plan:
  "prepare_request gw rd key request e = (Inr pq, e1) \<Longrightarrow> plan_request gw (rd_catalog rd) key request = Inr (pq_plan pq)"
  by (auto simp: prepare_request_def Let_def split: sum.splits prod.splits)

text \<open>C11: A key that demands zero retention never reaches another upstream: on a routed identifier every
  call a walk makes, house twins and retries included, goes to a candidate of the route whose posture the
  catalog records as zero retention.\<close>

theorem zdr_calls_only_zero_retention:
  assumes "prepare_request gw rd key request e = (Inr pq, e1)" "ak_retention_policy key = ZdrOnly"
    and "rr_routed (pl_resolved (pq_plan pq))" "call \<in> set (w_calls (snd (request_walk gw rd ctx pq)))"
  shows "pc_definition (uc_candidate call) \<in> set (rr_candidates (pl_resolved (pq_plan pq))) \<and>
    (c_id (pc_definition (uc_candidate call)), Zero) \<in> set (rr_retention (pl_resolved (pq_plan pq)))"
proof -
  have "uc_candidate call \<in> set (pq_candidates pq)"
    using calls_on_route assms(4) unfolding request_walk_def by blast
  from prepared_candidates [OF assms(1) this]
  have c: "pc_definition (uc_candidate call) \<in> set (rr_candidates (pl_resolved (pq_plan pq)))" .
  then obtain posture where "(c_id (pc_definition (uc_candidate call)), posture) \<in> set (rr_retention (pl_resolved (pq_plan pq)))"
      "permits ZdrOnly posture"
    using planned_retention [OF prepared_plan [OF assms(1)] assms(3)] assms(2) by metis
  then show ?thesis
    using c by (cases posture) simp_all
qed

section \<open>One gateway\<close>

definition demo_route :: resolved_route where
  "demo_route = \<lparr> rr_requested_model = ''auto'', rr_candidates = [demo_candidate ''xai'' 2],
     rr_sell_rates = demo_schedule, rr_retention = [(''groq/m'', Standard), (''xai/m'', Zero)], rr_routed = True \<rparr>"

definition demo_routed_catalog :: tier_catalog where
  "demo_routed_catalog = demo_catalog\<lparr> cat_unified := [(''auto'',
     \<lparr> um_definition = \<lparr> td_candidates = [demo_candidate ''groq'' 1, demo_candidate ''xai'' 2],
         td_rates = demo_schedule, td_retention = None \<rparr>,
       um_retention = [(''groq/m'', Standard), (''xai/m'', Zero)] \<rparr>)] \<rparr>"

definition demo_byok_keys :: "byok_key list" where
  "demo_byok_keys = [\<lparr> bk_provider = ''xai'', bk_sealed = ''sealed'', bk_fallback = False \<rparr>]"

definition demo_gateway :: gateway where
  "demo_gateway = \<lparr> gw_decimal = exact_decimal, gw_render = (\<lambda>_. ''{}''), gw_url = (\<lambda>_. None), gw_sha256 = (\<lambda>_. ''aa''),
     gw_show_uuid = show_nat, gw_unseal = (\<lambda>_ _. Some ''own''), gw_mint = (\<lambda>_ _. None), gw_header_name = (\<lambda>_. True),
     gw_env = (\<lambda>_. None), gw_entries = [demo_provider, demo_local], gw_unified_ids = True, gw_keyring = True,
     gw_require_credits = True \<rparr>"

definition demo_reads :: request_reads where
  "demo_reads = \<lparr> rd_catalog = Some demo_routed_catalog, rd_covered = Some demo_byok_keys, rd_opened = Some demo_byok_keys,
     rd_instant = 0, rd_time = 1000, rd_registry = cooling \<rparr>"

definition demo_authenticated :: authenticated_key where
  "demo_authenticated = \<lparr> ak_id = 5, ak_user = 1, ak_default_priority = None, ak_retention_policy = ZdrOnly \<rparr>"

definition demo_question :: chat_completion_request where
  "demo_question = demo_chat\<lparr> rq_messages := [demo_turn ''user'' (JString ''hello'')] \<rparr>"

definition demo_settling :: settling where
  "demo_settling = \<lparr> sg_decimal = exact_decimal, sg_text = \<lparr> d_show = (\<lambda>_. ''0''), d_parse = plain_numeric, d_error_text = (\<lambda>_. []) \<rparr>,
     sg_calendar = demo_cal, sg_environment = \<lparr> env_now = (\<lambda>_. 1100), env_settle = (\<lambda>_. NoFault), env_failure = (\<lambda>_. NoFault), env_persist = (\<lambda>_. NoFault) \<rparr>, sg_show_uuid = show_nat \<rparr>"

lemma demo_plan:
  "plan_request demo_gateway (rd_catalog demo_reads) demo_authenticated demo_question =
     Inr \<lparr> pl_request = demo_question, pl_resolved = demo_route,
           pl_priority = \<lparr> pr_resolved = Balanced, pr_engaged = False \<rparr> \<rparr>"
proof -
  have "validate_request demo_question = Inr ()" 
    by code_simp
  moreover have "\<not> unplaceable_cache_control demo_question" "cache_breakpoints demo_question = Inr 0"
    "\<not> contains_unsupported_extensions (\<lambda>_. None) demo_question" 
    by code_simp+
  ultimately have "check_request demo_gateway demo_question = Inr 0"
    by (simp add: check_request_def demo_gateway_def)
  moreover have "plan_route demo_gateway demo_routed_catalog demo_authenticated 0 demo_question = Inr (demo_route, \<lparr> pr_resolved = Balanced, pr_engaged = False \<rparr>)"
  proof -
    have model: "rq_model demo_question = ''auto''" "rq_priority demo_question = None"
      by (simp_all add: demo_question_def demo_chat_def)
    have "resolve_model demo_routed_catalog True ''auto'' = Some (demo_route\<lparr> rr_candidates := [demo_candidate ''groq'' 1, demo_candidate ''xai'' 2] \<rparr>)"
      by (simp add: resolve_model_def catalog_resolve_def resolve_def resolve_concrete_def
          resolve_unified_def demo_routed_catalog_def demo_catalog_def demo_tier_def or_else_def demo_route_def)
        (simp add: demo_candidate_def)
    then have "resolve_requested demo_routed_catalog True ''auto'' =
        Inr (demo_route\<lparr> rr_candidates := [demo_candidate ''groq'' 1, demo_candidate ''xai'' 2] \<rparr>, None)"
      by (simp only: resolve_requested_def option.case)
    moreover have "''image'' \<notin> set (n_modalities (needs demo_question 0))"
      by code_simp
    moreover have "keep_permitted ZdrOnly (demo_route\<lparr> rr_candidates := [demo_candidate ''groq'' 1, demo_candidate ''xai'' 2] \<rparr>) = Inr demo_route"
      by (simp add: keep_permitted_def demo_route_def demo_candidate_def)
    moreover have "resolve_priority None None None = Inr \<lparr> pr_resolved = Balanced, pr_engaged = False \<rparr>"
      by code_simp
    ultimately show ?thesis
      by (simp add: plan_route_def model bind_result_def demo_gateway_def demo_authenticated_def 
          unservable_modality_def keep_caching_def)
  qed
  moreover have "demo_question\<lparr> rq_max_tokens := Some (max_output_of demo_question) \<rparr> = demo_question"
    by (simp add: max_output_of_def demo_question_def demo_chat_def unwrap_or_def)
  ultimately show ?thesis
    by (simp add: plan_request_def demo_reads_def bind_result_def)
qed

lemma demo_built:
  "\<exists>own. build_route demo_gateway demo_route 9 (customer_credentials True (\<lambda>_ _. Some ''own'') (Some demo_byok_keys)) =
     Inr \<lparr> rt_candidates = [\<lparr> pc_definition = demo_candidate ''xai'' 2, pc_client = (demo_client ''own'')\<lparr> u_max_output_tokens := 9 \<rparr>,
       pc_byok = True, pc_fallback_for = None \<rparr>], rt_byok_providers = own \<rparr>"
proof -
  have [simp]: "\<not> contains p ''https://api.x.ai/v1''" if "p = REGION_PLACEHOLDER \<or> p = PROJECT_PLACEHOLDER" for p
    using that by (auto simp: contains_def REGION_PLACEHOLDER_def PROJECT_PLACEHOLDER_def)
  have creds: "customer_credentials True (\<lambda>_ _. Some ''own'') (Some demo_byok_keys) = [(''xai'', ''own'', False)]"
    by code_simp
  show ?thesis
    unfolding creds build_route_def new_with_byok_def Let_def
    by (simp add: build_reference demo_route_def reference_route_def reference_entries_def bind_result_def demo_gateway_def
        demo_candidate_def find_provider_def byok_credential_def accepts_byok_def needs_minting_def byok_get_def candidate_rows_def
        house_twin_def falls_back_def build_client_def dispatch_def base_url_override_def endpoint_def
        demo_provider_def resolve_region_def credential_for_entry_def name_or_empty_def plane_def
        create_provider_def demo_client_def)
qed

lemma sized_reservation_Inr:
  assumes "decimal_exact D" "conversion_ok D" "\<forall>t \<in> set (tables (rr_sell_rates resolved)). rates_billable D t"
    and bound: "bound = reservation_usage render request output_bound" "prompt_tokens bound \<le> max_priced_tokens"
      "completion_tokens bound \<le> max_priced_tokens" "int (total_tokens bound) \<le> i64_max"
    and rate: "rate = fee_rate \<or> rate = house_rate"
  shows "\<exists>held. sized_reservation D render request resolved output_bound rate = Inr held"
proof -
  have billable: "rates_billable D (reservation_rates (rr_sell_rates resolved))"
    using assms(2,3) rates_billable_reservation by blast
  note cost = usage_cost_exact [OF assms(1,2) billable bound(2,3)]
  show ?thesis
    using cost bound(1,4) apply_fee_exact [OF assms(1) exact_cost_money [OF assms(2) billable bound(2,3)] rate]
    by (simp add: sized_reservation_def Let_def)
qed

lemma demo_bound: "reservation_usage (\<lambda>_. ''{}'') demo_question 9 =
    \<lparr> prompt_tokens = 73, completion_tokens = 9, total_tokens = 82, prompt_tokens_details = None \<rparr>"
proof -
  have "byte_len ''user'' = 4" "byte_len ''hello'' = 5"
    by (simp_all add: byte_len_def u64_max_def)
  then have "prompt_size (\<lambda>_. ''{}'') demo_question = 73"
    by (simp add: prompt_size_def demo_question_def demo_chat_def demo_turn_def message_terms_def image_urls_def opt_len_def
        List.map_filter_def)
  then show ?thesis
    by (simp add: reservation_usage_is_clamped_sum u64_max_def)
qed

lemma demo_sized: "rate = fee_rate \<or> rate = house_rate \<Longrightarrow>
    \<exists>held. sized_reservation exact_decimal (\<lambda>_. ''{}'') demo_question demo_route 9 rate = Inr held"
  using demo_schedule_billable
  by (intro sized_reservation_Inr [OF exact_decimal_exact conversion_exact_decimal _ refl])
    (simp_all add: demo_bound demo_route_def max_priced_tokens_def i64_max_def)

lemma demo_covered: "byok_covered_providers True (Some demo_byok_keys) = [(''xai'', False)]"
  by code_simp

lemma demo_size: "\<exists>sizing posture. size_request demo_gateway demo_question demo_route [(''xai'', False)] None = Inr (sizing, posture)"
proof -
  have m: "max_output_of demo_question = 9"
    by code_simp
  obtain held basis where "sized_reservation exact_decimal (\<lambda>_. ''{}'') demo_question demo_route 9
        (byok_reservation_rate demo_route [(''xai'', False)]) = Inr held"
      "sized_reservation exact_decimal (\<lambda>_. ''{}'') demo_question demo_route 9 house_rate = Inr basis"
    using demo_sized reservation_rate_known by metis
  then show ?thesis
    by (simp add: size_request_def Let_def m demo_gateway_def bind_result_def byok_reservation_posture_def)
qed

definition demo_rung_own :: provider_candidate where
  "demo_rung_own = \<lparr> pc_definition = demo_candidate ''xai'' 2, pc_client = (demo_client ''own'')\<lparr> u_max_output_tokens := 9 \<rparr>,
       pc_byok = True, pc_fallback_for = None \<rparr>"

lemma demo_gateway_fields:
  "gw_render demo_gateway = (\<lambda>_. ''{}'')" "gw_unseal demo_gateway = (\<lambda>_ _. Some ''own'')" "gw_keyring demo_gateway"
  "gw_entries demo_gateway = [demo_provider, demo_local]" "rd_instant demo_reads = 0" "rd_time demo_reads = 1000"
  "rd_registry demo_reads = cooling" "rd_covered demo_reads = Some demo_byok_keys" "rd_opened demo_reads = Some demo_byok_keys"
  by (simp_all add: demo_gateway_def demo_reads_def)

lemma demo_prepared:
  "\<exists>pq e. prepare_request demo_gateway demo_reads demo_authenticated demo_question empty_estimator = (Inr pq, e) \<and>
     pl_resolved (pq_plan pq) = demo_route \<and> pq_candidates pq = [demo_rung_own]"
proof -
  let ?s = "signature_of demo_gateway demo_authenticated demo_question"
  obtain e1 where e1: "lookup_cell 0 (for_signature ?s) empty_estimator = (ColdCell, e1)"
    by (simp add: lookup_cell_def empty_estimator_def)
  obtain sizing posture where size: "size_request demo_gateway demo_question demo_route [(''xai'', False)] None = Inr (sizing, posture)"
    using demo_size by blast
  obtain own where built: "build_route demo_gateway demo_route 9 (customer_credentials True (\<lambda>_ _. Some ''own'') (Some demo_byok_keys)) =
     Inr \<lparr> rt_candidates = [demo_rung_own], rt_byok_providers = own \<rparr>"
    using demo_built by (auto simp: demo_rung_own_def)
  have m: "max_output_of demo_question = 9" "rq_stream demo_question = False"
    by code_simp+
  obtain cs e3 where route: "dispatch_order 0 1000 [demo_provider, demo_local] Balanced
      \<lparr> cx_signature = ?s, cx_signature_cell = ColdCell, cx_input_bytes = 73 \<rparr> cooling (needs demo_question 73) demo_route
      [demo_rung_own] e1 = (cs, e3)"
    by fastforce
  have cs: "cs = [demo_rung_own]"
    using route by (auto simp: dispatch_order_def order_candidates_def those_first_def partition_route_by_retention_def Let_def)
  have "prepare_route demo_gateway demo_reads demo_authenticated
      \<lparr> pl_request = demo_question, pl_resolved = demo_route, pl_priority = \<lparr> pr_resolved = Balanced, pr_engaged = False \<rparr> \<rparr>
      ?s ColdCell e1 = (Inr [demo_rung_own], e3)"
    using built route by (simp add: prepare_route_def Let_def m demo_bound cs demo_gateway_fields)
  then show ?thesis
    using e1 size
    by (simp add: prepare_request_def demo_plan Let_def m learned_bound_of_def demo_covered demo_gateway_fields)
qed

lemma silent_walk_calls:
  assumes "pc_fallback_for c = None"
  shows "\<exists>x. w_calls (snd (run_walk silent_walk h ms [c])) = [x]"
  using assms
  by (simp add: run_walk_def walk_start_def silent_walk_def demo_walk_def quiet_event_def twin_unarmed_def health_skips_def meanwhile_def
    CANDIDATE_RETRIES_def one_attempt_def remaining_upstream_time_def UPSTREAM_REQUEST_TIMEOUT_def call_upstream_def after_call_def Let_def
    push_row_def numeral_2_eq_2)

text \<open>A customer's key that fails, and the house's client behind it.\<close>

definition demo_pair :: "provider_candidate list" where
  "demo_pair = [\<lparr> pc_definition = demo_candidate ''xai'' 2, pc_client = demo_client ''own'', pc_byok = True, pc_fallback_for = None \<rparr>,
     \<lparr> pc_definition = demo_candidate ''xai'' 2, pc_client = demo_client ''house'', pc_byok = False, pc_fallback_for = Some ''xai'' \<rparr>]"

lemma demo_pair_built: "\<exists>r. build_with_byok demo_build [demo_candidate ''xai'' 2] = Inr r \<and> rt_candidates r = demo_pair"
proof -
  have c: "c_surface (demo_candidate ''xai'' 2) = None" "c_provider (demo_candidate ''xai'' 2) = ''xai''"
    by (simp_all add: demo_candidate_def)
  have own: "byok_credential demo_build demo_provider = Some ''own''"
    by (simp add: byok_credential_def accepts_byok_def demo_provider_def needs_minting_def byok_get_def demo_build_def)
  have rows: "reference_route demo_build [demo_candidate ''xai'' 2] =
      Inr (candidate_rows demo_build demo_provider (demo_candidate ''xai'' 2) (demo_client ''own''))"
    using demo_clients [OF c(1)] own
    by (simp add: reference_route_def reference_entries_def bind_result_def c find_provider_def)
      (simp add: demo_build_def demo_provider_def)
  moreover have "candidate_rows demo_build demo_provider (demo_candidate ''xai'' 2) (demo_client ''own'') = demo_pair"
    using demo_clients [OF c(1)] own
    by (simp add: candidate_rows_def house_twin_def falls_back_def demo_pair_def) (simp add: demo_build_def demo_provider_def)
  ultimately show ?thesis
    by (simp add: build_reference demo_pair_def)
qed

definition denied :: upstream_error where
  "denied = \<lparr> e_text = ''HTTP 401'', e_chain = ''HTTP 401'', e_status = Some 401 \<rparr>"

lemma denied_class: "classify denied False = NonRetryable"
  by code_simp

definition denied_walk :: walk_context where
  "denied_walk = demo_walk\<lparr> wx_events := (\<lambda>n. quiet_event\<lparr> we_result := if n < 3 then UpstreamFailed denied else Elapsed, we_registry := (\<lambda>_ _. None) \<rparr>) \<rparr>"

lemma demo_pair_calls:
  "List.map uc_candidate (w_calls (snd (run_walk denied_walk (\<lambda>_. None) [] demo_pair))) = demo_pair"
  by (simp add: run_walk_def walk_start_def denied_walk_def demo_walk_def quiet_event_def twin_unarmed_def health_skips_def meanwhile_def demo_pair_def
    CANDIDATE_RETRIES_def one_attempt_def remaining_upstream_time_def UPSTREAM_REQUEST_TIMEOUT_def call_upstream_def after_call_def Let_def
    push_row_def numeral_2_eq_2 should_skip_def note_failure_def denied_class after_failure_def class_is_non_retryable_def permits_byok_fallback_def demo_candidate_def)

lemma house_called_after_their_key_witness:
  "falls_back (bc_byok demo_build) ''xai'' \<and>
   arms (w_calls (snd (run_walk denied_walk (\<lambda>_. None) [] demo_pair)) ! 0) ''xai''"
proof -
  define calls where "calls = w_calls (snd (run_walk denied_walk (\<lambda>_. None) [] demo_pair))"
  have "length (List.map uc_candidate calls) = length demo_pair" "List.map uc_candidate calls ! 1 = demo_pair ! 1"
    unfolding calls_def demo_pair_calls by (rule refl)+
  then have len: "length calls = 2" and x: "uc_candidate (calls ! 1) = demo_pair ! 1"
    by (simp_all add: demo_pair_def)
  obtain r where r: "build_with_byok demo_build [demo_candidate ''xai'' 2] = Inr r" "rt_candidates r = demo_pair"
    using demo_pair_built by blast
  have "assembled (bc_header_name demo_build) [demo_provider] [demo_local] = Inr (bc_entries demo_build)"
    using demo_inventory_assembled by (simp add: demo_build_def)
  moreover have "find_provider (bc_entries demo_build) ''xai'' = Some demo_provider"
      "byok_credential demo_build demo_provider \<noteq> None"
    by (simp_all add: byok_credential_def accepts_byok_def demo_provider_def needs_minting_def byok_get_def demo_build_def
        find_provider_def)
  moreover have "c_provider (pc_definition (demo_pair ! 1)) = ''xai''" "\<not> pc_byok (demo_pair ! 1)"
    by (simp_all add: demo_pair_def demo_candidate_def)
  ultimately show ?thesis
    using house_called_after_their_key [OF _ r(1) calls_def [folded r(2)], of _ _ 1 "demo_pair ! 1"] len x
    by (auto simp: less_Suc_eq calls_def)
qed

lemma zdr_calls_only_zero_retention_witness:
  "\<exists>pq call. fst (prepare_request demo_gateway demo_reads demo_authenticated demo_question empty_estimator) = Inr pq \<and>
     w_calls (snd (request_walk demo_gateway demo_reads silent_walk pq)) = [call] \<and>
     (c_id (pc_definition (uc_candidate call)), Zero) \<in> set (rr_retention demo_route)"
proof -
  obtain pq e where p: "prepare_request demo_gateway demo_reads demo_authenticated demo_question empty_estimator = (Inr pq, e)"
      "pl_resolved (pq_plan pq) = demo_route" "pq_candidates pq = [demo_rung_own]"
    using demo_prepared by blast
  obtain call where call: "w_calls (snd (request_walk demo_gateway demo_reads silent_walk pq)) = [call]"
    using silent_walk_calls [of demo_rung_own] p(3) by (auto simp: request_walk_def demo_rung_own_def)
  have "(c_id (pc_definition (uc_candidate call)), Zero) \<in> set (rr_retention demo_route)"
    using zdr_calls_only_zero_retention [OF p(1), of call silent_walk] call p(2)
    by (simp add: demo_authenticated_def demo_route_def) (simp add: demo_candidate_def)
  then show ?thesis
    using p(1) call by auto
qed

definition demo_features :: request_features where
  "demo_features = from_request demo_question default_usage \<lparr> pr_resolved = Balanced, pr_engaged = False \<rparr> (estimate_cold 9)"

lemma demo_rates:
  "byok_reservation_rate demo_route [(''xai'', False)] = fee_rate" "byok_rate (on_candidate demo_rung_own demo_features) = fee_rate"
  by (simp_all add: byok_reservation_rate_def demo_route_def demo_candidate_def byok_rate_def on_candidate_def demo_rung_own_def)

lemma reservation_rate_covers_every_rung_witness:
  "byok_rate (on_candidate demo_rung_own demo_features) \<le> byok_reservation_rate demo_route [(''xai'', False)]"
proof -
  obtain own where built: "build_route demo_gateway demo_route 9 (customer_credentials (gw_keyring demo_gateway)
      (gw_unseal demo_gateway) (Some demo_byok_keys)) = Inr \<lparr> rt_candidates = [demo_rung_own], rt_byok_providers = own \<rparr>"
    using demo_built by (auto simp: demo_rung_own_def demo_gateway_fields)
  have usable: "keys_usable (gw_entries demo_gateway) (gw_unseal demo_gateway) demo_byok_keys"
    by (simp add: keys_usable_def demo_gateway_fields demo_byok_keys_def provider_accepts_byok_def find_provider_def
        demo_provider_def accepts_byok_def needs_minting_def)
  have shipped: "assembled (gw_header_name demo_gateway) [demo_provider] [demo_local] = Inr (gw_entries demo_gateway)"
    using demo_inventory_assembled by (simp add: demo_gateway_def)
  show ?thesis
    using reservation_rate_covers_every_rung [OF shipped usable built, of demo_rung_own demo_features]
    by (simp add: demo_gateway_fields demo_covered)
qed

text \<open>The same keys, sealed under a key that was lost: the reservation is held at the fee, and the house
  serves and bills at the whole rate.\<close>

lemma lost_key_is_underheld:
  "byok_reservation_rate demo_route (byok_covered_providers True (Some demo_byok_keys)) = fee_rate"
  "customer_credentials True (\<lambda>_ _. None) (Some demo_byok_keys) = []"
  "byok_rate (on_candidate (demo_rung_own\<lparr> pc_byok := False \<rparr>) demo_features) = house_rate"
  by (simp add: demo_covered demo_rates)
    (simp_all add: customer_credentials_def open_credentials_def demo_byok_keys_def List.map_filter_def
      with_fallback_def map_collect_def byok_rate_def on_candidate_def)

lemma settled_within_reserved_witness:
  "\<exists>held r. sized_reservation exact_decimal (\<lambda>_. ''{}'') demo_question demo_route 9 fee_rate = Inr held \<and>
     usage_record_of exact_decimal demo_route ''xai'' ''m'' None (mk_usage 70 0 0 8)
       (on_candidate demo_rung_own demo_features) None None None [] 5 200 = Inr r \<and>
     0 \<le> cost_usd r \<and> cost_usd r \<le> rs_cost_usd held"
proof -
  obtain held where held: "sized_reservation exact_decimal (\<lambda>_. ''{}'') demo_question demo_route 9 fee_rate = Inr held"
    using demo_sized by blast
  have s: "\<forall>t \<in> set (tables (rr_sell_rates demo_route)). rates_billable exact_decimal t"
    using demo_schedule_billable by (simp add: demo_route_def)
  then have b: "rates_billable exact_decimal (at_prompt_tokens (rr_sell_rates demo_route) 70)"
    using at_prompt_tokens_in_tables by blast
  have u: "prompt_tokens (mk_usage 70 0 0 8) = 70" "completion_tokens (mk_usage 70 0 0 8) = 8"
    by (simp_all add: mk_usage_def)
  have n: "prompt_tokens (mk_usage 70 0 0 8) \<le> max_priced_tokens" "completion_tokens (mk_usage 70 0 0 8) \<le> max_priced_tokens"
    by (simp_all add: u max_priced_tokens_def)
  note priced = usage_cost_exact [OF exact_decimal_exact conversion_exact_decimal b n]
  note fee = apply_fee_exact [OF exact_decimal_exact exact_cost_money [OF conversion_exact_decimal b n] disjI1 [OF refl]]
  obtain r where r: "usage_record_of exact_decimal demo_route ''xai'' ''m'' None (mk_usage 70 0 0 8)
       (on_candidate demo_rung_own demo_features) None None None [] 5 200 = Inr r"
    using priced fee u by (simp add: usage_record_of_def Let_def demo_rates)
  have "0 \<le> cost_usd r \<and> cost_usd r \<le> rs_cost_usd held"
    using held demo_rates
    by (intro settled_within_reserved [OF exact_decimal_exact conversion_exact_decimal s refl _ _ _ _ _ r,
          where render = "\<lambda>_. ''{}''" and request = demo_question and output_bound = 9 and covered = "[(''xai'', False)]"])
      (simp_all add: demo_bound max_priced_tokens_def usage_within_def u)
  then show ?thesis
    using held r by blast
qed

lemma unbilled_walk_is_free_witness:
  "users (snd (the (settle_walk demo_settling demo_walk demo_session demo_route demo_features None
     (WalkRefused Exhausted, walk_start cooling []) demo_admitted))) 1 = Some demo_user"
proof -
  obtain e d' where s: "settle_walk demo_settling demo_walk demo_session demo_route demo_features None
     (WalkRefused Exhausted, walk_start cooling []) demo_admitted = Some (Inl e, d')"
    by (fastforce simp: settle_walk_def split: prod.split)
  have "users d' = users demo_admitted"
    using unbilled_walk_is_free [OF _ _ _ s] exact_decimal_exact
    by (simp add: demo_settling_def unbilled_def plain_numeric_def is_digit_def digits_value_def)
  then show ?thesis
    by (simp only: s option.sel snd_conv) (simp add: demo_admitted_def demo_db_def)
qed

end
