(* ===== verification/StreamWalk.thy ===== *)
theory StreamWalk
  imports Gateway
begin

text \<open>
  The walk of a streamed request (\<^verbatim>\<open>stream_to_channel\<close> in \<^verbatim>\<open>router/src/api.rs\<close>).  The response headers are
  gone before the walk begins, so its end is not an answer but what it put on the channel and the record
  it settles.  The walk and its settlement are two functions: the first reads what the outside does (the
  upstreams, the clock, the channel) and says how it ended; the second persists that end and sends the
  last frames.  The frames are those of the chat dialect.
\<close>

section \<open>Events of a stream\<close>

record stream_chunk =
  sc_delta :: string
  sc_reasoning :: "string option"
  sc_token_count :: nat

record stream_final =
  sf_stop_reason :: "stop_reason option"
  sf_usage_gap :: "usage_gap option"

definition stream_final_empty :: stream_final where
  "stream_final_empty = \<lparr> sf_stop_reason = None, sf_usage_gap = None \<rparr>"

datatype stream_event =
    TextDelta stream_chunk
  | ToolCallEvent tool_call
  | UsageEvent token_usage
  | FinalEvent stream_final

text \<open>What the next poll of a stream comes to, after how long.\<close>

datatype stream_item =
    Item stream_event
  | ItemError upstream_error
  | ItemShutdown
  | ItemElapsed

datatype chat_frame =
    OpenFrame
  | DeltaFrame "string option" "string option"
  | ToolFrame tool_call nat
  | FinishFrame string
  | UsageFrame openai_usage "zerorouter_metadata option"
  | DoneFrame
  | ErrorFrame api_error

section \<open>The channel and what was delivered\<close>

datatype frame_kind = ModelOutput | Scaffolding

record stream_delivery =
  dl_sent :: bool
  dl_attempted :: bool

definition no_delivery :: stream_delivery where
  "no_delivery = \<lparr> dl_sent = False, dl_attempted = False \<rparr>"

definition abandoned_by_client :: "stream_delivery \<Rightarrow> bool" where
  "abandoned_by_client dl \<longleftrightarrow> dl_attempted dl \<and> \<not> dl_sent dl"

text \<open>Only what was delivered and metered is billed.\<close>

definition settled_usage :: "stream_delivery \<Rightarrow> openai_usage option \<Rightarrow> openai_usage" where
  "settled_usage dl u = (if \<not> dl_sent dl then default_usage else case u of None \<Rightarrow> default_usage | Some u \<Rightarrow> u)"

text \<open>
  The outside of a streamed walk: the events of \<^typ>\<open>walk_context\<close>, the items of the stream an upstream
  opens at a step, which upstreams can stream, and the channel: whether its nth frame is accepted, after
  how long, and whether the client has gone by its nth look.
\<close>

record stream_context =
  sx_walk :: walk_context
  sx_stream :: "nat \<Rightarrow> (nat \<times> stream_item) list"
  sx_streams :: "provider_candidate \<Rightarrow> bool"
  sx_accepts :: "nat \<Rightarrow> bool"
  sx_send_ms :: "nat \<Rightarrow> nat"
  sx_closed :: "nat \<Rightarrow> bool"

record stream_state =
  st_walk :: walk_state
  st_frames :: nat
  st_looks :: nat
  st_connected :: bool
  st_delivery :: stream_delivery
  st_wire :: "chat_frame list"

definition SSE_SEND_TIMEOUT :: nat where
  "SSE_SEND_TIMEOUT = 5 * 1000"

definition send_data :: "stream_context \<Rightarrow> chat_frame \<Rightarrow> stream_state \<Rightarrow> bool \<times> stream_state" where
  "send_data sx f st =
     (let wait = min (sx_send_ms sx (st_frames st)) SSE_SEND_TIMEOUT;
          accepted = sx_accepts sx (st_frames st)
      in (accepted,
          st\<lparr> st_walk := (st_walk st)\<lparr> w_clock := w_clock (st_walk st) + wait \<rparr>, st_frames := Suc (st_frames st),
             st_wire := (if accepted then st_wire st @ [f] else st_wire st) \<rparr>))"

definition deliver :: "stream_context \<Rightarrow> chat_frame \<Rightarrow> frame_kind \<Rightarrow> stream_state \<Rightarrow> bool \<times> stream_state" where
  "deliver sx f kind st =
     (let (accepted, st1) = send_data sx f st; dl = st_delivery st1 in
      (accepted,
       st1\<lparr> st_delivery :=
          \<lparr> dl_sent = dl_sent dl \<or> accepted \<and> kind = ModelOutput,
            dl_attempted = dl_attempted dl \<or> kind = ModelOutput \<rparr> \<rparr>))"

fun deliver_all :: "stream_context \<Rightarrow> chat_frame list \<Rightarrow> frame_kind \<Rightarrow> stream_state \<Rightarrow> bool \<times> stream_state" where
  "deliver_all sx [] kind st = (True, st)"
| "deliver_all sx (f # fs) kind st =
     (case deliver sx f kind st of
        (True, st1) \<Rightarrow> deliver_all sx fs kind st1
      | (False, st1) \<Rightarrow> (False, st1))"

definition ensure_open :: "stream_context \<Rightarrow> bool \<Rightarrow> stream_state \<Rightarrow> bool \<times> stream_state" where
  "ensure_open sx already_sent st = (if already_sent then (True, st) else deliver sx OpenFrame Scaffolding st)"

definition is_closed :: "stream_context \<Rightarrow> stream_state \<Rightarrow> bool \<times> stream_state" where
  "is_closed sx st = (sx_closed sx (st_looks st), st\<lparr> st_looks := Suc (st_looks st) \<rparr>)"

text \<open>The frames of the chat dialect.\<close>

definition delta_frames :: "string option \<Rightarrow> string option \<Rightarrow> chat_frame list" where
  "delta_frames content reasoning = [DeltaFrame content reasoning]"

definition finish_frames :: "bool \<Rightarrow> openai_usage \<Rightarrow> string \<Rightarrow> zerorouter_metadata option \<Rightarrow> chat_frame list" where
  "finish_frames include_usage u reason meta =
     [FinishFrame reason] @ (if include_usage then [UsageFrame u meta] else []) @ [DoneFrame]"

definition error_frames :: "api_error \<Rightarrow> chat_frame list" where
  "error_frames e = [ErrorFrame e, DoneFrame]"

section \<open>Reading one stream\<close>

record stream_local =
  sl_role_sent :: bool
  sl_usage :: "openai_usage option"
  sl_tool_index :: nat
  sl_estimated :: nat
  sl_args_ok :: bool
  sl_emitted :: emitted_output

definition stream_local_new :: stream_local where
  "stream_local_new = \<lparr> sl_role_sent = False, sl_usage = None, sl_tool_index = 0, sl_estimated = 0, sl_args_ok = True,
     sl_emitted = nothing_emitted \<rparr>"

datatype stream_interruption = InterruptTimeout | InterruptShutdown

fun interruption_status :: "stream_interruption \<Rightarrow> int" where
  "interruption_status InterruptTimeout = 504"
| "interruption_status InterruptShutdown = 503"

fun interruption_error :: "stream_interruption \<Rightarrow> api_error" where
  "interruption_error InterruptTimeout = UpstreamTimeout"
| "interruption_error InterruptShutdown = ServerShuttingDown"

fun interruption_outcome :: "stream_interruption \<Rightarrow> string" where
  "interruption_outcome InterruptTimeout = ''timeout''"
| "interruption_outcome InterruptShutdown = ''aborted''"

text \<open>How the reading of a stream ends; a failure says whether it was a rate limit, and whether the account
  behind the key was refused.\<close>

datatype stream_stop =
    Interrupted stream_interruption
  | Completed stream_final
  | Failed bool bool

text \<open>One frame run of model output: opened first where nothing was sent yet.  A client that refuses the
  opening or the output counts as gone.\<close>

definition relay ::
    "stream_context \<Rightarrow> chat_frame list \<Rightarrow> stream_local \<Rightarrow> stream_state \<Rightarrow> stream_local \<times> stream_state" where
  "relay sx frames l st =
     (if \<not> st_connected st then (l, st)
      else
        (case ensure_open sx (sl_role_sent l) st of
           (False, st1) \<Rightarrow> (l\<lparr> sl_role_sent := False \<rparr>, st1\<lparr> st_connected := False \<rparr>)
         | (True, st1) \<Rightarrow>
             (case deliver_all sx frames ModelOutput st1 of
                (accepted, st2) \<Rightarrow>
                  (l\<lparr> sl_role_sent := True \<rparr>, st2\<lparr> st_connected := st_connected st2 \<and> accepted \<rparr>))))"

definition on_text :: "stream_context \<Rightarrow> stream_chunk \<Rightarrow> stream_local \<Rightarrow> stream_state \<Rightarrow> stream_local \<times> stream_state" where
  "on_text sx chunk l st =
     (let reasoning = unwrap_or (sc_reasoning chunk) [];
          l1 = l\<lparr> sl_estimated := sat_add (sl_estimated l) (sc_token_count chunk) \<rparr>
      in if sc_delta chunk = [] \<and> reasoning = [] then (l1, st)
         else
           relay sx (delta_frames (if sc_delta chunk = [] then None else Some (sc_delta chunk)) (sc_reasoning chunk))
             (l1\<lparr> sl_emitted := record_reasoning reasoning (record_text (sc_delta chunk) (sl_emitted l1)) \<rparr>) st)"

definition on_tool_call :: "stream_context \<Rightarrow> tool_call \<Rightarrow> stream_local \<Rightarrow> stream_state \<Rightarrow> stream_local \<times> stream_state" where
  "on_tool_call sx call l st =
     (let l1 = l\<lparr> sl_emitted := record_tool_call (sl_emitted l),
                 sl_args_ok := sl_args_ok l \<and> wx_parse_json (sx_walk sx) (tc_arguments call) \<noteq> None \<rparr>;
          (l2, st1) = relay sx [ToolFrame call (sl_tool_index l)] l1 st
      in (l2\<lparr> sl_tool_index := min (Suc (sl_tool_index l)) u32_max \<rparr>, st1))"

text \<open>What an error of the stream leaves for the end of the walk.\<close>

definition note_stream_error :: "stream_context \<Rightarrow> upstream_error \<Rightarrow> stream_state \<Rightarrow> stream_state" where
  "note_stream_error sx err st =
     (let w = st_walk st;
          w1 = (if is_retention_attestation_failure err then w\<lparr> w_attestation_failed := True \<rparr> else w);
          w2 = (if w_rejection w1 = None
                then w1\<lparr> w_rejection := parameter_rejection (wx_parse_json (sx_walk sx)) err \<rparr> else w1)
      in st\<lparr> st_walk := w2 \<rparr>)"

fun read_stream ::
    "stream_context \<Rightarrow> (nat \<times> stream_item) list \<Rightarrow> stream_local \<Rightarrow> stream_state \<Rightarrow> stream_stop \<times> stream_local \<times> stream_state" where
  "read_stream sx [] l st =
     (case remaining_upstream_time (st_walk st) of
        None \<Rightarrow> (Interrupted InterruptTimeout, l, st)
      | Some _ \<Rightarrow> (Failed False False, l, st))"
| "read_stream sx ((ms, item) # items) l st =
     (case remaining_upstream_time (st_walk st) of
        None \<Rightarrow> (Interrupted InterruptTimeout, l, st)
      | Some remaining \<Rightarrow>
          (let wait = (if item = ItemElapsed then remaining else min ms remaining);
               st1 = st\<lparr> st_walk := (st_walk st)\<lparr> w_clock := w_clock (st_walk st) + wait \<rparr> \<rparr>
           in case item of
                ItemShutdown \<Rightarrow> (Interrupted InterruptShutdown, l, st1)
              | ItemElapsed \<Rightarrow> (Interrupted InterruptTimeout, l, st1)
              | ItemError err \<Rightarrow>
                  (Failed (is_rate_limited err) (is_non_retryable_rate_limit err), l, note_stream_error sx err st1)
              | Item (FinalEvent final) \<Rightarrow> (Completed final, l, st1)
              | Item (UsageEvent u) \<Rightarrow> read_stream sx items (l\<lparr> sl_usage := try_from_provider (Some u) \<rparr>) st1
              | Item (TextDelta chunk) \<Rightarrow> (case on_text sx chunk l st1 of (l1, st2) \<Rightarrow> read_stream sx items l1 st2)
              | Item (ToolCallEvent call) \<Rightarrow>
                  (case on_tool_call sx call l st1 of (l1, st2) \<Rightarrow> read_stream sx items l1 st2)))"

section \<open>The walk\<close>

text \<open>What \<^const>\<open>persist_usage\<close> is asked to settle; the rows and the time are the walk's.\<close>

record settle_call =
  sk_provider :: string
  sk_model :: string
  sk_candidate :: "tier_candidate option"
  sk_usage :: openai_usage
  sk_features :: request_features
  sk_status :: int

datatype stream_end =
    ClientGone settle_call
  | InterruptedEnd settle_call stream_interruption bool
  | SyntheticEnd provider_candidate chat_response nat nat
  | FinishedEnd provider_candidate stream_local stream_final nat nat int
  | FailedEnd settle_call bool bool
  | ExhaustedEnd "settle_call option"

definition candidate_call ::
    "string \<times> string \<Rightarrow> tier_candidate option \<Rightarrow> openai_usage \<Rightarrow> request_features \<Rightarrow> int \<Rightarrow> settle_call" where
  "candidate_call unnamed c u f code =
     \<lparr> sk_provider = (case c of None \<Rightarrow> fst unnamed | Some c \<Rightarrow> c_provider c),
       sk_model = (case c of None \<Rightarrow> snd unnamed | Some c \<Rightarrow> c_model c),
       sk_candidate = c, sk_usage = u, sk_features = f, sk_status = code \<rparr>"

definition push_attempt ::
    "stream_context \<Rightarrow> tier_candidate \<Rightarrow> string \<Rightarrow> nat \<Rightarrow> nat \<Rightarrow> bool \<Rightarrow> attempt_tokens \<Rightarrow> bool \<Rightarrow> string option \<Rightarrow>
     stream_state \<Rightarrow> stream_state" where
  "push_attempt sx c result begun no is_served tokens estimated reason st =
     (let w = st_walk st; ctx = sx_walk sx in
      st\<lparr> st_walk := w\<lparr> w_ledger := ledger_push (wx_utc ctx + int (w_clock w))
            (build_attempt (wx_decimal ctx) (wx_utc ctx) (w_clock w) begun no c result is_served tokens estimated reason None)
            (w_ledger w) \<rparr> \<rparr>)"

definition connected_now :: "stream_context \<Rightarrow> stream_state \<Rightarrow> bool \<times> stream_state" where
  "connected_now sx st =
     (if \<not> st_connected st then (False, st)
      else (case is_closed sx st of (gone, st1) \<Rightarrow> (\<not> gone, st1)))"

definition interrupted_end ::
    "stream_context \<Rightarrow> resolved_route \<Rightarrow> tier_candidate option \<Rightarrow> openai_usage option \<Rightarrow> request_features \<Rightarrow>
     stream_interruption \<Rightarrow> stream_state \<Rightarrow> stream_end \<times> stream_state" where
  "interrupted_end sx resolved c u f i st =
     (case connected_now sx st of
        (linked, st1) \<Rightarrow>
          (InterruptedEnd (candidate_call (''fallback-chain'', rr_requested_model resolved) c
              (settled_usage (st_delivery st1) u) f (if linked then interruption_status i else 499)) i linked, st1))"

text \<open>An upstream that cannot stream is called as in the buffered walk, once.\<close>

definition buffered_attempt ::
    "stream_context \<Rightarrow> resolved_route \<Rightarrow> request_features \<Rightarrow> provider_candidate \<Rightarrow> nat \<Rightarrow> stream_state \<Rightarrow>
     stream_end option \<times> stream_state" where
  "buffered_attempt sx resolved f c remaining st =
     (let w = st_walk st; begun = w_clock w; no = next_no w;
          (res, w1) = call_upstream (sx_walk sx) remaining c w;
          st1 = st\<lparr> st_walk := w1 \<rparr>;
          row = (\<lambda>result. push_attempt sx (pc_definition c) result begun no False tokens_unknown False None st1)
      in case res of
           ShutdownBefore \<Rightarrow>
             (case interrupted_end sx resolved (w_last w1) None f InterruptShutdown st1 of (e, st2) \<Rightarrow> (Some e, st2))
         | ShutdownDuring \<Rightarrow>
             (case interrupted_end sx resolved (Some (pc_definition c)) None f InterruptShutdown (row ''aborted'') of
                (e, st2) \<Rightarrow> (Some e, st2))
         | Elapsed \<Rightarrow>
             (case interrupted_end sx resolved (Some (pc_definition c)) None f InterruptTimeout (row ''timeout'') of
                (e, st2) \<Rightarrow> (Some e, st2))
         | Responded response \<Rightarrow> (Some (SyntheticEnd c response no begun), st1)
         | UpstreamFailed err \<Rightarrow>
             (None, st1\<lparr> st_walk := note_failure (sx_walk sx) c err (classify err False) begun no w1 \<rparr>))"

text \<open>How a stream that has been read ends the walk, or lets it go on.\<close>

definition failed_outcome :: "bool \<Rightarrow> string" where
  "failed_outcome limited = (if limited then ''rate_limited'' else ''stream_error'')"

definition after_stream ::
    "stream_context \<Rightarrow> request_features \<Rightarrow> resolved_route \<Rightarrow> provider_candidate \<Rightarrow> nat \<Rightarrow> nat \<Rightarrow> stream_stop \<Rightarrow> stream_local \<Rightarrow>
     stream_state \<Rightarrow> stream_end option \<times> stream_state" where
  "after_stream sx f resolved c begun no stop l st =
     (let d = pc_definition c;
          tokens = attempt_tokens_of (sl_usage l) (sl_estimated l);
          guessed = (sl_usage l = None \<and> tokens \<noteq> tokens_unknown)
      in case stop of
           Interrupted i \<Rightarrow>
             (case interrupted_end sx resolved (Some d) (sl_usage l) f i
                (push_attempt sx d (interruption_outcome i) begun no (dl_sent (st_delivery st)) tokens guessed None st) of
                (e, st1) \<Rightarrow> (Some e, st1))
         | Completed final \<Rightarrow>
             (let st1 = (if st_connected st
                         then (case ensure_open sx (sl_role_sent l) st of (accepted, x) \<Rightarrow> x\<lparr> st_connected := accepted \<rparr>)
                         else st);
                  (linked, st2) = connected_now sx st1
              in (Some (FinishedEnd c l final no begun (if linked then 200 else 499)), st2))
         | Failed limited refused \<Rightarrow>
             (case is_closed sx st of
                (gone, st1) \<Rightarrow>
                  (let linked = (st_connected st1 \<and> \<not> gone); st2 = st1\<lparr> st_connected := linked \<rparr>;
                       sent = dl_sent (st_delivery st2)
                   in if sent \<or> \<not> linked
                      then (Some (FailedEnd
                              (candidate_call ([], []) (Some d) (settled_usage (st_delivery st2) (sl_usage l)) f
                                 (if linked then 502 else 499))
                              (w_attestation_failed (st_walk st2)) linked),
                            push_attempt sx d (failed_outcome (limited \<and> \<not> sent)) begun no sent tokens guessed None st2)
                      else
                        let w = st_walk st2;
                            w1 = (if pc_byok c \<and> \<not> refused then w\<lparr> w_armed := insert (c_provider d) (w_armed w) \<rparr> else w)
                        in (None, push_attempt sx d (failed_outcome limited) begun no False tokens
                              (sl_usage l = None \<and> 0 < sl_estimated l) None (st2\<lparr> st_walk := w1 \<rparr>)))))"

definition streamed_attempt ::
    "stream_context \<Rightarrow> resolved_route \<Rightarrow> request_features \<Rightarrow> provider_candidate \<Rightarrow> stream_state \<Rightarrow>
     stream_end option \<times> stream_state" where
  "streamed_attempt sx resolved f c st =
     (let w = st_walk st;
          call = \<lparr> uc_candidate = c, uc_prompt = w_messages w, uc_truncated = False, uc_result = Elapsed \<rparr>;
          st1 = st\<lparr> st_walk := w\<lparr> w_step := Suc (w_step w), w_last := Some (pc_definition c), w_calls := w_calls w @ [call] \<rparr> \<rparr>;
          (stop, l, st2) = read_stream sx (sx_stream sx (w_step w)) stream_local_new st1
      in after_stream sx f resolved c (w_clock w) (next_no w) stop l st2)"

text \<open>The end of a walk that ran out of candidates.  One that called nobody settles nothing.\<close>

definition exhausted_end :: "request_features \<Rightarrow> stream_state \<Rightarrow> stream_end" where
  "exhausted_end f0 st =
     (let w = st_walk st in
      ExhaustedEnd (map_option (\<lambda>c. candidate_call ([], []) (Some c) default_usage f0
        (if \<not> w_attestation_failed w \<and> w_rejection w \<noteq> None then 400 else 502)) (w_last w)))"

definition skip_candidate :: "stream_context \<Rightarrow> provider_candidate \<Rightarrow> string \<Rightarrow> stream_state \<Rightarrow> stream_state" where
  "skip_candidate sx c result st = st\<lparr> st_walk := skip_row (sx_walk sx) c result (st_walk st) \<rparr>"

fun stream_walk ::
    "stream_context \<Rightarrow> resolved_route \<Rightarrow> request_features \<Rightarrow> provider_candidate list \<Rightarrow> stream_state \<Rightarrow>
     stream_end \<times> stream_state" where
  "stream_walk sx resolved f0 [] st = (exhausted_end f0 st, st)"
| "stream_walk sx resolved f0 (c # cs) st =
     (if twin_unarmed c (st_walk st) then stream_walk sx resolved f0 cs (skip_candidate sx c ''policy_skipped'' st)
      else
        (case is_closed sx st of
           (True, st1) \<Rightarrow>
             (ClientGone (candidate_call (''none'', ''client-disconnected'') (w_last (st_walk st1)) default_usage f0 499), st1)
         | (False, st1) \<Rightarrow>
             (let st2 = st1\<lparr> st_walk := meanwhile (sx_walk sx) (st_walk st1) \<rparr> in
              if health_skips (sx_walk sx) c cs (st_walk st2)
              then stream_walk sx resolved f0 cs (skip_candidate sx c ''health_skipped'' st2)
              else
                (case remaining_upstream_time (st_walk st2) of
                   None \<Rightarrow> interrupted_end sx resolved (w_last (st_walk st2)) None f0 InterruptTimeout st2
                 | Some remaining \<Rightarrow>
                     (case (if sx_streams sx c then streamed_attempt sx resolved (on_candidate c f0) c st2
                            else buffered_attempt sx resolved (on_candidate c f0) c remaining st2) of
                        (Some e, st3) \<Rightarrow> (e, st3)
                      | (None, st3) \<Rightarrow> stream_walk sx resolved f0 cs st3)))))"

definition stream_start :: "health \<Rightarrow> chat_message list \<Rightarrow> stream_state" where
  "stream_start registry messages =
     \<lparr> st_walk = walk_start registry messages, st_frames = 0, st_looks = 0, st_connected = True,
       st_delivery = no_delivery, st_wire = [] \<rparr>"

definition run_stream ::
    "stream_context \<Rightarrow> resolved_route \<Rightarrow> request_features \<Rightarrow> health \<Rightarrow> chat_message list \<Rightarrow> provider_candidate list \<Rightarrow>
     stream_end \<times> stream_state" where
  "run_stream sx resolved f0 registry messages cs = stream_walk sx resolved f0 cs (stream_start registry messages)"

section \<open>The settlement\<close>

text \<open>The last frames are sent until one is refused; they are no model output.\<close>

fun send_frames :: "stream_context \<Rightarrow> chat_frame list \<Rightarrow> stream_state \<Rightarrow> stream_state" where
  "send_frames sx [] st = st"
| "send_frames sx (f # fs) st =
     (case send_data sx f st of
        (True, st1) \<Rightarrow> send_frames sx fs st1
      | (False, st1) \<Rightarrow> st1)"

definition send_stream_error :: "stream_context \<Rightarrow> api_error \<Rightarrow> stream_state \<Rightarrow> stream_state" where
  "send_stream_error sx e st = send_frames sx (error_frames e) st"

definition persist_call ::
    "settling \<Rightarrow> usage_session \<Rightarrow> resolved_route \<Rightarrow> settle_call \<Rightarrow> attempt_finish_reason option \<Rightarrow> bool option \<Rightarrow>
     usage_gap option \<Rightarrow> stream_state \<Rightarrow> db \<Rightarrow> (api_error, unit) result \<times> db" where
  "persist_call g session resolved k finish shape gap st d =
     persist_usage g session resolved (sk_provider k) (sk_model k) (sk_candidate k) (sk_usage k) (sk_features k) finish shape gap
       (wl_rows (w_ledger (st_walk st))) (w_clock (st_walk st)) (sk_status k) d"

record streaming =
  sg_settling :: settling
  sg_session :: usage_session
  sg_resolved :: resolved_route
  sg_features :: request_features
  sg_max_tokens :: "nat option"
  sg_include_usage :: bool

text \<open>The frames of an answer that was already complete.\<close>

definition replay :: "stream_context \<Rightarrow> chat_frame list \<Rightarrow> chat_frame list \<Rightarrow> stream_state \<Rightarrow> stream_state" where
  "replay sx outputs last_frames st =
     (case ensure_open sx False st of
        (False, st1) \<Rightarrow> st1
      | (True, st1) \<Rightarrow>
          (case deliver_all sx outputs ModelOutput st1 of
             (False, st2) \<Rightarrow> st2
           | (True, st2) \<Rightarrow> send_frames sx last_frames st2))"

definition complete_synthetic_stream ::
    "streaming \<Rightarrow> stream_context \<Rightarrow> provider_candidate \<Rightarrow> chat_response \<Rightarrow> nat \<Rightarrow> nat \<Rightarrow> stream_state \<Rightarrow> db \<Rightarrow>
     stream_state \<times> db" where
  "complete_synthetic_stream s sx c response no begun st d =
     (let f = on_candidate c (sg_features s); def = pc_definition c;
          persist = persist_call (sg_settling s) (sg_session s) (sg_resolved s)
      in case try_from_provider (cr_usage response) of
           None \<Rightarrow>
             (let st1 = push_attempt sx def ''ok'' begun no False tokens_unknown False None st;
                  (_, d1) = persist (candidate_call ([], []) (Some def) default_usage f 502) None None None st1 d
              in (send_stream_error sx MeteringUnavailable st1, d1))
         | Some u \<Rightarrow>
             (let (gone, st0) = is_closed sx st;
                  emitted = emitted_from_response response;
                  finish = resolve_finish (cr_stop_reason response) (em_tool_calls emitted) u (sg_max_tokens s);
                  shape = output_shape_ok emitted (tool_args_all_json (wx_parse_json (sx_walk sx)) (cr_tool_calls response))
                            (af_reason finish);
                  st1 = push_attempt sx def ''ok'' begun no True (tokens_measured u) False (Some (af_reason finish)) st0;
                  meta = zerorouter_block f (w_ledger (st_walk st1));
                  (res, d1) = persist (candidate_call ([], []) (Some def) u f (if gone then 499 else 200)) (Some finish)
                                (Some shape) None st1 d
              in case res of
                   Inl _ \<Rightarrow> (send_stream_error sx MeteringUnavailable st1, d1)
                 | Inr _ \<Rightarrow>
                     (let outputs =
                            (case cr_text response of None \<Rightarrow> [] | Some t \<Rightarrow> delta_frames (Some t) None) @
                            (case cr_reasoning_content response of None \<Rightarrow> [] | Some t \<Rightarrow> delta_frames None (Some t)) @
                            List.map (\<lambda>(i, call). ToolFrame call (min i u32_max))
                              (List.enumerate 0 (cr_tool_calls response))
                      in (replay sx outputs (finish_frames (sg_include_usage s) u
                            (finish_reason_of (em_tool_calls emitted) u (sg_max_tokens s)) meta) st1, d1))))"

definition finish_successful_stream ::
    "streaming \<Rightarrow> stream_context \<Rightarrow> provider_candidate \<Rightarrow> stream_local \<Rightarrow> stream_final \<Rightarrow> nat \<Rightarrow> nat \<Rightarrow> int \<Rightarrow> stream_state \<Rightarrow>
     db \<Rightarrow> stream_state \<times> db" where
  "finish_successful_stream s sx c l final no begun code st d =
     (let f = on_candidate c (sg_features s); def = pc_definition c; dl = st_delivery st;
          persist = persist_call (sg_settling s) (sg_session s) (sg_resolved s)
      in case sl_usage l of
           None \<Rightarrow>
             (let st1 = push_attempt sx def ''ok'' begun no (dl_sent dl) tokens_unknown False None st;
                  (_, d1) = persist (candidate_call ([], []) (Some def) (settled_usage dl None) f 502) None None
                              (sf_usage_gap final) st1 d
              in (send_stream_error sx MeteringUnavailable st1, d1))
         | Some u \<Rightarrow>
             (let finish = resolve_finish (sf_stop_reason final) (em_tool_calls (sl_emitted l)) u (sg_max_tokens s);
                  shape = output_shape_ok (sl_emitted l) (sl_args_ok l) (af_reason finish);
                  st1 = push_attempt sx def ''ok'' begun no (dl_sent dl) (tokens_measured u) False (Some (af_reason finish)) st;
                  billable = (if abandoned_by_client dl then default_usage else u);
                  meta = zerorouter_block f (w_ledger (st_walk st1));
                  (res, d1) = persist (candidate_call ([], []) (Some def) billable f code) (Some finish) (Some shape)
                                (sf_usage_gap final) st1 d
              in case res of
                   Inl _ \<Rightarrow> (send_stream_error sx MeteringUnavailable st1, d1)
                 | Inr _ \<Rightarrow>
                     (send_frames sx (finish_frames (sg_include_usage s) u
                        (finish_reason_of (em_tool_calls (sl_emitted l)) u (sg_max_tokens s)) meta) st1, d1)))"

text \<open>The error a walk that found nobody ends with.\<close>

definition exhausted_error :: "stream_state \<Rightarrow> api_error" where
  "exhausted_error st =
     (let w = st_walk st in
      if w_attestation_failed w then RetentionAttestationFailed
      else case w_rejection w of Some reason \<Rightarrow> UpstreamRejectedParameters reason | None \<Rightarrow> UpstreamUnavailable)"

definition settle_stream :: "streaming \<Rightarrow> stream_context \<Rightarrow> stream_end \<times> stream_state \<Rightarrow> db \<Rightarrow> stream_state \<times> db" where
  "settle_stream s sx ended d =
     (case ended of (e, st) \<Rightarrow>
        (let persist = (\<lambda>k. persist_call (sg_settling s) (sg_session s) (sg_resolved s) k None None None st d) in
         case e of
           ClientGone k \<Rightarrow> (st, snd (persist k))
         | InterruptedEnd k i linked \<Rightarrow>
             (let (res, d1) = persist k; err = (case res of Inr _ \<Rightarrow> interruption_error i | Inl _ \<Rightarrow> MeteringUnavailable)
              in (if linked then send_stream_error sx err st else st, d1))
         | SyntheticEnd c response no begun \<Rightarrow> complete_synthetic_stream s sx c response no begun st d
         | FinishedEnd c l final no begun code \<Rightarrow> finish_successful_stream s sx c l final no begun code st d
         | FailedEnd k attestation linked \<Rightarrow>
             (let (res, d1) = persist k;
                  err = (case res of
                           Inr _ \<Rightarrow> if attestation then RetentionAttestationFailed else UpstreamUnavailable
                         | Inl _ \<Rightarrow> MeteringUnavailable)
              in (if linked then send_stream_error sx err st else st, d1))
         | ExhaustedEnd None \<Rightarrow> (send_stream_error sx NoProviderAvailable st, d)
         | ExhaustedEnd (Some k) \<Rightarrow>
             (let (res, d1) = persist k; err = (case res of Inr _ \<Rightarrow> exhausted_error st | Inl _ \<Rightarrow> MeteringUnavailable)
              in (send_stream_error sx err st, d1))))"

definition stream_to_channel ::
    "streaming \<Rightarrow> stream_context \<Rightarrow> health \<Rightarrow> chat_message list \<Rightarrow> provider_candidate list \<Rightarrow> (db \<Rightarrow> db) \<Rightarrow> db \<Rightarrow>
     stream_state \<times> db" where
  "stream_to_channel s sx registry messages cs others d =
     (let ended = run_stream sx (sg_resolved s) (sg_features s) registry messages cs in
      settle_stream s sx ended
        (others (if w_calls (st_walk (snd ended)) = [] then d
                 else snd (fire (wx_utc (sx_walk sx)) (sg_session s) (False, d)))))"

section \<open>What is on the wire\<close>

fun is_output :: "chat_frame \<Rightarrow> bool" where
  "is_output (DeltaFrame _ _) = True"
| "is_output (ToolFrame _ _) = True"
| "is_output _ = False"

text \<open>The wire of a walk that still goes on: nothing, or one opening frame and then output, and the
  delivery says whether there is any.\<close>

definition relayed :: "stream_state \<Rightarrow> bool" where
  "relayed st \<longleftrightarrow>
     (st_wire st = [] \<or> hd (st_wire st) = OpenFrame) \<and> list_all is_output (tl (st_wire st)) \<and>
     dl_sent (st_delivery st) = (tl (st_wire st) \<noteq> []) \<and> (dl_sent (st_delivery st) \<longrightarrow> dl_attempted (st_delivery st))"

text \<open>While the client is there, an upstream's stream has been opened exactly when it has delivered.\<close>

definition following :: "stream_local \<Rightarrow> stream_state \<Rightarrow> bool" where
  "following l st \<longleftrightarrow> relayed st \<and>
     (st_connected st \<longrightarrow> sl_role_sent l = (st_wire st \<noteq> []) \<and> (sl_role_sent l \<longrightarrow> dl_sent (st_delivery st)))"

lemma relayed_frame [simp]:
  "relayed (st\<lparr> st_walk := w \<rparr>) = relayed st" "relayed (st\<lparr> st_looks := n \<rparr>) = relayed st"
  "relayed (st\<lparr> st_connected := b \<rparr>) = relayed st"
  by (simp_all add: relayed_def)

lemma deliver_frame [simp]:
  "st_connected (snd (deliver sx f kind st)) = st_connected st"
  "st_connected (snd (deliver_all sx fs kind st)) = st_connected st"
proof -
  show one: "st_connected (snd (deliver sx f kind st)) = st_connected st" for f st
    by (simp add: deliver_def send_data_def Let_def)
  show "st_connected (snd (deliver_all sx fs kind st)) = st_connected st"
  proof (induction fs arbitrary: st)
    case (Cons f fs)
    obtain b st1 where d: "deliver sx f kind st = (b, st1)"
      by fastforce
    then have "st_connected st1 = st_connected st"
      using one [of f st] by simp
    then show ?case
      using Cons.IH [of st1] by (cases b) (simp_all add: d)
  qed simp
qed

lemma deliver_output:
  assumes "relayed st" "st_wire st \<noteq> []" "is_output f"
  shows "relayed (snd (deliver sx f ModelOutput st)) \<and> st_wire (snd (deliver sx f ModelOutput st)) \<noteq> [] \<and>
    (fst (deliver sx f ModelOutput st) \<longrightarrow> dl_sent (st_delivery (snd (deliver sx f ModelOutput st))))"
  using assms by (auto simp: deliver_def send_data_def Let_def relayed_def tl_append split: list.split)

lemma deliver_all_output:
  "relayed st \<Longrightarrow> st_wire st \<noteq> [] \<Longrightarrow> list_all is_output fs \<Longrightarrow>
     relayed (snd (deliver_all sx fs ModelOutput st)) \<and> st_wire (snd (deliver_all sx fs ModelOutput st)) \<noteq> [] \<and>
     (fst (deliver_all sx fs ModelOutput st) \<and> (fs \<noteq> [] \<or> dl_sent (st_delivery st)) \<longrightarrow>
        dl_sent (st_delivery (snd (deliver_all sx fs ModelOutput st))))"
proof (induction fs arbitrary: st)
  case (Cons f fs)
  obtain b st1 where d: "deliver sx f ModelOutput st = (b, st1)"
    by fastforce
  have "relayed st1 \<and> st_wire st1 \<noteq> [] \<and> (b \<longrightarrow> dl_sent (st_delivery st1))"
    using deliver_output [OF Cons.prems(1,2), of f sx] Cons.prems(3) by (simp add: d)
  then show ?case
    using Cons.IH [of st1] Cons.prems(3) by (cases b) (simp_all add: d)
qed simp

lemma open_relayed:
  assumes "relayed st" "st_wire st = []" "deliver sx OpenFrame Scaffolding st = (b, st1)"
  shows "relayed st1 \<and> (st_wire st1 \<noteq> []) = b"
  using assms by (auto simp: deliver_def send_data_def Let_def relayed_def)

lemma relay_following:
  assumes "following l st" "frames \<noteq> []" "list_all is_output frames" "relay sx frames l st = (l1, st1)"
  shows "following l1 st1"
proof (cases "st_connected st")
  case False
  then show ?thesis
    using assms by (simp add: relay_def)
next
  case True
  note f = assms(1) [unfolded following_def]
  obtain b st2 where o: "ensure_open sx (sl_role_sent l) st = (b, st2)"
    by fastforce
  have st2: "relayed st2 \<and> (st_wire st2 \<noteq> []) = b \<and> st_connected st2"
  proof (cases "sl_role_sent l")
    case True
    then show ?thesis
      using o f \<open>st_connected st\<close> by (auto simp: ensure_open_def)
  next
    case False
    then have d: "deliver sx OpenFrame Scaffolding st = (b, st2)"
      using o by (simp add: ensure_open_def)
    have "st_connected st2"
      using deliver_frame(1) [of sx OpenFrame Scaffolding st] d True by simp
    then show ?thesis
      using open_relayed [OF _ _ d] f False True by auto
  qed
  show ?thesis
  proof (cases b)
    case False
    then show ?thesis
      using assms(4) o True st2 by (auto simp: relay_def following_def)
  next
    case True
    obtain a st3 where d: "deliver_all sx frames ModelOutput st2 = (a, st3)"
      by fastforce
    have st3: "relayed st3 \<and> st_wire st3 \<noteq> [] \<and> (a \<longrightarrow> dl_sent (st_delivery st3))" "st_connected st3"
      using deliver_all_output [of st2 frames sx] deliver_frame(2) [of sx frames ModelOutput st2] assms(2,3) st2 True
      by (simp_all add: d)
    have "l1 = l\<lparr> sl_role_sent := True \<rparr>" "st1 = st3\<lparr> st_connected := st_connected st3 \<and> a \<rparr>"
      using assms(4) o True \<open>st_connected st\<close> d by (simp_all add: relay_def)
    then show ?thesis
      using st3 by (simp add: following_def)
  qed
qed

lemma on_text_following:
  assumes f: "following l st" and t: "on_text sx chunk l st = (l1, st1)"
  shows "following l1 st1"
proof -
  define l0 where "l0 = l\<lparr> sl_estimated := sat_add (sl_estimated l) (sc_token_count chunk) \<rparr>"
  define l2 where "l2 = l0\<lparr> sl_emitted := record_reasoning (unwrap_or (sc_reasoning chunk) [])
      (record_text (sc_delta chunk) (sl_emitted l0)) \<rparr>"
  have same: "following l0 st" "following l2 st"
    using f by (simp_all add: l0_def l2_def following_def)
  show ?thesis
  proof (cases "sc_delta chunk = [] \<and> unwrap_or (sc_reasoning chunk) [] = []")
    case True
    then show ?thesis
      using t same(1) by (simp add: on_text_def Let_def l0_def)
  next
    case False
    then have r: "relay sx (delta_frames (if sc_delta chunk = [] then None else Some (sc_delta chunk)) (sc_reasoning chunk))
        l2 st = (l1, st1)"
      using t unfolding on_text_def Let_def l2_def l0_def by (simp only: if_False)
    show ?thesis
      by (rule relay_following [OF same(2) _ _ r]) (simp_all add: delta_frames_def)
  qed
qed

lemma on_tool_following: "following l st \<Longrightarrow> on_tool_call sx call l st = (l1, st1) \<Longrightarrow> following l1 st1"
proof -
  assume f: "following l st" and c: "on_tool_call sx call l st = (l1, st1)"
  define l0 where "l0 = l\<lparr> sl_emitted := record_tool_call (sl_emitted l),
                 sl_args_ok := sl_args_ok l \<and> wx_parse_json (sx_walk sx) (tc_arguments call) \<noteq> None \<rparr>"
  obtain l2 where r: "relay sx [ToolFrame call (sl_tool_index l)] l0 st = (l2, st1)"
      "l1 = l2\<lparr> sl_tool_index := min (Suc (sl_tool_index l)) u32_max \<rparr>"
    using c by (auto simp: on_tool_call_def Let_def l0_def split: prod.splits)
  have "following l0 st"
    using f by (simp add: l0_def following_def)
  from relay_following [OF this _ _ r(1)] show "following l1 st1"
    by (simp add: r(2) following_def)
qed

text \<open>One item of a stream, once its wait is over.\<close>

lemma read_stream_step:
  assumes "remaining_upstream_time (st_walk st) = Some remaining"
  obtains n where "read_stream sx ((ms, item) # items) l st =
    (let st1 = st\<lparr> st_walk := (st_walk st)\<lparr> w_clock := n \<rparr> \<rparr> in
     case item of
       ItemShutdown \<Rightarrow> (Interrupted InterruptShutdown, l, st1)
     | ItemElapsed \<Rightarrow> (Interrupted InterruptTimeout, l, st1)
     | ItemError err \<Rightarrow> (Failed (is_rate_limited err) (is_non_retryable_rate_limit err), l, note_stream_error sx err st1)
     | Item (FinalEvent final) \<Rightarrow> (Completed final, l, st1)
     | Item (UsageEvent u) \<Rightarrow> read_stream sx items (l\<lparr> sl_usage := try_from_provider (Some u) \<rparr>) st1
     | Item (TextDelta chunk) \<Rightarrow> (case on_text sx chunk l st1 of (l1, st2) \<Rightarrow> read_stream sx items l1 st2)
     | Item (ToolCallEvent call) \<Rightarrow> (case on_tool_call sx call l st1 of (l1, st2) \<Rightarrow> read_stream sx items l1 st2))"
  using assms that by (simp add: Let_def)

lemma following_walk [simp]: "following l (st\<lparr> st_walk := w \<rparr>) = following l st"
  by (simp add: following_def)

lemma following_error [simp]: "following l (note_stream_error sx err st) = following l st"
  by (simp add: note_stream_error_def Let_def)

lemma read_stream_following:
  "following l st \<Longrightarrow> read_stream sx items l st = (stop, l1, st1) \<Longrightarrow> following l1 st1"
proof (induction items arbitrary: l st)
  case Nil
  then show ?case
    by (auto split: option.splits)
next
  case (Cons x items)
  obtain ms item where x: "x = (ms, item)"
    by fastforce
  show ?case
  proof (cases "remaining_upstream_time (st_walk st)")
    case None
    then show ?thesis
      using Cons.prems by (simp add: x)
  next
    case (Some remaining)
    obtain n where step: "read_stream sx ((ms, item) # items) l st =
      (let st1 = st\<lparr> st_walk := (st_walk st)\<lparr> w_clock := n \<rparr> \<rparr> in
       case item of
         ItemShutdown \<Rightarrow> (Interrupted InterruptShutdown, l, st1)
       | ItemElapsed \<Rightarrow> (Interrupted InterruptTimeout, l, st1)
       | ItemError err \<Rightarrow> (Failed (is_rate_limited err) (is_non_retryable_rate_limit err), l, note_stream_error sx err st1)
       | Item (FinalEvent final) \<Rightarrow> (Completed final, l, st1)
       | Item (UsageEvent u) \<Rightarrow> read_stream sx items (l\<lparr> sl_usage := try_from_provider (Some u) \<rparr>) st1
       | Item (TextDelta chunk) \<Rightarrow> (case on_text sx chunk l st1 of (l1, st2) \<Rightarrow> read_stream sx items l1 st2)
       | Item (ToolCallEvent call) \<Rightarrow> (case on_tool_call sx call l st1 of (l1, st2) \<Rightarrow> read_stream sx items l1 st2))"
      by (rule read_stream_step [OF Some])
    define st0 where "st0 = st\<lparr> st_walk := (st_walk st)\<lparr> w_clock := n \<rparr> \<rparr>"
    have f0: "following l st0"
      using Cons.prems(1) by (simp add: st0_def)
    have run: "(case item of
         ItemShutdown \<Rightarrow> (Interrupted InterruptShutdown, l, st0)
       | ItemElapsed \<Rightarrow> (Interrupted InterruptTimeout, l, st0)
       | ItemError err \<Rightarrow> (Failed (is_rate_limited err) (is_non_retryable_rate_limit err), l, note_stream_error sx err st0)
       | Item (FinalEvent final) \<Rightarrow> (Completed final, l, st0)
       | Item (UsageEvent u) \<Rightarrow> read_stream sx items (l\<lparr> sl_usage := try_from_provider (Some u) \<rparr>) st0
       | Item (TextDelta chunk) \<Rightarrow> (case on_text sx chunk l st0 of (l1, st2) \<Rightarrow> read_stream sx items l1 st2)
       | Item (ToolCallEvent call) \<Rightarrow> (case on_tool_call sx call l st0 of (l1, st2) \<Rightarrow> read_stream sx items l1 st2))
        = (stop, l1, st1)"
      using Cons.prems(2) step by (simp only: x Let_def st0_def)
    consider chunk where "item = Item (TextDelta chunk)" | call where "item = Item (ToolCallEvent call)"
      | u where "item = Item (UsageEvent u)" | "l1 = l" "st1 = st0 \<or> (\<exists>err. st1 = note_stream_error sx err st0)"
      using run by (cases item) (auto split: stream_event.splits)
    then show ?thesis
    proof cases
      case (1 chunk)
      obtain l2 st2 where t: "on_text sx chunk l st0 = (l2, st2)"
        by fastforce
      then show ?thesis
        using Cons.IH [OF on_text_following [OF f0 t]] run by (simp add: 1)
    next
      case (2 call)
      obtain l2 st2 where t: "on_tool_call sx call l st0 = (l2, st2)"
        by fastforce
      then show ?thesis
        using Cons.IH [OF on_tool_following [OF f0 t]] run by (simp add: 2)
    next
      case (3 u)
      have "following (l\<lparr> sl_usage := try_from_provider (Some u) \<rparr>) st0"
        using f0 by (simp add: following_def)
      then show ?thesis
        using Cons.IH run by (simp add: 3)
    next
      case 4
      then show ?thesis
        using f0 by auto
    qed
  qed
qed

section \<open>How a walk ends\<close>

definition unopened :: "stream_state \<Rightarrow> bool" where
  "unopened st \<longleftrightarrow> relayed st \<and> st_wire st = [] \<and> st_connected st"

definition end_sound :: "stream_end \<Rightarrow> stream_state \<Rightarrow> bool" where
  "end_sound e st \<longleftrightarrow> relayed st \<and>
     (case e of
        ClientGone k \<Rightarrow> sk_usage k = default_usage
      | InterruptedEnd k _ _ \<Rightarrow> sk_usage k = default_usage \<or> dl_sent (st_delivery st)
      | SyntheticEnd _ _ _ _ \<Rightarrow> st_wire st = []
      | FinishedEnd _ _ _ _ _ _ \<Rightarrow> True
      | FailedEnd k _ _ \<Rightarrow> sk_usage k = default_usage \<or> dl_sent (st_delivery st)
      | ExhaustedEnd k \<Rightarrow> (case k of None \<Rightarrow> True | Some k \<Rightarrow> sk_usage k = default_usage))"

lemma unopened_walk [simp]: "unopened (st\<lparr> st_walk := w \<rparr>) = unopened st" "unopened (st\<lparr> st_looks := n \<rparr>) = unopened st"
  by (simp_all add: unopened_def)

lemma push_attempt_frame [simp]:
  "relayed (push_attempt sx c result begun no sv tokens g reason st) = relayed st"
  "unopened (push_attempt sx c result begun no sv tokens g reason st) = unopened st"
  "st_wire (push_attempt sx c result begun no sv tokens g reason st) = st_wire st"
  "st_delivery (push_attempt sx c result begun no sv tokens g reason st) = st_delivery st"
  by (simp_all add: push_attempt_def Let_def)

lemma skip_candidate_unopened [simp]: "unopened (skip_candidate sx c result st) = unopened st"
  by (simp add: skip_candidate_def)

lemma connected_now_relayed: "relayed (snd (connected_now sx st)) = relayed st"
  by (simp add: connected_now_def is_closed_def)

lemma settled_usage_default: "settled_usage dl u = default_usage \<or> dl_sent dl"
  by (simp add: settled_usage_def)

lemma candidate_call_usage [simp]: "sk_usage (candidate_call names c u f code) = u"
  by (simp add: candidate_call_def)

lemma interrupted_end_sound:
  "relayed st \<Longrightarrow> interrupted_end sx resolved c u f i st = (e, st1) \<Longrightarrow> end_sound e st1"
  using settled_usage_default [of "st_delivery st1" u]
  by (auto simp: interrupted_end_def connected_now_def is_closed_def end_sound_def split: if_splits)

lemma after_stream_sound:
  assumes f: "following l st" and a: "after_stream sx f0 resolved c begun no stop l st = (res, st1)"
  shows "case res of None \<Rightarrow> unopened st1 | Some e \<Rightarrow> end_sound e st1"
proof (cases stop)
  case (Interrupted i)
  have "relayed st"
    using f by (simp add: following_def)
  show ?thesis
    using a \<open>relayed st\<close>
    by (auto simp: after_stream_def Let_def Interrupted split: prod.splits elim!: interrupted_end_sound [rotated])
next
  case (Completed final)
  define st2 where "st2 = (if st_connected st
      then (case ensure_open sx (sl_role_sent l) st of (accepted, x) \<Rightarrow> x\<lparr> st_connected := accepted \<rparr>) else st)"
  have "relayed st2"
  proof (cases "st_connected st")
    case True
    obtain b x where o: "ensure_open sx (sl_role_sent l) st = (b, x)"
      by fastforce
    have "relayed x"
    proof (cases "sl_role_sent l")
      case True
      then show ?thesis
        using o f by (auto simp: ensure_open_def following_def)
    next
      case False
      then show ?thesis
        using o f True open_relayed [of st sx b x] by (auto simp: ensure_open_def following_def)
    qed
    then show ?thesis
      using o True by (simp add: st2_def)
  next
    case False
    then show ?thesis
      using f by (simp add: st2_def following_def)
  qed
  moreover obtain b x where "connected_now sx st2 = (b, x)"
    by fastforce
  ultimately have "relayed x" "connected_now sx st2 = (b, x)"
    using connected_now_relayed [of sx st2] by simp_all
  then show ?thesis
    using a by (auto simp: after_stream_def Let_def Completed st2_def [symmetric] end_sound_def)
next
  case (Failed limited refused)
  obtain gone x where c: "is_closed sx st = (gone, x)" "x = st\<lparr> st_looks := Suc (st_looks st) \<rparr>"
    by (auto simp: is_closed_def)
  have r: "relayed x" "st_connected x \<and> \<not> dl_sent (st_delivery x) \<Longrightarrow> st_wire x = []"
    using f by (auto simp: c following_def)
  show ?thesis
  proof (cases "dl_sent (st_delivery x) \<or> \<not> (st_connected x \<and> \<not> gone)")
    case True
    then show ?thesis
      using a r(1) settled_usage_default [of "st_delivery x" "sl_usage l"]
      by (auto simp: after_stream_def Let_def Failed c(1) end_sound_def)
  next
    case False
    then have "unopened (x\<lparr> st_connected := True \<rparr>)"
      using r by (auto simp: unopened_def)
    then show ?thesis
      using a False by (auto simp: after_stream_def Let_def Failed c(1))
  qed
qed

lemma streamed_attempt_sound:
  assumes "unopened st" "streamed_attempt sx resolved f c st = (res, st1)"
  shows "case res of None \<Rightarrow> unopened st1 | Some e \<Rightarrow> end_sound e st1"
proof -
  define st0 where "st0 = st\<lparr> st_walk := (st_walk st)\<lparr> w_step := Suc (w_step (st_walk st)), w_last := Some (pc_definition c),
      w_calls := w_calls (st_walk st) @ [\<lparr> uc_candidate = c, uc_prompt = w_messages (st_walk st), uc_truncated = False,
        uc_result = Elapsed \<rparr>] \<rparr> \<rparr>"
  obtain stop l st2 where r: "read_stream sx (sx_stream sx (w_step (st_walk st))) stream_local_new st0 = (stop, l, st2)"
    by (metis surj_pair)
  have "following stream_local_new st0"
    using assms(1) by (simp add: st0_def following_def unopened_def stream_local_new_def)
  from read_stream_following [OF this r] have "following l st2" .
  then show ?thesis
    using assms(2) r by (intro after_stream_sound) (auto simp: streamed_attempt_def Let_def st0_def)
qed

lemma buffered_attempt_sound:
  assumes "unopened st" "buffered_attempt sx resolved f c remaining st = (res, st1)"
  shows "case res of None \<Rightarrow> unopened st1 | Some e \<Rightarrow> end_sound e st1"
proof -
  obtain r w1 where call: "call_upstream (sx_walk sx) remaining c (st_walk st) = (r, w1)"
    by fastforce
  have st: "relayed st" "st_wire st = []"
    using assms(1) by (simp_all add: unopened_def)
  show ?thesis
  proof (cases r)
    case (Responded response)
    then show ?thesis
      using assms st by (auto simp: buffered_attempt_def Let_def call end_sound_def)
  next
    case (UpstreamFailed err)
    then show ?thesis
      using assms by (auto simp: buffered_attempt_def Let_def call)
  qed (use assms(2) st in \<open>auto simp: buffered_attempt_def Let_def call split: prod.splits
      elim!: interrupted_end_sound [rotated]\<close>)
qed

lemma stream_walk_sound: "unopened st \<Longrightarrow> stream_walk sx resolved f0 cs st = (e, st1) \<Longrightarrow> end_sound e st1"
proof (induction cs arbitrary: st)
  case Nil
  then show ?case
    by (auto simp: exhausted_end_def Let_def end_sound_def unopened_def split: option.split)
next
  case (Cons c cs)
  show ?case
  proof (cases "twin_unarmed c (st_walk st)")
    case True
    then show ?thesis
      using Cons.IH [of "skip_candidate sx c ''policy_skipped'' st"] Cons.prems by simp
  next
    case False
    note twin = this
    obtain gone st2 where c: "is_closed sx st = (gone, st2)" "st2 = st\<lparr> st_looks := Suc (st_looks st) \<rparr>"
      by (auto simp: is_closed_def)
    have f2: "unopened st2"
      using Cons.prems(1) c(2) by simp
    show ?thesis
    proof (cases gone)
      case True
      then show ?thesis
        using Cons.prems(2) twin c(1) f2 by (auto simp: end_sound_def unopened_def)
    next
      case False
      define st3 where "st3 = st2\<lparr> st_walk := meanwhile (sx_walk sx) (st_walk st2) \<rparr>"
      have f3: "unopened st3"
        using f2 by (simp add: st3_def)
      have run: "(if health_skips (sx_walk sx) c cs (st_walk st3)
              then stream_walk sx resolved f0 cs (skip_candidate sx c ''health_skipped'' st3)
              else
                (case remaining_upstream_time (st_walk st3) of
                   None \<Rightarrow> interrupted_end sx resolved (w_last (st_walk st3)) None f0 InterruptTimeout st3
                 | Some remaining \<Rightarrow>
                     (case (if sx_streams sx c then streamed_attempt sx resolved (on_candidate c f0) c st3
                            else buffered_attempt sx resolved (on_candidate c f0) c remaining st3) of
                        (Some e, st4) \<Rightarrow> (e, st4)
                      | (None, st4) \<Rightarrow> stream_walk sx resolved f0 cs st4))) = (e, st1)"
        using Cons.prems(2) twin c(1) False unfolding st3_def stream_walk.simps(2) by (simp only: Let_def if_False prod.case bool.case)
      show ?thesis
      proof (cases "health_skips (sx_walk sx) c cs (st_walk st3)")
        case True
        then show ?thesis
          using run Cons.IH [of "skip_candidate sx c ''health_skipped'' st3"] f3 by simp
      next
        case False
        show ?thesis
        proof (cases "remaining_upstream_time (st_walk st3)")
          case None
          then show ?thesis
            using run False f3 by (auto simp: unopened_def intro: interrupted_end_sound)
        next
          case (Some remaining)
          obtain res st4 where r: "(if sx_streams sx c then streamed_attempt sx resolved (on_candidate c f0) c st3
                            else buffered_attempt sx resolved (on_candidate c f0) c remaining st3) = (res, st4)"
            by fastforce
          have "case res of None \<Rightarrow> unopened st4 | Some e \<Rightarrow> end_sound e st4"
            using r streamed_attempt_sound [OF f3] buffered_attempt_sound [OF f3] by (metis (full_types))
          moreover have "(case res of Some e \<Rightarrow> (e, st4) | None \<Rightarrow> stream_walk sx resolved f0 cs st4) = (e, st1)"
            using run False Some r by (simp split: option.splits)
          ultimately show ?thesis
            using Cons.IH by (cases res) auto
        qed
      qed
    qed
  qed
qed

lemma run_stream_sound: "run_stream sx resolved f0 registry messages cs = (e, st) \<Longrightarrow> end_sound e st"
  unfolding run_stream_def
  by (erule stream_walk_sound [rotated]) (simp add: unopened_def relayed_def stream_start_def no_delivery_def)

section \<open>The whole stream\<close>

text \<open>
  What a chat client may be sent, as an acceptor of frames.  It is told whether the request asked for the
  usage: nothing but an opening, a finish or an error begins a stream; output follows an opening; the usage
  follows the finish where it was asked for and only there; the end marker follows the finish, the usage or
  the error; nothing follows the end marker.
\<close>

datatype wire_state = WireBegin | WireOutput | WireFinishing | WireMetered | WireFailing | WireEnded | WireStuck

fun wire_next :: "bool \<Rightarrow> wire_state \<Rightarrow> chat_frame \<Rightarrow> wire_state" where
  "wire_next asked WireBegin OpenFrame = WireOutput"
| "wire_next asked WireBegin (FinishFrame reason) = WireFinishing"
| "wire_next asked WireBegin (ErrorFrame e) = WireFailing"
| "wire_next asked WireOutput (DeltaFrame content reasoning) = WireOutput"
| "wire_next asked WireOutput (ToolFrame call index) = WireOutput"
| "wire_next asked WireOutput (FinishFrame reason) = WireFinishing"
| "wire_next asked WireOutput (ErrorFrame e) = WireFailing"
| "wire_next asked WireFinishing (UsageFrame u meta) = (if asked then WireMetered else WireStuck)"
| "wire_next asked WireFinishing DoneFrame = (if asked then WireStuck else WireEnded)"
| "wire_next asked WireMetered DoneFrame = WireEnded"
| "wire_next asked WireFailing DoneFrame = WireEnded"
| "wire_next asked q f = WireStuck"

definition wire_reads :: "bool \<Rightarrow> chat_frame list \<Rightarrow> wire_state" where
  "wire_reads asked wire = foldl (wire_next asked) WireBegin wire"

lemma wire_stuck [simp]: "foldl (wire_next asked) WireStuck wire = WireStuck"
  by (induction wire) simp_all

lemma wire_prefix: "foldl (wire_next asked) q (xs @ ys) \<noteq> WireStuck \<Longrightarrow> foldl (wire_next asked) q xs \<noteq> WireStuck"
  by auto

lemma wire_outputs: "list_all is_output fs \<Longrightarrow> foldl (wire_next asked) WireOutput fs = WireOutput"
proof (induction fs)
  case (Cons f fs)
  then show ?case
    by (cases f) simp_all
qed simp

lemma wire_relayed: "relayed st \<Longrightarrow> wire_reads asked (st_wire st) = (if st_wire st = [] then WireBegin else WireOutput)"
  by (cases "st_wire st") (auto simp: relayed_def wire_reads_def wire_outputs)

lemma wire_closed:
  assumes "q = WireBegin \<or> q = WireOutput"
  shows "foldl (wire_next asked) q (error_frames e) = WireEnded"
    and "foldl (wire_next asked) q (finish_frames asked u reason meta) = WireEnded"
  using assms by (auto simp: error_frames_def finish_frames_def)

lemma send_frames_prefix: "\<exists>sent. st_wire (send_frames sx fs st) = st_wire st @ sent \<and> prefix sent fs"
proof (induction fs arbitrary: st)
  case (Cons f fs)
  obtain b st1 where s: "send_data sx f st = (b, st1)"
    by fastforce
  then have w: "st_wire st1 = (if b then st_wire st @ [f] else st_wire st)"
    by (auto simp: send_data_def Let_def)
  show ?case
  proof (cases b)
    case True
    obtain sent where "st_wire (send_frames sx fs st1) = st_wire st1 @ sent \<and> prefix sent fs"
      using Cons.IH by blast
    then show ?thesis
      using w True by (auto simp: s intro: exI [of _ "f # sent"])
  next
    case False
    then show ?thesis
      using w by (simp add: s)
  qed
qed simp

text \<open>However much of a closing run the channel takes, the wire is accepted; a channel that takes all of it has the stream ended.\<close>

lemma wire_closing:
  assumes "relayed st" "\<And>q. q = WireBegin \<or> q = WireOutput \<Longrightarrow> foldl (wire_next asked) q fs = WireEnded"
  shows "wire_reads asked (st_wire (send_frames sx fs st)) \<noteq> WireStuck"
proof -
  obtain sent rest where w: "st_wire (send_frames sx fs st) = st_wire st @ sent" "fs = sent @ rest"
    using send_frames_prefix [of sx fs st] by (auto simp: prefix_def)
  define q where "q = wire_reads asked (st_wire st)"
  have q: "q = WireBegin \<or> q = WireOutput"
    using wire_relayed [OF assms(1), of asked] by (auto simp: q_def)
  have "foldl (wire_next asked) q (sent @ rest) \<noteq> WireStuck"
    using assms(2) [OF q] by (simp add: w(2))
  from wire_prefix [OF this] show ?thesis
    by (simp add: w(1) wire_reads_def q_def)
qed

lemma wire_error: "relayed st \<Longrightarrow> wire_reads asked (st_wire (send_stream_error sx e st)) \<noteq> WireStuck"
  unfolding send_stream_error_def by (rule wire_closing) (auto simp: wire_closed)

lemma wire_finish: "relayed st \<Longrightarrow> wire_reads asked (st_wire (send_frames sx (finish_frames asked u reason meta) st)) \<noteq> WireStuck"
  by (rule wire_closing) (auto simp: wire_closed)

lemma wire_open: "relayed st \<Longrightarrow> wire_reads asked (st_wire st) \<noteq> WireStuck"
  by (simp add: wire_relayed)

lemma finish_successful_wire:
  assumes "relayed st"
  shows "wire_reads (sg_include_usage s) (st_wire (fst (finish_successful_stream s sx c l final no begun code st d))) \<noteq> WireStuck"
  using assms by (auto simp: finish_successful_stream_def Let_def wire_error wire_finish split: option.split prod.split sum.split)

lemma outputs_enumerated: "list_all is_output (List.map (\<lambda>(i, call). ToolFrame call (min i m)) (List.enumerate n calls))"
  by (induction calls arbitrary: n) simp_all

lemma response_outputs: "list_all is_output ((case cr_text response of None \<Rightarrow> [] | Some t \<Rightarrow> delta_frames (Some t) None) @
    (case cr_reasoning_content response of None \<Rightarrow> [] | Some t \<Rightarrow> delta_frames None (Some t)) @
    List.map (\<lambda>(i, call). ToolFrame call (min i u32_max)) (List.enumerate 0 (cr_tool_calls response)))"
  by (simp add: list_all_append outputs_enumerated delta_frames_def split: option.split)

lemma replay_opened:
  assumes "relayed st" "st_wire st = []" "list_all is_output outputs" "ensure_open sx False st = (b, st1)"
    "deliver_all sx outputs ModelOutput st1 = (a, st2)"
  shows "relayed st1" "b \<Longrightarrow> relayed st2 \<and> st_wire st2 \<noteq> []"
proof -
  have "relayed st1 \<and> (st_wire st1 \<noteq> []) = b"
    using open_relayed assms(1,2,4) by (simp add: ensure_open_def)
  then show "relayed st1" "b \<Longrightarrow> relayed st2 \<and> st_wire st2 \<noteq> []"
    using deliver_all_output [of st1 outputs sx] assms(3,5) by simp_all
qed

lemma replay_wire:
  assumes "relayed st" "st_wire st = []" "list_all is_output outputs"
  shows "wire_reads asked (st_wire (replay sx outputs (finish_frames asked u reason meta) st)) \<noteq> WireStuck"
proof -
  obtain b st1 a st2 where o: "ensure_open sx False st = (b, st1)" "deliver_all sx outputs ModelOutput st1 = (a, st2)"
    by (metis surj_pair)
  show ?thesis
    using replay_opened [OF assms o] o by (cases b; cases a) (auto simp: replay_def wire_open wire_finish)
qed

lemma complete_synthetic_wire:
  assumes "relayed st" "st_wire st = []"
  shows "wire_reads (sg_include_usage s) (st_wire (fst (complete_synthetic_stream s sx c response no begun st d))) \<noteq> WireStuck"
proof -
  obtain gone st0 where look: "is_closed sx st = (gone, st0)"
    by fastforce
  then have st0: "relayed st0" "st_wire st0 = []"
    using assms by (auto simp: is_closed_def)
  show ?thesis
    using assms st0
    by (auto simp: complete_synthetic_stream_def Let_def look wire_error replay_wire [OF _ _ response_outputs]
        split: prod.split sum.split option.split)
qed

section \<open>A stream that is heard to its end\<close>

definition all_heard :: "stream_context \<Rightarrow> bool" where
  "all_heard sx \<longleftrightarrow> (\<forall>n. sx_accepts sx n \<and> \<not> sx_closed sx n)"

lemma heard_deliver [simp]: "all_heard sx \<Longrightarrow> fst (deliver sx f kind st)"
  by (simp add: all_heard_def deliver_def send_data_def Let_def)

lemma heard_deliver_all [simp]: "all_heard sx \<Longrightarrow> fst (deliver_all sx fs kind st)"
proof (induction fs arbitrary: st)
  case (Cons f fs)
  then show ?case
    using heard_deliver [OF Cons.prems, of f kind st] by (cases "deliver sx f kind st") simp
qed simp

lemma heard_open: "all_heard sx \<Longrightarrow> ensure_open sx b st = (a, st1) \<Longrightarrow> a \<and> st_connected st1 = st_connected st"
  using heard_deliver [of sx OpenFrame Scaffolding st] deliver_frame(1) [of sx OpenFrame Scaffolding st]
  by (cases b) (auto simp: ensure_open_def)

lemma heard_send: "all_heard sx \<Longrightarrow> st_wire (send_frames sx fs st) = st_wire st @ fs"
  by (induction fs arbitrary: st) (simp_all add: all_heard_def send_data_def Let_def)

lemma heard_relay:
  assumes "all_heard sx" "st_connected st"
  shows "st_connected (snd (relay sx frames l st))"
proof -
  obtain a st1 where o: "ensure_open sx (sl_role_sent l) st = (a, st1)"
    by fastforce
  obtain b st2 where d: "deliver_all sx frames ModelOutput st1 = (b, st2)"
    by fastforce
  show ?thesis
    using heard_open [OF assms(1) o] heard_deliver_all [OF assms(1), of frames ModelOutput st1]
      deliver_frame(2) [of sx frames ModelOutput st1] assms(2) o d
    by (simp add: relay_def)
qed

lemma heard_read: "all_heard sx \<Longrightarrow> st_connected st \<Longrightarrow> st_connected (snd (snd (read_stream sx items l st)))"
proof (induction items arbitrary: l st)
  case Nil
  then show ?case
    by (simp split: option.split)
next
  case (Cons x items)
  obtain ms item where x: "x = (ms, item)"
    by fastforce
  have said: "st_connected (snd (on_text sx chunk l st'))" if "st_connected st'" for chunk st'
    using heard_relay [OF Cons.prems(1) that] that by (simp add: on_text_def Let_def)
  have called: "st_connected (snd (on_tool_call sx call l st'))" if "st_connected st'" for call st'
    using heard_relay [OF Cons.prems(1) that] by (simp add: on_tool_call_def Let_def split: prod.split) (metis snd_conv)
  show ?case
  proof (cases "remaining_upstream_time (st_walk st)")
    case None
    then show ?thesis
      using Cons.prems by (simp add: x)
  next
    case (Some remaining)
    obtain n where step: "read_stream sx ((ms, item) # items) l st =
      (let st1 = st\<lparr> st_walk := (st_walk st)\<lparr> w_clock := n \<rparr> \<rparr> in
       case item of
         ItemShutdown \<Rightarrow> (Interrupted InterruptShutdown, l, st1)
       | ItemElapsed \<Rightarrow> (Interrupted InterruptTimeout, l, st1)
       | ItemError err \<Rightarrow> (Failed (is_rate_limited err) (is_non_retryable_rate_limit err), l, note_stream_error sx err st1)
       | Item (FinalEvent final) \<Rightarrow> (Completed final, l, st1)
       | Item (UsageEvent u) \<Rightarrow> read_stream sx items (l\<lparr> sl_usage := try_from_provider (Some u) \<rparr>) st1
       | Item (TextDelta chunk) \<Rightarrow> (case on_text sx chunk l st1 of (l1, st2) \<Rightarrow> read_stream sx items l1 st2)
       | Item (ToolCallEvent call) \<Rightarrow> (case on_tool_call sx call l st1 of (l1, st2) \<Rightarrow> read_stream sx items l1 st2))"
      by (rule read_stream_step [OF Some])
    define st0 where "st0 = st\<lparr> st_walk := (st_walk st)\<lparr> w_clock := n \<rparr> \<rparr>"
    have st0: "st_connected st0"
      using Cons.prems(2) by (simp add: st0_def)
    show ?thesis
      unfolding x step Let_def st0_def [symmetric]
      using Cons.IH [OF Cons.prems(1)] said [OF st0] called [OF st0] st0
      by (auto simp: note_stream_error_def Let_def split_beta split: stream_item.split stream_event.split)
  qed
qed

text \<open>Every end of such a walk knows its client to be there, and a finished one has opened the stream.\<close>

definition end_heard :: "stream_end \<Rightarrow> stream_state \<Rightarrow> bool" where
  "end_heard e st \<longleftrightarrow>
     (case e of
        ClientGone _ \<Rightarrow> False
      | InterruptedEnd _ _ linked \<Rightarrow> linked
      | FailedEnd _ _ linked \<Rightarrow> linked
      | FinishedEnd _ _ _ _ _ _ \<Rightarrow> st_wire st \<noteq> []
      | _ \<Rightarrow> True)"

lemma interrupted_end_heard:
  "all_heard sx \<Longrightarrow> st_connected st \<Longrightarrow> interrupted_end sx resolved c u f i st = (e, st1) \<Longrightarrow> end_heard e st1"
  by (auto simp: interrupted_end_def connected_now_def is_closed_def end_heard_def all_heard_def)

lemma push_attempt_connected [simp]: "st_connected (push_attempt sx c result begun no sv tokens g reason st) = st_connected st"
  by (simp add: push_attempt_def Let_def)

lemma after_stream_heard:
  assumes h: "all_heard sx" and f: "following l st" "st_connected st"
    and a: "after_stream sx f0 resolved c begun no stop l st = (res, st1)"
  shows "case res of None \<Rightarrow> True | Some e \<Rightarrow> end_heard e st1"
proof (cases stop)
  case (Interrupted i)
  show ?thesis
    using a f(2) by (auto simp: after_stream_def Let_def Interrupted split: prod.splits elim!: interrupted_end_heard [OF h, rotated])
next
  case (Completed final)
  obtain b x where o: "ensure_open sx (sl_role_sent l) st = (b, x)"
    by fastforce
  have x: "b" "st_connected x" "st_wire x \<noteq> []"
  proof -
    show "b" "st_connected x"
      using heard_open [OF h o] f(2) by simp_all
    show "st_wire x \<noteq> []"
    proof (cases "sl_role_sent l")
      case True
      then show ?thesis
        using o f by (auto simp: ensure_open_def following_def)
    next
      case False
      then show ?thesis
        using o heard_open [OF h o] f open_relayed [of st sx b x] by (auto simp: ensure_open_def following_def)
    qed
  qed
  then show ?thesis
    using a o f(2) by (auto simp: after_stream_def Let_def Completed end_heard_def connected_now_def is_closed_def)
next
  case (Failed limited refused)
  show ?thesis
    using a f(2) h by (auto simp: after_stream_def Let_def Failed is_closed_def end_heard_def all_heard_def split: if_splits)
qed

lemma streamed_attempt_heard:
  assumes "all_heard sx" "unopened st" "streamed_attempt sx resolved f c st = (res, st1)"
  shows "case res of None \<Rightarrow> True | Some e \<Rightarrow> end_heard e st1"
proof -
  define st0 where "st0 = st\<lparr> st_walk := (st_walk st)\<lparr> w_step := Suc (w_step (st_walk st)), w_last := Some (pc_definition c),
      w_calls := w_calls (st_walk st) @ [\<lparr> uc_candidate = c, uc_prompt = w_messages (st_walk st), uc_truncated = False,
        uc_result = Elapsed \<rparr>] \<rparr> \<rparr>"
  obtain stop l st2 where r: "read_stream sx (sx_stream sx (w_step (st_walk st))) stream_local_new st0 = (stop, l, st2)"
    by (metis surj_pair)
  have st0: "following stream_local_new st0" "st_connected st0"
    using assms(2) by (simp_all add: st0_def following_def unopened_def stream_local_new_def)
  have "following l st2" "st_connected st2"
    using read_stream_following [OF st0(1) r] heard_read [OF assms(1) st0(2)] r by (metis snd_conv)+
  then show ?thesis
    using assms r by (intro after_stream_heard) (auto simp: streamed_attempt_def Let_def st0_def)
qed

lemma buffered_attempt_heard:
  assumes "all_heard sx" "unopened st" "buffered_attempt sx resolved f c remaining st = (res, st1)"
  shows "case res of None \<Rightarrow> True | Some e \<Rightarrow> end_heard e st1"
proof -
  obtain r w1 where call: "call_upstream (sx_walk sx) remaining c (st_walk st) = (r, w1)"
    by fastforce
  have st: "st_connected st"
    using assms(2) by (simp add: unopened_def)
  show ?thesis
  proof (cases r)
    case (Responded response)
    then show ?thesis
      using assms(3) by (auto simp: buffered_attempt_def Let_def call end_heard_def)
  next
    case (UpstreamFailed err)
    then show ?thesis
      using assms(3) by (auto simp: buffered_attempt_def Let_def call)
  qed (use assms(3) st in \<open>auto simp: buffered_attempt_def Let_def call split: prod.splits
      elim!: interrupted_end_heard [OF assms(1), rotated]\<close>)
qed

lemma stream_walk_heard:
  "all_heard sx \<Longrightarrow> unopened st \<Longrightarrow> stream_walk sx resolved f0 cs st = (e, st1) \<Longrightarrow> end_heard e st1"
proof (induction cs arbitrary: st)
  case Nil
  then show ?case
    by (auto simp: exhausted_end_def Let_def end_heard_def split: option.split)
next
  case (Cons c cs)
  show ?case
  proof (cases "twin_unarmed c (st_walk st)")
    case True
    then show ?thesis
      using Cons.IH [of "skip_candidate sx c ''policy_skipped'' st"] Cons.prems by simp
  next
    case False
    obtain st2 where c: "is_closed sx st = (False, st2)" "st2 = st\<lparr> st_looks := Suc (st_looks st) \<rparr>"
      using Cons.prems(1) by (simp add: is_closed_def all_heard_def)
    define st3 where "st3 = st2\<lparr> st_walk := meanwhile (sx_walk sx) (st_walk st2) \<rparr>"
    have f3: "unopened st3"
      using Cons.prems(2) c(2) by (simp add: st3_def)
    have run: "(if health_skips (sx_walk sx) c cs (st_walk st3)
              then stream_walk sx resolved f0 cs (skip_candidate sx c ''health_skipped'' st3)
              else
                (case remaining_upstream_time (st_walk st3) of
                   None \<Rightarrow> interrupted_end sx resolved (w_last (st_walk st3)) None f0 InterruptTimeout st3
                 | Some remaining \<Rightarrow>
                     (case (if sx_streams sx c then streamed_attempt sx resolved (on_candidate c f0) c st3
                            else buffered_attempt sx resolved (on_candidate c f0) c remaining st3) of
                        (Some e, st4) \<Rightarrow> (e, st4)
                      | (None, st4) \<Rightarrow> stream_walk sx resolved f0 cs st4))) = (e, st1)"
      using Cons.prems(3) False c(1) unfolding st3_def stream_walk.simps(2) by (simp only: Let_def if_False prod.case bool.case)
    show ?thesis
    proof (cases "health_skips (sx_walk sx) c cs (st_walk st3)")
      case True
      then show ?thesis
        using run Cons.IH [OF Cons.prems(1), of "skip_candidate sx c ''health_skipped'' st3"] f3 by simp
    next
      case False
      show ?thesis
      proof (cases "remaining_upstream_time (st_walk st3)")
        case None
        then show ?thesis
          using run False f3 Cons.prems(1) by (auto simp: unopened_def intro: interrupted_end_heard)
      next
        case (Some remaining)
        obtain res st4 where r: "(if sx_streams sx c then streamed_attempt sx resolved (on_candidate c f0) c st3
                            else buffered_attempt sx resolved (on_candidate c f0) c remaining st3) = (res, st4)"
          by fastforce
        have "case res of None \<Rightarrow> unopened st4 | Some e \<Rightarrow> end_heard e st4"
          using r streamed_attempt_sound [OF f3] buffered_attempt_sound [OF f3] streamed_attempt_heard [OF Cons.prems(1) f3]
            buffered_attempt_heard [OF Cons.prems(1) f3]
          by (cases res; cases "sx_streams sx c") fastforce+
        moreover have "(case res of Some e \<Rightarrow> (e, st4) | None \<Rightarrow> stream_walk sx resolved f0 cs st4) = (e, st1)"
          using run False Some r by (simp split: option.splits)
        ultimately show ?thesis
          using Cons.IH [OF Cons.prems(1)] by (cases res) auto
      qed
    qed
  qed
qed

lemma heard_ends:
  assumes "all_heard sx" "relayed st" "\<And>q. q = WireBegin \<or> q = WireOutput \<Longrightarrow> foldl (wire_next asked) q fs = WireEnded"
  shows "wire_reads asked (st_wire (send_frames sx fs st)) = WireEnded"
  using wire_relayed [OF assms(2), of asked] assms(3) by (simp add: heard_send [OF assms(1)] wire_reads_def)

text \<open>The first frame a client hears: the opening, or an error ahead of any opening.\<close>

definition begins :: "chat_frame list \<Rightarrow> bool" where
  "begins wire = (case wire of OpenFrame # _ \<Rightarrow> True | ErrorFrame _ # _ \<Rightarrow> True | _ \<Rightarrow> False)"

lemma heard_error:
  assumes "all_heard sx" "relayed st"
  shows "wire_reads asked (st_wire (send_stream_error sx e st)) = WireEnded \<and> begins (st_wire (send_stream_error sx e st))"
proof -
  have "begins (st_wire st @ error_frames e)"
    using assms(2) by (cases "st_wire st") (auto simp: relayed_def begins_def error_frames_def)
  then show ?thesis
    unfolding send_stream_error_def using heard_ends [OF assms, of asked "error_frames e"] wire_closed(1)
    by (simp add: heard_send [OF assms(1)])
qed

lemma heard_finish:
  assumes "all_heard sx" "relayed st" "st_wire st \<noteq> []"
  shows "wire_reads asked (st_wire (send_frames sx (finish_frames asked u reason meta) st)) = WireEnded \<and>
    begins (st_wire (send_frames sx (finish_frames asked u reason meta) st))"
proof -
  have "begins (st_wire st @ finish_frames asked u reason meta)"
    using assms(2,3) by (cases "st_wire st") (auto simp: relayed_def begins_def)
  then show ?thesis
    using heard_ends [OF assms(1,2), of asked "finish_frames asked u reason meta"] wire_closed(2)
    by (simp add: heard_send [OF assms(1)])
qed

lemma heard_replay:
  assumes "all_heard sx" "relayed st" "st_wire st = []" "list_all is_output outputs"
  shows "wire_reads asked (st_wire (replay sx outputs (finish_frames asked u reason meta) st)) = WireEnded \<and>
    begins (st_wire (replay sx outputs (finish_frames asked u reason meta) st))"
proof -
  obtain b st1 a st2 where o: "ensure_open sx False st = (b, st1)" "deliver_all sx outputs ModelOutput st1 = (a, st2)"
    by (metis surj_pair)
  have "b" "a"
    using heard_open [OF assms(1) o(1)] heard_deliver_all [OF assms(1), of outputs ModelOutput st1] o(2) by simp_all
  then show ?thesis
    using replay_opened(2) [OF assms(2-4) o] o heard_finish [OF assms(1), of st2] by (simp add: replay_def)
qed

lemma finish_successful_heard:
  assumes "all_heard sx" "relayed st" "st_wire st \<noteq> []"
  shows "wire_reads (sg_include_usage s) (st_wire (fst (finish_successful_stream s sx c l final no begun code st d))) = WireEnded \<and>
    begins (st_wire (fst (finish_successful_stream s sx c l final no begun code st d)))"
  using assms by (auto simp: finish_successful_stream_def Let_def heard_error heard_finish split: option.split prod.split sum.split)

lemma complete_synthetic_heard:
  assumes "all_heard sx" "relayed st" "st_wire st = []"
  shows "wire_reads (sg_include_usage s) (st_wire (fst (complete_synthetic_stream s sx c response no begun st d))) = WireEnded \<and>
    begins (st_wire (fst (complete_synthetic_stream s sx c response no begun st d)))"
proof -
  obtain gone st0 where look: "is_closed sx st = (gone, st0)"
    by fastforce
  then have st0: "relayed st0" "st_wire st0 = []"
    using assms by (auto simp: is_closed_def)
  show ?thesis
    using assms st0
    by (auto simp: complete_synthetic_stream_def Let_def look heard_error heard_replay [OF assms(1) _ _ response_outputs]
        split: prod.split sum.split option.split)
qed

text \<open>C24: What a streamed answer puts on the channel is, whatever the upstreams, the clock and the client do, a wire
  the acceptor takes: one opening frame at most, and first; model output only after it; then the finish, with the
  usage after it exactly where the request asked for it, or one error; the end marker only after these, and
  nothing after the end marker.  On a channel that takes every frame, to a client that stays, the stream
  begins with the opening (or with an error, when nothing was opened) and runs to its end marker.\<close>

theorem stream_wire_well_formed:
  assumes "wire = st_wire (fst (stream_to_channel s sx registry messages cs others d))"
  shows "wire_reads (sg_include_usage s) wire \<noteq> WireStuck \<and>
    (all_heard sx \<longrightarrow> wire_reads (sg_include_usage s) wire = WireEnded \<and> begins wire)"
proof (intro conjI impI)
  obtain e st where run: "run_stream sx (sg_resolved s) (sg_features s) registry messages cs = (e, st)"
    by fastforce
  note sound = run_stream_sound [OF run, unfolded end_sound_def]
  show "wire_reads (sg_include_usage s) wire \<noteq> WireStuck"
    using sound unfolding assms
    by (cases e)
      (auto simp: stream_to_channel_def run settle_stream_def Let_def wire_open wire_error finish_successful_wire
        complete_synthetic_wire split: prod.split sum.split option.split)
  assume h: "all_heard sx"
  have "end_heard e st"
    using run unfolding run_stream_def
    by (rule stream_walk_heard [OF h, rotated]) (simp add: unopened_def relayed_def stream_start_def no_delivery_def)
  then have "wire_reads (sg_include_usage s) wire = WireEnded \<and> begins wire"
    using sound h unfolding assms
    by (cases e)
      (auto simp: stream_to_channel_def run settle_stream_def Let_def heard_error end_heard_def
        finish_successful_heard complete_synthetic_heard split: prod.split sum.split option.split)
  then show "wire_reads (sg_include_usage s) wire = WireEnded" "begins wire"
    by simp_all
qed

section \<open>A stream nobody received is free\<close>

text \<open>Whether an end of the walk is one that is billed.\<close>

definition stream_owes :: "stream_end \<Rightarrow> stream_delivery \<Rightarrow> bool" where
  "stream_owes e dl =
     (case e of
        SyntheticEnd _ response _ _ \<Rightarrow> try_from_provider (cr_usage response) \<noteq> None
      | FinishedEnd _ l _ _ _ _ \<Rightarrow> sl_usage l \<noteq> None \<and> \<not> abandoned_by_client dl
      | _ \<Rightarrow> dl_sent dl)"

lemma persist_call_free:
  assumes "persist_call g session resolved k finish shape gap st d = (res, d1)"
    and "decimal_exact (sg_decimal g)" "d_parse (sg_text g) (d_show (sg_text g) 0) = Some 0"
    and "sk_usage k = default_usage"
  shows "same_money d d1"
  using persist_default_free [OF assms(2,3)] assms(1,4) by (metis persist_call_def snd_conv)

text \<open>C15: A streamed walk that ends without billable output settles free, whatever faults the settlement meets: no
  balance changes and the ledger gets no entry.  These ends are: the client found gone between two candidates; a
  timeout, a shutdown or a failure with no output delivered; nobody left to call; a finished answer without usage;
  and a finished stream that attempted to deliver output and had every attempt refused.  Not among them, and
  billed in full although the comment at its settlement says that a client that walked away is not billed, is a
  finished stream whose client was gone before its opening frame: it attempts no output at all, so no attempt was
  refused (theorem \<^verbatim>\<open>vanished_client_is_billed\<close>).\<close>

theorem undelivered_stream_is_free:
  assumes "decimal_exact (sg_decimal (sg_settling s))" "d_parse (sg_text (sg_settling s)) (d_show (sg_text (sg_settling s)) 0) = Some 0"
    and run: "run_stream sx (sg_resolved s) (sg_features s) registry messages cs = (e, st)"
    and owes: "\<not> stream_owes e (st_delivery st)"
  shows "users (snd (settle_stream s sx (e, st) d)) = users d \<and> ledger (snd (settle_stream s sx (e, st) d)) = ledger d"
proof -
  note sound = run_stream_sound [OF run, unfolded end_sound_def]
  note free = persist_call_free [OF _ assms(1,2)]
  have "same_money d (snd (settle_stream s sx (e, st) d))"
  proof (cases e)
    case (FinishedEnd c l final no begun code)
    then show ?thesis
      using owes
      by (auto simp: settle_stream_def finish_successful_stream_def Let_def stream_owes_def settled_usage_def abandoned_by_client_def
          elim!: free split: option.split prod.split sum.split)
  next
    case (SyntheticEnd c response no begun)
    then show ?thesis
      using owes
      by (auto simp: settle_stream_def complete_synthetic_stream_def Let_def stream_owes_def
          elim!: free split: option.split prod.split sum.split)
  next
    case (ClientGone k)
    then show ?thesis
      using sound by (cases "persist_call (sg_settling s) (sg_session s) (sg_resolved s) k None None None st d")
        (auto simp: settle_stream_def intro: free)
  qed (use owes sound in \<open>auto simp: settle_stream_def Let_def stream_owes_def
      elim!: free split: option.split prod.split sum.split\<close>)
  then show ?thesis
    by (simp add: same_money_def)
qed

section \<open>A walk that calls nobody\<close>

lemma twins_skipped:
  "list_all (\<lambda>c. pc_fallback_for c \<noteq> None) cs \<Longrightarrow> w_armed (st_walk st) = {} \<Longrightarrow> w_last (st_walk st) = None \<Longrightarrow>
     \<exists>st1. stream_walk sx resolved f0 cs st = (ExhaustedEnd None, st1) \<and> w_calls (st_walk st1) = w_calls (st_walk st) \<and> st_wire st1 = st_wire st"
proof (induction cs arbitrary: st)
  case Nil
  then show ?case
    by (simp add: exhausted_end_def Let_def)
next
  case (Cons c cs)
  define st1 where "st1 = skip_candidate sx c ''policy_skipped'' st"
  have "twin_unarmed c (st_walk st)"
    using Cons.prems by (auto simp: twin_unarmed_iff)
  moreover have "w_armed (st_walk st1) = {}" "w_last (st_walk st1) = None" "w_calls (st_walk st1) = w_calls (st_walk st)"
      "st_wire st1 = st_wire st"
    using Cons.prems by (simp_all add: st1_def skip_candidate_def skip_row_def push_row_def Let_def)
  ultimately show ?case
    using Cons.IH [of st1] Cons.prems(1) by (auto simp: st1_def)
qed

text \<open>C40: A stream whose one candidate is skipped for its health and whose other candidates are all unarmed twins
  is refused as having no provider, and nothing is settled: the reservation it was admitted with stays as it was.\<close>

theorem demoted_stream_keeps_reservation:
  assumes "pc_fallback_for c = None" "list_all (\<lambda>t. pc_fallback_for t \<noteq> None) twins" "twins \<noteq> []"
    and "should_skip (wx_utc (sx_walk sx)) (we_registry (wx_events (sx_walk sx) 0) registry) (pc_definition c)"
    and "\<not> sx_closed sx 0"
  shows "snd (stream_to_channel s sx registry messages (c # twins) others d) = others d \<and>
    prefix (st_wire (fst (stream_to_channel s sx registry messages (c # twins) others d))) (error_frames NoProviderAvailable)"
proof -
  define st0 where "st0 = (snd (is_closed sx (stream_start registry messages)))
      \<lparr> st_walk := meanwhile (sx_walk sx) (st_walk (stream_start registry messages)) \<rparr>"
  define st1 where "st1 = skip_candidate sx c ''health_skipped'' st0"
  have skip: "health_skips (sx_walk sx) c twins (st_walk st0)"
    using assms(3,4) by (simp add: st0_def is_closed_def health_skips_def meanwhile_def stream_start_def walk_start_def)
  have st1: "w_armed (st_walk st1) = {}" "w_last (st_walk st1) = None" "w_calls (st_walk st1) = []" "st_wire st1 = []"
    by (simp_all add: st1_def st0_def skip_candidate_def skip_row_def push_row_def Let_def is_closed_def meanwhile_def
        stream_start_def walk_start_def)
  obtain st2 where st2: "stream_walk sx (sg_resolved s) (sg_features s) twins st1 = (ExhaustedEnd None, st2)"
      "w_calls (st_walk st2) = []" "st_wire st2 = []"
    using twins_skipped [OF assms(2) st1(1,2), of sx "sg_resolved s" "sg_features s"] st1(3,4) by auto
  have "stream_walk sx (sg_resolved s) (sg_features s) (c # twins) (stream_start registry messages) = (ExhaustedEnd None, st2)"
    using assms(1,5) skip st2(1)
    by (simp add: twin_unarmed_def st1_def st0_def is_closed_def stream_start_def Let_def)
  then show ?thesis
    using send_frames_prefix [of sx "error_frames NoProviderAvailable" st2] st2(2,3)
    by (auto simp: stream_to_channel_def run_stream_def settle_stream_def send_stream_error_def Let_def)
qed

text \<open>A channel nobody reads.\<close>

lemma refused_send:
  "sx_accepts sx = (\<lambda>_. False) \<Longrightarrow> st_wire (send_frames sx fs st) = st_wire st"
  by (cases fs) (simp_all add: send_data_def Let_def)

text \<open>A client that is gone before the opening frame is billed in full: the opening is refused, so no output is
  ever attempted, the stream is read on to its end, and the upstream's metered usage is settled with status 499
  although the channel carried nothing.\<close>

theorem vanished_client_is_billed:
  assumes c: "pc_fallback_for c = None" "sx_streams sx c" "\<not> sx_closed sx 0" "sx_accepts sx = (\<lambda>_. False)"
    and items: "sx_stream sx 1 = [(0, Item (TextDelta chunk)), (0, Item (UsageEvent u)), (0, Item (FinalEvent final))]"
    and content: "sc_delta chunk \<noteq> []" and metered: "try_from_provider (Some u) = Some v"
  shows "\<exists>finish shape st1. st_wire (fst (stream_to_channel s sx registry messages [c] others d)) = [] \<and>
    snd (stream_to_channel s sx registry messages [c] others d) =
      snd (persist_call (sg_settling s) (sg_session s) (sg_resolved s)
        (candidate_call ([], []) (Some (pc_definition c)) v (on_candidate c (sg_features s)) 499) (Some finish) (Some shape)
        (sf_usage_gap final) st1 (others (snd (fire (wx_utc (sx_walk sx)) (sg_session s) (False, d)))))"
proof -
  define st0 where "st0 = (snd (is_closed sx (stream_start registry messages)))
      \<lparr> st_walk := meanwhile (sx_walk sx) (st_walk (stream_start registry messages)) \<rparr>"
  define call where "call = \<lparr> uc_candidate = c, uc_prompt = messages, uc_truncated = False, uc_result = Elapsed \<rparr>"
  define st1 where "st1 = st0\<lparr> st_walk := (st_walk st0)\<lparr> w_step := Suc (Suc 0), w_last := Some (pc_definition c), w_calls := [call] \<rparr> \<rparr>"
  define l1 where "l1 = stream_local_new\<lparr> sl_estimated := sat_add 0 (sc_token_count chunk),
      sl_emitted := record_reasoning (unwrap_or (sc_reasoning chunk) []) (record_text (sc_delta chunk) nothing_emitted) \<rparr>"
  have st1: "st_connected st1" "st_wire st1 = []" "st_delivery st1 = no_delivery" "w_clock (st_walk st1) = 0" "w_calls (st_walk st1) = [call]"
    by (simp_all add: st1_def st0_def is_closed_def meanwhile_def stream_start_def walk_start_def)
  define n where "n = min (sx_send_ms sx 0) SSE_SEND_TIMEOUT"
  have n: "n < UPSTREAM_REQUEST_TIMEOUT"
    by (simp add: n_def SSE_SEND_TIMEOUT_def UPSTREAM_REQUEST_TIMEOUT_def)
  define l2 where "l2 = l1\<lparr> sl_usage := Some v \<rparr>"
  define st2 where "st2 = st1\<lparr> st_walk := (st_walk st1)\<lparr> w_clock := n \<rparr>, st_frames := 1, st_connected := False \<rparr>"
  have frames: "st_frames st1 = 0"
    by (simp add: st1_def st0_def is_closed_def stream_start_def)
  have refused: "relay sx frames l1 st1 = (l1, st2)" for frames
    using st1 c(4)
    by (simp add: relay_def ensure_open_def deliver_def send_data_def Let_def l1_def stream_local_new_def no_delivery_def frames
        st2_def n_def)
  have looked: "on_text sx chunk stream_local_new st1 = (l1, st2)"
    using refused content by (simp add: on_text_def Let_def l1_def stream_local_new_def)
  have time: "remaining_upstream_time (st_walk st1) = Some UPSTREAM_REQUEST_TIMEOUT"
      "remaining_upstream_time (st_walk st2) = Some (UPSTREAM_REQUEST_TIMEOUT - n)"
    using st1(4) n by (simp_all add: remaining_upstream_time_def st2_def UPSTREAM_REQUEST_TIMEOUT_def)
  have read: "read_stream sx (sx_stream sx 1) stream_local_new st1 = (Completed final, l2, st2)"
    unfolding items by (simp add: time looked metered Let_def l2_def)
  have st2: "\<not> st_connected st2" "st_wire st2 = []" "w_calls (st_walk st2) = [call]" "st_delivery st2 = no_delivery"
    using st1 by (simp_all add: st2_def)
  have attempt: "streamed_attempt sx (sg_resolved s) (on_candidate c (sg_features s)) c st0 =
      (Some (FinishedEnd c l2 final 1 0 499), st2)"
    using read st2(1)
    by (simp add: streamed_attempt_def Let_def after_stream_def connected_now_def st1_def st0_def call_def is_closed_def
        meanwhile_def stream_start_def walk_start_def next_no_def)
  have run: "run_stream sx (sg_resolved s) (sg_features s) registry messages [c] = (FinishedEnd c l2 final 1 0 499, st2)"
    using c(1-3) attempt
    by (simp add: run_stream_def twin_unarmed_def st0_def is_closed_def stream_start_def walk_start_def Let_def health_skips_def
        meanwhile_def remaining_upstream_time_def UPSTREAM_REQUEST_TIMEOUT_def)
  have usage: "sl_usage l2 = Some v" "\<not> abandoned_by_client no_delivery"
    by (simp_all add: l2_def abandoned_by_client_def no_delivery_def)
  show ?thesis
    by (simp add: stream_to_channel_def run settle_stream_def finish_successful_stream_def usage st2 Let_def refused_send [OF c(4)]
        send_stream_error_def split: prod.split sum.split) (metis snd_conv)
qed


section \<open>Witnesses\<close>

definition demo_streaming :: streaming where
  "demo_streaming = \<lparr> sg_settling = demo_settling, sg_session = demo_session, sg_resolved = demo_route,
     sg_features = demo_features, sg_max_tokens = None, sg_include_usage = True \<rparr>"

text \<open>An upstream that says hello and reports its usage, to a client that is there or is not.\<close>

definition demo_chunk :: stream_chunk where
  "demo_chunk = \<lparr> sc_delta = ''Hello'', sc_reasoning = None, sc_token_count = 2 \<rparr>"

definition demo_metered :: token_usage where
  "demo_metered = \<lparr> tu_input = Some 70, tu_output = Some 8, tu_cached_input = None, tu_cache_write = None \<rparr>"

definition demo_stream :: "nat \<Rightarrow> stream_context" where
  "demo_stream accepted =
     \<lparr> sx_walk = demo_walk,
        sx_stream = (\<lambda>_. [(0, Item (TextDelta demo_chunk)), (0, Item (UsageEvent demo_metered)),
          (0, Item (FinalEvent stream_final_empty))]),
        sx_streams = (\<lambda>_. True), sx_accepts = (\<lambda>n. n < accepted), sx_send_ms = (\<lambda>_. 1), sx_closed = (\<lambda>_. False) \<rparr>"

lemma demo_stream_usage: "try_from_provider (Some demo_metered) = Some (mk_usage 70 0 0 8)"
  by (simp add: try_from_provider_def demo_metered_def mk_usage_def Let_def sat_add_def unwrap_or_def)

lemma vanished_client_is_billed_witness:
  "st_wire (fst (stream_to_channel demo_streaming (demo_stream 0) cooling [] [demo_rung_own] id demo_admitted)) = [] \<and>
   (\<exists>finish shape st1.
      snd (stream_to_channel demo_streaming (demo_stream 0) cooling [] [demo_rung_own] id demo_admitted) =
        snd (persist_call demo_settling demo_session demo_route
          (candidate_call ([], []) (Some (pc_definition demo_rung_own)) (mk_usage 70 0 0 8) (on_candidate demo_rung_own demo_features) 499)
          (Some finish) (Some shape) None st1 (snd (fire 0 demo_session (False, demo_admitted)))))"
  using vanished_client_is_billed [of demo_rung_own "demo_stream 0" demo_chunk demo_metered stream_final_empty "mk_usage 70 0 0 8"
      demo_streaming cooling "[]" id demo_admitted] demo_stream_usage
  by (simp add: demo_rung_own_def demo_stream_def demo_chunk_def stream_final_empty_def demo_streaming_def demo_walk_def)

text \<open>The opening goes out, the text is refused.\<close>

lemma demo_abandoned:
  "\<exists>l st. run_stream (demo_stream 1) demo_route demo_features cooling [] [demo_rung_own] =
     (FinishedEnd demo_rung_own l stream_final_empty 1 0 499, st) \<and> st_wire st = [OpenFrame] \<and> abandoned_by_client (st_delivery st)"
  by (simp add: run_stream_def twin_unarmed_def is_closed_def stream_start_def walk_start_def Let_def health_skips_def
        meanwhile_def remaining_upstream_time_def UPSTREAM_REQUEST_TIMEOUT_def demo_rung_own_def demo_stream_def
        streamed_attempt_def on_text_def relay_def ensure_open_def deliver_def send_data_def demo_chunk_def delta_frames_def
        stream_local_new_def no_delivery_def after_stream_def connected_now_def abandoned_by_client_def next_no_def SSE_SEND_TIMEOUT_def)

lemma undelivered_stream_is_free_witness:
  "users (snd (settle_stream demo_streaming (demo_stream 1)
     (run_stream (demo_stream 1) demo_route demo_features cooling [] [demo_rung_own]) demo_admitted)) 1 = Some demo_user"
proof -
  obtain l st where run: "run_stream (demo_stream 1) demo_route demo_features cooling [] [demo_rung_own] =
     (FinishedEnd demo_rung_own l stream_final_empty 1 0 499, st)" "abandoned_by_client (st_delivery st)"
    using demo_abandoned by blast
  have "users (snd (settle_stream demo_streaming (demo_stream 1) (FinishedEnd demo_rung_own l stream_final_empty 1 0 499, st)
      demo_admitted)) = users demo_admitted"
    using undelivered_stream_is_free [of demo_streaming "demo_stream 1" cooling "[]" "[demo_rung_own]"
        "FinishedEnd demo_rung_own l stream_final_empty 1 0 499" st demo_admitted] run exact_decimal_exact
    by (simp add: demo_streaming_def demo_settling_def stream_owes_def plain_numeric_def is_digit_def digits_value_def)
  then show ?thesis
    unfolding run(1) by (simp add: demo_admitted_def demo_db_def)
qed

text \<open>A client that stays hears the opening first and the end marker last.\<close>

lemma stream_wire_well_formed_witness:
  "wire_reads True (st_wire (fst (stream_to_channel demo_streaming ((demo_stream 0)\<lparr> sx_accepts := \<lambda>_. True \<rparr>) cooling []
     [demo_rung_own] id demo_admitted))) = WireEnded"
  using stream_wire_well_formed [OF refl, of demo_streaming "(demo_stream 0)\<lparr> sx_accepts := \<lambda>_. True \<rparr>" cooling "[]" "[demo_rung_own]" id
      demo_admitted]
  by (simp add: all_heard_def demo_stream_def demo_streaming_def)

lemma demoted_stream_keeps_reservation_witness:
  "snd (stream_to_channel demo_streaming (demo_stream 9) cooling [] [demo_rung True None, demo_rung False (Some ''xai'')] id
     demo_admitted) = demo_admitted"
  using demoted_stream_keeps_reservation [of "demo_rung True None" "[demo_rung False (Some ''xai'')]" "demo_stream 9" cooling
      demo_streaming "[]" id demo_admitted] demo_skipped
  by (simp add: demo_rung_def demo_stream_def)

end
