(* ===== verification/Keys.thy ===== *)
theory Keys
  imports Gateway
begin

text \<open>
  A customer's keys: what the portal mints, edits and disables (\<^verbatim>\<open>router/src/portal.rs\<close>) and what the
  request path authenticates (\<^verbatim>\<open>router/src/auth.rs\<close>), over the tables of \<^verbatim>\<open>Schema\<close> and one more for the
  columns of a key that admission does not read.  A handler is one transaction on that state; the clock of
  the router and the clock of the database are arguments, as are a drawn secret and its id.  Times are whole
  seconds.  A lost connection is not modelled: it leaves the state as it was.
\<close>

section \<open>The key table\<close>

record key_info =
  ki_id :: uuid
  ki_hash :: string
  ki_name :: string
  ki_default_priority :: "string option"
  ki_retention_policy :: string

record accounts =
  ac_db :: db
  ac_keys :: "key_info list"

definition key_row :: "accounts \<Rightarrow> uuid \<Rightarrow> api_key option" where
  "key_row s i = List.find (\<lambda>k. k_id k = i) (api_keys (ac_db s))"

definition key_info_of :: "accounts \<Rightarrow> uuid \<Rightarrow> key_info option" where
  "key_info_of s i = List.find (\<lambda>x. ki_id x = i) (ac_keys s)"

text \<open>The constraints of the table; PostgreSQL stores no text with a NUL.\<close>

definition known_window :: "string \<Rightarrow> bool" where
  "known_window w \<longleftrightarrow> w = ''daily'' \<or> w = ''weekly'' \<or> w = ''monthly''"

definition known_priority :: "string \<Rightarrow> bool" where
  "known_priority p \<longleftrightarrow> p = ''cost'' \<or> p = ''balanced'' \<or> p = ''success''"

definition api_key_checks :: "api_key \<Rightarrow> bool" where
  "api_key_checks k \<longleftrightarrow>
     0 \<le> k_spend_cap k \<and> 0 < k_velocity_cap k \<and>
     (case k_credit_limit k of None \<Rightarrow> True | Some x \<Rightarrow> 0 < x) \<and>
     (case k_credit_limit_window k of None \<Rightarrow> True | Some w \<Rightarrow> known_window w \<and> k_credit_limit k \<noteq> None)"

definition key_info_checks :: "key_info \<Rightarrow> bool" where
  "key_info_checks x \<longleftrightarrow>
     is_hex 64 (ki_hash x) \<and> \<not> blank (ki_name x) \<and>
     (case ki_default_priority x of None \<Rightarrow> True | Some p \<Rightarrow> known_priority p) \<and>
     (ki_retention_policy x = ''zdr_only'' \<or> ki_retention_policy x = ''allow_non_zdr'')"

definition CHARACTER_NOT_IN_REPERTOIRE :: sql_error where
  "CHARACTER_NOT_IN_REPERTOIRE = Database ''22021''"

definition storable :: "string \<Rightarrow> bool" where
  "storable t \<longleftrightarrow> CHR 0x00 \<notin> set t"

text \<open>An insertion, with the defaults of the columns it does not name.\<close>

definition new_api_key :: "time \<Rightarrow> uuid \<Rightarrow> uuid \<Rightarrow> time option \<Rightarrow> money option \<Rightarrow> string option \<Rightarrow> api_key" where
  "new_api_key now kid u expires limit window =
     \<lparr> k_id = kid, k_user = u, k_spend_cap = 20, k_velocity_cap = 100000, k_disabled = False,
       k_expires_at = expires, k_credit_limit = limit, k_credit_limit_window = window,
       k_created_at = now, k_last_used_at = None \<rparr>"

definition new_key_info :: "uuid \<Rightarrow> string \<Rightarrow> string \<Rightarrow> key_info" where
  "new_key_info kid hash name =
     \<lparr> ki_id = kid, ki_hash = hash, ki_name = name, ki_default_priority = None, ki_retention_policy = ''zdr_only'' \<rparr>"

definition insert_api_key ::
    "time \<Rightarrow> uuid \<Rightarrow> uuid \<Rightarrow> string \<Rightarrow> string \<Rightarrow> time option \<Rightarrow> money option \<Rightarrow> string option \<Rightarrow> accounts \<Rightarrow>
     (sql_error, accounts) result" where
  "insert_api_key now kid u hash name expires limit window s =
     (let d = ac_db s; k = new_api_key now kid u expires limit window; x = new_key_info kid hash name in
      if \<not> storable name then Inl CHARACTER_NOT_IN_REPERTOIRE
      else if \<not> api_key_checks k \<or> \<not> key_info_checks x then Inl CHECK_VIOLATION
      else if list_ex (\<lambda>y. ki_id y = kid \<or> ki_hash y = hash) (ac_keys s) then Inl UNIQUE_VIOLATION
      else Inr (s\<lparr> ac_db := d\<lparr> api_keys := api_keys d @ [k] \<rparr>, ac_keys := ac_keys s @ [x] \<rparr>))"

section \<open>What a customer reads of a key\<close>

record key_summary =
  ks_id :: uuid
  ks_name :: string
  ks_disabled :: bool
  ks_spend_cap :: money
  ks_velocity_cap :: int
  ks_default_priority :: "priority option"
  ks_expires_at :: "time option"
  ks_credit_limit :: "money option"
  ks_credit_limit_window :: "credit_limit_window option"
  ks_credit_limit_used :: "money option"
  ks_created_at :: time
  ks_last_used_at :: "time option"

text \<open>The spend of the current window of a key, as its query reads the derived counters.\<close>

definition credit_limit_used :: "calendar \<Rightarrow> time \<Rightarrow> api_key \<Rightarrow> db \<Rightarrow> money option" where
  "credit_limit_used cal now k d =
     (case k_credit_limit k of
        None \<Rightarrow> None
      | Some _ \<Rightarrow>
          Some (case k_credit_limit_window k of
                  None \<Rightarrow> rollup_sum (\<lambda>i. i = k_id k) (total_spend (rollup d))
                | Some w \<Rightarrow>
                    if w = ''monthly''
                    then rollup_sum (\<lambda>row. fst row = k_id k \<and> utc_month cal now \<le> snd row) (month_spend (rollup d))
                    else
                      rollup_sum (\<lambda>row. fst row = k_id k \<and>
                          (if w = ''daily'' then utc_day cal now else utc_week_start cal now) \<le> snd row)
                        (day_spend (rollup d))))"

definition bind_opt :: "'a option \<Rightarrow> ('a \<Rightarrow> 'b option) \<Rightarrow> 'b option" where
  "bind_opt x f = (case x of None \<Rightarrow> None | Some a \<Rightarrow> f a)"

definition summary_of :: "calendar \<Rightarrow> time \<Rightarrow> db \<Rightarrow> api_key \<Rightarrow> key_info \<Rightarrow> key_summary" where
  "summary_of cal now d k x =
     \<lparr> ks_id = k_id k, ks_name = ki_name x, ks_disabled = k_disabled k, ks_spend_cap = k_spend_cap k,
       ks_velocity_cap = k_velocity_cap k,
       ks_default_priority = bind_opt (ki_default_priority x) priority_from_keyword,
       ks_expires_at = k_expires_at k, ks_credit_limit = k_credit_limit k,
       ks_credit_limit_window = bind_opt (k_credit_limit_window k) window_from_keyword,
       ks_credit_limit_used = credit_limit_used cal now k d, ks_created_at = k_created_at k,
       ks_last_used_at = k_last_used_at k \<rparr>"

text \<open>Newest first; keys of one instant by their id, the larger first.\<close>

fun insert_newest :: "key_summary \<Rightarrow> key_summary list \<Rightarrow> key_summary list" where
  "insert_newest x [] = [x]"
| "insert_newest x (y # ys) =
     (if ks_created_at y < ks_created_at x \<or> ks_created_at y = ks_created_at x \<and> ks_id y < ks_id x
      then x # y # ys else y # insert_newest x ys)"

definition list_keys :: "calendar \<Rightarrow> time \<Rightarrow> uuid \<Rightarrow> accounts \<Rightarrow> key_summary list" where
  "list_keys cal now u s =
     foldr insert_newest
       (List.map_filter (\<lambda>k. if k_user k \<noteq> u then None
          else map_option (summary_of cal now (ac_db s) k) (key_info_of s (k_id k))) (api_keys (ac_db s))) []"

section \<open>Minting\<close>

datatype portal_error =
    InvalidKeyRequest string
  | KeyLimitReached
  | PortalAccountFrozen
  | KeyNotFound
  | PortalDatabase

definition MAX_KEY_NAME_CHARS :: nat where
  "MAX_KEY_NAME_CHARS = 100"

definition MAX_SPEND_CAP_USD :: money where
  "MAX_SPEND_CAP_USD = 10000"

definition MAX_VELOCITY_CAP_TOKENS_PER_MIN :: int where
  "MAX_VELOCITY_CAP_TOKENS_PER_MIN = 2000000"

record create_key_request =
  kr_name :: string
  kr_spend_cap :: "money option"
  kr_velocity_cap :: "int option"
  kr_default_priority :: "priority option"
  kr_expires_at :: "time option"
  kr_credit_limit :: "money option"
  kr_credit_limit_window :: "credit_limit_window option"

definition reject_if :: "bool \<Rightarrow> string \<Rightarrow> (portal_error, unit) result" where
  "reject_if b m = (if b then Inl (InvalidKeyRequest m) else Inr ())"

definition positive_up_to :: "'a::linordered_idom option \<Rightarrow> 'a \<Rightarrow> string \<Rightarrow> string \<Rightarrow> (portal_error, unit) result" where
  "positive_up_to v bound low high =
     (case v of
        None \<Rightarrow> Inr ()
      | Some x \<Rightarrow> if x \<le> 0 then Inl (InvalidKeyRequest low) else reject_if (bound < x) high)"

definition in_the_past :: "time \<Rightarrow> time option \<Rightarrow> bool" where
  "in_the_past now t \<longleftrightarrow> (case t of None \<Rightarrow> False | Some x \<Rightarrow> x \<le> now)"

text \<open>Checks in order; the first refusal answers.\<close>

fun first_refusal :: "(portal_error, unit) result list \<Rightarrow> (portal_error, unit) result" where
  "first_refusal [] = Inr ()"
| "first_refusal (c # cs) = (case c of Inl e \<Rightarrow> Inl e | Inr _ \<Rightarrow> first_refusal cs)"

definition validate_new_key :: "time \<Rightarrow> create_key_request \<Rightarrow> (portal_error, create_key_request) result" where
  "validate_new_key clock q =
     (let name = trim (kr_name q) in
      case first_refusal
        [reject_if (name = []) ''name cannot be empty'',
         reject_if (MAX_KEY_NAME_CHARS < char_count name) ''name cannot exceed 100 characters'',
         positive_up_to (kr_spend_cap q) MAX_SPEND_CAP_USD ''spend_cap_usd must be positive''
           ''spend_cap_usd cannot exceed 10000'',
         positive_up_to (kr_velocity_cap q) MAX_VELOCITY_CAP_TOKENS_PER_MIN
           ''velocity_cap_tokens_per_min must be positive'' ''velocity_cap_tokens_per_min cannot exceed 2000000'',
         reject_if (in_the_past clock (kr_expires_at q)) ''expires_at must be in the future'',
         positive_up_to (kr_credit_limit q) MAX_SPEND_CAP_USD ''credit_limit_usd must be positive''
           ''credit_limit_usd cannot exceed 10000'',
         reject_if (kr_credit_limit_window q \<noteq> None \<and> kr_credit_limit q = None)
           ''credit_limit_window requires credit_limit_usd'']
      of Inl e \<Rightarrow> Inl e | Inr _ \<Rightarrow> Inr (q\<lparr> kr_name := name \<rparr>))"

text \<open>The gate both self-service paths share; a database without the user answers no row to lock.\<close>

definition mint_gate :: "time \<Rightarrow> uuid \<Rightarrow> db \<Rightarrow> (portal_error, unit) result" where
  "mint_gate now u d =
     (if users d u = None then Inl PortalDatabase
      else case admit_key_mint now u d of
             MintAllowed \<Rightarrow> Inr ()
           | MintLimitReached \<Rightarrow> Inl KeyLimitReached
           | MintAccountFrozen \<Rightarrow> Inl PortalAccountFrozen)"

definition set_new_key :: "uuid \<Rightarrow> create_key_request \<Rightarrow> accounts \<Rightarrow> accounts" where
  "set_new_key kid q s =
     s\<lparr> ac_db := (ac_db s)\<lparr> api_keys := update_where (\<lambda>k. k_id k = kid)
            (\<lambda>k. k\<lparr> k_spend_cap := unwrap_or (kr_spend_cap q) (k_spend_cap k),
                     k_velocity_cap := unwrap_or (kr_velocity_cap q) (k_velocity_cap k) \<rparr>) (api_keys (ac_db s)) \<rparr>,
        ac_keys := update_where (\<lambda>x. ki_id x = kid)
            (\<lambda>x. x\<lparr> ki_default_priority := or_else (map_option priority_as_str (kr_default_priority q)) (ki_default_priority x) \<rparr>)
            (ac_keys s) \<rparr>"

definition create_key ::
    "time \<Rightarrow> time \<Rightarrow> uuid \<Rightarrow> uuid \<Rightarrow> string \<Rightarrow> create_key_request \<Rightarrow> accounts \<Rightarrow>
     (portal_error, key_summary) result \<times> accounts" where
  "create_key clock now u kid hash q s =
     (case validate_new_key clock q of
        Inl e \<Rightarrow> (Inl e, s)
      | Inr v \<Rightarrow>
          (case mint_gate now u (ac_db s) of
             Inl e \<Rightarrow> (Inl e, s)
           | Inr _ \<Rightarrow>
               (case insert_api_key now kid u hash (kr_name v) (kr_expires_at v) (kr_credit_limit v)
                       (map_option window_as_str (kr_credit_limit_window v)) s of
                  Inl _ \<Rightarrow> (Inl PortalDatabase, s)
                | Inr s1 \<Rightarrow>
                    (let s2 = (if kr_spend_cap v \<noteq> None \<or> kr_velocity_cap v \<noteq> None \<or> kr_default_priority v \<noteq> None
                               then set_new_key kid v s1 else s1)
                     in case key_row s2 kid of
                          None \<Rightarrow> (Inl PortalDatabase, s)
                        | Some k \<Rightarrow>
                            (Inr \<lparr> ks_id = kid, ks_name = kr_name v, ks_disabled = False, ks_spend_cap = k_spend_cap k,
                                   ks_velocity_cap = k_velocity_cap k, ks_default_priority = kr_default_priority v,
                                   ks_expires_at = kr_expires_at v, ks_credit_limit = kr_credit_limit v,
                                   ks_credit_limit_window = kr_credit_limit_window v,
                                   ks_credit_limit_used = map_option (\<lambda>_. 0) (kr_credit_limit v),
                                   ks_created_at = k_created_at k, ks_last_used_at = None \<rparr>, s2)))))"

definition PLAYGROUND_KEY_NAME :: string where
  "PLAYGROUND_KEY_NAME = ''playground''"

definition PLAYGROUND_KEY_CREDIT_LIMIT_USD :: money where
  "PLAYGROUND_KEY_CREDIT_LIMIT_USD = 5"

text \<open>The account's live playground key is replaced: the ones there are disabled, then one is minted.\<close>

definition named :: "accounts \<Rightarrow> string \<Rightarrow> api_key \<Rightarrow> bool" where
  "named s n k \<longleftrightarrow> (case key_info_of s (k_id k) of None \<Rightarrow> False | Some x \<Rightarrow> ki_name x = n)"

definition disable_named :: "uuid \<Rightarrow> string \<Rightarrow> accounts \<Rightarrow> accounts" where
  "disable_named u n s =
     s\<lparr> ac_db := (ac_db s)\<lparr> api_keys := update_where (\<lambda>k. k_user k = u \<and> named s n k \<and> \<not> k_disabled k)
            (\<lambda>k. k\<lparr> k_disabled := True \<rparr>) (api_keys (ac_db s)) \<rparr> \<rparr>"

definition ensure_playground_key ::
    "time \<Rightarrow> uuid \<Rightarrow> uuid \<Rightarrow> string \<Rightarrow> accounts \<Rightarrow> (portal_error, key_summary) result \<times> accounts" where
  "ensure_playground_key now u kid hash s =
     (if users (ac_db s) u = None then (Inl PortalDatabase, s)
      else
        (let s1 = disable_named u PLAYGROUND_KEY_NAME s in
         case mint_gate now u (ac_db s1) of
           Inl e \<Rightarrow> (Inl e, s)
         | Inr _ \<Rightarrow>
             (case insert_api_key now kid u hash PLAYGROUND_KEY_NAME None (Some PLAYGROUND_KEY_CREDIT_LIMIT_USD)
                     (Some (window_as_str Monthly)) s1 of
                Inl _ \<Rightarrow> (Inl PortalDatabase, s)
              | Inr s2 \<Rightarrow>
                  (case key_row s2 kid of
                     None \<Rightarrow> (Inl PortalDatabase, s)
                   | Some k \<Rightarrow>
                       (Inr \<lparr> ks_id = kid, ks_name = PLAYGROUND_KEY_NAME, ks_disabled = False, ks_spend_cap = k_spend_cap k,
                              ks_velocity_cap = k_velocity_cap k, ks_default_priority = None, ks_expires_at = None,
                              ks_credit_limit = Some PLAYGROUND_KEY_CREDIT_LIMIT_USD, ks_credit_limit_window = Some Monthly,
                              ks_credit_limit_used = Some 0, ks_created_at = k_created_at k, ks_last_used_at = None \<rparr>, s2)))))"

section \<open>Disabling and editing\<close>

definition disable_key :: "uuid \<Rightarrow> uuid \<Rightarrow> accounts \<Rightarrow> (portal_error, unit) result \<times> accounts" where
  "disable_key u kid s =
     (let hit = (\<lambda>k. k_id k = kid \<and> k_user k = u \<and> \<not> k_disabled k); ks = api_keys (ac_db s) in
      if list_ex hit ks
      then (Inr (), s\<lparr> ac_db := (ac_db s)\<lparr> api_keys := update_where hit (\<lambda>k. k\<lparr> k_disabled := True \<rparr>) ks \<rparr> \<rparr>)
      else (Inl KeyNotFound, s))"

text \<open>An edit names a field or not; a named field is set or cleared.\<close>

record update_key_request =
  up_default_priority :: "priority option option"
  up_credit_limit :: "money option option"
  up_credit_limit_window :: "credit_limit_window option option"
  up_expires_at :: "time option option"

record key_edit =
  ke_default_priority :: "string option"
  ke_expires_at :: "time option"
  ke_credit_limit :: "money option"
  ke_credit_limit_window :: "string option"

definition edited_key :: "update_key_request \<Rightarrow> key_edit \<Rightarrow> key_edit" where
  "edited_key q cur =
     \<lparr> ke_default_priority = (case up_default_priority q of Some v \<Rightarrow> map_option priority_as_str v
                              | None \<Rightarrow> ke_default_priority cur),
       ke_expires_at = unwrap_or (up_expires_at q) (ke_expires_at cur),
       ke_credit_limit = unwrap_or (up_credit_limit q) (ke_credit_limit cur),
       ke_credit_limit_window = (case up_credit_limit_window q of Some v \<Rightarrow> map_option window_as_str v
                                 | None \<Rightarrow> ke_credit_limit_window cur) \<rparr>"

definition validate_key_edit :: "time \<Rightarrow> update_key_request \<Rightarrow> key_edit \<Rightarrow> (portal_error, key_edit) result" where
  "validate_key_edit clock q cur =
     (let after = edited_key q cur
      in case first_refusal
           [positive_up_to (ke_credit_limit after) MAX_SPEND_CAP_USD ''credit_limit_usd must be positive''
              ''credit_limit_usd cannot exceed 10000'',
            reject_if (ke_credit_limit_window after \<noteq> None \<and> ke_credit_limit after = None)
              (''credit_limit_window requires credit_limit_usd; send both as null to '' @
               ''remove the budget entirely''),
            reject_if (in_the_past clock (ke_expires_at after))
              (''expires_at must be in the future; to stop a key now, revoke it with '' @ ''DELETE /api/keys/{id}'')]
         of Inl e \<Rightarrow> Inl e | Inr _ \<Rightarrow> Inr after)"

definition names_field :: "update_key_request \<Rightarrow> bool" where
  "names_field q \<longleftrightarrow> up_default_priority q \<noteq> None \<or> up_expires_at q \<noteq> None \<or> up_credit_limit q \<noteq> None \<or>
     up_credit_limit_window q \<noteq> None"

definition write_edit :: "uuid \<Rightarrow> key_edit \<Rightarrow> accounts \<Rightarrow> accounts" where
  "write_edit kid e s =
     s\<lparr> ac_db := (ac_db s)\<lparr> api_keys := update_where (\<lambda>k. k_id k = kid)
            (\<lambda>k. k\<lparr> k_expires_at := ke_expires_at e, k_credit_limit := ke_credit_limit e,
                     k_credit_limit_window := ke_credit_limit_window e \<rparr>) (api_keys (ac_db s)) \<rparr>,
        ac_keys := update_where (\<lambda>x. ki_id x = kid) (\<lambda>x. x\<lparr> ki_default_priority := ke_default_priority e \<rparr>) (ac_keys s) \<rparr>"

definition update_key ::
    "calendar \<Rightarrow> time \<Rightarrow> time \<Rightarrow> uuid \<Rightarrow> uuid \<Rightarrow> update_key_request \<Rightarrow> accounts \<Rightarrow>
     (portal_error, key_summary) result \<times> accounts" where
  "update_key cal clock now u kid q s =
     (case (List.find (\<lambda>k. k_id k = kid \<and> k_user k = u) (api_keys (ac_db s)), key_info_of s kid) of
        (Some k, Some x) \<Rightarrow>
          (case validate_key_edit clock q
                  \<lparr> ke_default_priority = ki_default_priority x, ke_expires_at = k_expires_at k,
                    ke_credit_limit = k_credit_limit k, ke_credit_limit_window = k_credit_limit_window k \<rparr> of
             Inl e \<Rightarrow> (Inl e, s)
           | Inr after \<Rightarrow>
               (let s1 = (if names_field q then write_edit kid after s else s) in
                if names_field q \<and> \<not> (list_all (\<lambda>y. k_id y = kid \<longrightarrow> api_key_checks y) (api_keys (ac_db s1)) \<and>
                     list_all (\<lambda>y. ki_id y = kid \<longrightarrow> key_info_checks y) (ac_keys s1))
                then (Inl PortalDatabase, s)
                else case (List.find (\<lambda>k. k_id k = kid \<and> k_user k = u) (api_keys (ac_db s1)), key_info_of s1 kid) of
                       (Some k1, Some x1) \<Rightarrow> (Inr (summary_of cal now (ac_db s1) k1 x1), s1)
                     | _ \<Rightarrow> (Inl KeyNotFound, s)))
      | _ \<Rightarrow> (Inl KeyNotFound, s))"

section \<open>Authentication\<close>

definition KEY_PREFIX :: string where
  "KEY_PREFIX = ''zcr_''"

definition KEY_HEX_LENGTH :: nat where
  "KEY_HEX_LENGTH = 64"

definition CACHE_TTL :: time where
  "CACHE_TTL = 30"

definition DUMMY_HASH :: string where
  "DUMMY_HASH = replicate 64 (CHR ''0'')"

definition is_ascii_hexdigit :: "char \<Rightarrow> bool" where
  "is_ascii_hexdigit c \<longleftrightarrow> c \<in> set ''0123456789abcdefABCDEF''"

definition valid_key_shape :: "string \<Rightarrow> bool" where
  "valid_key_shape token \<longleftrightarrow>
     length token = length KEY_PREFIX + KEY_HEX_LENGTH \<and> starts_with KEY_PREFIX token \<and>
     list_all is_ascii_hexdigit (drop (length KEY_PREFIX) token)"

text \<open>Every byte is compared, whatever the earlier ones said.\<close>

definition byte_at :: "string \<Rightarrow> nat \<Rightarrow> 64 word" where
  "byte_at t i = (if i < length t then word_of_nat (of_char (t ! i)) else 0)"

definition constant_time_eq :: "string \<Rightarrow> string \<Rightarrow> bool" where
  "constant_time_eq l r =
     (let n = max (length l) (length r) in
      foldl (\<lambda>d i. or d (xor (byte_at l i) (byte_at r i)))
        (xor (word_of_nat (length l)) (word_of_nat (length r))) [0..<n] = (0 :: 64 word))"

record cache_entry =
  ce_key :: authenticated_key
  ce_expires_at :: time

type_synonym key_cache = "string \<Rightarrow> cache_entry option"

definition retain :: "(cache_entry \<Rightarrow> bool) \<Rightarrow> key_cache \<Rightarrow> key_cache" where
  "retain keep c = (\<lambda>h. case c h of None \<Rightarrow> None | Some e \<Rightarrow> if keep e then Some e else None)"

text \<open>The identity a row stands for.\<close>

definition identity_of :: "api_key \<Rightarrow> key_info \<Rightarrow> authenticated_key" where
  "identity_of k x =
     \<lparr> ak_id = k_id k, ak_user = k_user k,
       ak_default_priority = bind_opt (ki_default_priority x) priority_from_keyword,
       ak_retention_policy = unwrap_or (policy_from_keyword (ki_retention_policy x)) ZdrOnly \<rparr>"

text \<open>
  One call reads three clocks: the monotonic one when it starts, and the wall clock when it judges the row
  and when it sizes the cache entry.
\<close>

record auth_call =
  au_token :: string
  au_accounts :: accounts
  au_instant :: time
  au_judged_at :: time
  au_sized_at :: time

definition find_by_hash :: "accounts \<Rightarrow> string \<Rightarrow> (api_key \<times> key_info) option" where
  "find_by_hash s h =
     bind_opt (List.find (\<lambda>x. ki_hash x = h) (ac_keys s)) (\<lambda>x. map_option (\<lambda>k. (k, x)) (key_row s (ki_id x)))"

definition entry_ttl :: "time \<Rightarrow> time option \<Rightarrow> time" where
  "entry_ttl clock expires =
     (case expires of
        None \<Rightarrow> CACHE_TTL
      | Some deadline \<Rightarrow> if deadline - clock < 0 then 0 else min (deadline - clock) CACHE_TTL)"

definition cached_identity :: "auth_call \<Rightarrow> string \<Rightarrow> key_cache \<Rightarrow> authenticated_key option" where
  "cached_identity a h c =
     (if valid_key_shape (au_token a)
      then bind_opt (c h) (\<lambda>e. if au_instant a < ce_expires_at e then Some (ce_key e) else None)
      else None)"

definition authenticate ::
    "(string \<Rightarrow> string) \<Rightarrow> auth_call \<Rightarrow> key_cache \<Rightarrow> authenticated_key option \<times> key_cache" where
  "authenticate sha a c =
     (let shaped = valid_key_shape (au_token a); h = sha (au_token a); now = au_instant a in
      case cached_identity a h c of
        Some key \<Rightarrow> (Some key, c)
      | None \<Rightarrow>
          (let row = find_by_hash (au_accounts a) h;
               stored = (case row of None \<Rightarrow> DUMMY_HASH | Some (_, x) \<Rightarrow> ki_hash x);
               same = constant_time_eq stored h
           in case row of
                None \<Rightarrow> (None, c)
              | Some (k, x) \<Rightarrow>
                  if shaped \<and> same \<and> \<not> k_disabled k \<and> \<not> in_the_past (au_judged_at a) (k_expires_at k)
                  then (let key = identity_of k x;
                            ttl = entry_ttl (au_sized_at a) (k_expires_at k)
                        in (Some key,
                            (retain (\<lambda>e. now < ce_expires_at e) c)
                              (h \<mapsto> \<lparr> ce_key = key, ce_expires_at = now + ttl \<rparr>)))
                  else (None, c)))"

text \<open>The calls a router answers, one after the other; its cache begins empty.\<close>

fun authenticate_all ::
    "(string \<Rightarrow> string) \<Rightarrow> auth_call list \<Rightarrow> key_cache \<Rightarrow> authenticated_key option list \<times> key_cache" where
  "authenticate_all sha [] c = ([], c)"
| "authenticate_all sha (a # as) c =
     (case authenticate sha a c of (r, c1) \<Rightarrow>
        (case authenticate_all sha as c1 of (rs, c2) \<Rightarrow> (r # rs, c2)))"

section \<open>The key table stays well formed\<close>

text \<open>Both halves of the table have the same rows, ids and digests are unique, and every row passes its checks.\<close>

definition accounts_ok :: "accounts \<Rightarrow> bool" where
  "accounts_ok s \<longleftrightarrow>
     List.map k_id (api_keys (ac_db s)) = List.map ki_id (ac_keys s) \<and> distinct (List.map ki_id (ac_keys s)) \<and>
     distinct (List.map ki_hash (ac_keys s)) \<and> list_all api_key_checks (api_keys (ac_db s)) \<and>
     list_all key_info_checks (ac_keys s)"

lemma list_all_update_where:
  "list_all P xs \<Longrightarrow> (\<And>x. P x \<Longrightarrow> Q x \<Longrightarrow> P (f x)) \<Longrightarrow> list_all P (update_where Q f xs)"
  by (induction xs) auto

lemma api_key_checks_disabled [simp]: "api_key_checks (k\<lparr> k_disabled := b \<rparr>) = api_key_checks k"
  by (simp add: api_key_checks_def split: option.split)

lemma insert_api_key_Inr:
  "insert_api_key now kid u hash name e l w s = Inr s1 \<longleftrightarrow>
     storable name \<and> api_key_checks (new_api_key now kid u e l w) \<and> key_info_checks (new_key_info kid hash name) \<and>
     kid \<notin> set (List.map ki_id (ac_keys s)) \<and> hash \<notin> set (List.map ki_hash (ac_keys s)) \<and>
     s1 = s\<lparr> ac_db := (ac_db s)\<lparr> api_keys := api_keys (ac_db s) @ [new_api_key now kid u e l w] \<rparr>,
             ac_keys := ac_keys s @ [new_key_info kid hash name] \<rparr>"
  by (auto simp: insert_api_key_def Let_def list_ex_iff)

lemma new_key_fields [simp]:
  "k_id (new_api_key now kid u e l w) = kid" "k_user (new_api_key now kid u e l w) = u"
  "k_disabled (new_api_key now kid u e l w) = False" "k_created_at (new_api_key now kid u e l w) = now"
  "ki_id (new_key_info kid hash name) = kid" "ki_hash (new_key_info kid hash name) = hash"
  "ki_name (new_key_info kid hash name) = name"
  by (simp_all add: new_api_key_def new_key_info_def)

lemma insert_api_key_ok:
  "accounts_ok s \<Longrightarrow> insert_api_key now kid u hash name e l w s = Inr s1 \<Longrightarrow> accounts_ok s1"
  by (auto simp: insert_api_key_Inr accounts_ok_def)

lemma first_refusal_Inr: "first_refusal cs = Inr x \<longleftrightarrow> (\<forall>c \<in> set cs. c = Inr ())"
  by (induction cs) (auto split: sum.splits)

lemma positive_up_to_Inr:
  "positive_up_to v bound low high = Inr x \<longleftrightarrow> (case v of None \<Rightarrow> True | Some y \<Rightarrow> 0 < y \<and> y \<le> bound)"
  by (auto simp: positive_up_to_def reject_if_def split: option.split)

lemma refused_if_Inr [simp]: "reject_if b m = Inr x \<longleftrightarrow> \<not> b"
  by (simp add: reject_if_def)

lemma validate_new_key_Inr:
  assumes "validate_new_key clock q = Inr v"
  shows "v = q\<lparr> kr_name := trim (kr_name q) \<rparr> \<and> kr_name v \<noteq> [] \<and>
    (case kr_spend_cap v of None \<Rightarrow> True | Some y \<Rightarrow> 0 < y) \<and> (case kr_velocity_cap v of None \<Rightarrow> True | Some y \<Rightarrow> 0 < y) \<and>
    (case kr_credit_limit v of None \<Rightarrow> True | Some y \<Rightarrow> 0 < y) \<and>
    (kr_credit_limit_window v \<noteq> None \<longrightarrow> kr_credit_limit v \<noteq> None)"
  using assms
  by (auto simp: validate_new_key_def Let_def first_refusal_Inr positive_up_to_Inr split: sum.splits option.splits)

lemma known_keywords [simp]: "known_window (window_as_str w)" "known_priority (priority_as_str p)"
  by (cases w; simp add: known_window_def) (cases p; simp add: known_priority_def)

lemma set_new_key_ok:
  assumes "accounts_ok s" "validate_new_key clock q = Inr v"
  shows "accounts_ok (set_new_key kid v s)"
  using assms(1) validate_new_key_Inr [OF assms(2)]
  by (auto simp: accounts_ok_def set_new_key_def map_update_where api_key_checks_def key_info_checks_def or_else_def
      unwrap_or_def intro!: list_all_update_where split: option.splits)

lemma create_key_ok:
  assumes "accounts_ok s"
  shows "accounts_ok (snd (create_key clock now u kid hash q s))"
proof (cases "validate_new_key clock q")
  case (Inl e)
  then show ?thesis
    using assms by (simp add: create_key_def)
next
  case (Inr v)
  then show ?thesis
    using assms set_new_key_ok [OF insert_api_key_ok [OF assms]] insert_api_key_ok [OF assms]
    by (auto simp: create_key_def Let_def split: sum.split option.split)
qed

lemma disable_named_ok: "accounts_ok s \<Longrightarrow> accounts_ok (disable_named u n s)"
  by (auto simp: accounts_ok_def disable_named_def map_update_where intro!: list_all_update_where)

lemma ensure_playground_key_ok:
  assumes "accounts_ok s"
  shows "accounts_ok (snd (ensure_playground_key now u kid hash s))"
  using assms insert_api_key_ok [OF disable_named_ok [OF assms]]
  by (auto simp: ensure_playground_key_def Let_def split: sum.split option.split)

lemma disable_key_ok: "accounts_ok s \<Longrightarrow> accounts_ok (snd (disable_key u kid s))"
  by (auto simp: accounts_ok_def disable_key_def Let_def map_update_where intro!: list_all_update_where)

text \<open>An edit of a row that passes its checks leaves one that passes them.\<close>

lemma validate_key_edit_Inr:
  assumes "validate_key_edit clock q cur = Inr after"
  shows "after = edited_key q cur \<and> (case ke_credit_limit after of None \<Rightarrow> True | Some y \<Rightarrow> 0 < y) \<and>
    (ke_credit_limit_window after \<noteq> None \<longrightarrow> ke_credit_limit after \<noteq> None) \<and> \<not> in_the_past clock (ke_expires_at after)"
proof -
  have "after = edited_key q cur" "first_refusal
           [positive_up_to (ke_credit_limit after) MAX_SPEND_CAP_USD ''credit_limit_usd must be positive''
              ''credit_limit_usd cannot exceed 10000'',
            reject_if (ke_credit_limit_window after \<noteq> None \<and> ke_credit_limit after = None)
              (''credit_limit_window requires credit_limit_usd; send both as null to '' @
               ''remove the budget entirely''),
            reject_if (in_the_past clock (ke_expires_at after))
              (''expires_at must be in the future; to stop a key now, revoke it with '' @ ''DELETE /api/keys/{id}'')] = Inr ()"
    using assms by (auto simp: validate_key_edit_def Let_def simp del: first_refusal.simps split: sum.splits)
  then show ?thesis
    unfolding first_refusal_Inr by (auto simp: positive_up_to_Inr split: option.splits)
qed

lemma edited_key_known:
  "(case ke_credit_limit_window cur of None \<Rightarrow> True | Some w \<Rightarrow> known_window w) \<Longrightarrow>
     (case ke_credit_limit_window (edited_key q cur) of None \<Rightarrow> True | Some w \<Rightarrow> known_window w)"
  "(case ke_default_priority cur of None \<Rightarrow> True | Some w \<Rightarrow> known_priority w) \<Longrightarrow>
     (case ke_default_priority (edited_key q cur) of None \<Rightarrow> True | Some w \<Rightarrow> known_priority w)"
  by (auto simp: edited_key_def split: option.splits)

lemma write_edit_checks:
  assumes "accounts_ok s" "key_info_of s kid = Some x" "k \<in> set (api_keys (ac_db s))" "k_id k = kid"
    and "validate_key_edit clock q \<lparr> ke_default_priority = ki_default_priority x, ke_expires_at = k_expires_at k,
        ke_credit_limit = k_credit_limit k, ke_credit_limit_window = k_credit_limit_window k \<rparr> = Inr after"
  shows "accounts_ok (write_edit kid after s)"
proof -
  have "x \<in> set (ac_keys s)"
    using assms(2) by (auto simp: key_info_of_def find_SomeD)
  then have "key_info_checks x" "api_key_checks k"
    using assms(1,3) by (auto simp: accounts_ok_def list_all_iff)
  let ?cur = "\<lparr> ke_default_priority = ki_default_priority x, ke_expires_at = k_expires_at k,
        ke_credit_limit = k_credit_limit k, ke_credit_limit_window = k_credit_limit_window k \<rparr>"
  have "case ke_credit_limit_window ?cur of None \<Rightarrow> True | Some w \<Rightarrow> known_window w"
      "case ke_default_priority ?cur of None \<Rightarrow> True | Some w \<Rightarrow> known_priority w"
    using \<open>key_info_checks x\<close> \<open>api_key_checks k\<close>
    by (simp_all add: api_key_checks_def key_info_checks_def split: option.splits)
  then have "case ke_credit_limit_window after of None \<Rightarrow> True | Some w \<Rightarrow> known_window w"
      "case ke_default_priority after of None \<Rightarrow> True | Some w \<Rightarrow> known_priority w"
    using edited_key_known [of ?cur q] validate_key_edit_Inr [OF assms(5)] by simp_all
  then have "api_key_checks (y\<lparr> k_expires_at := ke_expires_at after, k_credit_limit := ke_credit_limit after,
        k_credit_limit_window := ke_credit_limit_window after \<rparr>)" if "api_key_checks y" for y
    using that validate_key_edit_Inr [OF assms(5)] by (simp add: api_key_checks_def split: option.splits)
  moreover have "key_info_checks (y\<lparr> ki_default_priority := ke_default_priority after \<rparr>)" if "key_info_checks y" for y
    using that \<open>case ke_default_priority after of None \<Rightarrow> True | Some w \<Rightarrow> known_priority w\<close>
    by (simp add: key_info_checks_def)
  ultimately show ?thesis
    using assms(1) by (simp add: accounts_ok_def write_edit_def map_update_where list_all_update_where)
qed

lemma update_key_ok:
  assumes "accounts_ok s"
  shows "accounts_ok (snd (update_key cal clock now u kid q s)) \<and> fst (update_key cal clock now u kid q s) \<noteq> Inl PortalDatabase"
proof (cases "List.find (\<lambda>k. k_id k = kid \<and> k_user k = u) (api_keys (ac_db s))")
  case None
  then show ?thesis
    using assms by (simp add: update_key_def)
next
  case (Some k)
  note k = find_SomeD [OF Some]
  show ?thesis
  proof (cases "key_info_of s kid")
    case None
    then show ?thesis
      using assms Some by (simp add: update_key_def)
  next
    case x: (Some x)
    show ?thesis
    proof (cases "validate_key_edit clock q \<lparr> ke_default_priority = ki_default_priority x, ke_expires_at = k_expires_at k,
        ke_credit_limit = k_credit_limit k, ke_credit_limit_window = k_credit_limit_window k \<rparr>")
      case (Inl e)
      have "e \<noteq> PortalDatabase"
        using Inl by (auto simp: validate_key_edit_def Let_def reject_if_def positive_up_to_def split: sum.splits option.splits if_splits)
      then show ?thesis
        using assms Some x Inl by (simp add: update_key_def)
    next
      case (Inr after)
      define s1 where "s1 = (if names_field q then write_edit kid after s else s)"
      have s1: "accounts_ok s1"
        using write_edit_checks [OF assms x _ _ Inr] assms k by (auto simp: s1_def)
      then have "list_all api_key_checks (api_keys (ac_db s1))" "list_all key_info_checks (ac_keys s1)"
        by (simp_all add: accounts_ok_def)
      then have "\<not> (names_field q \<and> \<not> (list_all (\<lambda>y. k_id y = kid \<longrightarrow> api_key_checks y) (api_keys (ac_db s1)) \<and>
                     list_all (\<lambda>y. ki_id y = kid \<longrightarrow> key_info_checks y) (ac_keys s1)))"
        by (auto simp: list_all_iff)
      then show ?thesis
        using assms Some x Inr s1
        by (auto simp: update_key_def Let_def s1_def [symmetric] split: option.split)
    qed
  qed
qed


section \<open>The limits on minting\<close>

definition live_keys :: "uuid \<Rightarrow> accounts \<Rightarrow> nat" where
  "live_keys u s = count_where (\<lambda>k. k_user k = u \<and> \<not> k_disabled k) (api_keys (ac_db s))"

definition recent_keys :: "time \<Rightarrow> uuid \<Rightarrow> accounts \<Rightarrow> nat" where
  "recent_keys now u s =
     count_where (\<lambda>k. k_user k = u \<and> now - KEY_CREATION_WINDOW_HOURS * 3600 < k_created_at k) (api_keys (ac_db s))"

definition within_limits :: "time \<Rightarrow> accounts \<Rightarrow> bool" where
  "within_limits now s \<longleftrightarrow>
     (\<forall>u. live_keys u s \<le> MAX_ACTIVE_KEYS_PER_USER \<and> recent_keys now u s \<le> MAX_KEYS_CREATED_PER_WINDOW)"

lemma count_where_append [simp]: "count_where P (xs @ ys) = count_where P xs + count_where P ys"
  by (simp add: count_where_def)

lemma count_where_mono: "(\<And>x. x \<in> set xs \<Longrightarrow> P x \<Longrightarrow> Q x) \<Longrightarrow> count_where P xs \<le> count_where Q xs"
  by (induction xs) auto

lemma count_where_update_le:
  "(\<And>x. x \<in> set xs \<Longrightarrow> U x \<Longrightarrow> P (f x) \<Longrightarrow> Q x) \<Longrightarrow> (\<And>x. x \<in> set xs \<Longrightarrow> P x \<Longrightarrow> Q x) \<Longrightarrow>
     count_where P (update_where U f xs) \<le> count_where Q xs"
  by (induction xs) auto

lemma count_where_update_same:
  "(\<And>x. x \<in> set xs \<Longrightarrow> U x \<Longrightarrow> P (f x) = P x) \<Longrightarrow> count_where P (update_where U f xs) = count_where P xs"
  by (induction xs) auto

lemma recent_keys_antimono: "now \<le> later \<Longrightarrow> recent_keys later u s \<le> recent_keys now u s"
  unfolding recent_keys_def by (rule count_where_mono) auto

lemma within_limits_later: "within_limits now s \<Longrightarrow> now \<le> later \<Longrightarrow> within_limits later s"
  unfolding within_limits_def using recent_keys_antimono order_trans by blast

text \<open>A mint the gate let through keeps the limits.\<close>

lemma minted_within_limits:
  assumes "within_limits now s" "mint_gate now u (ac_db s) = Inr x"
    and "insert_api_key now kid u hash name e l w s = Inr s1"
  shows "within_limits now s1"
proof -
  have gate: "live_keys u s < MAX_ACTIVE_KEYS_PER_USER" "recent_keys now u s < MAX_KEYS_CREATED_PER_WINDOW"
    using assms(2) by (auto simp: mint_gate_def admit_key_mint_def live_keys_def recent_keys_def split: if_splits)
  have old: "live_keys v s \<le> MAX_ACTIVE_KEYS_PER_USER" "recent_keys now v s \<le> MAX_KEYS_CREATED_PER_WINDOW" for v
    using assms(1) by (simp_all add: within_limits_def)
  have grown: "live_keys v s1 \<le> live_keys v s + (if v = u then 1 else 0)"
       "recent_keys now v s1 \<le> recent_keys now v s + (if v = u then 1 else 0)" for v
    using assms(3) by (auto simp: insert_api_key_Inr live_keys_def recent_keys_def)
  have "live_keys v s1 \<le> MAX_ACTIVE_KEYS_PER_USER \<and> recent_keys now v s1 \<le> MAX_KEYS_CREATED_PER_WINDOW" for v
    using grown [of v] old [of v] gate by (cases "v = u") auto
  then show ?thesis
    by (simp add: within_limits_def)
qed

lemma keys_update_limits:
  assumes "within_limits now s" "api_keys (ac_db s1) = update_where P f (api_keys (ac_db s))"
    and "\<And>k. k_user (f k) = k_user k \<and> k_created_at (f k) = k_created_at k \<and> (k_disabled k \<longrightarrow> k_disabled (f k))"
  shows "within_limits now s1"
proof -
  have "live_keys u s1 \<le> live_keys u s" "recent_keys now u s1 \<le> recent_keys now u s" for u
    unfolding live_keys_def recent_keys_def assms(2) using assms(3)
    by (auto intro!: count_where_update_le)
  then show ?thesis
    using assms(1) unfolding within_limits_def by (meson order_trans)
qed

lemma set_new_key_limits: "within_limits now s \<Longrightarrow> within_limits now (set_new_key kid v s)"
  by (rule keys_update_limits) (auto simp: set_new_key_def)

lemma disable_named_limits: "within_limits now s \<Longrightarrow> within_limits now (disable_named u n s)"
  by (rule keys_update_limits) (auto simp: disable_named_def)

lemma write_edit_limits: "within_limits now s \<Longrightarrow> within_limits now (write_edit kid e s)"
  by (rule keys_update_limits) (auto simp: write_edit_def)

lemma create_key_limits:
  assumes "within_limits now s"
  shows "within_limits now (snd (create_key clock now u kid hash q s))"
  using assms minted_within_limits [OF assms] set_new_key_limits
  by (auto simp: create_key_def Let_def split: sum.split option.split)

lemma ensure_playground_key_limits:
  assumes "within_limits now s"
  shows "within_limits now (snd (ensure_playground_key now u kid hash s))"
  using assms minted_within_limits [OF disable_named_limits [OF assms]]
  by (auto simp: ensure_playground_key_def Let_def split: sum.split option.split)

lemma disable_key_limits: "within_limits now s \<Longrightarrow> within_limits now (snd (disable_key u kid s))"
  by (auto simp: disable_key_def Let_def elim!: keys_update_limits)

lemma update_key_limits: "within_limits now s \<Longrightarrow> within_limits now (snd (update_key cal clock now' u kid q s))"
  using write_edit_limits by (auto simp: update_key_def Let_def split: sum.split option.split)

section \<open>What the portal shows is what admission enforces\<close>

text \<open>The portal's sum and the one the gate of the key's limit picks out of its aggregates are the same number.\<close>

lemma shown_is_compared:
  assumes "k_credit_limit k = Some limit" "key_user d (k_id k) = Some u"
    and "(case k_credit_limit_window k of None \<Rightarrow> Some None
          | Some kw \<Rightarrow> map_option Some (window_from_keyword kw)) = Some window"
    and "agg = spend_sums cal now u (k_id k) (window_query (k_credit_limit k) window) d"
  shows "credit_limit_used cal now k d =
    Some (case window of
            None \<Rightarrow> sa_window_total_spend agg
          | Some Daily \<Rightarrow> sa_window_day_spend agg
          | Some Weekly \<Rightarrow> sa_window_day_spend agg
          | Some Monthly \<Rightarrow> sa_monthly_spend agg)"
proof -
  have month: "rollup_sum (\<lambda>row. key_user d (fst row) = Some u \<and> utc_month cal now \<le> snd row \<and> fst row = k_id k) t =
      rollup_sum (\<lambda>row. fst row = k_id k \<and> utc_month cal now \<le> snd row) t" for t
    unfolding rollup_sum_def by (rule sum_where_cong) (auto simp: assms(2))
  consider "k_credit_limit_window k = None" "window = None"
    | "k_credit_limit_window k = Some ''daily''" "window = Some Daily"
    | "k_credit_limit_window k = Some ''weekly''" "window = Some Weekly"
    | "k_credit_limit_window k = Some ''monthly''" "window = Some Monthly"
    using assms(3) by (auto simp: window_from_keyword_def split: option.splits if_splits)
  then show ?thesis
    by cases (simp_all add: assms(1,4) credit_limit_used_def spend_sums_def window_query_def Let_def month)
qed

lemma credit_limit_used_prepared: "credit_limit_used cal now k (prepared now q d) = credit_limit_used cal now k d"
  unfolding credit_limit_used_def prepared_simps ..

text \<open>What an answer of the gates says about the key's own limit.\<close>

definition limit_verdict :: "bool \<Rightarrow> usage_admission \<Rightarrow> bool" where
  "limit_verdict ok answer =
     (case answer of
        Allowed _ \<Rightarrow> ok
      | VelocityExceeded \<Rightarrow> ok
      | InsufficientCredits \<Rightarrow> ok
      | KeyCreditLimitExceeded \<Rightarrow> (\<not> ok)
      | _ \<Rightarrow> True)"

lemma gates_limit_verdict:
  assumes "admission_gates cal now fresh q k window d = (Inr (out, d'), commit)" "k_credit_limit k = Some limit"
  defines "agg \<equiv> spend_sums cal now (aq_user q) (aq_key q) (window_query (k_credit_limit k) window) d"
  shows "limit_verdict
    (spend_within_cap
      (case window of
         None \<Rightarrow> sa_window_total_spend agg
       | Some Daily \<Rightarrow> sa_window_day_spend agg
       | Some Weekly \<Rightarrow> sa_window_day_spend agg
       | Some Monthly \<Rightarrow> sa_monthly_spend agg)
      (ra_cost (reserved_sums now (aq_user q) (aq_key q) d)) (charged_cost cal now q k window d (chosen_size now q d)) limit) out"
proof -
  obtain sz bs where cs: "choose_size (if aq_lane q = Free then sizing_cold (sizing_full (aq_sizing q)) else aq_sizing q)
     (ra_user_live (reserved_sums now (aq_user q) (aq_key q) d)) = (sz, bs)"
    by fastforce
  then have sz: "chosen_size now q d = sz"
    by (simp add: chosen_size_def)
  show ?thesis
    unfolding charged_cost_def sz agg_def [symmetric]
    using assms(1) [unfolded admission_gates_def Let_def cs prod.case, folded agg_def] assms(2)
    by (auto simp: limit_verdict_def split: if_splits metering_lane.splits)
qed

text \<open>C29: The spend a customer is shown against a key's own limit is the spend an admission enforces that limit by,
  whatever the cadence (day, week, month or the key's lifetime): an admission that allows the request, or refuses it for
  its velocity or its credits, has found the shown spend with the key's encumbered reservations below the limit, and within it
  with the request's own hold added; and one that refuses it for the key's credit limit has found the opposite.\<close>

theorem credit_limit_used_is_enforced:
  assumes "begin_usage_session cal now fresh q d = (Inr out, d')" "rows_wf d"
    and "List.find (key_usable now q) (api_keys d) = Some k" "k_credit_limit k = Some limit"
    and "(case k_credit_limit_window k of None \<Rightarrow> Some None
          | Some kw \<Rightarrow> map_option Some (window_from_keyword kw)) = Some window"
    and "p = prepared now q d"
    and "held = ra_cost (reserved_sums now (aq_user q) (aq_key q) p)"
    and "cost = charged_cost cal now q k window p (chosen_size now q p)"
  shows "\<exists>used. credit_limit_used cal now k d = Some used \<and>
    (case out of
       Allowed _ \<Rightarrow> spend_within_cap used held cost limit
     | VelocityExceeded \<Rightarrow> spend_within_cap used held cost limit
     | InsufficientCredits \<Rightarrow> spend_within_cap used held cost limit
     | KeyCreditLimitExceeded \<Rightarrow> (\<not> spend_within_cap used held cost limit)
     | _ \<Rightarrow> True)"
proof -
  define agg where "agg = spend_sums cal now (aq_user q) (aq_key q) (window_query (k_credit_limit k) window) p"
  have id: "k_id k = aq_key q"
    using find_SomeD [OF assms(3)] by (simp add: key_usable_def)
  have "key_user p (k_id k) = Some (aq_user q)"
    using usable_key_user [OF _ assms(3)] assms(2) by (simp add: assms(6) id db_simps rows_wf_def)
  from shown_is_compared [OF assms(4) this assms(5) agg_def [folded id]]
  have used: "credit_limit_used cal now k d = Some (case window of
            None \<Rightarrow> sa_window_total_spend agg
          | Some Daily \<Rightarrow> sa_window_day_spend agg
          | Some Weekly \<Rightarrow> sa_window_day_spend agg
          | Some Monthly \<Rightarrow> sa_monthly_spend agg)"
    by (simp add: assms(6) credit_limit_used_prepared)
  have w: "(case k_credit_limit_window k of None \<Rightarrow> Some None
      | Some kw \<Rightarrow> (case window_from_keyword kw of None \<Rightarrow> None | Some w \<Rightarrow> Some (Some w))) = Some window"
    using assms(5) by (auto split: option.splits)
  have reached: "out = Unauthorized \<or> out = AccountFrozen \<or>
      (\<exists>d1 commit. admission_gates cal now fresh q k window p = (Inr (out, d1), commit))"
    using assms(1) unfolding begin_usage_session_def Let_def assms(3) option.case w
    by (auto simp: assms(6) prepared_def db_simps split: if_splits option.splits prod.splits sum.splits)
  have "limit_verdict (spend_within_cap (case window of
            None \<Rightarrow> sa_window_total_spend agg
          | Some Daily \<Rightarrow> sa_window_day_spend agg
          | Some Weekly \<Rightarrow> sa_window_day_spend agg
          | Some Monthly \<Rightarrow> sa_monthly_spend agg) held cost limit) out"
    using reached gates_limit_verdict [OF _ assms(4), of cal now fresh q window p out, folded agg_def]
    by (auto simp: limit_verdict_def assms(7,8))
  then show ?thesis
    using used by (auto simp: limit_verdict_def)
qed

section \<open>One live playground key\<close>

lemma count_where_zero: "(\<And>x. x \<in> set xs \<Longrightarrow> \<not> P x) \<Longrightarrow> count_where P xs = 0"
  by (induction xs) auto

lemma find_snoc: "List.find P (xs @ [x]) = (case List.find P xs of None \<Rightarrow> if P x then Some x else None | Some y \<Rightarrow> Some y)"
  by (induction xs) simp_all

lemma disable_named_keys [simp]: "ac_keys (disable_named u n s) = ac_keys s"
  by (simp add: disable_named_def)

lemma named_disable [simp]:
  "key_info_of (disable_named u n s) = key_info_of s" "named (disable_named u n s) = named s"
  by (simp_all add: key_info_of_def named_def fun_eq_iff)

lemma playground_disabled:
  assumes "k \<in> set (api_keys (ac_db (disable_named u n s)))" "k_user k = u" "named s n k"
  shows "k_disabled k"
proof -
  obtain y where y: "k = (if k_user y = u \<and> named s n y \<and> \<not> k_disabled y then y\<lparr> k_disabled := True \<rparr> else y)"
    using assms(1) by (auto simp: disable_named_def elim: update_whereE)
  then show ?thesis
    using assms(2,3) by (auto simp: named_def split: if_splits)
qed

definition live_named :: "uuid \<Rightarrow> string \<Rightarrow> accounts \<Rightarrow> nat" where
  "live_named u n s = count_where (\<lambda>k. k_user k = u \<and> \<not> k_disabled k \<and> named s n k) (api_keys (ac_db s))"

text \<open>When the playground asks for a key and gets one, the account holds exactly one live key of that name,
  the one just minted, whatever it held before.\<close>

theorem one_playground_key:
  assumes ok: "accounts_ok s" and e: "ensure_playground_key now u kid hash s = (Inr summary, s1)"
  shows "live_named u PLAYGROUND_KEY_NAME s1 = 1 \<and> ks_id summary = kid"
proof -
  define s0 where "s0 = disable_named u PLAYGROUND_KEY_NAME s"
  obtain k where ins: "insert_api_key now kid u hash PLAYGROUND_KEY_NAME None (Some PLAYGROUND_KEY_CREDIT_LIMIT_USD)
       (Some (window_as_str Monthly)) s0 = Inr s1" "ks_id summary = kid"
    using e by (auto simp: ensure_playground_key_def Let_def s0_def split: if_splits sum.splits option.splits)
  define x where "x = new_key_info kid hash PLAYGROUND_KEY_NAME"
  obtain k where keys: "api_keys (ac_db s1) = api_keys (ac_db s0) @ [k]" "k_id k = kid" "k_user k = u" "\<not> k_disabled k"
    "ac_keys s1 = ac_keys s0 @ [x]"
    using ins(1) by (auto simp: insert_api_key_Inr x_def)
  have new: "kid \<notin> set (List.map ki_id (ac_keys s0))"
    using ins(1) by (simp add: insert_api_key_Inr)
  have info: "key_info_of s1 i = (case key_info_of s0 i of None \<Rightarrow> if kid = i then Some x else None | Some y \<Rightarrow> Some y)" for i
    by (simp add: key_info_of_def keys find_snoc x_def split: option.split)
  have "key_info_of s0 kid = None"
    using new by (auto simp: key_info_of_def find_None_iff)
  then have "named s1 PLAYGROUND_KEY_NAME k"
    by (simp add: named_def info keys x_def)
  moreover have "\<not> (k_user y = u \<and> \<not> k_disabled y \<and> named s1 PLAYGROUND_KEY_NAME y)" if "y \<in> set (api_keys (ac_db s0))" for y
  proof -
    have "k_id y \<in> set (List.map ki_id (ac_keys s0))"
      using that disable_named_ok [OF ok] by (metis accounts_ok_def image_eqI list.set_map s0_def)
    then obtain z where "key_info_of s0 (k_id y) = Some z"
      unfolding key_info_of_def by (cases "List.find (\<lambda>x. ki_id x = k_id y) (ac_keys s0)") (auto simp: find_None_iff)
    then have "named s1 PLAYGROUND_KEY_NAME y = named s PLAYGROUND_KEY_NAME y"
      by (simp add: named_def info s0_def)
    then show ?thesis
      using that playground_disabled by (auto simp: s0_def)
  qed
  ultimately show ?thesis
    using ins(2) keys by (simp add: live_named_def count_where_zero)
qed

section \<open>The comparison of digests\<close>

lemma or_eq_0: "or a b = (0 :: 64 word) \<longleftrightarrow> a = 0 \<and> b = 0"
  by (metis or_eq_0_iff)

lemma folded_differences:
  "foldl (\<lambda>d i. or d (f i)) d xs = (0 :: 64 word) \<longleftrightarrow> d = 0 \<and> (\<forall>i \<in> set xs. f i = 0)"
  by (induction xs arbitrary: d) (auto simp: or_eq_0)

lemma xor_zero: "xor a b = (0 :: 64 word) \<longleftrightarrow> a = b"
  by (auto simp: bit_eq_iff bit_simps)

lemma constant_time_eq_iff:
  assumes "length l < 2 ^ 64" "length r < 2 ^ 64"
  shows "constant_time_eq l r \<longleftrightarrow> l = r"
proof -
  have len: "(word_of_nat (length l) :: 64 word) = word_of_nat (length r) \<longleftrightarrow> length l = length r"
    using assms by (simp add: of_nat_inverse word_of_nat_eq_iff take_bit_nat_eq_self)
  have char: "(word_of_nat (of_char a) :: 64 word) = word_of_nat (of_char b) \<longleftrightarrow> a = b" for a b :: char
  proof -
    have "(of_char a :: nat) < 2 ^ 64" "(of_char b :: nat) < 2 ^ 64"
      by (rule less_le_trans [OF nat_of_char_less_256], simp)+
    then show ?thesis
      by (simp add: word_of_nat_eq_iff take_bit_nat_eq_self)
  qed
  show ?thesis
  proof (cases "length l = length r")
    case True
    have "constant_time_eq l r \<longleftrightarrow> (\<forall>i < length r. byte_at l i = byte_at r i)"
      unfolding constant_time_eq_def Let_def folded_differences xor_zero len by (auto simp: True)
    also have "\<dots> \<longleftrightarrow> (\<forall>i < length r. l ! i = r ! i)"
      using char True by (simp add: byte_at_def)
    finally show ?thesis
      using True by (simp add: list_eq_iff_nth_eq)
  next
    case False
    then show ?thesis
      unfolding constant_time_eq_def Let_def folded_differences xor_zero len by auto
  qed
qed

section \<open>An authenticated key was live a moment ago\<close>

text \<open>The call that read the row behind a cache entry, and how long the entry may be used.\<close>

definition vouches :: "(string \<Rightarrow> string) \<Rightarrow> auth_call \<Rightarrow> string \<Rightarrow> cache_entry \<Rightarrow> bool" where
  "vouches sha a h e \<longleftrightarrow>
     sha (au_token a) = h \<and> valid_key_shape (au_token a) \<and>
     (\<exists>k x. find_by_hash (au_accounts a) h = Some (k, x) \<and> \<not> k_disabled k \<and> \<not> in_the_past (au_judged_at a) (k_expires_at k) \<and>
        ce_key e = identity_of k x \<and> ce_expires_at e \<le> au_instant a + CACHE_TTL \<and>
        (case k_expires_at k of None \<Rightarrow> True
         | Some deadline \<Rightarrow> ce_expires_at e \<le> au_instant a + max 0 (deadline - au_sized_at a)))"

definition cache_vouched :: "(string \<Rightarrow> string) \<Rightarrow> auth_call set \<Rightarrow> key_cache \<Rightarrow> bool" where
  "cache_vouched sha A c \<longleftrightarrow> (\<forall>h e. c h = Some e \<longrightarrow> (\<exists>a \<in> A. vouches sha a h e))"

text \<open>What one call may answer, given the calls before it.\<close>

definition recently_live :: "(string \<Rightarrow> string) \<Rightarrow> auth_call set \<Rightarrow> auth_call \<Rightarrow> authenticated_key \<Rightarrow> bool" where
  "recently_live sha A a key \<longleftrightarrow>
     (\<exists>b \<in> insert a A. \<exists>k x. sha (au_token b) = sha (au_token a) \<and> find_by_hash (au_accounts b) (sha (au_token a)) = Some (k, x) \<and>
        key = identity_of k x \<and> \<not> k_disabled k \<and> \<not> in_the_past (au_judged_at b) (k_expires_at k) \<and>
        (b \<noteq> a \<longrightarrow> au_instant a < au_instant b + CACHE_TTL \<and>
           (case k_expires_at k of None \<Rightarrow> True
            | Some deadline \<Rightarrow> au_instant a < au_instant b + max 0 (deadline - au_sized_at b))))"

lemma authenticate_step:
  assumes "cache_vouched sha A c" "authenticate sha a c = (r, c1)"
  shows "cache_vouched sha (insert a A) c1 \<and> (case r of None \<Rightarrow> True | Some key \<Rightarrow> recently_live sha A a key)"
proof -
  define h where "h = sha (au_token a)"
  define hit where "hit = cached_identity a h c"
  have grown: "cache_vouched sha (insert a A) c" "cache_vouched sha (insert a A) (retain p c)" for p
    using assms(1) by (auto simp: cache_vouched_def retain_def split: option.splits if_splits)
  show ?thesis
  proof (cases hit)
    case (Some key)
    then have out: "r = Some key" "c1 = c"
      using assms(2) by (auto simp: authenticate_def Let_def hit_def h_def split: option.splits)
    obtain e where e: "c h = Some e" "au_instant a < ce_expires_at e" "key = ce_key e"
      using Some by (auto simp: hit_def cached_identity_def bind_opt_def split: if_splits option.splits)
    obtain b where b: "b \<in> A" "vouches sha b h e"
      using assms(1) e(1) by (auto simp: cache_vouched_def)
    have "recently_live sha A a key"
      using b e(2,3) by (fastforce simp: recently_live_def vouches_def h_def split: option.splits)
    then show ?thesis
      using grown(1) out by simp
  next
    case None
    show ?thesis
    proof (cases "find_by_hash (au_accounts a) h")
      case None
      then show ?thesis
        using assms(2) \<open>hit = None\<close> grown(1) by (auto simp: authenticate_def Let_def hit_def h_def)
    next
      case (Some row)
      obtain k x where row: "row = (k, x)"
        by fastforce
      show ?thesis
      proof (cases "valid_key_shape (au_token a) \<and> constant_time_eq (ki_hash x) h \<and> \<not> k_disabled k \<and>
          \<not> in_the_past (au_judged_at a) (k_expires_at k)")
        case True
        define e where "e = \<lparr> ce_key = identity_of k x, ce_expires_at = au_instant a + entry_ttl (au_sized_at a) (k_expires_at k) \<rparr>"
        have out: "r = Some (identity_of k x)" "c1 = (retain (\<lambda>e. au_instant a < ce_expires_at e) c)(h \<mapsto> e)"
          using assms(2) \<open>hit = None\<close> Some row True by (auto simp: authenticate_def Let_def hit_def h_def e_def)
        have "vouches sha a h e"
          using True Some row
          by (auto simp: vouches_def h_def e_def entry_ttl_def CACHE_TTL_def split: option.splits)
        then have "cache_vouched sha (insert a A) c1"
          using grown(2) by (auto simp: cache_vouched_def out(2))
        moreover have "recently_live sha A a (identity_of k x)"
          using True Some row by (auto simp: recently_live_def h_def)
        ultimately show ?thesis
          by (simp add: out(1))
      next
        case False
        then have "r = None" "c1 = c"
          using assms(2) \<open>hit = None\<close> Some row by (auto simp: authenticate_def Let_def hit_def h_def split: if_splits)
        then show ?thesis
          using grown(1) by simp
      qed
    qed
  qed
qed

lemma authenticate_all_live:
  "cache_vouched sha A c \<Longrightarrow> authenticate_all sha as c = (rs, c1) \<Longrightarrow> i < length as \<Longrightarrow> rs ! i = Some key \<Longrightarrow>
     recently_live sha (A \<union> set (take i as)) (as ! i) key"
proof (induction as arbitrary: A c rs i)
  case (Cons a as)
  obtain r c0 where one: "authenticate sha a c = (r, c0)"
    by fastforce
  obtain rs0 where rest: "authenticate_all sha as c0 = (rs0, c1)" "rs = r # rs0"
    using Cons.prems(2) one by (auto split: prod.splits)
  note step = authenticate_step [OF Cons.prems(1) one]
  show ?case
  proof (cases i)
    case 0
    then show ?thesis
      using step Cons.prems(4) by (simp add: rest)
  next
    case (Suc j)
    have "recently_live sha (insert a A \<union> set (take j as)) (as ! j) key"
      using Cons.IH [OF conjunct1 [OF step] rest(1), of j] Cons.prems(3,4) Suc rest(2) by simp
    then show ?thesis
      by (simp add: Suc)
  qed
qed simp

text \<open>C30: Every identity the router authenticates was read from a live row (neither disabled nor expired) by that
  call or by an earlier one with the same token less than thirty seconds before; and an entry made for a key
  with a deadline is not used once the time that was left at its making has passed.\<close>

theorem cached_identity_is_recent:
  assumes "authenticate_all sha as Map.empty = (rs, c)" "i < length as" "rs ! i = Some key"
  shows "\<exists>j \<le> i. \<exists>k x. find_by_hash (au_accounts (as ! j)) (sha (au_token (as ! i))) = Some (k, x) \<and> key = identity_of k x \<and>
    \<not> k_disabled k \<and> \<not> in_the_past (au_judged_at (as ! j)) (k_expires_at k) \<and>
    (as ! j = as ! i \<or> au_instant (as ! i) < au_instant (as ! j) + CACHE_TTL \<and>
       (case k_expires_at k of None \<Rightarrow> True
        | Some deadline \<Rightarrow> au_instant (as ! i) < au_instant (as ! j) + max 0 (deadline - au_sized_at (as ! j))))"
proof -
  have "recently_live sha (set (take i as)) (as ! i) key"
    using authenticate_all_live [of sha "{}", OF _ assms] by (simp add: cache_vouched_def)
  then obtain b k x where b: "b \<in> insert (as ! i) (set (take i as))"
      "find_by_hash (au_accounts b) (sha (au_token (as ! i))) = Some (k, x)" "key = identity_of k x" "\<not> k_disabled k"
      "\<not> in_the_past (au_judged_at b) (k_expires_at k)"
      "b \<noteq> as ! i \<longrightarrow> au_instant (as ! i) < au_instant b + CACHE_TTL \<and>
         (case k_expires_at k of None \<Rightarrow> True
          | Some deadline \<Rightarrow> au_instant (as ! i) < au_instant b + max 0 (deadline - au_sized_at b))"
    unfolding recently_live_def by blast
  obtain j where "j \<le> i" "b = as ! j"
    using b(1) assms(2) unfolding insert_iff in_set_conv_nth by (metis (no_types, opaque_lifting) less_imp_le length_take min.strict_boundedE nth_take order_refl)
  then show ?thesis
    using b(2-) by blast
qed

section \<open>Editing\<close>

text \<open>C31: An edit through the portal never runs into a constraint of the database: what passes the handler's checks
  passes the table's, so it is refused with a reason or made, and the table stays well formed.\<close>

theorem portal_edit_keeps_schema:
  assumes "accounts_ok s"
  shows "fst (update_key cal clock now u kid q s) \<noteq> Inl PortalDatabase \<and>
    accounts_ok (snd (update_key cal clock now u kid q s))"
  using update_key_ok [OF assms] by simp

text \<open>An edit that leaves the expiry alone is refused on a key whose expiry has passed, the empty edit included.\<close>

theorem lapsed_key_refuses_every_other_edit:
  assumes "List.find (\<lambda>k. k_id k = kid \<and> k_user k = u) (api_keys (ac_db s)) = Some k" "key_info_of s kid = Some x"
    and "k_expires_at k = Some t" "t \<le> clock" "up_expires_at q = None"
  shows "\<exists>m. update_key cal clock now u kid q s = (Inl (InvalidKeyRequest m), s)"
proof -
  have "\<exists>m. validate_key_edit clock q
      \<lparr> ke_default_priority = ki_default_priority x, ke_expires_at = Some t, ke_credit_limit = k_credit_limit k,
        ke_credit_limit_window = k_credit_limit_window k \<rparr> = Inl (InvalidKeyRequest m)"
    using assms(4,5)
    by (auto simp: validate_key_edit_def Let_def edited_key_def unwrap_or_def in_the_past_def reject_if_def positive_up_to_def
        split: option.splits)
  then show ?thesis
    by (auto simp: update_key_def assms(1-3))
qed

section \<open>Witnesses\<close>

definition demo_key_info :: key_info where
  "demo_key_info = \<lparr> ki_id = 5, ki_hash = replicate 64 (CHR ''a''), ki_name = ''laptop'', ki_default_priority = None,
     ki_retention_policy = ''zdr_only'' \<rparr>"

definition demo_accounts :: accounts where
  "demo_accounts = \<lparr> ac_db = demo_db, ac_keys = [demo_key_info] \<rparr>"

lemma demo_accounts_ok: "accounts_ok demo_accounts"
  by (simp add: accounts_ok_def demo_accounts_def demo_db_def demo_key_def demo_key_info_def api_key_checks_def
      key_info_checks_def is_hex_def blank_def known_window_def list_all_iff)

lemma credit_limit_used_is_enforced_witness:
  "\<exists>used. credit_limit_used demo_cal 1000 demo_key demo_db = Some used \<and>
     spend_within_cap used
       (ra_cost (reserved_sums 1000 1 5 (prepared 1000 demo_request demo_db)))
       (charged_cost demo_cal 1000 demo_request demo_key (Some Daily) (prepared 1000 demo_request demo_db)
         (chosen_size 1000 demo_request (prepared 1000 demo_request demo_db))) 50"
proof -
  obtain d' where d': "begin_usage_session demo_cal 1000 77 demo_request demo_db = (Inr (Allowed demo_session), d')"
    using demo_admission by (metis prod.collapse)
  have f: "k_credit_limit demo_key = Some 50" "k_credit_limit_window demo_key = Some ''daily''" "aq_user demo_request = 1"
      "aq_key demo_request = 5"
    by (simp_all add: demo_key_def demo_request_def)
  have "rows_wf demo_db"
    by (simp add: rows_wf_def demo_db_def)
  moreover have "List.find (key_usable 1000 demo_request) (api_keys demo_db) = Some demo_key"
    by (simp add: demo_db_def key_usable_def demo_request_def demo_key_def)
  ultimately show ?thesis
    using credit_limit_used_is_enforced [OF d' _ _ f(1) _ refl refl refl, of "Some Daily"] f
    by (simp add: window_from_keyword_def)
qed

lemma one_playground_key_witness:
  "\<exists>summary s1. ensure_playground_key 900 1 8 (replicate 64 (CHR ''b'')) demo_accounts = (Inr summary, s1) \<and>
     live_named 1 PLAYGROUND_KEY_NAME s1 = 1 \<and> ks_id summary = 8"
proof -
  have "\<exists>summary s1. ensure_playground_key 900 1 8 (replicate 64 (CHR ''b'')) demo_accounts = (Inr summary, s1)"
    by (simp add: ensure_playground_key_def demo_accounts_def demo_db_def demo_user_def demo_key_def demo_key_info_def
        disable_named_def named_def key_info_of_def mint_gate_def admit_key_mint_def Let_def insert_api_key_def
        new_api_key_def new_key_info_def PLAYGROUND_KEY_NAME_def PLAYGROUND_KEY_CREDIT_LIMIT_USD_def storable_def
        api_key_checks_def key_info_checks_def known_window_def is_hex_def blank_def list_all_iff key_row_def
        MAX_ACTIVE_KEYS_PER_USER_def MAX_KEYS_CREATED_PER_WINDOW_def KEY_CREATION_WINDOW_HOURS_def)
  then obtain summary s1 where e: "ensure_playground_key 900 1 8 (replicate 64 (CHR ''b'')) demo_accounts = (Inr summary, s1)"
    by blast
  then show ?thesis
    using one_playground_key [OF demo_accounts_ok e] by blast
qed

lemma portal_edit_keeps_schema_witness:
  "accounts_ok (snd (update_key demo_cal 0 0 1 5
     \<lparr> up_default_priority = Some None, up_credit_limit = Some (Some 10), up_credit_limit_window = None, up_expires_at = None \<rparr>
     demo_accounts))"
  using portal_edit_keeps_schema [OF demo_accounts_ok] by blast

definition demo_token :: string where
  "demo_token = KEY_PREFIX @ replicate 64 (CHR ''0'')"

definition demo_call :: "time \<Rightarrow> accounts \<Rightarrow> auth_call" where
  "demo_call t s = \<lparr> au_token = demo_token, au_accounts = s, au_instant = t, au_judged_at = t, au_sized_at = t \<rparr>"

text \<open>The key is disabled between two calls; the second is still answered from the cache.\<close>

lemma demo_authenticated_twice:
  "fst (authenticate_all (\<lambda>_. replicate 64 (CHR ''a''))
      [demo_call 100 demo_accounts, demo_call 129 (snd (disable_key 1 5 demo_accounts))] Map.empty) =
     [Some (identity_of demo_key demo_key_info), Some (identity_of demo_key demo_key_info)]"
proof -
  have shape: "valid_key_shape demo_token"
    by (simp add: valid_key_shape_def demo_token_def KEY_PREFIX_def KEY_HEX_LENGTH_def starts_with_def is_ascii_hexdigit_def
        list_all_iff)
  have row: "find_by_hash demo_accounts (replicate 64 (CHR ''a'')) = Some (demo_key, demo_key_info)"
    by (simp add: find_by_hash_def demo_accounts_def demo_key_info_def bind_opt_def key_row_def demo_db_def demo_key_def)
  have same: "constant_time_eq (ki_hash demo_key_info) (replicate 64 (CHR ''a''))"
    by (simp add: constant_time_eq_iff demo_key_info_def)
  have "\<not> k_disabled demo_key" "k_expires_at demo_key = None"
    by (simp_all add: demo_key_def)
  then show ?thesis
    by (simp add: authenticate_def cached_identity_def shape row same demo_call_def Let_def bind_opt_def in_the_past_def
        entry_ttl_def CACHE_TTL_def)
qed

lemma cached_identity_is_recent_witness:
  "\<exists>rs c. authenticate_all (\<lambda>_. replicate 64 (CHR ''a''))
      [demo_call 100 demo_accounts, demo_call 129 (snd (disable_key 1 5 demo_accounts))] Map.empty = (rs, c) \<and>
     (\<exists>j \<le> 1. \<exists>k x. find_by_hash (au_accounts ([demo_call 100 demo_accounts, demo_call 129 (snd (disable_key 1 5 demo_accounts))] ! j))
         (replicate 64 (CHR ''a'')) = Some (k, x) \<and> \<not> k_disabled k)"
proof -
  obtain rs c where a: "authenticate_all (\<lambda>_. replicate 64 (CHR ''a''))
      [demo_call 100 demo_accounts, demo_call 129 (snd (disable_key 1 5 demo_accounts))] Map.empty = (rs, c)"
    by fastforce
  then have "rs ! 1 = Some (identity_of demo_key demo_key_info)"
    using demo_authenticated_twice by simp
  from cached_identity_is_recent [OF a _ this] show ?thesis
    using a by auto
qed

end
