(* ===== verification/Device.thy ===== *)
theory Device
  imports Keys
begin

text \<open>
  The device authorization grant (\<^verbatim>\<open>router/src/device.rs\<close>): a device starts a grant, a signed-in customer
  approves or denies it by its user code, and the device's polls claim it once for a new key.  The grants are
  a table beside the accounts; what is drawn at random (codes, ids and keys) is an argument.
\<close>

section \<open>Grants\<close>

datatype grant_status = GrantPending | GrantApproved | GrantDenied | GrantClaimed | GrantExpired

record device_grant =
  dg_id :: uuid
  dg_hash :: string
  dg_user_code :: string
  dg_client :: string
  dg_status :: grant_status
  dg_user :: "uuid option"
  dg_key :: "uuid option"
  dg_key_name :: "string option"
  dg_created_at :: time
  dg_expires_at :: time
  dg_last_polled :: "time option"
  dg_interval :: time

record device_state =
  ds_accounts :: accounts
  ds_grants :: "device_grant list"

text \<open>The constraints of the table; the status is one of the five keywords by its type.\<close>

definition device_grant_checks :: "device_grant \<Rightarrow> bool" where
  "device_grant_checks g \<longleftrightarrow>
     is_hex 64 (dg_hash g) \<and> \<not> blank (dg_user_code g) \<and> \<not> blank (dg_client g) \<and> dg_created_at g < dg_expires_at g \<and>
     0 < dg_interval g \<and>
     (dg_status g \<in> {GrantApproved, GrantClaimed} \<longrightarrow> dg_user g \<noteq> None) \<and>
     (dg_status g = GrantClaimed \<longrightarrow> dg_key g \<noteq> None)"

datatype oauth_error =
    OauthInvalidRequest
  | OauthInvalidClient
  | OauthUnsupportedGrantType
  | OauthInvalidGrant
  | OauthExpiredToken
  | OauthAccessDenied
  | OauthAuthorizationPending
  | OauthSlowDown
  | OauthServerError

fun oauth_code :: "oauth_error \<Rightarrow> string" where
  "oauth_code OauthInvalidRequest = ''invalid_request''"
| "oauth_code OauthInvalidClient = ''invalid_client''"
| "oauth_code OauthUnsupportedGrantType = ''unsupported_grant_type''"
| "oauth_code OauthInvalidGrant = ''invalid_grant''"
| "oauth_code OauthExpiredToken = ''expired_token''"
| "oauth_code OauthAccessDenied = ''access_denied''"
| "oauth_code OauthAuthorizationPending = ''authorization_pending''"
| "oauth_code OauthSlowDown = ''slow_down''"
| "oauth_code OauthServerError = ''server_error''"

fun oauth_status :: "oauth_error \<Rightarrow> int" where
  "oauth_status OauthServerError = 503"
| "oauth_status _ = 400"

datatype portal_device_error = DeviceInvalidBody | DeviceNotFound | DeviceDatabaseUnavailable

fun portal_device_status :: "portal_device_error \<Rightarrow> int" where
  "portal_device_status DeviceInvalidBody = 400"
| "portal_device_status DeviceNotFound = 404"
| "portal_device_status DeviceDatabaseUnavailable = 503"

section \<open>Codes\<close>

definition DEVICE_CODE_PREFIX :: string where
  "DEVICE_CODE_PREFIX = ''zdc_''"

definition DEVICE_CODE_BYTES :: nat where
  "DEVICE_CODE_BYTES = 32"

definition DEVICE_CODE_TTL_SECS :: time where
  "DEVICE_CODE_TTL_SECS = 900"

definition DEVICE_POLL_INTERVAL_SECS :: time where
  "DEVICE_POLL_INTERVAL_SECS = 5"

definition DEVICE_CODE_GRANT_TYPE :: string where
  "DEVICE_CODE_GRANT_TYPE = ''urn:ietf:params:oauth:grant-type:device_code''"

definition DEFAULT_KEY_NAME :: string where
  "DEFAULT_KEY_NAME = ''zeroclaw device''"

definition USER_CODE_ALPHABET :: string where
  "USER_CODE_ALPHABET = ''BCDFGHJKMPQRSTVWXZ23456789''"

definition USER_CODE_CHARS :: nat where
  "USER_CODE_CHARS = 8"

definition USER_CODE_GROUP :: nat where
  "USER_CODE_GROUP = 4"

definition USER_CODE_INSERT_ATTEMPTS :: nat where
  "USER_CODE_INSERT_ATTEMPTS = 8"

definition valid_device_code_shape :: "string \<Rightarrow> bool" where
  "valid_device_code_shape code \<longleftrightarrow>
     length code = length DEVICE_CODE_PREFIX + DEVICE_CODE_BYTES * 2 \<and> starts_with DEVICE_CODE_PREFIX code \<and>
     list_all is_ascii_hexdigit (drop (length DEVICE_CODE_PREFIX) code)"

text \<open>A user code drawn from random bytes; \<^const>\<open>None\<close> where the given bytes run out.\<close>

definition largest_fair_multiple :: nat where
  "largest_fair_multiple = (255 + 1) div length USER_CODE_ALPHABET * length USER_CODE_ALPHABET"

function user_code_from :: "string \<Rightarrow> 8 word list \<Rightarrow> string option" where
  "user_code_from code bytes =
     (if \<not> length code < USER_CODE_CHARS + 1 then Some code
      else if length code = USER_CODE_GROUP then user_code_from (code @ ''-'') bytes
      else case bytes of
             [] \<Rightarrow> None
           | b # bs \<Rightarrow>
               if largest_fair_multiple \<le> unat b then user_code_from code bs
               else user_code_from (code @ [USER_CODE_ALPHABET ! (unat b mod length USER_CODE_ALPHABET)]) bs)"
  by pat_completeness auto
termination
  by (relation "measure (\<lambda>(code, bytes). length bytes + (USER_CODE_CHARS + 1 - length code))")
    (auto simp: USER_CODE_CHARS_def USER_CODE_GROUP_def)

declare user_code_from.simps [simp del]

definition generate_user_code :: "8 word list \<Rightarrow> string option" where
  "generate_user_code bytes = user_code_from [] bytes"

definition normalize_user_code :: "string \<Rightarrow> string option" where
  "normalize_user_code raw =
     (let cleaned = List.map ascii_upper (List.filter (\<lambda>c. c \<noteq> CHR ''-'' \<and> c \<noteq> CHR '' '') (trim raw)) in
      if length cleaned \<noteq> USER_CODE_CHARS then None
      else if \<not> list_all (\<lambda>c. c \<in> set USER_CODE_ALPHABET) cleaned then None
      else Some (take USER_CODE_GROUP cleaned @ ''-'' @ drop USER_CODE_GROUP cleaned))"

text \<open>The first characters of a text, whole.\<close>

fun take_chars :: "nat \<Rightarrow> string \<Rightarrow> string" where
  "take_chars n [] = []"
| "take_chars n (c # s) =
     (if is_continuation c then c # take_chars n s
      else case n of 0 \<Rightarrow> [] | Suc m \<Rightarrow> c # take_chars m s)"

definition normalized_key_name :: "string option \<Rightarrow> string option" where
  "normalized_key_name raw =
     (case raw of
        None \<Rightarrow> None
      | Some r \<Rightarrow> if trim r = [] then None else Some (take_chars MAX_KEY_NAME_CHARS (trim r)))"

section \<open>Starting a grant\<close>

definition expire_stale_authorizations :: "time \<Rightarrow> device_state \<Rightarrow> device_state" where
  "expire_stale_authorizations now s =
     s\<lparr> ds_grants :=
          List.filter (\<lambda>g. \<not> (dg_status g \<in> {GrantExpired, GrantDenied, GrantClaimed} \<and> dg_expires_at g \<le> now - 24 * 3600))
            (update_where (\<lambda>g. dg_status g \<in> {GrantPending, GrantApproved} \<and> dg_expires_at g \<le> now)
               (\<lambda>g. g\<lparr> dg_status := GrantExpired \<rparr>) (ds_grants s)) \<rparr>"

definition insert_grant :: "device_grant \<Rightarrow> device_state \<Rightarrow> (sql_error, device_state) result" where
  "insert_grant g s =
     (if \<not> (case dg_key_name g of None \<Rightarrow> True | Some n \<Rightarrow> storable n) then Inl CHARACTER_NOT_IN_REPERTOIRE
      else if \<not> device_grant_checks g then Inl CHECK_VIOLATION
      else if list_ex (\<lambda>x. dg_id x = dg_id g \<or> dg_hash x = dg_hash g \<or> dg_user_code x = dg_user_code g) (ds_grants s)
      then Inl UNIQUE_VIOLATION
      else Inr (s\<lparr> ds_grants := ds_grants s @ [g] \<rparr>))"

record drawn_grant =
  dn_id :: uuid
  dn_device_code :: string
  dn_user_code :: string

definition new_grant :: "(string \<Rightarrow> string) \<Rightarrow> time \<Rightarrow> string \<Rightarrow> string option \<Rightarrow> drawn_grant \<Rightarrow> device_grant" where
  "new_grant sha now client name n =
     \<lparr> dg_id = dn_id n, dg_hash = sha (dn_device_code n), dg_user_code = dn_user_code n, dg_client = client,
       dg_status = GrantPending, dg_user = None, dg_key = None, dg_key_name = name, dg_created_at = now,
       dg_expires_at = now + DEVICE_CODE_TTL_SECS, dg_last_polled = None, dg_interval = DEVICE_POLL_INTERVAL_SECS \<rparr>"

record device_code_answer =
  da_device_code :: string
  da_user_code :: string
  da_expires_in :: time
  da_interval :: time

text \<open>Fresh codes are drawn while the ones drawn are taken.\<close>

fun insert_fresh ::
    "(string \<Rightarrow> string) \<Rightarrow> time \<Rightarrow> string \<Rightarrow> string option \<Rightarrow> drawn_grant list \<Rightarrow> device_state \<Rightarrow>
     (oauth_error, device_code_answer) result \<times> device_state" where
  "insert_fresh sha now client name [] s = (Inl OauthServerError, s)"
| "insert_fresh sha now client name (n # ns) s =
     (case insert_grant (new_grant sha now client name n) s of
        Inr s1 \<Rightarrow>
          (Inr \<lparr> da_device_code = dn_device_code n, da_user_code = dn_user_code n,
                 da_expires_in = DEVICE_CODE_TTL_SECS, da_interval = DEVICE_POLL_INTERVAL_SECS \<rparr>, s1)
      | Inl e \<Rightarrow>
          if e = UNIQUE_VIOLATION then insert_fresh sha now client name ns s else (Inl OauthServerError, s))"

definition start_device_authorization ::
    "(string \<Rightarrow> string) \<Rightarrow> string list \<Rightarrow> time \<Rightarrow> (nat \<Rightarrow> drawn_grant) \<Rightarrow> string \<Rightarrow> string option \<Rightarrow> device_state \<Rightarrow>
     (oauth_error, device_code_answer) result \<times> device_state" where
  "start_device_authorization sha clients now draws raw_client raw_name s =
     (let client = trim raw_client in
      if client \<notin> set clients then (Inl OauthInvalidClient, s)
      else insert_fresh sha now client (normalized_key_name raw_name)
             (List.map draws [0..<USER_CODE_INSERT_ATTEMPTS]) (expire_stale_authorizations now s))"

section \<open>Polling\<close>

text \<open>The name a claimed key gets.\<close>

definition claimed_name :: "string option \<Rightarrow> string" where
  "claimed_name raw = (case raw of None \<Rightarrow> DEFAULT_KEY_NAME | Some n \<Rightarrow> if trim n = [] then DEFAULT_KEY_NAME else trim n)"

definition polled_too_recently :: "time \<Rightarrow> device_grant \<Rightarrow> bool" where
  "polled_too_recently now g \<longleftrightarrow>
     (case dg_last_polled g of None \<Rightarrow> False | Some t \<Rightarrow> now - dg_interval g < t)"

definition update_grants :: "(device_grant \<Rightarrow> bool) \<Rightarrow> (device_grant \<Rightarrow> device_grant) \<Rightarrow> device_state \<Rightarrow> device_state" where
  "update_grants P f s = s\<lparr> ds_grants := update_where P f (ds_grants s) \<rparr>"

definition claim_grant ::
    "(string \<Rightarrow> string) \<Rightarrow> time \<Rightarrow> uuid \<Rightarrow> string \<Rightarrow> device_grant \<Rightarrow> uuid \<Rightarrow> device_state \<Rightarrow>
     (oauth_error, string) result \<times> device_state" where
  "claim_grant sha now kid key g u s =
     (let d = ac_db (ds_accounts s) in
      if users d u = None then (Inl OauthServerError, s)
      else case admit_key_mint now u d of
             MintLimitReached \<Rightarrow> (Inl OauthAccessDenied, s)
           | MintAccountFrozen \<Rightarrow> (Inl OauthAccessDenied, s)
           | MintAllowed \<Rightarrow>
               (case insert_api_key now kid u (sha key) (claimed_name (dg_key_name g)) None None None (ds_accounts s) of
                  Inl _ \<Rightarrow> (Inl OauthServerError, s)
                | Inr acc \<Rightarrow>
                    (let hit = (\<lambda>x. dg_id x = dg_id g \<and> dg_status x = GrantApproved) in
                     if count_where hit (ds_grants s) \<noteq> 1 then (Inl OauthInvalidGrant, s)
                     else (Inr key,
                           update_grants hit
                             (\<lambda>x. x\<lparr> dg_status := GrantClaimed, dg_key := Some kid, dg_last_polled := Some now \<rparr>)
                             (s\<lparr> ds_accounts := acc \<rparr>)))))"

definition poll_device_token ::
    "(string \<Rightarrow> string) \<Rightarrow> time \<Rightarrow> uuid \<Rightarrow> string \<Rightarrow> string \<Rightarrow> string \<Rightarrow> string \<Rightarrow> device_state \<Rightarrow>
     (oauth_error, string) result \<times> device_state" where
  "poll_device_token sha now kid key grant_type raw_code raw_client s =
     (if grant_type \<noteq> DEVICE_CODE_GRANT_TYPE then (Inl OauthUnsupportedGrantType, s)
      else
        (let code = trim raw_code; client = trim raw_client in
         if \<not> valid_device_code_shape code then (Inl OauthInvalidGrant, s)
         else
           (case List.find (\<lambda>g. dg_hash g = sha code \<and> dg_client g = client) (ds_grants s) of
              None \<Rightarrow> (Inl OauthInvalidGrant, s)
            | Some g \<Rightarrow>
                (let this = (\<lambda>x. dg_id x = dg_id g) in
                 if dg_expires_at g \<le> now \<and> dg_status g \<in> {GrantPending, GrantApproved}
                 then (Inl OauthExpiredToken, update_grants this (\<lambda>x. x\<lparr> dg_status := GrantExpired \<rparr>) s)
                 else
                   (case dg_status g of
                      GrantPending \<Rightarrow>
                        (Inl (if polled_too_recently now g then OauthSlowDown else OauthAuthorizationPending),
                         update_grants this (\<lambda>x. x\<lparr> dg_last_polled := Some now \<rparr>) s)
                    | GrantApproved \<Rightarrow>
                        (case dg_user g of
                           None \<Rightarrow> (Inl OauthServerError, s)
                         | Some u \<Rightarrow> claim_grant sha now kid key g u s)
                    | GrantDenied \<Rightarrow> (Inl OauthAccessDenied, s)
                    | GrantExpired \<Rightarrow> (Inl OauthExpiredToken, s)
                    | GrantClaimed \<Rightarrow> (Inl OauthInvalidGrant, s))))))"

section \<open>The portal's side\<close>

definition awaits :: "time \<Rightarrow> string \<Rightarrow> device_grant \<Rightarrow> bool" where
  "awaits now code g \<longleftrightarrow> dg_user_code g = code \<and> dg_status g = GrantPending \<and> now < dg_expires_at g"

definition lookup_user_code ::
    "time \<Rightarrow> string \<Rightarrow> device_state \<Rightarrow> (portal_device_error, string \<times> string option \<times> time) result" where
  "lookup_user_code now raw s =
     (case normalize_user_code raw of
        None \<Rightarrow> Inl DeviceNotFound
      | Some code \<Rightarrow>
          (case List.find (awaits now code) (ds_grants s) of
             None \<Rightarrow> Inl DeviceNotFound
           | Some g \<Rightarrow> Inr (dg_client g, dg_key_name g, dg_created_at g)))"

definition approve_user_code ::
    "time \<Rightarrow> uuid \<Rightarrow> string \<Rightarrow> string option \<Rightarrow> device_state \<Rightarrow> (portal_device_error, unit) result \<times> device_state" where
  "approve_user_code now u raw raw_name s =
     (case normalize_user_code raw of
        None \<Rightarrow> (Inl DeviceNotFound, s)
      | Some code \<Rightarrow>
          (let name = normalized_key_name raw_name in
           if \<not> (case name of None \<Rightarrow> True | Some n \<Rightarrow> storable n) then (Inl DeviceDatabaseUnavailable, s)
           else if count_where (awaits now code) (ds_grants s) = 1
           then (Inr (), update_grants (awaits now code)
                  (\<lambda>g. g\<lparr> dg_status := GrantApproved, dg_user := Some u, dg_key_name := or_else name (dg_key_name g) \<rparr>) s)
           else (Inl DeviceNotFound, s)))"

definition deny_user_code ::
    "time \<Rightarrow> string \<Rightarrow> device_state \<Rightarrow> (portal_device_error, unit) result \<times> device_state" where
  "deny_user_code now raw s =
     (case normalize_user_code raw of
        None \<Rightarrow> (Inl DeviceNotFound, s)
      | Some code \<Rightarrow>
          if count_where (awaits now code) (ds_grants s) = 1
          then (Inr (), update_grants (awaits now code) (\<lambda>g. g\<lparr> dg_status := GrantDenied \<rparr>) s)
          else (Inl DeviceNotFound, s))"

section \<open>Every operation on keys and grants\<close>

datatype account_op =
    OpCreateKey time uuid uuid string create_key_request
  | OpPlayground uuid uuid string
  | OpDisable uuid uuid
  | OpUpdate time uuid uuid update_key_request
  | OpStart "nat \<Rightarrow> drawn_grant" string "string option"
  | OpPoll uuid string string string string
  | OpApprove uuid string "string option"
  | OpDeny string

definition on_accounts :: "('r \<times> accounts) \<Rightarrow> device_state \<Rightarrow> device_state" where
  "on_accounts p s = s\<lparr> ds_accounts := snd p \<rparr>"

fun run_account_op ::
    "(string \<Rightarrow> string) \<Rightarrow> string list \<Rightarrow> calendar \<Rightarrow> time \<Rightarrow> account_op \<Rightarrow> device_state \<Rightarrow> device_state" where
  "run_account_op sha clients cal now (OpCreateKey clock u kid key q) s =
     on_accounts (create_key clock now u kid (sha key) q (ds_accounts s)) s"
| "run_account_op sha clients cal now (OpPlayground u kid key) s =
     on_accounts (ensure_playground_key now u kid (sha key) (ds_accounts s)) s"
| "run_account_op sha clients cal now (OpDisable u kid) s = on_accounts (disable_key u kid (ds_accounts s)) s"
| "run_account_op sha clients cal now (OpUpdate clock u kid q) s =
     on_accounts (update_key cal clock now u kid q (ds_accounts s)) s"
| "run_account_op sha clients cal now (OpStart draws client name) s =
     snd (start_device_authorization sha clients now draws client name s)"
| "run_account_op sha clients cal now (OpPoll kid key grant_type code client) s =
     snd (poll_device_token sha now kid key grant_type code client s)"
| "run_account_op sha clients cal now (OpApprove u code name) s = snd (approve_user_code now u code name s)"
| "run_account_op sha clients cal now (OpDeny code) s = snd (deny_user_code now code s)"

definition run_accounts ::
    "(string \<Rightarrow> string) \<Rightarrow> string list \<Rightarrow> calendar \<Rightarrow> (time \<times> account_op) list \<Rightarrow> device_state \<Rightarrow> device_state" where
  "run_accounts sha clients cal ops s = foldl (\<lambda>s (now, op). run_account_op sha clients cal now op s) s ops"

section \<open>Limits and tables under every operation\<close>

definition sound_at :: "time \<Rightarrow> device_state \<Rightarrow> bool" where
  "sound_at now s \<longleftrightarrow> accounts_ok (ds_accounts s) \<and> within_limits now (ds_accounts s)"

lemma insert_fresh_accounts [simp]:
  "ds_accounts (snd (insert_fresh sha now client name ns s)) = ds_accounts s"
  by (induction ns) (auto simp: insert_grant_def split: sum.splits)

lemma grant_ops_accounts [simp]:
  "ds_accounts (snd (start_device_authorization sha clients now draws client name s)) = ds_accounts s"
  "ds_accounts (snd (approve_user_code now u code name' s)) = ds_accounts s"
  "ds_accounts (snd (deny_user_code now code s)) = ds_accounts s"
  by (simp_all add: start_device_authorization_def Let_def expire_stale_authorizations_def approve_user_code_def
      deny_user_code_def update_grants_def split: option.split)

lemma claim_grant_cases:
  obtains e where "claim_grant sha now kid key g u s = (Inl e, s)"
  | acc where "insert_api_key now kid u (sha key) (claimed_name (dg_key_name g)) None None None (ds_accounts s) = Inr acc"
      "admit_key_mint now u (ac_db (ds_accounts s)) = MintAllowed" "users (ac_db (ds_accounts s)) u \<noteq> None"
      "count_where (\<lambda>x. dg_id x = dg_id g \<and> dg_status x = GrantApproved) (ds_grants s) = 1"
      "claim_grant sha now kid key g u s =
        (Inr key, update_grants (\<lambda>x. dg_id x = dg_id g \<and> dg_status x = GrantApproved)
           (\<lambda>x. x\<lparr> dg_status := GrantClaimed, dg_key := Some kid, dg_last_polled := Some now \<rparr>) (s\<lparr> ds_accounts := acc \<rparr>))"
  by (cases "claim_grant sha now kid key g u s")
    (auto simp: claim_grant_def Let_def split: if_splits sum.splits key_mint_admission.splits)

lemma claim_grant_sound:
  assumes "sound_at now s"
  shows "sound_at now (snd (claim_grant sha now kid key g u s))"
proof (rule claim_grant_cases [of sha now kid key g u s])
  fix acc
  assume a: "insert_api_key now kid u (sha key) (claimed_name (dg_key_name g)) None None None (ds_accounts s) = Inr acc"
    "admit_key_mint now u (ac_db (ds_accounts s)) = MintAllowed" "users (ac_db (ds_accounts s)) u \<noteq> None"
    "claim_grant sha now kid key g u s =
        (Inr key, update_grants (\<lambda>x. dg_id x = dg_id g \<and> dg_status x = GrantApproved)
           (\<lambda>x. x\<lparr> dg_status := GrantClaimed, dg_key := Some kid, dg_last_polled := Some now \<rparr>) (s\<lparr> ds_accounts := acc \<rparr>))"
  have "mint_gate now u (ac_db (ds_accounts s)) = Inr ()"
    using a(2,3) by (simp add: mint_gate_def)
  then show ?thesis
    using assms a(1) insert_api_key_ok minted_within_limits by (auto simp: sound_at_def a(4) update_grants_def)
qed (use assms in simp)

lemma poll_device_token_sound:
  assumes "sound_at now s"
  shows "sound_at now (snd (poll_device_token sha now kid key gt code client s))"
  using assms claim_grant_sound [OF assms]
  by (auto simp: poll_device_token_def Let_def update_grants_def sound_at_def split: option.split grant_status.split)

lemma run_account_op_sound: "sound_at now s \<Longrightarrow> sound_at now (run_account_op sha clients cal now op s)"
  using poll_device_token_sound
  by (cases op)
    (auto simp: sound_at_def on_accounts_def create_key_ok create_key_limits ensure_playground_key_ok
      ensure_playground_key_limits disable_key_ok disable_key_limits update_key_ok update_key_limits)

lemma run_accounts_Nil [simp]: "run_accounts sha clients cal [] s = s"
  by (simp add: run_accounts_def)

lemma run_accounts_Cons [simp]:
  "run_accounts sha clients cal ((now, op) # ops) s = run_accounts sha clients cal ops (run_account_op sha clients cal now op s)"
  by (simp add: run_accounts_def)

lemma sound_at_later: "sound_at now s \<Longrightarrow> now \<le> later \<Longrightarrow> sound_at later s"
  by (auto simp: sound_at_def intro: within_limits_later)

text \<open>C27: Whatever keys a customer mints, edits, disables and replaces and whatever grants devices claim, no customer
  holds more than twenty live keys or got more than twenty in any twenty-four hours, and the key table stays well
  formed: unique ids and digests, one row of each half for every key, every constraint kept.\<close>

theorem self_service_mints_bounded:
  assumes "sound_at start s" "sorted_wrt (\<lambda>(t, _) (t', _). t \<le> t') ops" "list_all (\<lambda>(t, _). start \<le> t \<and> t \<le> now) ops"
    and "start \<le> now"
  shows "live_keys u (ds_accounts (run_accounts sha clients cal ops s)) \<le> 20 \<and>
    recent_keys now u (ds_accounts (run_accounts sha clients cal ops s)) \<le> 20 \<and>
    accounts_ok (ds_accounts (run_accounts sha clients cal ops s))"
proof -
  have "sound_at now (run_accounts sha clients cal ops s)"
    using assms
  proof (induction ops arbitrary: s start)
    case Nil
    then show ?case
      by (auto intro: sound_at_later)
  next
    case (Cons p ops)
    obtain t op where p: "p = (t, op)"
      by fastforce
    have "sound_at t (run_account_op sha clients cal t op s)"
      using Cons.prems p by (auto intro: run_account_op_sound sound_at_later)
    moreover have "list_all (\<lambda>(t', _). t \<le> t' \<and> t' \<le> now) ops"
      using Cons.prems(2,3) p by (auto simp: list_all_iff)
    ultimately show ?case
      using Cons.IH [of t] Cons.prems(2,3) p by auto
  qed
  then show ?thesis
    by (simp add: sound_at_def within_limits_def MAX_ACTIVE_KEYS_PER_USER_def MAX_KEYS_CREATED_PER_WINDOW_def)
qed

section \<open>The life of a grant\<close>

text \<open>The abstract machine of one grant.\<close>

inductive grant_step :: "grant_status \<Rightarrow> grant_status \<Rightarrow> bool" where
  approve: "grant_step GrantPending GrantApproved"
| deny: "grant_step GrantPending GrantDenied"
| claim: "grant_step GrantApproved GrantClaimed"
| lapse: "st \<in> {GrantPending, GrantApproved} \<Longrightarrow> grant_step st GrantExpired"

inductive_simps grant_step_from [simp]:
  "grant_step GrantClaimed st" "grant_step GrantDenied st" "grant_step GrantExpired st"

inductive_cases grant_step_to_claimed: "grant_step st GrantClaimed"

definition grants_ok :: "device_state \<Rightarrow> bool" where
  "grants_ok s \<longleftrightarrow>
     distinct (List.map dg_id (ds_grants s)) \<and> distinct (List.map dg_hash (ds_grants s)) \<and>
     distinct (List.map dg_user_code (ds_grants s)) \<and> list_all device_grant_checks (ds_grants s)"

text \<open>How one operation changes the table of grants: rows move, end rows go, one new row may come.\<close>

definition grant_moved :: "device_grant \<Rightarrow> device_grant \<Rightarrow> bool" where
  "grant_moved g g' \<longleftrightarrow>
     dg_id g' = dg_id g \<and> dg_hash g' = dg_hash g \<and> dg_user_code g' = dg_user_code g \<and> dg_client g' = dg_client g \<and>
     dg_created_at g' = dg_created_at g \<and> dg_expires_at g' = dg_expires_at g \<and> dg_interval g' = dg_interval g \<and>
     (dg_status g' = dg_status g \<or> grant_step (dg_status g) (dg_status g'))"

lemma grant_moved_refl [simp]: "grant_moved g g"
  by (simp add: grant_moved_def)

text \<open>Every grant of a table moved, none added and none dropped, in order.\<close>

definition grants_move :: "device_grant list \<Rightarrow> device_grant list \<Rightarrow> bool" where
  "grants_move gs gs' \<longleftrightarrow> list_all2 grant_moved gs gs'"

lemma grants_move_refl [simp]: "grants_move gs gs"
  by (simp add: grants_move_def list.rel_refl)

lemma grants_move_update:
  assumes "\<And>g. g \<in> set gs \<Longrightarrow> P g \<Longrightarrow> grant_moved g (f g)"
  shows "grants_move gs (update_where P f gs)"
  using assms by (simp add: grants_move_def update_where_def list.rel_map list.rel_refl_strong)

lemma grants_move_member: "grants_move gs gs' \<Longrightarrow> g' \<in> set gs' \<Longrightarrow> \<exists>g \<in> set gs. grant_moved g g'"
  unfolding grants_move_def by (metis in_set_conv_nth list_all2_conv_all_nth)

lemma update_where_ok:
  assumes "grants_ok s" "\<And>g. g \<in> set (ds_grants s) \<Longrightarrow> P g \<Longrightarrow> device_grant_checks (f g)"
    and "\<And>g. dg_id (f g) = dg_id g \<and> dg_hash (f g) = dg_hash g \<and> dg_user_code (f g) = dg_user_code g"
  shows "grants_ok (update_grants P f s)"
  using assms
  by (auto simp: grants_ok_def update_grants_def map_update_where list_all_iff elim!: update_whereE)


text \<open>
  The next table: the rows of the last one moved, except those a start deletes a day after they expired, and
  at most one new row behind them, pending, whose code was drawn.
\<close>

definition drawn_row :: "(string \<Rightarrow> string) \<Rightarrow> account_op \<Rightarrow> device_grant \<Rightarrow> bool" where
  "drawn_row sha op g \<longleftrightarrow>
     (case op of
        OpStart draws _ _ \<Rightarrow> dg_status g = GrantPending \<and>
          list_ex (\<lambda>i. dg_hash g = sha (dn_device_code (draws i))) [0..<USER_CODE_INSERT_ATTEMPTS]
      | _ \<Rightarrow> False)"

definition lapsed_row :: "string list \<Rightarrow> time \<Rightarrow> account_op \<Rightarrow> device_grant \<Rightarrow> bool" where
  "lapsed_row clients now op g \<longleftrightarrow>
     (case op of
        OpStart _ client _ \<Rightarrow> trim client \<in> set clients \<and> dg_expires_at g \<le> now - 24 * 3600
      | _ \<Rightarrow> False)"

lemma insert_fresh_rows:
  "\<exists>new. ds_grants (snd (insert_fresh sha now client name ns s)) = ds_grants s @ new \<and> length new \<le> 1 \<and>
     list_all (\<lambda>g. dg_status g = GrantPending \<and> list_ex (\<lambda>n. dg_hash g = sha (dn_device_code n)) ns) new"
proof (induction ns)
  case (Cons n ns)
  show ?case
  proof (cases "insert_grant (new_grant sha now client name n) s")
    case (Inl e)
    obtain new where "ds_grants (snd (insert_fresh sha now client name ns s)) = ds_grants s @ new" "length new \<le> 1"
        "list_all (\<lambda>g. dg_status g = GrantPending \<and> list_ex (\<lambda>n. dg_hash g = sha (dn_device_code n)) ns) new"
      using Cons by blast
    then show ?thesis
      using Inl by (cases "e = UNIQUE_VIOLATION") (auto simp: list_all_iff)
  next
    case (Inr s1)
    then have "ds_grants s1 = ds_grants s @ [new_grant sha now client name n]"
      by (auto simp: insert_grant_def split: if_splits)
    moreover have "dg_status (new_grant sha now client name n) = GrantPending" "dg_hash (new_grant sha now client name n) = sha (dn_device_code n)"
      by (simp_all add: new_grant_def)
    ultimately show ?thesis
      by (intro exI [of _ "[new_grant sha now client name n]"]) (simp add: Inr)
  qed
qed simp

lemma expire_stale_moves:
  "grants_move (List.filter (\<lambda>g. \<not> dg_expires_at g \<le> now - 24 * 3600) (ds_grants s)) (ds_grants (expire_stale_authorizations now s))"
proof -
  define h where "h g = (if dg_status g \<in> {GrantPending, GrantApproved} \<and> dg_expires_at g \<le> now
      then g\<lparr> dg_status := GrantExpired \<rparr> else g)" for g :: device_grant
  have h: "h = (\<lambda>g. if dg_status g \<in> {GrantPending, GrantApproved} \<and> dg_expires_at g \<le> now
      then g\<lparr> dg_status := GrantExpired \<rparr> else g)"
    by (rule ext) (simp add: h_def)
  have keep: "(dg_status (h g) \<in> {GrantExpired, GrantDenied, GrantClaimed} \<longrightarrow> \<not> dg_expires_at (h g) \<le> now - 86400) =
      (\<not> dg_expires_at g \<le> now - 86400)" for g
    by (cases "dg_status g") (auto simp: h_def)
  have moved: "grant_moved g (h g)" for g
    by (auto simp: h_def grant_moved_def intro: grant_step.intros)
  have "ds_grants (expire_stale_authorizations now s) =
      List.map h (List.filter (\<lambda>g. \<not> dg_expires_at g \<le> now - 24 * 3600) (ds_grants s))"
    unfolding expire_stale_authorizations_def update_where_def h [symmetric] by (simp add: filter_map o_def keep del: insert_iff)
  then show ?thesis
    by (simp add: grants_move_def list.rel_map moved list.rel_refl_strong)
qed

lemma claim_grant_moves: "grants_move (ds_grants s) (ds_grants (snd (claim_grant sha now kid key g u s)))"
  by (rule claim_grant_cases [of sha now kid key g u s])
    (auto simp: update_grants_def grant_moved_def intro!: grants_move_update intro: grant_step.intros)

lemma poll_moves:
  assumes "distinct (List.map dg_id (ds_grants s))"
  shows "grants_move (ds_grants s) (ds_grants (snd (poll_device_token sha now kid key gt raw client s)))"
proof (cases "List.find (\<lambda>g. dg_hash g = sha (trim raw) \<and> dg_client g = trim client) (ds_grants s)")
  case None
  then show ?thesis
    by (simp add: poll_device_token_def Let_def)
next
  case (Some g)
  have same: "x = g" if "x \<in> set (ds_grants s)" "dg_id x = dg_id g" for x
    using that find_SomeD [OF Some] assms by (auto simp: distinct_map dest: inj_onD)
  have "grants_move (ds_grants s) (update_where (\<lambda>x. dg_id x = dg_id g) (\<lambda>x. x\<lparr> dg_status := GrantExpired \<rparr>) (ds_grants s))"
    if "dg_status g \<in> {GrantPending, GrantApproved}"
    using that same by (intro grants_move_update) (auto simp: grant_moved_def intro: grant_step.intros)
  moreover have "grants_move (ds_grants s) (update_where (\<lambda>x. dg_id x = dg_id g) (\<lambda>x. x\<lparr> dg_last_polled := Some now \<rparr>) (ds_grants s))"
    by (intro grants_move_update) (simp add: grant_moved_def)
  ultimately show ?thesis
    using claim_grant_moves
    by (auto simp: poll_device_token_def Let_def Some update_grants_def split: grant_status.split option.split)
qed

lemma portal_moves:
  "grants_move (ds_grants s) (ds_grants (snd (approve_user_code now u code name s)))"
  "grants_move (ds_grants s) (ds_grants (snd (deny_user_code now code s)))"
  by (auto simp: approve_user_code_def deny_user_code_def Let_def update_grants_def awaits_def grant_moved_def
      intro!: grants_move_update intro: grant_step.intros split: option.split)

lemma all_moved:
  "grants_move gs moved \<Longrightarrow> \<exists>ms new. moved = ms @ new \<and> grants_move gs ms \<and> length new \<le> 1 \<and> list_all P new"
  by (intro exI [of _ moved] exI [of _ "[]"]) simp

lemma run_account_op_next:
  assumes "distinct (List.map dg_id (ds_grants s))"
  shows "\<exists>moved new. ds_grants (run_account_op sha clients cal now op s) = moved @ new \<and>
    grants_move (List.filter (\<lambda>g. \<not> lapsed_row clients now op g) (ds_grants s)) moved \<and>
    length new \<le> 1 \<and> list_all (drawn_row sha op) new"
proof (cases op)
  case (OpStart draws client name)
  show ?thesis
  proof (cases "trim client \<in> set clients")
    case True
    have kept: "List.filter (\<lambda>g. \<not> lapsed_row clients now op g) (ds_grants s) =
        List.filter (\<lambda>g. \<not> dg_expires_at g \<le> now - 24 * 3600) (ds_grants s)"
      using True by (simp add: lapsed_row_def OpStart)
    have run: "run_account_op sha clients cal now op s =
        snd (insert_fresh sha now (trim client) (normalized_key_name name) (List.map draws [0..<USER_CODE_INSERT_ATTEMPTS])
          (expire_stale_authorizations now s))"
      using True by (simp add: OpStart start_device_authorization_def Let_def)
    obtain new where "ds_grants (run_account_op sha clients cal now op s) = ds_grants (expire_stale_authorizations now s) @ new"
        "length new \<le> 1" "list_all (drawn_row sha op) new"
      using insert_fresh_rows [of sha now "trim client" "normalized_key_name name" "List.map draws [0..<USER_CODE_INSERT_ATTEMPTS]"
          "expire_stale_authorizations now s"]
      unfolding run by (auto simp: drawn_row_def OpStart list_ex_iff list_all_iff)
    then show ?thesis
      using expire_stale_moves [of now s] by (auto simp: kept)
  next
    case False
    then show ?thesis
      by (intro all_moved) (simp add: OpStart start_device_authorization_def Let_def lapsed_row_def)
  qed
next
  case (OpPoll kid key gt code client)
  then show ?thesis
    using poll_moves [OF assms] by (intro all_moved) (simp add: lapsed_row_def)
next
  case (OpApprove u code name)
  then show ?thesis
    using portal_moves(1) by (intro all_moved) (simp add: lapsed_row_def)
next
  case (OpDeny code)
  then show ?thesis
    using portal_moves(2) by (intro all_moved) (simp add: lapsed_row_def)
qed (intro all_moved; simp add: on_accounts_def lapsed_row_def)+

lemma run_account_op_rows:
  assumes "distinct (List.map dg_id (ds_grants s))" "g' \<in> set (ds_grants (run_account_op sha clients cal now op s))"
  shows "(\<exists>g \<in> set (ds_grants s). grant_moved g g') \<or> drawn_row sha op g'"
proof -
  obtain moved new where n: "ds_grants (run_account_op sha clients cal now op s) = moved @ new"
      "grants_move (List.filter (\<lambda>g. \<not> lapsed_row clients now op g) (ds_grants s)) moved" "list_all (drawn_row sha op) new"
    using run_account_op_next [OF assms(1), of sha clients cal now op] by blast
  show ?thesis
    using assms(2) grants_move_member [OF n(2)] n(1,3) by (auto simp: list_all_iff)
qed

lemma grants_ok_checks: "grants_ok s \<Longrightarrow> g \<in> set (ds_grants s) \<Longrightarrow> device_grant_checks g"
  by (simp add: grants_ok_def list_all_iff)

lemma grants_ok_filter: "grants_ok s \<Longrightarrow> grants_ok (s\<lparr> ds_grants := List.filter P (ds_grants s) \<rparr>)"
  by (auto simp: grants_ok_def distinct_map_filter list_all_iff)

lemma grants_ok_accounts [simp]: "grants_ok (s\<lparr> ds_accounts := a \<rparr>) = grants_ok s"
  by (simp add: grants_ok_def)

lemma insert_fresh_ok: "grants_ok s \<Longrightarrow> grants_ok (snd (insert_fresh sha now client name ns s))"
proof (induction ns)
  case (Cons n ns)
  have "grants_ok s1" if "insert_grant g s = Inr s1" for g s1
    using that Cons.prems
    by (auto simp: insert_grant_def grants_ok_def list_ex_iff split: if_splits) blast+
  then show ?case
    using Cons by (auto split: sum.split)
qed simp

lemma expire_stale_ok: "grants_ok s \<Longrightarrow> grants_ok (expire_stale_authorizations now s)"
proof -
  assume ok: "grants_ok s"
  have "grants_ok (update_grants (\<lambda>g. dg_status g \<in> {GrantPending, GrantApproved} \<and> dg_expires_at g \<le> now)
      (\<lambda>g. g\<lparr> dg_status := GrantExpired \<rparr>) s)"
    by (intro update_where_ok [OF ok]) (use grants_ok_checks [OF ok] in \<open>auto simp: device_grant_checks_def\<close>)
  from grants_ok_filter [OF this] show ?thesis
    by (simp add: expire_stale_authorizations_def update_grants_def)
qed

lemma claim_grant_ok:
  assumes "grants_ok s" "dg_user g \<noteq> None"
  shows "grants_ok (snd (claim_grant sha now kid key g u s))"
proof (rule claim_grant_cases [of sha now kid key g u s])
  fix acc
  assume c: "claim_grant sha now kid key g u s =
      (Inr key, update_grants (\<lambda>x. dg_id x = dg_id g \<and> dg_status x = GrantApproved)
         (\<lambda>x. x\<lparr> dg_status := GrantClaimed, dg_key := Some kid, dg_last_polled := Some now \<rparr>) (s\<lparr> ds_accounts := acc \<rparr>))"
  show ?thesis
    unfolding c snd_conv using grants_ok_checks [OF assms(1)]
    by (intro update_where_ok) (auto simp: assms(1) device_grant_checks_def)
qed (use assms in simp)

lemma poll_ok:
  assumes "grants_ok s"
  shows "grants_ok (snd (poll_device_token sha now kid key gt code client s))"
proof -
  have "grants_ok (update_grants P (\<lambda>x. x\<lparr> dg_status := GrantExpired \<rparr>) s)"
       "grants_ok (update_grants P (\<lambda>x. x\<lparr> dg_last_polled := Some now \<rparr>) s)" for P
    by (intro update_where_ok [OF assms], use grants_ok_checks [OF assms] in \<open>auto simp: device_grant_checks_def\<close>)+
  then show ?thesis
    using assms claim_grant_ok [OF assms]
    by (auto simp: poll_device_token_def Let_def split: option.split grant_status.split)
qed

lemma portal_ok:
  assumes "grants_ok s"
  shows "grants_ok (snd (approve_user_code now u code name s))" "grants_ok (snd (deny_user_code now code s))"
proof -
  have "grants_ok (update_grants (awaits now c) (\<lambda>g. g\<lparr> dg_status := GrantApproved, dg_user := Some u, dg_key_name := or_else n (dg_key_name g) \<rparr>) s)"
       "grants_ok (update_grants (awaits now c) (\<lambda>g. g\<lparr> dg_status := GrantDenied \<rparr>) s)" for c n
    by (intro update_where_ok [OF assms], use grants_ok_checks [OF assms] in \<open>auto simp: device_grant_checks_def awaits_def\<close>)+
  then show "grants_ok (snd (approve_user_code now u code name s))" "grants_ok (snd (deny_user_code now code s))"
    using assms by (auto simp: approve_user_code_def deny_user_code_def Let_def split: option.split)
qed

lemma run_account_op_grants_ok: "grants_ok s \<Longrightarrow> grants_ok (run_account_op sha clients cal now op s)"
  by (cases op)
    (auto simp: on_accounts_def start_device_authorization_def Let_def poll_ok portal_ok intro: insert_fresh_ok expire_stale_ok)

text \<open>C26: Every operation moves every grant as the abstract machine allows (pending to approved, denied or expired,
  approved to claimed or expired, and no way out of an end state) and keeps everything else that identifies it.  It drops
  no grant, except that a start by a known client deletes those that expired a day ago or more, and adds at most one, a
  pending grant whose code was just drawn; codes stay unique and the constraints stay kept.\<close>

theorem grants_follow_machine:
  assumes "grants_ok s"
  shows "(\<exists>moved new. ds_grants (run_account_op sha clients cal now op s) = moved @ new \<and>
      list_all2 grant_moved (List.filter (\<lambda>g. \<not> lapsed_row clients now op g) (ds_grants s)) moved \<and>
      length new \<le> 1 \<and> list_all (drawn_row sha op) new) \<and>
    grants_ok (run_account_op sha clients cal now op s)"
  using run_account_op_next run_account_op_grants_ok [OF assms] assms by (simp add: grants_ok_def grants_move_def)

section \<open>A code is spent once\<close>

definition spent :: "string \<Rightarrow> device_state \<Rightarrow> bool" where
  "spent h s \<longleftrightarrow> list_all (\<lambda>g. dg_hash g = h \<longrightarrow> dg_status g = GrantClaimed) (ds_grants s)"

definition redraws :: "(string \<Rightarrow> string) \<Rightarrow> string \<Rightarrow> account_op \<Rightarrow> bool" where
  "redraws sha h op \<longleftrightarrow>
     (case op of
        OpStart draws _ _ \<Rightarrow> list_ex (\<lambda>i. sha (dn_device_code (draws i)) = h) [0..<USER_CODE_INSERT_ATTEMPTS]
      | _ \<Rightarrow> False)"

lemma spent_step:
  assumes "grants_ok s" "spent h s" "\<not> redraws sha h op"
  shows "spent h (run_account_op sha clients cal now op s)"
  unfolding spent_def list_all_iff
proof (intro ballI impI)
  fix g' assume g': "g' \<in> set (ds_grants (run_account_op sha clients cal now op s))" "dg_hash g' = h"
  from run_account_op_rows [OF _ g'(1)] assms(1) consider g where "g \<in> set (ds_grants s)" "grant_moved g g'" | "drawn_row sha op g'"
    by (auto simp: grants_ok_def)
  then show "dg_status g' = GrantClaimed"
  proof cases
    case (1 g)
    then show ?thesis
      using assms(2) g'(2) by (auto simp: spent_def list_all_iff grant_moved_def)
  next
    case 2
    then show ?thesis
      using assms(3) g'(2) by (auto simp: drawn_row_def redraws_def list_ex_iff split: account_op.splits)
  qed
qed

lemma spent_run:
  "grants_ok s \<Longrightarrow> spent h s \<Longrightarrow> list_all (\<lambda>(_, op). \<not> redraws sha h op) ops \<Longrightarrow> spent h (run_accounts sha clients cal ops s)"
proof (induction ops arbitrary: s)
  case (Cons p ops)
  then show ?case
    using run_account_op_grants_ok spent_step by (cases p) auto
qed simp

lemma poll_spent:
  assumes "spent (sha (trim code)) s"
  shows "\<exists>e. fst (poll_device_token sha now kid key gt code client s) = Inl e"
proof (cases "List.find (\<lambda>g. dg_hash g = sha (trim code) \<and> dg_client g = trim client) (ds_grants s)")
  case (Some g)
  then have "dg_status g = GrantClaimed"
    using assms find_SomeD [OF Some] by (auto simp: spent_def list_all_iff)
  then show ?thesis
    by (simp add: poll_device_token_def Let_def Some)
qed (simp add: poll_device_token_def Let_def)

text \<open>What a poll that answers a key has found.\<close>

lemma poll_token_cases:
  assumes "poll_device_token sha now kid key gt code client s = (Inr token, s1)"
  obtains g u acc where "g \<in> set (ds_grants s)" "dg_hash g = sha (trim code)" "dg_client g = trim client"
    "dg_status g = GrantApproved" "dg_user g = Some u" "now < dg_expires_at g" "token = key"
    "insert_api_key now kid u (sha key) (claimed_name (dg_key_name g)) None None None (ds_accounts s) = Inr acc"
    "admit_key_mint now u (ac_db (ds_accounts s)) = MintAllowed"
    "s1 = update_grants (\<lambda>x. dg_id x = dg_id g \<and> dg_status x = GrantApproved)
           (\<lambda>x. x\<lparr> dg_status := GrantClaimed, dg_key := Some kid, dg_last_polled := Some now \<rparr>) (s\<lparr> ds_accounts := acc \<rparr>)"
proof -
  obtain g u where g: "List.find (\<lambda>g. dg_hash g = sha (trim code) \<and> dg_client g = trim client) (ds_grants s) = Some g"
      "dg_status g = GrantApproved" "dg_user g = Some u" "\<not> dg_expires_at g \<le> now"
      "claim_grant sha now kid key g u s = (Inr token, s1)"
    using assms
    by (auto simp: poll_device_token_def Let_def split: if_splits option.splits grant_status.splits)
  show thesis
    using g(5) find_SomeD [OF g(1)] g(2-4) that [of g u]
    by (cases rule: claim_grant_cases [of sha now kid key g u s]) auto
qed

text \<open>C25: A device code yields one key: after a poll that answered one, no later poll of that code answers a key,
  whatever runs in between, unless the same code is drawn again for a new grant.\<close>

theorem device_code_claimed_once:
  assumes "grants_ok s" "poll_device_token sha now kid key gt code client s = (Inr token, s1)"
    and "list_all (\<lambda>(_, op). \<not> redraws sha (sha (trim code)) op) ops" "trim code' = trim code"
  shows "\<exists>e. fst (poll_device_token sha now' kid' key' gt' code' client' (run_accounts sha clients cal ops s1)) = Inl e"
proof -
  obtain g u acc where g: "g \<in> set (ds_grants s)" "dg_hash g = sha (trim code)" "dg_status g = GrantApproved"
    and s1: "s1 = update_grants (\<lambda>x. dg_id x = dg_id g \<and> dg_status x = GrantApproved)
           (\<lambda>x. x\<lparr> dg_status := GrantClaimed, dg_key := Some kid, dg_last_polled := Some now \<rparr>) (s\<lparr> ds_accounts := acc \<rparr>)"
    by (rule poll_token_cases [OF assms(2)])
  have "x = g" if "x \<in> set (ds_grants s)" "dg_hash x = sha (trim code)" for x
    using that g assms(1) unfolding grants_ok_def distinct_map by (metis inj_onD)
  then have "spent (sha (trim code)) s1"
    using g(3) unfolding spent_def list_all_iff s1
    by (auto simp: update_grants_def elim!: update_whereE split: if_splits)
  moreover have "grants_ok s1"
    using poll_ok [OF assms(1), of sha now kid key gt code client] assms(2) by simp
  ultimately have "spent (sha (trim code')) (run_accounts sha clients cal ops s1)"
    using spent_run assms(3,4) by simp
  then show ?thesis
    by (rule poll_spent)
qed

text \<open>C28: A poll answers a key only for a grant that a customer approved and that has not expired, and then the key
  belongs to that customer, who is not frozen and within the minting limits: exactly one row is added to the key
  table, with the digest of the answered key, and no balance, ledger entry or other key changes.\<close>

theorem device_key_belongs_to_approver:
  assumes "poll_device_token sha now kid key gt code client s = (Inr token, s1)"
  shows "\<exists>g u k x. g \<in> set (ds_grants s) \<and> dg_hash g = sha (trim code) \<and> dg_client g = trim client \<and>
    dg_status g = GrantApproved \<and> dg_user g = Some u \<and> now < dg_expires_at g \<and> token = key \<and>
    admit_key_mint now u (ac_db (ds_accounts s)) = MintAllowed \<and> k_user k = u \<and> ki_hash x = sha key \<and>
    k_id k = kid \<and> ki_id x = kid \<and>
    ds_accounts s1 = (ds_accounts s)\<lparr>
      ac_db := (ac_db (ds_accounts s))\<lparr> api_keys := api_keys (ac_db (ds_accounts s)) @ [k] \<rparr>,
      ac_keys := ac_keys (ds_accounts s) @ [x] \<rparr>"
proof (rule poll_token_cases [OF assms])
  fix g u acc
  assume g: "g \<in> set (ds_grants s)" "dg_hash g = sha (trim code)" "dg_client g = trim client"
    "dg_status g = GrantApproved" "dg_user g = Some u" "now < dg_expires_at g" "token = key"
    "admit_key_mint now u (ac_db (ds_accounts s)) = MintAllowed"
    and ins: "insert_api_key now kid u (sha key) (claimed_name (dg_key_name g)) None None None (ds_accounts s) = Inr acc"
    and s1: "s1 = update_grants (\<lambda>x. dg_id x = dg_id g \<and> dg_status x = GrantApproved)
           (\<lambda>x. x\<lparr> dg_status := GrantClaimed, dg_key := Some kid, dg_last_polled := Some now \<rparr>) (s\<lparr> ds_accounts := acc \<rparr>)"
  show ?thesis
    using g ins
    by (intro exI [of _ g] exI [of _ u] exI [of _ "new_api_key now kid u None None None"]
        exI [of _ "new_key_info kid (sha key) (claimed_name (dg_key_name g))"])
      (simp add: s1 update_grants_def insert_api_key_Inr)
qed

section \<open>User codes\<close>

abbreviation code_chars :: "string \<Rightarrow> bool" where
  "code_chars s \<equiv> list_all (\<lambda>c. c \<in> set USER_CODE_ALPHABET) s"

definition code_shaped :: "string \<Rightarrow> bool" where
  "code_shaped s \<longleftrightarrow> (\<exists>a b. s = a @ ''-'' @ b \<and> length a = 4 \<and> length b = 4 \<and> code_chars a \<and> code_chars b)"

definition code_begun :: "string \<Rightarrow> bool" where
  "code_begun s \<longleftrightarrow> length s \<le> 4 \<and> code_chars s \<or>
     (\<exists>a b. s = a @ ''-'' @ b \<and> length a = 4 \<and> length b \<le> 4 \<and> code_chars a \<and> code_chars b)"

lemma alphabet_nth: "USER_CODE_ALPHABET ! (n mod length USER_CODE_ALPHABET) \<in> set USER_CODE_ALPHABET"
  by (rule nth_mem) (simp add: USER_CODE_ALPHABET_def)

lemma code_begun_dash: "code_begun s \<Longrightarrow> length s = 4 \<Longrightarrow> code_begun (s @ ''-'')"
  unfolding code_begun_def by (rule disjI2, rule exI [of _ s], rule exI [of _ "[]"]) auto

lemma code_begun_char:
  assumes "code_begun s" "length s < 9" "length s \<noteq> 4" "c \<in> set USER_CODE_ALPHABET"
  shows "code_begun (s @ [c])"
proof (cases "length s \<le> 4 \<and> code_chars s")
  case True
  then show ?thesis
    using assms by (simp add: code_begun_def)
next
  case False
  then obtain a b where "s = a @ ''-'' @ b" "length a = 4" "length b \<le> 4" "code_chars a" "code_chars b"
    using assms(1) by (auto simp: code_begun_def)
  then show ?thesis
    using assms(2,4) unfolding code_begun_def by (intro disjI2 exI [of _ a] exI [of _ "b @ [c]"]) simp
qed

lemma user_code_from_shaped: "user_code_from s bytes = Some out \<Longrightarrow> code_begun s \<Longrightarrow> code_shaped out"
proof (induction s bytes rule: user_code_from.induct)
  case (1 s bytes)
  note u = user_code_from.simps [of s bytes]
  consider "9 \<le> length s" | "length s = 4" | "length s < 9" "length s \<noteq> 4"
    by linarith
  then show ?case
  proof cases
    case 1
    then have "out = s"
      using "1.prems"(1) u by (simp add: USER_CODE_CHARS_def)
    moreover obtain a b where "s = a @ ''-'' @ b" "length a = 4" "length b \<le> 4" "code_chars a" "code_chars b"
      using "1.prems"(2) 1 by (auto simp: code_begun_def)
    ultimately show ?thesis
      unfolding code_shaped_def using 1 by (intro exI [of _ a] exI [of _ b]) simp
  next
    case 2
    then show ?thesis
      using "1.IH"(1) "1.prems" u code_begun_dash by (simp add: USER_CODE_CHARS_def USER_CODE_GROUP_def)
  next
    case 3
    note long = 3
    show ?thesis
    proof (cases bytes)
      case Nil
      then show ?thesis
        using "1.prems"(1) u long by (simp add: USER_CODE_CHARS_def USER_CODE_GROUP_def)
    next
      case (Cons b bs)
      then show ?thesis
        using "1.IH"(2,3) [OF _ _ Cons] "1.prems" u long code_begun_char alphabet_nth
        by (simp add: USER_CODE_CHARS_def USER_CODE_GROUP_def split: if_splits)
    qed
  qed
qed

lemma alphabet_upper: "c \<in> set USER_CODE_ALPHABET \<Longrightarrow> ascii_upper c = c \<and> c \<noteq> CHR ''-'' \<and> c \<noteq> CHR '' '' \<and> plain_char c"
  by (auto simp: USER_CODE_ALPHABET_def ascii_upper_def plain_char_def)

abbreviation typed :: "string \<Rightarrow> string" where
  "typed s \<equiv> List.filter (\<lambda>c. c \<noteq> CHR ''-'' \<and> c \<noteq> CHR '' '') s"

lemma typed_chars: "code_chars s \<Longrightarrow> typed s = s \<and> List.map ascii_upper s = s \<and> list_all plain_char s"
  using alphabet_upper by (induction s) auto

lemma normalize_typed:
  assumes "code_shaped code" "List.map ascii_upper (typed (trim raw)) = typed code"
  shows "normalize_user_code raw = Some code"
proof -
  obtain a b where code: "code = a @ ''-'' @ b" "length a = 4" "length b = 4" "code_chars a" "code_chars b"
    using assms(1) by (auto simp: code_shaped_def)
  then have t: "typed code = a @ b"
    using typed_chars by simp
  show ?thesis
    unfolding normalize_user_code_def Let_def assms(2) t
    using code by (simp add: USER_CODE_CHARS_def USER_CODE_GROUP_def)
qed

lemma shaped_fixed:
  assumes "code_shaped code"
  shows "normalize_user_code code = Some code"
proof (rule normalize_typed [OF assms])
  obtain a b where code: "code = a @ ''-'' @ b" "code_chars a" "code_chars b"
    using assms by (auto simp: code_shaped_def)
  then have "list_all plain_char code"
    using typed_chars by (simp add: plain_char_def)
  then show "List.map ascii_upper (typed (trim code)) = typed code"
    using code typed_chars by (simp add: trim_plain)
qed

lemma normalize_shaped: "normalize_user_code raw = Some code \<Longrightarrow> code_shaped code"
proof -
  define cleaned where "cleaned = List.map ascii_upper (typed (trim raw))"
  assume "normalize_user_code raw = Some code"
  then have "length cleaned = 8" "code_chars cleaned" "code = take 4 cleaned @ ''-'' @ drop 4 cleaned"
    by (auto simp: normalize_user_code_def Let_def cleaned_def USER_CODE_CHARS_def USER_CODE_GROUP_def split: if_splits)
  then show ?thesis
    unfolding code_shaped_def
    by (intro exI [of _ "take 4 cleaned"] exI [of _ "drop 4 cleaned"]) (auto simp: list_all_iff dest: in_set_takeD in_set_dropD)
qed

text \<open>A drawn user code is found however it is typed: in either case, with its dash, without it or with blanks
  instead, and with white space around it; and a normalised code is a fixed point, so what is stored and what
  is looked up agree.\<close>

theorem user_code_survives_typing:
  assumes "generate_user_code bytes = Some code" "List.map ascii_upper (typed (trim raw)) = typed code"
    and "normalize_user_code other = Some stored"
  shows "normalize_user_code raw = Some code \<and> normalize_user_code stored = Some stored"
proof -
  have "code_shaped code"
    using assms(1) user_code_from_shaped by (auto simp: generate_user_code_def code_begun_def)
  then show ?thesis
    using normalize_typed assms(2) shaped_fixed [OF normalize_shaped [OF assms(3)]] by simp
qed

section \<open>Witnesses\<close>

definition demo_sha :: "string \<Rightarrow> string" where
  "demo_sha t = replicate 64 (if starts_with DEVICE_CODE_PREFIX t then CHR ''c'' else CHR ''d'')"

definition demo_device_code :: string where
  "demo_device_code = DEVICE_CODE_PREFIX @ replicate 64 (CHR ''0'')"

definition demo_grant :: device_grant where
  "demo_grant = \<lparr> dg_id = 3, dg_hash = replicate 64 (CHR ''c''), dg_user_code = ''BCDF-GHJK'', dg_client = ''zeroclaw'',
     dg_status = GrantApproved, dg_user = Some 1, dg_key = None, dg_key_name = None, dg_created_at = 100,
     dg_expires_at = 1000, dg_last_polled = None, dg_interval = 5 \<rparr>"

definition demo_device :: device_state where
  "demo_device = \<lparr> ds_accounts = demo_accounts, ds_grants = [demo_grant] \<rparr>"

lemma demo_device_ok: "grants_ok demo_device"
  by (simp add: grants_ok_def demo_device_def demo_grant_def device_grant_checks_def is_hex_def blank_def list_all_iff)

lemma demo_sound: "sound_at 200 demo_device"
  using demo_accounts_ok
  by (simp add: sound_at_def within_limits_def live_keys_def recent_keys_def demo_device_def demo_accounts_def demo_db_def
      MAX_ACTIVE_KEYS_PER_USER_def MAX_KEYS_CREATED_PER_WINDOW_def)

lemma trim_device: "trim demo_device_code = demo_device_code" "trim ''zeroclaw'' = ''zeroclaw''"
  by (simp_all add: trim_plain demo_device_code_def DEVICE_CODE_PREFIX_def plain_char_def list_all_iff)

lemma demo_poll:
  "\<exists>s1. poll_device_token demo_sha 200 9 ''zcr_new'' DEVICE_CODE_GRANT_TYPE demo_device_code ''zeroclaw'' demo_device =
     (Inr ''zcr_new'', s1)"
proof -
  have shape: "valid_device_code_shape demo_device_code"
    by (simp add: valid_device_code_shape_def demo_device_code_def DEVICE_CODE_PREFIX_def DEVICE_CODE_BYTES_def
        starts_with_def is_ascii_hexdigit_def list_all_iff)
  have sha: "demo_sha demo_device_code = replicate 64 (CHR ''c'')" "demo_sha ''zcr_new'' = replicate 64 (CHR ''d'')"
    by (simp_all add: demo_sha_def demo_device_code_def starts_with_def DEVICE_CODE_PREFIX_def)
  show ?thesis
    by (simp add: poll_device_token_def Let_def trim_device shape sha demo_device_def demo_grant_def claim_grant_def
        demo_accounts_def demo_db_def demo_user_def demo_key_def demo_key_info_def admit_key_mint_def insert_api_key_def
        new_api_key_def new_key_info_def claimed_name_def DEFAULT_KEY_NAME_def storable_def api_key_checks_def
        key_info_checks_def is_hex_def blank_def list_all_iff MAX_ACTIVE_KEYS_PER_USER_def
        MAX_KEYS_CREATED_PER_WINDOW_def KEY_CREATION_WINDOW_HOURS_def)
qed

lemma self_service_mints_bounded_witness:
  "live_keys 1 (ds_accounts (run_accounts demo_sha [] demo_cal
     [(200, OpPoll 9 ''zcr_new'' DEVICE_CODE_GRANT_TYPE demo_device_code ''zeroclaw''),
      (300, OpPlayground 1 10 ''zcr_other'')] demo_device)) \<le> 20"
  using self_service_mints_bounded [OF demo_sound, of
      "[(200, OpPoll 9 ''zcr_new'' DEVICE_CODE_GRANT_TYPE demo_device_code ''zeroclaw''), (300, OpPlayground 1 10 ''zcr_other'')]"
      300 1 demo_sha "[]" demo_cal]
  by (simp del: run_accounts_Cons)

lemma grants_follow_machine_witness:
  "grants_ok (run_account_op demo_sha [] demo_cal 200 (OpDeny ''bcdf ghjk'') demo_device) \<and>
   (\<exists>moved. ds_grants (run_account_op demo_sha [] demo_cal 200 (OpDeny ''bcdf ghjk'') demo_device) = moved \<and>
      list_all2 grant_moved (ds_grants demo_device) moved)"
proof -
  have "\<not> drawn_row demo_sha (OpDeny ''bcdf ghjk'') g" for g
    by (simp add: drawn_row_def)
  then have none: "new = []" if "list_all (drawn_row demo_sha (OpDeny ''bcdf ghjk'')) new" for new
    using that by (cases new) simp_all
  show ?thesis
    using grants_follow_machine [OF demo_device_ok, of demo_sha "[]" demo_cal 200 "OpDeny ''bcdf ghjk''"] none
    by (fastforce simp: lapsed_row_def)
qed

lemma device_code_claimed_once_witness:
  "\<exists>s1 e. poll_device_token demo_sha 200 9 ''zcr_new'' DEVICE_CODE_GRANT_TYPE demo_device_code ''zeroclaw'' demo_device =
       (Inr ''zcr_new'', s1) \<and>
     fst (poll_device_token demo_sha 260 11 ''zcr_more'' DEVICE_CODE_GRANT_TYPE demo_device_code ''zeroclaw''
       (run_accounts demo_sha [] demo_cal [(250, OpDisable 1 9)] s1)) = Inl e"
proof -
  obtain s1 where p: "poll_device_token demo_sha 200 9 ''zcr_new'' DEVICE_CODE_GRANT_TYPE demo_device_code ''zeroclaw'' demo_device =
      (Inr ''zcr_new'', s1)"
    using demo_poll by blast
  show ?thesis
    using device_code_claimed_once [OF demo_device_ok p, of "[(250, OpDisable 1 9)]" demo_device_code 260 11 "''zcr_more''"
        DEVICE_CODE_GRANT_TYPE "''zeroclaw''" "[]" demo_cal] p
    by (auto simp: redraws_def)
qed

lemma device_key_belongs_to_approver_witness:
  "\<exists>s1. poll_device_token demo_sha 200 9 ''zcr_new'' DEVICE_CODE_GRANT_TYPE demo_device_code ''zeroclaw'' demo_device =
       (Inr ''zcr_new'', s1) \<and> (\<exists>k. api_keys (ac_db (ds_accounts s1)) = [demo_key, k] \<and> k_user k = 1 \<and> k_id k = 9)"
proof -
  obtain s1 where p: "poll_device_token demo_sha 200 9 ''zcr_new'' DEVICE_CODE_GRANT_TYPE demo_device_code ''zeroclaw'' demo_device =
      (Inr ''zcr_new'', s1)"
    using demo_poll by blast
  then show ?thesis
    using device_key_belongs_to_approver [OF p]
    by (auto simp: demo_device_def demo_grant_def demo_accounts_def demo_db_def)
qed

lemma user_code_survives_typing_witness:
  "\<exists>code. generate_user_code [0, 1, 255, 2, 3, 4, 5, 6, 7] = Some code \<and> normalize_user_code ''bcdf ghjk'' = Some code"
proof -
  have g: "generate_user_code [0, 1, 255, 2, 3, 4, 5, 6, 7] = Some ''BCDF-GHJK''"
    by (simp add: generate_user_code_def user_code_from.simps USER_CODE_CHARS_def USER_CODE_GROUP_def USER_CODE_ALPHABET_def
        largest_fair_multiple_def)
  have t: "List.map ascii_upper (typed (trim ''bcdf ghjk'')) = typed ''BCDF-GHJK''"
    by (simp add: trim_eval) code_simp
  have o: "normalize_user_code ''MPQR2345'' = Some ''MPQR-2345''"
    unfolding normalize_user_code_def
    by (subst trim_plain) (code_simp, code_simp)
  show ?thesis
    using user_code_survives_typing [OF g t o] g by blast
qed

end
