(* ===== verification/Framing.thy ===== *)
theory Framing
  imports StreamWalk "HOL-Library.Word"
begin

text \<open>
  How the bytes an upstream streams become messages: \<^verbatim>\<open>drain_sse_payloads\<close> of
  \<^verbatim>\<open>wire/mod.rs\<close> with the UTF-8 decoding it relies on, and the frames of
  \<^verbatim>\<open>wire/eventstream.rs\<close>.  Bytes are the characters of a string.  The checksum is the
  \<^verbatim>\<open>crc\<close> package's and a parameter.  Both decoders are shown to read a stream the same way
  however the network cuts it, as long as no piece is refused, and to hold a bounded rest.
\<close>

section \<open>UTF-8\<close>

text \<open>
  The length of the well-formed sequence at the head of some bytes, 0 when there is none, and how many
  bytes \<^verbatim>\<open>std::str::from_utf8\<close> accepts.
\<close>

definition utf8_width :: "nat \<Rightarrow> nat" where
  "utf8_width b =
     (if b < 128 then 1 else if 194 \<le> b \<and> b \<le> 223 then 2 else if 224 \<le> b \<and> b \<le> 239 then 3
      else if 240 \<le> b \<and> b \<le> 244 then 4 else 0)"

definition second_range :: "nat \<Rightarrow> nat \<times> nat" where
  "second_range b =
     (if b = 224 then (160, 191) else if b = 237 then (128, 159)
      else if b = 240 then (144, 191) else if b = 244 then (128, 143) else (128, 191))"

definition utf8_follows :: "nat \<Rightarrow> string \<Rightarrow> bool" where
  "utf8_follows b t \<longleftrightarrow>
     (case t of
        [] \<Rightarrow> True
      | c # cs \<Rightarrow> fst (second_range b) \<le> of_char c \<and> of_char c \<le> snd (second_range b) \<and> list_all is_continuation cs)"

fun utf8_head :: "string \<Rightarrow> nat" where
  "utf8_head [] = 0"
| "utf8_head (c # s) =
     (let b = of_char c; n = utf8_width b
      in if n - 1 \<le> length s \<and> utf8_follows b (take (n - 1) s) then n else 0)"

lemma utf8_head_le: "utf8_head s \<le> length s"
  by (cases s) (auto simp: Let_def)

function valid_up_to :: "string \<Rightarrow> nat" where
  "valid_up_to s = (if utf8_head s = 0 then 0 else utf8_head s + valid_up_to (drop (utf8_head s) s))"
  by pat_completeness auto
termination
proof (relation "measure length", goal_cases)
  case (2 s)
  then show ?case
    using utf8_head_le [of s] by (cases s) simp_all
qed simp

declare valid_up_to.simps [simp del]

definition is_utf8 :: "string \<Rightarrow> bool" where
  "is_utf8 s \<longleftrightarrow> valid_up_to s = length s"

lemma valid_up_to_le: "valid_up_to s \<le> length s"
proof (induction s rule: valid_up_to.induct)
  case (1 s)
  then show ?case
    using utf8_head_le [of s] by (subst valid_up_to.simps) (auto simp: le_diff_conv)
qed

lemma utf8_head_append: "utf8_head s \<noteq> 0 \<Longrightarrow> utf8_head (s @ t) = utf8_head s"
  by (cases s) (auto simp: Let_def split: if_splits)

text \<open>More bytes never take back what was accepted.\<close>

lemma valid_up_to_append:
  "valid_up_to (s @ t) = valid_up_to s + valid_up_to (drop (valid_up_to s) s @ t)"
proof (induction s rule: valid_up_to.induct)
  case (1 s)
  show ?case
  proof (cases "utf8_head s = 0")
    case True
    then show ?thesis
      by (subst (2) valid_up_to.simps, subst (3) valid_up_to.simps) simp
  next
    case False
    let ?k = "utf8_head s"
    have v: "valid_up_to s = ?k + valid_up_to (drop ?k s)"
      using False by (subst valid_up_to.simps) simp
    have "valid_up_to (s @ t) = ?k + valid_up_to (drop ?k s @ t)"
      using False utf8_head_le [of s] by (subst valid_up_to.simps) (simp add: utf8_head_append)
    then show ?thesis
      using 1 [OF False] v by (simp add: add.commute)
  qed
qed

lemma valid_up_to_stops: "utf8_head (drop (valid_up_to s) s) = 0"
proof (induction s rule: valid_up_to.induct)
  case (1 s)
  then show ?case
    by (cases "utf8_head s = 0") (subst valid_up_to.simps, simp add: add.commute)+
qed

section \<open>Server-sent events\<close>

datatype stream_error =
    StreamHttp string
  | StreamJson string
  | StreamInvalidSse string
  | StreamModelProvider string

fun stream_error_text :: "stream_error \<Rightarrow> string" where
  "stream_error_text (StreamHttp t) = ''HTTP error: '' @ t"
| "stream_error_text (StreamJson t) = ''JSON parse error: '' @ t"
| "stream_error_text (StreamInvalidSse t) = ''Invalid SSE format: '' @ t"
| "stream_error_text (StreamModelProvider t) = ''ModelProvider error: '' @ t"

definition MAX_SSE_EVENT_BYTES :: nat where
  "MAX_SSE_EVENT_BYTES = 4 * 1024 * 1024"

definition newline_char :: char where
  "newline_char = CHR 0x0A"

definition return_char :: char where
  "return_char = CHR 0x0D"

definition LF_LF :: string where
  "LF_LF = [newline_char, newline_char]"

definition CRLF_CRLF :: string where
  "CRLF_CRLF = [return_char, newline_char, return_char, newline_char]"

definition find_event_boundary :: "string \<Rightarrow> (nat \<times> nat) option" where
  "find_event_boundary buffer =
     (let lf = map_option (\<lambda>i. (i, 2)) (find_str LF_LF buffer);
          crlf = map_option (\<lambda>i. (i, 4)) (find_str CRLF_CRLF buffer)
      in case (lf, crlf) of
           (Some l, Some r) \<Rightarrow> if fst r + 2 = fst l then crlf else if fst r < fst l then crlf else lf
         | (only, None) \<Rightarrow> only
         | (None, only) \<Rightarrow> only)"

text \<open>
  The lines of an event, without the carriage return that \<^verbatim>\<open>str::lines\<close> removes with a line feed;
  the event's data are its \<^verbatim>\<open>data:\<close> lines.
\<close>

definition strip_return :: "string \<Rightarrow> string" where
  "strip_return l = (if l \<noteq> [] \<and> last l = return_char then butlast l else l)"

definition str_lines :: "string \<Rightarrow> string list" where
  "str_lines s =
     (let ls = split_on (\<lambda>c. c = newline_char) s
      in List.map strip_return (butlast ls) @ (if last ls = [] then [] else [last ls]))"

definition DATA_PREFIX :: string where
  "DATA_PREFIX = ''data:''"

definition event_data :: "string \<Rightarrow> string" where
  "event_data raw =
     join [newline_char]
       (List.map (\<lambda>l. trim_start (drop (length DATA_PREFIX) l))
         (List.filter (starts_with DATA_PREFIX) (List.map strip_return (str_lines raw))))"

record sse_state =
  ss_raw :: string
  ss_buffer :: string

definition sse_empty :: sse_state where
  "sse_empty = \<lparr> ss_raw = [], ss_buffer = [] \<rparr>"

lemma find_event_boundary_le:
  assumes "find_event_boundary buffer = Some (i, n)"
  shows "i + n \<le> length buffer \<and> 0 < n"
proof -
  have "i + n \<le> length buffer \<and> 0 < n"
    if "find_str LF_LF buffer = Some i \<and> n = 2 \<or> find_str CRLF_CRLF buffer = Some i \<and> n = 4"
    using that find_str_SomeD [of LF_LF buffer i] find_str_SomeD [of CRLF_CRLF buffer i]
    by (auto simp: LF_LF_def CRLF_CRLF_def)
  then show ?thesis
    using assms by (auto simp: find_event_boundary_def Let_def split: option.splits if_splits)
qed

function drain_events :: "string \<Rightarrow> string list \<times> string" where
  "drain_events buffer =
     (case find_event_boundary buffer of
        None \<Rightarrow> ([], buffer)
      | Some (boundary, n) \<Rightarrow>
          (let data = event_data (take boundary buffer); rest = drain_events (drop (boundary + n) buffer)
           in (if data = [] then fst rest else data # fst rest, snd rest)))"
  by pat_completeness auto
termination
proof (relation "measure length", goal_cases)
  case (2 buffer p boundary n)
  then show ?case
    using find_event_boundary_le [of buffer boundary n] by (cases buffer) auto
qed simp

declare drain_events.simps [simp del]

definition drain_sse_payloads :: "string \<Rightarrow> sse_state \<Rightarrow> (stream_error, string list) result \<times> sse_state" where
  "drain_sse_payloads chunk st =
     (let raw = ss_raw st @ chunk; n = valid_up_to raw;
          (payloads, rest) = drain_events (ss_buffer st @ take n raw);
          st' = \<lparr> ss_raw = drop n raw, ss_buffer = rest \<rparr>
      in if MAX_SSE_EVENT_BYTES < length (ss_buffer st') + length (ss_raw st')
         then (Inl (StreamInvalidSse (''upstream SSE event exceeded '' @ show_nat MAX_SSE_EVENT_BYTES @
                 '' bytes without terminating'')), st')
         else (Inr payloads, st'))"

text \<open>
  One call after another, as the wires make them while the socket yields pieces: what the calls returned
  to the caller, the error that ended them, and what the buffers keep.
\<close>

fun drain_chunks :: "string list \<Rightarrow> sse_state \<Rightarrow> string list \<times> stream_error option \<times> sse_state" where
  "drain_chunks [] st = ([], None, st)"
| "drain_chunks (c # cs) st =
     (case drain_sse_payloads c st of
        (Inl e, st1) \<Rightarrow> ([], Some e, st1)
      | (Inr ps, st1) \<Rightarrow> (let (qs, e, st2) = drain_chunks cs st1 in (ps @ qs, e, st2)))"

section \<open>However the network cuts a stream of events\<close>

lemma find_str_append: "find_str p s = Some i \<Longrightarrow> find_str p (s @ t) = Some i"
proof (induction s arbitrary: i)
  case Nil
  then show ?case
    by (cases t) (auto split: if_splits)
next
  case (Cons c s)
  show ?case
  proof (cases "prefix p (c # s)")
    case True
    then show ?thesis
      using Cons.prems prefix_prefix [of p "c # s" t] by simp
  next
    case False
    then obtain j where j: "find_str p s = Some j" "i = Suc j"
      using Cons.prems by auto
    then have "length p \<le> length (c # s)"
      using find_str_SomeD by fastforce
    then have "\<not> prefix p (c # s @ t)"
      using False prefix_length_prefix [of p "c # s @ t" "c # s"] by auto
    then show ?thesis
      using Cons.IH [OF j(1)] j(2) by simp
  qed
qed

lemma find_str_late:
  assumes "find_str p s = None" "find_str p (s @ t) = Some j"
  shows "length s < j + length p"
proof (rule ccontr)
  assume "\<not> length s < j + length p"
  then have le: "j + length p \<le> length s"
    by simp
  obtain a b where e: "s @ t = a @ p @ b" and a: "length a = j"
    using find_str_SomeD [OF assms(2)] by (metis add_leD1 length_take min.absorb2)
  have "s = take (length s) (a @ p @ b)"
    by (metis append_eq_conv_conj e)
  also have "\<dots> = a @ p @ take (length s - (j + length p)) b"
    using le a by simp
  finally have "sublist p s"
    by (metis sublist_appendI)
  then show False
    using assms(1) find_str_None_iff by blast
qed

text \<open>A found text stands at its place.\<close>

lemma find_str_nth:
  assumes "find_str p s = Some i" "k < length p"
  shows "s ! (i + k) = p ! k"
proof -
  have e: "s = take i s @ p @ drop (i + length p) s" "i + length p \<le> length s"
    using find_str_SomeD [OF assms(1)] by blast+
  then have "s ! (i + k) = (take i s @ p @ drop (i + length p) s) ! (i + k)"
    by metis
  then show ?thesis
    using e(2) assms(2) by (simp add: nth_append)
qed

lemma boundary_apart:
  assumes "find_str LF_LF s = Some i" "find_str CRLF_CRLF s = Some j"
  shows "j \<noteq> i" "j + 1 \<noteq> i" "j + 2 \<noteq> i" "i + 1 \<noteq> j"
proof -
  have l: "s ! i = newline_char" "s ! (i + 1) = newline_char"
    using find_str_nth [OF assms(1), of 0] find_str_nth [OF assms(1), of 1] by (auto simp: LF_LF_def)
  have r: "s ! j = return_char" "s ! (j + 1) = newline_char" "s ! (j + 2) = return_char"
    using find_str_nth [OF assms(2), of 0] find_str_nth [OF assms(2), of 1] find_str_nth [OF assms(2), of 2]
    by (auto simp: CRLF_CRLF_def numeral_2_eq_2)
  have ne: "newline_char \<noteq> return_char"
    by (simp add: newline_char_def return_char_def)
  show "j \<noteq> i" "i + 1 \<noteq> j"
    using l r ne by auto
  show "j + 1 \<noteq> i"
  proof
    assume "j + 1 = i"
    then have "i + 1 = j + 2"
      by simp
    then show False
      using l(2) r(3) ne by simp
  qed
  show "j + 2 \<noteq> i"
    using l(1) r(3) ne by auto
qed

lemma boundary_append:
  assumes "find_event_boundary s = Some x"
  shows "find_event_boundary (s @ t) = Some x"
proof -
  consider (both) i j where "find_str LF_LF s = Some i" "find_str CRLF_CRLF s = Some j"
    | (lf) i where "find_str LF_LF s = Some i" "find_str CRLF_CRLF s = None"
    | (crlf) j where "find_str LF_LF s = None" "find_str CRLF_CRLF s = Some j"
    using assms by (fastforce simp: find_event_boundary_def split: option.splits)
  then show ?thesis
  proof cases
    case both
    then show ?thesis
      using assms by (simp add: find_event_boundary_def find_str_append)
  next
    case lf
    show ?thesis
    proof (cases "find_str CRLF_CRLF (s @ t)")
      case None
      then show ?thesis
        using lf assms by (simp add: find_event_boundary_def find_str_append)
    next
      case (Some j)
      have "length s < j + 4"
        using find_str_late [OF lf(2) Some] by (simp add: CRLF_CRLF_def)
      moreover have "i + 2 \<le> length s"
        using find_str_SomeD [OF lf(1)] by (simp add: LF_LF_def)
      moreover have "j \<noteq> i" "j + 1 \<noteq> i"
        using boundary_apart [OF find_str_append [OF lf(1)] Some] by auto
      ultimately have "i < j"
        by linarith
      then show ?thesis
        using lf Some assms by (auto simp: find_event_boundary_def find_str_append Let_def)
    qed
  next
    case crlf
    show ?thesis
    proof (cases "find_str LF_LF (s @ t)")
      case None
      then show ?thesis
        using crlf assms by (simp add: find_event_boundary_def find_str_append)
    next
      case (Some i)
      have "length s < i + 2"
        using find_str_late [OF crlf(1) Some] by (simp add: LF_LF_def)
      moreover have "j + 4 \<le> length s"
        using find_str_SomeD [OF crlf(2)] by (simp add: CRLF_CRLF_def)
      ultimately have "j < i"
        by linarith
      then show ?thesis
        using crlf Some assms by (auto simp: find_event_boundary_def find_str_append Let_def)
    qed
  qed
qed

lemma take_drop_through:
  "n \<le> length u \<Longrightarrow> take (n + m) (u @ d) = take n u @ take m (drop n u @ d) \<and> drop (n + m) (u @ d) = drop m (drop n u @ d)"
  using take_add [of n m "u @ d"] drop_drop [of m n "u @ d"] by (simp add: add.commute)

text \<open>What is left after draining holds no whole event.\<close>

lemma drain_events_rest: "find_event_boundary (snd (drain_events s)) = None"
proof (induction s rule: drain_events.induct)
  case (1 s)
  then show ?case
    by (subst drain_events.simps) (auto simp: Let_def split: option.splits)
qed

lemma drain_events_append:
  "drain_events (s @ t) =
     (fst (drain_events s) @ fst (drain_events (snd (drain_events s) @ t)), snd (drain_events (snd (drain_events s) @ t)))"
proof (induction s rule: drain_events.induct)
  case (1 s)
  show ?case
  proof (cases "find_event_boundary s")
    case None
    then have "drain_events s = ([], s)"
      by (subst drain_events.simps) simp
    then show ?thesis
      by simp
  next
    case (Some x)
    obtain b n where x: "x = (b, n)"
      by fastforce
    have le: "b + n \<le> length s"
      using find_event_boundary_le Some x by blast
    define rest where "rest = drop (b + n) s"
    have d: "drain_events s =
        (if event_data (take b s) = [] then fst (drain_events rest) else event_data (take b s) # fst (drain_events rest),
         snd (drain_events rest))"
      using Some x by (subst drain_events.simps) (simp add: Let_def rest_def)
    have "drain_events (s @ t) =
        (if event_data (take b s) = [] then fst (drain_events (rest @ t)) else event_data (take b s) # fst (drain_events (rest @ t)),
         snd (drain_events (rest @ t)))"
      using boundary_append [OF Some, of t] x le by (subst drain_events.simps) (simp add: Let_def rest_def)
    moreover have "drain_events (rest @ t) =
        (fst (drain_events rest) @ fst (drain_events (snd (drain_events rest) @ t)),
         snd (drain_events (snd (drain_events rest) @ t)))"
      using 1 Some x by (simp add: rest_def)
    ultimately show ?thesis
      using d by simp
  qed
qed

lemma drain_twice:
  assumes "drain_sse_payloads c st = (Inr ps, st1)" "drain_sse_payloads d st1 = (Inr qs, st2)"
  shows "drain_sse_payloads (c @ d) st = (Inr (ps @ qs), st2)"
proof -
  define n where "n = valid_up_to (ss_raw st @ c)"
  define r where "r = drop n (ss_raw st @ c)"
  define m where "m = valid_up_to (r @ d)"
  define b where "b = ss_buffer st @ take n (ss_raw st @ c)"
  have nle: "n \<le> length (ss_raw st @ c)"
    by (simp only: n_def valid_up_to_le)
  have one: "ps = fst (drain_events b)" "st1 = \<lparr> ss_raw = r, ss_buffer = snd (drain_events b) \<rparr>"
    using assms(1) by (auto simp: drain_sse_payloads_def Let_def n_def r_def b_def split: prod.splits if_splits)
  have two: "qs = fst (drain_events (snd (drain_events b) @ take m (r @ d)))"
      "st2 = \<lparr> ss_raw = drop m (r @ d), ss_buffer = snd (drain_events (snd (drain_events b) @ take m (r @ d))) \<rparr>"
      "length (ss_buffer st2) + length (ss_raw st2) \<le> MAX_SSE_EVENT_BYTES"
    using assms(2) by (auto simp: drain_sse_payloads_def Let_def one m_def split: prod.splits if_splits)
  have v: "valid_up_to (ss_raw st @ c @ d) = n + m"
    using valid_up_to_append [of "ss_raw st @ c" d] by (simp add: n_def m_def r_def)
  have t: "take (n + m) (ss_raw st @ c @ d) = take n (ss_raw st @ c) @ take m (r @ d)"
    "drop (n + m) (ss_raw st @ c @ d) = drop m (r @ d)"
    using take_drop_through [OF nle, of m d] by (simp_all add: r_def)
  have e: "ss_buffer st @ take (n + m) (ss_raw st @ c @ d) = b @ take m (r @ d)"
    by (simp only: t b_def append_assoc)
  have d: "drain_events (b @ take m (r @ d)) = (ps @ qs, ss_buffer st2)"
    using drain_events_append [of b "take m (r @ d)"] one(1) two(1,2) by simp
  have st2: "\<lparr> ss_raw = drop m (r @ d), ss_buffer = ss_buffer st2 \<rparr> = st2"
    using two(2) by simp
  show ?thesis
    using two(3) unfolding drain_sse_payloads_def Let_def v e d t(2) prod.case st2 by simp
qed

lemma drain_rest:
  assumes "drain_sse_payloads c st = (Inr ps, st')"
  shows "length (ss_buffer st') + length (ss_raw st') \<le> MAX_SSE_EVENT_BYTES \<and>
      find_event_boundary (ss_buffer st') = None \<and> utf8_head (ss_raw st') = 0"
proof -
  have e: "ss_raw st' = drop (valid_up_to (ss_raw st @ c)) (ss_raw st @ c)"
      "ss_buffer st' = snd (drain_events (ss_buffer st @ take (valid_up_to (ss_raw st @ c)) (ss_raw st @ c)))"
    and le: "length (ss_buffer st') + length (ss_raw st') \<le> MAX_SSE_EVENT_BYTES"
    using assms by (auto simp: drain_sse_payloads_def Let_def split: prod.splits if_splits)
  then show ?thesis
    using valid_up_to_stops [of "ss_raw st @ c"] drain_events_rest le by metis
qed

lemma sse_chunking_same:
  assumes "drain_chunks (c # cs) st = (ps, None, st')"
  shows "drain_sse_payloads (concat (c # cs)) st = (Inr ps, st')"
  using assms
proof (induction cs arbitrary: c ps)
  case Nil
  then show ?case
    by (auto split: prod.splits sum.splits)
next
  case (Cons d cs)
  obtain qs st1 where one: "drain_sse_payloads c st = (Inr qs, st1)"
    using Cons.prems by (auto split: prod.splits sum.splits)
  then obtain rs st2 where two: "drain_sse_payloads d st1 = (Inr rs, st2)"
    using Cons.prems by (auto split: prod.splits sum.splits)
  then have "drain_sse_payloads (c @ d) st = (Inr (qs @ rs), st2)"
    using drain_twice one by blast
  then have "drain_chunks ((c @ d) # cs) st = (ps, None, st')"
    using Cons.prems one two by (auto split: prod.splits sum.splits)
  then show ?case
    using Cons.IH by fastforce
qed

text \<open>Network chunking is not observable in a stream of events: if \<^verbatim>\<open>drain_sse_payloads\<close> accepts every piece of a stream in turn, then it returns the same payloads, and keeps the same rest, when the pieces come as one.  The rest it keeps never exceeds the ceiling of an event, holds no whole event, and holds back only bytes that do not start with a whole UTF-8 sequence.\<close>

theorem sse_chunking_unobservable:
  assumes "drain_chunks (c # cs) st = (ps, None, st')"
  shows "drain_sse_payloads (concat (c # cs)) st = (Inr ps, st') \<and>
      length (ss_buffer st') + length (ss_raw st') \<le> MAX_SSE_EVENT_BYTES \<and>
      find_event_boundary (ss_buffer st') = None \<and> utf8_head (ss_raw st') = 0"
  using sse_chunking_same [OF assms] drain_rest by blast

section \<open>Frames of an event stream\<close>

definition MAX_EVENTSTREAM_PAYLOAD_BYTES :: nat where
  "MAX_EVENTSTREAM_PAYLOAD_BYTES = 25165824"

definition MAX_EVENTSTREAM_HEADER_BYTES :: nat where
  "MAX_EVENTSTREAM_HEADER_BYTES = 131072"

definition FRAME_OVERHEAD_BYTES :: nat where
  "FRAME_OVERHEAD_BYTES = 16"

definition MAX_FRAME_BYTES :: nat where
  "MAX_FRAME_BYTES = FRAME_OVERHEAD_BYTES + MAX_EVENTSTREAM_HEADER_BYTES + MAX_EVENTSTREAM_PAYLOAD_BYTES"

datatype event_stream_error =
    PreludeChecksum "32 word" "32 word"
  | MessageChecksum "32 word" "32 word"
  | FrameLength string
  | FrameHeaders string

definition hex_digit :: "nat \<Rightarrow> char" where
  "hex_digit n = char_of (if n < 10 then 48 + n else 87 + n)"

definition hex_text :: "32 word \<Rightarrow> string" where
  "hex_text w = ''0x'' @ concat (List.map (\<lambda>c. [hex_digit (of_char c div 16), hex_digit (of_char c mod 16)]) (be_bytes 4 (unat w)))"

fun event_stream_error_text :: "event_stream_error \<Rightarrow> string" where
  "event_stream_error_text (PreludeChecksum d c) =
     ''eventstream prelude checksum mismatch (declared '' @ hex_text d @ '', computed '' @ hex_text c @ '')''"
| "event_stream_error_text (MessageChecksum d c) =
     ''eventstream message checksum mismatch (declared '' @ hex_text d @ '', computed '' @ hex_text c @ '')''"
| "event_stream_error_text (FrameLength detail) = ''eventstream framing is invalid: '' @ detail"
| "event_stream_error_text (FrameHeaders detail) = ''eventstream headers are invalid: '' @ detail"

record event_stream_message =
  ev_headers :: "string \<Rightarrow> string option"
  ev_payload :: string

definition be_value :: "string \<Rightarrow> nat" where
  "be_value = foldl (\<lambda>v c. 256 * v + of_char c) 0"

definition split_first :: "string \<Rightarrow> nat \<Rightarrow> string \<Rightarrow> (event_stream_error, string \<times> string) result" where
  "split_first bytes k field =
     (if length bytes < k
      then Inl (FrameHeaders (''headers section ended mid-'' @ field @ '': wanted '' @ show_nat k @ '' bytes, '' @
             show_nat (length bytes) @ '' remain''))
      else Inr (take k bytes, drop k bytes))"

text \<open>The value of a header: its text, when it has the type of one, and what follows it.\<close>

definition header_value ::
    "string \<Rightarrow> nat \<Rightarrow> string \<Rightarrow> (event_stream_error, string option \<times> string) result" where
  "header_value name kind rest =
     (if kind = 0 \<or> kind = 1 then Inr (None, rest)
      else if kind = 2 then map_sum id (\<lambda>p. (None, snd p)) (split_first rest 1 ''byte header value'')
      else if kind = 3 then map_sum id (\<lambda>p. (None, snd p)) (split_first rest 2 ''short header value'')
      else if kind = 4 then map_sum id (\<lambda>p. (None, snd p)) (split_first rest 4 ''integer header value'')
      else if kind = 5 \<or> kind = 8 then map_sum id (\<lambda>p. (None, snd p)) (split_first rest 8 ''64-bit header value'')
      else if kind = 9 then map_sum id (\<lambda>p. (None, snd p)) (split_first rest 16 ''uuid header value'')
      else if kind = 6 \<or> kind = 7
      then bind_result (split_first rest 2 ''header value length'') (\<lambda>(n, rest1).
           bind_result (split_first rest1 (be_value n) ''header value'') (\<lambda>(value, rest2).
             if kind = 7
             then if is_utf8 value then Inr (Some value, rest2)
                  else Inl (FrameHeaders (''header '' @ name @ '' is typed string but is not valid UTF-8''))
             else Inr (None, rest2)))
      else Inl (FrameHeaders (''header '' @ name @ '' has unknown value type '' @ show_nat kind @
             '', whose width is unknown, so the rest of the headers section cannot be located'')))"

definition header_entry :: "string \<Rightarrow> (event_stream_error, string \<times> string option \<times> string) result" where
  "header_entry section =
     bind_result (split_first section 1 ''header name length'') (\<lambda>(n, rest).
       if be_value n = 0 then Inl (FrameHeaders ''a header name is zero bytes long; names must be at least one byte'')
       else bind_result (split_first rest (be_value n) ''header name'') (\<lambda>(name, rest1).
         if \<not> is_utf8 name then Inl (FrameHeaders ''a header name is not valid UTF-8'')
         else bind_result (split_first rest1 1 ''header value type'') (\<lambda>(kind, rest2).
           bind_result (header_value name (be_value kind) rest2) (\<lambda>(value, rest3). Inr (name, value, rest3)))))"

lemma split_first_Inr:
  "split_first bytes k field = Inr (x, y) \<longleftrightarrow> k \<le> length bytes \<and> x = take k bytes \<and> y = drop k bytes"
  by (auto simp: split_first_def)

lemma map_sum_Inr: "map_sum f g m = Inr y \<longleftrightarrow> (\<exists>x. m = Inr x \<and> y = g x)"
  by (cases m) auto

lemma header_value_shrinks: "header_value name kind rest = Inr (v, rest') \<Longrightarrow> length rest' \<le> length rest"
  by (auto simp: header_value_def map_sum_Inr bind_result_Inr split_first_Inr split: if_splits)

lemma header_entry_shrinks: "header_entry section = Inr (name, v, rest) \<Longrightarrow> length rest < length section"
  by (fastforce simp: header_entry_def bind_result_Inr split_first_Inr split: if_splits dest: header_value_shrinks)

text \<open>A later string of the same name replaces an earlier one.\<close>

function parse_headers_from ::
    "(string \<Rightarrow> string option) \<Rightarrow> string \<Rightarrow> (event_stream_error, string \<Rightarrow> string option) result" where
  "parse_headers_from headers section =
     (if section = [] then Inr headers
      else case header_entry section of
             Inl e \<Rightarrow> Inl e
           | Inr (name, value, rest) \<Rightarrow>
               parse_headers_from (case value of None \<Rightarrow> headers | Some v \<Rightarrow> headers(name \<mapsto> v)) rest)"
  by pat_completeness auto
termination
  by (relation "measure (\<lambda>(h, s). length s)") (auto dest: header_entry_shrinks)

declare parse_headers_from.simps [simp del]

definition parse_headers :: "string \<Rightarrow> (event_stream_error, string \<Rightarrow> string option) result" where
  "parse_headers section = parse_headers_from Map.empty section"

text \<open>One frame from the head of the buffer, with what the buffer keeps.\<close>

definition take_frame ::
    "(string \<Rightarrow> 32 word) \<Rightarrow> string \<Rightarrow> (event_stream_error, (event_stream_message \<times> string) option) result" where
  "take_frame crc buffer =
     (if length buffer < 12 then Inr None
      else
        let total = be_value (take 4 buffer);
            header = be_value (take 4 (drop 4 buffer));
            prelude_crc = word_of_nat (be_value (take 4 (drop 8 buffer)))
        in if crc (take 8 buffer) \<noteq> prelude_crc then Inl (PreludeChecksum prelude_crc (crc (take 8 buffer)))
           else if MAX_FRAME_BYTES < total
           then Inl (FrameLength (''frame declares '' @ show_nat total @ '' bytes, past the '' @
                  show_nat MAX_FRAME_BYTES @ ''-byte ceiling''))
           else if MAX_EVENTSTREAM_HEADER_BYTES < header
           then Inl (FrameLength (''frame declares '' @ show_nat header @ '' header bytes, past the '' @
                  show_nat MAX_EVENTSTREAM_HEADER_BYTES @ ''-byte ceiling''))
           else if total < FRAME_OVERHEAD_BYTES + header
           then Inl (FrameLength (''frame declares '' @ show_nat total @ '' total bytes but '' @ show_nat header @
                  '' header bytes, which does not leave room for the '' @ show_nat FRAME_OVERHEAD_BYTES @ '' bytes of framing''))
           else if length buffer < total then Inr None
           else
             let message_crc = word_of_nat (be_value (take 4 (drop (total - 4) buffer)))
             in if crc (take (total - 4) buffer) \<noteq> message_crc
                then Inl (MessageChecksum message_crc (crc (take (total - 4) buffer)))
                else bind_result (parse_headers (take header (drop 12 buffer))) (\<lambda>headers.
                  Inr (Some (\<lparr> ev_headers = headers,
                               ev_payload = take (total - 4 - (12 + header)) (drop (12 + header) buffer) \<rparr>,
                             drop total buffer))))"

lemma take_frame_Some:
  assumes "take_frame crc buffer = Inr (Some (m, rest))"
  shows "length rest < length buffer"
proof -
  have "be_value (take 4 buffer) \<le> length buffer" "0 < be_value (take 4 buffer)" "rest = drop (be_value (take 4 buffer)) buffer"
    using assms by (auto simp: take_frame_def Let_def bind_result_Inr FRAME_OVERHEAD_BYTES_def split: if_splits)
  then show ?thesis
    by simp
qed

text \<open>\<^verbatim>\<open>EventStreamDecoder::push\<close>: every frame the buffer now holds.\<close>

function decode_frames ::
    "(string \<Rightarrow> 32 word) \<Rightarrow> string \<Rightarrow> (event_stream_error, event_stream_message list) result \<times> string" where
  "decode_frames crc buffer =
     (case take_frame crc buffer of
        Inl e \<Rightarrow> (Inl e, buffer)
      | Inr None \<Rightarrow> (Inr [], buffer)
      | Inr (Some (m, rest)) \<Rightarrow>
          (case decode_frames crc rest of
             (Inl e, b) \<Rightarrow> (Inl e, b)
           | (Inr ms, b) \<Rightarrow> (Inr (m # ms), b)))"
  by pat_completeness auto
termination
proof (relation "measure (\<lambda>(c, b). length b)", goal_cases)
  case (2 crc buffer b x m rest)
  then have "take_frame crc buffer = Inr (Some (m, rest))"
    by simp
  then show ?case
    by (simp add: take_frame_Some)
qed simp

declare decode_frames.simps [simp del]

definition push_frames ::
    "(string \<Rightarrow> 32 word) \<Rightarrow> string \<Rightarrow> string \<Rightarrow> (event_stream_error, event_stream_message list) result \<times> string" where
  "push_frames crc chunk buffer = decode_frames crc (buffer @ chunk)"

definition has_partial_frame :: "string \<Rightarrow> bool" where
  "has_partial_frame buffer \<longleftrightarrow> buffer \<noteq> []"

text \<open>
  One call after another: the messages the calls returned to the caller, the error that ended them, and
  what the buffer keeps.
\<close>

fun push_chunks ::
    "(string \<Rightarrow> 32 word) \<Rightarrow> string list \<Rightarrow> string \<Rightarrow> event_stream_message list \<times> event_stream_error option \<times> string" where
  "push_chunks crc [] buffer = ([], None, buffer)"
| "push_chunks crc (c # cs) buffer =
     (case push_frames crc c buffer of
        (Inl e, b) \<Rightarrow> ([], Some e, b)
      | (Inr ms, b) \<Rightarrow> (let (ns, e, b') = push_chunks crc cs b in (ms @ ns, e, b')))"

text \<open>The reference: every frame of the bytes up to the first one that is refused, with that refusal and the bytes from there.\<close>

function whole_frames ::
    "(string \<Rightarrow> 32 word) \<Rightarrow> string \<Rightarrow> event_stream_message list \<times> event_stream_error option \<times> string" where
  "whole_frames crc s =
     (case take_frame crc s of
        Inl e \<Rightarrow> ([], Some e, s)
      | Inr None \<Rightarrow> ([], None, s)
      | Inr (Some (m, rest)) \<Rightarrow> (let (ms, e, r) = whole_frames crc rest in (m # ms, e, r)))"
  by pat_completeness auto
termination
proof (relation "measure (\<lambda>(c, s). length s)", goal_cases)
  case (2 crc s b x m rest)
  then have "take_frame crc s = Inr (Some (m, rest))"
    by simp
  then show ?case
    by (simp add: take_frame_Some)
qed simp

declare whole_frames.simps [simp del]

section \<open>However the network cuts a sequence of frames\<close>

lemma take_drop_append: "n + k \<le> length s \<Longrightarrow> take k (drop n (s @ t)) = take k (drop n s)"
  by simp

lemma take_frame_append:
  assumes "take_frame crc s \<noteq> Inr None"
  shows "take_frame crc (s @ t) = map_sum id (map_option (\<lambda>(m, rest). (m, rest @ t))) (take_frame crc s)"
proof -
  have len: "12 \<le> length s"
    using assms by (cases "length s < 12") (simp_all add: take_frame_def)
  define total where "total = be_value (take 4 s)"
  define header where "header = be_value (take 4 (drop 4 s))"
  have heads: "be_value (take 4 (s @ t)) = total" "be_value (take 4 (drop 4 (s @ t))) = header"
    "take 4 (drop 8 (s @ t)) = take 4 (drop 8 s)" "take 8 (s @ t) = take 8 s"
    using len by (simp_all add: total_def header_def)
  show ?thesis
  proof (cases "total \<le> length s \<and> FRAME_OVERHEAD_BYTES + header \<le> total")
    case True
    then have le: "total \<le> length s" "16 + header \<le> total"
      by (auto simp: FRAME_OVERHEAD_BYTES_def)
    then have parts: "take 4 (drop (total - 4) (s @ t)) = take 4 (drop (total - 4) s)"
      "take (total - 4) (s @ t) = take (total - 4) s" "take header (drop 12 (s @ t)) = take header (drop 12 s)"
      "take (total - 4 - (12 + header)) (drop (12 + header) (s @ t)) = take (total - 4 - (12 + header)) (drop (12 + header) s)"
      "drop total (s @ t) = drop total s @ t"
      by simp_all
    show ?thesis
      unfolding take_frame_def heads Let_def parts total_def [symmetric] header_def [symmetric]
      using len True by (cases "parse_headers (take header (drop 12 s))") (auto simp: bind_result_def)
  next
    case False
    then show ?thesis
      using assms len unfolding take_frame_def heads Let_def total_def [symmetric] header_def [symmetric]
      by auto
  qed
qed

lemma take_frame_cases:
  obtains (error) e where "take_frame crc s = Inl e" | (more) "take_frame crc s = Inr None"
    | (frame) m rest where "take_frame crc s = Inr (Some (m, rest))"
  by (metis old.sum.exhaust option.exhaust surj_pair)

lemma take_frame_through:
  assumes "take_frame crc s = Inr (Some (m, rest))"
  shows "take_frame crc (take (be_value (take 4 s)) s) = Inr (Some (m, []))"
proof -
  define n where "n = be_value (take 4 s)"
  have n: "rest = drop n s" "n \<le> length s" "16 \<le> n"
    using assms by (auto simp: n_def take_frame_def Let_def bind_result_Inr FRAME_OVERHEAD_BYTES_def split: if_splits)
  have "take_frame crc (take n s) \<noteq> Inr None"
  proof
    assume "take_frame crc (take n s) = Inr None"
    then show False
      using assms n unfolding n_def [symmetric]
      by (auto simp: take_frame_def Let_def n_def [symmetric] min_def bind_result_def split: if_splits sum.splits)
  qed
  from take_frame_append [OF this, of "drop n s"] assms n show ?thesis
    by (cases crc "take n s" rule: take_frame_cases) (auto simp: n_def)
qed

lemma whole_frames_eval:
  "take_frame crc s = Inl e \<Longrightarrow> whole_frames crc s = ([], Some e, s)"
  "take_frame crc s = Inr None \<Longrightarrow> whole_frames crc s = ([], None, s)"
  "take_frame crc s = Inr (Some (m, rest)) \<Longrightarrow>
     whole_frames crc s = (let (ms, e, r) = whole_frames crc rest in (m # ms, e, r))"
  by (subst whole_frames.simps; simp)+

text \<open>A call returns the frames of the reference, or its refusal and none of the frames before it.\<close>

lemma decode_frames_whole:
  "decode_frames crc s =
     (case whole_frames crc s of (ms, None, r) \<Rightarrow> (Inr ms, r) | (ms, Some e, r) \<Rightarrow> (Inl e, r))"
proof (induction crc s rule: decode_frames.induct)
  case (1 crc s)
  then show ?case
    by (cases crc s rule: take_frame_cases; subst decode_frames.simps)
      (auto simp: whole_frames_eval split: prod.splits option.splits)
qed

lemma whole_frames_rest:
  "whole_frames crc s = (ms, None, r) \<Longrightarrow> take_frame crc r = Inr None"
proof (induction crc s arbitrary: ms rule: whole_frames.induct)
  case (1 crc s)
  then show ?case
    by (cases crc s rule: take_frame_cases) (auto simp: whole_frames_eval split: prod.splits)
qed

lemma whole_frames_append:
  "whole_frames crc (s @ t) =
     (case whole_frames crc s of
        (ms, Some e, r) \<Rightarrow> (ms, Some e, r @ t)
      | (ms, None, r) \<Rightarrow> (let (ns, e, r') = whole_frames crc (r @ t) in (ms @ ns, e, r')))"
proof (induction crc s rule: whole_frames.induct)
  case (1 crc s)
  then show ?case
    using take_frame_append [of crc s t]
    by (cases crc s rule: take_frame_cases) (auto simp: whole_frames_eval split: prod.splits option.splits)
qed

text \<open>
  A run over pieces ends as the reference does: with all of its frames when none is refused, and with a
  beginning of them when one is.
\<close>

lemma push_chunks_whole:
  "take_frame crc b = Inr None \<Longrightarrow>
     (case whole_frames crc (b @ concat cs) of
        (ms, None, r) \<Rightarrow> push_chunks crc cs b = (ms, None, r)
      | (ms, Some e, r) \<Rightarrow> prefix (fst (push_chunks crc cs b)) ms \<and> fst (snd (push_chunks crc cs b)) = Some e)"
proof (induction cs arbitrary: b)
  case Nil
  then show ?case
    by (simp add: whole_frames_eval)
next
  case (Cons c cs)
  obtain ms e r where w: "whole_frames crc (b @ c) = (ms, e, r)"
    using prod_cases3 by blast
  show ?case
  proof (cases e)
    case None
    then show ?thesis
      using Cons.IH [of r] whole_frames_rest [of crc "b @ c" ms r] w whole_frames_append [of crc "b @ c" "concat cs"]
      by (auto simp: push_frames_def decode_frames_whole Let_def split: prod.splits option.splits)
  next
    case (Some x)
    then show ?thesis
      using w whole_frames_append [of crc "b @ c" "concat cs"] by (simp add: push_frames_def decode_frames_whole)
  qed
qed

lemma take_frame_Nil: "take_frame crc [] = Inr None"
  by (simp add: take_frame_def)

lemma push_chunks_same:
  assumes "push_chunks crc (c # cs) [] = (ms, None, r)"
  shows "push_frames crc (concat (c # cs)) [] = (Inr ms, r)"
  using push_chunks_whole [OF take_frame_Nil, of crc "c # cs"] assms
  by (auto simp: push_frames_def decode_frames_whole split: prod.splits option.splits)

text \<open>Read frame by frame, the bytes give every frame of the reference before the refused one.\<close>

lemma cut_at_frames:
  "\<exists>cs. concat cs = s \<and> fst (push_chunks crc cs []) = fst (whole_frames crc s)"
proof (induction crc s rule: whole_frames.induct)
  case (1 crc s)
  show ?case
  proof (cases crc s rule: take_frame_cases)
    case (frame m rest)
    define n where "n = be_value (take 4 s)"
    have n: "rest = drop n s" "n \<le> length s"
      using frame by (auto simp: n_def take_frame_def Let_def bind_result_Inr split: if_splits)
    have "take_frame crc (take n s) = Inr (Some (m, []))"
      using frame n take_frame_through [of crc s m rest] by (simp add: n_def)
    then have one: "push_frames crc (take n s) [] = (Inr [m], [])"
      by (simp add: push_frames_def decode_frames_whole whole_frames_eval take_frame_Nil)
    obtain cs where cs: "concat cs = rest" "fst (push_chunks crc cs []) = fst (whole_frames crc rest)"
      using 1 frame by blast
    have "concat (take n s # cs) = s \<and> fst (push_chunks crc (take n s # cs) []) = fst (whole_frames crc s)"
      using cs one n by (simp add: whole_frames_eval(3) [OF frame] Let_def split_beta)
    then show ?thesis
      by blast
  qed (force simp: whole_frames_eval intro: exI [of _ "[s]"] simp: push_frames_def decode_frames_whole)+
qed

lemma waiting_below_ceiling:
  assumes "take_frame crc r = Inr None"
  shows "length r < MAX_FRAME_BYTES"
proof (cases "length r < 12")
  case True
  then show ?thesis
    by (simp add: MAX_FRAME_BYTES_def FRAME_OVERHEAD_BYTES_def)
next
  case False
  then have "be_value (take 4 r) \<le> MAX_FRAME_BYTES" "length r < be_value (take 4 r)"
    using assms by (auto simp: take_frame_def Let_def bind_result_Inr split: if_splits)
  then show ?thesis
    by simp
qed

text \<open>C21: How the network cuts a sequence of frames shows only when a frame is refused, and then only in which of the frames before it are delivered.  Without a refusal, a decoder fed the bytes in any pieces has returned the same messages, and holds the same rest (shorter than the largest frame the decoder waits for), as one fed the bytes at once.  With one, every cut ends in the same error, having returned a beginning of the messages before the refused frame; the bytes read at once return none of these messages, and some cut returns them all.\<close>

theorem frames_read_in_pieces:
  fixes crc :: "string \<Rightarrow> 32 word"
  shows "(case push_chunks crc cs [] of
        (ns, None, r) \<Rightarrow> whole_frames crc (concat cs) = (ns, None, r) \<and>
           push_chunks crc [concat cs] [] = (ns, None, r) \<and> length r < MAX_FRAME_BYTES
      | (ns, Some e, r) \<Rightarrow> (\<exists>ms r'. whole_frames crc (concat cs) = (ms, Some e, r') \<and> prefix ns ms \<and>
           push_chunks crc [concat cs] [] = ([], Some e, r'))) \<and>
     (\<exists>cs'. concat cs' = concat cs \<and> fst (push_chunks crc cs' []) = fst (whole_frames crc (concat cs)))"
proof (rule conjI [OF _ cut_at_frames])
  obtain ms e r where w: "whole_frames crc (concat cs) = (ms, e, r)"
    using prod_cases3 by blast
  have one: "push_chunks crc [concat cs] [] = (case e of None \<Rightarrow> (ms, None, r) | Some x \<Rightarrow> ([], Some x, r))"
    using w by (simp add: push_frames_def decode_frames_whole split: option.splits)
  show "case push_chunks crc cs [] of
        (ns, None, r) \<Rightarrow> whole_frames crc (concat cs) = (ns, None, r) \<and>
           push_chunks crc [concat cs] [] = (ns, None, r) \<and> length r < MAX_FRAME_BYTES
      | (ns, Some e, r) \<Rightarrow> (\<exists>ms r'. whole_frames crc (concat cs) = (ms, Some e, r') \<and> prefix ns ms \<and>
           push_chunks crc [concat cs] [] = ([], Some e, r'))"
    using push_chunks_whole [OF take_frame_Nil, of crc cs] w one waiting_below_ceiling [of crc r] whole_frames_rest [of crc "concat cs" ms r]
    by (cases e; cases "push_chunks crc cs []") (auto split: option.splits)
qed

section \<open>Frames that were encoded are decoded\<close>

definition string_header :: "string \<Rightarrow> string \<Rightarrow> string" where
  "string_header name val = be_bytes 1 (length name) @ name @ be_bytes 1 7 @ be_bytes 2 (length val) @ val"

definition encoded_frame :: "(string \<Rightarrow> 32 word) \<Rightarrow> string \<Rightarrow> string \<Rightarrow> string" where
  "encoded_frame crc headers payload =
     (let lengths = be_bytes 4 (FRAME_OVERHEAD_BYTES + length headers + length payload) @ be_bytes 4 (length headers);
          out = lengths @ be_bytes 4 (unat (crc lengths)) @ headers @ payload
      in out @ be_bytes 4 (unat (crc out)))"

definition encodable_header :: "string \<times> string \<Rightarrow> bool" where
  "encodable_header h \<longleftrightarrow>
     fst h \<noteq> [] \<and> length (fst h) < 256 \<and> length (snd h) < 65536 \<and> is_utf8 (fst h) \<and> is_utf8 (snd h)"

definition header_bytes :: "(string \<times> string) list \<Rightarrow> string" where
  "header_bytes hs = concat (List.map (\<lambda>h. string_header (fst h) (snd h)) hs)"

definition encodable :: "(string \<times> string) list \<times> string \<Rightarrow> bool" where
  "encodable m \<longleftrightarrow>
     list_all encodable_header (fst m) \<and> length (header_bytes (fst m)) \<le> MAX_EVENTSTREAM_HEADER_BYTES \<and>
     length (snd m) \<le> MAX_EVENTSTREAM_PAYLOAD_BYTES"

definition decoded_message :: "(string \<times> string) list \<times> string \<Rightarrow> event_stream_message" where
  "decoded_message m = \<lparr> ev_headers = map_of (rev (fst m)), ev_payload = snd m \<rparr>"

lemma be_value_snoc: "be_value (s @ [c]) = 256 * be_value s + of_char c"
  by (simp add: be_value_def)

lemma be_value_be_bytes: "be_value (be_bytes k n) = n mod 256 ^ k"
proof (induction k arbitrary: n)
  case (Suc k)
  have "n mod (256 * 256 ^ k) = 256 * (n div 256 mod 256 ^ k) + n mod 256"
    by (rule mod_mult2_eq)
  then show ?case
    by (simp add: be_value_snoc Suc)
qed (simp add: be_value_def)

lemma header_entry_string:
  assumes "encodable_header (name, val)"
  shows "header_entry (string_header name val @ rest) = Inr (name, Some val, rest)"
proof -
  have len: "0 < length name" "length name < 256" "length val < 65536" and u: "is_utf8 name" "is_utf8 val"
    using assms by (auto simp: encodable_header_def)
  have s1: "split_first (be_bytes 1 (length name) @ t) 1 f = Inr (be_bytes 1 (length name), t)" for t f
    by (simp add: split_first_def be_bytes_length del: be_bytes.simps)
  have s2: "split_first (name @ t) (length name) f = Inr (name, t)" for t f
    by (simp add: split_first_def)
  have s3: "split_first (be_bytes 1 7 @ t) 1 f = Inr (be_bytes 1 7, t)" for t f
    by (simp add: split_first_def be_bytes_length del: be_bytes.simps)
  have s4: "split_first (be_bytes 2 (length val) @ t) 2 f = Inr (be_bytes 2 (length val), t)" for t f
    by (simp add: split_first_def be_bytes_length del: be_bytes.simps)
  have s5: "split_first (val @ t) (length val) f = Inr (val, t)" for t f
    by (simp add: split_first_def)
  have v: "header_value name 7 (be_bytes 2 (length val) @ val @ rest) = Inr (Some val, rest)"
    using len(3) u(2) by (simp add: header_value_def s4 s5 bind_result_def be_value_be_bytes del: be_bytes.simps One_nat_def)
  show ?thesis
    using len u(1) by (simp add: header_entry_def string_header_def s1 s2 s3 v bind_result_def be_value_be_bytes del: be_bytes.simps One_nat_def)
qed

lemma parse_headers_from_bytes:
  "list_all encodable_header hs \<Longrightarrow> parse_headers_from m (header_bytes hs) = Inr (m ++ map_of (rev hs))"
proof (induction hs arbitrary: m)
  case Nil
  then show ?case
    by (subst parse_headers_from.simps) (simp add: header_bytes_def)
next
  case (Cons h hs)
  obtain name val where h: "h = (name, val)"
    by fastforce
  have b: "header_bytes ((name, val) # hs) = string_header name val @ header_bytes hs"
    by (simp add: header_bytes_def)
  have "string_header name val \<noteq> []"
    by (simp add: string_header_def)
  then have "parse_headers_from m (header_bytes (h # hs)) = parse_headers_from (m(name \<mapsto> val)) (header_bytes hs)"
    using header_entry_string [of name val "header_bytes hs"] Cons.prems
    by (subst parse_headers_from.simps) (simp add: b h)
  also have "\<dots> = Inr (m(name \<mapsto> val) ++ map_of (rev hs))"
    using Cons by simp
  finally show ?case
    by (simp add: h map_add_def fun_eq_iff split: option.splits)
qed

lemma take_frame_encoded:
  assumes "encodable (hs, p)"
  shows "take_frame crc (encoded_frame crc (header_bytes hs) p @ rest) = Inr (Some (decoded_message (hs, p), rest))"
proof -
  define h where "h = header_bytes hs"
  define total where "total = FRAME_OVERHEAD_BYTES + length h + length p"
  define lengths where "lengths = be_bytes 4 total @ be_bytes 4 (length h)"
  define out where "out = lengths @ be_bytes 4 (unat (crc lengths)) @ h @ p"
  define tail where "tail = be_bytes 4 (unat (crc out))"
  have ok: "length h \<le> MAX_EVENTSTREAM_HEADER_BYTES" "length p \<le> MAX_EVENTSTREAM_PAYLOAD_BYTES" "list_all encodable_header hs"
    using assms by (auto simp: encodable_def h_def)
  have small: "total < 2 ^ 32" "length h < 2 ^ 32" "total \<le> MAX_FRAME_BYTES"
    using ok by (auto simp: total_def MAX_FRAME_BYTES_def FRAME_OVERHEAD_BYTES_def MAX_EVENTSTREAM_HEADER_BYTES_def
        MAX_EVENTSTREAM_PAYLOAD_BYTES_def)
  have sizes: "length lengths = 8" "length out = total - 4" "length tail = 4" "16 + length h \<le> total" "total = 16 + length h + length p"
    by (simp_all add: lengths_def out_def tail_def be_bytes_length total_def FRAME_OVERHEAD_BYTES_def del: be_bytes.simps)
  have word: "word_of_nat (unat w mod 4294967296) = w" for w :: "32 word"
  proof -
    have "unat w < 2 ^ LENGTH(32)"
      by (rule unsigned_less)
    then show ?thesis
      by simp
  qed
  define s where "s = out @ tail @ rest"
  have e: "encoded_frame crc (header_bytes hs) p @ rest = s"
    by (simp add: encoded_frame_def Let_def s_def out_def tail_def lengths_def total_def h_def)
  have "take 4 s = be_bytes 4 total" "take 4 (drop 4 s) = be_bytes 4 (length h)"
    "take 4 (drop 8 s) = be_bytes 4 (unat (crc lengths))" "take 8 s = lengths"
    by (simp_all add: s_def out_def lengths_def be_bytes_length del: be_bytes.simps)
  then have prelude: "be_value (take 4 s) = total" "be_value (take 4 (drop 4 s)) = length h"
    "word_of_nat (be_value (take 4 (drop 8 s))) = crc lengths" "take 8 s = lengths"
    using small by (simp_all add: be_value_be_bytes word del: be_bytes.simps)
  have s12: "drop 12 s = h @ p @ tail @ rest"
    using sizes(1) by (simp add: s_def out_def be_bytes_length del: be_bytes.simps)
  have "take 4 (drop (total - 4) s) = tail" "take (total - 4) s = out"
    using sizes by (simp_all add: s_def)
  then have message: "word_of_nat (be_value (take 4 (drop (total - 4) s))) = crc out" "take (total - 4) s = out"
    by (simp_all add: tail_def be_value_be_bytes word del: be_bytes.simps)
  have "drop total s = rest"
    using sizes by (simp add: s_def)
  moreover have "take (length h) (drop 12 s) = h"
    by (simp add: s12)
  moreover have "take (total - 4 - (12 + length h)) (drop (12 + length h) s) = p"
    using s12 sizes(5) by (simp add: drop_drop [symmetric] add.commute del: drop_drop)
  moreover have "parse_headers h = Inr (map_of (rev hs))"
    using parse_headers_from_bytes [OF ok(3), of Map.empty] by (simp add: parse_headers_def h_def)
  moreover have "12 \<le> length s" "total \<le> length s"
    using sizes by (simp_all add: s_def)
  ultimately show ?thesis
    unfolding take_frame_def e Let_def prelude message
    using ok(1) small(3) sizes(4) by (simp add: bind_result_def decoded_message_def FRAME_OVERHEAD_BYTES_def)
qed

lemma whole_encoded:
  "list_all encodable ms \<Longrightarrow>
     whole_frames crc (concat (List.map (\<lambda>m. encoded_frame crc (header_bytes (fst m)) (snd m)) ms)) =
       (List.map decoded_message ms, None, [])"
proof (induction ms)
  case Nil
  then show ?case
    by (simp add: whole_frames_eval take_frame_Nil)
next
  case (Cons m ms)
  then show ?case
    using take_frame_encoded [of "fst m" "snd m" crc] by (simp add: whole_frames_eval)
qed

text \<open>C22: What an upstream frames is what the router reads, whatever the checksum and however the network cuts the bytes: a sequence of messages encoded as the tests encode them (text headers, a payload, both within the documented ceilings), cut into any pieces, comes back message by message, the last of two equal header names winning, and leaves nothing in the buffer.\<close>

theorem frames_survive_chunking:
  fixes crc :: "string \<Rightarrow> 32 word"
  assumes "list_all encodable ms"
    and "concat cs = concat (List.map (\<lambda>m. encoded_frame crc (header_bytes (fst m)) (snd m)) ms)"
  shows "push_chunks crc cs [] = (List.map decoded_message ms, None, [])"
  using push_chunks_whole [OF take_frame_Nil, of crc cs] whole_encoded [OF assms(1), of crc] assms(2) by simp

text \<open>
  A refused frame takes the messages of its own piece with it: they are returned when they came in an
  earlier piece, and dropped when they came in the same one.
\<close>

lemma refused_frame_drops_its_piece:
  fixes crc :: "string \<Rightarrow> 32 word"
  assumes "list_all encodable ms" "take_frame crc bad = Inl e"
  defines "sent \<equiv> concat (List.map (\<lambda>m. encoded_frame crc (header_bytes (fst m)) (snd m)) ms)"
  shows "push_chunks crc [sent @ bad] [] = ([], Some e, bad)"
    and "push_chunks crc [sent, bad] [] = (List.map decoded_message ms, Some e, bad)"
  using whole_encoded [OF assms(1), of crc] whole_frames_append [of crc sent bad] assms(2)
  by (simp_all add: sent_def push_frames_def decode_frames_whole whole_frames_eval)

section \<open>Concrete streams\<close>

lemma demo_drained:
  "drain_chunks [''data: hi'' @ LF_LF @ ''da'', ''ta''] sse_empty = ([''hi''], None, \<lparr> ss_raw = [], ss_buffer = ''data'' \<rparr>)"
proof -
  have one: "drain_sse_payloads (''data: hi'' @ LF_LF @ ''da'') sse_empty = (Inr [''hi''], \<lparr> ss_raw = [], ss_buffer = ''da'' \<rparr>)"
  proof -
    have v: "valid_up_to (''data: hi'' @ LF_LF @ ''da'') = 12"
      by code_simp
    have b: "find_event_boundary (''data: hi'' @ LF_LF @ ''da'') = Some (8, 2)" "find_event_boundary ''da'' = None"
      by (simp_all add: find_event_boundary_def LF_LF_def CRLF_CRLF_def newline_char_def return_char_def)
    have d: "event_data ''data: hi'' = ''hi''"
      by (simp add: event_data_def str_lines_def strip_return_def DATA_PREFIX_def starts_with_def newline_char_def
          return_char_def trim_eval)
    have "drain_events (''data: hi'' @ LF_LF @ ''da'') = ([''hi''], ''da'')"
      using b d by (subst drain_events.simps, simp add: LF_LF_def)
        (subst drain_events.simps, simp)
    then show ?thesis
      using v by (simp add: drain_sse_payloads_def sse_empty_def MAX_SSE_EVENT_BYTES_def LF_LF_def Let_def)
  qed
  have two: "drain_sse_payloads ''ta'' \<lparr> ss_raw = [], ss_buffer = ''da'' \<rparr> = (Inr [], \<lparr> ss_raw = [], ss_buffer = ''data'' \<rparr>)"
  proof -
    have v: "valid_up_to ''ta'' = 2"
      by code_simp
    have "find_event_boundary ''data'' = None"
      by (simp add: find_event_boundary_def LF_LF_def CRLF_CRLF_def newline_char_def return_char_def)
    then have "drain_events ''data'' = ([], ''data'')"
      by (subst drain_events.simps) simp
    then show ?thesis
      by (simp add: drain_sse_payloads_def v MAX_SSE_EVENT_BYTES_def)
  qed
  show ?thesis
    using one two by simp
qed

lemma sse_chunking_unobservable_witness:
  "drain_sse_payloads (concat [''data: hi'' @ LF_LF @ ''da'', ''ta'']) sse_empty = (Inr [''hi''], \<lparr> ss_raw = [], ss_buffer = ''data'' \<rparr>)"
  using sse_chunking_unobservable [OF demo_drained] by blast

definition demo_message :: "(string \<times> string) list \<times> string" where
  "demo_message = ([('':event-type'', ''chunk'')], ''hi'')"

lemma frames_survive_chunking_witness:
  "push_chunks (\<lambda>_. 7) (List.map (\<lambda>c. [c]) (encoded_frame (\<lambda>_. 7) (header_bytes (fst demo_message)) (snd demo_message))) [] =
     ([decoded_message demo_message], None, [])"
proof -
  have u: "is_utf8 '':event-type''" "is_utf8 ''chunk''"
    by code_simp+
  have e: "list_all encodable [demo_message]"
    by (simp add: demo_message_def encodable_def encodable_header_def header_bytes_def string_header_def be_bytes_length
        u MAX_EVENTSTREAM_HEADER_BYTES_def MAX_EVENTSTREAM_PAYLOAD_BYTES_def)
  have "concat (List.map (\<lambda>c. [c]) s) = s" for s :: string
    by (induction s) simp_all
  then show ?thesis
    using frames_survive_chunking [OF e] by simp
qed

end
