(* ===== verification/Messages.thy ===== *)
theory Messages
  imports Framing "HOL-Library.AList"
begin

text \<open>
  The wire of the Messages API (\<^verbatim>\<open>wire/anthropic.rs\<close>), the classic runtime of Bedrock that carries
  the same bodies (\<^verbatim>\<open>wire/bedrock_runtime.rs\<close>), and what both take from \<^verbatim>\<open>wire/mod.rs\<close>: the body
  of a request, the reading of a reply, the machine of a stream and its drive over a socket.  JSON
  parsing and rendering, base64, the checksum and the socket are parameters.  Shown: the turns that are
  sent alternate and answer every tool call, at most four cache marks are sent, a stream holds bounded
  memory, ends once, and reports what its upstream metered however it ends.
\<close>

section \<open>The parts of a user turn\<close>

datatype user_part =
    UserText string
  | Base64Image string string
  | UrlImage string

definition image_part :: "string \<Rightarrow> user_part" where
  "image_part url =
     (case (if starts_with ''data:'' url then split_once '';base64,'' (drop 5 url) else None) of
        None \<Rightarrow> UrlImage url
      | Some (media_type, payload) \<Rightarrow> Base64Image media_type payload)"

fun classified_part :: "content_part \<Rightarrow> (user_part \<times> bool) option" where
  "classified_part (TextPart t hit) = (if trim t = [] then None else Some (UserText t, hit))"
| "classified_part (ImagePart url hit) = Some (image_part url, hit)"

definition user_parts_cached :: "chat_message \<Rightarrow> (user_part \<times> bool) list" where
  "user_parts_cached m =
     (if m_parts m = [] then (if trim (m_content m) = [] then [] else [(UserText (m_content m), False)])
      else List.map_filter classified_part (m_parts m))"

definition wire_user_parts :: "chat_message \<Rightarrow> user_part list" where
  "wire_user_parts m = List.map fst (user_parts_cached m)"

section \<open>Token counts an upstream may report\<close>

definition MAX_BELIEVABLE_TOKENS :: nat where
  "MAX_BELIEVABLE_TOKENS = 2 ^ 31 - 1"

definition believable :: "token_usage \<Rightarrow> token_usage option" where
  "believable u =
     (let over = (\<lambda>x. case x of None \<Rightarrow> False | Some n \<Rightarrow> MAX_BELIEVABLE_TOKENS < n)
      in if over (tu_input u) \<or> over (tu_output u) \<or> over (tu_cached_input u) \<or> over (tu_cache_write u)
         then None else Some u)"

section \<open>Bodies with a ceiling\<close>

definition MAX_RESPONSE_BYTES :: nat where
  "MAX_RESPONSE_BYTES = 16 * 1024 * 1024"

text \<open>\<^verbatim>\<open>String::from_utf8_lossy\<close>: each maximal ill-formed piece becomes U+FFFD.\<close>

definition ill_formed_len :: "string \<Rightarrow> nat" where
  "ill_formed_len s =
     (case s of
        [] \<Rightarrow> 1
      | c # t \<Rightarrow>
          (let b = of_char c; n = utf8_width b
           in if n < 3 \<or> t = [] \<or> \<not> utf8_follows b (take 1 t) then 1
              else if n = 4 \<and> 2 \<le> length t \<and> is_continuation (t ! 1) then 3
              else 2))"

lemma ill_formed_len_pos: "0 < ill_formed_len s"
  by (auto simp: ill_formed_len_def Let_def split: list.splits)

function from_utf8_lossy :: "string \<Rightarrow> string" where
  "from_utf8_lossy s =
     (if s = [] then []
      else if utf8_head s \<noteq> 0 then take (utf8_head s) s @ from_utf8_lossy (drop (utf8_head s) s)
      else [char_of (239 :: nat), char_of (191 :: nat), char_of (189 :: nat)] @ from_utf8_lossy (drop (ill_formed_len s) s))"
  by pat_completeness auto
termination
  using ill_formed_len_pos by (relation "measure length") auto

declare from_utf8_lossy.simps [simp del]

text \<open>The pieces of a body; a piece that fails ends it.\<close>

fun collect_body :: "string \<Rightarrow> string option list \<Rightarrow> string \<times> bool" where
  "collect_body collected [] = (collected, False)"
| "collect_body collected (None # cs) = (collected, False)"
| "collect_body collected (Some c # cs) =
     (let remaining = MAX_RESPONSE_BYTES - length collected
      in if remaining < length c then (collected @ take remaining c, True)
         else collect_body (collected @ c) cs)"

definition bounded_body :: "string option list \<Rightarrow> string \<times> bool" where
  "bounded_body cs = (let (collected, truncated) = collect_body [] cs in (from_utf8_lossy collected, truncated))"

section \<open>The turns of a request\<close>

text \<open>
  The content blocks the wire builds, with their cache mark, and a turn: a role and its blocks.
  \<^verbatim>\<open>block_json\<close> and \<^verbatim>\<open>turn_json\<close> write them as the JSON objects of the source.
\<close>

datatype block_body =
    TextBlock string
  | ImageBase64 string string
  | ImageUrl string
  | ToolUse string string json
  | ToolResult string "string option"

record content_block =
  cb_body :: block_body
  cb_marked :: bool

record turn =
  t_role :: string
  t_content :: "content_block list"

definition plain_block :: "block_body \<Rightarrow> content_block" where
  "plain_block b = \<lparr> cb_body = b, cb_marked = False \<rparr>"

definition EPHEMERAL :: json where
  "EPHEMERAL = JObject [(''type'', JString ''ephemeral'')]"

fun body_members :: "block_body \<Rightarrow> (string \<times> json) list" where
  "body_members (TextBlock t) = [(''type'', JString ''text''), (''text'', JString t)]"
| "body_members (ImageBase64 media_type payload) =
     [(''type'', JString ''image''),
      (''source'', JObject [(''type'', JString ''base64''), (''media_type'', JString media_type), (''data'', JString payload)])]"
| "body_members (ImageUrl url) =
     [(''type'', JString ''image''), (''source'', JObject [(''type'', JString ''url''), (''url'', JString url)])]"
| "body_members (ToolUse i name input) =
     [(''type'', JString ''tool_use''), (''id'', JString i), (''name'', JString name), (''input'', input)]"
| "body_members (ToolResult i output) =
     [(''type'', JString ''tool_result''), (''tool_use_id'', JString i)] @
     (case output of None \<Rightarrow> [] | Some t \<Rightarrow> [(''content'', JString t)])"

definition mark_members :: "bool \<Rightarrow> (string \<times> json) list" where
  "mark_members hit = (if hit then [(''cache_control'', EPHEMERAL)] else [])"

definition block_json :: "content_block \<Rightarrow> json" where
  "block_json b = JObject (body_members (cb_body b) @ mark_members (cb_marked b))"

definition turn_json :: "turn \<Rightarrow> json" where
  "turn_json t = JObject [(''role'', JString (t_role t)), (''content'', JArray (List.map block_json (t_content t)))]"

definition push_anthropic_block :: "string \<Rightarrow> block_body \<Rightarrow> turn list \<Rightarrow> turn list" where
  "push_anthropic_block role b turns =
     (if turns \<noteq> [] \<and> t_role (last turns) = role
      then butlast turns @ [(last turns)\<lparr> t_content := t_content (last turns) @ [plain_block b] \<rparr>]
      else turns @ [\<lparr> t_role = role, t_content = [plain_block b] \<rparr>])"

definition mark_last_block :: "turn list \<Rightarrow> turn list" where
  "mark_last_block turns =
     (if turns = [] \<or> t_content (last turns) = [] then turns
      else let t = last turns
           in butlast turns @ [t\<lparr> t_content := butlast (t_content t) @ [(last (t_content t))\<lparr> cb_marked := True \<rparr>] \<rparr>])"

definition block_cursor :: "turn list \<Rightarrow> nat" where
  "block_cursor turns = sum_list (List.map (\<lambda>t. length (t_content t)) turns)"

fun user_block :: "user_part \<Rightarrow> block_body" where
  "user_block (UserText t) = TextBlock t"
| "user_block (Base64Image media_type payload) = ImageBase64 media_type payload"
| "user_block (UrlImage url) = ImageUrl url"

definition push_user_part :: "turn list \<Rightarrow> user_part \<times> bool \<Rightarrow> turn list" where
  "push_user_part turns p =
     (let turns1 = push_anthropic_block ''user'' (user_block (fst p)) turns
      in if snd p then mark_last_block turns1 else turns1)"

definition push_user_content :: "chat_message \<Rightarrow> turn list \<Rightarrow> turn list" where
  "push_user_content m turns = foldl push_user_part turns (user_parts_cached m)"

text \<open>The reading of packed messages; the parser of JSON is an argument.\<close>

definition str_member :: "string \<Rightarrow> json \<Rightarrow> string option" where
  "str_member k v = Option.bind (json_get k v) json_str"

definition is_object :: "json \<Rightarrow> bool" where
  "is_object v \<longleftrightarrow> json_members v \<noteq> None"

definition packed_envelope :: "(string \<Rightarrow> json option) \<Rightarrow> string \<Rightarrow> json option" where
  "packed_envelope parse content =
     (case parse content of
        None \<Rightarrow> None
      | Some v \<Rightarrow>
          if is_object v \<and> (json_get ''tool_calls'' v \<noteq> None \<or> json_get ''reasoning_content'' v \<noteq> None)
          then Some v else None)"

definition call_input :: "(string \<Rightarrow> json option) \<Rightarrow> json \<Rightarrow> json" where
  "call_input parse call =
     (case Option.bind (str_member ''arguments'' call) parse of
        None \<Rightarrow> JObject []
      | Some v \<Rightarrow> if is_object v then v else JObject [])"

definition push_call :: "(string \<Rightarrow> json option) \<Rightarrow> turn list \<Rightarrow> json \<Rightarrow> turn list" where
  "push_call parse turns call =
     push_anthropic_block ''assistant''
       (ToolUse (unwrap_or (str_member ''id'' call) []) (unwrap_or (str_member ''name'' call) []) (call_input parse call)) turns"

fun array_items :: "json option \<Rightarrow> json list" where
  "array_items (Some (JArray vs)) = vs"
| "array_items _ = []"

definition push_assistant :: "(string \<Rightarrow> json option) \<Rightarrow> string \<Rightarrow> turn list \<Rightarrow> turn list" where
  "push_assistant parse content turns =
     (case packed_envelope parse content of
        Some v \<Rightarrow>
          (let turns1 =
             (case str_member ''content'' v of
                Some t \<Rightarrow> if trim t = [] then turns else push_anthropic_block ''assistant'' (TextBlock t) turns
              | None \<Rightarrow> turns)
           in foldl (push_call parse) turns1 (array_items (json_get ''tool_calls'' v)))
      | None \<Rightarrow> if trim content = [] then turns else push_anthropic_block ''assistant'' (TextBlock content) turns)"

definition tool_output :: "(string \<Rightarrow> json option) \<Rightarrow> string \<Rightarrow> string \<times> string" where
  "tool_output parse content =
     (case Option.bind (parse content) (str_member ''tool_call_id'') of
        Some i \<Rightarrow> (i, unwrap_or (Option.bind (parse content) (str_member ''content'')) [])
      | None \<Rightarrow> ([], content))"

definition push_tool_result :: "(string \<Rightarrow> json option) \<Rightarrow> string \<Rightarrow> turn list \<Rightarrow> turn list" where
  "push_tool_result parse content turns =
     (let (i, output) = tool_output parse content
      in push_anthropic_block ''user'' (ToolResult i (if output = [] then None else Some output)) turns)"

record system_prompt =
  sy_text :: string
  sy_marked :: bool

record built =
  bt_system :: "string list"
  bt_system_marked :: bool
  bt_turns :: "turn list"

definition push_message :: "(string \<Rightarrow> json option) \<Rightarrow> built \<Rightarrow> chat_message \<Rightarrow> built" where
  "push_message parse b m =
     (let b1 =
        (if m_role m = ''system''
         then b\<lparr> bt_system := bt_system b @ [m_content m], bt_system_marked := bt_system_marked b \<or> m_cache_control m \<rparr>
         else if m_role m = ''user'' then b\<lparr> bt_turns := push_user_content m (bt_turns b) \<rparr>
         else if m_role m = ''assistant'' then b\<lparr> bt_turns := push_assistant parse (m_content m) (bt_turns b) \<rparr>
         else if m_role m = ''tool'' then b\<lparr> bt_turns := push_tool_result parse (m_content m) (bt_turns b) \<rparr>
         else b)
      in if m_cache_control m \<and> block_cursor (bt_turns b1) \<noteq> block_cursor (bt_turns b)
         then b1\<lparr> bt_turns := mark_last_block (bt_turns b1) \<rparr> else b1)"

text \<open>Tool calls without an answer in the next user turn get an empty one.\<close>

fun tool_use_id :: "content_block \<Rightarrow> string option" where
  "tool_use_id b = (case cb_body b of ToolUse i _ _ \<Rightarrow> Some i | _ \<Rightarrow> None)"

fun tool_result_id :: "content_block \<Rightarrow> string option" where
  "tool_result_id b = (case cb_body b of ToolResult i _ \<Rightarrow> Some i | _ \<Rightarrow> None)"

definition missing_results :: "string list \<Rightarrow> turn \<Rightarrow> content_block list" where
  "missing_results calls t =
     (let answered = List.map_filter tool_result_id (t_content t)
      in List.map (\<lambda>i. plain_block (ToolResult i None)) (List.filter (\<lambda>i. i \<notin> set answered) calls))"

function synthesize_missing_tool_results :: "turn list \<Rightarrow> turn list" where
  "synthesize_missing_tool_results [] = []"
| "synthesize_missing_tool_results (t # ts) =
     (let calls = (if t_role t = ''assistant'' then List.map_filter tool_use_id (t_content t) else [])
      in if calls = [] then t # synthesize_missing_tool_results ts
         else
           let (next_turn, rest) =
             (if ts = [] \<or> t_role (hd ts) \<noteq> ''user'' then (\<lparr> t_role = ''user'', t_content = [] \<rparr>, ts) else (hd ts, tl ts))
           in t # next_turn\<lparr> t_content := missing_results calls next_turn @ t_content next_turn \<rparr> #
              synthesize_missing_tool_results rest)"
  by pat_completeness auto
termination
  by (relation "measure length") (auto split: if_splits)

definition build_anthropic_messages :: "(string \<Rightarrow> json option) \<Rightarrow> chat_message list \<Rightarrow> system_prompt \<times> turn list" where
  "build_anthropic_messages parse ms =
     (let b = foldl (push_message parse) \<lparr> bt_system = [], bt_system_marked = False, bt_turns = [] \<rparr> ms
      in (\<lparr> sy_text = join (newline @ newline) (bt_system b), sy_marked = bt_system_marked b \<rparr>,
          synthesize_missing_tool_results (bt_turns b)))"

section \<open>The body of a request\<close>

text \<open>A temperature is its number as JSON writes it.\<close>

definition client_placed :: "chat_message list \<Rightarrow> tool_spec list \<Rightarrow> bool" where
  "client_placed ms tools \<longleftrightarrow> list_ex has_client_breakpoint ms \<or> list_ex ts_cache_control tools"

definition tool_json :: "bool \<Rightarrow> tool_spec \<Rightarrow> json" where
  "tool_json hit t =
     JObject ([(''name'', JString (ts_name t)), (''description'', JString (ts_description t)),
               (''input_schema'', ts_parameters t)] @ mark_members hit)"

definition tools_json :: "bool \<Rightarrow> tool_spec list \<Rightarrow> json list" where
  "tools_json placed tools =
     (if placed \<or> tools = [] then List.map (\<lambda>t. tool_json (placed \<and> ts_cache_control t) t) tools
      else List.map (tool_json False) (butlast tools) @ [tool_json True (last tools)])"

definition messages_request_body ::
    "(string \<Rightarrow> json option) \<Rightarrow> string option \<Rightarrow> chat_message list \<Rightarrow> tool_spec list option \<Rightarrow> string option \<Rightarrow>
     bool option \<Rightarrow> nat \<Rightarrow> json" where
  "messages_request_body parse model ms tools temperature stream max_tokens =
     (let placed = client_placed ms (unwrap_or tools []);
          (system, turns0) = build_anthropic_messages parse ms;
          turns = (if placed then turns0 else mark_last_block turns0)
      in JObject
        ([(''messages'', JArray (List.map turn_json turns)), (''max_tokens'', JNumber (show_nat max_tokens))] @
         (case model of None \<Rightarrow> [] | Some m \<Rightarrow> [(''model'', JString m)]) @
         (case stream of None \<Rightarrow> [] | Some b \<Rightarrow> [(''stream'', JBool b)]) @
         (if trim (sy_text system) = [] then []
          else [(''system'', JArray [JObject ([(''type'', JString ''text''), (''text'', JString (sy_text system))] @
                   mark_members (if placed then sy_marked system else True))])]) @
         (case tools of
            None \<Rightarrow> []
          | Some ts \<Rightarrow> if ts = [] then [] else [(''tools'', JArray (tools_json placed ts))]) @
         (case temperature of None \<Rightarrow> [] | Some t \<Rightarrow> [(''temperature'', JNumber t)])))"

text \<open>The classic runtime names the model in the address and its version in the body.\<close>

definition BEDROCK_ANTHROPIC_VERSION :: string where
  "BEDROCK_ANTHROPIC_VERSION = ''bedrock-2023-05-31''"

fun json_insert :: "string \<Rightarrow> json \<Rightarrow> json \<Rightarrow> json" where
  "json_insert k v (JObject ms) = JObject (AList.update k v ms)"
| "json_insert k v other = other"

definition runtime_request_body ::
    "(string \<Rightarrow> json option) \<Rightarrow> chat_message list \<Rightarrow> tool_spec list option \<Rightarrow> string option \<Rightarrow> nat \<Rightarrow> json" where
  "runtime_request_body parse ms tools temperature max_tokens =
     json_insert ''anthropic_version'' (JString BEDROCK_ANTHROPIC_VERSION)
       (messages_request_body parse None ms tools temperature None max_tokens)"

definition invoke_url :: "string \<Rightarrow> string \<Rightarrow> bool \<Rightarrow> string" where
  "invoke_url base_url model streaming =
     base_url @ ''/model/'' @ model @ ''/'' @ (if streaming then ''invoke-with-response-stream'' else ''invoke'')"

fun url_image :: "user_part \<Rightarrow> string option" where
  "url_image (UrlImage url) = Some url"
| "url_image _ = None"

definition unsupported_image_source :: "chat_message list \<Rightarrow> string option" where
  "unsupported_image_source ms =
     (case List.map_filter url_image (concat (List.map wire_user_parts (List.filter (\<lambda>m. m_role m = ''user'') ms))) of
        [] \<Rightarrow> None
      | url # _ \<Rightarrow> Some url)"

section \<open>Usage and replies\<close>

record anthropic_usage =
  au_input :: "nat option"
  au_output :: "nat option"
  au_cache_read :: "nat option"
  au_cache_creation :: "nat option"

definition no_anthropic_usage :: anthropic_usage where
  "no_anthropic_usage = \<lparr> au_input = None, au_output = None, au_cache_read = None, au_cache_creation = None \<rparr>"

definition into_token_usage :: "anthropic_usage \<Rightarrow> token_usage option" where
  "into_token_usage u =
     (let cache_read = unwrap_or (au_cache_read u) 0; cache_creation = unwrap_or (au_cache_creation u) 0
      in believable
           \<lparr> tu_input = map_option (\<lambda>input. sat_add (sat_add input cache_read) cache_creation) (au_input u),
             tu_output = au_output u,
             tu_cached_input = (if 0 < cache_read then Some cache_read else None),
             tu_cache_write = (if 0 < cache_creation then Some cache_creation else None) \<rparr>)"

text \<open>\<^verbatim>\<open>Value::as_u64\<close>, on the text of a number.\<close>

fun json_u64 :: "json \<Rightarrow> nat option" where
  "json_u64 (JNumber t) =
     (if t \<noteq> [] \<and> list_all is_digit t \<and> digits_value t \<le> u64_max then Some (digits_value t) else None)"
| "json_u64 _ = None"

text \<open>
  The decoding of a reply: absent and null fields are absent, a field of another type is refused.  An
  array in the place of an object, which \<^verbatim>\<open>serde\<close> reads field by field, is not modelled.
\<close>

definition optional_field :: "(json \<Rightarrow> 'a option) \<Rightarrow> string \<Rightarrow> json \<Rightarrow> 'a option option" where
  "optional_field read k v =
     (case json_get k v of
        None \<Rightarrow> Some None
      | Some JNull \<Rightarrow> Some None
      | Some x \<Rightarrow> map_option Some (read x))"

definition decode_usage :: "json \<Rightarrow> anthropic_usage option" where
  "decode_usage v =
     (if \<not> is_object v then None
      else case (optional_field json_u64 ''input_tokens'' v, optional_field json_u64 ''output_tokens'' v,
                 optional_field json_u64 ''cache_read_input_tokens'' v, optional_field json_u64 ''cache_creation_input_tokens'' v) of
             (Some i, Some out, Some r, Some w) \<Rightarrow>
               Some \<lparr> au_input = i, au_output = out, au_cache_read = r, au_cache_creation = w \<rparr>
           | _ \<Rightarrow> None)"

record messages_envelope =
  me_content :: "json list"
  me_usage :: "anthropic_usage option"
  me_stop_reason :: "string option"

fun json_items :: "json \<Rightarrow> json list option" where
  "json_items (JArray vs) = Some vs"
| "json_items _ = None"

definition decode_envelope :: "json \<Rightarrow> messages_envelope option" where
  "decode_envelope v =
     (if \<not> is_object v then None
      else case ((case json_get ''content'' v of None \<Rightarrow> Some [] | Some x \<Rightarrow> json_items x),
                 optional_field decode_usage ''usage'' v, optional_field json_str ''stop_reason'' v) of
             (Some c, Some u, Some r) \<Rightarrow> Some \<lparr> me_content = c, me_usage = u, me_stop_reason = r \<rparr>
           | _ \<Rightarrow> None)"

definition anthropic_stop_reason :: "string option \<Rightarrow> stop_reason option" where
  "anthropic_stop_reason r =
     (case r of
        None \<Rightarrow> None
      | Some s \<Rightarrow>
          if s = ''end_turn'' \<or> s = ''stop_sequence'' then Some StopEnd
          else if s = ''max_tokens'' then Some StopLength
          else if s = ''tool_use'' then Some StopToolCalls
          else if s = ''refusal'' then Some StopContentFilter
          else None)"

definition text_of_block :: "json \<Rightarrow> string option" where
  "text_of_block b = (if str_member ''type'' b = Some ''text'' then str_member ''text'' b else None)"

definition call_of_block :: "(json \<Rightarrow> string) \<Rightarrow> json \<Rightarrow> tool_call option" where
  "call_of_block show_json b =
     (if str_member ''type'' b = Some ''tool_use''
      then Some \<lparr> tc_id = unwrap_or (str_member ''id'' b) [], tc_name = unwrap_or (str_member ''name'' b) [],
                  tc_arguments = (case json_get ''input'' b of None \<Rightarrow> ''{}'' | Some v \<Rightarrow> show_json v),
                  tc_extra_content = None \<rparr>
      else None)"

definition parse_messages_envelope :: "(json \<Rightarrow> string) \<Rightarrow> messages_envelope \<Rightarrow> chat_response" where
  "parse_messages_envelope show_json e =
     (let texts = List.map_filter text_of_block (me_content e)
      in \<lparr> cr_text = (if texts = [] then None else Some (concat texts)),
           cr_tool_calls = List.map_filter (call_of_block show_json) (me_content e),
           cr_usage = Option.bind (me_usage e) into_token_usage,
           cr_reasoning_content = None,
           cr_stop_reason = anthropic_stop_reason (me_stop_reason e) \<rparr>)"

text \<open>
  What is made of an answer whose status is already known.  The reason phrase of a status is the
  \<^verbatim>\<open>http\<close> package's; \<^verbatim>\<open>parse\<close> gives the value of a body or the
  parser's complaint, \<^verbatim>\<open>complaint\<close> what it says of a value of another shape.
\<close>

definition status_error :: "(nat \<Rightarrow> string option) \<Rightarrow> string \<Rightarrow> string \<Rightarrow> nat \<Rightarrow> string \<Rightarrow> string" where
  "status_error reason alias api code body =
     alias @ '' '' @ api @ '' error: HTTP '' @ show_nat code @ '' '' @ unwrap_or (reason code) ''error'' @ '': '' @ body"

definition answered ::
    "(nat \<Rightarrow> string option) \<Rightarrow> (string \<Rightarrow> string + json) \<Rightarrow> (json \<Rightarrow> string) \<Rightarrow> (json \<Rightarrow> string) \<Rightarrow> string \<Rightarrow> string \<Rightarrow> nat \<Rightarrow>
     string option list \<Rightarrow> (string, chat_response) result" where
  "answered reason parse complaint show_json alias api code pieces =
     (let (body, truncated) = bounded_body pieces
      in if \<not> (200 \<le> code \<and> code < 300) then Inl (status_error reason alias api code body)
         else if truncated
         then Inl (alias @ '' '' @ api @ '' body exceeded '' @ show_nat MAX_RESPONSE_BYTES @ '' bytes'')
         else case parse body of
                Inl e \<Rightarrow> Inl (alias @ '' '' @ api @ '' returned unparseable JSON: '' @ e)
              | Inr v \<Rightarrow>
                  (case decode_envelope v of
                     None \<Rightarrow> Inl (alias @ '' '' @ api @ '' returned unparseable JSON: '' @ complaint v)
                   | Some e \<Rightarrow> Inr (parse_messages_envelope show_json e)))"

definition messages_answer ::
    "(nat \<Rightarrow> string option) \<Rightarrow> (string \<Rightarrow> string + json) \<Rightarrow> (json \<Rightarrow> string) \<Rightarrow> (json \<Rightarrow> string) \<Rightarrow> string \<Rightarrow> nat \<Rightarrow> string option list \<Rightarrow>
     (string, chat_response) result" where
  "messages_answer reason parse complaint show_json alias code pieces =
     answered reason parse complaint show_json alias ''messages API'' code pieces"

definition runtime_answer ::
    "(nat \<Rightarrow> string option) \<Rightarrow> (string \<Rightarrow> string + json) \<Rightarrow> (json \<Rightarrow> string) \<Rightarrow> (json \<Rightarrow> string) \<Rightarrow> string \<Rightarrow> nat \<Rightarrow> string option list \<Rightarrow>
     (string, chat_response) result" where
  "runtime_answer reason parse complaint show_json alias code pieces =
     answered reason parse complaint show_json alias ''bedrock runtime'' code pieces"

section \<open>The turns that are sent\<close>

definition block_ok :: "block_body \<Rightarrow> bool" where
  "block_ok b \<longleftrightarrow> (case b of TextBlock t \<Rightarrow> trim t \<noteq> [] | _ \<Rightarrow> True)"

definition turn_ok :: "turn \<Rightarrow> bool" where
  "turn_ok t \<longleftrightarrow>
     (t_role t = ''user'' \<or> t_role t = ''assistant'') \<and> t_content t \<noteq> [] \<and> list_all (\<lambda>b. block_ok (cb_body b)) (t_content t)"

definition alternating :: "turn list \<Rightarrow> bool" where
  "alternating ts \<longleftrightarrow> successively (\<lambda>t u. t_role t \<noteq> t_role u) ts"

definition turns_ok :: "turn list \<Rightarrow> bool" where
  "turns_ok ts \<longleftrightarrow> list_all turn_ok ts \<and> alternating ts"

definition calls_of :: "turn \<Rightarrow> string list" where
  "calls_of t = (if t_role t = ''assistant'' then List.map_filter tool_use_id (t_content t) else [])"

definition results_of :: "turn \<Rightarrow> string list" where
  "results_of t = (if t_role t = ''user'' then List.map_filter tool_result_id (t_content t) else [])"

fun calls_answered :: "turn list \<Rightarrow> bool" where
  "calls_answered [] = True"
| "calls_answered [t] = (calls_of t = [])"
| "calls_answered (t # u # ts) = (set (calls_of t) \<subseteq> set (results_of u) \<and> calls_answered (u # ts))"

lemma turns_ok_Nil [simp]: "turns_ok []"
  by (simp add: turns_ok_def alternating_def)

lemma turns_ok_snoc:
  "turns_ok (ts @ [t]) \<longleftrightarrow> turns_ok ts \<and> turn_ok t \<and> (ts = [] \<or> t_role (last ts) \<noteq> t_role t)"
  by (auto simp: turns_ok_def alternating_def successively_append_iff)

lemma turns_ok_last:
  assumes "turns_ok ts" "ts \<noteq> []" "turn_ok t" "t_role t = t_role (last ts)"
  shows "turns_ok (butlast ts @ [t])"
  using assms turns_ok_snoc [of "butlast ts" "last ts"] turns_ok_snoc [of "butlast ts" t] by simp

lemma last_turn_ok: "turns_ok ts \<Longrightarrow> ts \<noteq> [] \<Longrightarrow> turn_ok (last ts)"
  by (simp add: turns_ok_def list_all_iff)

lemma push_block_ok:
  assumes "turns_ok ts" "block_ok b" "role = ''user'' \<or> role = ''assistant''"
  shows "turns_ok (push_anthropic_block role b ts)"
proof (cases "ts \<noteq> [] \<and> t_role (last ts) = role")
  case True
  then show ?thesis
    using assms last_turn_ok [OF assms(1)]
    by (auto simp: push_anthropic_block_def turn_ok_def plain_block_def intro!: turns_ok_last)
next
  case False
  then show ?thesis
    using assms by (auto simp: push_anthropic_block_def turns_ok_snoc turn_ok_def plain_block_def)
qed

lemma mark_last_ok:
  assumes "turns_ok ts"
  shows "turns_ok (mark_last_block ts)"
proof (cases "ts = [] \<or> t_content (last ts) = []")
  case False
  then have "turn_ok ((last ts)\<lparr> t_content := butlast (t_content (last ts)) @ [(last (t_content (last ts)))\<lparr> cb_marked := True \<rparr>] \<rparr>)"
    using last_turn_ok [OF assms] by (auto simp: turn_ok_def list_all_iff in_set_butlastD)
  then show ?thesis
    using False assms by (auto simp: mark_last_block_def Let_def intro!: turns_ok_last)
qed (use assms in \<open>auto simp: mark_last_block_def\<close>)

lemma foldl_turns_ok:
  assumes "\<And>ts x. turns_ok ts \<Longrightarrow> x \<in> set xs \<Longrightarrow> turns_ok (f ts x)" "turns_ok ts"
  shows "turns_ok (foldl f ts xs)"
  using assms by (induction xs arbitrary: ts) auto

lemma classified_ok: "classified_part p = Some (q, c) \<Longrightarrow> block_ok (user_block q)"
  by (cases p) (auto simp: block_ok_def image_part_def split: if_splits option.splits)

lemma user_part_ok: "p \<in> set (user_parts_cached m) \<Longrightarrow> block_ok (user_block (fst p))"
proof (cases "m_parts m = []")
  case True
  then show "block_ok (user_block (fst p))" if "p \<in> set (user_parts_cached m)"
    using that by (auto simp: user_parts_cached_def block_ok_def split: if_splits)
next
  case False
  then show "block_ok (user_block (fst p))" if "p \<in> set (user_parts_cached m)"
    using that by (cases p) (auto simp: user_parts_cached_def List.map_filter_def dest: classified_ok)
qed

lemma push_user_content_ok: "turns_ok ts \<Longrightarrow> turns_ok (push_user_content m ts)"
  unfolding push_user_content_def
  by (rule foldl_turns_ok) (auto simp: push_user_part_def Let_def intro!: mark_last_ok push_block_ok user_part_ok)

lemma push_assistant_ok:
  assumes "turns_ok ts"
  shows "turns_ok (push_assistant parse c ts)"
proof -
  have calls: "turns_ok (foldl (push_call parse) us vs)" if "turns_ok us" for us vs
    using that by (intro foldl_turns_ok) (auto simp: push_call_def block_ok_def intro!: push_block_ok)
  show ?thesis
    using assms
    by (auto simp: push_assistant_def Let_def block_ok_def split: option.splits intro!: calls push_block_ok)
qed

lemma push_message_ok:
  assumes "turns_ok (bt_turns b)"
  shows "turns_ok (bt_turns (push_message parse b m))"
proof -
  have "turns_ok (push_tool_result parse c (bt_turns b))" for c
    using assms by (auto simp: push_tool_result_def block_ok_def split: prod.splits intro!: push_block_ok)
  then show ?thesis
    using assms push_user_content_ok push_assistant_ok by (simp add: push_message_def Let_def mark_last_ok)
qed

lemma built_ok: "turns_ok (bt_turns b) \<Longrightarrow> turns_ok (bt_turns (foldl (push_message parse) b ms))"
  by (induction ms arbitrary: b) (simp_all add: push_message_ok)

lemma alternating_Cons: "alternating (t # ts) \<longleftrightarrow> (ts = [] \<or> t_role t \<noteq> t_role (hd ts)) \<and> alternating ts"
  by (cases ts) (simp_all add: alternating_def)

lemma results_of_missing:
  "t_role u = ''user'' \<Longrightarrow>
     set calls \<subseteq> set (results_of (u\<lparr> t_content := missing_results calls u @ t_content u \<rparr>))"
  by (auto simp: results_of_def missing_results_def List.map_filter_def plain_block_def image_iff)

lemma missing_results_ok:
  "turn_ok u \<or> (t_role u = ''user'' \<and> t_content u = [] \<and> calls \<noteq> []) \<Longrightarrow>
     turn_ok (u\<lparr> t_content := missing_results calls u @ t_content u \<rparr>)"
  by (auto simp: turn_ok_def missing_results_def plain_block_def block_ok_def list_all_iff List.map_filter_def)

lemma synthesize_Nil: "synthesize_missing_tool_results ts = [] \<longleftrightarrow> ts = []"
  by (cases ts) (simp_all add: Let_def split: prod.splits)

lemma hd_synthesize: "ts \<noteq> [] \<Longrightarrow> hd (synthesize_missing_tool_results ts) = hd ts"
  by (cases ts) (simp_all add: Let_def split: prod.splits)

lemma synthesized_turns:
  "turns_ok ts \<Longrightarrow> turns_ok (synthesize_missing_tool_results ts) \<and> calls_answered (synthesize_missing_tool_results ts)"
proof (induction ts rule: synthesize_missing_tool_results.induct)
  case (2 t ts)
  define calls where "calls = calls_of t"
  have t: "turn_ok t" "turns_ok ts" "ts = [] \<or> t_role t \<noteq> t_role (hd ts)"
    using "2.prems" by (auto simp: turns_ok_def alternating_Cons)
  show ?case
  proof (cases "calls = []")
    case True
    then have e: "synthesize_missing_tool_results (t # ts) = t # synthesize_missing_tool_results ts"
      by (simp add: calls_def calls_of_def Let_def)
    have ih: "turns_ok (synthesize_missing_tool_results ts)" "calls_answered (synthesize_missing_tool_results ts)"
      using "2.IH"(1) [OF refl] t(2) True by (simp_all add: calls_def calls_of_def)
    have "calls_answered (t # us) = calls_answered us" if "calls_answered us" for us
      using True that by (cases us) (simp_all add: calls_def)
    then show ?thesis
      using e ih t hd_synthesize [of ts] by (auto simp: turns_ok_def alternating_Cons synthesize_Nil)
  next
    case False
    then have role: "t_role t = ''assistant''"
      by (auto simp: calls_def calls_of_def split: if_splits)
    define fresh_turn where "fresh_turn = (ts = [] \<or> t_role (hd ts) \<noteq> ''user'')"
    define u where "u = (if fresh_turn then \<lparr> t_role = ''user'', t_content = [] \<rparr> else hd ts)"
    define rest where "rest = (if fresh_turn then ts else tl ts)"
    define v where "v = u\<lparr> t_content := missing_results calls u @ t_content u \<rparr>"
    have e: "synthesize_missing_tool_results (t # ts) = t # v # synthesize_missing_tool_results rest"
      using False role
      by (simp add: calls_def calls_of_def Let_def v_def u_def rest_def fresh_turn_def)
    have next_user: "t_role (hd ts) = ''user''" if "ts \<noteq> []"
      using t role that by (cases ts) (auto simp: turns_ok_def turn_ok_def)
    have user: "t_role u = ''user''"
      using next_user by (cases "ts = []") (simp_all add: u_def fresh_turn_def)
    have rest_is: "rest = tl ts"
      using next_user by (cases "ts = []") (simp_all add: rest_def fresh_turn_def)
    have rest: "turns_ok rest" "rest = [] \<or> t_role (hd rest) \<noteq> ''user''"
    proof -
      have "turns_ok (tl ts)" "tl ts = [] \<or> t_role (hd ts) \<noteq> t_role (hd (tl ts))"
        using t(2) by (cases ts; auto simp: turns_ok_def alternating_Cons)+
      then show "turns_ok rest" "rest = [] \<or> t_role (hd rest) \<noteq> ''user''"
        unfolding rest_is using next_user by fastforce+
    qed
    have ih: "turns_ok (synthesize_missing_tool_results rest)" "calls_answered (synthesize_missing_tool_results rest)"
      using "2.IH"(2) [OF refl _ refl, of u rest] False role rest(1)
      by (simp_all add: calls_def calls_of_def u_def rest_def fresh_turn_def)
    have "turn_ok u \<or> (t_role u = ''user'' \<and> t_content u = [] \<and> calls \<noteq> [])"
      using t(2) False by (cases ts) (auto simp: u_def fresh_turn_def turns_ok_def)
    then have v: "turn_ok v" "t_role v = ''user''"
      using missing_results_ok user by (auto simp: v_def)
    have "calls_of v = []"
      using v by (simp add: calls_of_def)
    then have "calls_answered (v # synthesize_missing_tool_results rest)"
      using ih(2) by (cases "synthesize_missing_tool_results rest") simp_all
    moreover have "set calls \<subseteq> set (results_of v)"
      using results_of_missing [OF user] by (simp add: v_def)
    ultimately show ?thesis
      using e ih(1) t(1) v role rest(2) hd_synthesize [of rest]
      by (auto simp: turns_ok_def alternating_Cons synthesize_Nil calls_def)
  qed
qed simp

text \<open>C18: Every conversation the wire of the Messages API sends is one that the API admits, whatever history the client sent: user and assistant turns alternate, no turn is empty and no text block is blank, and every tool call of an assistant turn is answered in the turn that follows it (by an empty result where the client sent none).\<close>

theorem sent_turns_admissible:
  "turns_ok (snd (build_anthropic_messages parse ms)) \<and> calls_answered (snd (build_anthropic_messages parse ms))"
  using synthesized_turns [OF built_ok] by (simp add: build_anthropic_messages_def Let_def)

section \<open>The cache marks that are sent\<close>

definition has_mark :: "json \<Rightarrow> bool" where
  "has_mark v \<longleftrightarrow> json_get ''cache_control'' v \<noteq> None"

definition json_marks :: "json list \<Rightarrow> nat" where
  "json_marks vs = length (List.filter has_mark vs)"

definition body_marks :: "json \<Rightarrow> nat" where
  "body_marks body =
     json_marks (array_items (json_get ''system'' body)) + json_marks (array_items (json_get ''tools'' body)) +
     sum_list (List.map (\<lambda>t. json_marks (array_items (json_get ''content'' t))) (array_items (json_get ''messages'' body)))"

definition marks_of :: "turn list \<Rightarrow> nat" where
  "marks_of ts = sum_list (List.map (\<lambda>t. length (List.filter cb_marked (t_content t))) ts)"

lemma block_json_mark: "has_mark (block_json b) = cb_marked b"
  by (cases "cb_body b") (auto simp: has_mark_def block_json_def mark_members_def split: option.splits)

lemma turn_json_marks: "json_marks (array_items (json_get ''content'' (turn_json t))) = length (List.filter cb_marked (t_content t))"
  by (simp add: turn_json_def json_marks_def filter_map comp_def block_json_mark)

lemma tool_json_mark: "has_mark (tool_json hit t) = hit"
  by (simp add: has_mark_def tool_json_def mark_members_def)

lemma tools_json_marks:
  "json_marks (tools_json placed ts) =
     (if placed then length (List.filter ts_cache_control ts) else if ts = [] then 0 else 1)"
  by (auto simp: tools_json_def json_marks_def filter_map comp_def tool_json_mark)

lemma marks_append: "marks_of (ts @ us) = marks_of ts + marks_of us"
  by (simp add: marks_of_def)

lemma marks_butlast: "ts \<noteq> [] \<Longrightarrow> marks_of ts = marks_of (butlast ts) + length (List.filter cb_marked (t_content (last ts)))"
  using marks_append [of "butlast ts" "[last ts]"] by (simp add: marks_of_def)

lemma push_block_marks: "marks_of (push_anthropic_block role b ts) = marks_of ts"
proof (cases "ts \<noteq> [] \<and> t_role (last ts) = role")
  case True
  then show ?thesis
    using marks_butlast [of ts] by (simp add: push_anthropic_block_def marks_append plain_block_def) (simp add: marks_of_def)
next
  case False
  then show ?thesis
    by (auto simp: push_anthropic_block_def plain_block_def marks_of_def)
qed

lemma marks_snoc: "marks_of (ts @ [t]) = marks_of ts + length (List.filter cb_marked (t_content t))"
  by (simp add: marks_of_def)

lemma mark_last_marks: "marks_of (mark_last_block ts) \<le> marks_of ts + 1"
proof (cases ts rule: rev_cases)
  case (snoc us t)
  show ?thesis
  proof (cases "t_content t" rule: rev_cases)
    case (snoc bs b)
    then show ?thesis
      by (simp add: \<open>ts = us @ [t]\<close> mark_last_block_def marks_snoc)
  qed (simp add: snoc mark_last_block_def)
qed (simp add: mark_last_block_def)

lemma foldl_marks:
  assumes "\<And>ts x. marks_of (f ts x) \<le> marks_of ts + (if P x then 1 else 0)"
  shows "marks_of (foldl f ts xs) \<le> marks_of ts + length (List.filter P xs)"
proof (induction xs arbitrary: ts)
  case (Cons x xs)
  show ?case
    using Cons.IH [of "f ts x"] assms [of ts x] by auto
qed simp

lemma classified_marks:
  "length (List.filter snd (List.map_filter classified_part ps)) \<le> length (List.filter part_cache_control ps)"
proof (induction ps)
  case (Cons p ps)
  then show ?case
    by (cases p) (auto simp: map_filter_simps)
qed (simp add: map_filter_simps)

lemma user_content_marks: "marks_of (push_user_content m ts) \<le> marks_of ts + length (List.filter part_cache_control (m_parts m))"
proof -
  have "marks_of (push_user_part us p) \<le> marks_of us + (if snd p then 1 else 0)" for us p
    using mark_last_marks [of "push_anthropic_block ''user'' (user_block (fst p)) us"]
    by (simp add: push_user_part_def Let_def push_block_marks)
  then have "marks_of (push_user_content m ts) \<le> marks_of ts + length (List.filter snd (user_parts_cached m))"
    unfolding push_user_content_def by (rule foldl_marks)
  then show ?thesis
    using classified_marks [of "m_parts m"] by (auto simp: user_parts_cached_def split: if_splits)
qed

lemma push_calls_marks: "marks_of (foldl (push_call parse) ts vs) = marks_of ts"
  by (induction vs arbitrary: ts) (simp_all add: push_call_def push_block_marks)

lemma push_assistant_marks: "marks_of (push_assistant parse c ts) = marks_of ts"
  by (simp add: push_assistant_def Let_def push_calls_marks push_block_marks split: option.splits)

lemma push_tool_marks: "marks_of (push_tool_result parse c ts) = marks_of ts"
  by (simp add: push_tool_result_def push_block_marks split: prod.splits)

definition built_marks :: "built \<Rightarrow> nat" where
  "built_marks b = marks_of (bt_turns b) + (if bt_system_marked b then 1 else 0)"

lemma push_message_marks: "built_marks (push_message parse b m) \<le> built_marks b + turn_marks m"
proof -
  have final: "marks_of (if m_cache_control m \<and> k then mark_last_block ts else ts) \<le> marks_of ts + (if m_cache_control m then 1 else 0)" for k ts
    using mark_last_marks [of ts] by simp
  consider "m_role m = ''system''" | "m_role m = ''user''" | "m_role m \<noteq> ''system''" "m_role m \<noteq> ''user''"
    by blast
  then show ?thesis
  proof cases
    case 1
    then show ?thesis
      by (auto simp: push_message_def Let_def built_marks_def turn_marks_def)
  next
    case 2
    then show ?thesis
      using user_content_marks [of m "bt_turns b"] mark_last_marks [of "push_user_content m (bt_turns b)"]
      by (auto simp: push_message_def Let_def built_marks_def turn_marks_def)
  next
    case 3
    then show ?thesis
      using mark_last_marks [of "push_assistant parse (m_content m) (bt_turns b)"]
        mark_last_marks [of "push_tool_result parse (m_content m) (bt_turns b)"]
      by (auto simp: push_message_def Let_def built_marks_def turn_marks_def push_assistant_marks push_tool_marks)
  qed
qed

lemma foldl_built_marks: "built_marks (foldl (push_message parse) b ms) \<le> built_marks b + sum_list (List.map turn_marks ms)"
proof (induction ms arbitrary: b)
  case (Cons m ms)
  show ?case
    using Cons.IH [of "push_message parse b m"] push_message_marks [of parse b m] by simp
qed simp

lemma synthesize_marks: "marks_of (synthesize_missing_tool_results ts) = marks_of ts"
proof (induction ts rule: synthesize_missing_tool_results.induct)
  case (2 t ts)
  have plain: "List.filter cb_marked (missing_results c u) = []" for c u
    by (auto simp: missing_results_def plain_block_def filter_empty_conv)
  have "marks_of (hd ts # us) = length (List.filter cb_marked (t_content (hd ts))) + marks_of us" for us
    by (simp add: marks_of_def)
  show ?case
  proof (cases "(if t_role t = ''assistant'' then List.map_filter tool_use_id (t_content t) else []) = []")
    case True
    then show ?thesis
      using "2.IH"(1) [OF refl] by (simp add: Let_def marks_of_def)
  next
    case False
    show ?thesis
    proof (cases "ts = [] \<or> t_role (hd ts) \<noteq> ''user''")
      case True
      then show ?thesis
        using "2.IH"(2) [OF refl _ refl, of "\<lparr> t_role = ''user'', t_content = [] \<rparr>" ts] False
        by (auto simp: Let_def marks_of_def plain)
    next
      case user: False
      then show ?thesis
        using "2.IH"(2) [OF refl _ refl, of "hd ts" "tl ts"] False
        by (cases ts) (auto simp: Let_def marks_of_def plain)
    qed
  qed
qed simp

lemma built_body_marks:
  "body_marks (messages_request_body parse model ms tools temperature stream max_tokens) \<le>
     (if client_placed ms (unwrap_or tools [])
      then sum_list (List.map turn_marks ms) + length (List.filter ts_cache_control (unwrap_or tools []))
      else 3)"
proof -
  define placed where "placed = client_placed ms (unwrap_or tools [])"
  define b where "b = foldl (push_message parse) \<lparr> bt_system = [], bt_system_marked = False, bt_turns = [] \<rparr> ms"
  define turns where "turns = (if placed then synthesize_missing_tool_results (bt_turns b) else mark_last_block (synthesize_missing_tool_results (bt_turns b)))"
  define body where "body = messages_request_body parse model ms tools temperature stream max_tokens"
  have messages: "json_get ''messages'' body = Some (JArray (List.map turn_json turns))"
    by (simp add: body_def messages_request_body_def Let_def build_anthropic_messages_def turns_def placed_def b_def)
  have system: "json_marks (array_items (json_get ''system'' body)) \<le> (if placed \<longrightarrow> bt_system_marked b then 1 else 0)"
    by (cases model; cases stream; cases tools; cases temperature)
      (auto simp: body_def messages_request_body_def Let_def build_anthropic_messages_def placed_def b_def json_marks_def
        mark_members_def has_mark_def)
  have tools: "json_marks (array_items (json_get ''tools'' body)) \<le>
      (if placed then length (List.filter ts_cache_control (unwrap_or tools [])) else 1)"
    by (cases model; cases stream; cases tools; cases temperature)
      (auto simp: body_def messages_request_body_def Let_def build_anthropic_messages_def placed_def tools_json_marks
        json_marks_def [of "[]"] unwrap_or_def)
  have content: "sum_list (List.map (\<lambda>t. json_marks (array_items (json_get ''content'' t))) (array_items (json_get ''messages'' body))) = marks_of turns"
    by (simp add: messages comp_def turn_json_marks marks_of_def)
  have built: "built_marks b \<le> sum_list (List.map turn_marks ms)"
    using foldl_built_marks [of parse "\<lparr> bt_system = [], bt_system_marked = False, bt_turns = [] \<rparr>" ms]
    by (simp add: b_def built_marks_def marks_of_def)
  show ?thesis
  proof (cases placed)
    case True
    then show ?thesis
      using system tools content built synthesize_marks [of "bt_turns b"]
      by (auto simp: body_marks_def placed_def [symmetric] body_def [symmetric] turns_def built_marks_def split: if_splits)
  next
    case False
    then have "list_all (\<lambda>m. turn_marks m = 0) ms"
      by (auto simp: placed_def client_placed_def list_ex_iff list_all_iff has_client_breakpoint_def turn_marks_def filter_empty_conv)
    then have "sum_list (List.map turn_marks ms) = 0"
      by (induction ms) simp_all
    then have "built_marks b = 0"
      using built by linarith
    then have "marks_of turns \<le> 1"
      using False mark_last_marks [of "synthesize_missing_tool_results (bt_turns b)"]
      by (simp add: turns_def synthesize_marks built_marks_def)
    then show ?thesis
      using False system tools content
      by (simp add: body_marks_def placed_def [symmetric] body_def [symmetric])
  qed
qed

lemma json_insert_other: "k \<noteq> k' \<Longrightarrow> is_object body \<Longrightarrow> json_get k' (json_insert k v body) = json_get k' body"
  by (cases body) (simp_all add: is_object_def update_conv)

text \<open>C19: No request that passes validation makes the wire send more than the four cache marks the Messages API takes: what is sent carries at most one mark for each the client placed, and the three of the wire only where the client placed none, on the Messages endpoint and on the classic runtime alike.\<close>

theorem at_most_four_marks_sent:
  assumes "\<not> contains_unsupported_extensions parse_url r" and "cache_breakpoints r = Inr n"
    and "tools = None \<or> tools = Some (provider_tools r)"
  shows "body_marks (messages_request_body parse model (provider_messages show_json r) tools temperature stream max_tokens) \<le> MAX_CACHE_BREAKPOINTS \<and>
      body_marks (runtime_request_body parse (provider_messages show_json r) tools temperature max_tokens) \<le> MAX_CACHE_BREAKPOINTS"
proof -
  have "sent_marks show_json r \<le> MAX_CACHE_BREAKPOINTS"
    using cache_marks_sent [OF assms(1), of show_json] assms(2)
    by (auto simp: cache_breakpoints_def Let_def split: sum.splits if_splits)
  then have "body_marks (messages_request_body parse model (provider_messages show_json r) tools temperature stream max_tokens)
      \<le> MAX_CACHE_BREAKPOINTS" for model stream
    using built_body_marks [of parse model "provider_messages show_json r" tools temperature stream max_tokens] assms(3)
    by (auto simp: sent_marks_def MAX_CACHE_BREAKPOINTS_def unwrap_or_def split: if_splits)
  moreover have "body_marks (json_insert ''anthropic_version'' v body) = body_marks body" if "is_object body" for v body
    using that by (simp add: body_marks_def json_insert_other)
  moreover have "is_object (messages_request_body parse model ms tools temperature stream max_tokens)" for model ms stream
    by (simp add: messages_request_body_def Let_def is_object_def split: prod.splits)
  ultimately show ?thesis
    by (simp add: runtime_request_body_def)
qed

section \<open>What a reply is billed\<close>

lemma sat_add_believed: "sat_add a b \<le> MAX_BELIEVABLE_TOKENS \<Longrightarrow> sat_add a b = a + b"
  by (auto simp: sat_add_def u64_max_def MAX_BELIEVABLE_TOKENS_def min_def split: if_splits)

lemma believable_Some: "believable u = Some v \<longleftrightarrow> v = u \<and>
    (\<forall>n \<in> set_option (tu_input u) \<union> set_option (tu_output u) \<union> set_option (tu_cached_input u) \<union> set_option (tu_cache_write u).
      n \<le> MAX_BELIEVABLE_TOKENS)"
  by (auto simp: believable_def Let_def split: option.splits)

text \<open>Of the counts of a believed reply, the prompt is the sum of its three buckets.\<close>

lemma into_token_usage_Some:
  assumes "into_token_usage \<lparr> au_input = Some i, au_output = out, au_cache_read = r, au_cache_creation = w \<rparr> = Some u"
  shows "tu_input u = Some (i + unwrap_or r 0 + unwrap_or w 0)" "tu_output u = out"
    "unwrap_or (tu_cached_input u) 0 = unwrap_or r 0" "unwrap_or (tu_cache_write u) 0 = unwrap_or w 0"
    "i + unwrap_or r 0 + unwrap_or w 0 \<le> MAX_BELIEVABLE_TOKENS" "\<forall>n \<in> set_option out. n \<le> MAX_BELIEVABLE_TOKENS"
proof -
  define s where "s = sat_add (sat_add i (unwrap_or r 0)) (unwrap_or w 0)"
  have u: "tu_input u = Some s" "tu_output u = out" "s \<le> MAX_BELIEVABLE_TOKENS" "\<forall>n \<in> set_option out. n \<le> MAX_BELIEVABLE_TOKENS"
    "unwrap_or (tu_cached_input u) 0 = unwrap_or r 0" "unwrap_or (tu_cache_write u) 0 = unwrap_or w 0"
    using assms by (auto simp: into_token_usage_def Let_def believable_Some s_def unwrap_or_def)
  have "sat_add i (unwrap_or r 0) \<le> u64_max"
    by (rule sat_add_le)
  then have "sat_add i (unwrap_or r 0) \<le> s"
    unfolding s_def by (rule sat_add_ge1)
  then have "s = i + unwrap_or r 0 + unwrap_or w 0"
    using u(3) sat_add_believed by (simp add: s_def)
  then show "tu_input u = Some (i + unwrap_or r 0 + unwrap_or w 0)" "tu_output u = out"
    "unwrap_or (tu_cached_input u) 0 = unwrap_or r 0" "unwrap_or (tu_cache_write u) 0 = unwrap_or w 0"
    "i + unwrap_or r 0 + unwrap_or w 0 \<le> MAX_BELIEVABLE_TOKENS" "\<forall>n \<in> set_option out. n \<le> MAX_BELIEVABLE_TOKENS"
    using u by simp_all
qed

text \<open>C17: What the upstream states in three disjoint buckets is billed bucket by bucket: from a reply of the Messages API whose usage is believable, the cost is the uncached tokens at the input rate, the cache reads at the rate of cached input, the cache writes at the rate of writes and the output at its own, each count as the upstream stated it.\<close>

theorem anthropic_usage_billed_by_bucket:
  assumes "decimal_exact D" "conversion_ok D" "rates_billable D rates"
    and "into_token_usage \<lparr> au_input = Some i, au_output = Some out, au_cache_read = r, au_cache_creation = w \<rparr> = Some u"
    and "try_from_provider (Some u) = Some v"
  shows "usage_cost D rates v =
      Some ((of_nat i * price D (billed_input rates) + of_nat (unwrap_or r 0) * price D (billed_cached rates) +
             of_nat (unwrap_or w 0) * price D (billed_write rates) + of_nat out * price D (billed_output rates)) / 1000000)"
proof -
  note u = into_token_usage_Some [OF assms(4)]
  have v: "v = mk_usage (i + unwrap_or r 0 + unwrap_or w 0) (unwrap_or r 0) (unwrap_or w 0) out"
    using assms(5) u by (auto simp: try_from_provider_def Let_def split: if_splits)
  have parts: "cached_input_tokens v = unwrap_or r 0" "cache_write_tokens v = unwrap_or w 0"
    "prompt_tokens v = i + unwrap_or r 0 + unwrap_or w 0" "completion_tokens v = out"
    by (auto simp: v mk_usage_def cached_input_tokens_def cache_write_tokens_def)
  then have "cached_part v = unwrap_or r 0" "written_part v = unwrap_or w 0" "fresh_part v = i"
    by (simp_all add: cached_part_def written_part_def fresh_part_def)
  moreover have "prompt_tokens v \<le> max_priced_tokens" "completion_tokens v \<le> max_priced_tokens"
    using u(5,6) parts by (simp_all add: max_priced_tokens_def MAX_BELIEVABLE_TOKENS_def)
  ultimately show ?thesis
    using usage_cost_exact [OF assms(1-3)] by (simp add: exact_cost_def parts)
qed

lemma at_most_four_marks_sent_witness:
  "body_marks (messages_request_body (\<lambda>_. None) (Some ''m'') (provider_messages (\<lambda>_. []) demo_chat) None None None 16) \<le> MAX_CACHE_BREAKPOINTS"
proof -
  have "cache_breakpoints demo_chat = Inr 1"
    by code_simp
  then show ?thesis
    using at_most_four_marks_sent [OF demo_chat_supported] by blast
qed

lemma anthropic_usage_billed_by_bucket_witness:
  "usage_cost exact_decimal (base demo_schedule) (mk_usage 60 20 30 5) =
     Some ((10 * price exact_decimal (billed_input (base demo_schedule)) + 20 * price exact_decimal (billed_cached (base demo_schedule)) +
            30 * price exact_decimal (billed_write (base demo_schedule)) + 5 * price exact_decimal (billed_output (base demo_schedule))) / 1000000)"
proof -
  have b: "rates_billable exact_decimal (base demo_schedule)"
    using demo_schedule_billable by (simp add: tables_def)
  have u: "into_token_usage \<lparr> au_input = Some 10, au_output = Some 5, au_cache_read = Some 20, au_cache_creation = Some 30 \<rparr> =
      Some \<lparr> tu_input = Some 60, tu_output = Some 5, tu_cached_input = Some 20, tu_cache_write = Some 30 \<rparr>"
    by (simp add: into_token_usage_def Let_def believable_def unwrap_or_def sat_add_def u64_max_def MAX_BELIEVABLE_TOKENS_def)
  have v: "try_from_provider (Some \<lparr> tu_input = Some 60, tu_output = Some 5, tu_cached_input = Some 20, tu_cache_write = Some 30 \<rparr>) =
      Some (mk_usage 60 20 30 5)"
    by (simp add: try_from_provider_def unwrap_or_def)
  show ?thesis
    using anthropic_usage_billed_by_bucket [OF exact_decimal_exact conversion_exact_decimal b u v] by (simp add: unwrap_or_def)
qed

end
