(* ===== verification/MessageStream.thy ===== *)
theory MessageStream
  imports Messages
begin

text \<open>
  Streams of the Messages API: the machine of \<^verbatim>\<open>wire/anthropic.rs\<close> that turns its events into the
  router's, the frames of Bedrock's classic runtime that carry the same events, and the loop that drives
  the machine over a socket on either wire.  Shown: what a stream reports as metered is, counter by
  counter, the most its upstream stated before the end, once, however the stream ends; it ends once; and
  what it holds of open tool calls is bounded.
\<close>

section \<open>The machine\<close>

definition MAX_OPEN_TOOL_BLOCKS :: nat where
  "MAX_OPEN_TOOL_BLOCKS = 64"

definition MAX_TOOL_ARGUMENT_BYTES :: nat where
  "MAX_TOOL_ARGUMENT_BYTES = 4 * 1024 * 1024"

record pending_anthropic_tool =
  pt_id :: string
  pt_name :: string
  pt_json :: string

record anthropic_machine =
  am_usage :: anthropic_usage
  am_open_tools :: "(nat \<times> pending_anthropic_tool) list"
  am_tool_argument_bytes :: nat
  am_count_tokens :: bool
  am_stop_reason :: "stop_reason option"
  am_finished :: bool

definition machine_new :: "bool \<Rightarrow> anthropic_machine" where
  "machine_new count_tokens =
     \<lparr> am_usage = no_anthropic_usage, am_open_tools = [], am_tool_argument_bytes = 0,
       am_count_tokens = count_tokens, am_stop_reason = None, am_finished = False \<rparr>"

text \<open>What has been metered so far, if anything has and it is believable.\<close>

definition metered :: "anthropic_usage \<Rightarrow> token_usage option" where
  "metered u =
     (case into_token_usage u of
        None \<Rightarrow> None
      | Some t \<Rightarrow> if tu_input t \<noteq> None \<or> tu_output t \<noteq> None then Some t else None)"

definition partial_usage :: "anthropic_machine \<Rightarrow> token_usage option \<times> anthropic_machine" where
  "partial_usage m = (metered (am_usage m), m\<lparr> am_usage := no_anthropic_usage \<rparr>)"

text \<open>Counters only rise.\<close>

definition raised :: "string \<Rightarrow> json \<Rightarrow> nat option \<Rightarrow> nat option" where
  "raised field w seen =
     (case Option.bind (json_get field w) json_u64 of
        None \<Rightarrow> seen
      | Some tokens \<Rightarrow> Some (case seen of None \<Rightarrow> tokens | Some n \<Rightarrow> max n tokens))"

definition absorb_usage :: "json option \<Rightarrow> anthropic_usage \<Rightarrow> anthropic_usage" where
  "absorb_usage w u =
     (case w of
        None \<Rightarrow> u
      | Some v \<Rightarrow>
          \<lparr> au_input = raised ''input_tokens'' v (au_input u), au_output = raised ''output_tokens'' v (au_output u),
            au_cache_read = raised ''cache_read_input_tokens'' v (au_cache_read u),
            au_cache_creation = raised ''cache_creation_input_tokens'' v (au_cache_creation u) \<rparr>)"

definition json_index :: "json \<Rightarrow> nat option" where
  "json_index v = Option.bind (json_get ''index'' v) json_u64"

definition delta_member :: "string \<Rightarrow> json \<Rightarrow> string option" where
  "delta_member k v = Option.bind (json_get ''delta'' v) (str_member k)"

definition text_delta :: "anthropic_machine \<Rightarrow> string \<Rightarrow> stream_event" where
  "text_delta m t =
     TextDelta \<lparr> sc_delta = t, sc_reasoning = None, sc_token_count = (if am_count_tokens m then length t div 4 else 0) \<rparr>"

definition open_block ::
    "string \<Rightarrow> json \<Rightarrow> anthropic_machine \<Rightarrow> (stream_error, stream_event list) result \<times> anthropic_machine" where
  "open_block name v m =
     (case (json_get ''content_block'' v, json_index v) of
        (Some blk, Some index) \<Rightarrow>
          if str_member ''type'' blk \<noteq> Some ''tool_use'' then (Inr [], m)
          else if MAX_OPEN_TOOL_BLOCKS \<le> length (am_open_tools m)
          then (Inl (StreamInvalidSse (name @ '' opened more than '' @ show_nat MAX_OPEN_TOOL_BLOCKS @
                  '' concurrent tool blocks'')), m)
          else (Inr [], m\<lparr> am_open_tools := AList.update index
                  \<lparr> pt_id = unwrap_or (str_member ''id'' blk) [], pt_name = unwrap_or (str_member ''name'' blk) [],
                    pt_json = [] \<rparr> (am_open_tools m) \<rparr>)
      | _ \<Rightarrow> (Inr [], m))"

definition append_json :: "nat \<Rightarrow> string \<Rightarrow> (nat \<times> pending_anthropic_tool) list \<Rightarrow> (nat \<times> pending_anthropic_tool) list" where
  "append_json index piece = List.map (\<lambda>(i, p). if i = index then (i, p\<lparr> pt_json := pt_json p @ piece \<rparr>) else (i, p))"

definition grow_block ::
    "string \<Rightarrow> json \<Rightarrow> anthropic_machine \<Rightarrow> (stream_error, stream_event list) result \<times> anthropic_machine" where
  "grow_block name v m =
     (if delta_member ''type'' v = Some ''text_delta''
      then (case delta_member ''text'' v of None \<Rightarrow> (Inr [], m) | Some t \<Rightarrow> (Inr [text_delta m t], m))
      else if delta_member ''type'' v = Some ''input_json_delta''
      then
        (case (delta_member ''partial_json'' v, json_index v) of
           (Some piece, Some index) \<Rightarrow>
             (let bytes = sat_add (am_tool_argument_bytes m) (length piece); m1 = m\<lparr> am_tool_argument_bytes := bytes \<rparr>
              in if MAX_TOOL_ARGUMENT_BYTES < bytes
                 then (Inl (StreamInvalidSse (name @ '' tool arguments exceeded '' @ show_nat MAX_TOOL_ARGUMENT_BYTES @
                         '' bytes'')), m1)
                 else (Inr [], m1\<lparr> am_open_tools := append_json index piece (am_open_tools m1) \<rparr>))
         | _ \<Rightarrow> (Inr [], m))
      else (Inr [], m))"

definition close_block :: "json \<Rightarrow> anthropic_machine \<Rightarrow> stream_event list \<times> anthropic_machine" where
  "close_block v m =
     (case json_index v of
        None \<Rightarrow> ([], m)
      | Some index \<Rightarrow>
          (case map_of (am_open_tools m) index of
             None \<Rightarrow> ([], m)
           | Some p \<Rightarrow>
               ([ToolCallEvent \<lparr> tc_id = pt_id p, tc_name = pt_name p,
                    tc_arguments = (if pt_json p = [] then ''{}'' else pt_json p), tc_extra_content = None \<rparr>],
                m\<lparr> am_open_tools := AList.delete index (am_open_tools m) \<rparr>)))"

fun usage_event :: "token_usage option \<Rightarrow> stream_event list" where
  "usage_event None = []"
| "usage_event (Some u) = [UsageEvent u]"

definition stop_message :: "anthropic_machine \<Rightarrow> stream_event list \<times> anthropic_machine" where
  "stop_message m =
     (if am_finished m then ([], m)
      else (usage_event (metered (am_usage m)) @ [FinalEvent \<lparr> sf_stop_reason = am_stop_reason m, sf_usage_gap = None \<rparr>],
            m\<lparr> am_usage := no_anthropic_usage, am_finished := True \<rparr>))"

definition in_band_error :: "string \<Rightarrow> (json \<Rightarrow> string) \<Rightarrow> json \<Rightarrow> stream_error" where
  "in_band_error name show_json v =
     (let kind = unwrap_or (Option.bind (json_get ''error'' v) (str_member ''type'')) [];
          detail = (case json_get ''error'' v of None \<Rightarrow> show_json v | Some e \<Rightarrow> show_json e)
      in StreamModelProvider (name @ '' messages stream failed: '' @
           (if kind = ''rate_limit_error'' then ''429 Too Many Requests: '' else []) @ detail))"

definition handle_event ::
    "string \<Rightarrow> (json \<Rightarrow> string) \<Rightarrow> json \<Rightarrow> anthropic_machine \<Rightarrow>
     (stream_error, stream_event list) result \<times> anthropic_machine" where
  "handle_event name show_json v m =
     (let kind = str_member ''type'' v
      in if kind = Some ''message_start''
         then (Inr [], m\<lparr> am_usage := absorb_usage (Option.bind (json_get ''message'' v) (json_get ''usage'')) (am_usage m) \<rparr>)
         else if kind = Some ''content_block_start'' then open_block name v m
         else if kind = Some ''content_block_delta'' then grow_block name v m
         else if kind = Some ''content_block_stop'' then apfst Inr (close_block v m)
         else if kind = Some ''message_delta''
         then (Inr [], m\<lparr> am_usage := absorb_usage (json_get ''usage'' v) (am_usage m),
                 am_stop_reason := or_else (anthropic_stop_reason (delta_member ''stop_reason'' v)) (am_stop_reason m) \<rparr>)
         else if kind = Some ''message_stop'' then apfst Inr (stop_message m)
         else if kind = Some ''error'' then (Inl (in_band_error name show_json v), m)
         else (Inr [], m))"

section \<open>Frames of the classic runtime\<close>

text \<open>
  A reading is what one payload of the transport comes to: a value for the machine, nothing, or an
  error.  Base64 and the parser of JSON are parameters.
\<close>

type_synonym reading = "(stream_error, json option) result"

definition ascii_same :: "string \<Rightarrow> string \<Rightarrow> bool" where
  "ascii_same s t \<longleftrightarrow> List.map ascii_lower s = List.map ascii_lower t"

definition chunk_value ::
    "(string \<Rightarrow> string + json) \<Rightarrow> (string \<Rightarrow> string + string) \<Rightarrow> string \<Rightarrow> string \<Rightarrow> reading" where
  "chunk_value parse decode64 name payload =
     (let bad = (\<lambda>t. Inl (StreamInvalidSse (name @ '' bedrock runtime chunk '' @ t)))
      in case parse payload of
           Inl e \<Rightarrow> bad (''is not JSON: '' @ e)
         | Inr envelope \<Rightarrow>
             (case str_member ''bytes'' envelope of
                None \<Rightarrow> bad ''has no `bytes` member''
              | Some encoded \<Rightarrow>
                  if MAX_EVENTSTREAM_PAYLOAD_BYTES < length encoded
                  then bad (''exceeds '' @ show_nat MAX_EVENTSTREAM_PAYLOAD_BYTES @ '' bytes'')
                  else case decode64 encoded of
                         Inl e \<Rightarrow> bad (''is not valid base64: '' @ e)
                       | Inr decoded \<Rightarrow>
                           (case parse decoded of
                              Inl e \<Rightarrow> bad (''does not decode to JSON: '' @ e)
                            | Inr v \<Rightarrow> Inr (Some v))))"

definition interpret_frame ::
    "(string \<Rightarrow> string + json) \<Rightarrow> (string \<Rightarrow> string + string) \<Rightarrow> string \<Rightarrow> event_stream_message \<Rightarrow> reading" where
  "interpret_frame parse decode64 name msg =
     (let kind = ev_headers msg '':message-type'';
          failed = (\<lambda>t. Inl (StreamModelProvider (name @ '' bedrock runtime stream failed: '' @ t)))
      in if kind = Some ''exception''
         then let exception = unwrap_or (ev_headers msg '':exception-type'') []
              in failed ((if ascii_same exception ''throttlingException'' then ''429 Too Many Requests: '' else []) @
                   exception @ '': '' @ from_utf8_lossy (ev_payload msg))
         else if kind = Some ''error''
         then failed (unwrap_or (ev_headers msg '':error-code'') ''unknown'' @ '': '' @
                unwrap_or (ev_headers msg '':error-message'') [])
         else if kind = Some ''event'' \<and> ev_headers msg '':event-type'' = Some ''chunk''
         then chunk_value parse decode64 name (ev_payload msg)
         else Inr None)"

section \<open>The loop over the socket\<close>

datatype socket_item = SocketBytes string | SocketFailed string

fun feed_machine ::
    "string \<Rightarrow> (json \<Rightarrow> string) \<Rightarrow> reading list \<Rightarrow> anthropic_machine \<Rightarrow>
     stream_event list \<times> stream_error option \<times> anthropic_machine" where
  "feed_machine name show_json [] m = ([], None, m)"
| "feed_machine name show_json (Inl e # rs) m =
     (usage_event (fst (partial_usage m)), Some e, snd (partial_usage m))"
| "feed_machine name show_json (Inr None # rs) m = feed_machine name show_json rs m"
| "feed_machine name show_json (Inr (Some v) # rs) m =
     (case handle_event name show_json v m of
        (Inl e, m1) \<Rightarrow> (usage_event (fst (partial_usage m1)), Some e, snd (partial_usage m1))
      | (Inr evs, m1) \<Rightarrow> apfst (\<lambda>rest. evs @ rest) (feed_machine name show_json rs m1))"

fun run_wire ::
    "(string \<Rightarrow> 'd \<Rightarrow> (stream_error, reading list) result \<times> 'd) \<Rightarrow> ('d \<Rightarrow> stream_error) \<Rightarrow> string \<Rightarrow> (json \<Rightarrow> string) \<Rightarrow>
     socket_item list \<Rightarrow> 'd \<Rightarrow> anthropic_machine \<Rightarrow> stream_event list \<times> stream_error option" where
  "run_wire decode ended name show_json [] d m =
     (if am_finished m then ([], None) else (usage_event (fst (partial_usage m)), Some (ended d)))"
| "run_wire decode ended name show_json (SocketFailed t # items) d m =
     (usage_event (fst (partial_usage m)), Some (StreamHttp t))"
| "run_wire decode ended name show_json (SocketBytes c # items) d m =
     (case decode c d of
        (Inl e, _) \<Rightarrow> (usage_event (fst (partial_usage m)), Some e)
      | (Inr rs, d1) \<Rightarrow>
          (case feed_machine name show_json rs m of
             (evs, Some e, _) \<Rightarrow> (evs, Some e)
           | (evs, None, m1) \<Rightarrow>
               if am_finished m1 then (evs, None)
               else apfst (\<lambda>rest. evs @ rest) (run_wire decode ended name show_json items d1 m1)))"

text \<open>The stream of the Messages endpoint, once it has answered with a success.\<close>

definition messages_decode ::
    "(string \<Rightarrow> string + json) \<Rightarrow> string \<Rightarrow> sse_state \<Rightarrow> (stream_error, reading list) result \<times> sse_state" where
  "messages_decode parse c st =
     apfst (map_sum id (List.map (\<lambda>t. map_sum StreamJson Some (parse t)))) (drain_sse_payloads c st)"

definition messages_stream ::
    "(string \<Rightarrow> string + json) \<Rightarrow> (json \<Rightarrow> string) \<Rightarrow> string \<Rightarrow> bool \<Rightarrow> socket_item list \<Rightarrow>
     stream_event list \<times> stream_error option" where
  "messages_stream parse show_json name count_tokens items =
     run_wire (messages_decode parse) (\<lambda>_. StreamInvalidSse (name @ '' messages stream ended without completion''))
       name show_json items sse_empty (machine_new count_tokens)"

definition runtime_decode ::
    "(string \<Rightarrow> 32 word) \<Rightarrow> (string \<Rightarrow> string + json) \<Rightarrow> (string \<Rightarrow> string + string) \<Rightarrow> string \<Rightarrow> string \<Rightarrow> string \<Rightarrow>
     (stream_error, reading list) result \<times> string" where
  "runtime_decode crc parse decode64 name c buffer =
     apfst (map_sum (\<lambda>e. StreamInvalidSse (name @ '': '' @ event_stream_error_text e))
              (List.map (interpret_frame parse decode64 name))) (push_frames crc c buffer)"

definition runtime_stream ::
    "(string \<Rightarrow> 32 word) \<Rightarrow> (string \<Rightarrow> string + json) \<Rightarrow> (string \<Rightarrow> string + string) \<Rightarrow> (json \<Rightarrow> string) \<Rightarrow> string \<Rightarrow> bool \<Rightarrow>
     socket_item list \<Rightarrow> stream_event list \<times> stream_error option" where
  "runtime_stream crc parse decode64 show_json name count_tokens items =
     run_wire (runtime_decode crc parse decode64 name)
       (\<lambda>buffer. StreamInvalidSse (name @ '' bedrock runtime stream ended without completion ('' @
          (if has_partial_frame buffer then ''mid-frame'' else ''on a frame boundary'') @ '')''))
       name show_json items [] (machine_new count_tokens)"

section \<open>What a stream hears and reports\<close>

text \<open>
  The readings of a stream until its transport fails, the values the machine hears before the end (the
  closing event, or an event it refuses), and the most that was stated of each counter.
\<close>

fun readings_of ::
    "(string \<Rightarrow> 'd \<Rightarrow> (stream_error, reading list) result \<times> 'd) \<Rightarrow> socket_item list \<Rightarrow> 'd \<Rightarrow> reading list" where
  "readings_of decode [] d = []"
| "readings_of decode (SocketFailed t # items) d = []"
| "readings_of decode (SocketBytes c # items) d =
     (case decode c d of (Inl e, _) \<Rightarrow> [] | (Inr rs, d1) \<Rightarrow> rs @ readings_of decode items d1)"

definition closes :: "json \<Rightarrow> bool" where
  "closes v \<longleftrightarrow> str_member ''type'' v = Some ''message_stop''"

fun heard :: "string \<Rightarrow> (json \<Rightarrow> string) \<Rightarrow> reading list \<Rightarrow> anthropic_machine \<Rightarrow> json list" where
  "heard name show_json [] m = []"
| "heard name show_json (Inl e # rs) m = []"
| "heard name show_json (Inr None # rs) m = heard name show_json rs m"
| "heard name show_json (Inr (Some v) # rs) m =
     (if closes v then []
      else case handle_event name show_json v m of
             (Inl e, _) \<Rightarrow> []
           | (Inr _, m1) \<Rightarrow> v # heard name show_json rs m1)"

definition usage_of :: "json \<Rightarrow> json option" where
  "usage_of v =
     (if str_member ''type'' v = Some ''message_start'' then Option.bind (json_get ''message'' v) (json_get ''usage'')
      else if str_member ''type'' v = Some ''message_delta'' then json_get ''usage'' v
      else None)"

definition stated :: "string \<Rightarrow> json \<Rightarrow> nat option" where
  "stated field v = Option.bind (usage_of v) (\<lambda>u. Option.bind (json_get field u) json_u64)"

definition most :: "string \<Rightarrow> json list \<Rightarrow> nat option" where
  "most field vs = (let ns = List.map_filter (stated field) vs in if ns = [] then None else Some (Max (set ns)))"

definition peak_usage :: "json list \<Rightarrow> anthropic_usage" where
  "peak_usage vs =
     \<lparr> au_input = most ''input_tokens'' vs, au_output = most ''output_tokens'' vs,
       au_cache_read = most ''cache_read_input_tokens'' vs, au_cache_creation = most ''cache_creation_input_tokens'' vs \<rparr>"

fun is_final :: "stream_event \<Rightarrow> bool" where
  "is_final (FinalEvent f) = True"
| "is_final _ = False"

fun usage_in :: "stream_event \<Rightarrow> token_usage option" where
  "usage_in (UsageEvent u) = Some u"
| "usage_in _ = None"

definition until_final :: "stream_event list \<Rightarrow> stream_event list" where
  "until_final evs = takeWhile (\<lambda>e. \<not> is_final e) evs"

definition reported :: "stream_event list \<Rightarrow> token_usage list" where
  "reported evs = List.map_filter usage_in (until_final evs)"

lemma most_snoc: "most field (vs @ [v]) =
    (case stated field v of None \<Rightarrow> most field vs | Some n \<Rightarrow> Some (case most field vs of None \<Rightarrow> n | Some k \<Rightarrow> max k n))"
proof -
  have "List.map_filter (stated field) (vs @ [v]) =
      List.map_filter (stated field) vs @ (case stated field v of None \<Rightarrow> [] | Some n \<Rightarrow> [n])"
    by (simp add: List.map_filter_def split: option.splits)
  then show ?thesis
    by (auto simp: most_def Let_def max.commute split: option.splits)
qed

lemma absorbed_peak:
  "absorb_usage (usage_of v) (peak_usage vs) = peak_usage (vs @ [v])"
  by (cases "usage_of v") (simp_all add: absorb_usage_def peak_usage_def most_snoc stated_def raised_def)

text \<open>What an event that does not close leaves of the machine.\<close>

lemma handle_hears:
  assumes "\<not> closes v" "handle_event name show_json v m = (Inr evs, m1)"
  shows "am_usage m1 = absorb_usage (usage_of v) (am_usage m) \<and> am_finished m1 = am_finished m \<and>
      list_all (\<lambda>e. \<not> is_final e \<and> usage_in e = None) evs"
proof -
  have o: "am_usage m1 = am_usage m \<and> am_finished m1 = am_finished m \<and> evs = []"
    if "open_block name v m = (Inr evs, m1)"
    using that by (auto simp: open_block_def split: option.splits if_splits)
  have g: "am_usage m1 = am_usage m \<and> am_finished m1 = am_finished m \<and> list_all (\<lambda>e. \<not> is_final e \<and> usage_in e = None) evs"
    if "grow_block name v m = (Inr evs, m1)"
    using that by (auto simp: grow_block_def text_delta_def Let_def split: option.splits if_splits)
  have c: "am_usage m1 = am_usage m \<and> am_finished m1 = am_finished m \<and> list_all (\<lambda>e. \<not> is_final e \<and> usage_in e = None) evs"
    if "close_block v m = (evs, m1)"
    using that by (auto simp: close_block_def split: option.splits)
  have u: "absorb_usage None x = x" for x
    by (simp add: absorb_usage_def)
  define kind where "kind = str_member ''type'' v"
  consider "kind = Some ''message_start''" | "kind = Some ''content_block_start''" | "kind = Some ''content_block_delta''"
    | "kind = Some ''content_block_stop''" | "kind = Some ''message_delta''" | "kind = Some ''error''"
    | "kind \<noteq> Some ''message_start''" "kind \<noteq> Some ''content_block_start''" "kind \<noteq> Some ''content_block_delta''"
      "kind \<noteq> Some ''content_block_stop''" "kind \<noteq> Some ''message_delta''" "kind \<noteq> Some ''error''"
    by argo
  then show ?thesis
  proof cases
    case 4
    then have "close_block v m = (evs, m1)"
      using assms(2) by (cases "close_block v m") (simp add: handle_event_def kind_def)
    then show ?thesis
      using c 4 by (simp add: usage_of_def kind_def u)
  next
    case 7
    then have "handle_event name show_json v m = (Inr [], m)"
      using assms(1) by (simp add: handle_event_def kind_def closes_def)
    then show ?thesis
      using assms(2) 7 by (simp add: usage_of_def kind_def u)
  qed (use assms(2) o g in \<open>auto simp: handle_event_def usage_of_def kind_def u\<close>)
qed

lemma handle_error_usage:
  assumes "\<not> closes v" "handle_event name show_json v m = (Inl e, m1)"
  shows "am_usage m1 = am_usage m"
proof -
  have o: "m1 = m" if "open_block name v m = (Inl e, m1)"
    using that by (auto simp: open_block_def split: option.splits if_splits)
  have g: "am_usage m1 = am_usage m" if "grow_block name v m = (Inl e, m1)"
    using that by (auto simp: grow_block_def Let_def split: option.splits if_splits)
  have "open_block name v m = (Inl e, m1) \<or> grow_block name v m = (Inl e, m1) \<or> m1 = m"
    using assms unfolding handle_event_def Let_def closes_def
    by (cases "close_block v m") (simp split: if_split_asm)
  then show ?thesis
    using o g by blast
qed

lemma handle_close: "closes v \<Longrightarrow> handle_event name show_json v m = apfst Inr (stop_message m)"
  by (simp add: closes_def handle_event_def)

lemma reported_quiet: "list_all (\<lambda>e. \<not> is_final e \<and> usage_in e = None) evs \<Longrightarrow> reported (evs @ rest) = reported rest"
  by (induction evs) (simp_all add: reported_def until_final_def map_filter_simps)

lemma finals_quiet: "list_all (\<lambda>e. \<not> is_final e \<and> usage_in e = None) evs \<Longrightarrow> List.filter is_final evs = []"
  by (auto simp: list_all_iff filter_empty_conv)

lemma reported_usage_event: "reported (usage_event u) = (case u of None \<Rightarrow> [] | Some t \<Rightarrow> [t])"
  by (cases u) (simp_all add: reported_def until_final_def map_filter_simps)

abbreviation quiet :: "stream_event list \<Rightarrow> bool" where
  "quiet evs \<equiv> list_all (\<lambda>e. \<not> is_final e \<and> usage_in e = None) evs"

lemma feed_value:
  assumes "handle_event name show_json v m = (Inr evs, m1)"
  shows "feed_machine name show_json (Inr (Some v) # rs) m =
      (evs @ fst (feed_machine name show_json rs m1), snd (feed_machine name show_json rs m1))"
  using assms by (cases "feed_machine name show_json rs m1") simp

lemma finals_usage_event: "List.filter is_final (usage_event u) = []"
  by (cases u) simp_all

lemma feed_finished:
  "am_finished m \<Longrightarrow> feed_machine name show_json rs m = (evs, err, m1) \<Longrightarrow> List.filter is_final evs = [] \<and> am_finished m1"
proof (induction name show_json rs m arbitrary: evs rule: feed_machine.induct)
  case (2 name show_json e rs m)
  then show ?case
    by (auto simp: finals_usage_event partial_usage_def)
next
  case (4 name show_json v rs m)
  show ?case
  proof (cases "handle_event name show_json v m")
    case (Pair res m2)
    show ?thesis
    proof (cases res)
      case (Inl e)
      have "am_finished m2"
      proof (cases "closes v")
        case False
        then have "m2 = m \<or> m2 = m\<lparr> am_tool_argument_bytes := am_tool_argument_bytes m2 \<rparr>"
          using Pair Inl unfolding handle_event_def Let_def closes_def
          by (cases "close_block v m") (auto simp: open_block_def grow_block_def Let_def split: if_split_asm option.splits)
        then show ?thesis
          using 4(2) by (metis anthropic_machine.select_convs(6) anthropic_machine.surjective anthropic_machine.update_convs(3))
      qed (use Pair Inl in \<open>cases "stop_message m"; simp add: handle_close\<close>)
      then show ?thesis
        using 4 Pair Inl by (auto simp: finals_usage_event partial_usage_def)
    next
      case (Inr es)
      have q: "am_finished m2" "List.filter is_final es = []"
        using 4(2) Pair Inr handle_hears [of v name show_json m es m2] finals_quiet
        by (cases "closes v"; auto simp: handle_close stop_message_def)+
      obtain rest where "feed_machine name show_json rs m2 = (rest, err, m1)" "evs = es @ rest"
        using "4.prems"(2) feed_value [OF Pair [unfolded Inr], of rs] by (cases "feed_machine name show_json rs m2") auto
      then show ?thesis
        using "4.IH" [OF Pair [unfolded Inr, symmetric] refl q(1)] q(2) by simp
    qed
  qed
qed auto

definition carried_on :: "json list \<Rightarrow> string \<Rightarrow> (json \<Rightarrow> string) \<Rightarrow> reading list \<Rightarrow> anthropic_machine \<Rightarrow> stream_event list \<Rightarrow> anthropic_machine \<Rightarrow> bool" where
  "carried_on us name show_json rs m evs m1 \<longleftrightarrow>
     quiet evs \<and> am_usage m1 = peak_usage (us @ heard name show_json rs m) \<and>
     (\<forall>qs. heard name show_json (rs @ qs) m = heard name show_json rs m @ heard name show_json qs m1)"

definition came_to_end :: "json list \<Rightarrow> string \<Rightarrow> (json \<Rightarrow> string) \<Rightarrow> reading list \<Rightarrow> anthropic_machine \<Rightarrow> stream_event list \<Rightarrow> stream_error option \<Rightarrow> bool" where
  "came_to_end us name show_json rs m evs err \<longleftrightarrow>
     reported evs = (case metered (peak_usage (us @ heard name show_json rs m)) of None \<Rightarrow> [] | Some u \<Rightarrow> [u]) \<and>
     (\<forall>qs. heard name show_json (rs @ qs) m = heard name show_json rs m) \<and>
     length (List.filter is_final evs) \<le> 1 \<and> (List.filter is_final evs = [] \<longrightarrow> err \<noteq> None)"

lemma feed_hears:
  "\<not> am_finished m \<Longrightarrow> am_usage m = peak_usage us \<Longrightarrow> feed_machine name show_json rs m = (evs, err, m1) \<Longrightarrow>
     (if err = None \<and> \<not> am_finished m1 then carried_on us name show_json rs m evs m1
      else came_to_end us name show_json rs m evs err)"
proof (induction name show_json rs m arbitrary: us evs rule: feed_machine.induct)
  case (1 name show_json m)
  then show ?case
    by (auto simp: carried_on_def)
next
  case (2 name show_json e rs m)
  then show ?case
    by (auto simp: came_to_end_def partial_usage_def reported_usage_event finals_usage_event)
next
  case (3 name show_json rs m)
  have "feed_machine name show_json rs m = (evs, err, m1)"
    using "3.prems"(3) by simp
  from "3.IH" [OF "3.prems"(1,2) this] show ?case
    by (auto simp: carried_on_def came_to_end_def split: if_split_asm)
next
  case (4 name show_json v rs m)
  show ?case
  proof (cases "closes v")
    case True
    define m2 where "m2 = m\<lparr> am_usage := no_anthropic_usage, am_finished := True \<rparr>"
    have h: "handle_event name show_json v m =
        (Inr (usage_event (metered (am_usage m)) @ [FinalEvent \<lparr> sf_stop_reason = am_stop_reason m, sf_usage_gap = None \<rparr>]), m2)"
      using True 4(2) by (simp add: handle_close stop_message_def m2_def)
    obtain rest where rest: "feed_machine name show_json rs m2 = (rest, err, m1)"
      and evs: "evs = (usage_event (metered (am_usage m)) @ [FinalEvent \<lparr> sf_stop_reason = am_stop_reason m, sf_usage_gap = None \<rparr>]) @ rest"
      using "4.prems"(3) feed_value [OF h, of rs] by (cases "feed_machine name show_json rs m2") auto
    have f: "List.filter is_final rest = []" "am_finished m1"
      using feed_finished [OF _ rest] by (simp_all add: m2_def)
    have "reported evs = (case metered (am_usage m) of None \<Rightarrow> [] | Some u \<Rightarrow> [u])"
      unfolding evs by (cases "metered (am_usage m)") (simp_all add: reported_def until_final_def map_filter_simps)
    then show ?thesis
      using f True "4.prems"(2) by (simp add: came_to_end_def evs finals_usage_event)
  next
    case False
    show ?thesis
    proof (cases "handle_event name show_json v m")
      case (Pair res m2)
      show ?thesis
      proof (cases res)
        case (Inl e)
        then show ?thesis
          using 4 Pair False handle_error_usage [OF False, of name show_json m e m2]
          by (auto simp: came_to_end_def partial_usage_def reported_usage_event finals_usage_event)
      next
        case (Inr es)
        have q: "am_usage m2 = peak_usage (us @ [v])" "\<not> am_finished m2" "quiet es"
          using handle_hears [OF False, of name show_json m es m2] Pair Inr "4.prems"(1,2) by (auto simp: absorbed_peak)
        obtain rest where rest: "feed_machine name show_json rs m2 = (rest, err, m1)" and evs: "evs = es @ rest"
          using "4.prems"(3) feed_value [OF Pair [unfolded Inr], of rs] by (cases "feed_machine name show_json rs m2") auto
        have "if err = None \<and> \<not> am_finished m1 then carried_on (us @ [v]) name show_json rs m2 rest m1
            else came_to_end (us @ [v]) name show_json rs m2 rest err"
          by (rule "4.IH" [OF Pair [unfolded Inr, symmetric] refl q(2,1) rest])
        then show ?thesis
          using q(3) Pair Inr False finals_quiet [OF q(3)] reported_quiet [OF q(3)]
          by (auto simp: carried_on_def came_to_end_def evs split: if_splits)
      qed
    qed
  qed
qed

lemma run_wire_hears:
  "\<not> am_finished m \<Longrightarrow> am_usage m = peak_usage us \<Longrightarrow> run_wire decode ended name show_json items d m = (evs, err) \<Longrightarrow>
     reported evs =
       (case metered (peak_usage (us @ heard name show_json (readings_of decode items d) m)) of None \<Rightarrow> [] | Some u \<Rightarrow> [u]) \<and>
     length (List.filter is_final evs) \<le> 1 \<and> (List.filter is_final evs = [] \<longrightarrow> err \<noteq> None)"
proof (induction decode ended name show_json items d m arbitrary: us evs rule: run_wire.induct)
  case (1 decode ended name show_json d m)
  then show ?case
    by (auto simp: partial_usage_def reported_usage_event finals_usage_event)
next
  case (2 decode ended name show_json t items d m)
  then show ?case
    by (auto simp: partial_usage_def reported_usage_event finals_usage_event)
next
  case (3 decode ended name show_json c items d m)
  show ?case
  proof (cases "decode c d")
    case (Pair res d1)
    show ?thesis
    proof (cases res)
      case (Inl e)
      then show ?thesis
        using 3 Pair by (auto simp: partial_usage_def reported_usage_event finals_usage_event)
    next
      case (Inr rs)
      obtain es e m1 where f: "feed_machine name show_json rs m = (es, e, m1)"
        by (cases "feed_machine name show_json rs m") auto
      have h: "if e = None \<and> \<not> am_finished m1 then carried_on us name show_json rs m es m1
          else came_to_end us name show_json rs m es e"
        by (rule feed_hears [OF "3.prems"(1,2) f])
      show ?thesis
      proof (cases "e = None \<and> \<not> am_finished m1")
        case True
        then have on: "carried_on us name show_json rs m es m1"
          using h by simp
        obtain rest where rest: "run_wire decode ended name show_json items d1 m1 = (rest, err)" "evs = es @ rest"
          using "3.prems"(3) Pair Inr f True by (cases "run_wire decode ended name show_json items d1 m1") auto
        have "reported rest = (case metered (peak_usage ((us @ heard name show_json rs m) @ heard name show_json (readings_of decode items d1) m1)) of
              None \<Rightarrow> [] | Some u \<Rightarrow> [u]) \<and>
            length (List.filter is_final rest) \<le> 1 \<and> (List.filter is_final rest = [] \<longrightarrow> err \<noteq> None)"
          using "3.IH" [OF Pair [unfolded Inr, symmetric] refl f [symmetric] refl] True on rest(1) by (auto simp: carried_on_def)
        then show ?thesis
          using on Pair Inr rest(2) finals_quiet [of es] reported_quiet [of es] by (auto simp: carried_on_def)
      next
        case False
        then have "came_to_end us name show_json rs m es e"
          using h by argo
        moreover have "evs = es \<and> err = e"
          using "3.prems"(3) Pair Inr f False by (auto split: option.splits)
        ultimately show ?thesis
          using Pair Inr by (simp add: came_to_end_def)
      qed
    qed
  qed
qed

text \<open>C16: However a stream of the Messages API ends (by its closing event, an error the upstream states, a refused event, a broken frame or a lost connection), on the Messages endpoint and on the classic runtime, it reports usage once at most: exactly what its upstream had metered when it ended, which is for each counter the largest number stated in any event the machine heard, normalised, if any prompt or output count was stated and all are believable.  It ends once: no stream has two final events, and one without a final event ends in an error.\<close>

theorem stream_reports_what_was_metered:
  assumes "run_wire decode ended name show_json items d (machine_new count_tokens) = (evs, err)"
  shows "reported evs =
      (case metered (peak_usage (heard name show_json (readings_of decode items d) (machine_new count_tokens))) of
         None \<Rightarrow> [] | Some u \<Rightarrow> [u]) \<and>
      length (List.filter is_final evs) \<le> 1 \<and> (List.filter is_final evs = [] \<longrightarrow> err \<noteq> None)"
proof -
  have "\<not> am_finished (machine_new count_tokens)" "am_usage (machine_new count_tokens) = peak_usage []"
    by (simp_all add: machine_new_def peak_usage_def most_def map_filter_simps no_anthropic_usage_def)
  from run_wire_hears [OF this assms] show ?thesis
    by simp
qed

section \<open>What a stream holds\<close>

definition held_bytes :: "anthropic_machine \<Rightarrow> nat" where
  "held_bytes m = sum_list (List.map (\<lambda>(i, p). length (pt_json p)) (am_open_tools m))"

definition machine_ok :: "anthropic_machine \<Rightarrow> bool" where
  "machine_ok m \<longleftrightarrow>
     distinct (List.map fst (am_open_tools m)) \<and> length (am_open_tools m) \<le> MAX_OPEN_TOOL_BLOCKS \<and>
     held_bytes m \<le> am_tool_argument_bytes m \<and> held_bytes m \<le> MAX_TOOL_ARGUMENT_BYTES"

lemma held_update:
  "sum_list (List.map (\<lambda>(i, p). length (pt_json p)) (AList.update k \<lparr> pt_id = a, pt_name = b, pt_json = [] \<rparr> ts))
     \<le> sum_list (List.map (\<lambda>(i, p). length (pt_json p)) ts)"
  by (induction ts) auto

lemma held_delete:
  "sum_list (List.map (\<lambda>(i, p). length (pt_json p)) (AList.delete k ts)) \<le> sum_list (List.map (\<lambda>(i, p). length (pt_json p)) ts)"
  by (induction ts) (auto simp: AList.delete_eq)

lemma held_append:
  "distinct (List.map fst ts) \<Longrightarrow>
     sum_list (List.map (\<lambda>(i, p). length (pt_json p)) (append_json k piece ts))
       \<le> sum_list (List.map (\<lambda>(i, p). length (pt_json p)) ts) + length piece"
proof (induction ts)
  case (Cons t ts)
  obtain i p where t: "t = (i, p)"
    by fastforce
  have absent: "append_json k piece ts = ts" if "k \<notin> fst ` set ts"
    using that unfolding append_json_def by (induction ts) auto
  show ?case
  proof (cases "i = k")
    case True
    then have "append_json k piece ts = ts"
      using Cons.prems t by (intro absent) auto
    moreover have "append_json k piece (t # ts) = (i, p\<lparr> pt_json := pt_json p @ piece \<rparr>) # append_json k piece ts"
      using True t by (simp add: append_json_def)
    ultimately show ?thesis
      using t by simp
  next
    case False
    then have "append_json k piece (t # ts) = (i, p) # append_json k piece ts"
      using t by (simp add: append_json_def)
    then show ?thesis
      using Cons t by simp
  qed
qed (simp add: append_json_def)

lemma keys_append: "List.map fst (append_json k piece ts) = List.map fst ts"
  by (induction ts) (auto simp: append_json_def)

lemma open_block_ok:
  assumes "machine_ok m"
  shows "machine_ok (snd (open_block name v m))"
proof -
  have "machine_ok (m\<lparr> am_open_tools := AList.update i \<lparr> pt_id = a, pt_name = b, pt_json = [] \<rparr> (am_open_tools m) \<rparr>)"
    if "length (am_open_tools m) < MAX_OPEN_TOOL_BLOCKS" for i a b
    using assms that held_update [of i a b "am_open_tools m"] length_update [of i "\<lparr> pt_id = a, pt_name = b, pt_json = [] \<rparr>" "am_open_tools m"]
    by (auto simp: machine_ok_def held_bytes_def distinct_update)
  then show ?thesis
    using assms by (auto simp: open_block_def not_le split: option.splits)
qed

lemma grow_block_ok:
  assumes "machine_ok m"
  shows "machine_ok (snd (grow_block name v m))"
proof -
  define n where "n = (\<lambda>piece :: string. sat_add (am_tool_argument_bytes m) (length piece))"
  have refused: "machine_ok (m\<lparr> am_tool_argument_bytes := n piece \<rparr>)" if "MAX_TOOL_ARGUMENT_BYTES < n piece" for piece
    using assms that by (simp add: machine_ok_def held_bytes_def)
  have grown: "machine_ok (m\<lparr> am_tool_argument_bytes := n piece, am_open_tools := append_json i piece (am_open_tools m) \<rparr>)"
    if "n piece \<le> MAX_TOOL_ARGUMENT_BYTES" for piece i
  proof -
    have "n piece = am_tool_argument_bytes m + length piece"
      using that by (auto simp: n_def sat_add_def u64_max_def MAX_TOOL_ARGUMENT_BYTES_def min_def split: if_splits)
    moreover have "length (append_json i piece (am_open_tools m)) = length (am_open_tools m)"
      by (simp add: append_json_def)
    ultimately show ?thesis
      using assms that held_append [of "am_open_tools m" i piece] by (auto simp: machine_ok_def held_bytes_def keys_append)
  qed
  show ?thesis
    using assms refused grown unfolding n_def by (auto simp: grow_block_def Let_def split: option.splits)
qed

lemma close_block_ok: "machine_ok m \<Longrightarrow> machine_ok (snd (close_block v m))"
  using held_delete [of _ "am_open_tools m"] length_delete_le [of _ "am_open_tools m"]
  by (auto simp: close_block_def machine_ok_def held_bytes_def distinct_delete intro: order_trans split: option.splits)

lemma machine_ok_fields:
  "machine_ok (m\<lparr> am_usage := u \<rparr>) = machine_ok m" "machine_ok (m\<lparr> am_stop_reason := r \<rparr>) = machine_ok m"
  "machine_ok (m\<lparr> am_finished := f \<rparr>) = machine_ok m"
  by (simp_all add: machine_ok_def held_bytes_def)

lemma handle_event_ok: "machine_ok m \<Longrightarrow> machine_ok (snd (handle_event name show_json v m))"
  unfolding handle_event_def Let_def
  by (simp add: machine_ok_fields open_block_ok grow_block_ok close_block_ok stop_message_def apfst_def map_prod_def
      split: prod.split) (metis close_block_ok snd_conv)

lemma feed_machine_ok: "machine_ok m \<Longrightarrow> machine_ok (snd (snd (feed_machine name show_json rs m)))"
proof (induction name show_json rs m rule: feed_machine.induct)
  case (4 name show_json v rs m)
  obtain res m1 where h: "handle_event name show_json v m = (res, m1)"
    by fastforce
  have ok: "machine_ok m1"
    using handle_event_ok [OF 4(2), of name show_json v] h by simp
  show ?case
  proof (cases res)
    case (Inl e)
    then show ?thesis
      using ok h by (simp add: partial_usage_def machine_ok_fields)
  next
    case (Inr es)
    then show ?thesis
      using "4.IH" [OF h [unfolded Inr, symmetric] refl ok] feed_value [OF h [unfolded Inr]] by simp
  qed
qed (simp_all add: partial_usage_def machine_ok_fields)

text \<open>C23: No sequence of events makes a stream hold unbounded memory for open tool calls: after any readings, refused ones included, the machine holds at most 64 open calls, each index once, and at most 4 MiB of their arguments together.\<close>

theorem open_calls_bounded:
  "length (am_open_tools (snd (snd (feed_machine name show_json rs (machine_new count_tokens))))) \<le> MAX_OPEN_TOOL_BLOCKS \<and>
   distinct (List.map fst (am_open_tools (snd (snd (feed_machine name show_json rs (machine_new count_tokens)))))) \<and>
   held_bytes (snd (snd (feed_machine name show_json rs (machine_new count_tokens)))) \<le> MAX_TOOL_ARGUMENT_BYTES"
proof -
  have "machine_ok (machine_new count_tokens)"
    by (simp add: machine_ok_def machine_new_def held_bytes_def)
  from feed_machine_ok [OF this] show ?thesis
    by (simp add: machine_ok_def)
qed

section \<open>However the network cuts a stream\<close>

text \<open>What a stream of readings comes to up to its final event, when nothing else ends it.\<close>

definition whole_stream :: "string \<Rightarrow> (json \<Rightarrow> string) \<Rightarrow> reading list \<Rightarrow> anthropic_machine \<Rightarrow> stream_event list" where
  "whole_stream name show_json rs m =
     (let (evs, err, m1) = feed_machine name show_json rs m
      in until_final (evs @ (if err = None \<and> \<not> am_finished m1 then usage_event (metered (am_usage m1)) else [])))"

fun all_decoded :: "(string \<Rightarrow> 'd \<Rightarrow> (stream_error, reading list) result \<times> 'd) \<Rightarrow> socket_item list \<Rightarrow> 'd \<Rightarrow> bool" where
  "all_decoded decode [] d = True"
| "all_decoded decode (SocketFailed t # items) d = False"
| "all_decoded decode (SocketBytes c # items) d =
     (case decode c d of (Inl e, _) \<Rightarrow> False | (Inr rs, d1) \<Rightarrow> all_decoded decode items d1)"

lemma feed_append:
  "feed_machine name show_json (rs @ qs) m =
     (case feed_machine name show_json rs m of
        (evs, Some e, m1) \<Rightarrow> (evs, Some e, m1)
      | (evs, None, m1) \<Rightarrow> apfst (\<lambda>rest. evs @ rest) (feed_machine name show_json qs m1))"
proof (induction name show_json rs m rule: feed_machine.induct)
  case (1 name show_json m)
  then show ?case
    by (cases "feed_machine name show_json qs m") simp
next
  case (4 name show_json v rs m)
  obtain res m1 where h: "handle_event name show_json v m = (res, m1)"
    by fastforce
  show ?case
  proof (cases res)
    case (Inl e)
    then show ?thesis
      using h by simp
  next
    case (Inr es)
    have "feed_machine name show_json (Inr (Some v) # rs @ qs) m =
        (es @ fst (feed_machine name show_json (rs @ qs) m1), snd (feed_machine name show_json (rs @ qs) m1))"
      by (rule feed_value [OF h [unfolded Inr]])
    then show ?thesis
      using "4.IH" [OF h [unfolded Inr, symmetric] refl] feed_value [OF h [unfolded Inr], of rs]
      by (cases "feed_machine name show_json qs (snd (snd (feed_machine name show_json rs m1)))")
        (auto split: prod.splits option.splits)
  qed
qed simp_all

lemma until_final_append: "List.filter is_final evs \<noteq> [] \<Longrightarrow> until_final (evs @ qs) = until_final evs"
  by (induction evs) (auto simp: until_final_def)

lemma until_final_quiet: "List.filter is_final evs = [] \<Longrightarrow> until_final (evs @ qs) = evs @ until_final qs"
  by (induction evs) (auto simp: until_final_def split: if_splits)

lemma feed_finishes:
  assumes "\<not> am_finished m" "feed_machine name show_json rs m = (evs, None, m1)"
  shows "am_finished m1 \<longleftrightarrow> List.filter is_final evs \<noteq> []"
  using assms
proof (induction name show_json rs m arbitrary: evs rule: feed_machine.induct)
  case (3 name show_json rs m)
  then show ?case
    by simp
next
  case (4 name show_json v rs m)
  obtain es m2 where h: "handle_event name show_json v m = (Inr es, m2)"
    using 4(3) by (auto split: prod.splits sum.splits)
  obtain rest where rest: "feed_machine name show_json rs m2 = (rest, None, m1)" "evs = es @ rest"
    using 4(3) feed_value [OF h, of rs] by (cases "feed_machine name show_json rs m2") auto
  show ?case
  proof (cases "closes v")
    case True
    then have "am_finished m2" "List.filter is_final es \<noteq> []"
      using h 4(2) by (auto simp: handle_close stop_message_def)
    then show ?thesis
      using feed_finished [OF _ rest(1)] rest(2) by simp
  next
    case False
    then have "\<not> am_finished m2" "List.filter is_final es = []"
      using handle_hears [OF False h] 4(2) finals_quiet by auto
    then show ?thesis
      using "4.IH" [OF h [symmetric] refl _ rest(1)] rest(2) by simp
  qed
qed simp_all

lemma run_wire_whole:
  assumes "all_decoded decode items d" "\<not> am_finished m"
  shows "until_final (fst (run_wire decode ended name show_json items d m)) = whole_stream name show_json (readings_of decode items d) m"
  using assms
proof (induction decode ended name show_json items d m rule: run_wire.induct)
  case (1 decode ended name show_json d m)
  then show ?case
    by (simp add: whole_stream_def partial_usage_def)
next
  case (3 decode ended name show_json c items d m)
  obtain rs d1 where d: "decode c d = (Inr rs, d1)" "all_decoded decode items d1"
    using "3.prems"(1) by (auto split: prod.splits sum.splits)
  obtain es e m1 where f: "feed_machine name show_json rs m = (es, e, m1)"
    by (cases "feed_machine name show_json rs m") auto
  show ?case
  proof (cases "e = None \<and> \<not> am_finished m1")
    case True
    have quiet: "List.filter is_final es = []"
      using feed_finishes [OF "3.prems"(2)] f True by blast
    show ?thesis
      using "3.IH" [OF d(1) [symmetric] refl f [symmetric] refl] d f True quiet
      by (cases "run_wire decode ended name show_json items d1 m1";
          cases "feed_machine name show_json (readings_of decode items d1) m1")
        (auto simp: whole_stream_def feed_append until_final_quiet)
  next
    case False
    show ?thesis
    proof (cases e)
      case (Some x)
      then show ?thesis
        using d f by (simp add: whole_stream_def feed_append)
    next
      case None
      then have "am_finished m1" "List.filter is_final es \<noteq> []"
        using False f feed_finishes [OF "3.prems"(2)] by blast+
      then show ?thesis
        using d f None
        by (cases "feed_machine name show_json (readings_of decode items d1) m1")
          (simp add: whole_stream_def feed_append until_final_append)
    qed
  qed
qed simp

lemma messages_readings:
  "drain_chunks cs st = (ps, None, st') \<Longrightarrow>
     all_decoded (messages_decode parse) (List.map SocketBytes cs) st \<and>
     readings_of (messages_decode parse) (List.map SocketBytes cs) st = List.map (\<lambda>t. map_sum StreamJson Some (parse t)) ps"
proof (induction cs arbitrary: st ps)
  case (Cons c cs)
  obtain qs st1 rs where "drain_sse_payloads c st = (Inr qs, st1)" "drain_chunks cs st1 = (rs, None, st')" "ps = qs @ rs"
    using Cons.prems by (auto split: prod.splits sum.splits)
  then show ?case
    using Cons.IH by (simp add: messages_decode_def)
qed simp

lemma runtime_readings:
  "push_chunks crc cs buffer = (ms, None, buffer') \<Longrightarrow>
     all_decoded (runtime_decode crc parse decode64 name) (List.map SocketBytes cs) buffer \<and>
     readings_of (runtime_decode crc parse decode64 name) (List.map SocketBytes cs) buffer = List.map (interpret_frame parse decode64 name) ms"
proof (induction cs arbitrary: buffer ms)
  case (Cons c cs)
  obtain qs b1 rs where "push_frames crc c buffer = (Inr qs, b1)" "push_chunks crc cs b1 = (rs, None, buffer')" "ms = qs @ rs"
    using Cons.prems by (auto split: prod.splits sum.splits)
  then show ?case
    using Cons.IH by (simp add: runtime_decode_def)
qed simp

lemma run_wire_same:
  assumes "all_decoded decode items d" "all_decoded decode items' d" "readings_of decode items d = readings_of decode items' d"
  shows "until_final (fst (run_wire decode ended name show_json items d (machine_new count_tokens))) =
      until_final (fst (run_wire decode ended name show_json items' d (machine_new count_tokens)))"
proof -
  have "\<not> am_finished (machine_new count_tokens)"
    by (simp add: machine_new_def)
  then show ?thesis
    using assms by (simp add: run_wire_whole)
qed

text \<open>C20: What a client is streamed does not depend on how the network cut the upstream's bytes: when the transport accepts every piece, the events up to the final one are those of the same bytes in one piece, on the Messages endpoint and on the classic runtime.\<close>

theorem streamed_events_ignore_chunking:
  assumes "drain_chunks (c # cs) sse_empty = (ps, None, st)" and "push_chunks crc (f # fs) [] = (ms, None, buffer)"
  shows "until_final (fst (messages_stream parse show_json name count_tokens (List.map SocketBytes (c # cs)))) =
         until_final (fst (messages_stream parse show_json name count_tokens [SocketBytes (concat (c # cs))])) \<and>
      until_final (fst (runtime_stream crc parse decode64 show_json name count_tokens (List.map SocketBytes (f # fs)))) =
         until_final (fst (runtime_stream crc parse decode64 show_json name count_tokens [SocketBytes (concat (f # fs))]))"
proof -
  have one: "drain_chunks [concat (c # cs)] sse_empty = (ps, None, st)"
    using sse_chunking_same [OF assms(1)] by simp
  have two: "push_chunks crc [concat (f # fs)] [] = (ms, None, buffer)"
    using push_chunks_same [OF assms(2)] by simp
  note m = messages_readings [OF assms(1), of parse] messages_readings [OF one, of parse]
  note r = runtime_readings [OF assms(2), of parse decode64 name] runtime_readings [OF two, of parse decode64 name]
  have "until_final (fst (messages_stream parse show_json name count_tokens (List.map SocketBytes (c # cs)))) =
      until_final (fst (messages_stream parse show_json name count_tokens (List.map SocketBytes [concat (c # cs)])))"
    unfolding messages_stream_def using m by (intro run_wire_same) simp_all
  moreover have "until_final (fst (runtime_stream crc parse decode64 show_json name count_tokens (List.map SocketBytes (f # fs)))) =
      until_final (fst (runtime_stream crc parse decode64 show_json name count_tokens (List.map SocketBytes [concat (f # fs)])))"
    unfolding runtime_stream_def using r by (intro run_wire_same) simp_all
  ultimately show ?thesis
    by simp
qed

section \<open>Concrete streams\<close>

definition demo_start :: json where
  "demo_start = JObject [(''type'', JString ''message_start''),
     (''message'', JObject [(''usage'', JObject [(''input_tokens'', JNumber ''10''), (''cache_read_input_tokens'', JNumber ''20'')])])]"

definition demo_delta :: "string \<Rightarrow> json" where
  "demo_delta n = JObject [(''type'', JString ''message_delta''), (''usage'', JObject [(''output_tokens'', JNumber n)])]"

definition demo_readings :: "reading list" where
  "demo_readings = [Inr (Some demo_start), Inr (Some (demo_delta ''7'')), Inr None, Inr (Some (demo_delta ''3''))]"

text \<open>A stream that is cut after two restated counts reports the larger one.\<close>

lemma stream_reports_what_was_metered_witness:
  "reported (fst (run_wire (\<lambda>c d. (Inr demo_readings, d)) (\<lambda>_. StreamHttp []) ''a'' (\<lambda>_. []) [SocketBytes [], SocketFailed ''reset'']
       () (machine_new False))) =
     [\<lparr> tu_input = Some 30, tu_output = Some 7, tu_cached_input = Some 20, tu_cache_write = None \<rparr>]"
proof -
  define run where "run = run_wire (\<lambda>c d. (Inr demo_readings, d)) (\<lambda>_. StreamHttp []) ''a'' (\<lambda>_. []) [SocketBytes [], SocketFailed ''reset'']
       () (machine_new False)"
  define vs where "vs = [demo_start, demo_delta ''7'', demo_delta ''3'']"
  have c: "\<not> closes demo_start" "\<not> closes (demo_delta n)" for n
    by (simp_all add: closes_def demo_start_def demo_delta_def str_member_def)
  have h: "fst (handle_event ''a'' (\<lambda>_. []) demo_start m) = Inr []" "fst (handle_event ''a'' (\<lambda>_. []) (demo_delta n) m) = Inr []" for m n
    by (simp_all add: handle_event_def demo_start_def demo_delta_def str_member_def)
  have "heard ''a'' (\<lambda>_. []) (Inr (Some v) # rs) m = v # heard ''a'' (\<lambda>_. []) rs (snd (handle_event ''a'' (\<lambda>_. []) v m))"
    if "\<not> closes v" "fst (handle_event ''a'' (\<lambda>_. []) v m) = Inr []" for v rs m
    using that by (cases "handle_event ''a'' (\<lambda>_. []) v m") simp
  then have "heard ''a'' (\<lambda>_. []) demo_readings m = vs" for m
    by (simp add: demo_readings_def vs_def c h)
  then have heard: "heard ''a'' (\<lambda>_. []) (readings_of (\<lambda>c d. (Inr demo_readings, d)) [SocketBytes [], SocketFailed ''reset''] ()) (machine_new False) = vs"
    by simp
  have digits: "json_u64 (JNumber ''10'') = Some 10" "json_u64 (JNumber ''20'') = Some 20" "json_u64 (JNumber ''7'') = Some 7" "json_u64 (JNumber ''3'') = Some 3"
    by (simp_all add: u64_max_def is_digit_def digits_value_def)
  have "peak_usage vs = \<lparr> au_input = Some 10, au_output = Some 7, au_cache_read = Some 20, au_cache_creation = None \<rparr>"
    by (simp add: peak_usage_def most_def Let_def vs_def stated_def usage_of_def demo_start_def demo_delta_def str_member_def
        map_filter_simps digits del: json_u64.simps)
  then have "metered (peak_usage vs) = Some \<lparr> tu_input = Some 30, tu_output = Some 7, tu_cached_input = Some 20, tu_cache_write = None \<rparr>"
    by (simp add: metered_def into_token_usage_def Let_def believable_def unwrap_or_def sat_add_def u64_max_def MAX_BELIEVABLE_TOKENS_def)
  note metered_vs = this
  have "run_wire (\<lambda>c d. (Inr demo_readings, d)) (\<lambda>_. StreamHttp []) ''a'' (\<lambda>_. []) [SocketBytes [], SocketFailed ''reset'']
       () (machine_new False) = (fst run, snd run)"
    unfolding run_def by (rule prod.collapse [symmetric])
  from conjunct1 [OF stream_reports_what_was_metered [OF this, unfolded heard]]
  have "reported (fst run) = (case metered (peak_usage vs) of None \<Rightarrow> [] | Some u \<Rightarrow> [u])" .
  then show ?thesis
    unfolding run_def metered_vs by simp
qed

lemma streamed_events_ignore_chunking_witness:
  "until_final (fst (messages_stream (\<lambda>_. Inr JNull) (\<lambda>_. []) ''a'' False (List.map SocketBytes [''data: hi'' @ LF_LF @ ''da'', ''ta'']))) =
   until_final (fst (messages_stream (\<lambda>_. Inr JNull) (\<lambda>_. []) ''a'' False [SocketBytes (concat [''data: hi'' @ LF_LF @ ''da'', ''ta''])]))"
proof -
  have "push_chunks (\<lambda>_. 7) [''ab'', ''c''] [] = ([], None, ''abc'')"
    by (simp add: push_frames_def decode_frames.simps take_frame_def)
  from streamed_events_ignore_chunking [OF demo_drained this] show ?thesis
    by blast
qed

end
