(* ===== verification/Spec2Isabelle.thy ===== *)
theory Spec2Isabelle
  imports Scenario Retry Inventory Catalog Health Routes Address Request Reply Gateway StreamWalk Device MessageStream
begin

text \<open>
  ZeroRouter is a prepaid gateway to large-language-model providers (Rust, under src/router/src): a
  request is admitted against the customer's balance and caps, dispatched to one of a tier's
  candidate upstreams, priced at the catalog's rates, and settled against an append-only ledger in
  PostgreSQL.  This development models the part of it that decides what a request may spend, which upstream
  answers it, what it costs and what is charged, and proves that the money stays right under retries,
  lost acknowledgements, recovery, refunds and automatic recharges, and that the routing keeps the
  promises made to the customer.

  Theories, in the order the code calls them:

  \<^item> Prelude, Floats, Text: Rust's saturating and checked integers, fixed-point decimals as an interface
    (rust_decimal is not part of the repository), finite 64-bit floats as rationals with the special
    values written out, trimming, splitting and searching of strings.
  \<^item> Priority, Byok, Pricing, Usage: the pure parts.  Keyword vocabularies (priority.rs, db.rs,
    provider.rs) as instances of one codec contract; the BYOK allowance (byok.rs); rate tables,
    conditional bands, reconciled schedules and the cost of a usage (provider.rs, openai.rs); usage
    records, attempts and the durable settlement intent (db.rs).
  \<^item> Schema: the database as a record of tables (router/migrations), its CHECK constraints, unique
    indexes, the overdraft trigger and the spend rollups, and the contract of a money operation as a
    locale.
  \<^item> Admission: begin_usage_session (db.rs) with every gate in its order, the sweep of expired
    reservations, the spend and reservation aggregates.
  \<^item> Settlement: settle_once, its retry loop under an environment of faults, failure recording,
    quarantine, recovery and the operator's release (db.rs).
  \<^item> Billing, Autopay: purchases, grants, freezes, reversals and their tombstones, write-offs and
    recoveries; recharges from claim to credit (billing.rs).
  \<^item> Ledger: all thirty operations as one datatype and its interpreter, and the interpretation of
    the money contract on it.  Prepaid: the transition system of the prepaid operations and the clock.
  \<^item> Inventory, Catalog: the provider inventory and its validation, shipped and operator entries
    (providers.rs); the tier catalog, its margin and retention checks, withheld tiers, unified models
    and their resolution (config.rs).
  \<^item> Health, Retry: demotion and recovery of a rung (health.rs); classification of upstream errors,
    back-off, truncation of a prompt and the scrubbing of secrets (retry.rs).
  \<^item> Address, Routes: which image addresses may be fetched (openai.rs); the clients built for a route from
    the inventory, the environment and the customer's keys, with the client cache (providers.rs).
  \<^item> Request, Reply: validation of a chat request, its conversion to upstream messages, the bound a
    reservation is sized with; the model list, the digests and the answer's fields (openai.rs, api.rs).
  \<^item> Estimator: the cache of output percentiles, the learned bound, the loss windows that revert a
    segment, and the background refresh (estimator.rs, api.rs, db.rs).
  \<^item> Faults: the errors the API answers with (error.rs).
  \<^item> Selection, Walk, Gateway: the route of a request and the order of its candidates; the buffered walk
    over them with its attempts, waits, deadline and rows; the request handler from its checks through
    admission to the settlement and the answer (api.rs).
  \<^item> StreamWalk: the walk of a streamed request, the frames on its channel and the settlement of its end
    (api.rs).
  \<^item> Keys, Device: the keys a customer creates, edits and disables, the spend a key page shows and the
    authenticator with its cache (portal.rs, auth.rs); the device grant from its start to the key it
    delivers (device.rs).
  \<^item> Framing: server-sent events over bytes cut anywhere (wire/mod.rs) and the binary event stream with its
    lengths, checksums and headers (wire/eventstream.rs).
  \<^item> Messages, MessageStream: the wire of the Messages endpoint and of the classic runtime
    (wire/anthropic.rs, wire/bedrock_runtime.rs): the turns and the cache marks sent, the envelope and the
    usage read, and the machine that turns a stream of events into the router's own.
  \<^item> Scenario: one concrete account, the witnesses' instance.

  The state is explicit: an operation takes the database and returns its result beside the new
  database; an error is the left side of a sum.  A transaction that fails keeps none of its writes.
  The advisory locks of the code serialise the transactions of one user, which is why a transaction
  is one step.  Money is a rational number: the code uses decimals of 28 places, and Pricing shows
  that the amounts priced from rates of at most six places and up to 2 to the 46 tokens are exact
  there.  Catalog rates are finite floats in the code and rationals here.  Time is an integer number
  of seconds read once in a transaction, as NOW() is.

  What the outside does is an argument.  A walk reads a sequence of events, one for each step: what the
  upstream answered and after how long, whether the wait was interrupted, what other requests did to the
  health registry meanwhile.  A streamed walk also reads the items of each stream, and for each frame and
  each look whether the channel accepts it, after how long, and whether the client is gone.  The stream of a wire reads what
  the socket yields, bytes or a failure.  JSON parsing, base64, checksums, hashing, sealing, decimals and the calendar are functions of the model's contexts, with the documented
  behaviour a property relies on as a named hypothesis.  The theorems hold for every choice of them.

  What the properties show: conservation and append-only history of the ledger for every sequence of
  operations; solvency of the prepaid machine; that a settle charges the settled cost capped by its
  reservation, once, under any pattern of faults; that admission respects every cap; that purchases,
  reversals and recharges apply once; that a reservation sized for a request covers what any rung of its
  route can bill; the round trip of a settlement intent; that no candidate of a loaded catalog is sold below cost; that a
  customer's key is sent to its own provider only, and that the house's client of a provider the key serves is
  called, in the buffered walk, only after that key failed;
  that a zero-retention key reaches zero-retention candidates only; that a walk ends in a bounded number
  of calls and calls somebody; that a walk or a stream without billable output is free; that the learned
  bounds stay within what was asked; that a streamed answer is one an acceptor of frames takes, and ends when the client stays;
  that the number a key page shows is the one its limit is enforced by; that a device code yields one key
  and that key belongs to its approver; that mints stay within the limit of live keys; that the turns sent
  upstream are ones its API admits, with at most four cache marks; that a stream reports the most that was
  metered, once, however it ends and however the network cut it.

  The prepaid machine runs every operation of the prepaid accounts as the code allows it, the clock between
  them.  A reservation that expires without an intent stops encumbering its balance, and the code still lets its
  settle or its intent arrive: such a late step takes from the cover of its account, the machine adds what it
  takes to a sum it carries for each user, and solvency is stated up to that sum.  The machine leaves
  out the operations that take credit back (reversals and the marking of tombstones), after which a
  balance may be negative by design.

  Loops: the settlement retries recurse on the attempt number with the remaining attempts as their
  measure, the attempts of a candidate on the rounds left, the walks on the candidates left and the
  reading of a stream on its items; no fuel is needed.  The number of rounds is the code's own constant.

  Not modelled: HTTP, JSON and TLS libraries; the Stripe API and the identity providers, which are services
  outside the repository (stripe.rs and oidc.rs drive them; purchases, reversals and recharges reach the balance through
  the operations of Billing and Autopay); the redemption tax (redemption_tax.rs and migration 0025, switched off by
  default), whose collect_period also debits a balance and posts a tax entry: the ledger has the entry type and its
  constraint, no operation here writes it, and the properties of the ledger are about the other operations; sessions and the pages of the portal and of the operator (session.rs, web.rs, admin.rs), which
  read and render the tables modelled here; the operator reports that compare the catalog with outside price
  lists (drift.rs, corroborate.rs, discover.rs, draft_pin.rs); the Responses surface (responses.rs) and the
  wires of the chat completions and Responses endpoints, further dialects over the handler and the walks
  modelled here, for which what an upstream answers is an argument; logging and start-up.
\<close>

section \<open>The ledger\<close>

text \<open>C1: Whatever sequence of admissions, dispatches, settles, recoveries, releases, purchases, grants,
  freezes, reversals, write-offs and recharges runs, every balance stays the sum of its user's ledger
  entries.\<close>

theorem ledger_conservation:
  assumes "money_inv d" "users (foldl (\<lambda>d p. run_op D T cal p d) d ps) u = Some x"
  shows "u_balance x = ledger_total (foldl (\<lambda>d p. run_op D T cal p d) d ps) u"
  using ledger.run_all_balance [of d D T cal ps u x] assms by (simp add: ledger.run_all_def)

definition demo_ops :: "db_op list" where
  "demo_ops = [OpPromo 5 1 3 ''hello'', OpFreeze 6 1 Dispute, OpSettle 7 77 5 demo_intent]"

lemma demo_ops_run:
  "users (foldl (\<lambda>d p. run_op exact_decimal demo_text demo_cal p d) demo_db demo_ops) 1
     = Some (demo_user\<lparr> u_balance := 23, u_frozen_at := Some 6, u_frozen_reason := Some ''dispute'' \<rparr>)"
  by (simp add: demo_ops_def demo_db_def demo_user_def grant_promo_def transact_def post_def update_balance_def
      bind_result_def insert_ledger_def ledger_checks_def ledger_unique_def entry_def freeze_account_def Let_def
      settle_once_def demo_to_record demo_snapshot demo_counts)

lemma ledger_conservation_witness:
  "ledger_total (foldl (\<lambda>d p. run_op exact_decimal demo_text demo_cal p d) demo_db demo_ops) 1 = 23"
  using ledger_conservation [OF demo_money_inv(1) demo_ops_run] by simp

text \<open>The ledger is append-only: whatever runs, the old entries stay where they were, the new ones satisfy
  the sign and anchor constraints, and no two entries share a Stripe session or a request.\<close>

theorem ledger_history:
  assumes "money_inv d"
  shows "\<exists>ls. ledger (foldl (\<lambda>d p. run_op D T cal p d) d ps) = ledger d @ ls \<and> list_all ledger_checks ls \<and>
    distinct (List.map_filter l_session (ledger d @ ls)) \<and> distinct (List.map_filter l_request (ledger d @ ls))"
  using ledger.run_all_grows [of d D T cal ps] ledger.run_all_inv [OF assms, of D T cal ps]
  by (auto simp: ledger.run_all_def ledger_grows_def money_inv_def ledger_rows_ok_def)

lemma ledger_history_witness:
  "\<exists>ls. ledger (foldl (\<lambda>d p. run_op exact_decimal demo_text demo_cal p d) demo_db demo_ops) = ledger demo_db @ ls \<and>
    list_all ledger_checks ls"
  using ledger_history [OF demo_money_inv(1), of exact_decimal demo_text demo_cal demo_ops] by blast

section \<open>The prepaid machine\<close>

text \<open>C2: From any prepaid state, however admissions, dispatches, intents, settles, failures, releases, free requests and
  credits interleave with the clock (an admission that reserves requires credits, and a settle debits the owner
  of the key), no balance is negative, and every balance covers what its user's live and owed reservations hold,
  up to what settles and intents took that came after their reservation had expired without an intent: for an
  account without such a late settle it covers all of it.\<close>

theorem prepaid_solvency:
  assumes "prepaid_reachable D T cal start late (now, d)" "prepaid_inv start" "users d u = Some x"
  shows "0 \<le> user_encumbrance now d u \<and> user_encumbrance now d u \<le> u_balance x + late u \<and> 0 \<le> u_balance x"
proof -
  have i: "rows_wf d" "secured (late u) now d u" "0 \<le> u_balance x"
    using prepaid_reachable_within [OF assms(1,2)] assms(3) by (auto simp: prepaid_within_def)
  have "0 \<le> user_encumbrance now d u"
    unfolding user_encumbrance_def using i(1) by (intro sum_where_nonneg) (simp add: rows_wf_def)
  then show ?thesis
    using i assms(3) by (simp add: secured_def)
qed

lemma demo_reachable:
  "prepaid_reachable exact_decimal demo_text demo_cal (1000, demo_admitted) (\<lambda>_. 0) (1100, demo_admitted)"
  using prepaid_reachable.step [OF prepaid_reachable.here prepaid_step.tick, of 1000 1100 exact_decimal demo_text demo_cal demo_admitted]
  by simp

lemma demo_admitted_simps:
  "users demo_admitted 1 = Some demo_user" "key_user demo_admitted 5 = Some 1" "reservations demo_admitted = [demo_reservation]"
  by (simp_all add: demo_admitted_def demo_db_def key_user_def demo_key_def)

lemma prepaid_solvency_witness: "user_encumbrance 1100 demo_admitted 1 \<le> 20"
  using prepaid_solvency [OF demo_reachable demo_prepaid(2) demo_admitted_simps(1)] by (simp add: demo_user_def)

text \<open>C5: In the prepaid machine a settle of a live or owed reservation by its owner's key is never refused by
  the overdraft trigger, unless an earlier settle or intent of that user came after its reservation had expired:
  the debit it asks for is always covered.\<close>

theorem prepaid_settle_covered:
  assumes "prepaid_reachable D T cal start late (now, d)" "prepaid_inv start" "late (si_user_id i) = 0"
    and "\<forall>r \<in> set (reservations d). r_id r = rid \<and> r_key r = kid \<longrightarrow>
      now < r_expires_at r \<or> r_intent r \<noteq> None"
    and "key_user d kid = Some (si_user_id i)"
  shows "fst (settle_once D T cal now rid kid i d) \<noteq> Inl RAISE_EXCEPTION"
proof -
  have "rows_wf d" "secured 0 now d (si_user_id i)"
    using prepaid_reachable_within [OF assms(1,2)] assms(3) by (auto simp: prepaid_within_def dest: spec [of _ "si_user_id i"])
  then show ?thesis
    using assms(4,5) by (intro settle_once_no_overdraft) (auto simp: owed_row_def encumbers_def)
qed

lemma prepaid_settle_covered_witness:
  "fst (settle_once exact_decimal demo_text demo_cal 1100 77 5 demo_intent demo_admitted) \<noteq> Inl RAISE_EXCEPTION"
proof -
  have "\<forall>r \<in> set (reservations demo_admitted). r_id r = 77 \<and> r_key r = 5 \<longrightarrow>
      1100 < r_expires_at r \<or> r_intent r \<noteq> None"
    by (simp add: demo_admitted_simps demo_reservation_def)
  moreover have "key_user demo_admitted 5 = Some (si_user_id demo_intent)"
    by (simp add: demo_admitted_simps demo_intent_def intent_new_def demo_session_def)
  ultimately show ?thesis
    by (rule prepaid_settle_covered [OF demo_reachable demo_prepaid(2) refl])
qed

section \<open>Settlement\<close>

text \<open>C3: A settle that commits charges exactly once and exactly the owed amount: it records one usage event at
  the settled cost, removes the reservation it settles and no other, and debits the owner by that cost or by
  what was reserved, whichever is less, in one ledger row that names the request; without the credits
  requirement it moves no money.\<close>

theorem settle_charges_exactly:
  assumes "settle_once D T cal now rid kid i d = (Inr Settled, d')"
  shows "\<exists>row r charge ev. row \<in> set (reservations d) \<and> r_id row = rid \<and> r_key row = kid \<and> r_released_at row = None \<and>
    to_record T i = Inr r \<and> settled_cost D cal now (si_user_id i) r d = Inr charge \<and>
    events d' = events d @ [ev] \<and> e_request ev = rid \<and> e_cost ev = fst charge \<and>
    reservations d' = List.filter (\<lambda>x. \<not> (r_id x = rid \<and> r_key x = kid \<and> r_released_at x = None)) (reservations d) \<and>
    debited_exactly now rid (si_user_id i) (if si_require_credits i then min (fst charge) (r_cost row) else 0) d d'"
  using assms
proof (rule settle_once_charges)
  fix row r charge ev
  assume row: "List.find (owed_row rid kid) (reservations d) = Some row"
    and rest: "to_record T i = Inr r" "settled_cost D cal now (si_user_id i) r d = Inr charge"
      "events d' = events d @ [ev]" "e_request ev = rid" "e_cost ev = fst charge"
      "debited_exactly now rid (si_user_id i) (if si_require_credits i then min (fst charge) (r_cost row) else 0) d d'"
  have "row \<in> set (reservations d) \<and> r_id row = rid \<and> r_key row = kid \<and> r_released_at row = None"
    using find_SomeD [OF row] by (simp add: owed_row_def)
  moreover have "reservations d' = List.filter (\<lambda>x. \<not> (r_id x = rid \<and> r_key x = kid \<and> r_released_at x = None)) (reservations d)"
    using assms by (rule settle_once_effect) (simp add: owed_row_def [abs_def])
  ultimately show ?thesis
    using rest by blast
qed

lemma settle_charges_exactly_witness:
  "\<exists>row. row \<in> set (reservations demo_admitted) \<and> r_id row = 77 \<and> length (events demo_settled) = length (events demo_admitted) + 1"
  using settle_charges_exactly [OF demo_settles] by auto

text \<open>C4: The retry loop of a settlement, under any pattern of failures before the transaction and of commits
  whose acknowledgement was lost, charges at most once: either users, ledger and events are as they were, or
  there was no event for the request, there is exactly one now, its reservation is gone and one debit of at
  most the reserved cost was posted.\<close>

theorem retry_charges_at_most_once:
  assumes "rows_wf d" "settle_with_retry D T cal env rid kid i d = (out, d')"
  shows "(users d' = users d \<and> ledger d' = ledger d \<and> events d' = events d) \<or>
    (\<exists>row \<in> set (reservations d). \<exists>ev. r_id row = rid \<and> r_released_at row = None \<and>
       (\<forall>e \<in> set (events d). e_request e \<noteq> rid) \<and> events d' = events d @ [ev] \<and> e_request ev = rid \<and>
       rid \<notin> r_id ` set (reservations d') \<and> debited rid (si_user_id i) (min (e_cost ev) (r_cost row)) d d')"
  using retry_effect [OF assms(1) assms(2) [unfolded settle_with_retry_def]]
  by (auto simp: untouched_def charged_once_def settled_db_def has_event_def owed_row_def)

definition demo_env :: environment where
  "demo_env = \<lparr> env_now = (\<lambda>n. 1100), env_settle = (\<lambda>n. if n = 1 then CommitLost PoolTimedOut else NoFault),
     env_failure = (\<lambda>n. NoFault), env_persist = (\<lambda>n. NoFault) \<rparr>"

lemma demo_settled_again:
  "settle_once exact_decimal demo_text demo_cal 1100 77 5 demo_intent demo_settled = (Inr AlreadySettled, demo_settled)"
proof -
  have "e_request demo_event = 77"
    by (simp add: demo_event_def settled_event_def)
  then show ?thesis
    by (simp add: settle_once_def demo_to_record demo_snapshot demo_counts bind_result_def demo_settled_def demo_db_def)
qed

lemma demo_retry:
  "settle_with_retry exact_decimal demo_text demo_cal demo_env 77 5 demo_intent demo_admitted = (Inr (), demo_settled)"
proof -
  have "record_settle_failure demo_text 1100 77 PoolTimedOut demo_settled = (Inr None, demo_settled)"
    by (simp add: record_settle_failure_def demo_settled_def demo_db_def)
  moreover have "is_transient PoolTimedOut"
    by simp
  ultimately show ?thesis
    by (simp add: settle_with_retry_def settle_with_retry_from.simps [of 1] settle_with_retry_from.simps [of 2]
        demo_env_def faulty_def demo_settles demo_settled_again SETTLEMENT_ATTEMPTS_def numeral_2_eq_2 [symmetric]
        del: One_nat_def)
qed

lemma demo_rows_wf: "rows_wf demo_admitted"
  using demo_prepaid(2) by (simp add: prepaid_inv_def)

lemma retry_charges_at_most_once_witness:
  "events demo_settled = events demo_admitted \<or> (\<exists>ev. events demo_settled = events demo_admitted @ [ev] \<and> e_request ev = 77)"
  using retry_charges_at_most_once [OF demo_rows_wf demo_retry] by blast

text \<open>C33: When the retry loop reports success the debt is resolved: the request has its usage event, or an
  operator had forgiven its reservation.\<close>

theorem retry_success_means_settled:
  assumes "rows_wf d" "settle_with_retry D T cal env rid kid i d = (Inr (), d')"
  shows "(\<exists>e \<in> set (events d'). e_request e = rid) \<or> (\<exists>r \<in> set (reservations d'). r_id r = rid \<and> r_released_at r \<noteq> None)"
  using retry_done [OF assms(1) assms(2) [unfolded settle_with_retry_def]] by (simp add: has_event_def)

lemma retry_success_means_settled_witness:
  "(\<exists>e \<in> set (events demo_settled). e_request e = 77) \<or> (\<exists>r \<in> set (reservations demo_settled). r_id r = 77 \<and> r_released_at r \<noteq> None)"
  using retry_success_means_settled [OF demo_rows_wf demo_retry] .

text \<open>A quarantined reservation an operator released is forgiven for good: the release moves no money and
  encumbers no one, and no later settle of that request charges it.\<close>

theorem released_is_never_collected:
  assumes "release_quarantined_reservation now rid memo forgive d = (Inr (Released t owed amount), d')" "rows_wf d"
  shows "users d' = users d \<and> ledger d' = ledger d \<and> events d' = events d \<and>
    (\<forall>r \<in> set (reservations d'). r_id r = rid \<longrightarrow> \<not> encumbers later r) \<and>
    snd (settle_once D T cal later rid kid i d') = d' \<and> fst (settle_once D T cal later rid kid i d') \<noteq> Inr Settled"
proof -
  obtain r where r: "List.find (\<lambda>r. r_id r = rid) (reservations d) = Some r"
    and d': "d' = d\<lparr> reservations := update_where (\<lambda>x. r_id x = rid \<and> r_released_at x = None)
       (\<lambda>x. x\<lparr> r_released_at := Some now, r_released_note := Some (trim memo) \<rparr>) (reservations d) \<rparr>"
    using assms(1) by (rule released_row)
  have rel: "\<forall>x \<in> set (reservations d'). r_id x = rid \<longrightarrow> r_released_at x \<noteq> None"
    by (auto simp: d' elim!: update_whereE split: if_splits)
  then have none: "List.find (owed_row rid kid) (reservations d') = None"
    by (auto simp: find_None_iff owed_row_def)
  have "List.map r_id (reservations d') = List.map r_id (reservations d)"
    by (simp add: d' map_update_where)
  then have "rid \<in> r_id ` set (reservations d')"
    using find_SomeD [OF r] by (metis image_eqI list.set_map)
  then have ex: "list_ex (\<lambda>x. r_id x = rid \<and> r_released_at x \<noteq> None) (reservations d')"
    using rel by (force simp: list_ex_iff)
  have "snd (settle_once D T cal later rid kid i d') = d' \<and> fst (settle_once D T cal later rid kid i d') \<noteq> Inr Settled"
    by (simp only: settle_once_def none ex if_True option.case)
      (simp split: sum.split prod.split)
  moreover have "\<forall>r \<in> set (reservations d'). r_id r = rid \<longrightarrow> \<not> encumbers later r"
    using rel by (auto simp: encumbers_def)
  ultimately show ?thesis
    by (simp add: d')
qed

definition demo_quarantined :: db where
  "demo_quarantined = demo_admitted\<lparr> reservations := [demo_reservation\<lparr> r_intent := Some (Readable demo_intent),
     r_quarantined_at := Some 2300 \<rparr>] \<rparr>"

lemma demo_release:
  "fst (release_quarantined_reservation 2400 77 ''waived'' True demo_quarantined) = Inr (Released 2400 True (Some 7))"
  by (simp add: release_quarantined_reservation_def demo_quarantined_def demo_admitted_def demo_reservation_def trim_eval key_user_def demo_db_def demo_key_def Let_def demo_intent_def intent_new_def demo_text_def
      demo_record_def demo_cost)

lemma released_is_never_collected_witness:
  "ledger (snd (release_quarantined_reservation 2400 77 ''waived'' True demo_quarantined)) = ledger demo_quarantined"
proof -
  have "rows_wf demo_quarantined"
    by (simp add: rows_wf_def demo_quarantined_def demo_admitted_def demo_db_def demo_reservation_def)
  then show ?thesis
    using released_is_never_collected [of 2400 77 "''waived''" True demo_quarantined 2400 True "Some 7"] demo_release
    by (metis prod.collapse)
qed

section \<open>Admission\<close>

text \<open>C6: An admission that holds a reservation leaves every limit respected with that reservation counted in:
  the key's and the user's monthly spend, their token velocity, and, when credits are required, the balance;
  the key was usable and the account not frozen.\<close>

theorem admission_respects_limits:
  assumes "begin_usage_session cal now fresh q d = (Inr (Allowed s), d')" "rows_wf d" "aq_lane q = Reserved"
  shows "\<exists>k \<in> set (api_keys d). key_usable now q k \<and> caps_hold cal now (aq_user q) k d' \<and>
    (\<exists>x. users d' (aq_user q) = Some x \<and> u_frozen_at x = None \<and>
       (aq_require_credits q \<longrightarrow> user_encumbrance now d' (aq_user q) \<le> u_balance x))"
  using admission_caps_hold [OF assms] .

lemma admission_respects_limits_witness:
  "\<exists>k \<in> set (api_keys demo_db). caps_hold demo_cal 1000 1 k (snd (begin_usage_session demo_cal 1000 77 demo_request demo_db))"
proof -
  obtain d' where d': "begin_usage_session demo_cal 1000 77 demo_request demo_db = (Inr (Allowed demo_session), d')"
    using demo_admission by (metis prod.collapse)
  have "rows_wf demo_db" "aq_lane demo_request = Reserved" "aq_user demo_request = 1"
    using demo_prepaid(1) by (simp_all add: prepaid_inv_def demo_request_def)
  with admission_respects_limits [OF d'] d' show ?thesis
    by auto
qed

text \<open>An admission never moves money or records usage, and one that does not allow the request leaves no
  trace at all: whichever gate refuses it, every write of the transaction is rolled back.\<close>

theorem admission_refused_leaves_no_trace:
  assumes "begin_usage_session cal now fresh q d = (out, d')"
  shows "users d' = users d \<and> ledger d' = ledger d \<and> events d' = events d \<and> rollup d' = rollup d \<and>
    (if \<exists>s. out = Inr (Allowed s) then True else d' = d)"
  using begin_frame [OF assms] begin_not_allowed [OF assms] by auto

lemma admission_refused_leaves_no_trace_witness:
  "begin_usage_session demo_cal 1000 77 (demo_request\<lparr> aq_key := 9 \<rparr>) demo_db = (Inr Unauthorized, demo_db)"
proof -
  have "fst (begin_usage_session demo_cal 1000 77 (demo_request\<lparr> aq_key := 9 \<rparr>) demo_db) = Inr Unauthorized"
    by (simp add: begin_usage_session_def demo_request_def sizing_cold_def size_negative_def demo_size_def Let_def
        demo_db_def key_usable_def demo_key_def)
  then show ?thesis
    using admission_refused_leaves_no_trace
      [of demo_cal 1000 77 "demo_request\<lparr> aq_key := 9 \<rparr>" demo_db "Inr Unauthorized"]
    by (cases "begin_usage_session demo_cal 1000 77 (demo_request\<lparr> aq_key := 9 \<rparr>) demo_db") auto
qed

text \<open>The sweep of expired reservations only ever discards a hold that owes nothing: a reservation that is
  live, dispatched, released or carries a settlement intent survives it with its cost and its debt, an expired
  one of these that may still owe is quarantined, and no user's encumbrance changes, now or later.\<close>

theorem sweep_keeps_debts:
  assumes "now \<le> later"
  shows "(\<forall>r \<in> set (reservations d). now < r_expires_at r \<or> r_intent r \<noteq> None \<or> r_dispatched_at r \<noteq> None \<or> r_released_at r \<noteq> None \<longrightarrow>
      (\<exists>r' \<in> set (reservations (sweep_expired now d)). r_id r' = r_id r \<and> r_key r' = r_key r \<and> r_cost r' = r_cost r \<and>
         r_intent r' = r_intent r \<and> r_released_at r' = r_released_at r \<and>
         (r_expires_at r \<le> now \<and> (r_intent r \<noteq> None \<or> r_dispatched_at r \<noteq> None) \<longrightarrow> r_quarantined_at r' \<noteq> None))) \<and>
    user_encumbrance later (sweep_expired now d) u = user_encumbrance later d u"
proof (intro conjI ballI impI)
  fix r
  assume r: "r \<in> set (reservations d)"
    and keep: "now < r_expires_at r \<or> r_intent r \<noteq> None \<or> r_dispatched_at r \<noteq> None \<or> r_released_at r \<noteq> None"
  let ?r = "if quarantinable now r then quarantine_row now r else r"
  have "\<not> reclaimable now r"
    using keep by (auto simp: reclaimable_def)
  with r have "?r \<in> set (reservations (sweep_expired now d))"
    using set_sweep by blast
  moreover have "r_expires_at r \<le> now \<and> (r_intent r \<noteq> None \<or> r_dispatched_at r \<noteq> None) \<longrightarrow> r_quarantined_at ?r \<noteq> None"
    by (auto simp: quarantinable_def quarantine_row_def)
  ultimately show "\<exists>r' \<in> set (reservations (sweep_expired now d)). r_id r' = r_id r \<and> r_key r' = r_key r \<and> r_cost r' = r_cost r \<and>
         r_intent r' = r_intent r \<and> r_released_at r' = r_released_at r \<and>
         (r_expires_at r \<le> now \<and> (r_intent r \<noteq> None \<or> r_dispatched_at r \<noteq> None) \<longrightarrow> r_quarantined_at r' \<noteq> None)"
    by (intro bexI [of _ ?r]) auto
next
  show "user_encumbrance later (sweep_expired now d) u = user_encumbrance later d u"
    by (rule user_encumbrance_sweep [OF assms])
qed

lemma sweep_keeps_debts_witness:
  "user_encumbrance 2600 (sweep_expired 2500 demo_quarantined) 1 = user_encumbrance 2600 demo_quarantined 1"
  using sweep_keeps_debts [of 2500 2600 demo_quarantined 1] by simp

section \<open>Credits, reversals and recharges\<close>

text \<open>A Stripe session credits a purchase once: after the credit, whatever else runs, a replay for the same
  session reports it as applied and changes nothing.\<close>

theorem purchase_credited_once:
  assumes "credit_purchase now u amount session intent d = (Inr (Applied b), d1)" "0 < amount'"
  shows "credit_purchase now' u' amount' session intent' (foldl (\<lambda>d p. run_op D T cal p d) d1 ps)
    = (Inr AlreadyApplied, foldl (\<lambda>d p. run_op D T cal p d) d1 ps)"
proof -
  have s: "trim session \<noteq> []"
    using assms(1) by (auto simp: credit_purchase_def split: if_splits)
  obtain l where l: "l \<in> set (ledger d1)" "l_session l = Some session"
    using credit_purchase_row [OF assms(1)] by blast
  then have "l \<in> set (ledger (foldl (\<lambda>d p. run_op D T cal p d) d1 ps))"
    using ledger.entry_survives [of l d1 D T cal ps] by (simp add: ledger.run_all_def)
  then have "list_ex (\<lambda>l. l_session l = Some session) (ledger (foldl (\<lambda>d p. run_op D T cal p d) d1 ps))"
    using l(2) by (auto simp: list_ex_iff)
  then show ?thesis
    using s assms(2) by (simp add: credit_purchase_def)
qed

definition demo_credited :: db where
  "demo_credited = snd (credit_purchase 10 1 5 ''cs_2'' None demo_db)"

lemma demo_credit: "credit_purchase 10 1 5 ''cs_2'' None demo_db = (Inr (Applied 25), demo_credited)"
proof -
  have "fst (credit_purchase 10 1 5 ''cs_2'' None demo_db) = Inr (Applied 25)"
    by (simp add: credit_purchase_def trim_eval demo_db_def demo_purchase_def transact_def post_def
        update_balance_def demo_user_def bind_result_def insert_ledger_def ledger_checks_def ledger_unique_def entry_def Let_def)
  then show ?thesis
    by (metis demo_credited_def prod.collapse)
qed

lemma purchase_credited_once_witness:
  "credit_purchase 20 1 5 ''cs_2'' None demo_credited = (Inr AlreadyApplied, demo_credited)"
  using purchase_credited_once [OF demo_credit, of 5 20 1 None exact_decimal demo_text demo_cal "[]"] by simp

text \<open>A refund or chargeback takes a credit back exactly, and once: the credited user is debited by the
  credited amount in one ledger row that names the payment intent, and after that, whatever else runs, a
  further reversal of the same payment changes nothing.\<close>

theorem reversal_takes_back_once:
  assumes "reverse_purchase now intent obj memo d = (Inr (Reversed amount balance), d1)" "trim obj' \<noteq> []"
  shows "\<exists>c x. credited_purchase intent d = Some c \<and> amount = l_amount c \<and> users d (l_user c) = Some x \<and>
      balance = u_balance x - amount \<and> users d1 = (users d)(l_user c \<mapsto> x\<lparr> u_balance := balance \<rparr>) \<and>
      reverse_purchase now' intent obj' memo' (foldl (\<lambda>d p. run_op D T cal p d) d1 ps)
        = (Inr AlreadyReversed, foldl (\<lambda>d p. run_op D T cal p d) d1 ps)"
proof -
  let ?e = "foldl (\<lambda>d p. run_op D T cal p d) d1 ps"
  obtain c x l where c: "credited_purchase intent d = Some c" "amount = l_amount c" "users d (l_user c) = Some x"
      "balance = u_balance x - amount" "users d1 = (users d)(l_user c \<mapsto> x\<lparr> u_balance := balance \<rparr>)"
      "ledger d1 = ledger d @ [l]" "l_type l = Refund" "l_payment_intent l = Some intent"
    using reverse_purchase_Reversed [OF assms(1)] by blast
  obtain ls where ls: "ledger ?e = ledger d @ [l] @ ls"
    using ledger.run_all_grows [of d1 D T cal ps] c(6) by (auto simp: ledger.run_all_def ledger_grows_def)
  have "credited_purchase intent ?e = Some c"
    using c(1) by (simp add: credited_purchase_def ls find_append)
  moreover have "list_ex (reversed_already obj' intent) (ledger ?e)"
    using c(7,8) by (simp add: ls reversed_already_def)
  ultimately have "reverse_purchase now' intent obj' memo' ?e = (Inr AlreadyReversed, ?e)"
    using assms(2) by (simp add: reverse_purchase_def)
  then show ?thesis
    using c by blast
qed

definition demo_reversed :: db where
  "demo_reversed = snd (reverse_purchase 30 ''pi_1'' ''re_1'' ''refund'' demo_db)"

lemma demo_reverse: "reverse_purchase 30 ''pi_1'' ''re_1'' ''refund'' demo_db = (Inr (Reversed 20 0), demo_reversed)"
proof -
  have "fst (reverse_purchase 30 ''pi_1'' ''re_1'' ''refund'' demo_db) = Inr (Reversed 20 0)"
    by (simp add: reverse_purchase_def trim_eval demo_db_def demo_purchase_def credited_purchase_def credit_of_def
        reversed_already_def transact_def post_def update_balance_def demo_user_def bind_result_def insert_ledger_def
        ledger_checks_def ledger_unique_def entry_def Let_def)
  then show ?thesis
    by (metis demo_reversed_def prod.collapse)
qed

lemma reversal_takes_back_once_witness:
  "reverse_purchase 40 ''pi_1'' ''dp_1'' ''dispute'' demo_reversed = (Inr AlreadyReversed, demo_reversed)"
proof -
  have "trim ''dp_1'' \<noteq> []"
    by (simp add: trim_eval)
  from reversal_takes_back_once [OF demo_reverse this, of 40 "''dispute''" exact_decimal demo_text demo_cal "[]"]
  show ?thesis
    by auto
qed

text \<open>C32: A recharge is credited at most once: once a payment intent credited its user, no later settle of that
  intent credits again, whatever ran in between and whatever recovery tuple it is called with.\<close>

theorem recharge_credited_once:
  assumes "settle_autopay_intent now intent recovered d = (Inr Credited, d1)"
  shows "fst (settle_autopay_intent now' intent recovered' (foldl (\<lambda>d p. run_op D T cal p d) d1 ps)) \<noteq> Inr Credited"
proof
  let ?e = "foldl (\<lambda>d p. run_op D T cal p d) d1 ps"
  assume "fst (settle_autopay_intent now' intent recovered' ?e) = Inr Credited"
  then obtain d2 where d2: "settle_autopay_intent now' intent recovered' ?e = (Inr Credited, d2)"
    by (metis prod.collapse)
  obtain l where l: "l \<in> set (ledger d1)" "l_session l = Some intent"
    using recharge_row [OF assms] by blast
  then have "l \<in> set (ledger ?e)"
    using ledger.entry_survives [of l d1 D T cal ps] by (simp add: ledger.run_all_def)
  with recharge_fresh [OF d2] l(2) show False
    by blast
qed

text \<open>A recharge whose account is no longer eligible is withheld: no balance and no ledger row changes, and the
  intent is final, so settling it again credits nothing either.\<close>

theorem withheld_recharge_moves_nothing:
  assumes "settle_autopay_intent now intent recovered d = (Inr AutopayWithheld, d1)"
    and "settle_autopay_intent now' intent recovered' d1 = (r, d2)"
  shows "users d1 = users d \<and> ledger d1 = ledger d \<and> users d2 = users d \<and> ledger d2 = ledger d \<and> r \<noteq> Inr Credited"
proof -
  have "intent_final intent d1"
    using settle_makes_final [OF assms(1)] by simp
  moreover have "users d1 = users d \<and> ledger d1 = ledger d"
    by (rule withheld_frame [OF assms(1)])
  ultimately show ?thesis
    using settle_final_noop [OF _ assms(2)] by auto
qed

text \<open>A charge is claimed before Stripe is called only for an account that asked for it, at the amount it chose,
  below its threshold, neither frozen nor in debt nor failing, and with no other recharge pending; the claim
  adds one pending row and moves no money.\<close>

theorem claim_requires_eligibility:
  assumes "claim_autopay_attempt now u amount charge key d = (Inr True, d')"
  shows "\<exists>x t. users d u = Some x \<and> u_autopay_enabled x \<and> u_autopay_topup x = Some amount \<and>
    u_autopay_threshold x = Some t \<and> u_balance x < t \<and> u_frozen_at x = None \<and> 0 \<le> u_balance x \<and>
    u_autopay_failures x < 3 \<and> 0 < amount \<and> amount \<le> charge \<and> \<not> has_pending u d \<and>
    d' = d\<lparr> autopay_intents := autopay_intents d @ [new_autopay_intent now (''local_'' @ key) u amount charge] \<rparr>"
  using assms
  by (auto simp: claim_autopay_attempt_def transact_def insert_autopay_def autopay_checks_def autopay_conflict_def
      autopay_eligible_def new_autopay_intent_def split: option.splits if_splits)

definition demo_claimed :: db where
  "demo_claimed = demo_db\<lparr> autopay_intents := [new_autopay_intent 50 ''local_a'' 1 30 32] \<rparr>"

lemma demo_claim: "claim_autopay_attempt 50 1 30 32 ''a'' demo_db = (Inr True, demo_claimed)"
  by (simp add: claim_autopay_attempt_def demo_db_def demo_user_def autopay_eligible_def transact_def insert_autopay_def
      autopay_checks_def autopay_conflict_def new_autopay_intent_def opt_nonneg_def has_pending_def demo_claimed_def)

lemma claim_requires_eligibility_witness: "\<not> has_pending 1 demo_db \<and> (0 :: rat) < 30"
  using claim_requires_eligibility [OF demo_claim] by blast

lemma demo_recharge:
  "fst (settle_autopay_intent 60 ''local_a'' None demo_claimed) = Inr Credited"
  by (simp add: settle_autopay_intent_def insert_recovered_def settle_pending_def demo_claimed_def demo_db_def
      pending_intent_def new_autopay_intent_def set_status_def demo_user_def autopay_eligible_def autopay_credit_def
      post_def update_balance_def bind_result_def insert_ledger_def ledger_checks_def ledger_unique_def entry_def
      demo_purchase_def apply_observed_reversals_def pending_reversals_def Let_def)

lemma recharge_credited_once_witness:
  "fst (settle_autopay_intent 70 ''local_a'' None (snd (settle_autopay_intent 60 ''local_a'' None demo_claimed))) \<noteq> Inr Credited"
proof -
  obtain d1 where d1: "settle_autopay_intent 60 ''local_a'' None demo_claimed = (Inr Credited, d1)"
    using demo_recharge by (metis prod.collapse)
  from recharge_credited_once [OF d1, of 70 None exact_decimal demo_text demo_cal "[]"] d1 show ?thesis
    by simp
qed

definition demo_frozen :: db where
  "demo_frozen = demo_claimed\<lparr> users := [1 \<mapsto> demo_user\<lparr> u_frozen_at := Some 55 \<rparr>] \<rparr>"

lemma demo_withheld:
  "fst (settle_autopay_intent 60 ''local_a'' None demo_frozen) = Inr AutopayWithheld"
  by (simp add: settle_autopay_intent_def insert_recovered_def settle_pending_def demo_claimed_def demo_frozen_def demo_db_def
      pending_intent_def new_autopay_intent_def set_status_def demo_user_def autopay_eligible_def Let_def)

lemma withheld_recharge_moves_nothing_witness:
  "users (snd (settle_autopay_intent 60 ''local_a'' None demo_frozen)) 1 = Some (demo_user\<lparr> u_frozen_at := Some 55 \<rparr>)"
proof -
  obtain d1 where d1: "settle_autopay_intent 60 ''local_a'' None demo_frozen = (Inr AutopayWithheld, d1)"
    using demo_withheld by (metis prod.collapse)
  obtain r d2 where "settle_autopay_intent 70 ''local_a'' None d1 = (r, d2)"
    by fastforce
  from withheld_recharge_moves_nothing [OF d1 this] d1 show ?thesis
    by (simp add: demo_frozen_def)
qed

end
